(* ===== verification/BV_Prelude.thy ===== *)
theory BV_Prelude
  imports Main "HOL-Library.Word" "HOL-Library.While_Combinator"
begin

text \<open>
  Shared material of the development: the fixed-width integer types, the result type of
  the fallible C++ functions (an error message, or a value), pointer/size pairs, decimal and
  hexadecimal rendering, and the list and set lemmas the component theories use.
  The collection \<open>res_simps\<close> holds the inversion rules of the result type.
\<close>

named_theorems res_simps "inversion rules for the result type"

section \<open>Fixed-width integers\<close>

type_synonym u8 = "8 word"
type_synonym u16 = "16 word"
type_synonym u32 = "32 word"
type_synonym u64 = "64 word"

section \<open>Results\<close>

text \<open>
  A C++ function that fills an \<^verbatim>\<open>std::string& error\<close> and returns \<^verbatim>\<open>false\<close>, or that throws
  \<^verbatim>\<open>std::runtime_error\<close>, returns \<^term>\<open>Inl msg\<close>; one that succeeds returns \<^term>\<open>Inr v\<close>.
\<close>

type_synonym 'a res = "string + 'a"

definition andthen :: "'e + 'a \<Rightarrow> ('a \<Rightarrow> 'e + 'b) \<Rightarrow> 'e + 'b" where
  "andthen m f = (case m of Inl e \<Rightarrow> Inl e | Inr x \<Rightarrow> f x)"

definition require :: "bool \<Rightarrow> 'e \<Rightarrow> 'e + unit" where
  "require c e = (if c then Inr () else Inl e)"

lemma andthen_Inl [simp]: "andthen (Inl e) f = Inl e"
  by (simp add: andthen_def)

lemma andthen_Inr [simp]: "andthen (Inr x) f = f x"
  by (simp add: andthen_def)

lemma andthen_eq_Inr [res_simps]:
  "andthen m f = Inr y \<longleftrightarrow> (\<exists>x. m = Inr x \<and> f x = Inr y)"
  by (cases m) simp_all

lemma andthen_eq_Inl [res_simps]:
  "andthen m f = Inl e \<longleftrightarrow> m = Inl e \<or> (\<exists>x. m = Inr x \<and> f x = Inl e)"
  by (cases m) simp_all

lemma andthen_cong [fundef_cong]:
  "m = m' \<Longrightarrow> (\<And>x. m' = Inr x \<Longrightarrow> f x = g x) \<Longrightarrow> andthen m f = andthen m' g"
  by (cases m') simp_all

lemma require_eq_Inr [res_simps]: "require c e = Inr u \<longleftrightarrow> c"
  by (simp add: require_def)

lemma require_eq_Inl [res_simps]: "require c e = Inl e' \<longleftrightarrow> \<not> c \<and> e' = e"
  by (auto simp: require_def)

lemma require_True [simp]: "require True e = Inr ()"
  by (simp add: require_def)

lemma require_False [simp]: "require False e = Inl e"
  by (simp add: require_def)

section \<open>Pointer and size pairs\<close>

text \<open>
  A C array stored as a pointer with a separate size field: the cells of the allocation, or a
  null pointer beside whatever the size field says.
\<close>

datatype 'a carray = CArray "'a list" | CNull int

fun csize :: "'a carray \<Rightarrow> int" where
  "csize (CArray xs) = int (length xs)"
| "csize (CNull n) = n"

fun cells :: "'a carray \<Rightarrow> 'a list" where
  "cells (CArray xs) = xs"
| "cells (CNull n) = []"

fun is_null :: "'a carray \<Rightarrow> bool" where
  "is_null (CArray xs) = False"
| "is_null (CNull n) = True"

lemma csize_cells: "\<not> (is_null x \<and> csize x \<noteq> 0) \<Longrightarrow> csize x = int (length (cells x))"
  by (cases x) auto

section \<open>Decimal and hexadecimal text\<close>

definition digit_char :: "nat \<Rightarrow> char" where
  "digit_char d = char_of (if d < 10 then 48 + d else 87 + d)"

fun nat_text :: "nat \<Rightarrow> string" where
  "nat_text n = (if n < 10 then [digit_char n] else nat_text (n div 10) @ [digit_char (n mod 10)])"

declare nat_text.simps [simp del]

definition int_text :: "int \<Rightarrow> string" where
  "int_text i = (if i < 0 then ''-'' @ nat_text (nat (- i)) else nat_text (nat i))"

lemma nat_text_nonempty [simp]: "nat_text n \<noteq> []"
  by (subst nat_text.simps) simp

section \<open>Lists\<close>

lemma takeWhile_upto_less:
  "takeWhile (\<lambda>r. r < k) [i..j] = [i..min j (k - 1)]"
proof (induction "nat (j - i + 1)" arbitrary: i)
  case 0
  then show ?case by simp
next
  case (Suc n)
  then have ij: "i \<le> j" by simp
  have IH: "takeWhile (\<lambda>r. r < k) [i + 1..j] = [i + 1..min j (k - 1)]"
    by (rule Suc.hyps(1)) (use Suc.hyps(2) in simp)
  show ?case
    using ij IH by (cases "i \<le> min j (k - 1)") (auto simp: upto_rec1 [of i])
qed

lemma nth_list_update_if:
  "i < length xs \<Longrightarrow> xs[i := v] ! j = (if j = i then v else xs ! j)"
  by simp

lemma sorted_list_of_set_nth_strict:
  assumes "finite (A :: nat set)" "i < j" "j < card A"
  shows "sorted_list_of_set A ! i < sorted_list_of_set A ! j"
  using assms strict_sorted_list_of_set [of A]
  by (simp add: sorted_wrt_iff_nth_less)

end
