(* ===== verification/Luau_Bytecode.thy ===== *)
theory Luau_Bytecode
  imports BV_Prelude
begin

unbundle bit_operations_syntax

text \<open>
  The Luau instruction encoding the analyses read: the opcode numbers of
  \<^verbatim>\<open>luau/Common/include/Luau/Bytecode.h\<close>, the field macros \<^verbatim>\<open>LUAU_INSN_*\<close>, and the opcode
  predicates of \<^verbatim>\<open>luau/Common/include/Luau/BytecodeUtils.h\<close>. \<^verbatim>\<open>LuauOpcode\<close> is a C
  enumeration that the code casts from any integer and extends with out-of-range sentinels
  (\<^verbatim>\<open>byteveil_decompiler/Common.h\<close>), so an opcode is a number here and the enumerators are
  abbreviations for numerals.
\<close>

section \<open>Opcode numbers\<close>

type_synonym luau_opcode = nat

abbreviation (input) LOP_NOP :: nat where "LOP_NOP \<equiv> 0"
abbreviation (input) LOP_BREAK :: nat where "LOP_BREAK \<equiv> 1"
abbreviation (input) LOP_LOADNIL :: nat where "LOP_LOADNIL \<equiv> 2"
abbreviation (input) LOP_LOADB :: nat where "LOP_LOADB \<equiv> 3"
abbreviation (input) LOP_LOADN :: nat where "LOP_LOADN \<equiv> 4"
abbreviation (input) LOP_LOADK :: nat where "LOP_LOADK \<equiv> 5"
abbreviation (input) LOP_MOVE :: nat where "LOP_MOVE \<equiv> 6"
abbreviation (input) LOP_GETGLOBAL :: nat where "LOP_GETGLOBAL \<equiv> 7"
abbreviation (input) LOP_SETGLOBAL :: nat where "LOP_SETGLOBAL \<equiv> 8"
abbreviation (input) LOP_GETUPVAL :: nat where "LOP_GETUPVAL \<equiv> 9"
abbreviation (input) LOP_SETUPVAL :: nat where "LOP_SETUPVAL \<equiv> 10"
abbreviation (input) LOP_CLOSEUPVALS :: nat where "LOP_CLOSEUPVALS \<equiv> 11"
abbreviation (input) LOP_GETIMPORT :: nat where "LOP_GETIMPORT \<equiv> 12"
abbreviation (input) LOP_GETTABLE :: nat where "LOP_GETTABLE \<equiv> 13"
abbreviation (input) LOP_SETTABLE :: nat where "LOP_SETTABLE \<equiv> 14"
abbreviation (input) LOP_GETTABLEKS :: nat where "LOP_GETTABLEKS \<equiv> 15"
abbreviation (input) LOP_SETTABLEKS :: nat where "LOP_SETTABLEKS \<equiv> 16"
abbreviation (input) LOP_GETTABLEN :: nat where "LOP_GETTABLEN \<equiv> 17"
abbreviation (input) LOP_SETTABLEN :: nat where "LOP_SETTABLEN \<equiv> 18"
abbreviation (input) LOP_NEWCLOSURE :: nat where "LOP_NEWCLOSURE \<equiv> 19"
abbreviation (input) LOP_NAMECALL :: nat where "LOP_NAMECALL \<equiv> 20"
abbreviation (input) LOP_CALL :: nat where "LOP_CALL \<equiv> 21"
abbreviation (input) LOP_RETURN :: nat where "LOP_RETURN \<equiv> 22"
abbreviation (input) LOP_JUMP :: nat where "LOP_JUMP \<equiv> 23"
abbreviation (input) LOP_JUMPBACK :: nat where "LOP_JUMPBACK \<equiv> 24"
abbreviation (input) LOP_JUMPIF :: nat where "LOP_JUMPIF \<equiv> 25"
abbreviation (input) LOP_JUMPIFNOT :: nat where "LOP_JUMPIFNOT \<equiv> 26"
abbreviation (input) LOP_JUMPIFEQ :: nat where "LOP_JUMPIFEQ \<equiv> 27"
abbreviation (input) LOP_JUMPIFLE :: nat where "LOP_JUMPIFLE \<equiv> 28"
abbreviation (input) LOP_JUMPIFLT :: nat where "LOP_JUMPIFLT \<equiv> 29"
abbreviation (input) LOP_JUMPIFNOTEQ :: nat where "LOP_JUMPIFNOTEQ \<equiv> 30"
abbreviation (input) LOP_JUMPIFNOTLE :: nat where "LOP_JUMPIFNOTLE \<equiv> 31"
abbreviation (input) LOP_JUMPIFNOTLT :: nat where "LOP_JUMPIFNOTLT \<equiv> 32"
abbreviation (input) LOP_ADD :: nat where "LOP_ADD \<equiv> 33"
abbreviation (input) LOP_SUB :: nat where "LOP_SUB \<equiv> 34"
abbreviation (input) LOP_MUL :: nat where "LOP_MUL \<equiv> 35"
abbreviation (input) LOP_DIV :: nat where "LOP_DIV \<equiv> 36"
abbreviation (input) LOP_MOD :: nat where "LOP_MOD \<equiv> 37"
abbreviation (input) LOP_POW :: nat where "LOP_POW \<equiv> 38"
abbreviation (input) LOP_ADDK :: nat where "LOP_ADDK \<equiv> 39"
abbreviation (input) LOP_SUBK :: nat where "LOP_SUBK \<equiv> 40"
abbreviation (input) LOP_MULK :: nat where "LOP_MULK \<equiv> 41"
abbreviation (input) LOP_DIVK :: nat where "LOP_DIVK \<equiv> 42"
abbreviation (input) LOP_MODK :: nat where "LOP_MODK \<equiv> 43"
abbreviation (input) LOP_POWK :: nat where "LOP_POWK \<equiv> 44"
abbreviation (input) LOP_AND :: nat where "LOP_AND \<equiv> 45"
abbreviation (input) LOP_OR :: nat where "LOP_OR \<equiv> 46"
abbreviation (input) LOP_ANDK :: nat where "LOP_ANDK \<equiv> 47"
abbreviation (input) LOP_ORK :: nat where "LOP_ORK \<equiv> 48"
abbreviation (input) LOP_CONCAT :: nat where "LOP_CONCAT \<equiv> 49"
abbreviation (input) LOP_NOT :: nat where "LOP_NOT \<equiv> 50"
abbreviation (input) LOP_MINUS :: nat where "LOP_MINUS \<equiv> 51"
abbreviation (input) LOP_LENGTH :: nat where "LOP_LENGTH \<equiv> 52"
abbreviation (input) LOP_NEWTABLE :: nat where "LOP_NEWTABLE \<equiv> 53"
abbreviation (input) LOP_DUPTABLE :: nat where "LOP_DUPTABLE \<equiv> 54"
abbreviation (input) LOP_SETLIST :: nat where "LOP_SETLIST \<equiv> 55"
abbreviation (input) LOP_FORNPREP :: nat where "LOP_FORNPREP \<equiv> 56"
abbreviation (input) LOP_FORNLOOP :: nat where "LOP_FORNLOOP \<equiv> 57"
abbreviation (input) LOP_FORGLOOP :: nat where "LOP_FORGLOOP \<equiv> 58"
abbreviation (input) LOP_FORGPREP_INEXT :: nat where "LOP_FORGPREP_INEXT \<equiv> 59"
abbreviation (input) LOP_FASTCALL3 :: nat where "LOP_FASTCALL3 \<equiv> 60"
abbreviation (input) LOP_FORGPREP_NEXT :: nat where "LOP_FORGPREP_NEXT \<equiv> 61"
abbreviation (input) LOP_NATIVECALL :: nat where "LOP_NATIVECALL \<equiv> 62"
abbreviation (input) LOP_GETVARARGS :: nat where "LOP_GETVARARGS \<equiv> 63"
abbreviation (input) LOP_DUPCLOSURE :: nat where "LOP_DUPCLOSURE \<equiv> 64"
abbreviation (input) LOP_PREPVARARGS :: nat where "LOP_PREPVARARGS \<equiv> 65"
abbreviation (input) LOP_LOADKX :: nat where "LOP_LOADKX \<equiv> 66"
abbreviation (input) LOP_JUMPX :: nat where "LOP_JUMPX \<equiv> 67"
abbreviation (input) LOP_FASTCALL :: nat where "LOP_FASTCALL \<equiv> 68"
abbreviation (input) LOP_COVERAGE :: nat where "LOP_COVERAGE \<equiv> 69"
abbreviation (input) LOP_CAPTURE :: nat where "LOP_CAPTURE \<equiv> 70"
abbreviation (input) LOP_SUBRK :: nat where "LOP_SUBRK \<equiv> 71"
abbreviation (input) LOP_DIVRK :: nat where "LOP_DIVRK \<equiv> 72"
abbreviation (input) LOP_FASTCALL1 :: nat where "LOP_FASTCALL1 \<equiv> 73"
abbreviation (input) LOP_FASTCALL2 :: nat where "LOP_FASTCALL2 \<equiv> 74"
abbreviation (input) LOP_FASTCALL2K :: nat where "LOP_FASTCALL2K \<equiv> 75"
abbreviation (input) LOP_FORGPREP :: nat where "LOP_FORGPREP \<equiv> 76"
abbreviation (input) LOP_JUMPXEQKNIL :: nat where "LOP_JUMPXEQKNIL \<equiv> 77"
abbreviation (input) LOP_JUMPXEQKB :: nat where "LOP_JUMPXEQKB \<equiv> 78"
abbreviation (input) LOP_JUMPXEQKN :: nat where "LOP_JUMPXEQKN \<equiv> 79"
abbreviation (input) LOP_JUMPXEQKS :: nat where "LOP_JUMPXEQKS \<equiv> 80"
abbreviation (input) LOP_IDIV :: nat where "LOP_IDIV \<equiv> 81"
abbreviation (input) LOP_IDIVK :: nat where "LOP_IDIVK \<equiv> 82"
abbreviation (input) LOP_GETUDATAKS :: nat where "LOP_GETUDATAKS \<equiv> 83"
abbreviation (input) LOP_SETUDATAKS :: nat where "LOP_SETUDATAKS \<equiv> 84"
abbreviation (input) LOP_NAMECALLUDATA :: nat where "LOP_NAMECALLUDATA \<equiv> 85"
abbreviation (input) LOP_NEWCLASSMEMBER :: nat where "LOP_NEWCLASSMEMBER \<equiv> 86"
abbreviation (input) LOP_CALLFB :: nat where "LOP_CALLFB \<equiv> 87"
abbreviation (input) LOP_CMPPROTO :: nat where "LOP_CMPPROTO \<equiv> 88"
abbreviation (input) LOP_FASTPCALL :: nat where "LOP_FASTPCALL \<equiv> 89"
abbreviation (input) LOP_NEWCLASS :: nat where "LOP_NEWCLASS \<equiv> 90"
abbreviation (input) LOP_COUNT :: nat where "LOP_COUNT \<equiv> 91"

text \<open>The sentinels that \<^verbatim>\<open>byteveil_decompiler/Common.h\<close> places above the last opcode.\<close>

abbreviation (input) LOP_FORGLOOP_INEXT :: nat where "LOP_FORGLOOP_INEXT \<equiv> 92"
abbreviation (input) LOP_FORGLOOP_NEXT :: nat where "LOP_FORGLOOP_NEXT \<equiv> 93"

abbreviation (input) LCT_VAL :: nat where "LCT_VAL \<equiv> 0"
abbreviation (input) LCT_REF :: nat where "LCT_REF \<equiv> 1"
abbreviation (input) LCT_UPVAL :: nat where "LCT_UPVAL \<equiv> 2"

section \<open>Instruction fields\<close>

text \<open>
  The operand macros. \<open>D\<close> and \<open>E\<close> are arithmetic shifts of the word read as a signed 32-bit
  integer; the other fields are unsigned bytes.
\<close>

definition LUAU_INSN_OP :: "u32 \<Rightarrow> nat" where
  "LUAU_INSN_OP insn = unat (insn AND 255)"

definition LUAU_INSN_A :: "u32 \<Rightarrow> nat" where
  "LUAU_INSN_A insn = unat (drop_bit 8 insn AND 255)"

definition LUAU_INSN_B :: "u32 \<Rightarrow> nat" where
  "LUAU_INSN_B insn = unat (drop_bit 16 insn AND 255)"

definition LUAU_INSN_C :: "u32 \<Rightarrow> nat" where
  "LUAU_INSN_C insn = unat (drop_bit 24 insn AND 255)"

definition LUAU_INSN_D :: "u32 \<Rightarrow> int" where
  "LUAU_INSN_D insn = sint (signed_drop_bit 16 insn)"

definition LUAU_INSN_E :: "u32 \<Rightarrow> int" where
  "LUAU_INSN_E insn = sint (signed_drop_bit 8 insn)"

section \<open>Opcode predicates\<close>

definition getOpLength :: "luau_opcode \<Rightarrow> nat" where
  "getOpLength op =
    (if op \<in> {LOP_GETGLOBAL, LOP_SETGLOBAL, LOP_GETIMPORT, LOP_GETTABLEKS, LOP_SETTABLEKS,
      LOP_NAMECALL, LOP_JUMPIFEQ, LOP_JUMPIFLE, LOP_JUMPIFLT, LOP_JUMPIFNOTEQ, LOP_JUMPIFNOTLE,
      LOP_JUMPIFNOTLT, LOP_NEWTABLE, LOP_SETLIST, LOP_FORGLOOP, LOP_LOADKX, LOP_FASTCALL2,
      LOP_FASTCALL2K, LOP_FASTCALL3, LOP_JUMPXEQKNIL, LOP_JUMPXEQKB, LOP_JUMPXEQKN,
      LOP_JUMPXEQKS, LOP_GETUDATAKS, LOP_SETUDATAKS, LOP_NAMECALLUDATA, LOP_NEWCLASSMEMBER,
      LOP_CALLFB, LOP_CMPPROTO, LOP_NEWCLASS}
     then 2 else 1)"

definition isFastCall :: "luau_opcode \<Rightarrow> bool" where
  "isFastCall op \<longleftrightarrow>
    op \<in> {LOP_FASTCALL, LOP_FASTCALL1, LOP_FASTCALL2, LOP_FASTCALL2K, LOP_FASTCALL3, LOP_FASTPCALL}"

definition isJumpD :: "luau_opcode \<Rightarrow> bool" where
  "isJumpD op \<longleftrightarrow>
    op \<in> {LOP_JUMP, LOP_JUMPIF, LOP_JUMPIFNOT, LOP_JUMPIFEQ, LOP_JUMPIFLE, LOP_JUMPIFLT,
      LOP_JUMPIFNOTEQ, LOP_JUMPIFNOTLE, LOP_JUMPIFNOTLT, LOP_FORNPREP, LOP_FORNLOOP,
      LOP_FORGPREP, LOP_FORGLOOP, LOP_FORGPREP_INEXT, LOP_FORGPREP_NEXT, LOP_JUMPBACK,
      LOP_JUMPXEQKNIL, LOP_JUMPXEQKB, LOP_JUMPXEQKN, LOP_JUMPXEQKS, LOP_CMPPROTO}"

definition isSkipC :: "luau_opcode \<Rightarrow> bool" where
  "isSkipC op \<longleftrightarrow>
    op \<in> {LOP_LOADB}"

text \<open>
  \<^verbatim>\<open>getJumpTarget\<close> adds in \<^verbatim>\<open>uint32_t\<close> and converts the sum back to \<^verbatim>\<open>int\<close>, so the sums
  are 32-bit words read as signed numbers. An instruction that does not jump has target -1.
\<close>

definition getJumpTarget :: "u32 \<Rightarrow> u32 \<Rightarrow> int" where
  "getJumpTarget insn pc =
    (let op = LUAU_INSN_OP insn in
     if isJumpD op then sint (pc + word_of_int (LUAU_INSN_D insn) + 1)
     else if isFastCall op then sint (pc + of_nat (LUAU_INSN_C insn) + 2)
     else if isSkipC op \<and> LUAU_INSN_C insn \<noteq> 0 then sint (pc + of_nat (LUAU_INSN_C insn) + 1)
     else if op = LOP_JUMPX then sint (pc + word_of_int (LUAU_INSN_E insn) + 1)
     else -1)"

section \<open>Field and length bounds\<close>

lemma unat_and_255: "unat (w AND 255 :: u32) < 256"
proof -
  have "w AND 255 \<le> (255 :: u32)"
    by (rule word_and_le1)
  then have "unat (w AND 255) \<le> unat (255 :: u32)"
    by (simp add: word_le_nat_alt)
  then show ?thesis by simp
qed

lemma insn_field_bounds:
  "LUAU_INSN_OP w < 256" "LUAU_INSN_A w < 256" "LUAU_INSN_B w < 256" "LUAU_INSN_C w < 256"
  by (simp_all add: LUAU_INSN_OP_def LUAU_INSN_A_def LUAU_INSN_B_def LUAU_INSN_C_def unat_and_255)

lemma getOpLength_cases: "getOpLength op = 1 \<or> getOpLength op = 2"
  by (simp add: getOpLength_def)

lemma getOpLength_bounds [simp]: "0 < getOpLength op" "getOpLength op \<le> 2" "getOpLength op \<noteq> 0"
  by (simp_all add: getOpLength_def)

end
