(* ===== verification/IR_Instruction.thy ===== *)
theory IR_Instruction
  imports Luau_Bytecode
begin

unbundle bit_operations_syntax

text \<open>
  Instructions of the neutral IR (\<^verbatim>\<open>byteveil_decompiler/IR.cpp\<close>): the opcode predicates the
  analyses use, the semantic tag, and \<^verbatim>\<open>annotateInstruction\<close>, which computes the constant
  index, the register uses and definitions, and the purity flags of a decoded instruction.
  The lemmas show that annotation only ever records registers of the frame, without
  duplicates, and that the primary destination is the first definition.
\<close>

section \<open>Opcode predicates of IR.cpp\<close>

definition opLength :: "luau_opcode \<Rightarrow> nat" where
  "opLength op = getOpLength op"

definition hasAux :: "luau_opcode \<Rightarrow> bool" where
  "hasAux op \<longleftrightarrow> opLength op = 2"

definition isJump :: "luau_opcode \<Rightarrow> bool" where
  "isJump op \<longleftrightarrow> isJumpD op \<or> isFastCall op \<or> isSkipC op \<or> op = LOP_JUMPX"

definition isConditional :: "luau_opcode \<Rightarrow> bool" where
  "isConditional op \<longleftrightarrow>
    op \<in> {LOP_JUMPIF, LOP_JUMPIFNOT, LOP_JUMPIFEQ, LOP_JUMPIFLE, LOP_JUMPIFLT, LOP_JUMPIFNOTEQ,
      LOP_JUMPIFNOTLE, LOP_JUMPIFNOTLT, LOP_JUMPXEQKNIL, LOP_JUMPXEQKB, LOP_JUMPXEQKN,
      LOP_JUMPXEQKS, LOP_CMPPROTO, LOP_FORNPREP, LOP_FORNLOOP, LOP_FORGLOOP, LOP_FASTCALL,
      LOP_FASTCALL1, LOP_FASTCALL2, LOP_FASTCALL2K, LOP_FASTCALL3, LOP_FASTPCALL, LOP_LOADB}"

definition isReturn :: "luau_opcode \<Rightarrow> bool" where
  "isReturn op \<longleftrightarrow> op = LOP_RETURN"

definition hasRegisterA :: "luau_opcode \<Rightarrow> bool" where
  "hasRegisterA op \<longleftrightarrow>
    op \<notin> {LOP_NOP, LOP_BREAK, LOP_JUMP, LOP_JUMPBACK, LOP_JUMPX, LOP_FASTCALL, LOP_FASTCALL1,
      LOP_FASTCALL2, LOP_FASTCALL2K, LOP_FASTCALL3, LOP_FASTPCALL, LOP_NATIVECALL, LOP_COVERAGE,
      LOP_CAPTURE, LOP_PREPVARARGS}"

definition jumpTarget :: "u32 \<Rightarrow> nat \<Rightarrow> int" where
  "jumpTarget raw pc = getJumpTarget raw (of_nat pc)"

definition tag :: "luau_opcode \<Rightarrow> string" where
  "tag op =
    (if isJump op then ''control-flow''
     else if op \<in> {LOP_LOADNIL, LOP_LOADN, LOP_LOADK, LOP_LOADKX, LOP_MOVE, LOP_GETGLOBAL,
       LOP_GETUPVAL, LOP_GETIMPORT} then ''load''
     else if op \<in> {LOP_ADD, LOP_SUB, LOP_MUL, LOP_DIV, LOP_MOD, LOP_POW, LOP_ADDK, LOP_SUBK,
       LOP_MULK, LOP_DIVK, LOP_MODK, LOP_POWK, LOP_SUBRK, LOP_DIVRK, LOP_IDIV, LOP_IDIVK, LOP_AND,
       LOP_OR, LOP_ANDK, LOP_ORK, LOP_CONCAT} then ''binary''
     else if op \<in> {LOP_NOT, LOP_MINUS, LOP_LENGTH} then ''unary''
     else if op \<in> {LOP_GETTABLE, LOP_GETTABLEKS, LOP_GETTABLEN, LOP_GETUDATAKS} then ''table-read''
     else if op \<in> {LOP_SETTABLE, LOP_SETTABLEKS, LOP_SETTABLEN, LOP_SETUDATAKS, LOP_NEWTABLE,
       LOP_DUPTABLE, LOP_SETLIST} then ''table-write''
     else if op \<in> {LOP_SETGLOBAL, LOP_SETUPVAL, LOP_CLOSEUPVALS} then ''store''
     else if op \<in> {LOP_CALL, LOP_CALLFB, LOP_NAMECALL, LOP_NAMECALLUDATA} then ''call''
     else if op \<in> {LOP_NEWCLOSURE, LOP_DUPCLOSURE, LOP_CAPTURE} then ''closure''
     else if op = LOP_RETURN then ''return''
     else if op \<in> {LOP_GETVARARGS, LOP_PREPVARARGS} then ''vararg''
     else if op \<in> {LOP_NOP, LOP_BREAK, LOP_COVERAGE} then ''metadata''
     else ''unknown'')"

section \<open>The instruction record\<close>

text \<open>
  \<^verbatim>\<open>IR::Instruction\<close>. Operands \<open>A\<close>, \<open>B\<close>, \<open>C\<close> and offsets are never negative and are natural
  numbers; \<open>D\<close>, \<open>E\<close> and the fields with a -1 default are integers; \<open>AUX\<close> is a 32-bit word.
\<close>

record instruction =
  i_offset :: nat
  i_opcode :: nat
  i_length :: nat
  i_a :: nat
  i_b :: nat
  i_c :: nat
  i_d :: int
  i_e :: int
  i_aux :: u32
  i_line :: int
  i_jumpTarget :: int
  i_hasAux :: bool
  i_semanticTag :: string
  i_destinationRegister :: int
  i_constantIndex :: int
  i_sourceBlock :: int
  i_targetBlock :: int
  i_isAuxiliary :: bool
  i_isPure :: bool
  i_hasSideEffects :: bool
  i_uses :: "nat list"
  i_definitions :: "nat list"
  i_definitionVersions :: "nat list"

section \<open>Annotation\<close>

definition constantIndexOf :: "instruction \<Rightarrow> int" where
  "constantIndexOf i =
    (let op = i_opcode i in
     if op \<in> {LOP_LOADK, LOP_DUPCLOSURE, LOP_DUPTABLE, LOP_GETIMPORT} then i_d i
     else if op \<in> {LOP_GETGLOBAL, LOP_SETGLOBAL, LOP_GETTABLEKS, LOP_SETTABLEKS, LOP_NAMECALL,
       LOP_LOADKX, LOP_FASTCALL2K, LOP_NEWCLASSMEMBER, LOP_NEWCLASS} then sint (i_aux i)
     else if op \<in> {LOP_GETUDATAKS, LOP_SETUDATAKS, LOP_NAMECALLUDATA}
       then sint (i_aux i AND 0xffff)
     else if op \<in> {LOP_JUMPXEQKN, LOP_JUMPXEQKS} then sint (i_aux i AND 0x00ffffff)
     else if op \<in> {LOP_ADDK, LOP_SUBK, LOP_MULK, LOP_DIVK, LOP_MODK, LOP_POWK, LOP_ANDK, LOP_ORK,
       LOP_IDIVK} then int (i_c i)
     else if op \<in> {LOP_SUBRK, LOP_DIVRK} then int (i_b i)
     else -1)"

text \<open>
  \<^verbatim>\<open>addUse\<close> and \<^verbatim>\<open>addDef\<close> append a register to a list when it is a register of the frame that
  the list does not hold yet; \<^verbatim>\<open>addRange\<close> offers \<open>count\<close> consecutive registers and stops at the
  frame size.
\<close>

definition addReg :: "int \<Rightarrow> int \<Rightarrow> nat list \<Rightarrow> nat list" where
  "addReg registerCount r rs =
    (if 0 \<le> r \<and> r < registerCount \<and> nat r \<notin> set rs then rs @ [nat r] else rs)"

definition addRange :: "int \<Rightarrow> int \<Rightarrow> int \<Rightarrow> int list" where
  "addRange registerCount first count =
    takeWhile (\<lambda>r. r < registerCount) [first..first + count - 1]"

text \<open>
  The \<^verbatim>\<open>switch\<close> of \<^verbatim>\<open>annotateInstruction\<close>: the registers offered to \<^verbatim>\<open>addUse\<close> and to \<^verbatim>\<open>addDef\<close>,
  in program order, and whether the \<^verbatim>\<open>default\<close> branch was taken.
\<close>

definition operandRegisters :: "instruction \<Rightarrow> int \<Rightarrow> int list \<times> int list \<times> bool" where
  "operandRegisters i rc =
    (let op = i_opcode i; a = int (i_a i); b = int (i_b i); c = int (i_c i); aux = i_aux i;
         range = addRange rc in
     if op = LOP_MOVE then ([b], [a], False)
     else if op = LOP_GETTABLE then ([b, c], [a], False)
     else if op = LOP_SETTABLE then ([a, b, c], [], False)
     else if op \<in> {LOP_ADD, LOP_SUB, LOP_MUL, LOP_DIV, LOP_MOD, LOP_POW, LOP_AND, LOP_OR, LOP_IDIV}
       then ([b, c], [a], False)
     else if op \<in> {LOP_SUBRK, LOP_DIVRK} then ([c], [a], False)
     else if op = LOP_CONCAT then (if b \<le> c then range b (c - b + 1) else [], [a], False)
     else if op \<in> {LOP_GETTABLEKS, LOP_GETTABLEN, LOP_GETUDATAKS} then ([b], [a], False)
     else if op \<in> {LOP_SETTABLEKS, LOP_SETTABLEN, LOP_SETUDATAKS} then ([a, b], [], False)
     else if op \<in> {LOP_NOT, LOP_MINUS, LOP_LENGTH} then ([b], [a], False)
     else if op \<in> {LOP_ADDK, LOP_SUBK, LOP_MULK, LOP_DIVK, LOP_MODK, LOP_POWK, LOP_ANDK, LOP_ORK,
       LOP_IDIVK} then ([b], [a], False)
     else if op \<in> {LOP_NAMECALL, LOP_NAMECALLUDATA} then ([b], [a, a + 1], False)
     else if op \<in> {LOP_CALL, LOP_CALLFB} then
       (range a (if b = 0 then rc - a else b),
        if c = 0 then range a (rc - a) else if c > 1 then range a (c - 1) else [], False)
     else if op = LOP_RETURN then (range a (if b = 0 then rc - a else max 0 (b - 1)), [], False)
     else if op \<in> {LOP_JUMPIF, LOP_JUMPIFNOT, LOP_JUMPXEQKNIL, LOP_JUMPXEQKB, LOP_JUMPXEQKN,
       LOP_JUMPXEQKS, LOP_CMPPROTO} then ([a], [], False)
     else if op \<in> {LOP_JUMPIFEQ, LOP_JUMPIFLE, LOP_JUMPIFLT, LOP_JUMPIFNOTEQ, LOP_JUMPIFNOTLE,
       LOP_JUMPIFNOTLT} then ([a, sint aux], [], False)
     else if op = LOP_FORNPREP then (range a 3, range a 3, False)
     else if op = LOP_FORNLOOP then (range a 3, [a + 2], False)
     else if op = LOP_FORGPREP then (range a 3, range a 3, False)
     else if op \<in> {LOP_FORGPREP_INEXT, LOP_FORGPREP_NEXT} then (range a 3, [a + 2], False)
     else if op = LOP_FORGLOOP then
       (range a 3, (a + 2) # range (a + 3) (max 1 (sint (aux AND 0xff))), False)
     else if op \<in> {LOP_FORGLOOP_INEXT, LOP_FORGLOOP_NEXT} then
       (range a 3, (a + 2) # range (a + 3) 2, False)
     else if op \<in> {LOP_SETGLOBAL, LOP_SETUPVAL} then ([a], [], False)
     else if op = LOP_CLOSEUPVALS then (range a (rc - a), [], False)
     else if op = LOP_SETLIST then
       (a # range b (if c = 0 then rc - b else max 0 (c - 1)), [], False)
     else if op = LOP_CAPTURE then
       (if i_a i = LCT_VAL \<or> i_a i = LCT_REF then [b] else [], [], False)
     else if op \<in> {LOP_FASTCALL1, LOP_FASTCALL2K} then ([b], [], False)
     else if op = LOP_FASTCALL2 then ([b, sint (aux AND 0xff)], [], False)
     else if op = LOP_FASTCALL3 then
       ([b, sint (aux AND 0xff), sint (drop_bit 8 aux AND 0xff)], [], False)
     else if op = LOP_GETVARARGS then ([], range a (if b = 0 then rc - a else max 0 (b - 1)), False)
     else if op \<in> {LOP_GETGLOBAL, LOP_GETIMPORT, LOP_GETUPVAL, LOP_LOADNIL, LOP_LOADB, LOP_LOADN,
       LOP_LOADK, LOP_LOADKX, LOP_NEWTABLE, LOP_DUPTABLE, LOP_NEWCLOSURE, LOP_DUPCLOSURE}
       then ([], [a], False)
     else if op \<in> {LOP_NOP, LOP_BREAK, LOP_JUMP, LOP_JUMPBACK, LOP_JUMPX, LOP_FASTCALL,
       LOP_COVERAGE, LOP_PREPVARARGS} then ([], [], False)
     else ([], [], True))"

definition sideEffectOpcode :: "luau_opcode \<Rightarrow> bool" where
  "sideEffectOpcode op \<longleftrightarrow>
    op \<in> {LOP_CALL, LOP_CALLFB, LOP_NAMECALL, LOP_NAMECALLUDATA, LOP_RETURN, LOP_SETGLOBAL,
      LOP_SETUPVAL, LOP_SETTABLE, LOP_SETTABLEKS, LOP_SETTABLEN, LOP_SETLIST, LOP_SETUDATAKS,
      LOP_CLOSEUPVALS} \<or> isJump op"

definition annotateInstruction :: "int \<Rightarrow> instruction \<Rightarrow> instruction" where
  "annotateInstruction registerCount i =
    (let op = i_opcode i;
         (us, ds, dflt) = operandRegisters i registerCount;
         uses = fold (addReg registerCount) us (i_uses i);
         defs = fold (addReg registerCount) ds (i_definitions i);
         effects = (i_hasSideEffects i \<or> dflt \<or> sideEffectOpcode op)
     in i\<lparr>i_isAuxiliary := i_hasAux i,
          i_constantIndex := constantIndexOf i,
          i_uses := uses,
          i_definitions := defs,
          i_destinationRegister :=
            (if defs \<noteq> [] then int (hd defs) else i_destinationRegister i),
          i_hasSideEffects := effects,
          i_isPure := (\<not> effects \<and> op \<notin> {LOP_GETTABLE, LOP_GETTABLEKS, LOP_GETUDATAKS})\<rparr>)"

text \<open>
  One turn of the decoding loop of \<^verbatim>\<open>addFunction\<close>: the word \<open>raw\<close> at \<open>pc\<close>, the word after it
  for an instruction with an auxiliary word, and the source line.
\<close>

definition decodeInstruction :: "int \<Rightarrow> int \<Rightarrow> u32 \<Rightarrow> u32 \<Rightarrow> nat \<Rightarrow> instruction" where
  "decodeInstruction registers line raw next pc =
    (let op = LUAU_INSN_OP raw in
     (annotateInstruction registers
       \<lparr>i_offset = pc, i_opcode = op, i_length = opLength op,
        i_a = LUAU_INSN_A raw, i_b = LUAU_INSN_B raw, i_c = LUAU_INSN_C raw,
        i_d = LUAU_INSN_D raw, i_e = LUAU_INSN_E raw,
        i_aux = (if hasAux op then next else 0),
        i_line = 0, i_jumpTarget = jumpTarget raw pc, i_hasAux = hasAux op,
        i_semanticTag = tag op, i_destinationRegister = -1, i_constantIndex = -1,
        i_sourceBlock = -1, i_targetBlock = -1, i_isAuxiliary = False, i_isPure = False,
        i_hasSideEffects = False, i_uses = [], i_definitions = [], i_definitionVersions = []\<rparr>)
     \<lparr>i_line := line\<rparr>)"

section \<open>What annotation records\<close>

lemma addReg_distinct: "distinct rs \<Longrightarrow> distinct (addReg rc x rs)"
  by (auto simp: addReg_def)

lemma fold_addReg_distinct: "distinct rs \<Longrightarrow> distinct (fold (addReg rc) xs rs)"
  by (induction xs arbitrary: rs) (auto intro: addReg_distinct)

lemma set_addReg: "set (addReg rc x rs) = set rs \<union> {r. int r = x \<and> 0 \<le> x \<and> x < rc}"
  by (auto simp: addReg_def)

text \<open>The annotated registers are exactly the offered ones that the frame has.\<close>

lemma set_fold_addReg:
  "set (fold (addReg rc) xs rs) = set rs \<union> {r. int r \<in> set xs \<and> int r < rc}"
  by (induction xs arbitrary: rs) (auto simp: set_addReg)

lemma annotate_fields [simp]:
  "i_offset (annotateInstruction rc i) = i_offset i"
  "i_opcode (annotateInstruction rc i) = i_opcode i"
  "i_length (annotateInstruction rc i) = i_length i"
  "i_jumpTarget (annotateInstruction rc i) = i_jumpTarget i"
  "i_semanticTag (annotateInstruction rc i) = i_semanticTag i"
  "i_definitionVersions (annotateInstruction rc i) = i_definitionVersions i"
  "i_a (annotateInstruction rc i) = i_a i"
  "i_b (annotateInstruction rc i) = i_b i"
  "i_c (annotateInstruction rc i) = i_c i"
  "i_d (annotateInstruction rc i) = i_d i"
  "i_aux (annotateInstruction rc i) = i_aux i"
  "i_constantIndex (annotateInstruction rc i) = constantIndexOf i"
  by (simp_all add: annotateInstruction_def Let_def split: prod.splits)

lemma annotate_registers:
  "i_uses (annotateInstruction rc i) =
     fold (addReg rc) (fst (operandRegisters i rc)) (i_uses i)"
  "i_definitions (annotateInstruction rc i) =
     fold (addReg rc) (fst (snd (operandRegisters i rc))) (i_definitions i)"
  by (simp_all add: annotateInstruction_def Let_def split: prod.splits)

lemma decode_fields [simp]:
  "i_offset (decodeInstruction rc line raw nxt pc) = pc"
  "i_opcode (decodeInstruction rc line raw nxt pc) = LUAU_INSN_OP raw"
  "i_length (decodeInstruction rc line raw nxt pc) = opLength (LUAU_INSN_OP raw)"
  "i_jumpTarget (decodeInstruction rc line raw nxt pc) = jumpTarget raw pc"
  "i_a (decodeInstruction rc line raw nxt pc) = LUAU_INSN_A raw"
  "i_b (decodeInstruction rc line raw nxt pc) = LUAU_INSN_B raw"
  "i_c (decodeInstruction rc line raw nxt pc) = LUAU_INSN_C raw"
  "i_d (decodeInstruction rc line raw nxt pc) = LUAU_INSN_D raw"
  "i_aux (decodeInstruction rc line raw nxt pc) = (if hasAux (LUAU_INSN_OP raw) then nxt else 0)"
  by (simp_all add: decodeInstruction_def Let_def)

text \<open>
  The operand tables read only the opcode and the operands, so they agree on the annotated
  instruction and on the bare one.
\<close>

lemma operand_tables_cong:
  assumes "i_opcode i = i_opcode j" "i_a i = i_a j" "i_b i = i_b j" "i_c i = i_c j"
    "i_d i = i_d j" "i_aux i = i_aux j"
  shows "constantIndexOf i = constantIndexOf j" "operandRegisters i rc = operandRegisters j rc"
  unfolding constantIndexOf_def operandRegisters_def assms by (rule refl)+

lemma decode_operands:
  fixes rc line raw nxt pc
  defines "i \<equiv> decodeInstruction rc line raw nxt pc"
  shows "i_constantIndex i = constantIndexOf i"
    "set (i_uses i) = {r. int r \<in> set (fst (operandRegisters i rc)) \<and> int r < rc}"
    "set (i_definitions i) = {r. int r \<in> set (fst (snd (operandRegisters i rc))) \<and> int r < rc}"
proof -
  obtain j where j: "i = (annotateInstruction rc j)\<lparr>i_line := line\<rparr>" "i_uses j = []" "i_definitions j = []"
    unfolding i_def decodeInstruction_def Let_def by simp
  then have tables: "constantIndexOf i = constantIndexOf j" "operandRegisters i rc = operandRegisters j rc"
    by (auto intro!: operand_tables_cong)
  show "i_constantIndex i = constantIndexOf i"
    "set (i_uses i) = {r. int r \<in> set (fst (operandRegisters i rc)) \<and> int r < rc}"
    "set (i_definitions i) = {r. int r \<in> set (fst (snd (operandRegisters i rc))) \<and> int r < rc}"
    unfolding tables by (simp_all add: j annotate_registers set_fold_addReg)
qed

text \<open>The frame invariant of an annotated instruction.\<close>

definition instr_ok :: "int \<Rightarrow> instruction \<Rightarrow> bool" where
  "instr_ok rc i \<longleftrightarrow>
    (\<forall>r\<in>set (i_uses i). int r < rc) \<and> distinct (i_uses i) \<and>
    (\<forall>r\<in>set (i_definitions i). int r < rc) \<and> distinct (i_definitions i) \<and>
    (i_definitions i \<noteq> [] \<longrightarrow> i_destinationRegister i = int (hd (i_definitions i))) \<and>
    \<not> (i_isPure i \<and> i_hasSideEffects i)"

lemma decode_instr_ok: "instr_ok rc (decodeInstruction rc line raw nxt pc)"
  by (auto simp: instr_ok_def decodeInstruction_def annotateInstruction_def Let_def
      fold_addReg_distinct set_fold_addReg split: prod.splits)

end
