(* ===== verification/IR_Blocks.thy ===== *)
theory IR_Blocks
  imports IR_Instruction
begin

text \<open>
  Basic blocks and their graph, from \<^verbatim>\<open>addFunction\<close> of \<^verbatim>\<open>byteveil_decompiler/IR.cpp\<close>: block
  leaders, the blocks between them, successor and predecessor lists, and \<^verbatim>\<open>markReachable\<close>.
  The locale \<open>cfg\<close> is what the dataflow passes rely on: at least one block, block \<open>b\<close> carries
  id \<open>b\<close>, and every successor is the id of a block, listed once. The blocks that the code builds
  satisfy it for every instruction list, which is the interpretation \<open>built\<close>.
\<close>

section \<open>Block construction\<close>

record basic_block =
  b_id :: nat
  b_start :: nat
  b_end :: int
  b_instructions :: "nat list"
  b_successors :: "nat list"
  b_predecessors :: "nat list"
  b_reachable :: bool

text \<open>The set \<^verbatim>\<open>starts\<close> of leaders, in ascending order.\<close>

definition block_starts :: "nat \<Rightarrow> instruction list \<Rightarrow> nat list" where
  "block_starts sizecode ins = sorted_list_of_set (set (0 #
     map (\<lambda>i. nat (i_jumpTarget i)) (filter (\<lambda>i. i_jumpTarget i \<ge> 0) ins) @
     map (\<lambda>i. i_offset i + i_length i)
       (filter (\<lambda>i. (i_jumpTarget i \<ge> 0 \<or> isReturn (i_opcode i)) \<and>
                    i_offset i + i_length i < sizecode) ins)))"

definition block_end :: "nat \<Rightarrow> nat list \<Rightarrow> nat \<Rightarrow> int" where
  "block_end sizecode leaders n =
    (if n + 1 < length leaders then int (leaders ! (n + 1)) else int sizecode) - 1"

definition block_instructions :: "instruction list \<Rightarrow> nat \<Rightarrow> int \<Rightarrow> nat list" where
  "block_instructions ins start end =
    filter (\<lambda>k. i_offset (ins ! k) \<ge> start \<and> int (i_offset (ins ! k)) \<le> end) [0..<length ins]"

text \<open>
  The successors of the block whose last instruction is \<open>li\<close>: the blocks that start at its
  jump target, then the next block in text order when the instruction may fall through.
\<close>

definition block_successors :: "nat list \<Rightarrow> nat \<Rightarrow> instruction \<Rightarrow> nat list" where
  "block_successors leaders n li =
    (let jumps = (if i_jumpTarget li \<ge> 0
                  then filter (\<lambda>j. int (leaders ! j) = i_jumpTarget li) [0..<length leaders] else []);
         falls = (if isConditional (i_opcode li) \<and> n + 1 < length leaders then [n + 1]
                  else if i_jumpTarget li < 0 \<and> \<not> isReturn (i_opcode li) \<and> n + 1 < length leaders
                  then [n + 1] else [])
     in sort (remdups (jumps @ falls)))"

definition make_block :: "nat \<Rightarrow> instruction list \<Rightarrow> nat list \<Rightarrow> nat \<Rightarrow> basic_block" where
  "make_block sizecode ins leaders n =
    (let start = leaders ! n; end = block_end sizecode leaders n;
         is = block_instructions ins start end
     in \<lparr>b_id = n, b_start = start, b_end = end, b_instructions = is,
         b_successors = (if is \<noteq> [] then block_successors leaders n (ins ! last is) else []),
         b_predecessors = [], b_reachable = False\<rparr>)"

text \<open>\<^verbatim>\<open>f.basicBlocks[successor].predecessors.push_back(block.id)\<close> for every edge, in order.\<close>

definition push_predecessor :: "nat \<Rightarrow> nat \<Rightarrow> basic_block list \<Rightarrow> basic_block list" where
  "push_predecessor b s bs =
    (if s < length bs
     then bs[s := (bs ! s)\<lparr>b_predecessors := b_predecessors (bs ! s) @ [b]\<rparr>] else bs)"

definition link_predecessors :: "basic_block list \<Rightarrow> basic_block list" where
  "link_predecessors bs =
    fold (\<lambda>b. fold (push_predecessor (b_id b)) (b_successors b)) bs bs"

definition build_blocks :: "nat \<Rightarrow> instruction list \<Rightarrow> basic_block list" where
  "build_blocks sizecode ins =
    (let leaders = block_starts sizecode ins
     in link_predecessors (map (make_block sizecode ins leaders) [0..<length leaders]))"

section \<open>The graph\<close>

definition succs :: "basic_block list \<Rightarrow> nat \<Rightarrow> nat list" where
  "succs bs b = b_successors (bs ! b)"

definition edges :: "basic_block list \<Rightarrow> (nat \<times> nat) set" where
  "edges bs = {(a, b). a < length bs \<and> b \<in> set (succs bs a)}"

lemma edges_iff: "(a, b) \<in> edges bs \<longleftrightarrow> a < length bs \<and> b \<in> set (succs bs a)"
  by (simp add: edges_def)

text \<open>The local vector \<^verbatim>\<open>predecessors\<close> of the analyses: a set of block ids per block.\<close>

definition pred_list :: "basic_block list \<Rightarrow> nat \<Rightarrow> nat list" where
  "pred_list bs b = filter (\<lambda>a. b \<in> set (succs bs a)) [0..<length bs]"

locale cfg =
  fixes bs :: "basic_block list"
  assumes nonempty: "bs \<noteq> []"
    and ids: "b < length bs \<Longrightarrow> b_id (bs ! b) = b"
    and succ_range: "b < length bs \<Longrightarrow> s \<in> set (succs bs b) \<Longrightarrow> s < length bs"
    and succ_distinct: "b < length bs \<Longrightarrow> distinct (succs bs b)"
begin

lemma edges_range: "(a, b) \<in> edges bs \<Longrightarrow> a < length bs \<and> b < length bs"
  using succ_range by (auto simp: edges_def)

lemma pred_list_edges: "b < length bs \<Longrightarrow> a \<in> set (pred_list bs b) \<longleftrightarrow> (a, b) \<in> edges bs"
  by (auto simp: pred_list_def edges_def)

lemma entry_range: "0 < length bs"
  using nonempty by simp

lemma path_range: "(0, b) \<in> (edges bs)\<^sup>* \<Longrightarrow> b < length bs"
  by (induction rule: rtrancl_induct) (auto simp: nonempty dest: edges_range)

end

section \<open>Linking predecessors\<close>

text \<open>Linking changes nothing but the predecessor lists.\<close>

definition block_shape :: "basic_block \<Rightarrow> nat \<times> nat \<times> int \<times> nat list \<times> nat list" where
  "block_shape b = (b_id b, b_start b, b_end b, b_instructions b, b_successors b)"

lemma map_shape_push [simp]:
  "map block_shape (push_predecessor b s bs) = map block_shape bs"
  by (simp add: push_predecessor_def map_update block_shape_def list_eq_iff_nth_eq nth_list_update)

lemma length_push [simp]: "length (push_predecessor b s bs) = length bs"
  by (simp add: push_predecessor_def)

lemma length_fold_push [simp]: "length (fold (push_predecessor b) ss bs) = length bs"
  by (induction ss arbitrary: bs) simp_all

lemma map_shape_fold_push [simp]:
  "map block_shape (fold (push_predecessor b) ss bs) = map block_shape bs"
  by (induction ss arbitrary: bs) simp_all

lemma map_shape_link: "map block_shape (link_predecessors bs) = map block_shape bs"
proof -
  have "map block_shape (fold (\<lambda>b. fold (push_predecessor (b_id b)) (b_successors b)) ds cs) =
      map block_shape cs" for ds cs
    by (induction ds arbitrary: cs) simp_all
  then show ?thesis by (simp add: link_predecessors_def)
qed

lemma length_link [simp]: "length (link_predecessors bs) = length bs"
  using arg_cong [OF map_shape_link, of length bs] by simp

lemma shape_link_nth:
  "b < length bs \<Longrightarrow> block_shape (link_predecessors bs ! b) = block_shape (bs ! b)"
  using arg_cong [OF map_shape_link, of "\<lambda>l. l ! b" bs] by simp

lemma link_nth [simp]:
  assumes "b < length bs"
  shows "b_id (link_predecessors bs ! b) = b_id (bs ! b)"
    "b_start (link_predecessors bs ! b) = b_start (bs ! b)"
    "b_end (link_predecessors bs ! b) = b_end (bs ! b)"
    "b_instructions (link_predecessors bs ! b) = b_instructions (bs ! b)"
    "b_successors (link_predecessors bs ! b) = b_successors (bs ! b)"
  using shape_link_nth [OF assms] by (simp_all add: block_shape_def)

text \<open>The predecessor lists after linking, as the source appends them.\<close>

lemma fold_push_nth:
  assumes "c < length bs"
  shows "b_predecessors (fold (push_predecessor b) ss bs ! c) =
    b_predecessors (bs ! c) @ replicate (count_list ss c) b"
  using assms
proof (induction ss arbitrary: bs)
  case Nil
  then show ?case by simp
next
  case (Cons s ss)
  show ?case
    using Cons.IH [of "push_predecessor b s bs"] Cons.prems
    by (auto simp: push_predecessor_def nth_list_update replicate_append_same
        simp flip: replicate_app_Cons_same)
qed

lemma fold_link_nth:
  assumes "c < length bs"
  shows "b_predecessors (fold (\<lambda>b. fold (push_predecessor (b_id b)) (b_successors b)) ds bs ! c) =
    b_predecessors (bs ! c) @
      concat (map (\<lambda>d. replicate (count_list (b_successors d) c) (b_id d)) ds)"
  using assms
proof (induction ds arbitrary: bs)
  case Nil
  then show ?case by simp
next
  case (Cons d ds)
  then show ?case by (simp add: fold_push_nth)
qed

section \<open>The blocks the code builds\<close>

lemma set_block_starts:
  "set (block_starts n ins) =
    {0} \<union> {nat (i_jumpTarget i) |i. i \<in> set ins \<and> i_jumpTarget i \<ge> 0} \<union>
    {i_offset i + i_length i |i. i \<in> set ins \<and> (i_jumpTarget i \<ge> 0 \<or> isReturn (i_opcode i)) \<and>
      i_offset i + i_length i < n}"
  unfolding block_starts_def set_sorted_list_of_set [OF finite_set] by auto

lemma block_starts_props:
  "sorted (block_starts n ins)" "distinct (block_starts n ins)" "0 \<in> set (block_starts n ins)"
  "block_starts n ins \<noteq> []"
proof -
  show "0 \<in> set (block_starts n ins)" by (simp add: set_block_starts)
  then show "block_starts n ins \<noteq> []" by auto
  show "sorted (block_starts n ins)" unfolding block_starts_def by (rule sorted_sorted_list_of_set)
  show "distinct (block_starts n ins)" unfolding block_starts_def by (rule distinct_sorted_list_of_set)
qed

lemma block_starts_first: "block_starts n ins ! 0 = 0"
proof -
  obtain k where k: "k < length (block_starts n ins)" "block_starts n ins ! k = 0"
    using block_starts_props(3) [of n ins] by (auto simp: in_set_conv_nth)
  then have "block_starts n ins ! 0 \<le> 0"
    using sorted_nth_mono [OF block_starts_props(1), of 0 k n ins] by simp
  then show ?thesis by simp
qed

lemma length_build_blocks: "length (build_blocks n ins) = length (block_starts n ins)"
  by (simp add: build_blocks_def Let_def)

lemma build_blocks_nth:
  assumes "b < length (build_blocks n ins)"
  shows "b_id (build_blocks n ins ! b) = b"
    "b_start (build_blocks n ins ! b) = block_starts n ins ! b"
    "b_end (build_blocks n ins ! b) = block_end n (block_starts n ins) b"
    "b_instructions (build_blocks n ins ! b) =
      block_instructions ins (block_starts n ins ! b) (block_end n (block_starts n ins) b)"
    "b_successors (build_blocks n ins ! b) =
      b_successors (make_block n ins (block_starts n ins) b)"
  using assms by (simp_all add: length_build_blocks, simp_all add: build_blocks_def make_block_def Let_def)

lemma block_successors_props:
  "n < length leaders \<Longrightarrow> s \<in> set (block_successors leaders n li) \<Longrightarrow> s < length leaders"
  "distinct (block_successors leaders n li)" "sorted (block_successors leaders n li)"
  by (auto simp: block_successors_def Let_def split: if_splits)

interpretation built: cfg "build_blocks n ins" for n ins
proof
  show "build_blocks n ins \<noteq> []"
    using block_starts_props(4) [of n ins] length_build_blocks [of n ins] by auto
  fix b s assume b: "b < length (build_blocks n ins)"
  then have b': "b < length (block_starts n ins)" by (simp add: length_build_blocks)
  show "b_id (build_blocks n ins ! b) = b" using b by (rule build_blocks_nth)
  show "distinct (succs (build_blocks n ins) b)"
    using build_blocks_nth(5) [OF b] block_successors_props(2)
    by (simp add: succs_def make_block_def Let_def)
  show "s < length (build_blocks n ins)" if "s \<in> set (succs (build_blocks n ins) b)"
    using that build_blocks_nth(5) [OF b] block_successors_props(1) [OF b']
    by (auto simp: succs_def make_block_def Let_def length_build_blocks split: if_splits)
qed


section \<open>Predecessors mirror successors\<close>

lemma count_list_distinct:
  "distinct xs \<Longrightarrow> count_list xs c = (if c \<in> set xs then 1 else 0)"
  by (induction xs) (auto simp: count_list_0_iff)

lemma concat_replicate_count:
  assumes "\<And>d. d \<in> set ds \<Longrightarrow> distinct (f d)"
  shows "concat (map (\<lambda>d. replicate (count_list (f d) c) (g d)) ds) =
    map g (filter (\<lambda>d. c \<in> set (f d)) ds)"
  using assms
proof (induction ds)
  case Nil
  then show ?case by simp
next
  case (Cons d ds)
  have "count_list (f d) c = (if c \<in> set (f d) then 1 else 0)"
    by (rule count_list_distinct) (simp add: Cons.prems)
  then show ?case using Cons by simp
qed

lemma built_predecessors:
  assumes c: "c < length (build_blocks n ins)"
  shows "b_predecessors (build_blocks n ins ! c) = pred_list (build_blocks n ins) c"
proof -
  let ?ls = "block_starts n ins"
  let ?mk = "make_block n ins ?ls"
  let ?bs = "map ?mk [0..<length ?ls]"
  have c': "c < length ?ls" using c by (simp add: length_build_blocks)
  have dist: "distinct (b_successors b)" if "b \<in> set ?bs" for b
    using that block_successors_props(2) by (auto simp: make_block_def Let_def)
  have "b_predecessors (build_blocks n ins ! c) =
      map b_id (filter (\<lambda>b. c \<in> set (b_successors b)) ?bs)"
    using c' dist fold_link_nth [of c ?bs ?bs] concat_replicate_count [of ?bs b_successors c b_id]
    by (simp add: build_blocks_def link_predecessors_def Let_def make_block_def)
  also have "\<dots> = filter (\<lambda>a. c \<in> set (b_successors (?mk a))) [0..<length ?ls]"
    by (simp add: filter_map comp_def, simp add: make_block_def Let_def)
  also have "\<dots> = pred_list (build_blocks n ins) c"
    unfolding pred_list_def length_build_blocks
    by (rule filter_cong) (auto simp: succs_def build_blocks_nth(5) length_build_blocks)
  finally show ?thesis .
qed

section \<open>Blocks partition the code\<close>

text \<open>
  The layout the decoding loop produces: offsets start at 0, each instruction begins where the
  one before it ends, and the last one ends at the code size.
\<close>

fun code_layout :: "nat \<Rightarrow> nat \<Rightarrow> instruction list \<Rightarrow> bool" where
  "code_layout pc n [] \<longleftrightarrow> pc = n"
| "code_layout pc n (i # ins) \<longleftrightarrow> i_offset i = pc \<and> 0 < i_length i \<and> code_layout (pc + i_length i) n ins"

lemma code_layout_le: "code_layout pc n ins \<Longrightarrow> pc \<le> n"
  by (induction ins arbitrary: pc) force+

lemma code_layout_offset:
  "code_layout pc n ins \<Longrightarrow> k < length ins \<Longrightarrow>
    pc \<le> i_offset (ins ! k) \<and> i_offset (ins ! k) + i_length (ins ! k) \<le> n \<and> 0 < i_length (ins ! k)"
proof (induction ins arbitrary: pc k)
  case Nil
  then show ?case by simp
next
  case (Cons i ins)
  show ?case
  proof (cases k)
    case 0
    then show ?thesis using Cons.prems code_layout_le by auto
  next
    case (Suc m)
    then show ?thesis using Cons.prems Cons.IH [of "pc + i_length i" m] by simp
  qed
qed

lemma code_layout_next:
  "code_layout pc n ins \<Longrightarrow> Suc k < length ins \<Longrightarrow>
    i_offset (ins ! Suc k) = i_offset (ins ! k) + i_length (ins ! k)"
proof (induction ins arbitrary: pc k)
  case Nil
  then show ?case by simp
next
  case (Cons i ins)
  then show ?case by (cases k; cases ins) simp_all
qed

lemma interval_unique:
  assumes leaders: "sorted ls" "distinct ls" "ls \<noteq> []" "ls ! 0 \<le> (x::nat)" "x < n"
  shows "\<exists>!b. b < length ls \<and> ls ! b \<le> x \<and> int x \<le> block_end n ls b"
proof -
  let ?B = "{b. b < length ls \<and> ls ! b \<le> x}"
  have fin: "finite ?B" and ne: "?B \<noteq> {}" using leaders by auto
  define b where "b = Max ?B"
  have b: "b < length ls" "ls ! b \<le> x" and max: "\<And>c. c < length ls \<Longrightarrow> ls ! c \<le> x \<Longrightarrow> c \<le> b"
    using Max_in [OF fin ne] Max_ge [OF fin] by (auto simp: b_def)
  have "int x \<le> block_end n ls b"
    using max [of "Suc b"] leaders(5) by (fastforce simp: block_end_def)
  moreover have "c = b" if c: "c < length ls" "ls ! c \<le> x" "int x \<le> block_end n ls c" for c
  proof (rule ccontr)
    assume "c \<noteq> b"
    with max [OF c(1,2)] have "Suc c \<le> b" by simp
    then have "ls ! Suc c \<le> ls ! b" using leaders(1) b(1) by (simp add: sorted_nth_mono)
    then show False using c(3) b \<open>Suc c \<le> b\<close> by (auto simp: block_end_def split: if_splits)
  qed
  ultimately show ?thesis using b by blast
qed

lemma build_blocks_mem:
  assumes "b < length (build_blocks n ins)"
  shows "k \<in> set (b_instructions (build_blocks n ins ! b)) \<longleftrightarrow>
    k < length ins \<and> block_starts n ins ! b \<le> i_offset (ins ! k) \<and>
    int (i_offset (ins ! k)) \<le> block_end n (block_starts n ins) b"
  using build_blocks_nth(4) [OF assms] by (auto simp: block_instructions_def)

lemma built_partition:
  assumes layout: "code_layout 0 n ins" and k: "k < length ins"
  shows "\<exists>!b. b < length (build_blocks n ins) \<and> k \<in> set (b_instructions (build_blocks n ins ! b))"
proof -
  have "i_offset (ins ! k) < n" using code_layout_offset [OF layout k] by linarith
  then have "\<exists>!b. b < length (block_starts n ins) \<and> block_starts n ins ! b \<le> i_offset (ins ! k) \<and>
      int (i_offset (ins ! k)) \<le> block_end n (block_starts n ins) b"
    by (intro interval_unique block_starts_props) (simp_all add: block_starts_first)
  then show ?thesis using k by (simp add: build_blocks_mem length_build_blocks cong: conj_cong)
qed

text \<open>
  Blocks are basic: no instruction of a block is jumped to except the one at its start, and
  only the last instruction of a block can jump or return.
\<close>

lemma leader_in_block:
  assumes b: "b < length (block_starts n ins)" and x: "x \<in> set (block_starts n ins)"
    and lo: "block_starts n ins ! b \<le> x" and hi: "int x \<le> block_end n (block_starts n ins) b"
  shows "x = block_starts n ins ! b"
proof (rule ccontr)
  let ?ls = "block_starts n ins"
  assume ne: "x \<noteq> ?ls ! b"
  obtain c where c: "c < length ?ls" "?ls ! c = x" using x by (auto simp: in_set_conv_nth)
  have "\<not> c \<le> b" using sorted_nth_mono [OF block_starts_props(1), of c b n ins] b c lo ne by force
  then have bc: "Suc b \<le> c" by simp
  then have "?ls ! Suc b \<le> x"
    using sorted_nth_mono [OF block_starts_props(1), of "Suc b" c n ins] c by simp
  then show False using hi bc c(1) by (simp add: block_end_def)
qed

lemma built_single_entry:
  assumes b: "b < length (build_blocks n ins)"
    and k: "k \<in> set (b_instructions (build_blocks n ins ! b))"
    and i: "i \<in> set ins" "i_jumpTarget i = int (i_offset (ins ! k))"
  shows "i_offset (ins ! k) = b_start (build_blocks n ins ! b)"
proof -
  have "i_offset (ins ! k) \<in> set (block_starts n ins)" using i by (force simp: set_block_starts)
  then show ?thesis
    using b k build_blocks_mem [OF b] build_blocks_nth(2) [OF b]
      leader_in_block [of b n ins "i_offset (ins ! k)"]
    by (simp add: length_build_blocks)
qed

lemma built_single_exit:
  assumes layout: "code_layout 0 n ins" and b: "b < length (build_blocks n ins)"
    and k: "k \<in> set (b_instructions (build_blocks n ins ! b))"
      "Suc k \<in> set (b_instructions (build_blocks n ins ! b))"
  shows "i_jumpTarget (ins ! k) < 0 \<and> \<not> isReturn (i_opcode (ins ! k))"
proof (rule ccontr)
  let ?ls = "block_starts n ins"
  let ?x = "i_offset (ins ! Suc k)"
  assume neg: "\<not> ?thesis"
  have kl: "Suc k < length ins" and hi: "int ?x \<le> block_end n ?ls b"
    and lo: "?ls ! b \<le> i_offset (ins ! k)"
    using k build_blocks_mem [OF b] by auto
  have nxt: "?x = i_offset (ins ! k) + i_length (ins ! k)" and pos: "0 < i_length (ins ! k)"
    and xn: "?x < n"
    using code_layout_next [OF layout kl] code_layout_offset [OF layout, of k]
      code_layout_offset [OF layout kl] kl by auto
  have "ins ! k \<in> set ins" using kl by simp
  then have "?x \<in> set ?ls" using neg nxt xn by (force simp: set_block_starts)
  then have "?x = ?ls ! b"
    using leader_in_block [of b n ins ?x] b lo hi nxt by (simp add: length_build_blocks)
  then show False using lo nxt pos by simp
qed

end
