(* ===== verification/IR_Reach.thy ===== *)
theory IR_Reach
  imports IR_Blocks
begin

text \<open>
  Reachability of blocks: the recursive lambda \<^verbatim>\<open>markReachable\<close> of \<^verbatim>\<open>addFunction\<close>. The shared
  vector of flags is passed along, and the loop over the successors is the list argument. The
  main lemma says that the flags are set for exactly the blocks on a path from block 0.
\<close>

section \<open>The marking recursion\<close>

definition marked :: "bool list \<Rightarrow> nat set" where
  "marked r = {i. i < length r \<and> r ! i}"

definition unmarked :: "bool list \<Rightarrow> nat" where
  "unmarked r = length (filter Not r)"

lemma unmarked_mono:
  "length r = length r' \<Longrightarrow> marked r \<subseteq> marked r' \<Longrightarrow> unmarked r' \<le> unmarked r"
proof -
  assume len: "length r = length r'" and sub: "marked r \<subseteq> marked r'"
  have u: "unmarked s = card {i. i < length s \<and> \<not> s ! i}" for s
    by (simp add: unmarked_def length_filter_conv_card)
  show ?thesis unfolding u using len sub by (intro card_mono) (auto simp: marked_def)
qed

lemma unmarked_set: "b < length r \<Longrightarrow> \<not> r ! b \<Longrightarrow> unmarked (r[b := True]) < unmarked r"
proof -
  assume b: "b < length r" "\<not> r ! b"
  have u: "unmarked s = card {i. i < length s \<and> \<not> s ! i}" for s
    by (simp add: unmarked_def length_filter_conv_card)
  show ?thesis unfolding u
  proof (rule psubset_card_mono)
    show "{i. i < length (r[b := True]) \<and> \<not> r[b := True] ! i} \<subset> {i. i < length r \<and> \<not> r ! i}"
      using b by (auto simp: nth_list_update split: if_splits)
  qed simp
qed

lemma marked_update: "b < length r \<Longrightarrow> marked (r[b := True]) = insert b (marked r)"
  by (auto simp: marked_def nth_list_update)

function markReachable :: "basic_block list \<Rightarrow> nat list \<Rightarrow> bool list \<Rightarrow> bool list" where
  "markReachable bs [] r = r"
| "markReachable bs (b # rest) r =
    (if b \<ge> length r \<or> r ! b then markReachable bs rest r
     else markReachable bs rest (markReachable bs (succs bs b) (r[b := True])))"
  by pat_completeness auto

termination
proof -
  have grows: "length (markReachable bs ws r) = length r \<and> marked r \<subseteq> marked (markReachable bs ws r)"
    if "markReachable_dom (bs, ws, r)" for bs ws r
    using that
  proof (induction rule: markReachable.pinduct)
    case (1 bs r)
    then show ?case by (simp add: markReachable.psimps)
  next
    case (2 bs b rest r)
    then show ?case using marked_update [of b r]
      by (cases "b \<ge> length r \<or> r ! b") (auto simp: markReachable.psimps)
  qed
  show ?thesis
  proof (relation "measures [\<lambda>(bs, ws, r). unmarked r, \<lambda>(bs, ws, r). length ws]", goal_cases)
    case (4 bs b rest r)
    then have "unmarked (markReachable bs (succs bs b) (r[b := True])) \<le> unmarked (r[b := True])"
      using grows [of bs "succs bs b" "r[b := True]"] by (intro unmarked_mono) auto
    with unmarked_set [of b r] 4 show ?case by auto
  qed (auto simp: unmarked_set)
qed

lemma mark_length [simp]: "length (markReachable bs ws r) = length r"
  by (induction bs ws r rule: markReachable.induct) simp_all

lemma mark_mono: "marked r \<subseteq> marked (markReachable bs ws r)"
proof (induction bs ws r rule: markReachable.induct)
  case (2 bs b rest r)
  then show ?case using marked_update [of b r] by (cases "b \<ge> length r \<or> r ! b") auto
qed simp

text \<open>The flags after the traversal of \<^verbatim>\<open>markReachable(0)\<close>.\<close>

definition reachable_flags :: "basic_block list \<Rightarrow> bool list" where
  "reachable_flags bs = markReachable bs [0] (replicate (length bs) False)"

definition set_reachable :: "basic_block list \<Rightarrow> basic_block list" where
  "set_reachable bs =
    map2 (\<lambda>b r. b\<lparr>b_reachable := r\<rparr>) bs (reachable_flags bs)"

section \<open>Marked means reachable\<close>

lemma mark_sound:
  "length r = length bs \<Longrightarrow>
    marked (markReachable bs ws r) \<subseteq> marked r \<union> (edges bs)\<^sup>* `` set ws"
proof (induction bs ws r rule: markReachable.induct)
  case (1 bs r)
  then show ?case by simp
next
  case (2 bs b rest r)
  show ?case
  proof (cases "b \<ge> length r \<or> r ! b")
    case True
    then show ?thesis using 2 by auto
  next
    case False
    then have b: "b < length bs" and upd: "marked (r[b := True]) = insert b (marked r)"
      using "2.prems" by (auto simp: marked_update)
    define B where "B = (edges bs)\<^sup>* `` {b}"
    define S where "S = (edges bs)\<^sup>* `` set (succs bs b)"
    define T where "T = (edges bs)\<^sup>* `` set rest"
    have SB: "S \<subseteq> B" "b \<in> B"
      using b by (auto simp: S_def B_def edges_def intro: converse_rtrancl_into_rtrancl)
    have BT: "(edges bs)\<^sup>* `` set (b # rest) = B \<union> T" by (auto simp: B_def T_def)
    have "marked (markReachable bs (succs bs b) (r[b := True])) \<subseteq> insert b (marked r) \<union> S"
      using "2.IH"(2) "2.prems" False upd by (simp add: S_def)
    moreover have "marked (markReachable bs (b # rest) r) \<subseteq>
        marked (markReachable bs (succs bs b) (r[b := True])) \<union> T"
      using "2.IH"(3) "2.prems" False by (simp add: T_def)
    ultimately show ?thesis unfolding BT using SB by blast
  qed
qed

lemma mark_closed:
  "set ws \<inter> {..<length r} \<subseteq> marked (markReachable bs ws r) \<and>
   (\<forall>x \<in> marked (markReachable bs ws r) - marked r.
      set (succs bs x) \<inter> {..<length r} \<subseteq> marked (markReachable bs ws r))"
proof (induction bs ws r rule: markReachable.induct)
  case (1 bs r)
  then show ?case by simp
next
  case (2 bs b rest r)
  show ?case
  proof (cases "b \<ge> length r \<or> r ! b")
    case True
    have "b < length r \<Longrightarrow> b \<in> marked (markReachable bs rest r)"
      using True mark_mono [of r bs rest] by (auto simp: marked_def)
    then show ?thesis using True "2.IH"(1) by auto
  next
    case False
    note IH2 = "2.IH"(2) [OF False]
    let ?r1 = "markReachable bs (succs bs b) (r[b := True])"
    let ?r2 = "markReachable bs rest ?r1"
    have upd: "marked (r[b := True]) = insert b (marked r)" using False by (simp add: marked_update)
    have m1: "insert b (marked r) \<subseteq> marked ?r1" and m2: "marked ?r1 \<subseteq> marked ?r2"
      using mark_mono [of "r[b := True]" bs "succs bs b"] mark_mono [of ?r1 bs rest] upd by auto
    have "set (succs bs x) \<inter> {..<length r} \<subseteq> marked ?r2" if x: "x \<in> marked ?r2 - marked r" for x
    proof -
      consider "x \<in> marked ?r2 - marked ?r1" | "x \<in> marked ?r1 - insert b (marked r)" | "x = b"
        using x by blast
      then show ?thesis
      proof cases
        case 1
        then show ?thesis using "2.IH"(3) False by simp
      next
        case 2
        then have "set (succs bs x) \<inter> {..<length r} \<subseteq> marked ?r1" using IH2 upd by simp
        then show ?thesis using m2 by (rule order_trans)
      next
        case 3
        then show ?thesis using IH2 m2 by auto
      qed
    qed
    then show ?thesis using False "2.IH"(3) m1 m2 by auto
  qed
qed

context cfg
begin

lemma reachable_flags_length: "length (reachable_flags bs) = length bs"
  by (simp add: reachable_flags_def)

lemma reachable_iff: "b < length bs \<Longrightarrow> reachable_flags bs ! b \<longleftrightarrow> (0, b) \<in> (edges bs)\<^sup>*"
proof -
  assume b: "b < length bs"
  let ?init = "replicate (length bs) False"
  let ?r = "reachable_flags bs"
  have m0: "marked ?init = {}" by (auto simp: marked_def)
  have cl: "0 \<in> marked ?r" "x \<in> marked ?r \<Longrightarrow> set (succs bs x) \<subseteq> marked ?r" for x
  proof -
    have c: "{0} \<inter> {..<length bs} \<subseteq> marked ?r"
      "\<forall>x\<in>marked ?r. set (succs bs x) \<inter> {..<length bs} \<subseteq> marked ?r"
      using mark_closed [of "[0]" ?init bs] m0 by (simp_all add: reachable_flags_def)
    show "0 \<in> marked ?r" using c(1) nonempty by simp
    show "set (succs bs x) \<subseteq> marked ?r" if x: "x \<in> marked ?r"
    proof -
      have "x < length bs" using x by (simp add: marked_def reachable_flags_length)
      then show ?thesis using c(2) x succ_range by blast
    qed
  qed
  have "x \<in> marked ?r" if "(0, x) \<in> (edges bs)\<^sup>*" for x
    using that by (induction rule: rtrancl_induct) (use cl in \<open>auto simp: edges_def\<close>)
  moreover have "marked ?r \<subseteq> (edges bs)\<^sup>* `` {0}"
    using mark_sound [of ?init bs "[0]"] m0 by (simp add: reachable_flags_def)
  ultimately show ?thesis using b by (auto simp: marked_def reachable_flags_length)
qed

end

end
