(* ===== verification/Sweep.thy ===== *)
theory Sweep
  imports BV_Prelude
begin

text \<open>
  The iterative dataflow loops of \<^verbatim>\<open>addFunction\<close> (\<^verbatim>\<open>byteveil_decompiler/IR.cpp\<close>) share one
  shape: set a flag, and while the flag is set clear it, visit the blocks in a fixed order,
  recompute the value of each block from the current vector, and on a difference store it at
  once and set the flag again. This theory models that loop and, in a locale, proves once what
  its clients (liveness, dominators, post-dominators) need: the loop stops, its result is a
  fixed point of the block equations, and it is the largest solution below the start vector.
\<close>

section \<open>The loop\<close>

definition sweep_one :: "('a list \<Rightarrow> nat \<Rightarrow> 'a) \<Rightarrow> nat \<Rightarrow> bool \<times> 'a list \<Rightarrow> bool \<times> 'a list" where
  "sweep_one step b s =
    (let v = step (snd s) b in if v \<noteq> snd s ! b then (True, (snd s)[b := v]) else s)"

definition sweep :: "('a list \<Rightarrow> nat \<Rightarrow> 'a) \<Rightarrow> nat list \<Rightarrow> 'a list \<Rightarrow> bool \<times> 'a list" where
  "sweep step order xs = fold (sweep_one step) order (False, xs)"

definition sweep_loop :: "('a list \<Rightarrow> nat \<Rightarrow> 'a) \<Rightarrow> nat list \<Rightarrow> 'a list \<Rightarrow> 'a list option" where
  "sweep_loop step order xs =
    map_option snd (while_option fst (\<lambda>s. sweep step order (snd s)) (True, xs))"

lemma sweep_one_length [simp]: "length (snd (sweep_one step b s)) = length (snd s)"
  by (simp add: sweep_one_def Let_def)

lemma fold_sweep_one_length [simp]:
  "length (snd (fold (sweep_one step) bs s)) = length (snd s)"
  by (induction bs arbitrary: s) simp_all

lemma sweep_length [simp]: "length (snd (sweep step order xs)) = length xs"
  by (simp add: sweep_def)

lemma fold_sweep_one_flag: "fst s \<Longrightarrow> fst (fold (sweep_one step) bs s)"
  by (induction bs arbitrary: s) (simp_all add: sweep_one_def Let_def)

text \<open>A pass that leaves the flag clear changed nothing, and every visited block was stable.\<close>

lemma fold_sweep_one_stable:
  "\<not> fst (fold (sweep_one step) bs s) \<Longrightarrow>
    snd (fold (sweep_one step) bs s) = snd s \<and> (\<forall>b\<in>set bs. step (snd s) b = snd s ! b)"
proof (induction bs arbitrary: s)
  case Nil
  then show ?case by simp
next
  case (Cons b bs)
  have "\<not> fst (sweep_one step b s)"
    using Cons.prems fold_sweep_one_flag [of "sweep_one step b s" step bs] by auto
  then have "step (snd s) b = snd s ! b" "sweep_one step b s = s"
    by (auto simp: sweep_one_def Let_def split: if_splits)
  then show ?case using Cons.IH [of s] Cons.prems by simp
qed

section \<open>Descending sweeps\<close>

text \<open>
  The laws the block equations satisfy: values are ordered by \<open>le\<close>, the equations are
  monotone and stay inside a carrier \<open>ok\<close> on which strictly smaller values have a smaller
  \<open>rank\<close>, and the start vector lies above its own image.
\<close>

locale descending_sweep =
  fixes step :: "'a list \<Rightarrow> nat \<Rightarrow> 'a"
    and order :: "nat list"
    and init :: "'a list"
    and le :: "'a \<Rightarrow> 'a \<Rightarrow> bool"
    and ok :: "'a \<Rightarrow> bool"
    and rank :: "'a \<Rightarrow> nat"
  assumes le_refl: "le x x"
    and le_trans: "le x y \<Longrightarrow> le y z \<Longrightarrow> le x z"
    and rank_less: "le x y \<Longrightarrow> x \<noteq> y \<Longrightarrow> ok x \<Longrightarrow> ok y \<Longrightarrow> rank x < rank y"
    and order_range: "b \<in> set order \<Longrightarrow> b < length init"
    and step_mono: "b \<in> set order \<Longrightarrow> list_all2 le xs ys \<Longrightarrow> length ys = length init \<Longrightarrow>
      le (step xs b) (step ys b)"
    and step_ok: "b \<in> set order \<Longrightarrow> list_all ok xs \<Longrightarrow> length xs = length init \<Longrightarrow> ok (step xs b)"
    and init_ok: "list_all ok init"
    and init_post: "b \<in> set order \<Longrightarrow> le (step init b) (init ! b)"
begin

definition inv :: "'a list \<Rightarrow> bool" where
  "inv xs \<longleftrightarrow> length xs = length init \<and> list_all ok xs \<and> list_all2 le xs init \<and>
    (\<forall>b\<in>set order. le (step xs b) (xs ! b)) \<and>
    (\<forall>ys. list_all2 le ys init \<and> (\<forall>b\<in>set order. le (ys ! b) (step ys b)) \<longrightarrow> list_all2 le ys xs)"

lemma list_all2_le_refl: "list_all2 le xs xs"
  by (simp add: list_all2_conv_all_nth le_refl)

lemma inv_init: "inv init"
  by (simp add: inv_def init_ok init_post list_all2_le_refl)

text \<open>Storing a recomputed value keeps the invariant.\<close>

lemma inv_update:
  assumes "inv xs" and b: "b \<in> set order"
  shows "inv (xs[b := step xs b])"
proof -
  let ?ys = "xs[b := step xs b]"
  from assms(1) have len: "length xs = length init" and okx: "list_all ok xs"
    and below: "list_all2 le xs init" and post: "\<And>c. c \<in> set order \<Longrightarrow> le (step xs c) (xs ! c)"
    and greatest: "\<And>ys. list_all2 le ys init \<Longrightarrow> \<forall>b\<in>set order. le (ys ! b) (step ys b) \<Longrightarrow>
      list_all2 le ys xs"
    by (auto simp: inv_def)
  have bl: "b < length xs" using b len order_range by simp
  have yx: "list_all2 le ?ys xs"
    using bl post [OF b] by (auto simp: list_all2_conv_all_nth nth_list_update le_refl)
  have yi: "list_all2 le ?ys init"
    by (rule list_all2_trans [OF _ yx below]) (rule le_trans)
  have oky: "list_all ok ?ys"
    using okx step_ok [OF b okx len] bl by (auto simp: list_all_length nth_list_update)
  have post': "le (step ?ys c) (?ys ! c)" if c: "c \<in> set order" for c
  proof -
    have "le (step ?ys c) (step xs c)" using step_mono [OF c yx len] .
    then show ?thesis using post [OF c] bl le_trans by (auto simp: nth_list_update)
  qed
  have gr: "list_all2 le zs ?ys"
    if z: "list_all2 le zs init" "\<forall>b\<in>set order. le (zs ! b) (step zs b)" for zs
  proof -
    have zx: "list_all2 le zs xs" by (rule greatest [OF z])
    have "le (zs ! b) (step xs b)"
      using z(2) b step_mono [OF b zx len] le_trans by blast
    then show ?thesis using zx bl by (auto simp: list_all2_conv_all_nth nth_list_update)
  qed
  show ?thesis using len oky yi post' gr by (simp add: inv_def)
qed

definition total_rank :: "'a list \<Rightarrow> nat" where
  "total_rank xs = (\<Sum>x\<leftarrow>xs. rank x)"

lemma total_rank_update:
  assumes "inv xs" "b \<in> set order" "step xs b \<noteq> xs ! b"
  shows "total_rank (xs[b := step xs b]) < total_rank xs"
proof -
  have bl: "b < length xs" and okb: "ok (xs ! b)" and oks: "ok (step xs b)"
    and post: "le (step xs b) (xs ! b)"
    using assms order_range step_ok by (auto simp: inv_def list_all_length)
  have r: "rank (step xs b) < rank (xs ! b)"
    using rank_less [OF post assms(3) oks okb] .
  have split: "xs = take b xs @ xs ! b # drop (Suc b) xs"
    using bl by (simp add: id_take_nth_drop)
  have "total_rank xs = total_rank (take b xs @ xs ! b # drop (Suc b) xs)"
    using split by simp
  moreover have "total_rank (xs[b := step xs b]) = total_rank (take b xs @ step xs b # drop (Suc b) xs)"
    using bl by (simp add: upd_conv_take_nth_drop)
  ultimately show ?thesis using r by (simp add: total_rank_def)
qed

lemma fold_inv:
  assumes "set bs \<subseteq> set order" "inv (snd s)"
  shows "inv (snd (fold (sweep_one step) bs s)) \<and>
    total_rank (snd (fold (sweep_one step) bs s)) \<le> total_rank (snd s) \<and>
    (fst (fold (sweep_one step) bs s) \<and> \<not> fst s \<longrightarrow>
      total_rank (snd (fold (sweep_one step) bs s)) < total_rank (snd s))"
  using assms
proof (induction bs arbitrary: s)
  case Nil
  then show ?case by simp
next
  case (Cons b bs)
  then have b: "b \<in> set order" and bs: "set bs \<subseteq> set order" by auto
  show ?case
  proof (cases "step (snd s) b = snd s ! b")
    case True
    then have "sweep_one step b s = s" by (simp add: sweep_one_def Let_def)
    then show ?thesis using Cons.IH [OF bs Cons.prems(2)] by simp
  next
    case False
    then have so: "sweep_one step b s = (True, (snd s)[b := step (snd s) b])"
      by (simp add: sweep_one_def Let_def)
    have "inv (snd (sweep_one step b s))"
      using inv_update [OF Cons.prems(2) b] so by simp
    from Cons.IH [OF bs this] total_rank_update [OF Cons.prems(2) b False]
    show ?thesis by (simp add: so)
  qed
qed

lemma sweep_inv: "inv xs \<Longrightarrow> inv (snd (sweep step order xs))"
  using fold_inv [of order "(False, xs)"] by (simp add: sweep_def)

lemma sweep_rank:
  "inv xs \<Longrightarrow> fst (sweep step order xs) \<Longrightarrow> total_rank (snd (sweep step order xs)) < total_rank xs"
  using fold_inv [of order "(False, xs)"] by (simp add: sweep_def)

lemma while_stops:
  "\<exists>r. while_option fst (\<lambda>s. sweep step order (snd s)) (True, init) = Some r"
proof -
  let ?P = "\<lambda>s. inv (snd s)"
  let ?f = "\<lambda>s. if fst s then Suc (total_rank (snd s)) else 0"
  have dec: "?P s \<Longrightarrow> fst s \<Longrightarrow>
      ?P (sweep step order (snd s)) \<and> ?f (sweep step order (snd s)) < ?f s" for s
    using sweep_inv [of "snd s"] sweep_rank [of "snd s"] by simp
  show ?thesis
    by (rule measure_while_option_Some [of ?P fst "\<lambda>s. sweep step order (snd s)" ?f])
      (use dec inv_init in auto)
qed

theorem loop_stops: "\<exists>r. sweep_loop step order init = Some r"
  using while_stops by (auto simp: sweep_loop_def)

lemma loop_result:
  assumes "sweep_loop step order init = Some r"
  shows "inv r" "\<forall>b\<in>set order. step r b = r ! b"
proof -
  let ?c = "\<lambda>s. sweep step order (snd s)"
  from assms obtain s where s: "while_option fst ?c (True, init) = Some s" and r: "r = snd s"
    by (auto simp: sweep_loop_def)
  let ?I = "\<lambda>s. inv (snd s) \<and> (fst s \<or> (\<forall>b\<in>set order. step (snd s) b = snd s ! b))"
  have "?I s"
  proof (rule while_option_rule [OF _ s, where P = ?I])
    fix t assume "?I t" "fst t"
    then show "?I (?c t)"
      using sweep_inv [of "snd t"] fold_sweep_one_stable [of step order "(False, snd t)"]
      by (auto simp: sweep_def)
  qed (simp add: inv_init)
  moreover have "\<not> fst s" using while_option_stop [OF s] .
  ultimately show "inv r" "\<forall>b\<in>set order. step r b = r ! b" using r by auto
qed

theorem loop_length: "sweep_loop step order init = Some r \<Longrightarrow> length r = length init"
  using loop_result(1) by (simp add: inv_def)

theorem loop_below: "sweep_loop step order init = Some r \<Longrightarrow> list_all2 le r init"
  using loop_result(1) by (simp add: inv_def)

theorem loop_fixpoint:
  "sweep_loop step order init = Some r \<Longrightarrow> b \<in> set order \<Longrightarrow> r ! b = step r b"
  using loop_result(2) by fastforce

theorem loop_greatest:
  "sweep_loop step order init = Some r \<Longrightarrow> list_all2 le ys init \<Longrightarrow>
    (\<And>b. b \<in> set order \<Longrightarrow> le (ys ! b) (step ys b)) \<Longrightarrow> list_all2 le ys r"
  using loop_result(1) by (auto simp: inv_def)

text \<open>A block the sweep never visits keeps its start value.\<close>

lemma fold_unvisited:
  "c \<notin> set bs \<Longrightarrow> snd (fold (sweep_one step) bs s) ! c = snd s ! c"
  by (induction bs arbitrary: s) (auto simp: sweep_one_def Let_def)

theorem loop_unvisited:
  assumes "sweep_loop step order init = Some r" "c \<notin> set order"
  shows "r ! c = init ! c"
proof -
  let ?c = "\<lambda>s. sweep step order (snd s)"
  from assms(1) obtain s where s: "while_option fst ?c (True, init) = Some s" and r: "r = snd s"
    by (auto simp: sweep_loop_def)
  have "snd s ! c = init ! c"
    by (rule while_option_rule [OF _ s, where P = "\<lambda>s. snd s ! c = init ! c"])
      (use fold_unvisited [OF assms(2)] in \<open>auto simp: sweep_def\<close>)
  then show ?thesis using r by simp
qed

end

end
