(* ===== verification/IR_Dominators.thy ===== *)
theory IR_Dominators
  imports IR_Reach Sweep
begin

text \<open>
  Dominators and immediate dominators of the block graph (\<^verbatim>\<open>addFunction\<close> of
  \<^verbatim>\<open>byteveil_decompiler/IR.cpp\<close>). The abstract specification is dominance over paths: \<open>a\<close>
  dominates \<open>b\<close> when every walk from block 0 to \<open>b\<close> visits \<open>a\<close>. The iterative loop is an instance
  of the sweep of theory \<open>Sweep\<close>; it stops, and the set it computes for a reachable block is
  exactly the set of its dominators. The selection loop then finds the closest strict
  dominator.
\<close>

section \<open>Walks and dominance\<close>

fun walk :: "('a \<times> 'a) set \<Rightarrow> 'a list \<Rightarrow> bool" where
  "walk E [] \<longleftrightarrow> False"
| "walk E [a] \<longleftrightarrow> True"
| "walk E (a # b # p) \<longleftrightarrow> (a, b) \<in> E \<and> walk E (b # p)"

lemma walk_Cons: "walk E (a # p) \<longleftrightarrow> p = [] \<or> ((a, hd p) \<in> E \<and> walk E p)"
  by (cases p) simp_all

lemma walk_nonempty: "walk E p \<Longrightarrow> p \<noteq> []"
  by auto

lemma walk_append:
  "walk E (p @ q) \<longleftrightarrow>
    (if p = [] then walk E q else if q = [] then walk E p
     else walk E p \<and> walk E q \<and> (last p, hd q) \<in> E)"
proof (induction p)
  case Nil
  then show ?case by simp
next
  case (Cons a p)
  then show ?case by (cases p; cases q) (auto simp: walk_Cons)
qed

lemma walk_snoc: "walk E (p @ [c]) \<longleftrightarrow> p = [] \<or> (walk E p \<and> (last p, c) \<in> E)"
  by (simp add: walk_append)

lemma walk_rtrancl: "walk E p \<Longrightarrow> (hd p, last p) \<in> E\<^sup>*"
proof (induction p rule: rev_induct)
  case (snoc c p)
  then show ?case by (cases "p = []") (auto simp: walk_snoc intro: rtrancl_into_rtrancl)
qed simp

lemma rtrancl_walk:
  assumes "(a, b) \<in> E\<^sup>*" shows "\<exists>p. walk E p \<and> hd p = a \<and> last p = b"
  using assms
proof (induction rule: rtrancl_induct)
  case base
  then show ?case by (intro exI [of _ "[a]"]) simp
next
  case (step b c)
  then obtain p where "walk E p" "hd p = a" "last p = b" by blast
  then show ?case
    using step.hyps(2) by (intro exI [of _ "p @ [c]"]) (auto simp: walk_snoc dest: walk_nonempty)
qed

definition dominates :: "basic_block list \<Rightarrow> nat \<Rightarrow> nat \<Rightarrow> bool" where
  "dominates bs a b \<longleftrightarrow>
    (\<forall>p. walk (edges bs) p \<and> hd p = 0 \<and> last p = b \<longrightarrow> a \<in> set p)"

section \<open>The iterative computation\<close>

definition allReachable :: "basic_block list \<Rightarrow> nat set" where
  "allReachable bs = set (filter (\<lambda>b. reachable_flags bs ! b) [0..<length bs])"

definition dom_init :: "basic_block list \<Rightarrow> nat set list" where
  "dom_init bs = map (\<lambda>b. if b = 0 then {0} else if reachable_flags bs ! b then allReachable bs else {})
     [0..<length bs]"

definition dom_order :: "basic_block list \<Rightarrow> nat list" where
  "dom_order bs = filter (\<lambda>b. reachable_flags bs ! b) [1..<length bs]"

definition dom_step :: "basic_block list \<Rightarrow> nat set list \<Rightarrow> nat \<Rightarrow> nat set" where
  "dom_step bs doms b =
    (let ps = filter (\<lambda>p. reachable_flags bs ! p) (pred_list bs b);
         nxt = fold (\<lambda>p s. s \<inter> doms ! p) ps (allReachable bs)
     in if ps \<noteq> [] then insert b nxt else nxt)"

definition dominators :: "basic_block list \<Rightarrow> nat set list option" where
  "dominators bs = sweep_loop (dom_step bs) (dom_order bs) (dom_init bs)"

text \<open>
  The selection of \<^verbatim>\<open>immediateDominators[block]\<close>: the candidates in ascending order, a later one
  replacing the best only when its dominator set is strictly larger.
\<close>

definition best_by :: "('a \<Rightarrow> nat) \<Rightarrow> 'a list \<Rightarrow> 'a option \<times> nat \<Rightarrow> 'a option \<times> nat" where
  "best_by f xs s = fold (\<lambda>c (best, depth). if f c > depth then (Some c, f c) else (best, depth)) xs s"

definition pick_idom :: "nat set list \<Rightarrow> nat \<Rightarrow> int" where
  "pick_idom doms b =
    (case fst (best_by (\<lambda>c. card (doms ! c))
                 (filter (\<lambda>c. c \<noteq> b) (sorted_list_of_set (doms ! b))) (None, 0)) of
       None \<Rightarrow> -1 | Some c \<Rightarrow> int c)"

definition immediateDominators :: "basic_block list \<Rightarrow> nat set list \<Rightarrow> int list" where
  "immediateDominators bs doms =
    map (\<lambda>b. if b = 0 then 0 else if reachable_flags bs ! b then pick_idom doms b else -1)
      [0..<length bs]"

section \<open>The loop computes dominance\<close>

lemma fold_inter: "fold (\<lambda>p s. s \<inter> f p) ps A = A \<inter> (\<Inter>p\<in>set ps. f p)"
  by (induction ps arbitrary: A) auto

lemma dom_step_eq:
  "dom_step bs doms b =
    (let ps = {p \<in> set (pred_list bs b). reachable_flags bs ! p};
         nxt = allReachable bs \<inter> (\<Inter>p\<in>ps. doms ! p)
     in if ps \<noteq> {} then insert b nxt else nxt)"
  by (auto simp: dom_step_def Let_def fold_inter filter_empty_conv)

sublocale cfg \<subseteq> dom: descending_sweep "dom_step bs" "dom_order bs" "dom_init bs" "(\<subseteq>)" finite card
proof
  show "x \<subseteq> x" for x :: "nat set" by simp
  show "x \<subseteq> z" if "x \<subseteq> y" "y \<subseteq> z" for x y z :: "nat set" using that by simp
  show "card x < card y" if "x \<subseteq> y" "x \<noteq> y" "finite x" "finite y" for x y :: "nat set"
    using that by (simp add: psubset_card_mono psubset_eq)
  fix b assume b: "b \<in> set (dom_order bs)"
  then show "b < length (dom_init bs)" by (simp add: dom_order_def dom_init_def)
  have preds: "p < length bs" if "p \<in> set (pred_list bs b)" for p
    using that by (simp add: pred_list_def)
  show "dom_step bs xs b \<subseteq> dom_step bs ys b"
    if le: "list_all2 (\<subseteq>) xs ys" "length ys = length (dom_init bs)" for xs ys
  proof -
    have "xs ! p \<subseteq> ys ! p" if "p \<in> set (pred_list bs b)" for p
      using le preds [OF that] by (simp add: list_all2_conv_all_nth dom_init_def)
    then have "(\<Inter>p\<in>{p \<in> set (pred_list bs b). reachable_flags bs ! p}. xs ! p) \<subseteq>
        (\<Inter>p\<in>{p \<in> set (pred_list bs b). reachable_flags bs ! p}. ys ! p)"
      by blast
    then show ?thesis unfolding dom_step_eq Let_def by auto
  qed
  show "finite (dom_step bs xs b)" for xs
    by (auto simp: dom_step_eq Let_def allReachable_def)
  have "b \<in> allReachable bs" "dom_init bs ! b = allReachable bs"
    using b by (auto simp: dom_order_def allReachable_def dom_init_def)
  then show "dom_step bs (dom_init bs) b \<subseteq> dom_init bs ! b"
    by (auto simp: dom_step_eq Let_def)
qed (auto simp: dom_init_def list_all_iff allReachable_def)

context cfg
begin

lemma allReachable_iff: "b \<in> allReachable bs \<longleftrightarrow> (0, b) \<in> (edges bs)\<^sup>*"
  using reachable_iff path_range by (auto simp: allReachable_def)

lemma dominators_stop: "\<exists>doms. dominators bs = Some doms"
  using dom.loop_stops by (simp add: dominators_def)

lemma dominators_length: "dominators bs = Some doms \<Longrightarrow> length doms = length bs"
  using dom.loop_length by (simp add: dominators_def dom_init_def)

lemma dominators_entry: "dominators bs = Some doms \<Longrightarrow> doms ! 0 = {0}"
  using dom.loop_unvisited [of doms 0] nonempty
  by (simp add: dominators_def dom_order_def dom_init_def)

lemma dominators_equation:
  assumes doms: "dominators bs = Some doms" and b: "b \<noteq> 0" "(0, b) \<in> (edges bs)\<^sup>*"
  shows "doms ! b = insert b {a. (0, a) \<in> (edges bs)\<^sup>* \<and>
    (\<forall>p. (p, b) \<in> edges bs \<and> (0, p) \<in> (edges bs)\<^sup>* \<longrightarrow> a \<in> doms ! p)}"
proof -
  have bl: "b < length bs" using b(2) path_range by simp
  then have ord: "b \<in> set (dom_order bs)" using b reachable_iff by (auto simp: dom_order_def)
  let ?ps = "{p \<in> set (pred_list bs b). reachable_flags bs ! p}"
  have ps: "p \<in> ?ps \<longleftrightarrow> (p, b) \<in> edges bs \<and> (0, p) \<in> (edges bs)\<^sup>*" for p
    using bl pred_list_edges edges_range reachable_iff by blast
  obtain c where "(0, c) \<in> (edges bs)\<^sup>*" "(c, b) \<in> edges bs"
    using b by (metis rtrancl.cases)
  then have ne: "?ps \<noteq> {}" using ps by blast
  have "doms ! b = dom_step bs doms b"
    using dom.loop_fixpoint [OF _ ord] doms by (simp add: dominators_def)
  also have "\<dots> = insert b (allReachable bs \<inter> (\<Inter>p\<in>?ps. doms ! p))"
    using ne unfolding dom_step_eq Let_def by (simp only: if_True simp_thms)
  finally show ?thesis using ps allReachable_iff by (simp add: set_eq_iff)
qed

lemma dominators_sound:
  assumes doms: "dominators bs = Some doms"
  shows "walk (edges bs) p \<Longrightarrow> hd p = 0 \<Longrightarrow> a \<in> doms ! last p \<Longrightarrow> a \<in> set p"
proof (induction p rule: rev_induct)
  case Nil
  then show ?case by simp
next
  case (snoc b q)
  show ?case
  proof (cases "q = [] \<or> b = 0")
    case True
    then have "b = 0" using snoc.prems(2) by auto
    then have "a = 0" using snoc.prems(3) dominators_entry [OF doms] by simp
    then show ?thesis using True \<open>b = 0\<close> by simp
  next
    case False
    then have q: "walk (edges bs) q" "hd q = 0" "(last q, b) \<in> edges bs"
      using snoc.prems by (auto simp: walk_snoc)
    have l: "(0, last q) \<in> (edges bs)\<^sup>*" using walk_rtrancl [OF q(1)] q(2) by simp
    then have "(0, b) \<in> (edges bs)\<^sup>*" using q(3) by (rule rtrancl_into_rtrancl)
    then have "a = b \<or> a \<in> doms ! last q"
      using dominators_equation [OF doms] False snoc.prems(3) l q(3) by auto
    then show ?thesis using snoc.IH q by auto
  qed
qed

lemma dominates_reachable:
  assumes "dominates bs a b" "(0, b) \<in> (edges bs)\<^sup>*" shows "(0, a) \<in> (edges bs)\<^sup>*"
proof -
  obtain p where p: "walk (edges bs) p" "hd p = 0" "last p = b" using rtrancl_walk [OF assms(2)] by blast
  then have "a \<in> set p" using assms(1) by (auto simp: dominates_def)
  then obtain u v where uv: "p = u @ a # v" by (auto simp: in_set_conv_decomp)
  then have "walk (edges bs) (u @ [a])" "hd (u @ [a]) = 0"
    using p walk_append [of "edges bs" "u @ [a]" v] by (auto split: if_splits simp: hd_append)
  then show ?thesis using walk_rtrancl by fastforce
qed

lemma dominates_pred:
  assumes "dominates bs a b" "a \<noteq> b" "(c, b) \<in> edges bs"
  shows "dominates bs a c"
proof -
  have "a \<in> set p" if p: "walk (edges bs) p" "hd p = 0" "last p = c" for p
  proof -
    have "walk (edges bs) (p @ [b])" "hd (p @ [b]) = 0" "last (p @ [b]) = b"
      using p assms(3) walk_nonempty by (auto simp: walk_snoc hd_append)
    then have "a \<in> set (p @ [b])" using assms(1) unfolding dominates_def by blast
    then show ?thesis using assms(2) by simp
  qed
  then show ?thesis by (auto simp: dominates_def)
qed

definition dom_spec :: "nat set list" where
  "dom_spec = map (\<lambda>b. if (0, b) \<in> (edges bs)\<^sup>* then {a. dominates bs a b} else {}) [0..<length bs]"

lemma dominates_entry: "dominates bs a 0 \<longleftrightarrow> a = 0"
proof
  assume "dominates bs a 0"
  then have "walk (edges bs) [0] \<and> hd [0] = (0::nat) \<and> last [0] = (0::nat) \<longrightarrow> a \<in> set [0]"
    unfolding dominates_def by blast
  then show "a = 0" by simp
next
  assume "a = 0"
  then show "dominates bs a 0" unfolding dominates_def by (metis last_in_set walk_nonempty)
qed

lemma dominators_complete:
  assumes doms: "dominators bs = Some doms" and b: "(0, b) \<in> (edges bs)\<^sup>*" "dominates bs a b"
  shows "a \<in> doms ! b"
proof -
  have len: "length dom_spec = length bs" by (simp add: dom_spec_def)
  have "list_all2 (\<subseteq>) dom_spec doms"
  proof (rule dom.loop_greatest [OF doms [unfolded dominators_def]])
    show "list_all2 (\<subseteq>) dom_spec (dom_init bs)"
      using dominates_reachable reachable_iff allReachable_iff dominates_entry
      by (auto simp: list_all2_conv_all_nth dom_spec_def dom_init_def)
    fix c assume "c \<in> set (dom_order bs)"
    then have c: "c < length bs" "c \<noteq> 0" "(0, c) \<in> (edges bs)\<^sup>*"
      using reachable_iff by (auto simp: dom_order_def)
    then obtain d where "(d, c) \<in> edges bs" "(0, d) \<in> (edges bs)\<^sup>*" by (metis rtrancl.cases)
    then have ne: "{p \<in> set (pred_list bs c). reachable_flags bs ! p} \<noteq> {}"
      using c(1) pred_list_edges edges_range reachable_iff by blast
    have pre: "x = c \<or> (x \<in> allReachable bs \<and> (\<forall>p\<in>set (pred_list bs c). reachable_flags bs ! p \<longrightarrow>
        x \<in> dom_spec ! p))" if x: "dominates bs x c" for x
      using x c dominates_pred dominates_reachable pred_list_edges edges_range reachable_iff
      by (auto simp: dom_spec_def allReachable_iff)
    show "dom_spec ! c \<subseteq> dom_step bs dom_spec c"
    proof
      fix x assume "x \<in> dom_spec ! c"
      then have "dominates bs x c" using c by (simp add: dom_spec_def)
      from pre [OF this] show "x \<in> dom_step bs dom_spec c"
        using ne unfolding dom_step_eq Let_def by auto
    qed
  qed
  moreover have bl: "b < length bs" using b(1) path_range by simp
  ultimately have "dom_spec ! b \<subseteq> doms ! b" using len by (simp add: list_all2_conv_all_nth)
  moreover have "a \<in> dom_spec ! b" using b bl by (simp add: dom_spec_def)
  ultimately show ?thesis by blast
qed

theorem dominators_correct:
  assumes "dominators bs = Some doms" "(0, b) \<in> (edges bs)\<^sup>*"
  shows "doms ! b = {a. dominates bs a b}"
  using dominators_sound [OF assms(1)] dominators_complete [OF assms]
  by (auto simp: dominates_def)

end

section \<open>Dominators form a chain\<close>

lemma walk_prefix:
  assumes "walk E p" "p = u @ a # v"
  shows "walk E (u @ [a])" "walk E (a # v)" "hd (u @ [a]) = hd p" "last (a # v) = last p"
  using assms walk_append [of E "u @ [a]" v] walk_append [of E u "a # v"]
  by (auto split: if_splits simp: hd_append)

lemma dominates_refl: "dominates bs b b"
  unfolding dominates_def by (metis last_in_set walk_nonempty)

lemma dominates_trans:
  assumes "dominates bs a c" "dominates bs c b"
  shows "dominates bs a b"
  unfolding dominates_def
proof (intro allI impI)
  fix p assume p: "walk (edges bs) p \<and> hd p = 0 \<and> last p = b"
  then have "c \<in> set p" using assms(2) by (auto simp: dominates_def)
  then obtain u v where uv: "p = u @ c # v" by (auto simp: in_set_conv_decomp)
  have "walk (edges bs) (u @ [c])" "hd (u @ [c]) = 0"
    using walk_prefix [of _ p u c v] p uv by auto
  then have "a \<in> set (u @ [c])" using assms(1) unfolding dominates_def by (metis last_snoc)
  then show "a \<in> set p" using uv by auto
qed

text \<open>Two dominators of a reachable block are comparable.\<close>

lemma dominates_splice:
  assumes b: "dominates bs x b" and nd: "\<not> dominates bs x y"
    and v: "walk (edges bs) (y # v)" "last (y # v) = b" "x \<notin> set v"
  shows False
proof -
  obtain q where q: "walk (edges bs) q" "hd q = 0" "last q = y" "x \<notin> set q"
    using nd by (auto simp: dominates_def)
  have "walk (edges bs) (q @ v)" "hd (q @ v) = 0" "last (q @ v) = b"
    using q v walk_nonempty [OF q(1)] by (auto simp: walk_append walk_Cons split: if_splits)
  then have "x \<in> set (q @ v)" using b unfolding dominates_def by blast
  then show False using q(4) v(3) by simp
qed

lemma dominates_chain:
  assumes "dominates bs x b" "dominates bs y b" "(0, b) \<in> (edges bs)\<^sup>*"
  shows "dominates bs x y \<or> dominates bs y x"
proof (rule ccontr)
  assume no: "\<not> ?thesis"
  obtain p where p: "walk (edges bs) p" "hd p = 0" "last p = b" using rtrancl_walk [OF assms(3)] by blast
  have "\<exists>z\<in>set p. z = x \<or> z = y" using p assms(1) by (auto simp: dominates_def)
  then obtain u z v where uzv: "p = u @ z # v" "z = x \<or> z = y" "\<forall>w\<in>set v. \<not> (w = x \<or> w = y)"
    by (rule split_list_last_propE)
  have w: "walk (edges bs) (z # v)" "last (z # v) = b" using walk_prefix [OF p(1) uzv(1)] p(3) by auto
  from uzv(2) show False
  proof
    assume "z = x"
    then show False using dominates_splice [OF assms(2), of x v] no w uzv(3) by auto
  next
    assume "z = y"
    then show False using dominates_splice [OF assms(1), of y v] no w uzv(3) by auto
  qed
qed

lemma dominates_zero: "dominates bs 0 b"
  unfolding dominates_def by (metis hd_in_set walk_nonempty)

section \<open>The immediate dominator\<close>

lemma best_by_aux:
  assumes "best_by f xs (best, depth) = (r, d)"
  shows "depth \<le> d \<and> (\<forall>c\<in>set xs. f c \<le> d) \<and>
    (r = best \<and> d = depth \<or> (\<exists>c\<in>set xs. r = Some c \<and> f c = d))"
  using assms
proof (induction xs arbitrary: best depth)
  case Nil
  then show ?case by (simp add: best_by_def)
next
  case (Cons c xs)
  show ?case
  proof (cases "f c > depth")
    case True
    then have "best_by f xs (Some c, f c) = (r, d)" using Cons.prems by (simp add: best_by_def)
    from Cons.IH [OF this] True show ?thesis by auto
  next
    case False
    then have "best_by f xs (best, depth) = (r, d)" using Cons.prems by (simp add: best_by_def)
    from Cons.IH [OF this] False show ?thesis by auto
  qed
qed

text \<open>When some element has a positive value, the scan returns one of the largest value.\<close>

lemma best_by_max:
  assumes "c \<in> set xs" "f c > 0"
  shows "\<exists>m\<in>set xs. fst (best_by f xs (None, 0)) = Some m \<and> (\<forall>c\<in>set xs. f c \<le> f m)"
proof -
  obtain r d where rd: "best_by f xs (None, 0) = (r, d)" by fastforce
  from best_by_aux [OF this] assms have "\<exists>m\<in>set xs. r = Some m \<and> f m = d" by auto
  then show ?thesis using best_by_aux [OF rd] rd by auto
qed

definition is_idom :: "basic_block list \<Rightarrow> nat \<Rightarrow> nat \<Rightarrow> bool" where
  "is_idom bs d b \<longleftrightarrow> d \<noteq> b \<and> dominates bs d b \<and>
    (\<forall>a. a \<noteq> b \<and> dominates bs a b \<longrightarrow> dominates bs a d)"

context cfg
begin

lemma dominators_finite:
  assumes "dominators bs = Some doms" "b < length bs"
  shows "finite (doms ! b)"
proof -
  have "doms ! b \<subseteq> dom_init bs ! b"
    using dom.loop_below [of doms] dominators_length [OF assms(1)] assms
    unfolding dominators_def list_all2_conv_all_nth by simp
  then show ?thesis
    by (rule finite_subset) (simp add: dom_init_def assms(2) allReachable_def)
qed

theorem pick_idom_correct:
  assumes doms: "dominators bs = Some doms" and b: "(0, b) \<in> (edges bs)\<^sup>*" "b \<noteq> 0"
  shows "\<exists>d. pick_idom doms b = int d \<and> is_idom bs d b"
proof -
  let ?cs = "filter (\<lambda>c. c \<noteq> b) (sorted_list_of_set (doms ! b))"
  let ?f = "\<lambda>c. card (doms ! c)"
  have bl: "b < length bs" using b(1) path_range by simp
  have cs: "c \<in> set ?cs \<longleftrightarrow> c \<noteq> b \<and> dominates bs c b" for c
    using dominators_correct [OF doms b(1)] dominators_finite [OF doms bl] by auto
  have dset: "doms ! c = {a. dominates bs a c}" "finite (doms ! c)" if "c \<in> set ?cs" for c
  proof -
    have c: "(0, c) \<in> (edges bs)\<^sup>*" using that cs dominates_reachable b(1) by blast
    then show "doms ! c = {a. dominates bs a c}" by (rule dominators_correct [OF doms])
    show "finite (doms ! c)" using dominators_finite [OF doms] path_range [OF c] by simp
  qed
  have "0 \<in> set ?cs" "?f 0 > 0"
    using cs b(2) dominates_zero dominators_entry [OF doms] by auto
  from best_by_max [of 0 ?cs ?f, OF this] obtain d where d: "d \<in> set ?cs"
    "fst (best_by ?f ?cs (None, 0)) = Some d" "\<And>c. c \<in> set ?cs \<Longrightarrow> ?f c \<le> ?f d" by blast
  have "dominates bs a d" if a: "a \<noteq> b" "dominates bs a b" for a
  proof (rule ccontr)
    assume nd: "\<not> dominates bs a d"
    have acs: "a \<in> set ?cs" using a cs by simp
    have "dominates bs d a" using dominates_chain [OF a(2) _ b(1), of d] d(1) cs nd by blast
    then have "doms ! d \<subseteq> doms ! a" using dset acs d(1) dominates_trans by blast
    moreover have "?f a \<le> ?f d" using d(3) acs by blast
    ultimately have "doms ! d = doms ! a" using dset(2) [OF acs] by (simp add: card_seteq)
    then show False using nd dset [OF acs] dset [OF d(1)] dominates_refl by auto
  qed
  then have "is_idom bs d b" using d(1) cs by (auto simp: is_idom_def)
  then show ?thesis using d(2) by (auto simp: pick_idom_def)
qed

end

end
