(* ===== verification/Version_Flow.thy ===== *)
theory Version_Flow
  imports Main
begin

text \<open>
  Why the SSA loop of \<^verbatim>\<open>addFunction\<close> (\<^verbatim>\<open>byteveil_decompiler/IR.cpp\<close>) stops. The loop recomputes, for
  one register, the version that leaves each block: a version the block defines itself, or the
  common version of its predecessors, or, where they differ, a version that belongs to the block
  alone. The versions are not ordered and a phi may disappear again, so there is no measure that
  falls with every pass; the argument is about the blocks whose version would never settle.
\<close>

definition settles :: "(nat \<Rightarrow> 'a) \<Rightarrow> bool" where
  "settles f \<longleftrightarrow> (\<exists>K c. \<forall>k\<ge>K. f k = c)"

lemma settlesI: "(\<And>k. K \<le> k \<Longrightarrow> f k = c) \<Longrightarrow> settles f"
  by (auto simp: settles_def)

lemma settles_Suc: "settles (\<lambda>k. f (Suc k)) \<Longrightarrow> settles f"
proof -
  assume "settles (\<lambda>k. f (Suc k))"
  then obtain K c where K: "\<forall>k\<ge>K. f (Suc k) = c" by (auto simp: settles_def)
  have "f k = c" if "Suc K \<le> k" for k using K that by (cases k) auto
  then show ?thesis by (rule settlesI)
qed

lemma settle_together:
  assumes "finite A" "\<And>a. a \<in> A \<Longrightarrow> settles (f a)"
  shows "\<exists>K. \<forall>k\<ge>K. \<forall>a\<in>A. f a (Suc k) = f a k"
proof -
  have "\<forall>a\<in>A. \<exists>K. \<forall>k\<ge>K. f a (Suc k) = f a k"
  proof
    fix a assume "a \<in> A"
    then obtain K c where "\<forall>k\<ge>K. f a k = c" using assms(2) by (force simp: settles_def)
    then have "\<forall>k\<ge>K. f a (Suc k) = f a k" by simp
    then show "\<exists>K. \<forall>k\<ge>K. f a (Suc k) = f a k" ..
  qed
  then obtain K where K: "\<forall>a\<in>A. \<forall>k\<ge>K a. f a (Suc k) = f a k" by metis
  have "\<forall>k\<ge>Max (insert 0 (K ` A)). \<forall>a\<in>A. f a (Suc k) = f a k"
  proof (intro allI impI ballI)
    fix k a assume "Max (insert 0 (K ` A)) \<le> k" "a \<in> A"
    then have "K a \<le> k" using assms(1) by simp
    then show "f a (Suc k) = f a k" using K \<open>a \<in> A\<close> by blast
  qed
  then show ?thesis ..
qed

text \<open>What a join makes of the versions that arrive: their common value, or its own version.\<close>

definition merge :: "int \<Rightarrow> int list \<Rightarrow> int" where
  "merge own vs = (if list_all (\<lambda>v. v = hd vs) vs then hd vs else own)"

lemma merge_eq: "vs \<noteq> [] \<Longrightarrow> merge own vs = v \<Longrightarrow> v = own \<or> (\<forall>w\<in>set vs. w = v)"
  by (auto simp: merge_def list_all_iff split: if_splits)

lemma merge_same: "vs \<noteq> [] \<Longrightarrow> \<forall>w\<in>set vs. w = v \<Longrightarrow> merge own vs = v"
  by (cases vs) (auto simp: merge_def list_all_iff)

lemma merge_undefined:
  assumes "vs \<noteq> []" "own \<noteq> -1"
  shows "merge own vs = -1 \<longleftrightarrow> (\<forall>w\<in>set vs. w = -1)"
  using merge_eq [OF assms(1)] merge_same [OF assms(1)] assms(2) by metis

text \<open>
  \<open>x k b\<close> is the version leaving block \<open>b\<close> after \<open>k\<close> passes; a pass visits the blocks in ascending
  order, so a predecessor with a smaller number was already recomputed.
\<close>

locale version_flow =
  fixes n :: nat and preds :: "nat \<Rightarrow> nat list" and settled :: "nat \<Rightarrow> int option"
    and phi :: "nat \<Rightarrow> int" and x :: "nat \<Rightarrow> nat \<Rightarrow> int"
  assumes preds_range: "b < n \<Longrightarrow> p \<in> set (preds b) \<Longrightarrow> p < n"
    and joins: "b < n \<Longrightarrow> settled b = None \<Longrightarrow> preds b \<noteq> []"
    and start: "b < n \<Longrightarrow> x 0 b = -1"
    and at_settled: "b < n \<Longrightarrow> settled b = Some v \<Longrightarrow> x (Suc k) b = v"
    and at_join: "b < n \<Longrightarrow> settled b = None \<Longrightarrow>
      x (Suc k) b = merge (phi b) (map (\<lambda>p. if p < b then x (Suc k) p else x k p) (preds b))"
    and phi_defined: "phi b \<noteq> -1"
    and phi_own: "a < n \<Longrightarrow> b < n \<Longrightarrow> phi a = phi b \<Longrightarrow> a = b"
    and phi_new: "b < n \<Longrightarrow> settled b = Some v \<Longrightarrow> v \<noteq> phi a"
begin

abbreviation arriving :: "nat \<Rightarrow> nat \<Rightarrow> nat \<Rightarrow> int" where
  "arriving k b p \<equiv> (if p < b then x (Suc k) p else x k p)"

lemma join_value:
  assumes "b < n" "settled b = None"
  shows "x (Suc k) b = phi b \<or> (\<forall>p\<in>set (preds b). arriving k b p = x (Suc k) b)"
  using merge_eq [OF _ at_join [OF assms, of k, symmetric]] joins [OF assms] by auto

text \<open>A property of versions that joins inherit from one of their predecessors holds throughout.\<close>

lemma inherited:
  assumes init: "\<And>b. b \<in> S \<Longrightarrow> P (x 0 b)"
    and keep: "\<And>k b. b \<in> S \<Longrightarrow> (\<And>p. p \<in> S \<Longrightarrow> P (arriving k b p)) \<Longrightarrow> P (x (Suc k) b)"
  shows "b \<in> S \<Longrightarrow> P (x k b)"
proof (induction k arbitrary: b)
  case 0
  then show ?case by (rule init)
next
  case (Suc k)
  show ?case using Suc.prems
  proof (induction b rule: less_induct)
    case (less b)
    show ?case by (rule keep [OF less.prems]) (use less.IH Suc.IH in simp)
  qed
qed

lemma defined_stays_step: "b < n \<Longrightarrow> x k b \<noteq> -1 \<Longrightarrow> x (Suc k) b \<noteq> -1"
proof (induction k arbitrary: b)
  case 0
  then show ?case using start by simp
next
  case (Suc k)
  show ?case using Suc.prems
  proof (induction b rule: less_induct)
    case (less b)
    show ?case
    proof (cases "settled b")
      case None
      have "\<exists>p\<in>set (preds b). arriving k b p \<noteq> -1"
        using less.prems(2) merge_undefined [of "map (arriving k b) (preds b)" "phi b"] joins [OF less.prems(1) None]
          phi_defined [of b] at_join [OF less.prems(1) None, of k] by auto
      then obtain p where p: "p \<in> set (preds b)" "arriving k b p \<noteq> -1" by blast
      have "arriving (Suc k) b p \<noteq> -1"
        using p less.IH [of p] Suc.IH [of p] preds_range [OF less.prems(1) p(1)] by (auto split: if_splits)
      then show ?thesis
        using p(1) merge_undefined [of "map (arriving (Suc k) b) (preds b)" "phi b"] joins [OF less.prems(1) None]
          phi_defined [of b] at_join [OF less.prems(1) None, of "Suc k"] by auto
    next
      case (Some v)
      then show ?thesis using less.prems at_settled by simp
    qed
  qed
qed

lemma defined_stays: "b < n \<Longrightarrow> x k b \<noteq> -1 \<Longrightarrow> k \<le> m \<Longrightarrow> x m b \<noteq> -1"
  by (induction m) (auto simp: le_Suc_eq defined_stays_step)

text \<open>A block whose version is eventually its own phi or -1 settles.\<close>

lemma two_valued_settles:
  assumes "b < n" "\<And>k. K \<le> k \<Longrightarrow> x (Suc k) b = phi b \<or> x (Suc k) b = -1"
  shows "settles (\<lambda>k. x k b)"
proof (cases "\<exists>m\<ge>K. x (Suc m) b \<noteq> -1")
  case True
  then obtain m where m: "K \<le> m" "x (Suc m) b \<noteq> -1" by blast
  have "x k b = phi b" if mk: "Suc m \<le> k" for k
  proof -
    obtain j where k: "k = Suc j" "m \<le> j" using mk by (cases k) auto
    then have "x k b \<noteq> -1" using defined_stays [OF assms(1) m(2)] by simp
    then show ?thesis using assms(2) [of j] m(1) k by auto
  qed
  then show ?thesis by (rule settlesI)
next
  case False
  then have "x k b = -1" if "Suc K \<le> k" for k using that by (cases k) auto
  then show ?thesis by (rule settlesI)
qed

definition restless :: "nat set" where
  "restless = {b. b < n \<and> \<not> settles (\<lambda>k. x k b)}"

lemma restlessD:
  assumes "b \<in> restless"
  shows "b < n" "\<not> settles (\<lambda>k. x k b)" "settled b = None"
proof -
  show b: "b < n" "\<not> settles (\<lambda>k. x k b)" using assms by (simp_all add: restless_def)
  show "settled b = None"
  proof (rule ccontr)
    assume "settled b \<noteq> None"
    then obtain v where "settled b = Some v" by blast
    then have "settles (\<lambda>k. x (Suc k) b)" using at_settled [OF b(1)] by (intro settlesI [of 0]) simp
    then show False using settles_Suc [of "\<lambda>k. x k b"] b(2) by blast
  qed
qed

lemma restless_pred:
  assumes b: "b \<in> restless"
  shows "\<exists>p\<in>set (preds b). p \<in> restless"
proof (rule ccontr)
  note bD = restlessD [OF b]
  assume "\<not> ?thesis"
  then have "settles (\<lambda>k. x k p)" if "p \<in> set (preds b)" for p
    using that preds_range [OF bD(1) that] by (auto simp: restless_def)
  then obtain K where K: "\<forall>k\<ge>K. \<forall>p\<in>set (preds b). x (Suc k) p = x k p"
    using settle_together [of "set (preds b)" "\<lambda>p k. x k p"] by auto
  then have same: "x k p = x K p" if "K \<le> k" "p \<in> set (preds b)" for k p
    using that by (induction k) (auto simp: le_Suc_eq)
  have "map (arriving k b) (preds b) = map (\<lambda>p. x K p) (preds b)" if "K \<le> k" for k
    using that same [of k] same [of "Suc k"] by simp
  then have "x (Suc k) b = merge (phi b) (map (\<lambda>p. x K p) (preds b))" if "K \<le> k" for k
    using that by (simp only: at_join [OF bD(1,3)])
  then have "settles (\<lambda>k. x (Suc k) b)" by (rule settlesI)
  then show False using settles_Suc [of "\<lambda>k. x k b"] bD(2) by blast
qed

lemma restless_versions: "b \<in> restless \<Longrightarrow> x k b = -1 \<or> x k b \<in> phi ` restless"
proof (rule inherited [where S = restless and P = "\<lambda>v. v = -1 \<or> v \<in> phi ` restless"])
  show "x 0 b = -1 \<or> x 0 b \<in> phi ` restless" if "b \<in> restless" for b
    using start restlessD(1) [OF that] by simp
  fix k b assume b: "b \<in> restless"
    and IH: "\<And>p. p \<in> restless \<Longrightarrow> arriving k b p = -1 \<or> arriving k b p \<in> phi ` restless"
  obtain p where p: "p \<in> set (preds b)" "p \<in> restless" using restless_pred [OF b] by blast
  show "x (Suc k) b = -1 \<or> x (Suc k) b \<in> phi ` restless"
    using join_value [OF restlessD(1,3) [OF b], of k]
  proof
    assume "x (Suc k) b = phi b"
    then show ?thesis using b by simp
  next
    assume "\<forall>p\<in>set (preds b). arriving k b p = x (Suc k) b"
    then show ?thesis using IH [OF p(2)] p(1) by auto
  qed
qed

text \<open>No block settles on the phi of a restless block: it would have to come from that block.\<close>

lemma phi_of_restless_not_settled:
  assumes a: "a \<in> restless" and b: "b < n"
  shows "\<not> (\<exists>K. \<forall>k\<ge>K. x k b = phi a)"
proof
  define W where "W = {b. b < n \<and> (\<exists>K. \<forall>k\<ge>K. x k b = phi a)}"
  assume "\<exists>K. \<forall>k\<ge>K. x k b = phi a"
  then have bW: "b \<in> W" using b by (simp add: W_def)
  have W: "q < n \<and> q \<noteq> a \<and> settled q = None" if q: "q \<in> W" for q
  proof (intro conjI)
    obtain K where qn: "q < n" and K: "\<forall>k\<ge>K. x k q = phi a" using q by (auto simp: W_def)
    show "q < n" by fact
    have "settles (\<lambda>k. x k q)" using K by (intro settlesI) auto
    then show "q \<noteq> a" using a by (auto simp: restless_def)
    show "settled q = None"
    proof (rule ccontr)
      assume "settled q \<noteq> None"
      then obtain v where v: "settled q = Some v" by blast
      then show False using at_settled [OF qn v, of K] K phi_new [OF qn v, of a] by simp
    qed
  qed
  have closed: "p \<in> W" if q: "q \<in> W" and p: "p \<in> set (preds q)" for p q
  proof -
    obtain K where K: "\<forall>k\<ge>K. x k q = phi a" using q by (auto simp: W_def)
    have "arriving k q p = phi a" if "K \<le> k" for k
      using join_value [of q k] W [OF q] K that p phi_own [of q a] restlessD(1) [OF a] by auto
    note arr = this
    have "x k p = phi a" if "Suc K \<le> k" for k
      using that arr [of k] arr [of "k - 1"] by (cases k) (auto split: if_splits)
    moreover have "p < n" using preds_range W [OF q] p by blast
    ultimately show ?thesis by (auto simp: W_def)
  qed
  have never: "x k q \<noteq> phi a" if qW: "q \<in> W" for k q
  proof (rule inherited [where S = W and P = "\<lambda>v. v \<noteq> phi a"])
    show "q \<in> W" by fact
    show "x 0 q \<noteq> phi a" if "q \<in> W" for q using start W [OF that] phi_defined [of a] by simp
    fix k q assume q: "q \<in> W" and IH: "\<And>p. p \<in> W \<Longrightarrow> arriving k q p \<noteq> phi a"
    obtain p where p: "p \<in> set (preds q)" using joins [of q] W [OF q] by (cases "preds q") auto
    show "x (Suc k) q \<noteq> phi a"
      using join_value [of q k] W [OF q] IH [OF closed [OF q p]] p phi_own [of q a] restlessD(1) [OF a] by auto
  qed
  obtain K where "\<forall>k\<ge>K. x k b = phi a" using bW by (auto simp: W_def)
  then show False using never [OF bW, of K] by simp
qed

lemma restless_closed:
  assumes b: "b \<in> restless" and p: "p \<in> set (preds b)"
  shows "p \<in> restless"
proof (rule ccontr)
  note bD = restlessD [OF b]
  assume "p \<notin> restless"
  then obtain K c where K: "\<forall>k\<ge>K. x k p = c"
    using preds_range [OF bD(1) p] by (auto simp: restless_def settles_def)
  have arrives: "arriving k b p = c" if "K \<le> k" for k using K that by simp
  then have either: "x (Suc k) b = phi b \<or> x (Suc k) b = c" if "K \<le> k" for k
    using join_value [OF bD(1,3), of k] p that by auto
  have "c \<noteq> -1"
  proof
    assume "c = -1"
    then have "settles (\<lambda>k. x k b)" using two_valued_settles [OF bD(1), of K] either by blast
    then show False using bD(2) by simp
  qed
  moreover have "c \<notin> phi ` restless"
    using phi_of_restless_not_settled [OF _ preds_range [OF bD(1) p]] K by blast
  ultimately have "x (Suc k) b = phi b" if "K \<le> k" for k
    using either [OF that] restless_versions [OF b, of "Suc k"] by auto
  then have "settles (\<lambda>k. x (Suc k) b)" by (rule settlesI)
  then show False using settles_Suc [of "\<lambda>k. x k b"] bD(2) by blast
qed

theorem versions_settle: "b < n \<Longrightarrow> settles (\<lambda>k. x k b)"
proof (rule ccontr)
  assume "b < n" "\<not> settles (\<lambda>k. x k b)"
  then have b: "b \<in> restless" by (simp add: restless_def)
  have "x k b = -1" for k
  proof (rule inherited [where S = restless and P = "\<lambda>v. v = -1"])
    show "b \<in> restless" by fact
    show "x 0 b = -1" if "b \<in> restless" for b using start restlessD(1) [OF that] by simp
    fix k b assume b: "b \<in> restless" and IH: "\<And>p. p \<in> restless \<Longrightarrow> arriving k b p = -1"
    have "arriving k b p = -1" if "p \<in> set (preds b)" for p using IH restless_closed [OF b that] by blast
    then show "x (Suc k) b = -1"
      using at_join [OF restlessD(1,3) [OF b], of k] joins [OF restlessD(1,3) [OF b]]
      by (intro trans [OF at_join [OF restlessD(1,3) [OF b], of k]] merge_same) auto
  qed
  then have "settles (\<lambda>k. x k b)" by (intro settlesI [of 0]) simp
  then show False using restlessD(2) [OF b] by simp
qed

end

end
