(* ===== verification/IR_SSA.thy ===== *)
theory IR_SSA
  imports IR_Dominators Version_Flow
begin

text \<open>
  The register versions of \<^verbatim>\<open>addFunction\<close> (\<^verbatim>\<open>byteveil_decompiler/IR.cpp\<close>): the versions of the
  definitions, the loop that carries them through the blocks, and the phi nodes read off its
  result. A function without registers has no versions. The loop stops (\<open>ssa_stops\<close>), its result
  solves the equations of the blocks (\<open>ssa_solution\<close>), and a version that is not a phi names the
  only definition that reaches (\<open>version_reaches\<close>).
\<close>

section \<open>The model\<close>

definition definitionVersion :: "nat \<Rightarrow> nat \<Rightarrow> nat \<Rightarrow> nat" where
  "definitionVersion regs k r = 1 + k * regs + r"

definition with_versions :: "nat \<Rightarrow> nat \<Rightarrow> instruction \<Rightarrow> instruction" where
  "with_versions regs k i = i\<lparr>i_definitionVersions := map (definitionVersion regs k) (i_definitions i)\<rparr>"

definition versioned :: "nat \<Rightarrow> instruction list \<Rightarrow> instruction list" where
  "versioned regs ins = map (\<lambda>k. with_versions regs k (ins ! k)) [0..<length ins]"

definition instructionDefVersions :: "instruction list \<Rightarrow> int list" where
  "instructionDefVersions ins = map (\<lambda>i. case i_definitionVersions i of [] \<Rightarrow> -1 | v # _ \<Rightarrow> int v) ins"

definition phiVersion :: "nat \<Rightarrow> nat \<Rightarrow> nat \<Rightarrow> nat \<Rightarrow> int" where
  "phiVersion regs n b r = int (1 + (n + 1) * regs + b * regs + r)"

text \<open>The rows of \<^verbatim>\<open>incoming\<close>, \<^verbatim>\<open>outgoing\<close> and \<^verbatim>\<open>phiVersions\<close> of a block.\<close>

record ssa_block =
  ssa_in :: "int list"
  ssa_out :: "int list"
  ssa_phi :: "int list"

definition ssa_init :: "nat \<Rightarrow> basic_block list \<Rightarrow> ssa_block list" where
  "ssa_init regs bs = replicate (length bs)
     \<lparr>ssa_in = replicate regs (-1), ssa_out = replicate regs (-1), ssa_phi = replicate regs (-1)\<rparr>"

text \<open>The loop over the predecessors: the first version, and whether a later one differs from it.\<close>

definition joinVersions :: "int list \<Rightarrow> int \<times> bool" where
  "joinVersions vs = (case vs of [] \<Rightarrow> (-1, False) | v # ws \<Rightarrow> (v, list_ex (\<lambda>w. w \<noteq> v) ws))"

definition ssa_arriving :: "basic_block list \<Rightarrow> ssa_block list \<Rightarrow> nat \<Rightarrow> nat \<Rightarrow> int list" where
  "ssa_arriving bs xs b r = map (\<lambda>p. ssa_out (xs ! p) ! r) (pred_list bs b)"

definition ssa_next :: "nat \<Rightarrow> nat \<Rightarrow> basic_block list \<Rightarrow> ssa_block list \<Rightarrow> nat \<Rightarrow> int list" where
  "ssa_next regs n bs xs b =
    (if b = 0 then replicate regs 0
     else if pred_list bs b = [] then replicate regs (-1)
     else map (\<lambda>r. let (v, differs) = joinVersions (ssa_arriving bs xs b r)
                   in if differs then phiVersion regs n b r else v) [0..<regs])"

definition ssa_phis :: "nat \<Rightarrow> nat \<Rightarrow> basic_block list \<Rightarrow> ssa_block list \<Rightarrow> nat \<Rightarrow> int list" where
  "ssa_phis regs n bs xs b =
    (if b = 0 \<or> pred_list bs b = [] then ssa_phi (xs ! b)
     else map (\<lambda>r. if snd (joinVersions (ssa_arriving bs xs b r)) then phiVersion regs n b r
                   else ssa_phi (xs ! b) ! r) [0..<regs])"

definition write_version :: "nat \<Rightarrow> nat \<times> nat \<Rightarrow> int list \<Rightarrow> int list" where
  "write_version regs rv out = (if fst rv < regs then out[fst rv := int (snd rv)] else out)"

definition write_versions :: "nat \<Rightarrow> instruction \<Rightarrow> int list \<Rightarrow> int list" where
  "write_versions regs i out = fold (write_version regs) (zip (i_definitions i) (i_definitionVersions i)) out"

definition ssa_block_out :: "nat \<Rightarrow> instruction list \<Rightarrow> basic_block \<Rightarrow> int list \<Rightarrow> int list" where
  "ssa_block_out regs ins b out = fold (\<lambda>k. write_versions regs (ins ! k)) (b_instructions b) out"

text \<open>One turn of the loop over the blocks, with the flag \<^verbatim>\<open>changed\<close>.\<close>

definition ssa_visit ::
  "nat \<Rightarrow> instruction list \<Rightarrow> basic_block list \<Rightarrow> nat \<Rightarrow> bool \<times> ssa_block list \<Rightarrow> bool \<times> ssa_block list" where
  "ssa_visit regs ins bs b s =
    (let xs = snd s; next_versions = ssa_next regs (length ins) bs xs b; out = ssa_block_out regs ins (bs ! b) next_versions in
     (fst s \<or> next_versions \<noteq> ssa_in (xs ! b) \<or> out \<noteq> ssa_out (xs ! b),
      xs[b := \<lparr>ssa_in = next_versions, ssa_out = out, ssa_phi = ssa_phis regs (length ins) bs xs b\<rparr>]))"

definition ssa_pass :: "nat \<Rightarrow> instruction list \<Rightarrow> basic_block list \<Rightarrow> ssa_block list \<Rightarrow> bool \<times> ssa_block list" where
  "ssa_pass regs ins bs xs = fold (ssa_visit regs ins bs) [0..<length bs] (False, xs)"

definition ssa_loop :: "nat \<Rightarrow> instruction list \<Rightarrow> basic_block list \<Rightarrow> ssa_block list option" where
  "ssa_loop regs ins bs =
    map_option snd (while_option fst (\<lambda>s. ssa_pass regs ins bs (snd s)) (True, ssa_init regs bs))"

record phi_node =
  phi_block :: nat
  phi_reg :: nat
  phi_version :: int
  phi_incomingBlocks :: "nat list"
  phi_incomingVersions :: "int list"

definition phiNodes :: "nat \<Rightarrow> basic_block list \<Rightarrow> ssa_block list \<Rightarrow> phi_node list" where
  "phiNodes regs bs xs =
    concat (map (\<lambda>b. concat (map (\<lambda>r.
      if ssa_phi (xs ! b) ! r \<ge> 0
      then [\<lparr>phi_block = b, phi_reg = r, phi_version = ssa_phi (xs ! b) ! r,
             phi_incomingBlocks = pred_list bs b, phi_incomingVersions = ssa_arriving bs xs b r\<rparr>]
      else []) [0..<regs])) [0..<length bs])"

section \<open>The transfer of a block\<close>

text \<open>The definitions of a block in order, and the version of the last one of a register.\<close>

definition block_versions :: "instruction list \<Rightarrow> basic_block \<Rightarrow> (nat \<times> nat) list" where
  "block_versions ins b =
    concat (map (\<lambda>k. zip (i_definitions (ins ! k)) (i_definitionVersions (ins ! k))) (b_instructions b))"

definition last_version :: "nat \<Rightarrow> (nat \<times> nat) list \<Rightarrow> int option" where
  "last_version r rvs = map_option (\<lambda>rv. int (snd rv)) (find (\<lambda>rv. fst rv = r) (rev rvs))"

lemma write_version_length [simp]: "length (write_version regs rv out) = length out"
  by (simp add: write_version_def)

lemma fold_write_length [simp]: "length (fold (write_version regs) rvs out) = length out"
  by (induction rvs arbitrary: out) simp_all

lemma ssa_block_out_fold: "ssa_block_out regs ins b = fold (write_version regs) (block_versions ins b)"
proof -
  have "fold (\<lambda>k. write_versions regs (ins ! k)) ks = fold (write_version regs)
      (concat (map (\<lambda>k. zip (i_definitions (ins ! k)) (i_definitionVersions (ins ! k))) ks))" for ks
    by (induction ks) (simp_all add: write_versions_def fun_eq_iff)
  then show ?thesis by (simp add: fun_eq_iff ssa_block_out_def block_versions_def)
qed

lemma ssa_block_out_length [simp]: "length (ssa_block_out regs ins b out) = length out"
  by (simp add: ssa_block_out_fold)

lemma ssa_next_length [simp]: "length (ssa_next regs n bs xs b) = regs"
  by (simp add: ssa_next_def)

lemma ssa_block_out_nth:
  assumes "r < regs" "length out = regs"
  shows "ssa_block_out regs ins b out ! r =
    (case last_version r (block_versions ins b) of None \<Rightarrow> out ! r | Some v \<Rightarrow> v)"
proof -
  have "fold (write_version regs) rvs out ! r = (case last_version r rvs of None \<Rightarrow> out ! r | Some v \<Rightarrow> v)" for rvs
  proof (induction rvs rule: rev_induct)
    case Nil
    then show ?case by (simp add: last_version_def)
  next
    case (snoc rv rvs)
    have "write_version regs rv out' ! r = (if fst rv = r then int (snd rv) else out' ! r)" if "length out' = regs" for out'
      using that assms(1) by (simp add: write_version_def)
    then show ?case using snoc assms(2) by (simp add: last_version_def)
  qed
  then show ?thesis by (simp add: ssa_block_out_fold)
qed

section \<open>A pass\<close>

definition ssa_row :: "nat \<Rightarrow> instruction list \<Rightarrow> basic_block list \<Rightarrow> ssa_block list \<Rightarrow> nat \<Rightarrow> ssa_block" where
  "ssa_row regs ins bs xs b =
    \<lparr>ssa_in = ssa_next regs (length ins) bs xs b,
     ssa_out = ssa_block_out regs ins (bs ! b) (ssa_next regs (length ins) bs xs b),
     ssa_phi = ssa_phis regs (length ins) bs xs b\<rparr>"

definition row_differs :: "ssa_block \<Rightarrow> ssa_block \<Rightarrow> bool" where
  "row_differs x y \<longleftrightarrow> ssa_in x \<noteq> ssa_in y \<or> ssa_out x \<noteq> ssa_out y"

lemma ssa_visit_row:
  "ssa_visit regs ins bs b s =
    (fst s \<or> row_differs (ssa_row regs ins bs (snd s) b) (snd s ! b), (snd s)[b := ssa_row regs ins bs (snd s) b])"
  by (simp add: ssa_visit_def ssa_row_def row_differs_def Let_def)

text \<open>The vector a block sees: the rows before it are already those of this pass.\<close>

definition mixed :: "nat \<Rightarrow> ssa_block list \<Rightarrow> ssa_block list \<Rightarrow> ssa_block list" where
  "mixed b ys xs = take b ys @ drop b xs"

lemma mixed_nth: "length ys = length xs \<Longrightarrow> p < length xs \<Longrightarrow> mixed b ys xs ! p = (if p < b then ys ! p else xs ! p)"
  by (auto simp: mixed_def nth_append min_def)

lemma fold_visit:
  fixes c :: bool and regs :: nat and ins :: "instruction list" and bs :: "basic_block list"
  assumes "m \<le> length xs"
  defines "ys \<equiv> snd (fold (ssa_visit regs ins bs) [0..<m] (c, xs))"
  shows "length ys = length xs \<and> (\<forall>b. m \<le> b \<longrightarrow> ys ! b = xs ! b) \<and>
    (\<forall>b<m. ys ! b = ssa_row regs ins bs (mixed b ys xs) b) \<and>
    fst (fold (ssa_visit regs ins bs) [0..<m] (c, xs)) = (c \<or> (\<exists>b<m. row_differs (ys ! b) (xs ! b)))"
  using assms(1) unfolding ys_def
proof (induction m)
  case 0
  then show ?case by simp
next
  case (Suc m)
  let ?s = "fold (ssa_visit regs ins bs) [0..<m] (c, xs)"
  let ?ys = "snd ?s" and ?row = "ssa_row regs ins bs (snd ?s) m"
  from Suc have IH: "length ?ys = length xs" "\<forall>b. m \<le> b \<longrightarrow> ?ys ! b = xs ! b"
    "\<forall>b<m. ?ys ! b = ssa_row regs ins bs (mixed b ?ys xs) b"
    "fst ?s = (c \<or> (\<exists>b<m. row_differs (?ys ! b) (xs ! b)))" by auto
  have step: "fold (ssa_visit regs ins bs) [0..<Suc m] (c, xs) = (fst ?s \<or> row_differs ?row (xs ! m), ?ys[m := ?row])"
    using IH(2) by (simp add: ssa_visit_row)
  have mix: "mixed b (?ys[m := ?row]) xs = mixed b ?ys xs" if "b \<le> m" for b
    using that by (simp add: mixed_def)
  have now: "mixed m ?ys xs = ?ys"
    using IH(1,2) Suc.prems by (intro nth_equalityI) (auto simp: mixed_def nth_append min_def)
  show ?case
    unfolding step
  proof (intro conjI allI impI)
    fix b assume "b < Suc m"
    then show "snd (fst ?s \<or> row_differs ?row (xs ! m), ?ys[m := ?row]) ! b =
        ssa_row regs ins bs (mixed b (snd (fst ?s \<or> row_differs ?row (xs ! m), ?ys[m := ?row])) xs) b"
      using IH(1,3) Suc.prems mix [of b] now by (cases "b = m") auto
  next
    show "fst (fst ?s \<or> row_differs ?row (xs ! m), ?ys[m := ?row]) =
      (c \<or> (\<exists>b<Suc m. row_differs (snd (fst ?s \<or> row_differs ?row (xs ! m), ?ys[m := ?row]) ! b) (xs ! b)))"
      using IH(1,4) Suc.prems by (auto simp: less_Suc_eq nth_list_update)
  qed (use IH(1,2) in auto)
qed

lemma ssa_pass_props:
  fixes regs :: nat and ins :: "instruction list"
  assumes "length xs = length bs"
  defines "ys \<equiv> snd (ssa_pass regs ins bs xs)"
  shows "length ys = length bs"
    "b < length bs \<Longrightarrow> ys ! b = ssa_row regs ins bs (mixed b ys xs) b"
    "fst (ssa_pass regs ins bs xs) \<longleftrightarrow> (\<exists>b<length bs. row_differs (ys ! b) (xs ! b))"
  using fold_visit [of "length bs" xs regs ins bs False] assms by (auto simp: ssa_pass_def)

text \<open>A row depends on the versions that leave the predecessors and on nothing else but the phi table.\<close>

lemma joinVersions_merge:
  "vs \<noteq> [] \<Longrightarrow> (let (v, differs) = joinVersions vs in if differs then own else v) = merge own vs"
  by (cases vs) (auto simp: joinVersions_def merge_def list_all_iff list_ex_iff)

lemma ssa_next_nth:
  assumes "r < regs"
  shows "ssa_next regs n bs xs b ! r =
    (if b = 0 then 0 else if pred_list bs b = [] then -1
     else merge (phiVersion regs n b r) (ssa_arriving bs xs b r))"
  using assms joinVersions_merge [of "ssa_arriving bs xs b r"] by (simp add: ssa_next_def ssa_arriving_def)

lemma ssa_row_out:
  assumes "r < regs"
  shows "ssa_out (ssa_row regs ins bs xs b) ! r =
    (case last_version r (block_versions ins (bs ! b)) of
       Some v \<Rightarrow> v | None \<Rightarrow> ssa_in (ssa_row regs ins bs xs b) ! r)"
  using ssa_block_out_nth [OF assms, of "ssa_next regs (length ins) bs xs b" ins "bs ! b"]
  by (auto simp: ssa_row_def split: option.splits)

lemma ssa_row_in: "ssa_in (ssa_row regs ins bs xs b) = ssa_next regs (length ins) bs xs b"
  by (simp add: ssa_row_def)

section \<open>The loop stops\<close>

definition ssa_after :: "nat \<Rightarrow> instruction list \<Rightarrow> basic_block list \<Rightarrow> nat \<Rightarrow> ssa_block list" where
  "ssa_after regs ins bs k = ((\<lambda>xs. snd (ssa_pass regs ins bs xs)) ^^ k) (ssa_init regs bs)"

lemma ssa_after_Suc: "ssa_after regs ins bs (Suc k) = snd (ssa_pass regs ins bs (ssa_after regs ins bs k))"
  by (simp add: ssa_after_def)

lemma ssa_after_length [simp]: "length (ssa_after regs ins bs k) = length bs"
  by (induction k) (simp_all add: ssa_after_Suc ssa_pass_props(1), simp add: ssa_after_def ssa_init_def)

lemma ssa_after_row:
  "b < length bs \<Longrightarrow> ssa_after regs ins bs (Suc k) ! b =
    ssa_row regs ins bs (mixed b (ssa_after regs ins bs (Suc k)) (ssa_after regs ins bs k)) b"
  unfolding ssa_after_Suc by (rule ssa_pass_props(2)) simp_all

lemma ssa_after_arriving:
  "ssa_arriving bs (mixed b (ssa_after regs ins bs (Suc k)) (ssa_after regs ins bs k)) b r =
    map (\<lambda>p. if p < b then ssa_out (ssa_after regs ins bs (Suc k) ! p) ! r
             else ssa_out (ssa_after regs ins bs k ! p) ! r) (pred_list bs b)"
  by (auto simp: ssa_arriving_def mixed_nth pred_list_def)

lemma ssa_after_in_length: "b < length bs \<Longrightarrow> length (ssa_in (ssa_after regs ins bs k ! b)) = regs"
  by (cases k) (simp_all add: ssa_after_row ssa_row_def, simp add: ssa_after_def ssa_init_def)

lemma ssa_after_out_length: "b < length bs \<Longrightarrow> length (ssa_out (ssa_after regs ins bs k ! b)) = regs"
  by (cases k) (simp_all add: ssa_after_row ssa_row_def, simp add: ssa_after_def ssa_init_def)

text \<open>Every definition carries a version of its own instruction, below all phi versions.\<close>

lemma versioned_length [simp]: "length (versioned regs ins) = length ins"
  by (simp add: versioned_def)

lemma versioned_nth:
  "k < length ins \<Longrightarrow> versioned regs ins ! k = with_versions regs k (ins ! k)"
  by (simp add: versioned_def)

lemma versioned_pairs:
  "k < length ins \<Longrightarrow>
    zip (i_definitions (versioned regs ins ! k)) (i_definitionVersions (versioned regs ins ! k)) =
    map (\<lambda>r. (r, definitionVersion regs k r)) (i_definitions (ins ! k))"
  by (simp add: versioned_nth with_versions_def zip_map2 zip_same_conv_map)

lemma last_versionD:
  assumes "last_version r rvs = Some v"
  obtains us k vs where "rvs = us @ (r, k) # vs" "v = int k" "\<forall>rv\<in>set vs. fst rv \<noteq> r"
proof -
  obtain rv where f: "find (\<lambda>rv. fst rv = r) (rev rvs) = Some rv" and v: "v = int (snd rv)"
    using assms by (auto simp: last_version_def)
  then obtain i where i: "i < length rvs" "fst (rev rvs ! i) = r" "rv = rev rvs ! i" "\<forall>j<i. fst (rev rvs ! j) \<noteq> r"
    by (auto simp: find_Some_iff)
  have "rev rvs = take i (rev rvs) @ rev rvs ! i # drop (Suc i) (rev rvs)" using i(1) by (simp add: id_take_nth_drop)
  then have "rev (rev rvs) = rev (take i (rev rvs) @ rev rvs ! i # drop (Suc i) (rev rvs))" by simp
  then have "rvs = rev (drop (Suc i) (rev rvs)) @ rev rvs ! i # rev (take i (rev rvs))" by simp
  moreover have "rev rvs ! i = (r, snd rv)" using i by (metis prod.collapse)
  moreover have "\<forall>rv\<in>set (rev (take i (rev rvs))). fst rv \<noteq> r" using i(1,4) by (auto simp: in_set_conv_nth) (metis fst_conv)
  ultimately show ?thesis using that v by metis
qed

lemma last_version_None: "last_version r rvs = None \<longleftrightarrow> r \<notin> fst ` set rvs"
  by (force simp: last_version_def find_None_iff)

lemma phiVersion_pos: "0 < phiVersion regs n b r"
  unfolding phiVersion_def of_nat_0_less_iff by simp

lemma phiVersion_inj: "0 < regs \<Longrightarrow> phiVersion regs n a r = phiVersion regs n b r \<Longrightarrow> a = b"
  unfolding phiVersion_def of_nat_eq_iff by simp

lemma block_versions_mem:
  assumes "\<forall>k\<in>set (b_instructions b). k < length ins"
  shows "rv \<in> set (block_versions (versioned regs ins) b) \<longleftrightarrow>
    (\<exists>k\<in>set (b_instructions b). fst rv \<in> set (i_definitions (ins ! k)) \<and> snd rv = definitionVersion regs k (fst rv))"
  using assms by (cases rv) (auto simp: block_versions_def versioned_pairs)

lemma built_instructions_range:
  "b < length (build_blocks n ins) \<Longrightarrow> \<forall>k\<in>set (b_instructions (build_blocks n ins ! b)). k < length ins"
  by (auto simp: build_blocks_nth block_instructions_def)

definition settled_version :: "instruction list \<Rightarrow> basic_block list \<Rightarrow> nat \<Rightarrow> nat \<Rightarrow> int option" where
  "settled_version ins bs r b =
    (case last_version r (block_versions ins (bs ! b)) of
       Some v \<Rightarrow> Some v
     | None \<Rightarrow> if b = 0 then Some 0 else if pred_list bs b = [] then Some (-1) else None)"

lemma small_version: "k < n \<Longrightarrow> r < regs \<Longrightarrow> int (definitionVersion regs k r) < phiVersion regs n a s"
proof -
  assume "k < n" "r < regs"
  then have "(k + 1) * regs \<le> n * regs" by (intro mult_le_mono) auto
  then have "k * regs + r < (n + 1) * regs" using \<open>r < regs\<close> by simp
  then show ?thesis unfolding definitionVersion_def phiVersion_def of_nat_less_iff by simp
qed

lemma settled_version_small:
  assumes "settled_version (versioned regs ins) (build_blocks n ins) r b = Some v" "r < regs"
    "b < length (build_blocks n ins)"
  shows "v < phiVersion regs (length ins) a s"
proof (cases "last_version r (block_versions (versioned regs ins) (build_blocks n ins ! b))")
  case None
  then show ?thesis using assms(1) phiVersion_pos [of regs "length ins" a s]
    by (auto simp: settled_version_def split: if_splits)
next
  case (Some w)
  then obtain k where "(r, k) \<in> set (block_versions (versioned regs ins) (build_blocks n ins ! b))" "w = int k"
    by (elim last_versionD) auto
  then obtain j where "j < length ins" "w = int (definitionVersion regs j r)"
    using block_versions_mem [OF built_instructions_range [OF assms(3)]] built_instructions_range [OF assms(3)] by force
  then show ?thesis using Some assms(1,2) small_version [of j "length ins" r regs a s] by (simp add: settled_version_def)
qed

text \<open>The versions of one register of a nonempty frame flow as \<open>version_flow\<close> describes.\<close>

interpretation versions: version_flow "length (build_blocks n ins)" "pred_list (build_blocks n ins)"
  "settled_version (versioned (Suc m) ins) (build_blocks n ins) (r mod Suc m)"
  "\<lambda>b. phiVersion (Suc m) (length ins) b (r mod Suc m)"
  "\<lambda>k b. ssa_out (ssa_after (Suc m) (versioned (Suc m) ins) (build_blocks n ins) k ! b) ! (r mod Suc m)"
  for n ins m r
proof
  let ?bs = "build_blocks n ins" and ?code = "versioned (Suc m) ins" and ?r = "r mod Suc m"
  have r: "?r < Suc m" by simp
  fix a b p v k
  show "phiVersion (Suc m) (length ins) b ?r \<noteq> -1"
    using phiVersion_pos [of "Suc m" "length ins" b ?r] by linarith
  show "phiVersion (Suc m) (length ins) a ?r = phiVersion (Suc m) (length ins) b ?r \<Longrightarrow> a = b"
    using phiVersion_inj [of "Suc m"] by blast
  assume b: "b < length ?bs"
  show "p \<in> set (pred_list ?bs b) \<Longrightarrow> p < length ?bs" by (simp add: pred_list_def)
  show "settled_version ?code ?bs ?r b = None \<Longrightarrow> pred_list ?bs b \<noteq> []"
    by (auto simp: settled_version_def split: option.splits if_splits)
  show "ssa_out (ssa_after (Suc m) ?code ?bs 0 ! b) ! ?r = -1"
    using b nth_replicate [OF r, of "-1::int"] by (simp add: ssa_after_def ssa_init_def del: replicate_Suc)
  have row: "ssa_out (ssa_after (Suc m) ?code ?bs (Suc k) ! b) ! ?r =
      (case last_version ?r (block_versions ?code (?bs ! b)) of Some v \<Rightarrow> v
       | None \<Rightarrow> if b = 0 then 0 else if pred_list ?bs b = [] then -1
           else merge (phiVersion (Suc m) (length ins) b ?r)
             (map (\<lambda>p. if p < b then ssa_out (ssa_after (Suc m) ?code ?bs (Suc k) ! p) ! ?r
                       else ssa_out (ssa_after (Suc m) ?code ?bs k ! p) ! ?r) (pred_list ?bs b)))"
    unfolding ssa_after_row [OF b] ssa_row_out [OF r] ssa_row_in ssa_next_nth [OF r] ssa_after_arriving versioned_length
    by (rule refl)
  show "settled_version ?code ?bs ?r b = Some v \<Longrightarrow> ssa_out (ssa_after (Suc m) ?code ?bs (Suc k) ! b) ! ?r = v"
    unfolding row by (auto simp: settled_version_def split: option.splits if_splits)
  show "settled_version ?code ?bs ?r b = None \<Longrightarrow> ssa_out (ssa_after (Suc m) ?code ?bs (Suc k) ! b) ! ?r =
      merge (phiVersion (Suc m) (length ins) b ?r)
        (map (\<lambda>p. if p < b then ssa_out (ssa_after (Suc m) ?code ?bs (Suc k) ! p) ! ?r
                  else ssa_out (ssa_after (Suc m) ?code ?bs k ! p) ! ?r) (pred_list ?bs b))"
    unfolding row by (auto simp: settled_version_def split: option.splits if_splits)
  show "settled_version ?code ?bs ?r b = Some v \<Longrightarrow> v \<noteq> phiVersion (Suc m) (length ins) a ?r"
    using settled_version_small [OF _ r b, where a = a and s = ?r and v = v] by auto
qed

lemma ssa_settles:
  assumes "b < length (build_blocks n ins)" "r < regs"
  shows "settles (\<lambda>k. ssa_out (ssa_after regs (versioned regs ins) (build_blocks n ins) k ! b) ! r)"
proof -
  obtain m where m: "regs = Suc m" using assms(2) by (cases regs) auto
  have "r mod Suc m = r" using assms(2) m by simp
  then show ?thesis using versions.versions_settle [OF assms(1), of m r] m by simp
qed

lemma mixed_same: "ys = xs \<Longrightarrow> mixed b ys xs = xs"
  by (simp add: mixed_def)

lemma ssa_quiet:
  "\<exists>k. \<not> fst (ssa_pass regs (versioned regs ins) (build_blocks n ins)
    (ssa_after regs (versioned regs ins) (build_blocks n ins) k))"
proof -
  let ?bs = "build_blocks n ins" and ?code = "versioned regs ins"
  let ?A = "{..<length ?bs} \<times> {..<regs}"
  let ?x = "\<lambda>k. ssa_after regs ?code ?bs k"
  have "\<exists>K. \<forall>k\<ge>K. \<forall>a\<in>?A. ssa_out (?x (Suc k) ! fst a) ! snd a = ssa_out (?x k ! fst a) ! snd a"
    by (rule settle_together [where f = "\<lambda>a k. ssa_out (?x k ! fst a) ! snd a"]) (auto intro: ssa_settles)
  then obtain K where K: "\<And>k b r. K \<le> k \<Longrightarrow> b < length ?bs \<Longrightarrow> r < regs \<Longrightarrow>
      ssa_out (?x (Suc k) ! b) ! r = ssa_out (?x k ! b) ! r"
    by auto
  have out: "ssa_out (?x (Suc k) ! b) = ssa_out (?x k ! b)" if "K \<le> k" "b < length ?bs" for k b
    by (rule nth_equalityI) (use that in \<open>simp_all add: ssa_after_out_length K\<close>)
  have arr: "ssa_arriving ?bs (mixed b (?x (Suc k)) (?x k)) b = ssa_arriving ?bs (?x k) b" if "K \<le> k" for k b
    using that by (auto simp: fun_eq_iff ssa_arriving_def mixed_nth out pred_list_def)
  have arr': "ssa_arriving ?bs (?x (Suc k)) b = ssa_arriving ?bs (?x k) b" if "K \<le> k" for k b
    using that by (auto simp: fun_eq_iff ssa_arriving_def out pred_list_def)
  have "ssa_in (?x (Suc (Suc K)) ! b) = ssa_in (?x (Suc K) ! b)" if b: "b < length ?bs" for b
    using arr [of K b] arr [of "Suc K" b] arr' [of K b]
    by (simp add: ssa_after_row [OF b] ssa_row_def ssa_next_def)
  then have "\<not> row_differs (?x (Suc (Suc K)) ! b) (?x (Suc K) ! b)" if "b < length ?bs" for b
    using that out [of "Suc K" b] by (simp add: row_differs_def)
  then have "\<not> fst (ssa_pass regs ?code ?bs (?x (Suc K)))"
    by (subst ssa_pass_props(3)) (simp_all add: ssa_after_Suc [symmetric])
  then show ?thesis ..
qed

lemma ssa_iterate:
  "((\<lambda>s. ssa_pass regs ins bs (snd s)) ^^ Suc k) (True, ssa_init regs bs) = ssa_pass regs ins bs (ssa_after regs ins bs k)"
proof -
  have "snd (((\<lambda>s. ssa_pass regs ins bs (snd s)) ^^ k) (True, ssa_init regs bs)) = ssa_after regs ins bs k" for k
    by (induction k) (simp_all add: ssa_after_Suc, simp add: ssa_after_def)
  then show ?thesis by simp
qed

lemma ssa_stops: "\<exists>xs. ssa_loop regs (versioned regs ins) (build_blocks n ins) = Some xs"
proof -
  let ?c = "\<lambda>s. ssa_pass regs (versioned regs ins) (build_blocks n ins) (snd s)"
  obtain k where "\<not> fst (ssa_pass regs (versioned regs ins) (build_blocks n ins)
      (ssa_after regs (versioned regs ins) (build_blocks n ins) k))"
    using ssa_quiet by blast
  then have "\<exists>k. \<not> fst ((?c ^^ k) (True, ssa_init regs (build_blocks n ins)))"
    by (intro exI [of _ "Suc k"]) (simp only: ssa_iterate not_False_eq_True)
  then show ?thesis by (simp add: ssa_loop_def while_option_def)
qed

section \<open>What the loop leaves\<close>

lemma ssa_loop_quiet:
  assumes "ssa_loop regs ins bs = Some xs"
  obtains k where "xs = ssa_after regs ins bs (Suc k)" "\<not> fst (ssa_pass regs ins bs (ssa_after regs ins bs k))"
proof -
  let ?c = "\<lambda>s. ssa_pass regs ins bs (snd s)"
  obtain s where s: "while_option fst ?c (True, ssa_init regs bs) = Some s" and xs: "xs = snd s"
    using assms by (auto simp: ssa_loop_def)
  obtain j where j: "s = (?c ^^ j) (True, ssa_init regs bs)" using while_option_stop2 [OF s] by blast
  have "\<not> fst s" by (rule while_option_stop [OF s])
  then obtain k where k: "j = Suc k" using j by (cases j) auto
  have "s = ssa_pass regs ins bs (ssa_after regs ins bs k)" unfolding j k by (rule ssa_iterate)
  then show ?thesis using that [of k] xs \<open>\<not> fst s\<close> by (simp add: ssa_after_Suc)
qed

text \<open>The result solves the equations of the blocks.\<close>

lemma ssa_solution:
  assumes "ssa_loop regs ins bs = Some xs"
  shows "length xs = length bs"
    "b < length bs \<Longrightarrow> ssa_in (xs ! b) = ssa_next regs (length ins) bs xs b"
    "b < length bs \<Longrightarrow> ssa_out (xs ! b) = ssa_block_out regs ins (bs ! b) (ssa_in (xs ! b))"
proof -
  obtain k where xs: "xs = ssa_after regs ins bs (Suc k)"
    and quiet: "\<not> fst (ssa_pass regs ins bs (ssa_after regs ins bs k))" by (rule ssa_loop_quiet [OF assms])
  show "length xs = length bs" by (simp add: xs)
  let ?y = "ssa_after regs ins bs k"
  have same: "ssa_in (xs ! c) = ssa_in (?y ! c)" "ssa_out (xs ! c) = ssa_out (?y ! c)" if "c < length bs" for c
    using quiet that ssa_pass_props(3) [of ?y bs regs ins] by (auto simp: xs ssa_after_Suc row_differs_def)
  assume b: "b < length bs"
  have "ssa_arriving bs (mixed b xs ?y) b = ssa_arriving bs xs b"
    using same by (auto simp: fun_eq_iff ssa_arriving_def xs mixed_nth pred_list_def)
  then have "ssa_next regs (length ins) bs (mixed b xs ?y) b = ssa_next regs (length ins) bs xs b"
    by (simp add: ssa_next_def)
  then show "ssa_in (xs ! b) = ssa_next regs (length ins) bs xs b"
    "ssa_out (xs ! b) = ssa_block_out regs ins (bs ! b) (ssa_in (xs ! b))"
    using ssa_after_row [OF b, of regs ins k] by (simp_all add: xs [symmetric] ssa_row_def)
qed

text \<open>Where the predecessors leave different versions, a phi node of the block is recorded.\<close>

lemma joinVersions_differs: "snd (joinVersions vs) \<longleftrightarrow> (\<exists>v\<in>set vs. \<exists>w\<in>set vs. v \<noteq> w)"
  by (cases vs) (auto simp: joinVersions_def list_ex_iff, (metis (full_types))+)

lemma ssa_phi_set:
  assumes "ssa_loop regs ins bs = Some xs" "0 < b" "b < length bs" "r < regs"
    and "p \<in> set (pred_list bs b)" "q \<in> set (pred_list bs b)" "ssa_out (xs ! p) ! r \<noteq> ssa_out (xs ! q) ! r"
  shows "ssa_phi (xs ! b) ! r = phiVersion regs (length ins) b r"
proof -
  obtain k where xs: "xs = ssa_after regs ins bs (Suc k)"
    and quiet: "\<not> fst (ssa_pass regs ins bs (ssa_after regs ins bs k))" by (rule ssa_loop_quiet [OF assms(1)])
  have same: "ssa_out (xs ! c) = ssa_out (ssa_after regs ins bs k ! c)" if "c < length bs" for c
    using quiet that ssa_pass_props(3) [of "ssa_after regs ins bs k" bs regs ins]
    by (auto simp: xs ssa_after_Suc row_differs_def)
  have arr: "ssa_arriving bs (mixed b xs (ssa_after regs ins bs k)) b = ssa_arriving bs xs b"
    using same by (auto simp: fun_eq_iff ssa_arriving_def xs mixed_nth pred_list_def)
  have "snd (joinVersions (ssa_arriving bs xs b r))"
    unfolding joinVersions_differs ssa_arriving_def using assms(5-7) by auto
  moreover have "pred_list bs b \<noteq> []" using assms(5) by auto
  ultimately show ?thesis
    using ssa_after_row [OF assms(3), of regs ins k] assms(2,4)
    by (simp add: xs [symmetric] ssa_row_def ssa_phis_def arr)
qed

lemma phi_recorded:
  assumes "ssa_loop regs ins bs = Some xs" "0 < b" "b < length bs" "r < regs"
    and "p \<in> set (pred_list bs b)" "q \<in> set (pred_list bs b)" "ssa_out (xs ! p) ! r \<noteq> ssa_out (xs ! q) ! r"
  shows "\<lparr>phi_block = b, phi_reg = r, phi_version = phiVersion regs (length ins) b r,
    phi_incomingBlocks = pred_list bs b, phi_incomingVersions = ssa_arriving bs xs b r\<rparr> \<in> set (phiNodes regs bs xs)"
proof -
  have "0 \<le> phiVersion regs (length ins) b r" using phiVersion_pos [of regs "length ins" b r] by linarith
  then show ?thesis
    unfolding phiNodes_def using assms(3,4) ssa_phi_set [OF assms] by (auto intro!: bexI [of _ b] bexI [of _ r])
qed

text \<open>The version a register has at the end of a walk: that of the last definition on it.\<close>

definition reaching :: "instruction list \<Rightarrow> basic_block list \<Rightarrow> nat \<Rightarrow> nat list \<Rightarrow> int" where
  "reaching ins bs r p =
    fold (\<lambda>c acc. case last_version r (block_versions ins (bs ! c)) of Some v \<Rightarrow> v | None \<Rightarrow> acc) (butlast p) 0"

text \<open>
  The version is that of a recorded phi node for the register, in a block of the walk from which on
  the walk does not define the register.
\<close>

definition carries_phi ::
  "instruction list \<Rightarrow> basic_block list \<Rightarrow> phi_node list \<Rightarrow> nat \<Rightarrow> nat list \<Rightarrow> int \<Rightarrow> bool" where
  "carries_phi ins bs phis r p v \<longleftrightarrow>
    (\<exists>us vs. \<exists>phi\<in>set phis. p = us @ phi_block phi # vs \<and> phi_reg phi = r \<and> phi_version phi = v \<and>
      (\<forall>d\<in>set (butlast (phi_block phi # vs)). last_version r (block_versions ins (bs ! d)) = None))"

lemma carries_phiI:
  "phi \<in> set phis \<Longrightarrow> p = us @ phi_block phi # vs \<Longrightarrow> phi_reg phi = r \<Longrightarrow> phi_version phi = v \<Longrightarrow>
    \<forall>d\<in>set (butlast (phi_block phi # vs)). last_version r (block_versions ins (bs ! d)) = None \<Longrightarrow>
    carries_phi ins bs phis r p v"
  unfolding carries_phi_def by blast

lemma version_reaches:
  assumes loop: "ssa_loop regs ins bs = Some xs" and r: "r < regs"
  shows "walk (edges bs) p \<Longrightarrow> hd p = 0 \<Longrightarrow> 0 \<notin> set (tl p) \<Longrightarrow> \<forall>b\<in>set p. b < length bs \<Longrightarrow>
    ssa_in (xs ! last p) ! r = reaching ins bs r p \<or> carries_phi ins bs (phiNodes regs bs xs) r p (ssa_in (xs ! last p) ! r)"
proof (induction p rule: rev_induct)
  case Nil
  then show ?case by (simp add: walk_nonempty)
next
  case (snoc b p)
  have b: "b < length bs" using snoc.prems(4) by simp
  show ?case
  proof (cases "p = []")
    case True
    then have "b = 0" using snoc.prems(2) by simp
    then show ?thesis using True b r ssa_solution(2) [OF loop, of 0] by (simp add: reaching_def ssa_next_nth)
  next
    case False
    let ?c = "last p"
    have w: "walk (edges bs) p" "(?c, b) \<in> edges bs" using snoc.prems(1) False by (simp_all add: walk_snoc)
    have b0: "b \<noteq> 0" using snoc.prems(3) False by (cases p) auto
    have c: "?c < length bs" using snoc.prems(4) False by simp
    have pred: "?c \<in> set (pred_list bs b)" using w(2) c by (simp add: pred_list_def edges_iff)
    have IH: "ssa_in (xs ! ?c) ! r = reaching ins bs r p \<or> carries_phi ins bs (phiNodes regs bs xs) r p (ssa_in (xs ! ?c) ! r)"
      by (rule snoc.IH [OF w(1)]) (use snoc.prems False in \<open>cases p; auto\<close>)+
    have "ssa_in (xs ! b) ! r = ssa_out (xs ! ?c) ! r"
      if "\<forall>q\<in>set (pred_list bs b). ssa_out (xs ! q) ! r = ssa_out (xs ! ?c) ! r"
    proof -
      have "merge (phiVersion regs (length ins) b r) (ssa_arriving bs xs b r) = ssa_out (xs ! ?c) ! r"
        using that pred by (cases "pred_list bs b") (auto simp: merge_def ssa_arriving_def list_all_iff)
      then show ?thesis using pred b0 by (auto simp: ssa_solution(2) [OF loop b] ssa_next_nth [OF r])
    qed
    then consider (phi) q where "q \<in> set (pred_list bs b)" "ssa_out (xs ! q) ! r \<noteq> ssa_out (xs ! ?c) ! r"
      | (same) "ssa_in (xs ! b) ! r = ssa_out (xs ! ?c) ! r" by blast
    then show ?thesis
    proof cases
      case phi
      have "merge (phiVersion regs (length ins) b r) (ssa_arriving bs xs b r) = phiVersion regs (length ins) b r"
        using phi pred by (auto simp: merge_def ssa_arriving_def list_all_iff)
      then have "ssa_in (xs ! b) ! r = phiVersion regs (length ins) b r"
        using pred b0 by (auto simp: ssa_solution(2) [OF loop b] ssa_next_nth [OF r])
      then have "carries_phi ins bs (phiNodes regs bs xs) r (p @ [b]) (ssa_in (xs ! b) ! r)"
        using b0 by (intro carries_phiI [OF phi_recorded [OF loop _ b r phi(1) pred phi(2)], where us = p and vs = "[]"]) simp_all
      then show ?thesis by simp
    next
      case same
      have len: "length (ssa_in (xs ! ?c)) = regs" by (simp add: ssa_solution(2) [OF loop c])
      have out: "ssa_out (xs ! ?c) ! r =
          (case last_version r (block_versions ins (bs ! ?c)) of None \<Rightarrow> ssa_in (xs ! ?c) ! r | Some v \<Rightarrow> v)"
        unfolding ssa_solution(3) [OF loop c] by (rule ssa_block_out_nth [OF r len])
      have reach: "reaching ins bs r (p @ [b]) =
          (case last_version r (block_versions ins (bs ! ?c)) of None \<Rightarrow> reaching ins bs r p | Some v \<Rightarrow> v)"
      proof -
        obtain q where "p = q @ [?c]" using False by (metis append_butlast_last_id)
        then show ?thesis unfolding reaching_def
          by (metis (no_types, lifting) butlast_snoc fold_append fold_simps comp_apply)
      qed
      show ?thesis
      proof (cases "last_version r (block_versions ins (bs ! ?c))")
        case (Some v)
        then show ?thesis using same out reach by simp
      next
        case None
        have "carries_phi ins bs (phiNodes regs bs xs) r (p @ [b]) (ssa_in (xs ! b) ! r)"
          if "carries_phi ins bs (phiNodes regs bs xs) r p (ssa_in (xs ! ?c) ! r)"
        proof -
          from that obtain us vs phi where phi: "phi \<in> set (phiNodes regs bs xs)" "phi_reg phi = r"
              "phi_version phi = ssa_in (xs ! ?c) ! r"
            and path: "p = us @ phi_block phi # vs"
              "\<forall>e\<in>set (butlast (phi_block phi # vs)). last_version r (block_versions ins (bs ! e)) = None"
            unfolding carries_phi_def by blast
          define d where "d = phi_block phi"
          note d = path [folded d_def]
          have "\<forall>e\<in>set (d # vs). last_version r (block_versions ins (bs ! e)) = None"
          proof
            fix e assume e: "e \<in> set (d # vs)"
            have "last (d # vs) = ?c" by (simp add: d(1))
            moreover have "e \<in> set (butlast (d # vs)) \<or> e = last (d # vs)"
              using e by (metis append_butlast_last_id in_set_conv_decomp list.distinct(1) Un_iff set_append
                empty_iff empty_set set_ConsD)
            ultimately show "last_version r (block_versions ins (bs ! e)) = None" using d(2) None by metis
          qed
          then have "\<forall>e\<in>set (butlast (d # (vs @ [b]))). last_version r (block_versions ins (bs ! e)) = None"
            by (simp add: butlast_append)
          then show ?thesis
            using d(1) phi same out None unfolding d_def
            by (intro carries_phiI [where us = us and vs = "vs @ [b]"]) auto
        qed
        then show ?thesis using IH same out reach None by auto
      qed
    qed
  qed
qed

end
