(* ===== verification/Luau_Proto.thy ===== *)
theory Luau_Proto
  imports Luau_Bytecode
begin

text \<open>
  The part of the loaded Luau prototype (\<^verbatim>\<open>struct Proto\<close>, \<^verbatim>\<open>struct LocVar\<close> and \<^verbatim>\<open>TValue\<close> of
  \<^verbatim>\<open>luau/VM/src/lobject.h\<close>) that the analyses read. Arrays with a size field are
  pointer/size pairs; a child entry may be a null pointer. A prototype carries an address so
  that pointer comparisons can be expressed.
\<close>

datatype tvalue =
    TNil
  | TBoolean bool
  | TNumber u64
  | TInteger u64
  | TVector u32 u32 u32
  | TString "string option"
  | TTable "(tvalue list \<times> (tvalue \<times> tvalue) list) option"  \<comment> \<open>the array part and the nodes, empty ones included\<close>
  | TFunction "nat option"  \<comment> \<open>the address of the prototype of a Lua closure\<close>
  | TLightUserdata
  | TUserdata
  | TThread
  | TOther int

record locvar =
  varname :: "string option"
  startpc :: int
  endpc :: int
  reg_u8 :: u8

datatype lproto = LProto
  (p_addr: nat)
  (numparams_u8: u8)
  (maxstacksize_u8: u8)
  (nups_u8: u8)
  (linedefined: int)
  (code: "u32 carray")
  (kconst: "tvalue carray")
  (subprotos: "lproto option carray")
  (locvars: "locvar list")
  (upvalueNames: "string option list option")
  (lineinfo: "u8 list option")
  (abslineinfo: "int list")
  (linegaplog2: nat)
  (debugname: "string option")
  (psource: "string option")

definition numparams :: "lproto \<Rightarrow> nat" where "numparams p = unat (numparams_u8 p)"
definition maxstacksize :: "lproto \<Rightarrow> nat" where "maxstacksize p = unat (maxstacksize_u8 p)"
definition nups :: "lproto \<Rightarrow> nat" where "nups p = unat (nups_u8 p)"
definition reg :: "locvar \<Rightarrow> nat" where "reg l = unat (reg_u8 l)"
abbreviation sizecode :: "lproto \<Rightarrow> int" where "sizecode p \<equiv> csize (code p)"
abbreviation sizek :: "lproto \<Rightarrow> int" where "sizek p \<equiv> csize (kconst p)"
abbreviation sizep :: "lproto \<Rightarrow> int" where "sizep p \<equiv> csize (subprotos p)"

text \<open>
  Reading \<^verbatim>\<open>p->code[pc]\<close>. The value just past the allocation is not determined by the program;
  it is the parameter \<open>oob\<close>.
\<close>

definition codeAt :: "u32 \<Rightarrow> lproto \<Rightarrow> nat \<Rightarrow> u32" where
  "codeAt oob p pc = (if pc < length (cells (code p)) then cells (code p) ! pc else oob)"

lemma codeAt_in: "pc < length (cells (code p)) \<Longrightarrow> codeAt oob p pc = cells (code p) ! pc"
  by (simp add: codeAt_def)

text \<open>\<^verbatim>\<open>luaG_getline\<close> of \<^verbatim>\<open>luau/VM/src/ldebug.cpp\<close>: a baseline per interval plus a byte delta.\<close>

definition luaG_getline :: "lproto \<Rightarrow> nat \<Rightarrow> int" where
  "luaG_getline p pc =
    (case lineinfo p of None \<Rightarrow> 0
     | Some li \<Rightarrow> abslineinfo p ! (drop_bit (linegaplog2 p) pc) + int (unat (li ! pc)))"

lemma maxstacksize_bound: "maxstacksize p < 256"
  using unsigned_less [of "maxstacksize_u8 p"] by (simp add: maxstacksize_def)

text \<open>The size of a prototype tree, for recursion through the child array.\<close>

lemma size_children: "size_list (size_option size) (cells (subprotos p)) < Suc (size p)"
  by (cases p; cases "subprotos p") auto

end
