(* ===== verification/IR_Validate.thy ===== *)
theory IR_Validate
  imports Luau_Proto IR_Instruction
begin

unbundle bit_operations_syntax

text \<open>
  \<^verbatim>\<open>validateProto\<close> and \<^verbatim>\<open>validateOne\<close> of \<^verbatim>\<open>byteveil_decompiler/IR.cpp\<close>: the structural checks a
  loaded prototype tree must pass before the IR is built. Error strings are those of the code.
  The lemmas show what an accepted prototype guarantees (decodable code, operands in range,
  jumps to instruction boundaries, bounded depth and size), and that the answer does not depend
  on the word that the check reads past the end of the code.
\<close>

section \<open>Checking one instruction\<close>

definition at_fn :: "nat \<Rightarrow> string" where
  "at_fn fid = ''function '' @ nat_text fid"

definition at_pc :: "nat \<Rightarrow> nat \<Rightarrow> string" where
  "at_pc fid pc = at_fn fid @ '' offset '' @ nat_text pc"

text \<open>The lambda \<^verbatim>\<open>checkReg\<close>.\<close>

definition checkReg :: "lproto \<Rightarrow> nat \<Rightarrow> nat \<Rightarrow> nat \<Rightarrow> string \<Rightarrow> unit res" where
  "checkReg p fid pc r field =
    require (r < maxstacksize p) (at_pc fid pc @ '': register '' @ field @ '' out of range'')"

definition directConstant :: "luau_opcode \<Rightarrow> bool" where
  "directConstant op \<longleftrightarrow> op \<in> {LOP_LOADK, LOP_DUPCLOSURE, LOP_DUPTABLE, LOP_GETIMPORT}"

definition cConstant :: "luau_opcode \<Rightarrow> bool" where
  "cConstant op \<longleftrightarrow> op \<in> {LOP_ADDK, LOP_SUBK, LOP_MULK, LOP_DIVK, LOP_MODK, LOP_POWK, LOP_ANDK,
    LOP_ORK, LOP_IDIVK}"

definition bConstant :: "luau_opcode \<Rightarrow> bool" where
  "bConstant op \<longleftrightarrow> op \<in> {LOP_SUBRK, LOP_DIVRK}"

definition auxConstant :: "luau_opcode \<Rightarrow> bool" where
  "auxConstant op \<longleftrightarrow> op \<in> {LOP_GETGLOBAL, LOP_SETGLOBAL, LOP_GETTABLEKS, LOP_SETTABLEKS,
    LOP_NAMECALL, LOP_LOADKX, LOP_FASTCALL2K, LOP_NEWCLASSMEMBER, LOP_NEWCLASS}"

definition low16Constant :: "luau_opcode \<Rightarrow> bool" where
  "low16Constant op \<longleftrightarrow> op \<in> {LOP_GETUDATAKS, LOP_SETUDATAKS, LOP_NAMECALLUDATA}"

definition low24Constant :: "luau_opcode \<Rightarrow> bool" where
  "low24Constant op \<longleftrightarrow> op \<in> {LOP_JUMPXEQKN, LOP_JUMPXEQKS}"

definition auxIndex :: "luau_opcode \<Rightarrow> u32 \<Rightarrow> u32" where
  "auxIndex op aux =
    (if low16Constant op then aux AND 0xffff
     else if low24Constant op then aux AND 0x00ffffff else aux)"

text \<open>The \<^verbatim>\<open>switch\<close> over the opcode, with its register checks.\<close>

definition checkOperands :: "u32 \<Rightarrow> lproto \<Rightarrow> nat \<Rightarrow> nat \<Rightarrow> u32 \<Rightarrow> unit res" where
  "checkOperands oob p fid pc raw =
    (let op = LUAU_INSN_OP raw; a = LUAU_INSN_A raw; b = LUAU_INSN_B raw; c = LUAU_INSN_C raw;
         aux = codeAt oob p (pc + 1); chk = checkReg p fid pc; ms = maxstacksize p in
     if op \<in> {LOP_MOVE, LOP_GETTABLE, LOP_SETTABLE, LOP_ADD, LOP_SUB, LOP_MUL, LOP_DIV, LOP_MOD,
       LOP_POW, LOP_AND, LOP_OR, LOP_CONCAT, LOP_IDIV}
       then andthen (chk b ''B'') (\<lambda>_. chk c ''C'')
     else if op \<in> {LOP_GETTABLEKS, LOP_SETTABLEKS, LOP_GETTABLEN, LOP_SETTABLEN, LOP_GETUDATAKS,
       LOP_SETUDATAKS, LOP_NOT, LOP_MINUS, LOP_LENGTH, LOP_IDIVK} then chk b ''B''
     else if op \<in> {LOP_SUBRK, LOP_DIVRK} then chk c ''C''
     else if op \<in> {LOP_JUMPIFEQ, LOP_JUMPIFLE, LOP_JUMPIFLT, LOP_JUMPIFNOTEQ, LOP_JUMPIFNOTLE,
       LOP_JUMPIFNOTLT} then chk (unat aux) ''AUX''
     else if op \<in> {LOP_FASTCALL1, LOP_FASTCALL2, LOP_FASTCALL2K} then
       andthen (chk b ''B'') (\<lambda>_.
         if op = LOP_FASTCALL2 then chk (unat (aux AND 0xff)) ''AUX'' else Inr ())
     else if op = LOP_FASTCALL3 then
       andthen (chk b ''B'') (\<lambda>_. andthen (chk (unat (aux AND 0xff)) ''AUX1'') (\<lambda>_.
         chk (unat (drop_bit 8 aux AND 0xff)) ''AUX2''))
     else if op \<in> {LOP_NAMECALL, LOP_NAMECALLUDATA} then
       require (b < ms \<and> a + 1 < ms) (at_pc fid pc @ '': NAMECALL result range out of range'')
     else if op \<in> {LOP_FORNPREP, LOP_FORNLOOP} then
       require (a + 2 < ms) (at_pc fid pc @ '': numeric-for register range out of range'')
     else if op \<in> {LOP_FORGPREP, LOP_FORGPREP_INEXT, LOP_FORGPREP_NEXT} then
       require (a + 2 < ms) (at_pc fid pc @ '': generic-for register range out of range'')
     else if op = LOP_NEWCLASSMEMBER then chk c ''C''
     else if op = LOP_NEWCLASS then (if b \<noteq> 0xff then chk b ''B'' else Inr ())
     else if op = LOP_FORGLOOP then
       (let variables = unat (aux AND 0xff) in
        require (\<not> (variables = 0 \<or> variables > 255 \<or> a + 2 + variables \<ge> ms))
          (at_pc fid pc @ '': generic-for result range out of range (A='' @ nat_text a @ '', count='' @
           nat_text variables @ '', max='' @ nat_text ms @ '')''))
     else if op \<in> {LOP_FORGLOOP_INEXT, LOP_FORGLOOP_NEXT} then
       require (a + 4 < ms) (at_pc fid pc @ '': specialized generic-for result range out of range'')
     else Inr ())"

text \<open>
  The body of the decoding loop for the word at \<open>pc\<close>. The result is the jump targets it pushes
  (none, or one pair of source and target).
\<close>

definition checkInstruction :: "u32 \<Rightarrow> lproto \<Rightarrow> nat \<Rightarrow> nat \<Rightarrow> (nat \<times> int) list res" where
  "checkInstruction oob p fid pc =
    (let raw = codeAt oob p pc; op = LUAU_INSN_OP raw; a = LUAU_INSN_A raw; b = LUAU_INSN_B raw;
         c = LUAU_INSN_C raw; d = LUAU_INSN_D raw; target = jumpTarget raw pc;
         at = at_pc fid pc in
     andthen (require (op < LOP_COUNT) (at @ '': unknown opcode '' @ nat_text op)) (\<lambda>_.
     andthen (require (int (pc + opLength op) \<le> sizecode p) (at @ '': missing AUX instruction'')) (\<lambda>_.
     andthen (require (\<not> (hasRegisterA op \<and> \<not> (op = LOP_RETURN \<and> b = 1) \<and> a \<ge> maxstacksize p))
       (at @ '': register A out of range ('' @ nat_text a @ '' >= '' @ nat_text (maxstacksize p) @
        '', opcode '' @ nat_text op @ '')'')) (\<lambda>_.
     andthen (require (\<not> (directConstant op \<and> (d < 0 \<or> d \<ge> sizek p) \<or>
         cConstant op \<and> int c \<ge> sizek p \<or> bConstant op \<and> int b \<ge> sizek p))
       (at @ '': constant index out of range'')) (\<lambda>_.
     andthen (require (\<not> ((auxConstant op \<or> low16Constant op \<or> low24Constant op) \<and>
         auxIndex op (codeAt oob p (pc + 1)) \<ge> word_of_int (sizek p)))
       (at @ '': auxiliary constant index out of range'')) (\<lambda>_.
     andthen (require (\<not> (op = LOP_NEWCLOSURE \<and> d \<ge> sizep p))
       (at @ '': prototype index out of range'')) (\<lambda>_.
     let jumps = isJump op \<and> \<not> (op = LOP_LOADB \<and> c = 0) in
     andthen (require (\<not> (jumps \<and> (target < 0 \<or> target \<ge> sizecode p)))
       (at @ '': jump target out of range'')) (\<lambda>_.
     andthen (require (\<not> (op = LOP_CAPTURE \<and> b \<ge> maxstacksize p \<and> a \<noteq> LCT_UPVAL))
       (at @ '': capture register out of range'')) (\<lambda>_.
     andthen (checkOperands oob p fid pc raw) (\<lambda>_.
       Inr (if jumps then [(pc, target)] else [])))))))))))"

section \<open>The decoding loop\<close>

text \<open>
  The loop from \<open>pc\<close>, with the running instruction total. The result is the total, the
  boundaries met, in order, and the jumps pushed.
\<close>

function validateCode ::
  "u32 \<Rightarrow> nat \<Rightarrow> lproto \<Rightarrow> nat \<Rightarrow> nat \<Rightarrow> nat \<Rightarrow> (nat \<times> nat list \<times> (nat \<times> int) list) res" where
  "validateCode oob maxInstructions p fid pc tot =
    (if int pc < sizecode p then
       andthen (require (tot + 1 \<le> maxInstructions) ''instruction limit exceeded'') (\<lambda>_.
       andthen (checkInstruction oob p fid pc) (\<lambda>js.
       andthen (validateCode oob maxInstructions p fid
           (pc + opLength (LUAU_INSN_OP (codeAt oob p pc))) (tot + 1)) (\<lambda>(t, bounds, js').
         Inr (t, pc # bounds, js @ js'))))
     else Inr (tot, [], []))"
  by pat_completeness auto
termination
  by (relation "measure (\<lambda>(oob, mi, p, fid, pc, tot). nat (sizecode p - int pc))")
    (auto simp: opLength_def)

declare validateCode.simps [simp del]

text \<open>Every pushed target must be a boundary; the first offender is reported.\<close>

fun checkBoundaries :: "nat \<Rightarrow> nat list \<Rightarrow> (nat \<times> int) list \<Rightarrow> unit res" where
  "checkBoundaries fid bounds [] = Inr ()"
| "checkBoundaries fid bounds ((pc, target) # es) =
    andthen (require (target \<in> int ` set bounds)
      (at_pc fid pc @ '': jump target is not an instruction boundary'')) (\<lambda>_.
    checkBoundaries fid bounds es)"

definition validateHeader :: "nat \<Rightarrow> lproto \<Rightarrow> nat \<Rightarrow> nat \<Rightarrow> nat \<Rightarrow> unit res" where
  "validateHeader maxDepth p depth maxInstructions fid =
    andthen (require (depth \<le> maxDepth) (at_fn fid @ '': prototype nesting exceeds limit'')) (\<lambda>_.
    andthen (require (\<not> (sizecode p < 0 \<or> sizecode p > int maxInstructions \<or> sizep p < 0 \<or>
        sizep p > 100000 \<or> sizek p < 0 \<or> sizek p > 1000000))
      (at_fn fid @ '': prototype size exceeds safe limits'')) (\<lambda>_.
    andthen (require (numparams p \<le> maxstacksize p)
      (at_fn fid @ '': invalid register or parameter metadata'')) (\<lambda>_.
    andthen (require (\<not> (is_null (code p) \<and> sizecode p \<noteq> 0))
      (at_fn fid @ '' offset 0: missing instruction storage'')) (\<lambda>_.
    andthen (require (\<not> (is_null (subprotos p) \<and> sizep p \<noteq> 0))
      (at_fn fid @ '': missing child prototype storage'')) (\<lambda>_.
    require (\<not> (is_null (kconst p) \<and> sizek p \<noteq> 0))
      (at_fn fid @ '': missing constant storage''))))))"

section \<open>The prototype tree\<close>

text \<open>
  \<^verbatim>\<open>validateOne\<close> and its loop over the children. The shared counter \<^verbatim>\<open>total\<close> is returned. Child
  \<open>i\<close> of function \<open>fid\<close> is validated under the number \<open>fid + i + 1\<close>.
\<close>

function (sequential) validateOne ::
    "u32 \<Rightarrow> nat \<Rightarrow> nat \<Rightarrow> lproto option \<Rightarrow> nat \<Rightarrow> nat \<Rightarrow> nat \<Rightarrow> nat res"
  and validateChildren ::
    "u32 \<Rightarrow> nat \<Rightarrow> nat \<Rightarrow> lproto option list \<Rightarrow> nat \<Rightarrow> nat \<Rightarrow> nat \<Rightarrow> nat res" where
  "validateOne oob maxDepth maxInstructions None depth tot fid = Inl (at_fn fid @ '': null prototype'')"
| "validateOne oob maxDepth maxInstructions (Some p) depth tot fid =
    andthen (validateHeader maxDepth p depth maxInstructions fid) (\<lambda>_.
    andthen (validateCode oob maxInstructions p fid 0 tot) (\<lambda>(tot', bounds, jumps).
    andthen (checkBoundaries fid bounds jumps) (\<lambda>_.
    validateChildren oob maxDepth maxInstructions (cells (subprotos p)) (depth + 1) tot' (fid + 1))))"
| "validateChildren oob maxDepth maxInstructions [] depth tot fid = Inr tot"
| "validateChildren oob maxDepth maxInstructions (c # cs) depth tot fid =
    andthen (validateOne oob maxDepth maxInstructions c depth tot fid) (\<lambda>tot'.
    validateChildren oob maxDepth maxInstructions cs depth tot' (fid + 1))"
  by pat_completeness auto
termination
  by (relation "measure (\<lambda>x. case x of
        Inl (oob, md, mi, p, d, t, f) \<Rightarrow> size_option size p
      | Inr (oob, md, mi, cs, d, t, f) \<Rightarrow> size_list (size_option size) cs)")
    (auto simp: size_children)

definition validateProto :: "u32 \<Rightarrow> lproto option \<Rightarrow> nat \<Rightarrow> nat \<Rightarrow> nat res" where
  "validateProto oob root maxDepth maxInstructions =
    validateOne oob maxDepth maxInstructions root 0 0 0"

section \<open>What one accepted instruction guarantees\<close>

text \<open>
  The inversion of the checks: the opcode is known, the instruction fits, and the three groups
  of operand checks passed. The pushed jump is in range.
\<close>

lemma checkInstruction_Inr:
  assumes "checkInstruction oob p fid pc = Inr js"
  defines "raw \<equiv> codeAt oob p pc"
  defines "op \<equiv> LUAU_INSN_OP raw"
  shows "op < LOP_COUNT" "int (pc + opLength op) \<le> sizecode p"
    "hasRegisterA op \<Longrightarrow> \<not> (op = LOP_RETURN \<and> LUAU_INSN_B raw = 1) \<Longrightarrow> LUAU_INSN_A raw < maxstacksize p"
    "directConstant op \<Longrightarrow> 0 \<le> LUAU_INSN_D raw \<and> LUAU_INSN_D raw < sizek p"
    "cConstant op \<Longrightarrow> int (LUAU_INSN_C raw) < sizek p"
    "bConstant op \<Longrightarrow> int (LUAU_INSN_B raw) < sizek p"
    "auxConstant op \<or> low16Constant op \<or> low24Constant op \<Longrightarrow>
       auxIndex op (codeAt oob p (pc + 1)) < word_of_int (sizek p)"
    "op = LOP_NEWCLOSURE \<Longrightarrow> LUAU_INSN_D raw < sizep p"
    "op = LOP_CAPTURE \<Longrightarrow> LUAU_INSN_A raw \<noteq> LCT_UPVAL \<Longrightarrow> LUAU_INSN_B raw < maxstacksize p"
    "checkOperands oob p fid pc raw = Inr ()"
    "isJump op \<Longrightarrow> \<not> (op = LOP_LOADB \<and> LUAU_INSN_C raw = 0) \<Longrightarrow>
       0 \<le> jumpTarget raw pc \<and> jumpTarget raw pc < sizecode p"
    "js = (if isJump op \<and> \<not> (op = LOP_LOADB \<and> LUAU_INSN_C raw = 0) then [(pc, jumpTarget raw pc)] else [])"
  using assms(1) unfolding op_def raw_def checkInstruction_def Let_def res_simps
  by (auto simp: not_le not_less)

section \<open>The word past the end is never used\<close>

text \<open>
  Every opcode whose check uses the next word has an auxiliary word, and the length check comes
  first, so the word read at \<open>pc + 1\<close> is inside the code whenever its value matters.
\<close>

lemma auxConstant_hasAux:
  "auxConstant op \<or> low16Constant op \<or> low24Constant op \<Longrightarrow> hasAux op"
  unfolding auxConstant_def low16Constant_def low24Constant_def hasAux_def opLength_def getOpLength_def
  by auto

lemma checkOperands_aux:
  assumes "opLength (LUAU_INSN_OP raw) = 2 \<Longrightarrow> codeAt oob p (pc + 1) = codeAt oob' p (pc + 1)"
  shows "checkOperands oob p fid pc raw = checkOperands oob' p fid pc raw"
proof (cases "opLength (LUAU_INSN_OP raw) = 2")
  case True
  then show ?thesis by (simp only: checkOperands_def assms)
next
  case False
  then show ?thesis
    by (auto simp: checkOperands_def Let_def opLength_def getOpLength_def split: if_splits)
qed

lemma checkInstruction_oob:
  assumes p: "sizecode p = int (length (cells (code p)))" and pc: "int pc < sizecode p"
  shows "checkInstruction oob p fid pc = checkInstruction oob' p fid pc"
proof -
  have raw: "codeAt oob p pc = codeAt oob' p pc" using assms by (simp add: codeAt_def)
  show ?thesis
  proof (cases "int (pc + opLength (LUAU_INSN_OP (codeAt oob' p pc))) \<le> sizecode p")
    case False
    then show ?thesis unfolding checkInstruction_def Let_def raw by (simp add: require_def)
  next
    case True
    then have aux: "codeAt oob p (pc + 1) = codeAt oob' p (pc + 1)"
      if "opLength (LUAU_INSN_OP (codeAt oob' p pc)) = 2"
      using that p by (simp add: codeAt_def)
    let ?op = "LUAU_INSN_OP (codeAt oob' p pc)"
    have "((auxConstant ?op \<or> low16Constant ?op \<or> low24Constant ?op) \<and> word_of_int (sizek p) \<le> auxIndex ?op (codeAt oob p (pc + 1))) =
        ((auxConstant ?op \<or> low16Constant ?op \<or> low24Constant ?op) \<and> word_of_int (sizek p) \<le> auxIndex ?op (codeAt oob' p (pc + 1)))"
      using aux auxConstant_hasAux [of ?op] by (auto simp: hasAux_def)
    moreover have "checkOperands oob p fid pc (codeAt oob' p pc) =
        checkOperands oob' p fid pc (codeAt oob' p pc)"
      by (rule checkOperands_aux) (rule aux)
    ultimately show ?thesis unfolding checkInstruction_def Let_def raw by (simp only:)
  qed
qed

lemma validateCode_oob:
  assumes "sizecode p = int (length (cells (code p)))"
  shows "validateCode oob mi p fid pc tot = validateCode oob' mi p fid pc tot"
  using assms
proof (induction oob mi p fid pc tot rule: validateCode.induct)
  case (1 oob mi p fid pc tot)
  show ?case
  proof (cases "int pc < sizecode p")
    case True
    then have raw: "codeAt oob p pc = codeAt oob' p pc" using 1(2) by (simp add: codeAt_def)
    show ?thesis
      unfolding validateCode.simps [of _ mi p fid pc] checkInstruction_oob [OF 1(2) True, of oob fid oob']
      using 1 True raw
      by (auto simp: checkInstruction_oob [OF 1(2) True, of oob fid oob'] intro!: andthen_cong)
  qed (simp add: validateCode.simps [of _ mi p fid pc])
qed

lemma validateHeader_Inr:
  assumes "validateHeader md p depth mi fid = Inr ()"
  shows "depth \<le> md" "sizecode p = int (length (cells (code p)))" "sizep p = int (length (cells (subprotos p)))"
    "sizek p = int (length (cells (kconst p)))" "sizecode p \<le> int mi" "sizep p \<le> 100000" "sizek p \<le> 1000000"
    "numparams p \<le> maxstacksize p"
  using assms unfolding validateHeader_def by (auto simp: res_simps intro!: csize_cells)

lemma validateOne_oob:
  "validateOne oob md mi q depth tot fid = validateOne oob' md mi q depth tot fid"
  "validateChildren oob md mi qs depth tot fid = validateChildren oob' md mi qs depth tot fid"
proof (induction oob md mi q depth tot fid and oob md mi qs depth tot fid rule: validateOne_validateChildren.induct)
  case (2 oob md mi p depth tot fid)
  then show ?case
    using validateCode_oob [OF validateHeader_Inr(2), of md p depth mi fid oob mi fid 0 tot oob']
    by (cases "validateHeader md p depth mi fid") (auto simp: andthen_def split: sum.splits)
qed (auto intro!: andthen_cong)

end
