(* ===== verification/IR_Decode.thy ===== *)
theory IR_Decode
  imports IR_Validate IR_Blocks
begin

text \<open>
  The decoding loop of \<^verbatim>\<open>addFunction\<close> and what validation guarantees about the instructions it
  produces: they tile the code without gaps, their register operands lie in the frame, their
  constant operands in the constant table, and their jumps land on decoded instructions. The
  last part lifts this to the prototype tree.
\<close>

section \<open>The decoding loop of addFunction\<close>

function decodeFrom :: "u32 \<Rightarrow> lproto \<Rightarrow> nat \<Rightarrow> instruction list" where
  "decodeFrom oob p pc =
    (if int pc < sizecode p then
       (let i = decodeInstruction (int (maxstacksize p)) (luaG_getline p pc) (codeAt oob p pc)
              (codeAt oob p (pc + 1)) pc
        in i # decodeFrom oob p (pc + i_length i))
     else [])"
  by pat_completeness auto
termination
  by (relation "measure (\<lambda>(oob, p, pc). nat (sizecode p - int pc))") (auto simp: opLength_def)

declare decodeFrom.simps [simp del]

definition decodeCode :: "u32 \<Rightarrow> lproto \<Rightarrow> instruction list" where
  "decodeCode oob p = decodeFrom oob p 0"

lemma decodeFrom_mem:
  "i \<in> set (decodeFrom oob p pc) \<Longrightarrow>
    pc \<le> i_offset i \<and> int (i_offset i) < sizecode p \<and>
    i = decodeInstruction (int (maxstacksize p)) (luaG_getline p (i_offset i))
      (codeAt oob p (i_offset i)) (codeAt oob p (i_offset i + 1)) (i_offset i)"
proof (induction oob p pc rule: decodeFrom.induct)
  case (1 oob p pc)
  then show ?case
    by (subst (asm) decodeFrom.simps) (force simp: Let_def split: if_splits)
qed

lemma decodeCode_instr_ok: "i \<in> set (decodeCode oob p) \<Longrightarrow> instr_ok (int (maxstacksize p)) i"
  using decodeFrom_mem [of i oob p 0] decode_instr_ok by (metis decodeCode_def)

section \<open>Validated code\<close>

text \<open>
  One induction over the loop of \<^verbatim>\<open>validateOne\<close> relates it to the decoding loop: the boundaries
  are the offsets of the decoded instructions, every one of them passed its checks, the
  running total counts them, and the code is tiled exactly.
\<close>

lemma validateCode_decode:
  assumes "validateCode oob mi p fid pc tot = Inr (t, bounds, js)" "int pc \<le> sizecode p" "tot \<le> mi"
  shows "bounds = map i_offset (decodeFrom oob p pc) \<and>
    code_layout pc (nat (sizecode p)) (decodeFrom oob p pc) \<and>
    t = tot + length (decodeFrom oob p pc) \<and> t \<le> mi \<and>
    (\<forall>q\<in>set bounds. \<exists>js'. checkInstruction oob p fid q = Inr js' \<and> set js' \<subseteq> set js)"
  using assms
proof (induction oob mi p fid pc tot arbitrary: t bounds js rule: validateCode.induct)
  case (1 oob mi p fid pc tot)
  show ?case
  proof (cases "int pc < sizecode p")
    case False
    then show ?thesis
      using 1(2-) by (auto simp: validateCode.simps [of oob mi p fid pc] decodeFrom.simps [of oob p pc])
  next
    case True
    let ?len = "opLength (LUAU_INSN_OP (codeAt oob p pc))"
    from True 1(2) obtain js1 bounds2 js2 where
      lim: "tot + 1 \<le> mi" and chk: "checkInstruction oob p fid pc = Inr js1" and
      rest: "validateCode oob mi p fid (pc + ?len) (tot + 1) = Inr (t, bounds2, js2)" and
      eqs: "bounds = pc # bounds2" "js = js1 @ js2"
      by (subst (asm) validateCode.simps) (auto simp: res_simps split: prod.splits)
    have fits: "int (pc + ?len) \<le> sizecode p" using checkInstruction_Inr(2) [OF chk] .
    have IH: "bounds2 = map i_offset (decodeFrom oob p (pc + ?len)) \<and>
      code_layout (pc + ?len) (nat (sizecode p)) (decodeFrom oob p (pc + ?len)) \<and>
      t = tot + 1 + length (decodeFrom oob p (pc + ?len)) \<and> t \<le> mi \<and>
      (\<forall>q\<in>set bounds2. \<exists>js'. checkInstruction oob p fid q = Inr js' \<and> set js' \<subseteq> set js2)"
      using 1(1) [OF True _ chk rest fits] lim by simp
    have dec: "decodeFrom oob p pc =
        decodeInstruction (int (maxstacksize p)) (luaG_getline p pc) (codeAt oob p pc)
          (codeAt oob p (pc + 1)) pc # decodeFrom oob p (pc + ?len)"
      using True by (simp add: decodeFrom.simps [of oob p pc] Let_def)
    show ?thesis using IH chk eqs by (auto simp: dec opLength_def) blast+
  qed
qed

section \<open>Operands of accepted instructions\<close>

text \<open>
  The opcodes whose \<open>B\<close> operand is a register that validation does not look at.
\<close>

definition uncheckedB :: "luau_opcode \<Rightarrow> bool" where
  "uncheckedB op \<longleftrightarrow> op \<in> {LOP_ADDK, LOP_SUBK, LOP_MULK, LOP_DIVK, LOP_MODK, LOP_POWK, LOP_ANDK, LOP_ORK}"

definition in_frame :: "bool \<Rightarrow> nat \<Rightarrow> int list \<times> int list \<times> bool \<Rightarrow> bool" where
  "in_frame unchecked ms = (\<lambda>(us, ds, _).
    (\<forall>r\<in>set us. 0 \<le> r \<and> (unchecked \<or> r < int ms)) \<and> (\<forall>r\<in>set ds. 0 \<le> r \<and> r < int ms))"

definition registers_ok :: "lproto \<Rightarrow> instruction \<Rightarrow> bool" where
  "registers_ok p i \<longleftrightarrow> in_frame (uncheckedB (i_opcode i)) (maxstacksize p)
    (operandRegisters i (int (maxstacksize p)))"

text \<open>
  \<^verbatim>\<open>annotateInstruction\<close> cuts ranges off at the end of the frame, so \<open>registers_ok\<close> says nothing of their length.
  The ranges whose length validation does check end inside the frame; of the others (\<^verbatim>\<open>CALL\<close>, \<^verbatim>\<open>RETURN\<close>,
  \<^verbatim>\<open>GETVARARGS\<close>) only the first register does, and of \<^verbatim>\<open>SETLIST\<close> only the table.
\<close>

definition spans_ok :: "lproto \<Rightarrow> instruction \<Rightarrow> bool" where
  "spans_ok p i \<longleftrightarrow>
    (let op = i_opcode i; a = i_a i; ms = maxstacksize p; variables = unat (i_aux i AND 0xff) in
     (hasRegisterA op \<and> \<not> (op = LOP_RETURN \<and> i_b i = 1) \<longrightarrow> a < ms) \<and>
     (op \<in> {LOP_NAMECALL, LOP_NAMECALLUDATA} \<longrightarrow> a + 1 < ms) \<and>
     (op \<in> {LOP_FORNPREP, LOP_FORNLOOP, LOP_FORGPREP, LOP_FORGPREP_INEXT, LOP_FORGPREP_NEXT} \<longrightarrow> a + 2 < ms) \<and>
     (op = LOP_FORGLOOP \<longrightarrow> 0 < variables \<and> a + 2 + variables < ms) \<and>
     (op = LOP_CONCAT \<longrightarrow> i_b i < ms \<and> i_c i < ms))"

definition usesConstant :: "luau_opcode \<Rightarrow> bool" where
  "usesConstant op \<longleftrightarrow> directConstant op \<or> cConstant op \<or> bConstant op \<or> auxConstant op \<or>
    low16Constant op \<or> low24Constant op"

definition constant_ok :: "lproto \<Rightarrow> instruction \<Rightarrow> bool" where
  "constant_ok p i \<longleftrightarrow>
    (if usesConstant (i_opcode i) then 0 \<le> i_constantIndex i \<and> i_constantIndex i < sizek p
     else i_constantIndex i = -1)"

lemma set_addRange: "set (addRange rc first count) = {first..min (first + count - 1) (rc - 1)}"
  by (simp add: addRange_def takeWhile_upto_less)

lemma sint_small:
  assumes "unat (w :: u32) < 2 ^ 31"
  shows "sint w = int (unat w)"
proof -
  have "int (unat w) < int (2 ^ 31)" using assms by (simp only: of_nat_less_iff)
  then have "uint w < 2 ^ 31" by (simp only: uint_nat of_nat_power of_nat_numeral)
  moreover have "- (2 ^ 31) \<le> uint w" by (rule order_trans [OF _ uint_ge_0]) simp
  ultimately have "signed_take_bit 31 (uint w) = uint w" by (intro signed_take_bit_int_eq_self)
  then show ?thesis by (simp add: sint_uint)
qed

lemma unat_and_le: "unat (w AND m :: u32) \<le> unat m"
  using word_and_le1 [of w m] by (simp add: word_le_nat_alt)

lemma sint_low8: "sint (w AND 0xff :: u32) = int (unat (w AND 0xff))"
  using unat_and_255 [of w] by (intro sint_small) simp

lemma checkOperands_Inr:
  assumes "checkOperands oob p fid pc raw = Inr ()"
  defines "op \<equiv> LUAU_INSN_OP raw" and "ms \<equiv> maxstacksize p" and "aux \<equiv> codeAt oob p (pc + 1)"
  shows "op \<in> {LOP_MOVE, LOP_GETTABLE, LOP_SETTABLE, LOP_ADD, LOP_SUB, LOP_MUL, LOP_DIV, LOP_MOD,
       LOP_POW, LOP_AND, LOP_OR, LOP_CONCAT, LOP_IDIV} \<Longrightarrow> LUAU_INSN_B raw < ms \<and> LUAU_INSN_C raw < ms"
    "op \<in> {LOP_GETTABLEKS, LOP_SETTABLEKS, LOP_GETTABLEN, LOP_SETTABLEN, LOP_GETUDATAKS,
       LOP_SETUDATAKS, LOP_NOT, LOP_MINUS, LOP_LENGTH, LOP_IDIVK, LOP_FASTCALL1, LOP_FASTCALL2,
       LOP_FASTCALL2K, LOP_FASTCALL3, LOP_NAMECALL, LOP_NAMECALLUDATA} \<Longrightarrow> LUAU_INSN_B raw < ms"
    "op \<in> {LOP_SUBRK, LOP_DIVRK, LOP_NEWCLASSMEMBER} \<Longrightarrow> LUAU_INSN_C raw < ms"
    "op \<in> {LOP_JUMPIFEQ, LOP_JUMPIFLE, LOP_JUMPIFLT, LOP_JUMPIFNOTEQ, LOP_JUMPIFNOTLE,
       LOP_JUMPIFNOTLT} \<Longrightarrow> unat aux < ms"
    "op \<in> {LOP_FASTCALL2, LOP_FASTCALL3} \<Longrightarrow> unat (aux AND 0xff) < ms"
    "op = LOP_FASTCALL3 \<Longrightarrow> unat (drop_bit 8 aux AND 0xff) < ms"
    "op \<in> {LOP_NAMECALL, LOP_NAMECALLUDATA} \<Longrightarrow> LUAU_INSN_A raw + 1 < ms"
    "op \<in> {LOP_FORNPREP, LOP_FORNLOOP, LOP_FORGPREP, LOP_FORGPREP_INEXT, LOP_FORGPREP_NEXT} \<Longrightarrow>
       LUAU_INSN_A raw + 2 < ms"
    "op = LOP_FORGLOOP \<Longrightarrow> 0 < unat (aux AND 0xff) \<and> LUAU_INSN_A raw + 2 + unat (aux AND 0xff) < ms"
  using assms(1) unfolding checkOperands_def Let_def op_def [symmetric] ms_def [symmetric]
    aux_def [symmetric] checkReg_def
  by (auto simp: res_simps)

lemma in_frame_if:
  "(c \<Longrightarrow> in_frame u ms x) \<Longrightarrow> in_frame u ms y \<Longrightarrow> in_frame u ms (if c then x else y)"
  by simp

lemma accepted_registers:
  assumes chk: "checkInstruction oob p fid pc = Inr js"
  shows "registers_ok p (decodeInstruction (int (maxstacksize p)) line (codeAt oob p pc)
    (codeAt oob p (pc + 1)) pc)"
proof -
  define raw nxt where "raw = codeAt oob p pc" and "nxt = codeAt oob p (pc + 1)"
  let ?op = "LUAU_INSN_OP raw"
  let ?a = "LUAU_INSN_A raw" and ?ms = "maxstacksize p"
  note inv = checkInstruction_Inr [OF chk, folded raw_def nxt_def]
  note ops = checkOperands_Inr [OF inv(10), folded nxt_def]
  have low: "unat aux < ?ms \<Longrightarrow> sint aux = int (unat aux)" for aux :: u32
    using maxstacksize_bound [of p] by (intro sint_small) simp
  have regA: "?op \<notin> {LOP_RETURN, LOP_NOP, LOP_BREAK, LOP_JUMP, LOP_JUMPBACK, LOP_JUMPX, LOP_FASTCALL,
      LOP_FASTCALL1, LOP_FASTCALL2, LOP_FASTCALL2K, LOP_FASTCALL3, LOP_FASTPCALL, LOP_NATIVECALL,
      LOP_COVERAGE, LOP_CAPTURE, LOP_PREPVARARGS} \<Longrightarrow> ?a < ?ms"
    using inv(3) by (simp add: hasRegisterA_def)
  have off: "?op \<in> {LOP_NAMECALL, LOP_NAMECALLUDATA} \<Longrightarrow> int ?a + 1 < int ?ms"
    "?op \<in> {LOP_FORNPREP, LOP_FORNLOOP, LOP_FORGPREP, LOP_FORGPREP_INEXT, LOP_FORGPREP_NEXT,
      LOP_FORGLOOP} \<Longrightarrow> int ?a + 2 < int ?ms"
    "?op = LOP_CONCAT \<Longrightarrow> r \<le> int (LUAU_INSN_C raw) \<Longrightarrow> r < int ?ms" for r
    using ops(1,7,8,9) by auto
  have sentinel: "?op \<noteq> LOP_FORGLOOP_INEXT" "?op \<noteq> LOP_FORGLOOP_NEXT" using inv(1) by auto
  show ?thesis
    unfolding registers_ok_def operandRegisters_def Let_def decode_fields raw_def [symmetric]
      nxt_def [symmetric]
    by (intro in_frame_if)
      (auto simp: in_frame_def uncheckedB_def set_addRange regA inv(9) ops(1-6) off low sint_low8 sentinel
        hasAux_def opLength_def getOpLength_def simp del: of_nat_unat)
qed

lemma accepted_spans:
  assumes chk: "checkInstruction oob p fid pc = Inr js"
  shows "spans_ok p (decodeInstruction (int (maxstacksize p)) line (codeAt oob p pc) (codeAt oob p (pc + 1)) pc)"
proof -
  define raw nxt where "raw = codeAt oob p pc" and "nxt = codeAt oob p (pc + 1)"
  note inv = checkInstruction_Inr [OF chk, folded raw_def nxt_def]
  note ops = checkOperands_Inr [OF inv(10), folded nxt_def]
  show ?thesis
    unfolding spans_ok_def Let_def decode_fields raw_def [symmetric] nxt_def [symmetric]
    using inv(3) ops(1,7-9) by (simp add: hasAux_def opLength_def getOpLength_def)
qed

lemma constantIndexOf_cases:
  "directConstant (i_opcode i) \<Longrightarrow> constantIndexOf i = i_d i"
  "cConstant (i_opcode i) \<Longrightarrow> constantIndexOf i = int (i_c i)"
  "bConstant (i_opcode i) \<Longrightarrow> constantIndexOf i = int (i_b i)"
  "auxConstant (i_opcode i) \<or> low16Constant (i_opcode i) \<or> low24Constant (i_opcode i) \<Longrightarrow>
    constantIndexOf i = sint (auxIndex (i_opcode i) (i_aux i))"
  "\<not> usesConstant (i_opcode i) \<Longrightarrow> constantIndexOf i = -1"
  unfolding usesConstant_def directConstant_def cConstant_def bConstant_def auxConstant_def low16Constant_def
    low24Constant_def constantIndexOf_def Let_def auxIndex_def
  by auto

lemma accepted_constant:
  assumes chk: "checkInstruction oob p fid pc = Inr js" and k: "0 \<le> sizek p" "sizek p \<le> 1000000"
  shows "constant_ok p (decodeInstruction (int (maxstacksize p)) line (codeAt oob p pc)
    (codeAt oob p (pc + 1)) pc)" (is "constant_ok p ?i")
proof -
  note inv = checkInstruction_Inr [OF chk]
  have aux: "0 \<le> sint w \<and> sint w < sizek p" if "w < word_of_int (sizek p)" for w :: u32
  proof -
    have "uint (word_of_int (sizek p) :: u32) = sizek p"
      using k by (simp add: uint_word_of_int take_bit_int_eq_self)
    then have w: "uint w < sizek p" using that by (simp add: word_less_def)
    then have "int (unat w) < 1000000" using k by simp
    then have "sint w = int (unat w)" by (intro sint_small) (simp del: of_nat_unat)
    then show ?thesis using w by simp
  qed
  show ?thesis
  proof (cases "usesConstant (i_opcode ?i)")
    case False
    then show ?thesis by (simp add: constant_ok_def decode_operands(1) constantIndexOf_cases(5))
  next
    case True
    then consider (d) "directConstant (i_opcode ?i)" | (c) "cConstant (i_opcode ?i)" |
      (b) "bConstant (i_opcode ?i)" |
      (x) "auxConstant (i_opcode ?i) \<or> low16Constant (i_opcode ?i) \<or> low24Constant (i_opcode ?i)"
      unfolding usesConstant_def by blast
    then have "0 \<le> constantIndexOf ?i \<and> constantIndexOf ?i < sizek p"
      by cases (use inv(4-7) aux in \<open>simp_all add: constantIndexOf_cases auxConstant_hasAux\<close>)
    then show ?thesis using True by (simp add: constant_ok_def decode_operands(1))
  qed
qed

lemma jumpTarget_none:
  "\<not> isJump (LUAU_INSN_OP raw) \<or> LUAU_INSN_OP raw = LOP_LOADB \<and> LUAU_INSN_C raw = 0 \<Longrightarrow>
    jumpTarget raw pc = -1"
  by (auto simp: jumpTarget_def getJumpTarget_def isJump_def isJumpD_def isFastCall_def isSkipC_def Let_def)

section \<open>The accepted prototype tree\<close>

text \<open>All prototypes of a tree with their nesting depth, in the order they are visited.\<close>

function (sequential) prototypesOf :: "nat \<Rightarrow> lproto option \<Rightarrow> (nat \<times> lproto) list"
  and prototypesOfAll :: "nat \<Rightarrow> lproto option list \<Rightarrow> (nat \<times> lproto) list" where
  "prototypesOf d None = []"
| "prototypesOf d (Some p) = (d, p) # prototypesOfAll (d + 1) (cells (subprotos p))"
| "prototypesOfAll d [] = []"
| "prototypesOfAll d (c # cs) = prototypesOf d c @ prototypesOfAll d cs"
  by pat_completeness auto
termination
  by (relation "measure (\<lambda>x. case x of Inl (d, p) \<Rightarrow> size_option size p
      | Inr (d, cs) \<Rightarrow> size_list (size_option size) cs)") (auto simp: size_children)

text \<open>What validation promises of one prototype, in terms of the decoded instructions.\<close>

definition proto_ok :: "u32 \<Rightarrow> lproto \<Rightarrow> bool" where
  "proto_ok oob p \<longleftrightarrow>
    (let ins = decodeCode oob p; n = length (cells (code p)) in
     sizecode p = int n \<and> None \<notin> set (cells (subprotos p)) \<and>
     sizek p = int (length (cells (kconst p))) \<and> numparams p \<le> maxstacksize p \<and>
     code_layout 0 n ins \<and>
     (\<forall>i\<in>set ins. i_opcode i < LOP_COUNT \<and> registers_ok p i \<and> spans_ok p i \<and> constant_ok p i \<and>
        (i_jumpTarget i = -1 \<or> i_jumpTarget i \<in> (\<lambda>j. int (i_offset j)) ` set ins) \<and>
        (isJump (i_opcode i) \<and> \<not> (i_opcode i = LOP_LOADB \<and> i_c i = 0) \<longrightarrow> 0 \<le> i_jumpTarget i) \<and>
        (i_opcode i = LOP_NEWCLOSURE \<longrightarrow> i_d i < sizep p)))"

lemma checkBoundaries_Inr:
  "checkBoundaries fid bounds js = Inr () \<Longrightarrow> e \<in> set js \<Longrightarrow> snd e \<in> int ` set bounds"
  by (induction fid bounds js rule: checkBoundaries.induct) (auto simp: res_simps)

lemma validateOne_proto_ok:
  assumes hdr: "validateHeader md p depth mi fid = Inr ()"
    and code: "validateCode oob mi p fid 0 tot = Inr (t, bounds, js)" and tot: "tot \<le> mi"
    and bnd: "checkBoundaries fid bounds js = Inr ()"
    and kids: "None \<notin> set (cells (subprotos p))"
  shows "proto_ok oob p" "t = tot + length (decodeCode oob p)" "t \<le> mi"
proof -
  note h = validateHeader_Inr [OF hdr]
  have dec: "bounds = map i_offset (decodeCode oob p)" "code_layout 0 (nat (sizecode p)) (decodeCode oob p)"
    "t = tot + length (decodeCode oob p)" "t \<le> mi"
    "\<forall>q\<in>set bounds. \<exists>js'. checkInstruction oob p fid q = Inr js' \<and> set js' \<subseteq> set js"
    using validateCode_decode [OF code _ tot] h(2) by (simp_all add: decodeCode_def)
  show "t = tot + length (decodeCode oob p)" "t \<le> mi" using dec by blast+
  have one: "i_opcode i < LOP_COUNT \<and> registers_ok p i \<and> spans_ok p i \<and> constant_ok p i \<and>
      (i_jumpTarget i = -1 \<or> i_jumpTarget i \<in> (\<lambda>j. int (i_offset j)) ` set (decodeCode oob p)) \<and>
      (isJump (i_opcode i) \<and> \<not> (i_opcode i = LOP_LOADB \<and> i_c i = 0) \<longrightarrow> 0 \<le> i_jumpTarget i) \<and>
      (i_opcode i = LOP_NEWCLOSURE \<longrightarrow> i_d i < sizep p)" if i: "i \<in> set (decodeCode oob p)" for i
  proof -
    let ?pc = "i_offset i"
    have eq: "i = decodeInstruction (int (maxstacksize p)) (luaG_getline p ?pc) (codeAt oob p ?pc)
        (codeAt oob p (?pc + 1)) ?pc"
      using decodeFrom_mem i by (simp add: decodeCode_def)
    obtain js' where chk: "checkInstruction oob p fid ?pc = Inr js'" and sub: "set js' \<subseteq> set js"
      using dec(1,5) i by auto
    note inv = checkInstruction_Inr [OF chk]
    have "registers_ok p i" by (subst eq) (rule accepted_registers [OF chk])
    moreover have "spans_ok p i" by (subst eq) (rule accepted_spans [OF chk])
    moreover have "constant_ok p i"
      by (subst eq) (rule accepted_constant [OF chk], use h(4,7) in simp_all)
    moreover have "i_opcode i < LOP_COUNT" using inv(1) by (subst eq) simp
    moreover have "isJump (i_opcode i) \<and> \<not> (i_opcode i = LOP_LOADB \<and> i_c i = 0) \<longrightarrow> 0 \<le> i_jumpTarget i"
      using inv(11) by (subst eq, subst (2) eq, subst (2) eq, subst eq) simp
    moreover have "i_opcode i = LOP_NEWCLOSURE \<longrightarrow> i_d i < sizep p" using inv(8) by (subst eq, subst eq) simp
    moreover have "i_jumpTarget i = -1 \<or> i_jumpTarget i \<in> (\<lambda>j. int (i_offset j)) ` set (decodeCode oob p)"
    proof (cases "js' = []")
      case True
      then have "jumpTarget (codeAt oob p ?pc) ?pc = -1"
        using inv(12) jumpTarget_none by (auto split: if_splits)
      then show ?thesis by (subst eq) simp
    next
      case False
      then have "(?pc, jumpTarget (codeAt oob p ?pc) ?pc) \<in> set js" using inv(12) sub by (auto split: if_splits)
      then have "jumpTarget (codeAt oob p ?pc) ?pc \<in> int ` set bounds"
        using checkBoundaries_Inr [OF bnd] by force
      then have "jumpTarget (codeAt oob p ?pc) ?pc \<in> (\<lambda>j. int (i_offset j)) ` set (decodeCode oob p)"
        by (simp add: dec(1) image_image)
      moreover have "i_jumpTarget i = jumpTarget (codeAt oob p ?pc) ?pc" by (subst eq) simp
      ultimately show ?thesis by simp
    qed
    ultimately show ?thesis by blast
  qed
  show "proto_ok oob p"
    unfolding proto_ok_def Let_def using h(2,4,8) kids dec(2) one by simp
qed

lemma validateOne_tree:
  "validateOne oob md mi q depth tot fid = Inr t \<Longrightarrow> tot \<le> mi \<Longrightarrow>
    q \<noteq> None \<and> t = tot + (\<Sum>(d, p)\<leftarrow>prototypesOf depth q. length (decodeCode oob p)) \<and> t \<le> mi \<and>
    (\<forall>(d, p)\<in>set (prototypesOf depth q). d \<le> md \<and> proto_ok oob p)"
  "validateChildren oob md mi qs depth tot fid = Inr t \<Longrightarrow> tot \<le> mi \<Longrightarrow>
    None \<notin> set qs \<and> t = tot + (\<Sum>(d, p)\<leftarrow>prototypesOfAll depth qs. length (decodeCode oob p)) \<and> t \<le> mi \<and>
    (\<forall>(d, p)\<in>set (prototypesOfAll depth qs). d \<le> md \<and> proto_ok oob p)"
proof (induction oob md mi q depth tot fid and oob md mi qs depth tot fid arbitrary: t and t
    rule: validateOne_validateChildren.induct)
  case (2 oob md mi p depth tot fid)
  then obtain tot' bounds js where
    hdr: "validateHeader md p depth mi fid = Inr ()" and
    code: "validateCode oob mi p fid 0 tot = Inr (tot', bounds, js)" and
    bnd: "checkBoundaries fid bounds js = Inr ()" and
    rest: "validateChildren oob md mi (cells (subprotos p)) (depth + 1) tot' (fid + 1) = Inr t"
    by (auto simp: res_simps split: prod.splits)
  have t': "tot' = tot + length (decodeCode oob p)" "tot' \<le> mi"
    using validateCode_decode [OF code _ 2(3)] validateHeader_Inr(2) [OF hdr] by (simp_all add: decodeCode_def)
  note IH = 2(1) [OF hdr code refl refl bnd rest t'(2)]
  then have "proto_ok oob p" using validateOne_proto_ok(1) [OF hdr code 2(3) bnd] by blast
  then show ?case using IH t' validateHeader_Inr(1) [OF hdr] by auto
next
  case (4 oob md mi c cs depth tot fid)
  then obtain tot' where one: "validateOne oob md mi c depth tot fid = Inr tot'"
    and rest: "validateChildren oob md mi cs depth tot' (fid + 1) = Inr t"
    by (auto simp: res_simps)
  note a = 4(1) [OF one 4(4)]
  note b = 4(2) [OF one rest]
  show ?case using a b by auto
qed simp_all

end
