(* ===== verification/Luau_Machine.thy ===== *)
theory Luau_Machine
  imports IR_Decode
begin

text \<open>
  What an instruction of Luau reads and writes, after the interpreter (\<^verbatim>\<open>luau/VM/src/lvmexecute.cpp\<close>): the
  specification against which the uses and definitions of \<^verbatim>\<open>annotateInstruction\<close> are checked. The machine runs
  one instruction on the registers of a frame, as a function, and on a world \<open>'w\<close> that holds everything else
  (heap, globals, upvalues, the values returned). What the interpreter computes from values is left
  open: it is a parameter for every instruction, by its offset. The registers are those of the frame alone, so a
  local variable that a closure shares is not one of them.

  Left out are the instructions that run other code in the frame or whose registers depend on the top of
  the stack (calls, generic loops, \<^verbatim>\<open>FASTCALL\<close>, \<^verbatim>\<open>PREPVARARGS\<close>, the forms of \<^verbatim>\<open>RETURN\<close>, \<^verbatim>\<open>SETLIST\<close> and
  \<^verbatim>\<open>GETVARARGS\<close> with an open end), those that belong to a group of instructions (\<^verbatim>\<open>NEWCLOSURE\<close> with its
  \<^verbatim>\<open>CAPTURE\<close>s, \<^verbatim>\<open>NAMECALLUDATA\<close>, \<^verbatim>\<open>CLOSEUPVALS\<close>), classes, and \<^verbatim>\<open>CONCAT\<close>, which uses its operands as scratch space.
\<close>

section \<open>The machine\<close>

record ('v, 'w) luau_vm =
  vm_value :: "nat \<Rightarrow> 'v list \<Rightarrow> 'w \<Rightarrow> 'v \<times> 'w"  \<comment> \<open>what an instruction computes from registers and constants\<close>
  vm_store :: "nat \<Rightarrow> 'v list \<Rightarrow> 'w \<Rightarrow> 'w"         \<comment> \<open>an assignment to a table, global or upvalue\<close>
  vm_test :: "nat \<Rightarrow> 'v list \<Rightarrow> 'w \<Rightarrow> bool \<times> 'w"   \<comment> \<open>the condition of a jump\<close>
  vm_false :: "'v \<Rightarrow> bool"                      \<comment> \<open>\<^verbatim>\<open>l_isfalse\<close>\<close>
  vm_number :: "'v \<Rightarrow> 'v"                       \<comment> \<open>the conversion of a loop bound\<close>
  vm_const :: "nat \<Rightarrow> 'v"                       \<comment> \<open>the constant of an instruction\<close>
  vm_vararg :: "nat \<Rightarrow> 'v"                      \<comment> \<open>the variable arguments, then nil\<close>

type_synonym 'v registers = "nat \<Rightarrow> 'v"

text \<open>The result of an instruction: the registers, the world, and whether it jumps.\<close>

type_synonym ('v, 'w) outcome = "'v registers \<times> 'w \<times> bool"

definition assign :: "nat \<Rightarrow> 'v registers \<Rightarrow> 'v \<times> 'w \<Rightarrow> ('v, 'w) outcome" where
  "assign a R xw = (R(a := fst xw), snd xw, False)"

definition effect_only :: "'v registers \<Rightarrow> 'w \<Rightarrow> ('v, 'w) outcome" where
  "effect_only R w = (R, w, False)"

definition jump_if :: "'v registers \<Rightarrow> bool \<times> 'w \<Rightarrow> ('v, 'w) outcome" where
  "jump_if R bw = (R, snd bw, fst bw)"

definition machine_exec :: "('v, 'w) luau_vm \<Rightarrow> instruction \<Rightarrow> 'v registers \<Rightarrow> 'w \<Rightarrow> ('v, 'w) outcome" where
  "machine_exec vm i R w =
    (let op = i_opcode i; a = i_a i; b = i_b i; c = i_c i; pc = i_offset i;
         f = vm_value vm pc; store = vm_store vm pc; test = vm_test vm pc in
     if op \<in> {LOP_LOADNIL, LOP_LOADN, LOP_LOADK, LOP_LOADKX, LOP_GETGLOBAL, LOP_GETUPVAL, LOP_GETIMPORT,
       LOP_NEWTABLE, LOP_DUPTABLE} then assign a R (f [] w)
     else if op = LOP_LOADB then (R(a := fst (f [] w)), snd (f [] w), c \<noteq> 0)
     else if op = LOP_MOVE then assign a R (R b, w)
     else if op \<in> {LOP_SETGLOBAL, LOP_SETUPVAL} then effect_only R (store [R a] w)
     else if op = LOP_GETTABLE then assign a R (f [R b, R c] w)
     else if op \<in> {LOP_GETTABLEKS, LOP_GETTABLEN, LOP_GETUDATAKS} then assign a R (f [R b] w)
     else if op = LOP_SETTABLE then effect_only R (store [R b, R c, R a] w)
     else if op \<in> {LOP_SETTABLEKS, LOP_SETTABLEN, LOP_SETUDATAKS} then effect_only R (store [R b, R a] w)
     else if op = LOP_NAMECALL then
       (let (x, w') = f [R b] w in (R(a + 1 := R b, a := x), w', False))
     else if op \<in> {LOP_ADD, LOP_SUB, LOP_MUL, LOP_DIV, LOP_MOD, LOP_POW, LOP_IDIV} then assign a R (f [R b, R c] w)
     else if op \<in> {LOP_ADDK, LOP_SUBK, LOP_MULK, LOP_DIVK, LOP_MODK, LOP_POWK, LOP_IDIVK} then assign a R (f [R b] w)
     else if op \<in> {LOP_SUBRK, LOP_DIVRK} then assign a R (f [R c] w)
     else if op = LOP_AND then assign a R (if vm_false vm (R b) then R b else R c, w)
     else if op = LOP_OR then assign a R (if vm_false vm (R b) then R c else R b, w)
     else if op = LOP_ANDK then assign a R (if vm_false vm (R b) then R b else vm_const vm pc, w)
     else if op = LOP_ORK then assign a R (if vm_false vm (R b) then vm_const vm pc else R b, w)
     else if op \<in> {LOP_NOT, LOP_MINUS, LOP_LENGTH} then assign a R (f [R b] w)
     else if op = LOP_SETLIST then effect_only R (store (R a # map R [b..<b + (c - 1)]) w)
     else if op = LOP_GETVARARGS then
       (\<lambda>r. if a \<le> r \<and> r < a + (b - 1) then vm_vararg vm (r - a) else R r, w, False)
     else if op = LOP_RETURN then effect_only R (store (map R [a..<a + (b - 1)]) w)
     else if op \<in> {LOP_JUMP, LOP_JUMPBACK, LOP_JUMPX} then (R, w, True)
     else if op = LOP_JUMPIF then (R, w, \<not> vm_false vm (R a))
     else if op = LOP_JUMPIFNOT then (R, w, vm_false vm (R a))
     else if op \<in> {LOP_JUMPIFEQ, LOP_JUMPIFLE, LOP_JUMPIFLT, LOP_JUMPIFNOTEQ, LOP_JUMPIFNOTLE, LOP_JUMPIFNOTLT}
       then jump_if R (test [R a, R (unat (i_aux i))] w)
     else if op \<in> {LOP_JUMPXEQKNIL, LOP_JUMPXEQKB, LOP_JUMPXEQKN, LOP_JUMPXEQKS, LOP_CMPPROTO}
       then jump_if R (test [R a] w)
     else if op = LOP_FORNPREP then
       (let limit = vm_number vm (R a); step = vm_number vm (R (a + 1)); index = vm_number vm (R (a + 2)) in
        jump_if (R(a := limit, a + 1 := step, a + 2 := index)) (test [limit, step, index] w))
     else if op = LOP_FORNLOOP then
       (let (index, w') = f [R (a + 2), R (a + 1)] w in
        jump_if (R(a + 2 := index)) (test [R a, R (a + 1), index] w'))
     else effect_only R w)"

text \<open>
  The instructions the machine runs. \<^verbatim>\<open>NOP\<close> and \<^verbatim>\<open>COVERAGE\<close> do nothing to registers. Ranges must lie in the
  frame, and so must operand B of the group that validation does not check.
\<close>

definition machine_opcodes :: "luau_opcode set" where
  "machine_opcodes =
    {LOP_NOP, LOP_COVERAGE, LOP_LOADNIL, LOP_LOADB, LOP_LOADN, LOP_LOADK, LOP_LOADKX, LOP_GETGLOBAL, LOP_GETUPVAL,
       LOP_GETIMPORT, LOP_NEWTABLE, LOP_DUPTABLE, LOP_MOVE, LOP_SETGLOBAL, LOP_SETUPVAL, LOP_GETTABLE,
       LOP_GETTABLEKS, LOP_GETTABLEN, LOP_GETUDATAKS, LOP_SETTABLE, LOP_SETTABLEKS, LOP_SETTABLEN, LOP_SETUDATAKS,
       LOP_NAMECALL, LOP_ADD, LOP_SUB, LOP_MUL, LOP_DIV, LOP_MOD, LOP_POW, LOP_IDIV, LOP_SUBRK, LOP_DIVRK, LOP_AND,
       LOP_OR, LOP_IDIVK, LOP_NOT, LOP_MINUS, LOP_LENGTH, LOP_JUMP, LOP_JUMPBACK, LOP_JUMPX, LOP_JUMPIF,
       LOP_JUMPIFNOT, LOP_JUMPIFEQ, LOP_JUMPIFLE, LOP_JUMPIFLT, LOP_JUMPIFNOTEQ, LOP_JUMPIFNOTLE, LOP_JUMPIFNOTLT,
       LOP_JUMPXEQKNIL, LOP_JUMPXEQKB, LOP_JUMPXEQKN, LOP_JUMPXEQKS, LOP_CMPPROTO, LOP_FORNPREP, LOP_FORNLOOP}"

definition machine_runs :: "lproto \<Rightarrow> instruction \<Rightarrow> bool" where
  "machine_runs p i \<longleftrightarrow>
    (let op = i_opcode i in
     op \<in> machine_opcodes \<or>
     uncheckedB op \<and> i_b i < maxstacksize p \<or>
     op = LOP_SETLIST \<and> i_c i \<noteq> 0 \<and> i_b i + (i_c i - 1) \<le> maxstacksize p \<or>
     op \<in> {LOP_RETURN, LOP_GETVARARGS} \<and> i_b i \<noteq> 0 \<and> i_a i + (i_b i - 1) \<le> maxstacksize p)"

section \<open>Uses and definitions\<close>

text \<open>
  The contract: registers outside \<open>D\<close> stay as they are, and the world, the jump and the registers of \<open>D\<close>
  depend on the registers of \<open>U\<close> alone.
\<close>

definition confined :: "nat set \<Rightarrow> nat set \<Rightarrow> ('v registers \<Rightarrow> 'w \<Rightarrow> ('v, 'w) outcome) \<Rightarrow> bool" where
  "confined U D f \<longleftrightarrow>
    (\<forall>R w. (\<forall>r. r \<notin> D \<longrightarrow> fst (f R w) r = R r) \<and>
      (\<forall>S. (\<forall>r\<in>U. S r = R r) \<longrightarrow> snd (f S w) = snd (f R w) \<and> (\<forall>r\<in>D. fst (f S w) r = fst (f R w) r)))"

lemma confinedI:
  assumes "\<And>R w r. r \<notin> D \<Longrightarrow> fst (f R w) r = R r"
    and "\<And>R S w. (\<And>r. r \<in> U \<Longrightarrow> S r = R r) \<Longrightarrow> snd (f S w) = snd (f R w) \<and> (\<forall>r\<in>D. fst (f S w) r = fst (f R w) r)"
  shows "confined U D f"
  using assms unfolding confined_def by blast

lemma map_agree: "(\<And>r. r \<in> U \<Longrightarrow> S r = R r) \<Longrightarrow> set rs \<subseteq> U \<Longrightarrow> map S rs = map R rs"
  by auto

lemma confined_effect:
  assumes "set us \<subseteq> U"
  shows "confined U {} (\<lambda>R w. effect_only R (g (map R us) w))"
proof (rule confinedI)
  fix R S :: "'a registers" and w
  assume "\<And>r. r \<in> U \<Longrightarrow> S r = R r"
  then have same: "map S us = map R us" using assms by (intro map_agree)
  show "snd (effect_only S (g (map S us) w)) = snd (effect_only R (g (map R us) w)) \<and>
      (\<forall>r\<in>{}. fst (effect_only S (g (map S us) w)) r = fst (effect_only R (g (map R us) w)) r)"
    unfolding same by (simp add: effect_only_def)
qed (simp add: effect_only_def)

lemma frame_registers:
  "set (i_uses (decodeInstruction (int ms) line raw nxt pc)) =
     {r. int r \<in> set (fst (operandRegisters (decodeInstruction (int ms) line raw nxt pc) (int ms))) \<and> r < ms}"
  "set (i_definitions (decodeInstruction (int ms) line raw nxt pc)) =
     {r. int r \<in> set (fst (snd (operandRegisters (decodeInstruction (int ms) line raw nxt pc) (int ms)))) \<and> r < ms}"
  by (simp_all add: decode_operands set_fold_addReg)


section \<open>The tables are right\<close>

lemmas machine_tables = machine_exec_def registers_ok_def spans_ok_def operandRegisters_def Let_def insert_iff empty_iff

lemmas machine_simps = assign_def effect_only_def jump_if_def in_frame_def uncheckedB_def hasRegisterA_def set_addRange

text \<open>The registers that annotation offers, as far as they are in the frame.\<close>

abbreviation offered_uses :: "lproto \<Rightarrow> instruction \<Rightarrow> nat set" where
  "offered_uses p i \<equiv> {r. int r \<in> set (fst (operandRegisters i (int (maxstacksize p)))) \<and> r < maxstacksize p}"

abbreviation offered_definitions :: "lproto \<Rightarrow> instruction \<Rightarrow> nat set" where
  "offered_definitions p i \<equiv>
    {r. int r \<in> set (fst (snd (operandRegisters i (int (maxstacksize p))))) \<and> r < maxstacksize p}"

lemma sint_nonneg: "0 \<le> sint (w :: u32) \<Longrightarrow> sint w = int (unat w)"
proof -
  assume "0 \<le> sint w"
  moreover have "sint w < 2 ^ 32" using sint_lt [of w] by simp
  moreover have "uint w = take_bit 32 (sint w)" using uint_sint [of w] by simp
  ultimately show ?thesis by (simp add: take_bit_int_eq_self)
qed

lemma machine_plain:
  assumes ok: "registers_ok p i" "spans_ok p i" and op: "i_opcode i \<in> machine_opcodes"
  shows "confined (offered_uses p i) (offered_definitions p i) (machine_exec vm i)"
proof (rule confinedI)
  fix R :: "'a registers" and w r
  show "r \<notin> offered_definitions p i \<Longrightarrow> fst (machine_exec vm i R w) r = R r"
    using op ok unfolding machine_opcodes_def machine_tables
    by (elim disjE) (auto simp: machine_simps split: prod.splits)
next
  fix R S :: "'a registers" and w
  show "(\<And>r. r \<in> offered_uses p i \<Longrightarrow> S r = R r) \<Longrightarrow>
    snd (machine_exec vm i S w) = snd (machine_exec vm i R w) \<and>
    (\<forall>r\<in>offered_definitions p i. fst (machine_exec vm i S w) r = fst (machine_exec vm i R w) r)"
    using op ok unfolding machine_opcodes_def machine_tables
    by (elim disjE) (auto simp: machine_simps sint_nonneg split: prod.splits simp del: of_nat_unat)
qed

text \<open>The instructions whose operand B is read without a check.\<close>

lemma machine_unchecked:
  assumes ok: "registers_ok p i" "spans_ok p i" and op: "uncheckedB (i_opcode i)" and b: "i_b i < maxstacksize p"
  shows "confined (offered_uses p i) (offered_definitions p i) (machine_exec vm i)"
proof (rule confinedI)
  fix R :: "'a registers" and w r
  show "r \<notin> offered_definitions p i \<Longrightarrow> fst (machine_exec vm i R w) r = R r"
    using op ok unfolding uncheckedB_def machine_tables by (elim disjE) (auto simp: machine_simps)
next
  fix R S :: "'a registers" and w
  show "(\<And>r. r \<in> offered_uses p i \<Longrightarrow> S r = R r) \<Longrightarrow>
    snd (machine_exec vm i S w) = snd (machine_exec vm i R w) \<and>
    (\<forall>r\<in>offered_definitions p i. fst (machine_exec vm i S w) r = fst (machine_exec vm i R w) r)"
    using op ok b unfolding uncheckedB_def machine_tables by (elim disjE) (auto simp: machine_simps)
qed

text \<open>Ranges.\<close>

lemma machine_setlist:
  assumes ok: "spans_ok p i" and op: "i_opcode i = LOP_SETLIST" "i_c i \<noteq> 0" "i_b i + (i_c i - 1) \<le> maxstacksize p"
  shows "confined (offered_uses p i) (offered_definitions p i) (machine_exec vm i)"
proof -
  have uses: "offered_uses p i = insert (i_a i) {i_b i..<i_b i + (i_c i - 1)}"
    and defs: "offered_definitions p i = {}"
    using op ok by (auto simp: operandRegisters_def spans_ok_def hasRegisterA_def set_addRange)
  have exec: "machine_exec vm i =
      (\<lambda>R w. effect_only R ((\<lambda>vs. vm_store vm (i_offset i) vs) (map R (i_a i # [i_b i..<i_b i + (i_c i - 1)])) w))"
    by (simp add: fun_eq_iff machine_exec_def Let_def op(1))
  show ?thesis unfolding uses defs exec by (rule confined_effect) auto
qed

lemma machine_return:
  assumes op: "i_opcode i = LOP_RETURN" "i_b i \<noteq> 0" "i_a i + (i_b i - 1) \<le> maxstacksize p"
  shows "confined (offered_uses p i) (offered_definitions p i) (machine_exec vm i)"
proof -
  have uses: "offered_uses p i = {i_a i..<i_a i + (i_b i - 1)}" and defs: "offered_definitions p i = {}"
    using op by (auto simp: operandRegisters_def set_addRange)
  have exec: "machine_exec vm i =
      (\<lambda>R w. effect_only R ((\<lambda>vs. vm_store vm (i_offset i) vs) (map R [i_a i..<i_a i + (i_b i - 1)]) w))"
    by (simp add: fun_eq_iff machine_exec_def Let_def op(1))
  show ?thesis unfolding uses defs exec by (rule confined_effect) auto
qed

lemma machine_getvarargs:
  assumes op: "i_opcode i = LOP_GETVARARGS" "i_b i \<noteq> 0" "i_a i + (i_b i - 1) \<le> maxstacksize p"
  shows "confined (offered_uses p i) (offered_definitions p i) (machine_exec vm i)"
proof -
  have defs: "offered_definitions p i = {i_a i..<i_a i + (i_b i - 1)}"
    using op by (auto simp: operandRegisters_def set_addRange)
  show ?thesis unfolding defs by (rule confinedI) (auto simp: machine_exec_def Let_def op(1))
qed

lemma machine_confined:
  assumes ok: "registers_ok p i" "spans_ok p i" and runs: "machine_runs p i"
  shows "confined (offered_uses p i) (offered_definitions p i) (machine_exec vm i)"
proof -
  consider (plain) "i_opcode i \<in> machine_opcodes"
    | (loose) "uncheckedB (i_opcode i)" "i_b i < maxstacksize p"
    | (setlist) "i_opcode i = LOP_SETLIST" "i_c i \<noteq> 0" "i_b i + (i_c i - 1) \<le> maxstacksize p"
    | (ret) "i_opcode i = LOP_RETURN" "i_b i \<noteq> 0" "i_a i + (i_b i - 1) \<le> maxstacksize p"
    | (varargs) "i_opcode i = LOP_GETVARARGS" "i_b i \<noteq> 0" "i_a i + (i_b i - 1) \<le> maxstacksize p"
    using runs unfolding machine_runs_def Let_def insert_iff empty_iff by blast
  then show ?thesis
    by cases (rule machine_plain [OF ok] machine_unchecked [OF ok] machine_setlist [OF ok(2)] machine_return
      machine_getvarargs; assumption)+
qed

text \<open>The instructions of an accepted prototype.\<close>

lemma decoded_confined:
  assumes ok: "proto_ok oob p" and i: "i \<in> set (decodeCode oob p)" and runs: "machine_runs p i"
  shows "confined (set (i_uses i)) (set (i_definitions i)) (machine_exec vm i)"
proof -
  have eq: "i = decodeInstruction (int (maxstacksize p)) (luaG_getline p (i_offset i))
      (codeAt oob p (i_offset i)) (codeAt oob p (i_offset i + 1)) (i_offset i)"
    using decodeFrom_mem i by (simp add: decodeCode_def)
  note sets = frame_registers [of "maxstacksize p" "luaG_getline p (i_offset i)" "codeAt oob p (i_offset i)"
      "codeAt oob p (i_offset i + 1)" "i_offset i", folded eq]
  have "registers_ok p i" "spans_ok p i" using ok i by (simp_all add: proto_ok_def Let_def)
  then show ?thesis unfolding sets by (rule machine_confined [OF _ _ runs])
qed

end
