(* ===== verification/IR_Loops.thy ===== *)
theory IR_Loops
  imports IR_Dominators
begin

text \<open>
  Back edges, natural loops and merged loop regions of \<^verbatim>\<open>addFunction\<close>
  (\<^verbatim>\<open>byteveil_decompiler/IR.cpp\<close>). For a back edge whose latch is not its header the worklist
  computes the natural loop of the textbook definition: the header and the blocks that reach
  the latch without passing through the header. For a back edge from a block to itself the
  worklist starts at the header and collects every block from which the header can be reached.
\<close>

section \<open>Back edges and the loop worklist\<close>

definition backEdges :: "basic_block list \<Rightarrow> nat set list \<Rightarrow> (nat \<times> nat) list" where
  "backEdges bs doms =
    concat (map (\<lambda>b. map (\<lambda>s. (b, s))
      (filter (\<lambda>s. s < length bs \<and> reachable_flags bs ! s \<and> s \<in> doms ! b) (succs bs b)))
      [0..<length bs])"

text \<open>
  The inner \<^verbatim>\<open>for\<close> loop over the predecessors of the popped block: a reachable predecessor that
  the set did not hold yet is inserted and pushed. The stack is a list with its top first.
\<close>

definition push_preds :: "basic_block list \<Rightarrow> nat \<Rightarrow> nat set \<times> nat list \<Rightarrow> nat set \<times> nat list" where
  "push_preds bs c s =
    fold (\<lambda>p (l, w). if reachable_flags bs ! p \<and> p \<notin> l then (insert p l, p # w) else (l, w))
      (pred_list bs c) s"

lemma fold_push_preds:
  fixes R :: "nat \<Rightarrow> bool"
  shows "\<exists>new. fold (\<lambda>p (l, w). if R p \<and> p \<notin> l then (insert p l, p # w) else (l, w)) ps (l, w) =
      (l \<union> set new, new @ w) \<and> set new = {p \<in> set ps. R p \<and> p \<notin> l}"
proof (induction ps arbitrary: l w)
  case Nil
  then show ?case by simp
next
  case (Cons p ps)
  show ?case
  proof (cases "R p \<and> p \<notin> l")
    case True
    obtain new where "fold (\<lambda>p (l, w). if R p \<and> p \<notin> l then (insert p l, p # w) else (l, w)) ps
        (insert p l, p # w) = (insert p l \<union> set new, new @ p # w)"
      "set new = {q \<in> set ps. R q \<and> q \<notin> insert p l}"
      using Cons.IH [of "insert p l" "p # w"] by blast
    then show ?thesis using True by (intro exI [of _ "new @ [p]"]) auto
  next
    case False
    obtain new where "fold (\<lambda>p (l, w). if R p \<and> p \<notin> l then (insert p l, p # w) else (l, w)) ps
        (l, w) = (l \<union> set new, new @ w)" "set new = {q \<in> set ps. R q \<and> q \<notin> l}"
      using Cons.IH [of l w] by blast
    then show ?thesis using False by (intro exI [of _ new]) auto
  qed
qed

lemma push_preds_eq:
  obtains new where "push_preds bs c (l, w) = (l \<union> set new, new @ w)"
    "set new = {p. p < length bs \<and> c \<in> set (succs bs p) \<and> reachable_flags bs ! p \<and> p \<notin> l}"
  using fold_push_preds [of "\<lambda>p. reachable_flags bs ! p" "pred_list bs c" l w] that
  by (auto simp: push_preds_def pred_list_def)

function loop_worklist :: "basic_block list \<Rightarrow> nat set \<Rightarrow> nat list \<Rightarrow> nat set" where
  "loop_worklist bs l [] = l"
| "loop_worklist bs l (c # w) =
    loop_worklist bs (fst (push_preds bs c (l, w))) (snd (push_preds bs c (l, w)))"
  by pat_completeness auto
termination
proof (relation "measures [\<lambda>(bs, l, w). card ({..<length bs} - l), \<lambda>(bs, l, w). length w]", goal_cases)
  case 1
  show ?case by simp
next
  case (2 bs l c w)
  obtain new where new: "push_preds bs c (l, w) = (l \<union> set new, new @ w)"
    "set new = {p. p < length bs \<and> c \<in> set (succs bs p) \<and> reachable_flags bs ! p \<and> p \<notin> l}"
    by (rule push_preds_eq)
  show ?case
  proof (cases "new = []")
    case True
    then show ?thesis using new by simp
  next
    case False
    then obtain p where "p \<in> set new" by (cases new) auto
    then have "{..<length bs} - (l \<union> set new) \<subset> {..<length bs} - l" using new(2) by auto
    then have "card ({..<length bs} - (l \<union> set new)) < card ({..<length bs} - l)"
      by (intro psubset_card_mono) auto
    then show ?thesis using new by simp
  qed
qed

definition natural_loop :: "basic_block list \<Rightarrow> nat \<times> nat \<Rightarrow> nat list" where
  "natural_loop bs e = sorted_list_of_set (loop_worklist bs {snd e, fst e} [fst e])"

definition naturalLoops :: "basic_block list \<Rightarrow> nat set list \<Rightarrow> nat list list" where
  "naturalLoops bs doms = map (natural_loop bs) (backEdges bs doms)"

section \<open>Merged loop regions\<close>

record loop_region =
  l_header :: nat
  l_preheader :: int
  l_blocks :: "nat list"
  l_backEdges :: "(nat \<times> nat) list"
  l_latches :: "nat list"
  l_exits :: "nat list"

text \<open>
  The region of the edge's header is the first one in the vector with that header; it is
  appended when there is none.
\<close>

fun add_to_region :: "nat \<times> nat \<Rightarrow> nat list \<Rightarrow> loop_region list \<Rightarrow> loop_region list" where
  "add_to_region e body [] =
    [\<lparr>l_header = snd e, l_preheader = -1, l_blocks = body, l_backEdges = [e],
      l_latches = [fst e], l_exits = []\<rparr>]"
| "add_to_region e body (r # rs) =
    (if l_header r = snd e
     then r\<lparr>l_backEdges := l_backEdges r @ [e], l_latches := l_latches r @ [fst e],
            l_blocks := l_blocks r @ body\<rparr> # rs
     else r # add_to_region e body rs)"

definition finish_region :: "basic_block list \<Rightarrow> loop_region \<Rightarrow> loop_region" where
  "finish_region bs r =
    (let members = sort (remdups (l_blocks r));
         outside = filter (\<lambda>p. p \<notin> set members) (pred_list bs (l_header r));
         exits = concat (map (\<lambda>m. filter (\<lambda>s. s \<notin> set members) (succs bs m)) members)
     in r\<lparr>l_blocks := members, l_latches := sort (remdups (l_latches r)),
          l_preheader := (if length outside = 1 then int (hd outside) else -1),
          l_exits := sorted_list_of_set (set exits)\<rparr>)"

definition loop_regions :: "basic_block list \<Rightarrow> nat set list \<Rightarrow> loop_region list" where
  "loop_regions bs doms =
    map (finish_region bs)
      (fold (\<lambda>e. add_to_region e (natural_loop bs e)) (backEdges bs doms) [])"

section \<open>What the worklist collects\<close>

text \<open>
  Everything the worklist adds satisfies any property that the start blocks have and that
  passes from a block to a reachable predecessor outside the start set.
\<close>

lemma loop_worklist_sound:
  assumes "x \<in> loop_worklist bs l w - l" and "\<And>c. c \<in> set w \<Longrightarrow> P c"
    and "\<And>c p. P c \<Longrightarrow> p < length bs \<Longrightarrow> c \<in> set (succs bs p) \<Longrightarrow> reachable_flags bs ! p \<Longrightarrow>
      p \<notin> st \<Longrightarrow> P p"
    and "st \<subseteq> l"
  shows "P x"
  using assms
proof (induction bs l w rule: loop_worklist.induct)
  case (1 bs l)
  then show ?case by simp
next
  case (2 bs l c w)
  obtain new where new: "push_preds bs c (l, w) = (l \<union> set new, new @ w)"
    "set new = {p. p < length bs \<and> c \<in> set (succs bs p) \<and> reachable_flags bs ! p \<and> p \<notin> l}"
    by (rule push_preds_eq)
  have Pnew: "P p" if "p \<in> set new" for p
    using that new(2) "2.prems"(3) [of c p] "2.prems"(2) [of c] "2.prems"(4) by auto
  show ?case
  proof (cases "x \<in> set new")
    case True
    then show ?thesis by (rule Pnew)
  next
    case False
    have "d \<in> set (new @ w) \<Longrightarrow> P d" for d using Pnew "2.prems"(2) by auto
    moreover have "x \<in> loop_worklist bs (l \<union> set new) (new @ w) - (l \<union> set new)"
      using False "2.prems"(1) new(1) by simp
    ultimately show ?thesis
      using "2.IH" [unfolded new(1) fst_conv snd_conv] "2.prems"(3,4) by blast
  qed
qed

lemma loop_worklist_grows: "l \<subseteq> loop_worklist bs l w"
proof (induction bs l w rule: loop_worklist.induct)
  case (2 bs l c w)
  obtain new where "push_preds bs c (l, w) = (l \<union> set new, new @ w)"
    by (rule push_preds_eq)
  then show ?case using 2 by auto
qed simp

lemma loop_worklist_closed:
  assumes "set w \<subseteq> l"
    and "c \<in> set w \<union> (loop_worklist bs l w - l)"
    and "p < length bs" "c \<in> set (succs bs p)" "reachable_flags bs ! p"
  shows "p \<in> loop_worklist bs l w"
  using assms
proof (induction bs l w rule: loop_worklist.induct)
  case (1 bs l)
  then show ?case by simp
next
  case (2 bs l d w)
  obtain new where new: "push_preds bs d (l, w) = (l \<union> set new, new @ w)"
    "set new = {p. p < length bs \<and> d \<in> set (succs bs p) \<and> reachable_flags bs ! p \<and> p \<notin> l}"
    by (rule push_preds_eq)
  show ?case
  proof (cases "c \<in> set w \<union> set new \<union> (loop_worklist bs (l \<union> set new) (new @ w) - (l \<union> set new))")
    case True
    then show ?thesis using "2.IH" "2.prems" new(1) by auto
  next
    case False
    then have "c = d" using "2.prems"(2) new(1) by auto
    then have "p \<in> l \<union> set new" using "2.prems"(3-5) new(2) by auto
    then show ?thesis using loop_worklist_grows [of "l \<union> set new" bs "new @ w"] new(1) by auto
  qed
qed

lemma loop_worklist_finite: "finite l \<Longrightarrow> finite (loop_worklist bs l w)"
proof (induction bs l w rule: loop_worklist.induct)
  case (2 bs l c w)
  obtain new where "push_preds bs c (l, w) = (l \<union> set new, new @ w)"
    by (rule push_preds_eq)
  then show ?case using 2 by simp
qed simp

lemma set_natural_loop: "set (natural_loop bs e) = loop_worklist bs {snd e, fst e} [fst e]"
  unfolding natural_loop_def by (rule set_sorted_list_of_set) (rule loop_worklist_finite, simp)

context cfg
begin

lemma backEdges_mem:
  "(b, s) \<in> set (backEdges bs doms) \<longleftrightarrow>
    b < length bs \<and> s \<in> set (succs bs b) \<and> s < length bs \<and> reachable_flags bs ! s \<and> s \<in> doms ! b"
  by (auto simp: backEdges_def)

lemma backEdges_iff:
  assumes doms: "dominators bs = Some doms"
  shows "(b, s) \<in> set (backEdges bs doms) \<longleftrightarrow>
    (b, s) \<in> edges bs \<and> (0, b) \<in> (edges bs)\<^sup>* \<and> dominates bs s b"
proof (cases "(0, b) \<in> (edges bs)\<^sup>*")
  case True
  then have "(0, s) \<in> (edges bs)\<^sup>*" if "(b, s) \<in> edges bs"
    using that by (rule rtrancl_into_rtrancl)
  then show ?thesis
    using True dominators_correct [OF doms True] succ_range reachable_iff edges_iff [of b s bs]
    by (auto simp: backEdges_mem)
next
  case False
  have "b \<notin> set (dom_order bs)" if "b < length bs"
    using False reachable_iff [OF that] by (auto simp: dom_order_def)
  moreover have "b \<noteq> 0" using False by (metis rtrancl.rtrancl_refl)
  ultimately have "doms ! b = {}" if "b < length bs"
    using dom.loop_unvisited [of doms b] doms that False reachable_iff [OF that]
    by (simp add: dominators_def dom_init_def)
  then show ?thesis using False by (auto simp: backEdges_mem)
qed

lemma walk_reachable:
  "(0, hd p) \<in> (edges bs)\<^sup>* \<Longrightarrow> walk (edges bs) p \<Longrightarrow> x \<in> set p \<Longrightarrow> (0, x) \<in> (edges bs)\<^sup>*"
proof (induction p)
  case Nil
  then show ?case by simp
next
  case (Cons a p)
  show ?case
  proof (cases "x = a \<or> p = []")
    case True
    then show ?thesis using Cons.prems by auto
  next
    case False
    then have "(a, hd p) \<in> edges bs" "walk (edges bs) p" "x \<in> set p"
      using Cons.prems by (auto simp: walk_Cons)
    then show ?thesis using Cons.IH Cons.prems(1) by (auto intro: rtrancl_into_rtrancl)
  qed
qed

text \<open>Every block of a walk that ends in the collected set, and enters the start set only there, is collected.\<close>

lemma loop_worklist_walk:
  assumes wl: "set w \<subseteq> l" and p: "walk (edges bs) p" "(0, hd p) \<in> (edges bs)\<^sup>*"
    "last p \<in> set w" "set (butlast p) \<inter> l \<subseteq> set w"
  shows "set p \<subseteq> loop_worklist bs l w"
  using p
proof (induction p)
  case Nil
  then show ?case by simp
next
  case (Cons a p)
  show ?case
  proof (cases "p = []")
    case True
    then show ?thesis using Cons.prems wl subsetD [OF loop_worklist_grows, of a l bs w] by auto
  next
    case False
    then have e: "(a, hd p) \<in> edges bs" and w: "walk (edges bs) p"
      using Cons.prems(1) by (auto simp: walk_Cons)
    have IH: "set p \<subseteq> loop_worklist bs l w"
      using Cons.IH w Cons.prems e False by (auto intro: rtrancl_into_rtrancl)
    have "hd p \<in> l \<Longrightarrow> hd p \<in> set w"
      using Cons.prems(3,4) False by (cases p) (auto split: if_splits)
    then have "hd p \<in> set w \<union> (loop_worklist bs l w - l)" using IH False by auto
    moreover have "a < length bs" "reachable_flags bs ! a"
      using e edges_range reachable_iff Cons.prems(2) by auto
    ultimately have "a \<in> loop_worklist bs l w"
      using loop_worklist_closed [OF wl] e by (auto simp: edges_iff)
    then show ?thesis using IH by simp
  qed
qed

theorem natural_loop_proper:
  assumes t: "(0, t) \<in> (edges bs)\<^sup>*" and ht: "h \<noteq> t"
  shows "set (natural_loop bs (t, h)) = insert h {x. (0, x) \<in> (edges bs)\<^sup>* \<and>
    (\<exists>p. walk (edges bs) p \<and> hd p = x \<and> last p = t \<and> h \<notin> set p)}"
    (is "?L = insert h ?N")
proof
  show "?L \<subseteq> insert h ?N"
  proof
    fix x assume x: "x \<in> ?L"
    have tN: "t \<in> ?N" using t ht by (auto intro!: exI [of _ "[t]"])
    have ext: "p \<in> ?N" if c: "c \<in> ?N" "p < length bs" "c \<in> set (succs bs p)" "reachable_flags bs ! p"
      "p \<notin> {h, t}" for c p
    proof -
      obtain q where q: "walk (edges bs) q" "hd q = c" "last q = t" "h \<notin> set q" using c(1) by blast
      have "walk (edges bs) (p # q)" "hd (p # q) = p" "last (p # q) = t" "h \<notin> set (p # q)"
        using q c walk_nonempty [OF q(1)] by (auto simp: walk_Cons edges_iff)
      then show ?thesis using c reachable_iff by blast
    qed
    show "x \<in> insert h ?N"
    proof (cases "x \<in> {h, t}")
      case True
      then show ?thesis using tN by blast
    next
      case False
      then have "x \<in> loop_worklist bs {h, t} [t] - {h, t}" using x unfolding set_natural_loop by simp
      then have "x \<in> ?N"
      proof (rule loop_worklist_sound [where P = "\<lambda>x. x \<in> ?N" and st = "{h, t}"])
        show "c \<in> set [t] \<Longrightarrow> c \<in> ?N" for c using tN by simp
      qed (rule ext, assumption+, rule subset_refl)
      then show ?thesis by blast
    qed
  qed
  show "insert h ?N \<subseteq> ?L"
  proof -
    have "h \<in> ?L" using loop_worklist_grows [of "{h, t}" bs "[t]"] unfolding set_natural_loop by auto
    moreover have "x \<in> ?L" if "x \<in> ?N" for x
    proof -
      obtain p where p: "walk (edges bs) p" "hd p = x" "last p = t" "h \<notin> set p" "(0, x) \<in> (edges bs)\<^sup>*"
        using \<open>x \<in> ?N\<close> by blast
      have "set p \<subseteq> loop_worklist bs {h, t} [t]"
        by (rule loop_worklist_walk) (use p in \<open>auto dest: in_set_butlastD\<close>)
      moreover have "x \<in> set p" using p walk_nonempty [OF p(1)] by auto
      ultimately show ?thesis unfolding set_natural_loop by (auto simp del: loop_worklist.simps)
    qed
    ultimately show ?thesis by blast
  qed
qed

theorem natural_loop_self:
  assumes h: "(0, h) \<in> (edges bs)\<^sup>*"
  shows "set (natural_loop bs (h, h)) = {x. (0, x) \<in> (edges bs)\<^sup>* \<and> (x, h) \<in> (edges bs)\<^sup>*}"
    (is "?L = ?N")
proof
  show "?L \<subseteq> ?N"
  proof
    fix x assume x: "x \<in> ?L"
    show "x \<in> ?N"
    proof (cases "x = h")
      case True
      then show ?thesis using h by simp
    next
      case False
      then have "x \<in> loop_worklist bs {h} [h] - {h}" using x unfolding set_natural_loop by simp
      then show ?thesis
        by (rule loop_worklist_sound [where P = "\<lambda>x. x \<in> ?N" and st = "{h}"])
          (use h reachable_iff in \<open>auto simp: edges_iff intro: converse_rtrancl_into_rtrancl\<close>)
    qed
  qed
  show "?N \<subseteq> ?L"
  proof
    fix x assume x: "x \<in> ?N"
    then obtain p where p: "walk (edges bs) p" "hd p = x" "last p = h"
      using rtrancl_walk [of x h] by blast
    have "set p \<subseteq> loop_worklist bs {h} [h]"
      by (rule loop_worklist_walk) (use p x in auto)
    moreover have "x \<in> set p" using p walk_nonempty [OF p(1)] by auto
    ultimately show "x \<in> ?L" unfolding set_natural_loop by (auto simp del: loop_worklist.simps)
  qed
qed

text \<open>The header of a proper back edge dominates every block of its loop.\<close>

theorem natural_loop_dominated:
  assumes dom: "dominates bs h t" and t: "(0, t) \<in> (edges bs)\<^sup>*" "h \<noteq> t"
    and x: "x \<in> set (natural_loop bs (t, h))"
  shows "dominates bs h x"
proof (cases "x = h")
  case True
  then show ?thesis by (simp add: dominates_refl)
next
  case False
  then obtain p where p: "walk (edges bs) p" "hd p = x" "last p = t" "h \<notin> set p"
    using x natural_loop_proper [OF t] by blast
  then obtain v where v: "p = x # v" by (cases p) auto
  show ?thesis
    using dominates_splice [OF dom, of x v] p v by auto
qed

end

end
