(* ===== verification/IR_PostDom.thy ===== *)
theory IR_PostDom
  imports IR_Dominators
begin

text \<open>
  Post-dominators of \<^verbatim>\<open>addFunction\<close> (\<^verbatim>\<open>byteveil_decompiler/IR.cpp\<close>) and the selection of
  \<^verbatim>\<open>immediatePostDominators\<close>. The sets are exactly post-dominance over walks to an exit block.
  The selection takes the candidate with the smallest post-dominator set; the lemma
  \<open>pick_ipdom_furthest\<close> shows that this is the most distant strict post-dominator, the one that
  post-dominates every other.
\<close>

section \<open>Post-dominance and its computation\<close>

definition postdominates :: "basic_block list \<Rightarrow> nat \<Rightarrow> nat \<Rightarrow> bool" where
  "postdominates bs a b \<longleftrightarrow>
    (\<forall>p. walk (edges bs) p \<and> hd p = b \<and> succs bs (last p) = [] \<longrightarrow> a \<in> set p)"

definition reaches_exit :: "basic_block list \<Rightarrow> nat \<Rightarrow> bool" where
  "reaches_exit bs b \<longleftrightarrow> (\<exists>c. (b, c) \<in> (edges bs)\<^sup>* \<and> succs bs c = [])"

definition pdom_init :: "basic_block list \<Rightarrow> nat set list" where
  "pdom_init bs = map (\<lambda>b. if reachable_flags bs ! b
     then (if succs bs b = [] then {b} else allReachable bs) else {}) [0..<length bs]"

definition pdom_order :: "basic_block list \<Rightarrow> nat list" where
  "pdom_order bs = filter (\<lambda>b. reachable_flags bs ! b \<and> succs bs b \<noteq> []) (rev [0..<length bs])"

definition pdom_step :: "basic_block list \<Rightarrow> nat set list \<Rightarrow> nat \<Rightarrow> nat set" where
  "pdom_step bs pd b = insert b (fold (\<lambda>s acc. acc \<inter> pd ! s) (succs bs b) (allReachable bs))"

definition postDominators :: "basic_block list \<Rightarrow> nat set list option" where
  "postDominators bs = sweep_loop (pdom_step bs) (pdom_order bs) (pdom_init bs)"

text \<open>
  \<^verbatim>\<open>bestSize\<close> starts at the largest \<^verbatim>\<open>size_t\<close>, so the first candidate is always taken; a later
  one replaces it only when its post-dominator set is strictly smaller.
\<close>

definition least_by :: "('a \<Rightarrow> nat) \<Rightarrow> 'a list \<Rightarrow> 'a option" where
  "least_by f xs = fold (\<lambda>c best. case best of None \<Rightarrow> Some c
     | Some m \<Rightarrow> if f c < f m then Some c else Some m) xs None"

definition pick_ipdom :: "nat set list \<Rightarrow> nat \<Rightarrow> int" where
  "pick_ipdom pd b =
    (case least_by (\<lambda>c. card (pd ! c)) (filter (\<lambda>c. c \<noteq> b) (sorted_list_of_set (pd ! b))) of
       None \<Rightarrow> -1 | Some c \<Rightarrow> int c)"

definition immediatePostDominators :: "basic_block list \<Rightarrow> nat set list \<Rightarrow> int list" where
  "immediatePostDominators bs pd =
    map (\<lambda>b. if reachable_flags bs ! b then pick_ipdom pd b else -1) [0..<length bs]"

section \<open>The loop computes post-dominance\<close>

lemma pdom_step_eq: "pdom_step bs pd b = insert b (allReachable bs \<inter> (\<Inter>s\<in>set (succs bs b). pd ! s))"
  by (simp add: pdom_step_def fold_inter)

sublocale cfg \<subseteq> pdom: descending_sweep "pdom_step bs" "pdom_order bs" "pdom_init bs" "(\<subseteq>)" finite card
proof
  show "x \<subseteq> x" for x :: "nat set" by simp
  show "x \<subseteq> z" if "x \<subseteq> y" "y \<subseteq> z" for x y z :: "nat set" using that by simp
  show "card x < card y" if "x \<subseteq> y" "x \<noteq> y" "finite x" "finite y" for x y :: "nat set"
    using that by (simp add: psubset_card_mono psubset_eq)
  fix b assume b: "b \<in> set (pdom_order bs)"
  then show "b < length (pdom_init bs)" by (simp add: pdom_order_def pdom_init_def)
  have bl: "b < length bs" using b by (simp add: pdom_order_def)
  show "pdom_step bs xs b \<subseteq> pdom_step bs ys b"
    if le: "list_all2 (\<subseteq>) xs ys" "length ys = length (pdom_init bs)" for xs ys
  proof -
    have "xs ! s \<subseteq> ys ! s" if "s \<in> set (succs bs b)" for s
      using le succ_range [OF bl that] by (simp add: list_all2_conv_all_nth pdom_init_def)
    then show ?thesis unfolding pdom_step_eq by blast
  qed
  show "finite (pdom_step bs xs b)" for xs
    by (auto simp: pdom_step_eq allReachable_def)
  have "b \<in> allReachable bs" "pdom_init bs ! b = allReachable bs"
    using b by (auto simp: pdom_order_def allReachable_def pdom_init_def)
  then show "pdom_step bs (pdom_init bs) b \<subseteq> pdom_init bs ! b"
    by (auto simp: pdom_step_eq)
qed (auto simp: pdom_init_def list_all_iff allReachable_def)

context cfg
begin

lemma postDominators_stop: "\<exists>pd. postDominators bs = Some pd"
  using pdom.loop_stops by (simp add: postDominators_def)

lemma postDominators_length: "postDominators bs = Some pd \<Longrightarrow> length pd = length bs"
  using pdom.loop_length by (simp add: postDominators_def pdom_init_def)

lemma postDominators_exit:
  assumes pd: "postDominators bs = Some pd" and b: "(0, b) \<in> (edges bs)\<^sup>*" "succs bs b = []"
  shows "pd ! b = {b}"
proof -
  have "b < length bs" using b(1) path_range by simp
  moreover have "b \<notin> set (pdom_order bs)" using b(2) by (simp add: pdom_order_def)
  ultimately show ?thesis
    using pdom.loop_unvisited [of pd b] pd b reachable_iff by (simp add: postDominators_def pdom_init_def)
qed

lemma postDominators_equation:
  assumes pd: "postDominators bs = Some pd" and b: "(0, b) \<in> (edges bs)\<^sup>*" "succs bs b \<noteq> []"
  shows "pd ! b = insert b (allReachable bs \<inter> (\<Inter>s\<in>set (succs bs b). pd ! s))"
proof -
  have "b < length bs" using b(1) path_range by simp
  then have "b \<in> set (pdom_order bs)" using b reachable_iff by (simp add: pdom_order_def)
  then show ?thesis
    using pdom.loop_fixpoint [of pd b] pd by (simp add: postDominators_def pdom_step_eq)
qed

lemma postDominators_sound:
  assumes pd: "postDominators bs = Some pd"
  shows "walk (edges bs) p \<Longrightarrow> (0, hd p) \<in> (edges bs)\<^sup>* \<Longrightarrow> succs bs (last p) = [] \<Longrightarrow>
    a \<in> pd ! hd p \<Longrightarrow> a \<in> set p"
proof (induction p)
  case Nil
  then show ?case by simp
next
  case (Cons b p)
  show ?case
  proof (cases "p = []")
    case True
    then show ?thesis using Cons.prems postDominators_exit [OF pd] by auto
  next
    case False
    then have e: "(b, hd p) \<in> edges bs" "walk (edges bs) p" using Cons.prems(1) by (auto simp: walk_Cons)
    then have s: "hd p \<in> set (succs bs b)" by (simp add: edges_iff)
    then have "succs bs b \<noteq> []" by auto
    then have "a = b \<or> a \<in> pd ! hd p"
      using postDominators_equation [OF pd, of b] Cons.prems(2,4) s by auto
    moreover have "(0, hd p) \<in> (edges bs)\<^sup>*"
      using Cons.prems(2) e(1) by (auto intro: rtrancl_into_rtrancl)
    ultimately show ?thesis using Cons.IH e(2) Cons.prems(3) False by auto
  qed
qed

definition pdom_spec :: "nat set list" where
  "pdom_spec = map (\<lambda>b. if (0, b) \<in> (edges bs)\<^sup>* then {a. (0, a) \<in> (edges bs)\<^sup>* \<and> postdominates bs a b}
     else {}) [0..<length bs]"

lemma postdominates_exit: "succs bs b = [] \<Longrightarrow> postdominates bs a b \<Longrightarrow> a = b"
  by (auto simp: postdominates_def dest: spec [of _ "[b]"])

lemma postdominates_succ:
  assumes "postdominates bs a b" "a \<noteq> b" "(b, s) \<in> edges bs"
  shows "postdominates bs a s"
  unfolding postdominates_def
proof (intro allI impI)
  fix p assume p: "walk (edges bs) p \<and> hd p = s \<and> succs bs (last p) = []"
  have "walk (edges bs) (b # p)" "hd (b # p) = b" "succs bs (last (b # p)) = []"
    using p assms(3) walk_nonempty by (auto simp: walk_Cons)
  then have "a \<in> set (b # p)" using assms(1) unfolding postdominates_def by blast
  then show "a \<in> set p" using assms(2) by simp
qed

lemma postDominators_complete:
  assumes pd: "postDominators bs = Some pd"
    and b: "(0, b) \<in> (edges bs)\<^sup>*" "(0, a) \<in> (edges bs)\<^sup>*" "postdominates bs a b"
  shows "a \<in> pd ! b"
proof -
  have len: "length pdom_spec = length bs" by (simp add: pdom_spec_def)
  have "list_all2 (\<subseteq>) pdom_spec pd"
  proof (rule pdom.loop_greatest [OF pd [unfolded postDominators_def]])
    show "list_all2 (\<subseteq>) pdom_spec (pdom_init bs)"
      using reachable_iff allReachable_iff postdominates_exit
      by (auto simp: list_all2_conv_all_nth pdom_spec_def pdom_init_def)
    fix c assume "c \<in> set (pdom_order bs)"
    then have c: "c < length bs" "(0, c) \<in> (edges bs)\<^sup>*"
      using reachable_iff by (auto simp: pdom_order_def)
    have step: "x \<in> pdom_spec ! s" if x: "x \<in> pdom_spec ! c" "x \<noteq> c" "s \<in> set (succs bs c)" for x s
    proof -
      have e: "(c, s) \<in> edges bs" using c(1) x(3) by (simp add: edges_iff)
      then have "(0, s) \<in> (edges bs)\<^sup>*" "s < length bs"
        using c(2) edges_range by (auto intro: rtrancl_into_rtrancl)
      then show ?thesis using x c postdominates_succ [OF _ x(2) e] by (auto simp: pdom_spec_def)
    qed
    show "pdom_spec ! c \<subseteq> pdom_step bs pdom_spec c"
    proof
      fix x assume x: "x \<in> pdom_spec ! c"
      then have "x \<in> allReachable bs" using c allReachable_iff by (simp add: pdom_spec_def)
      then show "x \<in> pdom_step bs pdom_spec c" using step [OF x] by (auto simp: pdom_step_eq)
    qed
  qed
  moreover have bl: "b < length bs" using b(1) path_range by simp
  ultimately have "pdom_spec ! b \<subseteq> pd ! b" using len by (simp add: list_all2_conv_all_nth)
  moreover have "a \<in> pdom_spec ! b" using b bl by (simp add: pdom_spec_def)
  ultimately show ?thesis by blast
qed

lemma postDominators_reachable:
  assumes pd: "postDominators bs = Some pd" and b: "b < length bs" "a \<in> pd ! b"
  shows "(0, a) \<in> (edges bs)\<^sup>*"
proof -
  have "pd ! b \<subseteq> pdom_init bs ! b"
    using pdom.loop_below [of pd] postDominators_length [OF pd] pd b
    unfolding postDominators_def list_all2_conv_all_nth by simp
  then have "a \<in> pdom_init bs ! b" using b(2) by blast
  then show ?thesis using b(1) reachable_iff allReachable_iff by (simp add: pdom_init_def split: if_splits)
qed

theorem postDominators_correct:
  assumes "postDominators bs = Some pd" "(0, b) \<in> (edges bs)\<^sup>*"
  shows "pd ! b = {a. (0, a) \<in> (edges bs)\<^sup>* \<and> postdominates bs a b}"
proof -
  have "b < length bs" using assms(2) path_range by simp
  then show ?thesis
    using postDominators_sound [OF assms(1)] postDominators_complete [OF assms(1)] assms
      postDominators_reachable [OF assms(1)]
    by (auto simp: postdominates_def)
qed

end

section \<open>Post-dominators form a chain\<close>

lemma postdominates_refl: "postdominates bs b b"
  unfolding postdominates_def by (metis hd_in_set walk_nonempty)

lemma postdominates_trans:
  assumes "postdominates bs a c" "postdominates bs c b"
  shows "postdominates bs a b"
  unfolding postdominates_def
proof (intro allI impI)
  fix p assume p: "walk (edges bs) p \<and> hd p = b \<and> succs bs (last p) = []"
  then have "c \<in> set p" using assms(2) by (auto simp: postdominates_def)
  then obtain u v where uv: "p = u @ c # v" by (auto simp: in_set_conv_decomp)
  have "walk (edges bs) (c # v)" "succs bs (last (c # v)) = []"
    using walk_prefix [of _ p u c v] p uv by auto
  then have "a \<in> set (c # v)" using assms(1) unfolding postdominates_def by (metis list.sel(1))
  then show "a \<in> set p" using uv by auto
qed

lemma postdominates_splice:
  assumes b: "postdominates bs x b" and nd: "\<not> postdominates bs x y"
    and u: "walk (edges bs) (u @ [y])" "hd (u @ [y]) = b" "x \<notin> set u"
  shows False
proof -
  obtain q where q: "walk (edges bs) q" "hd q = y" "succs bs (last q) = []" "x \<notin> set q"
    using nd by (auto simp: postdominates_def)
  obtain q' where q': "q = y # q'" using q(1,2) by (cases q) auto
  have "walk (edges bs) (u @ q)" "hd (u @ q) = b" "succs bs (last (u @ q)) = []"
    using q q' u by (auto simp: walk_append walk_snoc split: if_splits)
  then have "x \<in> set (u @ q)" using b unfolding postdominates_def by blast
  then show False using q(4) u(3) by simp
qed

lemma exit_walk:
  "reaches_exit bs b \<Longrightarrow> \<exists>p. walk (edges bs) p \<and> hd p = b \<and> succs bs (last p) = []"
  unfolding reaches_exit_def using rtrancl_walk by metis

lemma postdominates_chain:
  assumes "postdominates bs x b" "postdominates bs y b" "reaches_exit bs b"
  shows "postdominates bs x y \<or> postdominates bs y x"
proof (rule ccontr)
  assume no: "\<not> ?thesis"
  obtain p where p: "walk (edges bs) p" "hd p = b" "succs bs (last p) = []"
    using exit_walk [OF assms(3)] by blast
  have "\<exists>z\<in>set p. z = x \<or> z = y" using p assms(1) by (auto simp: postdominates_def)
  then obtain u z v where uzv: "p = u @ z # v" "z = x \<or> z = y" "\<forall>w\<in>set u. \<not> (w = x \<or> w = y)"
    by (rule split_list_first_propE)
  have w: "walk (edges bs) (u @ [z])" "hd (u @ [z]) = b" using walk_prefix [OF p(1) uzv(1)] p(2) by auto
  from uzv(2) show False
  proof
    assume "z = x"
    then show False using postdominates_splice [OF assms(2), of x u] no w uzv(3) by auto
  next
    assume "z = y"
    then show False using postdominates_splice [OF assms(1), of y u] no w uzv(3) by auto
  qed
qed

section \<open>What the selection returns\<close>

lemma least_by_aux:
  "\<exists>m. fold (\<lambda>c best. case best of None \<Rightarrow> Some c | Some m \<Rightarrow> if f c < f m then Some c else Some m)
      xs (Some d) = Some m \<and> m \<in> insert d (set xs) \<and> (\<forall>c\<in>insert d (set xs). (f m :: nat) \<le> f c)"
proof (induction xs arbitrary: d)
  case Nil
  then show ?case by simp
next
  case (Cons c xs)
  show ?case using Cons.IH [of c] Cons.IH [of d] by (cases "f c < f d") force+
qed

lemma least_by_min:
  assumes "xs \<noteq> []" shows "\<exists>m\<in>set xs. least_by f xs = Some m \<and> (\<forall>c\<in>set xs. f m \<le> f c)"
proof -
  obtain d ys where "xs = d # ys" using assms by (cases xs) auto
  then show ?thesis using least_by_aux [of f ys d] by (auto simp: least_by_def)
qed

context cfg
begin

text \<open>The recorded block is a strict post-dominator that post-dominates all the others.\<close>

theorem pick_ipdom_furthest:
  assumes pd: "postDominators bs = Some pd" and b: "(0, b) \<in> (edges bs)\<^sup>*" "reaches_exit bs b"
    and ex: "(0, a) \<in> (edges bs)\<^sup>*" "postdominates bs a b" "a \<noteq> b"
  shows "\<exists>d. pick_ipdom pd b = int d \<and> d \<noteq> b \<and> postdominates bs d b \<and>
    (\<forall>a. (0, a) \<in> (edges bs)\<^sup>* \<and> postdominates bs a b \<and> a \<noteq> b \<longrightarrow> postdominates bs d a)"
proof -
  let ?cs = "filter (\<lambda>c. c \<noteq> b) (sorted_list_of_set (pd ! b))"
  let ?f = "\<lambda>c. card (pd ! c)"
  have fin: "finite (pd ! c)" if "(0, c) \<in> (edges bs)\<^sup>*" for c
    using postDominators_correct [OF pd that] path_range
    by (auto intro!: finite_subset [of _ "{..<length bs}"])
  have cs: "c \<in> set ?cs \<longleftrightarrow> (0, c) \<in> (edges bs)\<^sup>* \<and> c \<noteq> b \<and> postdominates bs c b" for c
    using postDominators_correct [OF pd b(1)] fin [OF b(1)] by auto
  have "a \<in> set ?cs" using cs [of a] ex by blast
  then have "?cs \<noteq> []" by (metis empty_iff empty_set)
  from least_by_min [OF this, of ?f] obtain d where d: "d \<in> set ?cs" "least_by ?f ?cs = Some d"
    "\<And>c. c \<in> set ?cs \<Longrightarrow> ?f d \<le> ?f c" by blast
  have "postdominates bs d a" if a: "(0, a) \<in> (edges bs)\<^sup>*" "postdominates bs a b" "a \<noteq> b" for a
  proof (rule ccontr)
    assume nd: "\<not> postdominates bs d a"
    have acs: "a \<in> set ?cs" using a cs by simp
    have dr: "(0, d) \<in> (edges bs)\<^sup>*" using d(1) cs by simp
    have "postdominates bs a d" using postdominates_chain [OF a(2) _ b(2), of d] d(1) cs nd by blast
    then have "pd ! a \<subseteq> pd ! d"
      using postDominators_correct [OF pd] a(1) dr postdominates_trans by blast
    moreover have "?f d \<le> ?f a" using d(3) acs by blast
    ultimately have "pd ! a = pd ! d" using fin [OF dr] by (simp add: card_seteq)
    then show False
      using nd postDominators_correct [OF pd a(1)] postDominators_correct [OF pd dr] dr postdominates_refl
      by auto
  qed
  then show ?thesis using d cs by (auto simp: pick_ipdom_def)
qed

end

end
