(* ===== verification/IR_Liveness.thy ===== *)
theory IR_Liveness
  imports IR_Reach Sweep IR_Dominators
begin

text \<open>
  Register liveness of \<^verbatim>\<open>addFunction\<close> (\<^verbatim>\<open>byteveil_decompiler/IR.cpp\<close>): the upward-exposed uses
  and the definitions of each block, the backward fixed point over the blocks, and the peak
  number of live registers inside a block. The specification is over walks of the block graph: a
  register is live on entry to a block when some walk from that block reaches an upward-exposed
  use with no definition in the blocks before it.
\<close>

section \<open>Block summaries\<close>

text \<open>One instruction of the scan that fills \<^verbatim>\<open>blockUses\<close> and \<^verbatim>\<open>blockDefs\<close>.\<close>

definition summarize :: "nat \<Rightarrow> instruction \<Rightarrow> nat set \<times> nat set \<Rightarrow> nat set \<times> nat set" where
  "summarize regs i s =
    (let (u, d) = s in
     (u \<union> {r \<in> set (i_uses i). r < regs \<and> r \<notin> d}, d \<union> {r \<in> set (i_definitions i). r < regs}))"

definition block_summary :: "nat \<Rightarrow> instruction list \<Rightarrow> basic_block \<Rightarrow> nat set \<times> nat set" where
  "block_summary regs ins b = fold (\<lambda>k. summarize regs (ins ! k)) (b_instructions b) ({}, {})"

definition blockUses :: "nat \<Rightarrow> instruction list \<Rightarrow> basic_block \<Rightarrow> nat set" where
  "blockUses regs ins b = fst (block_summary regs ins b)"

definition blockDefs :: "nat \<Rightarrow> instruction list \<Rightarrow> basic_block \<Rightarrow> nat set" where
  "blockDefs regs ins b = snd (block_summary regs ins b)"

section \<open>The backward fixed point\<close>

type_synonym live_pair = "nat set \<times> nat set"  \<comment> \<open>\<open>liveIn\<close> and \<open>liveOut\<close> of a block\<close>

definition live_step ::
  "nat \<Rightarrow> instruction list \<Rightarrow> basic_block list \<Rightarrow> live_pair list \<Rightarrow> nat \<Rightarrow> live_pair" where
  "live_step regs ins bs st b =
    (let nextOut = fold (\<lambda>s acc. if s < length bs then acc \<union> fst (st ! s) else acc) (succs bs b) {};
         nextIn = blockUses regs ins (bs ! b) \<union> (nextOut - blockDefs regs ins (bs ! b))
     in (nextIn, nextOut))"

definition liveness :: "nat \<Rightarrow> instruction list \<Rightarrow> basic_block list \<Rightarrow> live_pair list option" where
  "liveness regs ins bs =
    sweep_loop (live_step regs ins bs) (rev [0..<length bs]) (replicate (length bs) ({}, {}))"

text \<open>
  The scan that computes \<^verbatim>\<open>blockLiveRegisterCount\<close>: backwards through the block from its
  live-out set, removing definitions and adding uses, with the largest size seen.
\<close>

definition peak_step :: "nat \<Rightarrow> instruction \<Rightarrow> nat set \<times> nat \<Rightarrow> nat set \<times> nat" where
  "peak_step regs i s =
    (let live = (fst s - {r \<in> set (i_definitions i). r < regs}) \<union> {r \<in> set (i_uses i). r < regs}
     in (live, max (snd s) (card live)))"

definition block_peak :: "nat \<Rightarrow> instruction list \<Rightarrow> basic_block \<Rightarrow> nat set \<Rightarrow> nat set \<times> nat" where
  "block_peak regs ins b liveOut =
    fold (\<lambda>k. peak_step regs (ins ! k)) (rev (b_instructions b)) (liveOut, card liveOut)"

section \<open>Summaries mean upward-exposed uses\<close>

lemma summarize_pair:
  "summarize regs i (u, d) =
    (u \<union> {r \<in> set (i_uses i). r < regs \<and> r \<notin> d}, d \<union> {r \<in> set (i_definitions i). r < regs})"
  by (simp add: summarize_def)

lemma first_split_Cons:
  "(\<exists>pre j post. k # ks = pre @ j # post \<and> P j \<and> (\<forall>i\<in>set pre. Q i)) \<longleftrightarrow>
    P k \<or> (Q k \<and> (\<exists>pre j post. ks = pre @ j # post \<and> P j \<and> (\<forall>i\<in>set pre. Q i)))"
  (is "?L \<longleftrightarrow> ?R")
proof
  assume ?L
  then obtain pre j post where s: "k # ks = pre @ j # post" "P j" "\<forall>i\<in>set pre. Q i" by blast
  then show ?R by (cases pre) auto
next
  assume ?R
  then show ?L
  proof
    assume "P k"
    then show ?L by (intro exI [of _ "[]"]) simp
  next
    assume "Q k \<and> (\<exists>pre j post. ks = pre @ j # post \<and> P j \<and> (\<forall>i\<in>set pre. Q i))"
    then obtain pre j post where "Q k" "ks = pre @ j # post" "P j" "\<forall>i\<in>set pre. Q i" by blast
    then show ?L by (intro exI [of _ "k # pre"]) auto
  qed
qed

fun exposed :: "instruction list \<Rightarrow> nat \<Rightarrow> nat list \<Rightarrow> bool" where
  "exposed ins r [] \<longleftrightarrow> False"
| "exposed ins r (k # ks) \<longleftrightarrow> r \<in> set (i_uses (ins ! k)) \<or>
    (r \<notin> set (i_definitions (ins ! k)) \<and> exposed ins r ks)"

lemma exposed_iff:
  "exposed ins r ks \<longleftrightarrow> (\<exists>pre k post. ks = pre @ k # post \<and> r \<in> set (i_uses (ins ! k)) \<and>
    (\<forall>j\<in>set pre. r \<notin> set (i_definitions (ins ! j))))"
proof (induction ks)
  case Nil
  then show ?case by simp
next
  case (Cons k ks)
  show ?case
    unfolding exposed.simps Cons.IH
      first_split_Cons [of k ks "\<lambda>k. r \<in> set (i_uses (ins ! k))"
        "\<lambda>k. r \<notin> set (i_definitions (ins ! k))"] ..
qed

lemma summary_fold:
  "fold (\<lambda>k. summarize regs (ins ! k)) ks (u, d) =
    (u \<union> {r. r < regs \<and> r \<notin> d \<and> exposed ins r ks},
     d \<union> {r. r < regs \<and> (\<exists>k\<in>set ks. r \<in> set (i_definitions (ins ! k)))})"
  by (induction ks arbitrary: u d) (auto simp: summarize_pair)

lemma blockUses_iff:
  "r \<in> blockUses regs ins b \<longleftrightarrow> r < regs \<and>
    (\<exists>pre k post. b_instructions b = pre @ k # post \<and> r \<in> set (i_uses (ins ! k)) \<and>
      (\<forall>j\<in>set pre. r \<notin> set (i_definitions (ins ! j))))"
  by (simp add: blockUses_def block_summary_def summary_fold exposed_iff)

lemma blockDefs_iff:
  "r \<in> blockDefs regs ins b \<longleftrightarrow> r < regs \<and> (\<exists>k\<in>set (b_instructions b). r \<in> set (i_definitions (ins ! k)))"
  by (simp add: blockDefs_def block_summary_def summary_fold)

section \<open>The loop computes liveness\<close>

lemma fold_union_if: "fold (\<lambda>s acc. if P s then acc \<union> f s else acc) xs A = A \<union> (\<Union>s\<in>{s \<in> set xs. P s}. f s)"
  by (induction xs arbitrary: A) auto

lemma live_step_eq:
  "live_step regs ins bs st b =
    (let out = (\<Union>s\<in>{s \<in> set (succs bs b). s < length bs}. fst (st ! s))
     in (blockUses regs ins (bs ! b) \<union> (out - blockDefs regs ins (bs ! b)), out))"
  by (simp add: live_step_def Let_def fold_union_if)

definition live_le :: "live_pair \<Rightarrow> live_pair \<Rightarrow> bool" where
  "live_le x y \<longleftrightarrow> fst y \<subseteq> fst x \<and> snd y \<subseteq> snd x"

definition live_ok :: "nat \<Rightarrow> live_pair \<Rightarrow> bool" where
  "live_ok regs x \<longleftrightarrow> fst x \<subseteq> {..<regs} \<and> snd x \<subseteq> {..<regs}"

definition live_rank :: "nat \<Rightarrow> live_pair \<Rightarrow> nat" where
  "live_rank regs x = (regs - card (fst x)) + (regs - card (snd x))"

lemma live_rank_less:
  assumes "live_le x y" "x \<noteq> y" "live_ok regs x" "live_ok regs y"
  shows "live_rank regs x < live_rank regs y"
proof -
  obtain a b c d where xy: "x = (a, b)" "y = (c, d)" by (cases x, cases y) auto
  have sub: "c \<subseteq> a" "d \<subseteq> b" "a \<subseteq> {..<regs}" "b \<subseteq> {..<regs}" "c \<noteq> a \<or> d \<noteq> b"
    using assms xy by (auto simp: live_le_def live_ok_def)
  have fin: "finite a" "finite b" using sub finite_subset by blast+
  have le: "card c \<le> card a" "card d \<le> card b" using sub fin card_mono by blast+
  have bound: "card a \<le> regs" "card b \<le> regs"
    using sub(3,4) card_mono [of "{..<regs}"] by fastforce+
  have "card c < card a \<or> card d < card b"
    using sub fin psubset_card_mono by (metis psubsetI)
  then show ?thesis using le bound xy by (auto simp: live_rank_def)
qed

locale cfg_regs = cfg bs for bs +
  fixes ins :: "instruction list" and regs :: nat

sublocale cfg_regs \<subseteq> live: descending_sweep "live_step regs ins bs" "rev [0..<length bs]"
    "replicate (length bs) ({}, {})" live_le "live_ok regs" "live_rank regs"
proof
  fix b assume b: "b \<in> set (rev [0..<length bs])"
  show "live_le (live_step regs ins bs xs b) (live_step regs ins bs ys b)"
    if le: "list_all2 live_le xs ys" "length ys = length (replicate (length bs) ({}, {}))" for xs ys
  proof -
    have "fst (ys ! s) \<subseteq> fst (xs ! s)" if "s < length bs" for s
      using le that by (auto simp: list_all2_conv_all_nth live_le_def)
    then have "(\<Union>s\<in>{s \<in> set (succs bs b). s < length bs}. fst (ys ! s)) \<subseteq>
        (\<Union>s\<in>{s \<in> set (succs bs b). s < length bs}. fst (xs ! s))"
      by blast
    then show ?thesis unfolding live_step_eq Let_def live_le_def by auto
  qed
  show "live_ok regs (live_step regs ins bs xs b)"
    if "list_all (live_ok regs) xs" "length xs = length (replicate (length bs) ({}, {}))" for xs
  proof -
    have "fst (xs ! s) \<subseteq> {..<regs}" if "s < length bs" for s
      using \<open>list_all (live_ok regs) xs\<close> \<open>length xs = _\<close> that by (simp add: list_all_length live_ok_def)
    then show ?thesis by (auto simp: live_step_eq Let_def live_ok_def blockUses_iff)
  qed
qed (auto simp: live_rank_less live_le_def live_ok_def list_all_iff)

interpretation built_regs: cfg_regs "build_blocks n ins" ins regs for n ins regs
  by unfold_locales

text \<open>Liveness on entry to a block, over walks of the block graph.\<close>

definition live_on_entry :: "nat \<Rightarrow> instruction list \<Rightarrow> basic_block list \<Rightarrow> nat \<Rightarrow> nat \<Rightarrow> bool" where
  "live_on_entry regs ins bs r b \<longleftrightarrow>
    (\<exists>p. walk (edges bs) p \<and> hd p = b \<and> r \<in> blockUses regs ins (bs ! last p) \<and>
      (\<forall>c\<in>set (butlast p). r \<notin> blockDefs regs ins (bs ! c)))"

lemma live_on_entry_unfold:
  "live_on_entry regs ins bs r b \<longleftrightarrow>
    r \<in> blockUses regs ins (bs ! b) \<or>
    (r \<notin> blockDefs regs ins (bs ! b) \<and> (\<exists>s. (b, s) \<in> edges bs \<and> live_on_entry regs ins bs r s))"
  (is "?L \<longleftrightarrow> ?R")
proof
  assume ?L
  then obtain p where p: "walk (edges bs) p" "hd p = b" "r \<in> blockUses regs ins (bs ! last p)"
    "\<forall>c\<in>set (butlast p). r \<notin> blockDefs regs ins (bs ! c)" by (auto simp: live_on_entry_def)
  then obtain q where q: "p = b # q" by (cases p) auto
  show ?R
  proof (cases "q = []")
    case True
    then show ?thesis using p q by simp
  next
    case False
    then have "(b, hd q) \<in> edges bs" "live_on_entry regs ins bs r (hd q)"
      "r \<notin> blockDefs regs ins (bs ! b)"
      using p q by (auto simp: walk_Cons live_on_entry_def)
    then show ?thesis by blast
  qed
next
  assume ?R
  then show ?L
  proof
    assume "r \<in> blockUses regs ins (bs ! b)"
    then show ?L by (auto simp: live_on_entry_def intro!: exI [of _ "[b]"])
  next
    assume "r \<notin> blockDefs regs ins (bs ! b) \<and> (\<exists>s. (b, s) \<in> edges bs \<and> live_on_entry regs ins bs r s)"
    then obtain s p where "r \<notin> blockDefs regs ins (bs ! b)" "(b, s) \<in> edges bs" "walk (edges bs) p"
      "hd p = s" "r \<in> blockUses regs ins (bs ! last p)"
      "\<forall>c\<in>set (butlast p). r \<notin> blockDefs regs ins (bs ! c)" by (auto simp: live_on_entry_def)
    then show ?L unfolding live_on_entry_def
      by (intro exI [of _ "b # p"]) (auto simp: walk_Cons dest: walk_nonempty)
  qed
qed

context cfg_regs
begin

lemma liveness_stop: "\<exists>lv. liveness regs ins bs = Some lv"
  using live.loop_stops by (simp add: liveness_def)

lemma liveness_length: "liveness regs ins bs = Some lv \<Longrightarrow> length lv = length bs"
  using live.loop_length by (simp add: liveness_def)

lemma liveness_ok:
  assumes "liveness regs ins bs = Some lv" "b < length bs"
  shows "live_ok regs (lv ! b)"
  using live.loop_result(1) assms liveness_length by (auto simp: liveness_def live.inv_def list_all_length)

lemma liveness_equation:
  assumes lv: "liveness regs ins bs = Some lv" and b: "b < length bs"
  shows "snd (lv ! b) = (\<Union>s\<in>set (succs bs b). fst (lv ! s))"
    "fst (lv ! b) = blockUses regs ins (bs ! b) \<union> (snd (lv ! b) - blockDefs regs ins (bs ! b))"
proof -
  have "lv ! b = live_step regs ins bs lv b"
    using live.loop_fixpoint [of lv b] lv b by (simp add: liveness_def)
  moreover have "{s \<in> set (succs bs b). s < length bs} = set (succs bs b)"
    using succ_range [OF b] by auto
  ultimately have eq: "lv ! b = (let out = (\<Union>s\<in>set (succs bs b). fst (lv ! s))
      in (blockUses regs ins (bs ! b) \<union> (out - blockDefs regs ins (bs ! b)), out))"
    by (simp add: live_step_eq)
  show "snd (lv ! b) = (\<Union>s\<in>set (succs bs b). fst (lv ! s))"
    "fst (lv ! b) = blockUses regs ins (bs ! b) \<union> (snd (lv ! b) - blockDefs regs ins (bs ! b))"
    by (subst eq, simp add: Let_def, subst (1 2) eq, simp add: Let_def)
qed

lemma liveness_complete:
  assumes lv: "liveness regs ins bs = Some lv"
  shows "walk (edges bs) p \<Longrightarrow> hd p < length bs \<Longrightarrow> r \<in> blockUses regs ins (bs ! last p) \<Longrightarrow>
    \<forall>c\<in>set (butlast p). r \<notin> blockDefs regs ins (bs ! c) \<Longrightarrow> r \<in> fst (lv ! hd p)"
proof (induction p)
  case Nil
  then show ?case by simp
next
  case (Cons b p)
  have b: "b < length bs" using Cons.prems(2) by simp
  show ?case
  proof (cases "p = []")
    case True
    then show ?thesis using Cons.prems liveness_equation(2) [OF lv b] by simp
  next
    case False
    then have e: "(b, hd p) \<in> edges bs" "walk (edges bs) p" using Cons.prems(1) by (auto simp: walk_Cons)
    then have "r \<in> fst (lv ! hd p)" using Cons.IH Cons.prems False edges_range by auto
    then have "r \<in> snd (lv ! b)"
      using e(1) liveness_equation(1) [OF lv b] by (auto simp: edges_iff)
    then show ?thesis using liveness_equation(2) [OF lv b] Cons.prems(4) False by auto
  qed
qed

lemma liveness_sound:
  assumes lv: "liveness regs ins bs = Some lv" and b: "b < length bs" "r \<in> fst (lv ! b)"
  shows "live_on_entry regs ins bs r b"
proof -
  define spec where "spec = map (\<lambda>b. ({r. live_on_entry regs ins bs r b},
     {r. \<exists>s. (b, s) \<in> edges bs \<and> live_on_entry regs ins bs r s})) [0..<length bs]"
  have "list_all2 live_le spec lv"
  proof (rule live.loop_greatest [OF lv [unfolded liveness_def]])
    show "list_all2 live_le spec (replicate (length bs) ({}, {}))"
      by (simp add: list_all2_conv_all_nth spec_def live_le_def)
    fix c assume "c \<in> set (rev [0..<length bs])"
    then have c: "c < length bs" by simp
    then have out: "(\<Union>s\<in>{s \<in> set (succs bs c). s < length bs}. fst (spec ! s)) = snd (spec ! c)"
      using succ_range [OF c] by (auto simp: spec_def edges_iff)
    have "snd (spec ! c) - blockDefs regs ins (bs ! c) \<subseteq> fst (spec ! c)"
      "blockUses regs ins (bs ! c) \<subseteq> fst (spec ! c)"
      using c live_on_entry_unfold [of regs ins bs _ c] by (auto simp: spec_def)
    then show "live_le (spec ! c) (live_step regs ins bs spec c)"
      unfolding live_step_eq Let_def live_le_def out by auto
  qed
  then have "fst (lv ! b) \<subseteq> fst (spec ! b)"
    using b liveness_length [OF lv] by (simp add: list_all2_conv_all_nth live_le_def)
  then show ?thesis using b by (auto simp: spec_def)
qed

theorem liveness_in:
  assumes "liveness regs ins bs = Some lv" "b < length bs"
  shows "fst (lv ! b) = {r. live_on_entry regs ins bs r b}"
  using liveness_sound [OF assms] liveness_complete [OF assms(1)] assms(2)
  by (auto simp: live_on_entry_def)

theorem liveness_out:
  assumes "liveness regs ins bs = Some lv" "b < length bs"
  shows "snd (lv ! b) = {r. \<exists>s. (b, s) \<in> edges bs \<and> live_on_entry regs ins bs r s}"
  using liveness_equation(1) [OF assms] liveness_in [OF assms(1)] succ_range assms(2)
  by (auto simp: edges_iff)

end

section \<open>The peak scan\<close>

lemma peak_step_pair:
  "peak_step regs i (L, m) =
    (let live = (L - {r \<in> set (i_definitions i). r < regs}) \<union> {r \<in> set (i_uses i). r < regs}
     in (live, max m (card live)))"
  by (simp add: peak_step_def)

lemma peak_fold:
  "fst (fold (\<lambda>k. peak_step regs (ins ! k)) (rev ks) (L, m)) =
    fst (fold (\<lambda>k. summarize regs (ins ! k)) ks ({}, {})) \<union>
    (L - snd (fold (\<lambda>k. summarize regs (ins ! k)) ks ({}, {})))"
proof (induction ks arbitrary: L m rule: rev_induct)
  case Nil
  then show ?case by simp
next
  case (snoc k ks)
  obtain u d where ud: "fold (\<lambda>k. summarize regs (ins ! k)) ks ({}, {}) = (u, d)" by fastforce
  show ?case
    by (simp add: peak_step_pair Let_def snoc.IH ud summarize_pair) auto
qed

text \<open>
  The registers live before the instructions \<open>ks\<close> that end a block with live-out set \<open>out\<close>:
  those used there before any definition, and those of \<open>out\<close> that are not defined there.
\<close>

definition live_before :: "nat \<Rightarrow> instruction list \<Rightarrow> nat list \<Rightarrow> nat set \<Rightarrow> nat set" where
  "live_before regs ins ks out = {r. r < regs \<and> exposed ins r ks} \<union>
    (out - {r. r < regs \<and> (\<exists>k\<in>set ks. r \<in> set (i_definitions (ins ! k)))})"

lemma peak_fold_live:
  "fst (fold (\<lambda>k. peak_step regs (ins ! k)) (rev ks) (L, m)) = live_before regs ins ks L"
  by (simp add: peak_fold summary_fold live_before_def)

text \<open>The count is the largest number of registers live at any point of the block.\<close>

lemma peak_max:
  "snd (fold (\<lambda>k. peak_step regs (ins ! k)) (rev ks) (L, card L)) =
    Max ((\<lambda>j. card (live_before regs ins (drop j ks) L)) ` {..length ks})"
proof (induction ks)
  case Nil
  then show ?case by (simp add: live_before_def)
next
  case (Cons k ks)
  let ?c = "\<lambda>ks. card (live_before regs ins ks L)"
  let ?s = "fold (\<lambda>k. peak_step regs (ins ! k)) (rev ks) (L, card L)"
  have "snd (peak_step regs (ins ! k) ?s) = max (snd ?s) (card (fst (peak_step regs (ins ! k) ?s)))"
    by (simp add: peak_step_def Let_def)
  also have "fst (peak_step regs (ins ! k) ?s) = live_before regs ins (k # ks) L"
    using peak_fold_live [of regs ins "k # ks" L "card L"] by simp
  also have "max (snd ?s) (?c (k # ks)) = Max (insert (?c (k # ks)) ((\<lambda>j. ?c (drop j ks)) ` {..length ks}))"
    unfolding Cons.IH by (subst Max_insert) auto
  also have "insert (?c (k # ks)) ((\<lambda>j. ?c (drop j ks)) ` {..length ks}) =
      (\<lambda>j. ?c (drop j (k # ks))) ` {..length (k # ks)}"
    by (simp add: atMost_Suc_eq_insert_0 image_image)
  finally show ?case by simp
qed

end
