(* ===== verification/IR_Properties.thy ===== *)
theory IR_Properties
  imports Luau_Machine IR_Loops IR_PostDom IR_Liveness
begin

text \<open>
  The properties of the neutral IR, stated over the model of \<^verbatim>\<open>byteveil_decompiler/IR.cpp\<close> with
  nothing left to a locale, and concrete programs at which they are applied.
\<close>

section \<open>Concrete programs\<close>

text \<open>A prototype with four registers, two constants and no children around a list of words.\<close>

definition proto_of :: "u32 list \<Rightarrow> lproto" where
  "proto_of ws = LProto 0 0 4 0 1 (CArray ws) (CArray [TNil, TBoolean True]) (CArray []) [] None None []
    0 None None"

text \<open>
  A loop with a separate latch: load nil, leave the loop when register 0 is false, move, jump
  back, return. Then a block that jumps to itself, between an entry and a return.
\<close>

definition loopWords :: "u32 list" where
  "loopWords = [0x00000002, 0x0002001A, 0x00000106, 0xFFFD0018, 0x00010016]"

definition selfWords :: "u32 list" where
  "selfWords = [0x00000002, 0xFFFF0019, 0x00010016]"

definition loopCode :: "instruction list" where
  "loopCode = decodeCode 0 (proto_of loopWords)"

definition selfCode :: "instruction list" where
  "selfCode = decodeCode 0 (proto_of selfWords)"

abbreviation "loopBlocks \<equiv> build_blocks 5 loopCode"
abbreviation "selfBlocks \<equiv> build_blocks 3 selfCode"

lemma loopBlocks_eq:
  "loopBlocks =
   [\<lparr>b_id = 0, b_start = 0, b_end = 0, b_instructions = [0],
       b_successors = [1], b_predecessors = [], b_reachable = False\<rparr>,
    \<lparr>b_id = 1, b_start = 1, b_end = 1, b_instructions = [1],
       b_successors = [2, 3], b_predecessors = [0, 2], b_reachable = False\<rparr>,
    \<lparr>b_id = 2, b_start = 2, b_end = 3, b_instructions = [2, 3],
       b_successors = [1], b_predecessors = [1], b_reachable = False\<rparr>,
    \<lparr>b_id = 3, b_start = 4, b_end = 4, b_instructions = [4],
       b_successors = [], b_predecessors = [1], b_reachable = False\<rparr>]"
  by code_simp

lemma selfBlocks_eq:
  "selfBlocks =
   [\<lparr>b_id = 0, b_start = 0, b_end = 0, b_instructions = [0],
       b_successors = [1], b_predecessors = [], b_reachable = False\<rparr>,
    \<lparr>b_id = 1, b_start = 1, b_end = 1, b_instructions = [1],
       b_successors = [1, 2], b_predecessors = [0, 1], b_reachable = False\<rparr>,
    \<lparr>b_id = 2, b_start = 2, b_end = 2, b_instructions = [2],
       b_successors = [], b_predecessors = [1], b_reachable = False\<rparr>]"
  by code_simp

lemma loop_layout: "code_layout 0 5 loopCode" "length loopCode = 5"
  by code_simp+

lemma loop_flags: "reachable_flags loopBlocks = [True, True, True, True]"
  unfolding loopBlocks_eq by code_simp

lemma self_flags: "reachable_flags selfBlocks = [True, True, True]"
  unfolding selfBlocks_eq by code_simp

lemma loop_reachable: "b \<in> {0, 1, 2, 3} \<Longrightarrow> (0, b) \<in> (edges loopBlocks)\<^sup>*"
  using built.reachable_iff [of b 5 loopCode] by (auto simp: loop_flags, simp_all add: loopBlocks_eq)

lemma self_reachable: "b \<in> {0, 1, 2} \<Longrightarrow> (0, b) \<in> (edges selfBlocks)\<^sup>*"
  using built.reachable_iff [of b 3 selfCode] by (auto simp: self_flags, simp_all add: selfBlocks_eq)

section \<open>Validation\<close>


lemma loop_validates: "validateProto 0 (Some (proto_of loopWords)) 128 1000 = Inr 5"
  by code_simp


text \<open>
  What it does not check: operand B of ADDK, and the length of the range of a CALL. Both words name
  registers up to 200 of a frame of four.
\<close>

lemma unchecked_registers_accepted:
  "validateProto 0 (Some (proto_of [0x00C80027, 0x00010016])) 128 1000 = Inr 2"
  "validateProto 0 (Some (proto_of [0x00C80015, 0x00010016])) 128 1000 = Inr 2"
  by code_simp+

text \<open>
  The word that \<^verbatim>\<open>validateOne\<close> reads one past the end of the code, at a last instruction
  without an auxiliary word, never influences the answer or the error message.
\<close>

theorem validateProto_oob_irrelevant:
  "validateProto oob root maxDepth maxInstructions = validateProto oob' root maxDepth maxInstructions"
  unfolding validateProto_def by (rule validateOne_oob)

text \<open>
  C3: In an accepted tree every prototype's basic blocks partition its decoded instructions,
  and the blocks are basic: an instruction that is the target of a jump starts its block, and an
  instruction that jumps or returns ends its block.
\<close>

theorem validated_blocks_partition:
  assumes valid: "validateProto oob root maxDepth maxInstructions = Inr t"
    and p: "(d, p) \<in> set (prototypesOf 0 root)"
  defines "ins \<equiv> decodeCode oob p" and "n \<equiv> length (cells (code p))"
  shows "(\<forall>k<length ins. \<exists>!b. b < length (build_blocks n ins) \<and>
      k \<in> set (b_instructions (build_blocks n ins ! b))) \<and>
    (\<forall>b<length (build_blocks n ins). \<forall>k\<in>set (b_instructions (build_blocks n ins ! b)).
      (\<forall>i\<in>set ins. i_jumpTarget i = int (i_offset (ins ! k)) \<longrightarrow>
         i_offset (ins ! k) = b_start (build_blocks n ins ! b)) \<and>
      (i_jumpTarget (ins ! k) \<ge> 0 \<or> isReturn (i_opcode (ins ! k)) \<longrightarrow>
         Suc k \<notin> set (b_instructions (build_blocks n ins ! b))))"
proof -
  have "proto_ok oob p"
    using validateOne_tree(1) [OF valid [unfolded validateProto_def]] p by auto
  then have lay: "code_layout 0 n ins" by (simp add: proto_ok_def Let_def ins_def n_def)
  have part: "\<forall>k<length ins. \<exists>!b. b < length (build_blocks n ins) \<and>
      k \<in> set (b_instructions (build_blocks n ins ! b))"
    using built_partition [OF lay] by blast
  show ?thesis
    using part built_single_entry built_single_exit [OF lay] by (intro conjI allI impI ballI) (fastforce simp: not_le)+
qed

theorem validated_blocks_partition_witness:
  "\<exists>!b. b < length loopBlocks \<and> 3 \<in> set (b_instructions (loopBlocks ! b))"
proof -
  have "(0, proto_of loopWords) \<in> set (prototypesOf 0 (Some (proto_of loopWords)))" by simp
  moreover have "length (cells (code (proto_of loopWords))) = 5" by code_simp
  ultimately show ?thesis
    using validated_blocks_partition [OF loop_validates, of 0 "proto_of loopWords"]
    by (simp add: loopCode_def [symmetric] loop_layout(2))
qed

section \<open>Instructions\<close>

text \<open>
  C4: For an accepted prototype the recorded uses and definitions of an instruction are right for the
  interpreter, whatever its operations compute: executing the instruction leaves every register
  outside its definitions alone, and the world, the decision to jump and the registers it defines do not
  change when registers outside its uses do. All of them are registers of the frame. It is stated for the
  instructions of \<open>machine_runs\<close>, which leaves out calls, generic loops, closures and captures, classes, CONCAT,
  open-ended ranges, and operands and ranges that reach out of the frame.
\<close>

theorem uses_and_definitions_sound:
  fixes vm :: "('v, 'w) luau_vm"
  assumes valid: "validateProto oob root maxDepth maxInstructions = Inr t"
    and p: "(d, p) \<in> set (prototypesOf 0 root)"
    and i: "i \<in> set (decodeCode oob p)" and runs: "machine_runs p i"
  shows "(\<forall>r. r \<notin> set (i_definitions i) \<longrightarrow> fst (machine_exec vm i R w) r = R r) \<and>
    ((\<forall>r\<in>set (i_uses i). S r = R r) \<longrightarrow>
       snd (machine_exec vm i S w) = snd (machine_exec vm i R w) \<and>
       (\<forall>r\<in>set (i_definitions i). fst (machine_exec vm i S w) r = fst (machine_exec vm i R w) r)) \<and>
    set (i_uses i) \<union> set (i_definitions i) \<subseteq> {..<maxstacksize p}"
proof -
  have "proto_ok oob p" using validateOne_tree(1) [OF valid [unfolded validateProto_def]] p by auto
  then have "confined (set (i_uses i)) (set (i_definitions i)) (machine_exec vm i)"
    using i runs by (rule decoded_confined)
  moreover have "set (i_uses i) \<union> set (i_definitions i) \<subseteq> {..<maxstacksize p}"
    using decodeCode_instr_ok [OF i] by (auto simp: instr_ok_def)
  ultimately show ?thesis unfolding confined_def by blast
qed

text \<open>The MOVE of the loop copies register 0 to register 1 and reads nothing else.\<close>

definition sampleVm :: "(int, unit) luau_vm" where
  "sampleVm = \<lparr>vm_value = \<lambda>pc vs w. (sum_list vs, w), vm_store = \<lambda>pc vs w. w, vm_test = \<lambda>pc vs w. (True, w),
     vm_false = \<lambda>v. v = 0, vm_number = \<lambda>v. v, vm_const = \<lambda>pc. 7, vm_vararg = \<lambda>n. 0\<rparr>"

theorem uses_and_definitions_sound_witness:
  "i_opcode (loopCode ! 2) = LOP_MOVE \<and> i_uses (loopCode ! 2) = [0] \<and> i_definitions (loopCode ! 2) = [1] \<and>
   fst (machine_exec sampleVm (loopCode ! 2) (\<lambda>r. int r) ()) 1 = 0 \<and>
   fst (machine_exec sampleVm (loopCode ! 2) (\<lambda>r. int r) ()) 3 = 3 \<and>
   fst (machine_exec sampleVm (loopCode ! 2) (\<lambda>r. if r = 0 then 0 else 9) ()) 1 = 0"
proof -
  let ?i = "loopCode ! 2"
  have fields: "i_opcode ?i = LOP_MOVE" "i_uses ?i = [0]" "i_definitions ?i = [1]" "i_a ?i = 1" "i_b ?i = 0" by code_simp+
  have "(0, proto_of loopWords) \<in> set (prototypesOf 0 (Some (proto_of loopWords)))" by simp
  moreover have "?i \<in> set (decodeCode 0 (proto_of loopWords))"
    using nth_mem [of 2 loopCode] loop_layout(2) by (simp add: loopCode_def)
  moreover have "machine_runs (proto_of loopWords) ?i" by (simp add: machine_runs_def machine_opcodes_def fields(1))
  ultimately have all:
    "(\<forall>r. r \<notin> set (i_definitions ?i) \<longrightarrow> fst (machine_exec sampleVm ?i (\<lambda>r. int r) ()) r = int r) \<and>
     ((\<forall>r\<in>set (i_uses ?i). (if r = 0 then 0 else 9) = int r) \<longrightarrow>
       snd (machine_exec sampleVm ?i (\<lambda>r. if r = 0 then 0 else 9) ()) = snd (machine_exec sampleVm ?i (\<lambda>r. int r) ()) \<and>
       (\<forall>r\<in>set (i_definitions ?i). fst (machine_exec sampleVm ?i (\<lambda>r. if r = 0 then 0 else 9) ()) r =
          fst (machine_exec sampleVm ?i (\<lambda>r. int r) ()) r)) \<and>
     set (i_uses ?i) \<union> set (i_definitions ?i) \<subseteq> {..<maxstacksize (proto_of loopWords)}"
    by (rule uses_and_definitions_sound [OF loop_validates])
  have one: "fst (machine_exec sampleVm ?i (\<lambda>r. int r) ()) 1 = 0"
    by (simp add: machine_exec_def fields assign_def)
  show ?thesis using all one fields by simp
qed

text \<open>
  Whatever the words are, every decoded instruction records each register once, only
  registers of the frame, its primary destination is its first definition, and an instruction
  marked pure is not marked as having side effects.
\<close>

theorem decoded_instruction_ok:
  "list_all (instr_ok (int (maxstacksize p))) (decodeCode oob p)"
  using decodeCode_instr_ok by (auto simp: list_all_iff)

section \<open>The block graph\<close>

text \<open>
  The predecessor list of every block is the ascending list of the blocks that have it as
  a successor, so the two directions of the graph always agree.
\<close>

theorem predecessors_mirror_successors:
  assumes "c < length (build_blocks n ins)"
  shows "b_predecessors (build_blocks n ins ! c) =
    filter (\<lambda>a. c \<in> set (b_successors (build_blocks n ins ! a))) [0..<length (build_blocks n ins)]"
  using built_predecessors [OF assms] by (simp add: pred_list_def succs_def)

theorem predecessors_mirror_successors_witness: "b_predecessors (loopBlocks ! 1) = [0, 2]"
  using predecessors_mirror_successors [of 1 5 loopCode]
  by (simp add: loopBlocks_eq upt_conv_Cons)

text \<open>The recursive marking sets the flag of exactly the blocks on a path from the entry.\<close>

theorem reachable_flags_correct:
  assumes "b < length (build_blocks n ins)"
  shows "reachable_flags (build_blocks n ins) ! b \<longleftrightarrow> (0, b) \<in> (edges (build_blocks n ins))\<^sup>*"
  using assms by (rule built.reachable_iff)

theorem reachable_flags_correct_witness: "(0, 3) \<in> (edges loopBlocks)\<^sup>*"
  using reachable_flags_correct [of 3 5 loopCode] by (simp add: loop_flags, simp add: loopBlocks_eq)

section \<open>Dominators\<close>

text \<open>
  C7: The iterative dominator computation stops on every block graph the code builds, and the
  set it leaves for a reachable block is exactly the set of blocks on every path from the entry
  to it.
\<close>

theorem dominators_are_dominators:
  "\<exists>doms. dominators (build_blocks n ins) = Some doms \<and> length doms = length (build_blocks n ins) \<and>
    (\<forall>b. (0, b) \<in> (edges (build_blocks n ins))\<^sup>* \<longrightarrow> doms ! b = {a. dominates (build_blocks n ins) a b})"
proof -
  obtain doms where doms: "dominators (build_blocks n ins) = Some doms" using built.dominators_stop by blast
  show ?thesis
    using doms built.dominators_length [OF doms] built.dominators_correct [OF doms] by blast
qed

theorem dominators_are_dominators_witness:
  "\<exists>doms. dominators loopBlocks = Some doms \<and> doms ! 3 = {a. dominates loopBlocks a 3}"
  using dominators_are_dominators [of 5 loopCode] loop_reachable [of 3] by blast

text \<open>
  C8: For every reachable block but the entry, the recorded immediate dominator is the unique
  closest strict dominator: a strict dominator that every strict dominator dominates.
\<close>

theorem immediate_dominator_correct:
  assumes "dominators (build_blocks n ins) = Some doms"
    and "(0, b) \<in> (edges (build_blocks n ins))\<^sup>*" and "b \<noteq> 0"
  shows "\<exists>d. immediateDominators (build_blocks n ins) doms ! b = int d \<and>
    is_idom (build_blocks n ins) d b"
proof -
  have b: "b < length (build_blocks n ins)" using assms(2) by (rule built.path_range)
  then have "reachable_flags (build_blocks n ins) ! b" using assms(2) by (simp add: built.reachable_iff)
  then show ?thesis using built.pick_idom_correct [OF assms] assms(3) b by (simp add: immediateDominators_def)
qed

lemma loop_dominators: "dominators loopBlocks = Some [{0}, {0, 1}, {0, 1, 2}, {0, 1, 3}]"
  unfolding loopBlocks_eq by code_simp

theorem immediate_dominator_correct_witness: "is_idom loopBlocks 1 3"
proof -
  have "immediateDominators loopBlocks [{0}, {0, 1}, {0, 1, 2}, {0, 1, 3}] ! 3 = 1"
    unfolding loopBlocks_eq by code_simp
  then show ?thesis
    using immediate_dominator_correct [OF loop_dominators loop_reachable, of 3] by auto
qed

section \<open>Loops\<close>

text \<open>
  The recorded back edges are exactly the edges from a reachable block to a block that
  dominates it.
\<close>

theorem back_edges_correct:
  assumes "dominators (build_blocks n ins) = Some doms"
  shows "set (backEdges (build_blocks n ins) doms) =
    {(t, h). (t, h) \<in> edges (build_blocks n ins) \<and> (0, t) \<in> (edges (build_blocks n ins))\<^sup>* \<and>
      dominates (build_blocks n ins) h t}"
  using built.backEdges_iff [OF assms] by auto

theorem back_edges_correct_witness: "(2, 1) \<in> edges loopBlocks \<and> dominates loopBlocks 1 2"
proof -
  have "(2, 1) \<in> set (backEdges loopBlocks [{0}, {0, 1}, {0, 1, 2}, {0, 1, 3}])"
    unfolding loopBlocks_eq by code_simp
  then show ?thesis unfolding back_edges_correct [OF loop_dominators] by simp
qed

text \<open>
  C10: For a back edge whose latch differs from its header, the worklist collects the natural
  loop: the header and the reachable blocks with a path to the latch that avoids the header. When
  the header dominates the latch it dominates the whole loop.
\<close>

theorem natural_loop_correct:
  assumes "(0, t) \<in> (edges (build_blocks n ins))\<^sup>*" and "h \<noteq> t"
  shows "set (natural_loop (build_blocks n ins) (t, h)) =
      insert h {x. (0, x) \<in> (edges (build_blocks n ins))\<^sup>* \<and>
        (\<exists>p. walk (edges (build_blocks n ins)) p \<and> hd p = x \<and> last p = t \<and> h \<notin> set p)} \<and>
    (dominates (build_blocks n ins) h t \<longrightarrow>
      (\<forall>x\<in>set (natural_loop (build_blocks n ins) (t, h)). dominates (build_blocks n ins) h x))"
  using built.natural_loop_proper [OF assms] built.natural_loop_dominated [OF _ assms] by blast

theorem natural_loop_correct_witness:
  "insert 1 {x. (0, x) \<in> (edges loopBlocks)\<^sup>* \<and>
    (\<exists>p. walk (edges loopBlocks) p \<and> hd p = x \<and> last p = 2 \<and> 1 \<notin> set p)} = {1, 2}"
proof -
  have "natural_loop loopBlocks (2, 1) = [1, 2]" unfolding loopBlocks_eq by code_simp
  then show ?thesis using natural_loop_correct [of 2 5 loopCode 1] loop_reachable [of 2] by simp
qed

text \<open>
  For a back edge from a block to itself the worklist starts at the header, so what it
  collects is not the one-block loop but every block that can reach the header.
\<close>

theorem self_loop_collects_ancestors:
  assumes "(0, h) \<in> (edges (build_blocks n ins))\<^sup>*"
  shows "set (natural_loop (build_blocks n ins) (h, h)) =
    {x. (0, x) \<in> (edges (build_blocks n ins))\<^sup>* \<and> (x, h) \<in> (edges (build_blocks n ins))\<^sup>*}"
  using assms by (rule built.natural_loop_self)

theorem self_loop_collects_ancestors_witness: "0 \<in> set (natural_loop selfBlocks (1, 1))"
  using self_loop_collects_ancestors [OF self_reachable [of 1]] self_reachable [of 1] by simp

section \<open>Post-dominators\<close>

text \<open>
  C12: The iterative post-dominator computation stops, and the set it leaves for a reachable
  block is the set of reachable blocks on every path from it to a block without successors.
\<close>

theorem post_dominators_correct:
  "\<exists>pd. postDominators (build_blocks n ins) = Some pd \<and> length pd = length (build_blocks n ins) \<and>
    (\<forall>b. (0, b) \<in> (edges (build_blocks n ins))\<^sup>* \<longrightarrow>
      pd ! b = {a. (0, a) \<in> (edges (build_blocks n ins))\<^sup>* \<and> postdominates (build_blocks n ins) a b})"
proof -
  obtain pd where pd: "postDominators (build_blocks n ins) = Some pd" using built.postDominators_stop by blast
  show ?thesis
    using pd built.postDominators_length [OF pd] built.postDominators_correct [OF pd] by blast
qed

theorem post_dominators_correct_witness:
  "\<exists>pd. postDominators loopBlocks = Some pd \<and>
    pd ! 2 = {a. (0, a) \<in> (edges loopBlocks)\<^sup>* \<and> postdominates loopBlocks a 2}"
  using post_dominators_correct [of 5 loopCode] loop_reachable [of 2] by blast

text \<open>
  The block recorded as the immediate post-dominator is the strict post-dominator that is
  furthest away: it post-dominates every other strict post-dominator. (The immediate one would
  be the closest.)
\<close>

theorem recorded_ipdom_is_furthest:
  assumes "postDominators (build_blocks n ins) = Some pd"
    and "(0, b) \<in> (edges (build_blocks n ins))\<^sup>*" and "reaches_exit (build_blocks n ins) b"
    and "(0, a) \<in> (edges (build_blocks n ins))\<^sup>*" and "postdominates (build_blocks n ins) a b" and "a \<noteq> b"
  shows "\<exists>d. immediatePostDominators (build_blocks n ins) pd ! b = int d \<and> d \<noteq> b \<and>
    postdominates (build_blocks n ins) d b \<and> postdominates (build_blocks n ins) d a"
proof -
  have b: "b < length (build_blocks n ins)" using assms(2) by (rule built.path_range)
  then have "reachable_flags (build_blocks n ins) ! b" using assms(2) by (simp add: built.reachable_iff)
  then show ?thesis
    using built.pick_ipdom_furthest [OF assms] assms(4-6) b by (auto simp: immediatePostDominators_def)
qed

lemma loop_postDominators: "postDominators loopBlocks = Some [{0, 1, 3}, {1, 3}, {1, 2, 3}, {3}]"
  unfolding loopBlocks_eq by code_simp

theorem recorded_ipdom_is_furthest_witness:
  "immediatePostDominators loopBlocks [{0, 1, 3}, {1, 3}, {1, 2, 3}, {3}] ! 0 = 3 \<and>
    postdominates loopBlocks 1 0 \<and> postdominates loopBlocks 3 1"
proof -
  let ?pd = "[{0, 1, 3}, {1, 3}, {1, 2, 3}, {3}] :: nat set list"
  have "1 \<in> ?pd ! 0" by simp
  then have one: "postdominates loopBlocks 1 0"
    using built.postDominators_correct [OF loop_postDominators loop_reachable, of 0] by auto
  have "succs loopBlocks 3 = []" by (simp add: loopBlocks_eq succs_def)
  then have ex: "reaches_exit loopBlocks 0" using loop_reachable [of 3] by (auto simp: reaches_exit_def)
  have rec: "immediatePostDominators loopBlocks ?pd ! 0 = 3" unfolding loopBlocks_eq by code_simp
  have "postdominates loopBlocks 3 1"
    using recorded_ipdom_is_furthest [OF loop_postDominators loop_reachable ex loop_reachable one] rec by auto
  then show ?thesis using one rec by blast
qed

section \<open>Liveness\<close>

text \<open>
  C14: The backward liveness computation stops. The live-in set of a block holds the registers
  for which some path from the block meets a use before any definition, and the live-out set the
  registers live on entry to some successor.
\<close>

theorem liveness_correct:
  "\<exists>lv. liveness regs ins (build_blocks n ins) = Some lv \<and>
    (\<forall>b<length (build_blocks n ins).
      fst (lv ! b) = {r. live_on_entry regs ins (build_blocks n ins) r b} \<and>
      snd (lv ! b) = {r. \<exists>s. (b, s) \<in> edges (build_blocks n ins) \<and>
        live_on_entry regs ins (build_blocks n ins) r s})"
proof -
  obtain lv where lv: "liveness regs ins (build_blocks n ins) = Some lv"
    using built_regs.liveness_stop by blast
  then show ?thesis using built_regs.liveness_in [OF lv] built_regs.liveness_out [OF lv] by blast
qed

theorem liveness_correct_witness:
  "\<exists>lv. liveness 4 loopCode loopBlocks = Some lv \<and> fst (lv ! 1) = {r. live_on_entry 4 loopCode loopBlocks r 1}"
proof -
  have "1 < length loopBlocks" by (simp add: loopBlocks_eq)
  then show ?thesis using liveness_correct [of 4 loopCode 5] by blast
qed

text \<open>
  The recorded register pressure of a block is the largest number of registers live at any
  point of it, from its entry to its end, and the backward scan that computes it arrives at the
  block's live-in equation.
\<close>

theorem block_pressure_correct:
  "snd (block_peak regs ins b out) =
      Max ((\<lambda>j. card (live_before regs ins (drop j (b_instructions b)) out)) ` {..length (b_instructions b)}) \<and>
    fst (block_peak regs ins b out) = blockUses regs ins b \<union> (out - blockDefs regs ins b)"
  by (simp add: block_peak_def peak_max peak_fold blockUses_def blockDefs_def block_summary_def)

end
