(* ===== verification/IR_SSA_Properties.thy ===== *)
theory IR_SSA_Properties
  imports IR_SSA IR_Properties
begin

text \<open>
  The properties of the register versions of \<^verbatim>\<open>addFunction\<close>: the loop stops, what it leaves is
  sound along every path, and every join whose versions differ is reported as a phi node. An
  example shows that an entry block with predecessors gets none.
\<close>

text \<open>
  C28: The loop that computes register versions stops on the blocks of every function, whatever
  its instructions, so \<^verbatim>\<open>addFunction\<close> gets past it.
\<close>

theorem ssa_loop_stops:
  "\<exists>xs. ssa_loop regs (versioned regs ins) (build_blocks n ins) = Some xs \<and>
    length xs = length (build_blocks n ins)"
  using ssa_stops [of regs ins n] ssa_solution(1) by blast

text \<open>
  C29: The versions are sound. Along every path that starts in the entry block and does not come
  back to it, the version of a register on entry to the last block is the version of the last
  definition of that register on the path (0 when there is none), or the version of a recorded phi
  node for that register in a block of the path from which on the path does not define the register.
\<close>

theorem versions_sound:
  assumes "ssa_loop regs ins bs = Some xs" and "r < regs"
    and "walk (edges bs) p" and "hd p = 0" and "0 \<notin> set (tl p)" and "list_all (\<lambda>b. b < length bs) p"
  shows "ssa_in (xs ! last p) ! r = reaching ins bs r p \<or> carries_phi ins bs (phiNodes regs bs xs) r p (ssa_in (xs ! last p) ! r)"
  using version_reaches [OF assms(1-5)] assms(6) by (simp add: list_all_iff)

theorem versions_sound_witness:
  "\<exists>xs. ssa_loop 4 (versioned 4 loopCode) loopBlocks = Some xs \<and>
    (ssa_in (xs ! 3) ! 2 = reaching (versioned 4 loopCode) loopBlocks 2 [0, 1, 3] \<or>
     carries_phi (versioned 4 loopCode) loopBlocks (phiNodes 4 loopBlocks xs) 2 [0, 1, 3] (ssa_in (xs ! 3) ! 2))"
proof -
  obtain xs where "ssa_loop 4 (versioned 4 loopCode) loopBlocks = Some xs" using ssa_stops by blast
  then show ?thesis
    using versions_sound [of 4 "versioned 4 loopCode" loopBlocks xs 2 "[0, 1, 3]"]
    by (simp add: edges_iff, simp add: loopBlocks_eq succs_def)
qed

text \<open>
  C30: Wherever two predecessors of a block other than the entry block 0 leave different versions of
  a register, the block has a phi node for the register. It lists all the predecessors in ascending
  order with the version each of them leaves, and its version is the one the register has on
  entry to the block.
\<close>

theorem joins_have_phi_nodes:
  assumes "ssa_loop regs ins bs = Some xs" and "0 < b" and "b < length bs" and "r < regs"
    and "p \<in> set (pred_list bs b)" and "q \<in> set (pred_list bs b)"
    and "ssa_out (xs ! p) ! r \<noteq> ssa_out (xs ! q) ! r"
  shows "\<exists>phi\<in>set (phiNodes regs bs xs).
    phi_block phi = b \<and> phi_reg phi = r \<and> phi_version phi = ssa_in (xs ! b) ! r \<and>
    phi_incomingBlocks phi = pred_list bs b \<and>
    phi_incomingVersions phi = map (\<lambda>c. ssa_out (xs ! c) ! r) (pred_list bs b)"
proof -
  let ?v = "phiVersion regs (length ins) b r"
  have "merge ?v (ssa_arriving bs xs b r) = ?v"
    using assms(5-7) by (auto simp: merge_def ssa_arriving_def list_all_iff)
  then have inv: "ssa_in (xs ! b) ! r = ?v"
    using assms(2,5) by (auto simp: ssa_solution(2) [OF assms(1,3)] ssa_next_nth [OF assms(4)])
  show ?thesis by (rule rev_bexI [OF phi_recorded [OF assms]]) (simp add: inv ssa_arriving_def)
qed

theorem joins_have_phi_nodes_witness:
  "\<exists>xs. ssa_loop 4 (versioned 4 loopCode) loopBlocks = Some xs \<and>
    map phi_block (filter (\<lambda>phi. phi_reg phi = 1) (phiNodes 4 loopBlocks xs)) = [1] \<and>
    (\<exists>phi. phi \<in> set (phiNodes 4 loopBlocks xs) \<and> phi_reg phi = 1 \<and> phi_incomingBlocks phi = [0, 2])"
proof -
  obtain xs where xs: "ssa_loop 4 (versioned 4 loopCode) loopBlocks = Some xs" using ssa_stops by blast
  have preds: "pred_list loopBlocks 1 = [0, 2]" unfolding loopBlocks_eq by code_simp
  have out: "map_option (\<lambda>xs. (ssa_out (xs ! 0) ! 1, ssa_out (xs ! 2) ! 1))
      (ssa_loop 4 (versioned 4 loopCode) loopBlocks) = Some (0, 10)"
    unfolding loopBlocks_eq by code_simp
  have one: "map_option (\<lambda>xs. map phi_block (filter (\<lambda>phi. phi_reg phi = 1) (phiNodes 4 loopBlocks xs)))
      (ssa_loop 4 (versioned 4 loopCode) loopBlocks) = Some [1]"
    unfolding loopBlocks_eq by code_simp
  have "length loopBlocks = 4" by (simp add: loopBlocks_eq)
  then show ?thesis
    using joins_have_phi_nodes [OF xs, of 1 1 0 2] xs out one preds by auto
qed

section \<open>A register the loop never writes\<close>

text \<open>
  In the loop example no instruction writes register 2, but the loop header has a phi node for it:
  when the header is first visited nothing has left its latch, which counts as a different version,
  and from then on the latch returns the version of the phi node itself.
\<close>

lemma unwritten_register_has_phi:
  "map_option (\<lambda>xs. map (\<lambda>phi. (phi_block phi, phi_version phi, phi_incomingVersions phi))
      (filter (\<lambda>phi. phi_reg phi = 2) (phiNodes 4 loopBlocks xs))) (ssa_loop 4 (versioned 4 loopCode) loopBlocks) =
    Some [(1, 31, [0, 31])]"
  "list_all (\<lambda>i. 2 \<notin> set (i_definitions i)) loopCode"
  by (unfold loopBlocks_eq, code_simp) code_simp

section \<open>An entry block with predecessors\<close>

text \<open>
  A program that jumps back to its first instruction. The entry block is its own predecessor and
  leaves version 1 of register 0, but the version recorded on entry is 0 and there is no phi node.
\<close>

definition entryWords :: "u32 list" where
  "entryWords = [0x00000002, 0xFFFE0018]"

lemma entry_versions_ignore_predecessors:
  "map_option (\<lambda>xs. (map ssa_in xs, map ssa_out xs, phiNodes 4 (build_blocks 2 (decodeCode 0 (proto_of entryWords))) xs))
    (ssa_loop 4 (versioned 4 (decodeCode 0 (proto_of entryWords))) (build_blocks 2 (decodeCode 0 (proto_of entryWords)))) =
      Some ([[0, 0, 0, 0]], [[1, 0, 0, 0]], [])"
  "map (pred_list (build_blocks 2 (decodeCode 0 (proto_of entryWords)))) [0] = [[0]]"
  by code_simp+

end
