(* ===== verification/Json_Text.thy ===== *)
theory Json_Text
  imports BV_Prelude
begin

text \<open>
  The text of the reports: lists with separators, quoted strings, fields, objects and arrays, and
  the grammar of JSON text as the reports write it. Strings are lists of bytes.
\<close>

section \<open>Pieces\<close>

abbreviation byte :: "char \<Rightarrow> nat" where "byte c \<equiv> of_char c"

fun join :: "string \<Rightarrow> string list \<Rightarrow> string" where
  "join sep [] = []"
| "join sep [x] = x"
| "join sep (x # y # xs) = x @ sep @ join sep (y # xs)"

definition quoted :: "string \<Rightarrow> string" where
  "quoted s = [CHR 0x22] @ s @ [CHR 0x22]"

definition bool_text :: "bool \<Rightarrow> string" where
  "bool_text b = (if b then ''true'' else ''false'')"

text \<open>\<open>key:value\<close> with a quoted key, a whole object and a whole array.\<close>

definition field :: "string \<Rightarrow> string \<Rightarrow> string" where
  "field name v = quoted name @ '':'' @ v"

definition object_text :: "string list \<Rightarrow> string" where
  "object_text fields = ''{'' @ join '','' fields @ ''}''"

definition array_text :: "string list \<Rightarrow> string" where
  "array_text xs = ''['' @ join '','' xs @ '']''"

definition newline :: string where
  "newline = [char_of (10::nat)]"

section \<open>JSON\<close>

text \<open>
  The bodies of JSON strings as this code writes them: escapes, printable ASCII other than the
  quote and the backslash, and well-formed UTF-8 sequences (table 3-7 of the Unicode standard).
\<close>

definition lower_hex :: "char \<Rightarrow> bool" where
  "lower_hex c \<longleftrightarrow> c \<in> set ''0123456789abcdef''"

definition utf8_sequence :: "nat list \<Rightarrow> bool" where
  "utf8_sequence bs \<longleftrightarrow>
    (case bs of
       [a, b] \<Rightarrow> 0xC2 \<le> a \<and> a \<le> 0xDF \<and> 0x80 \<le> b \<and> b \<le> 0xBF
     | [a, b, c] \<Rightarrow> 0x80 \<le> c \<and> c \<le> 0xBF \<and>
        (a = 0xE0 \<and> 0xA0 \<le> b \<and> b \<le> 0xBF \<or> 0xE1 \<le> a \<and> a \<le> 0xEC \<and> 0x80 \<le> b \<and> b \<le> 0xBF \<or>
         a = 0xED \<and> 0x80 \<le> b \<and> b \<le> 0x9F \<or> 0xEE \<le> a \<and> a \<le> 0xEF \<and> 0x80 \<le> b \<and> b \<le> 0xBF)
     | [a, b, c, d] \<Rightarrow> 0x80 \<le> c \<and> c \<le> 0xBF \<and> 0x80 \<le> d \<and> d \<le> 0xBF \<and>
        (a = 0xF0 \<and> 0x90 \<le> b \<and> b \<le> 0xBF \<or> 0xF1 \<le> a \<and> a \<le> 0xF3 \<and> 0x80 \<le> b \<and> b \<le> 0xBF \<or>
         a = 0xF4 \<and> 0x80 \<le> b \<and> b \<le> 0x8F)
     | _ \<Rightarrow> False)"

inductive json_body :: "string \<Rightarrow> bool" where
  json_empty: "json_body []"
| json_short: "e \<in> set [CHR 0x22, CHR 0x5C, CHR ''b'', CHR ''f'', CHR ''n'', CHR ''r'', CHR ''t''] \<Longrightarrow> json_body s \<Longrightarrow>
    json_body (CHR 0x5C # e # s)"
| json_hex: "lower_hex h \<Longrightarrow> lower_hex l \<Longrightarrow> json_body s \<Longrightarrow>
    json_body (CHR 0x5C # CHR ''u'' # CHR ''0'' # CHR ''0'' # h # l # s)"
| json_ascii: "0x20 \<le> byte c \<Longrightarrow> byte c < 0x80 \<Longrightarrow> c \<noteq> CHR 0x22 \<Longrightarrow> c \<noteq> CHR 0x5C \<Longrightarrow> json_body s \<Longrightarrow> json_body (c # s)"
| json_utf8: "utf8_sequence (map of_char w) \<Longrightarrow> json_body s \<Longrightarrow> json_body (w @ s)"

lemma digit_char_hex: "d < 16 \<Longrightarrow> lower_hex (digit_char d)"
proof -
  have "list_all (\<lambda>d. lower_hex (digit_char d)) [0..<16]" by code_simp
  then show "d < 16 \<Longrightarrow> lower_hex (digit_char d)" by (simp add: list_all_iff)
qed


text \<open>Values and the fields of objects, without white space between the tokens.\<close>

inductive json :: "string \<Rightarrow> bool" and json_field :: "string \<Rightarrow> bool" where
  json_int: "json (int_text i)"
| json_bool: "json (bool_text b)"
| json_string: "json_body s \<Longrightarrow> json (quoted s)"
| json_array: "(\<And>x. x \<in> set xs \<Longrightarrow> json x) \<Longrightarrow> json (array_text xs)"
| json_object: "(\<And>x. x \<in> set fs \<Longrightarrow> json_field x) \<Longrightarrow> json (object_text fs)"
| json_member: "json_body name \<Longrightarrow> json v \<Longrightarrow> json_field (field name v)"

lemma int_text_nat: "int_text (int n) = nat_text n"
  by (simp add: int_text_def)

lemma json_nat: "json (nat_text n)"
  using json_int [of "int n"] by (simp add: int_text_nat)

text \<open>Printable ASCII without quotes and backslashes is a string body.\<close>

definition plain :: "string \<Rightarrow> bool" where
  "plain s \<longleftrightarrow> list_all (\<lambda>c. 0x20 \<le> byte c \<and> byte c < 0x80 \<and> c \<noteq> CHR 0x22 \<and> c \<noteq> CHR 0x5C) s"

lemma plain_simps:
  "plain []" "plain (c # s) \<longleftrightarrow> (0x20 \<le> byte c \<and> byte c < 0x80 \<and> c \<noteq> CHR 0x22 \<and> c \<noteq> CHR 0x5C) \<and> plain s"
  by (simp_all add: plain_def)

lemma plain_json: "plain s \<Longrightarrow> json_body s"
  by (induction s) (auto simp: plain_def intro: json_empty json_ascii)

lemma json_named: "plain name \<Longrightarrow> json v \<Longrightarrow> json_field (field name v)"
  by (rule json_member [OF plain_json])

lemma json_quoted_plain: "plain s \<Longrightarrow> json (quoted s)"
  by (rule json_string [OF plain_json])

lemma json_map: "(\<And>x. x \<in> set xs \<Longrightarrow> json (f x)) \<Longrightarrow> json (array_text (map f xs))"
  by (rule json_array) auto

lemma json_fields: "list_all json_field fs \<Longrightarrow> json (object_text fs)"
  by (rule json_object) (auto simp: list_all_iff)

end
