(* ===== verification/MoonSec_Text.thy ===== *)
theory MoonSec_Text
  imports Json_Text
begin

unbundle bit_operations_syntax

text \<open>
  The text side of \<^verbatim>\<open>byteveil_decompiler/MoonSec.cpp\<close>: the lexer that collects quoted string
  literals of a Lua source, the alphabet/nibble decoding of a payload, the names that record a
  prototype layout and a constant-tag table, the checksum and the JSON escaping. A source is a
  character list and a cursor is the rest of the source behind it; the offset of a cursor is the
  length of the source minus the length of the rest.
\<close>

section \<open>Names and limits\<close>

definition kMaxPayloadBytes :: nat where "kMaxPayloadBytes = 64 * 1024 * 1024"

datatype step = Constants | Instructions | Functions | Parameters
datatype constant_kind = KUnknown | KBoolean | KNumber | KString

record literal =
  lit_value :: string
  lit_offset :: nat

section \<open>Substring search\<close>

text \<open>\<^verbatim>\<open>std::string::find\<close>: the rest of \<open>s\<close> behind the first occurrence of \<open>pat\<close>.\<close>

definition starts_with :: "string \<Rightarrow> string \<Rightarrow> bool" where
  "starts_with pat s \<longleftrightarrow> take (length pat) s = pat"

fun after_sub :: "string \<Rightarrow> string \<Rightarrow> string option" where
  "after_sub pat [] = (if pat = [] then Some [] else None)"
| "after_sub pat (c # s) =
    (if starts_with pat (c # s) then Some (drop (length pat) (c # s)) else after_sub pat s)"

definition contains :: "string \<Rightarrow> string \<Rightarrow> bool" where
  "contains pat s \<longleftrightarrow> after_sub pat s \<noteq> None"

definition hasMoonSecMarker :: "string \<Rightarrow> bool" where
  "hasMoonSecMarker source \<longleftrightarrow>
    contains ''MoonSec V3'' source \<or> contains ''MoonSecV3'' source \<or> contains ''moonsec v3'' source"

section \<open>The literal lexer\<close>

text \<open>\<^verbatim>\<open>longBracketOpen\<close> at a cursor: the number of equals signs and the cursor behind the opening.\<close>

definition longBracketOpen :: "string \<Rightarrow> (nat \<times> string) option" where
  "longBracketOpen s =
    (case s of
       CHR ''['' # t \<Rightarrow>
         (let eqs = takeWhile (\<lambda>c. c = CHR ''='') t; u = dropWhile (\<lambda>c. c = CHR ''='') t in
          case u of CHR ''['' # rest \<Rightarrow> Some (length eqs, rest) | _ \<Rightarrow> None)
     | _ \<Rightarrow> None)"

definition skipLongBracket :: "string \<Rightarrow> string" where
  "skipLongBracket s =
    (case longBracketOpen s of
       None \<Rightarrow> s
     | Some (equals, rest) \<Rightarrow>
         (case after_sub (CHR '']'' # replicate equals CHR ''='' @ [CHR '']'']) rest of
            None \<Rightarrow> [] | Some behind \<Rightarrow> behind))"

definition is_digit :: "char \<Rightarrow> bool" where
  "is_digit c \<longleftrightarrow> 48 \<le> (of_char c :: nat) \<and> (of_char c :: nat) \<le> 57"

definition hexValue :: "char \<Rightarrow> nat option" where
  "hexValue c =
    (let n = of_char c :: nat in
     if 48 \<le> n \<and> n \<le> 57 then Some (n - 48)
     else if 97 \<le> n \<and> n \<le> 102 then Some (n - 97 + 10)
     else if 65 \<le> n \<and> n \<le> 70 then Some (n - 65 + 10) else None)"

definition is_space :: "char \<Rightarrow> bool" where
  "is_space c \<longleftrightarrow> (of_char c :: nat) \<in> {32, 9, 13, 10, 12, 11}"

text \<open>The digits of a decimal escape: at most \<open>k\<close> more.\<close>

fun moreDigits :: "nat \<Rightarrow> nat \<Rightarrow> string \<Rightarrow> nat \<times> string" where
  "moreDigits 0 n s = (n, s)"
| "moreDigits (Suc k) n [] = (n, [])"
| "moreDigits (Suc k) n (c # s) =
    (if is_digit c then moreDigits k (n * 10 + ((of_char c :: nat) - 48)) s else (n, c # s))"

text \<open>
  The \<^verbatim>\<open>switch\<close> on the character behind a backslash: the bytes it contributes and the cursor
  behind the escape.
\<close>

definition readEscape :: "char \<Rightarrow> string \<Rightarrow> (string \<times> string) option" where
  "readEscape escaped s =
    (if escaped = CHR ''a'' then Some ([char_of (7::nat)], s)
     else if escaped = CHR ''b'' then Some ([char_of (8::nat)], s)
     else if escaped = CHR ''f'' then Some ([char_of (12::nat)], s)
     else if escaped = CHR ''n'' then Some ([char_of (10::nat)], s)
     else if escaped = CHR ''r'' then Some ([char_of (13::nat)], s)
     else if escaped = CHR ''t'' then Some ([char_of (9::nat)], s)
     else if escaped = CHR ''v'' then Some ([char_of (11::nat)], s)
     else if escaped = char_of (10::nat) then Some ([char_of (10::nat)], s)
     else if escaped = char_of (13::nat) then
       Some ([char_of (10::nat)], (case s of c # t \<Rightarrow> if c = char_of (10::nat) then t else s | [] \<Rightarrow> s))
     else if escaped = CHR ''z'' then Some ([], dropWhile is_space s)
     else if escaped = CHR ''x'' then
       (case s of
          l # r # t \<Rightarrow> (case (hexValue l, hexValue r) of
             (Some left, Some right) \<Rightarrow> Some ([char_of (left * 16 + right)], t) | _ \<Rightarrow> None)
        | _ \<Rightarrow> None)
     else if is_digit escaped then
       (let (decimal, t) = moreDigits 2 ((of_char escaped :: nat) - 48) s in
        if decimal > 255 then None else Some ([char_of decimal], t))
     else Some ([escaped], s))"

lemma moreDigits_length: "length (snd (moreDigits k n s)) \<le> length s"
  by (induction k n s rule: moreDigits.induct) auto

lemma readEscape_length: "readEscape c s = Some (v, t) \<Longrightarrow> length t \<le> length s"
  using moreDigits_length [of 2 _ s] length_dropWhile_le [of is_space s]
  unfolding readEscape_def by (auto split: if_splits list.splits option.splits prod.splits) (metis snd_conv)+

text \<open>The loop of \<^verbatim>\<open>readQuotedLiteral\<close> behind the opening quote.\<close>

function readQuoted :: "char \<Rightarrow> string \<Rightarrow> string \<Rightarrow> (string \<times> string) option" where
  "readQuoted quote value [] = None"
| "readQuoted quote value (c # s) =
    (if c = quote then Some (value, s)
     else if c \<noteq> CHR 0x5C then readQuoted quote (value @ [c]) s
     else (case s of
         [] \<Rightarrow> None
       | escaped # t \<Rightarrow>
           (case readEscape escaped t of
              None \<Rightarrow> None
            | Some (bytes, u) \<Rightarrow> readQuoted quote (value @ bytes) u)))"
  by pat_completeness auto
termination
  by (relation "measure (\<lambda>(q, v, s). length s)") (auto dest: readEscape_length)

lemma readQuoted_length: "readQuoted q v s = Some (w, t) \<Longrightarrow> length t < length s"
proof (induction q v s rule: readQuoted.induct)
  case (2 q v c s)
  show ?case
  proof (cases "c = q \<or> c \<noteq> CHR 0x5C")
    case True
    then show ?thesis using 2(1,3) by (auto split: if_splits dest: less_imp_le)
  next
    case False
    then obtain e u b u' where s: "s = e # u" and e: "readEscape e u = Some (b, u')"
      and r: "readQuoted q (v @ b) u' = Some (w, t)"
      using 2(3) by (auto split: list.splits option.splits)
    have "length t < length u'" using 2(2) [OF _ _ s e refl r] False by auto
    then show ?thesis using readEscape_length [OF e] s by simp
  qed
qed simp

text \<open>
  \<^verbatim>\<open>stringsInSource\<close>: comments and long brackets are skipped, an unterminated literal ends the
  scan. The first argument is the length of the whole source.
\<close>

definition skipLine :: "string \<Rightarrow> string" where
  "skipLine s = drop 1 (dropWhile (\<lambda>c. c \<noteq> char_of (13::nat) \<and> c \<noteq> char_of (10::nat)) s)"

lemma after_sub_length: "after_sub pat s = Some t \<Longrightarrow> length t \<le> length s"
  by (induction pat s rule: after_sub.induct) (auto split: if_splits)

lemma longBracketOpen_length: "longBracketOpen s = Some (n, t) \<Longrightarrow> length t < length s"
proof -
  assume *: "longBracketOpen s = Some (n, t)"
  then obtain u where s: "s = CHR ''['' # u" and
    t: "dropWhile (\<lambda>c. c = CHR ''='') u = CHR ''['' # t"
    unfolding longBracketOpen_def by (auto simp: Let_def split: list.splits char.splits if_splits bool.splits)
  have "length (CHR ''['' # t) \<le> length u" unfolding t [symmetric] by (rule length_dropWhile_le)
  then show ?thesis using s by simp
qed

lemma skipLongBracket_length: "skipLongBracket s \<noteq> s \<Longrightarrow> length (skipLongBracket s) < length s"
  unfolding skipLongBracket_def
  by (auto split: option.splits dest!: longBracketOpen_length after_sub_length)

lemma skipLine_length: "length (skipLine s) \<le> length s"
  using length_dropWhile_le [of "\<lambda>c. c \<noteq> char_of (13::nat) \<and> c \<noteq> char_of (10::nat)" s]
  by (simp add: skipLine_def)

function stringsFrom :: "nat \<Rightarrow> string \<Rightarrow> literal list" where
  "stringsFrom n [] = []"
| "stringsFrom n (c # s) =
    (if c = CHR ''-'' \<and> s \<noteq> [] \<and> hd s = CHR ''-'' then
       (let rest = tl s; longEnd = skipLongBracket rest in
        stringsFrom n (if longEnd \<noteq> rest then longEnd else skipLine rest))
     else if c = CHR ''['' \<and> skipLongBracket (c # s) \<noteq> c # s then stringsFrom n (skipLongBracket (c # s))
     else if c = CHR 0x27 \<or> c = CHR 0x22 then
       (case readQuoted c [] s of
          Some (v, rest) \<Rightarrow> \<lparr>lit_value = v, lit_offset = n - length (c # s)\<rparr> # stringsFrom n rest
        | None \<Rightarrow> [])
     else stringsFrom n s)"
  by pat_completeness auto
termination
proof (relation "measure (\<lambda>(n, s). length s)", goal_cases)
  case (2 n c s rest longEnd)
  have "length (skipLine rest) \<le> length rest" by (rule skipLine_length)
  moreover have "length rest < length (c # s)" using 2 by (cases s) auto
  ultimately show ?case using 2 skipLongBracket_length [of rest] by auto
next
  case (3 n c s)
  then show ?case using skipLongBracket_length [of "c # s"] by auto
qed (auto dest: readQuoted_length)

definition stringsInSource :: "string \<Rightarrow> literal list" where
  "stringsInSource source = stringsFrom (length source) source"

section \<open>Alphabet payloads\<close>

definition alphabetCandidate :: "string \<Rightarrow> bool" where
  "alphabetCandidate txt \<longleftrightarrow>
    \<not> (length txt < 18 \<or> (length txt - 16) mod 2 \<noteq> 0 \<or> length txt > kMaxPayloadBytes * 2 + 16) \<and>
    distinct (take 16 txt) \<and>
    list_all (\<lambda>c. c \<noteq> char_of (13::nat) \<and> c \<noteq> char_of (10::nat)) (take 16 txt)"

text \<open>The table \<^verbatim>\<open>alphabet\<close>: the last position of a character among the first sixteen.\<close>

definition alphabetOf :: "string \<Rightarrow> char \<Rightarrow> nat option" where
  "alphabetOf encoded = fold (\<lambda>i m. m(encoded ! i \<mapsto> i)) [0..<16] Map.empty"

text \<open>
  The decoding loop behind the alphabet. A missing second character and a character outside the
  alphabet count as zero; the key rolls modulo 256.
\<close>

fun decodeNibbles :: "(char \<Rightarrow> nat option) \<Rightarrow> nat \<Rightarrow> nat \<Rightarrow> string \<Rightarrow> u8 list" where
  "decodeNibbles alphabet key rolling [] = []"
| "decodeNibbles alphabet key rolling [l] =
    [of_nat ((case alphabet l of Some h \<Rightarrow> h | None \<Rightarrow> 0) * 16 + 0 + rolling)]"
| "decodeNibbles alphabet key rolling (l # r # s) =
    of_nat ((case alphabet l of Some h \<Rightarrow> h | None \<Rightarrow> 0) * 16 + (case alphabet r of Some d \<Rightarrow> d | None \<Rightarrow> 0) + rolling) #
      decodeNibbles alphabet key ((rolling + key) mod 256) s"

definition decodeAlphabetPayload :: "string \<Rightarrow> nat \<Rightarrow> u8 list" where
  "decodeAlphabetPayload encoded key = decodeNibbles (alphabetOf encoded) key key (drop 16 encoded)"

section \<open>Recorded names\<close>

fun step_name :: "step \<Rightarrow> string" where
  "step_name Constants = ''constants''"
| "step_name Instructions = ''instructions''"
| "step_name Functions = ''functions''"
| "step_name Parameters = ''parameters''"

fun kind_name :: "constant_kind \<Rightarrow> string" where
  "kind_name KUnknown = ''nil''"
| "kind_name KBoolean = ''boolean''"
| "kind_name KNumber = ''number''"
| "kind_name KString = ''string''"

definition layoutName :: "step list \<Rightarrow> string" where
  "layoutName layout = join '','' (map step_name layout)"

definition tagName :: "constant_kind list \<Rightarrow> string" where
  "tagName tags = join '','' (map (\<lambda>i. nat_text i @ '':'' @ kind_name (tags ! i)) [0..<length tags])"

text \<open>\<^verbatim>\<open>std::getline\<close> with a separator: no token behind a final separator.\<close>

function getlines :: "char \<Rightarrow> string \<Rightarrow> string list" where
  "getlines sep s =
    (if s = [] then []
     else takeWhile (\<lambda>c. c \<noteq> sep) s # getlines sep (drop 1 (dropWhile (\<lambda>c. c \<noteq> sep) s)))"
  by pat_completeness auto
termination
proof (relation "measure (\<lambda>(sep, s). length s)", goal_cases)
  case (2 sep s)
  then have "length (drop 1 (dropWhile (\<lambda>c. c \<noteq> sep) s)) < length s"
    using length_dropWhile_le [of "\<lambda>c. c \<noteq> sep" s] length_greater_0_conv [of s] unfolding length_drop by linarith
  then show ?case by simp
qed simp

declare getlines.simps [simp del]

definition step_of :: "string \<Rightarrow> step option" where
  "step_of v =
    (if v = ''constants'' then Some Constants else if v = ''instructions'' then Some Instructions
     else if v = ''functions'' then Some Functions else if v = ''parameters'' then Some Parameters
     else None)"

definition kind_of :: "string \<Rightarrow> constant_kind option" where
  "kind_of v =
    (if v = ''nil'' then Some KUnknown else if v = ''boolean'' then Some KBoolean
     else if v = ''number'' then Some KNumber else if v = ''string'' then Some KString else None)"

text \<open>The loop of \<^verbatim>\<open>decodeLayout\<close> from index \<open>length layout\<close>; it fails at a fifth token.\<close>

fun decodeSteps :: "step list \<Rightarrow> string list \<Rightarrow> step list option" where
  "decodeSteps layout [] = (if length layout = 4 then Some layout else None)"
| "decodeSteps layout (v # vs) =
    (if length layout \<ge> 4 then None
     else case step_of v of None \<Rightarrow> None | Some st \<Rightarrow> decodeSteps (layout @ [st]) vs)"

definition decodeLayout :: "string \<Rightarrow> step list option" where
  "decodeLayout encoded = decodeSteps [] (getlines CHR '','' encoded)"

fun decodeTagList :: "constant_kind list \<Rightarrow> string list \<Rightarrow> constant_kind list option" where
  "decodeTagList tags [] = Some tags"
| "decodeTagList tags (v # vs) =
    (if length v < 3 \<or> v ! 1 \<noteq> CHR '':'' \<or> (of_char (v ! 0) :: nat) < 48 \<or> (of_char (v ! 0) :: nat) > 51 then None
     else case kind_of (drop 2 v) of
         None \<Rightarrow> None
       | Some k \<Rightarrow> decodeTagList (tags[(of_char (v ! 0) :: nat) - 48 := k]) vs)"

definition decodeTags :: "string \<Rightarrow> constant_kind list option" where
  "decodeTags encoded = decodeTagList (replicate 4 KUnknown) (getlines CHR '','' encoded)"

section \<open>Checksum and JSON text\<close>

definition fnv1a64 :: "u8 list \<Rightarrow> u64" where
  "fnv1a64 bytes = fold (\<lambda>b h. (h XOR ucast b) * 1099511628211) bytes 14695981039346656037"

fun hex_digits :: "nat \<Rightarrow> nat \<Rightarrow> string" where
  "hex_digits 0 n = []"
| "hex_digits (Suc k) n = hex_digits k (n div 16) @ [digit_char (n mod 16)]"

definition checksum :: "u8 list \<Rightarrow> string" where
  "checksum bytes = ''fnv1a64:'' @ hex_digits 16 (unat (fnv1a64 bytes))"

definition jsonChar :: "char \<Rightarrow> string" where
  "jsonChar c =
    (let n = of_char c :: nat in
     if c = CHR 0x22 \<or> c = CHR 0x5C then [CHR 0x5C, c]
     else if n = 10 then [CHR 0x5C, CHR ''n'']
     else if n = 13 then [CHR 0x5C, CHR ''r'']
     else if n = 9 then [CHR 0x5C, CHR ''t'']
     else if n < 32 then [CHR 0x5C, CHR ''u'', CHR ''0'', CHR ''0''] @ hex_digits 2 n
     else [c])"

definition jsonEscape :: "string \<Rightarrow> string" where
  "jsonEscape s = concat (map jsonChar s)"

definition bytesHex :: "u8 list \<Rightarrow> string" where
  "bytesHex bytes = concat (map (\<lambda>b. [digit_char (unat b div 16), digit_char (unat b mod 16)]) bytes)"

section \<open>Round trips\<close>

text \<open>The recorded names read back as what they were written from.\<close>

lemma getlines_join:
  assumes "\<And>x. x \<in> set xs \<Longrightarrow> x \<noteq> [] \<and> sep \<notin> set x"
  shows "getlines sep (join [sep] xs) = xs"
  using assms
proof (induction "[sep]" xs rule: join.induct)
  case 1
  then show ?case by (simp add: getlines.simps)
next
  case (2 x)
  then have "takeWhile (\<lambda>c. c \<noteq> sep) x = x" "dropWhile (\<lambda>c. c \<noteq> sep) x = []" by auto
  then have "drop 1 (dropWhile (\<lambda>c. c \<noteq> sep) x) = []" by (simp only: drop_Nil)
  then show ?case
    using 2 \<open>takeWhile (\<lambda>c. c \<noteq> sep) x = x\<close> by (subst getlines.simps) (simp add: getlines.simps [of sep "[]"])
next
  case (3 x y xs)
  have x: "takeWhile (\<lambda>c. c \<noteq> sep) (x @ sep # s) = x" "dropWhile (\<lambda>c. c \<noteq> sep) (x @ sep # s) = sep # s" for s
  proof -
    have n: "y \<noteq> sep" if "y \<in> set x" for y using 3(2) [of x] that by auto
    show "takeWhile (\<lambda>c. c \<noteq> sep) (x @ sep # s) = x" using n by (subst takeWhile_append2) auto
    show "dropWhile (\<lambda>c. c \<noteq> sep) (x @ sep # s) = sep # s" using n by (subst dropWhile_append2) auto
  qed
  show ?case using 3 by (subst getlines.simps) (simp add: x)
qed

lemma step_of_name: "step_of (step_name s) = Some s"
  by (cases s) (simp_all add: step_of_def)

lemma kind_of_name: "kind_of (kind_name k) = Some k"
  by (cases k) (simp_all add: kind_of_def)

lemma step_name_token: "step_name s \<noteq> [] \<and> CHR '','' \<notin> set (step_name s)"
  by (cases s) simp_all

lemma decodeLayout_layoutName:
  assumes "length layout = 4"
  shows "decodeLayout (layoutName layout) = Some layout"
proof -
  have "getlines CHR '','' (layoutName layout) = map step_name layout"
    unfolding layoutName_def by (rule getlines_join) (use step_name_token in auto)
  moreover obtain a b c d where "layout = [a, b, c, d]"
    using assms by (auto simp: length_Suc_conv numeral_eq_Suc)
  ultimately show ?thesis by (simp add: decodeLayout_def step_of_name)
qed

lemma decodeTags_tagName:
  assumes "length tags = 4"
  shows "decodeTags (tagName tags) = Some tags"
proof -
  obtain a b c d where t: "tags = [a, b, c, d]"
    using assms by (auto simp: length_Suc_conv numeral_eq_Suc)
  let ?toks = "[''0:'' @ kind_name a, ''1:'' @ kind_name b, ''2:'' @ kind_name c, ''3:'' @ kind_name d]"
  have digits: "nat_text 0 = ''0''" "nat_text (Suc 0) = ''1''" "nat_text (Suc (Suc 0)) = ''2''"
    "nat_text (Suc (Suc (Suc 0))) = ''3''"
    by code_simp+
  have name: "tagName tags = join '','' ?toks"
    by (simp add: tagName_def t upt_conv_Cons digits)
  have comma: "CHR '','' \<notin> set (kind_name k)" for k by (cases k) simp_all
  have "getlines CHR '','' (tagName tags) = ?toks"
    unfolding name by (rule getlines_join) (use comma in auto)
  moreover have len: "kind_name k \<noteq> []" for k by (cases k) simp_all
  ultimately show ?thesis
    by (simp add: decodeTags_def t kind_of_name numeral_eq_Suc Suc_le_eq)
qed

text \<open>
  The encoder of an alphabet payload: byte \<open>b\<close> under the rolling key becomes the two alphabet
  characters of the nibbles of \<open>b\<close> minus the key.
\<close>

fun encodeNibbles :: "string \<Rightarrow> nat \<Rightarrow> nat \<Rightarrow> u8 list \<Rightarrow> string" where
  "encodeNibbles alpha key rolling [] = []"
| "encodeNibbles alpha key rolling (b # bs) =
    (let n = unat (b - of_nat rolling) in
     alpha ! (n div 16) # alpha ! (n mod 16) # encodeNibbles alpha key ((rolling + key) mod 256) bs)"

lemma fold_alphabet:
  assumes "distinct xs" "n \<le> length xs" "k < length xs"
  shows "fold (\<lambda>i m. m(xs ! i \<mapsto> i)) [0..<n] Map.empty (xs ! k) = (if k < n then Some k else None)"
  using assms
proof (induction n)
  case 0
  then show ?case by simp
next
  case (Suc n)
  then show ?case by (auto simp: nth_eq_iff_index_eq)
qed

lemma alphabetOf_nth:
  assumes "distinct alpha" "length alpha = 16" "k < 16"
  shows "alphabetOf (alpha @ s) (alpha ! k) = Some k"
proof -
  have "fold (\<lambda>i m. m((alpha @ s) ! i \<mapsto> i)) [0..<16] Map.empty = fold (\<lambda>i m. m(alpha ! i \<mapsto> i)) [0..<16] Map.empty"
    using assms(2) by (intro fold_cong) (auto simp: nth_append)
  then show ?thesis
    unfolding alphabetOf_def using fold_alphabet [of alpha 16 k] assms by simp
qed

lemma decode_encode:
  assumes "distinct alpha" "length alpha = 16"
  shows "decodeNibbles (alphabetOf (alpha @ s)) key rolling (encodeNibbles alpha key rolling bs) = bs"
proof (induction bs arbitrary: rolling)
  case Nil
  then show ?case by simp
next
  case (Cons b bs)
  let ?n = "unat (b - of_nat rolling :: u8)"
  have n: "?n < 256" using unsigned_less [of "b - of_nat rolling :: u8"] by simp
  have "?n div 16 < 16" "?n mod 16 < 16" using n by auto
  then have "alphabetOf (alpha @ s) (alpha ! (?n div 16)) = Some (?n div 16)"
    "alphabetOf (alpha @ s) (alpha ! (?n mod 16)) = Some (?n mod 16)"
    using alphabetOf_nth [OF assms] by blast+
  moreover have "(of_nat (?n div 16 * 16 + ?n mod 16 + rolling) :: u8) = b"
    unfolding div_mult_mod_eq of_nat_add by simp
  ultimately show ?case using Cons.IH by (simp add: Let_def)
qed

lemma decodeAlphabetPayload_encode:
  assumes "distinct alpha" "length alpha = 16"
  shows "decodeAlphabetPayload (alpha @ encodeNibbles alpha key key bs) key = bs"
  using decode_encode [OF assms] assms(2) by (simp add: decodeAlphabetPayload_def)

text \<open>Quoting every byte by a three-digit decimal escape.\<close>

definition quoteByte :: "char \<Rightarrow> string" where
  "quoteByte c = (let n = of_char c :: nat in
     [CHR 0x5C, char_of (48 + n div 100), char_of (48 + n div 10 mod 10), char_of (48 + n mod 10)])"

lemma is_digit_char_of: "d < 10 \<Longrightarrow> is_digit (char_of (48 + d :: nat)) \<and> of_char (char_of (48 + d :: nat)) = 48 + d"
  by (simp add: is_digit_def of_char_of)

lemma readEscape_digits:
  assumes "n < 256"
  shows "readEscape (char_of (48 + n div 100 :: nat)) (char_of (48 + n div 10 mod 10 :: nat) # char_of (48 + n mod 10 :: nat) # s) =
    Some ([char_of n], s)"
proof -
  have d: "n div 10 mod 10 < 10" "n mod 10 < 10" by simp_all
  have hundreds: "n div 100 = 0 \<or> n div 100 = 1 \<or> n div 100 = 2" using assms by linarith
  have val: "(n div 100 * 10 + n div 10 mod 10) * 10 + n mod 10 = n"
  proof -
    have "n div 100 = n div 10 div 10" using div_mult2_eq [of n 10 10] by simp
    then show ?thesis by (simp only: div_mult_mod_eq)
  qed
  have "moreDigits 2 (n div 100) (char_of (48 + n div 10 mod 10) # char_of (48 + n mod 10) # s) = (n, s)"
    using is_digit_char_of [OF d(1)] is_digit_char_of [OF d(2)] val by (simp add: numeral_2_eq_2)
  moreover have c: "char_of (48 :: nat) = CHR ''0''" "char_of (49 :: nat) = CHR ''1''" "char_of (50 :: nat) = CHR ''2''"
    "char_of (13 :: nat) = CHR 0x0D" "char_of (10 :: nat) = CHR 0x0A"
    by code_simp+
  moreover have digits: "is_digit CHR ''0''" "is_digit CHR ''1''" "is_digit CHR ''2''" by code_simp+
  ultimately show ?thesis
    using hundreds assms by (elim disjE) (simp_all add: readEscape_def)
qed

lemma readQuoted_quoteByte:
  assumes "q \<noteq> CHR 0x5C"
  shows "readQuoted q v (quoteByte c @ s) = readQuoted q (v @ [c]) s"
proof -
  have "(of_char c :: nat) < 256" by (rule nat_of_char_less_256)
  then show ?thesis using assms readEscape_digits [of "of_char c" s] by (simp add: quoteByte_def Let_def)
qed

lemma readQuoted_quoted:
  assumes "q \<noteq> CHR 0x5C"
  shows "readQuoted q v (concat (map quoteByte w) @ q # s) = Some (v @ w, s)"
proof (induction w arbitrary: v)
  case (Cons c w)
  then show ?case using readQuoted_quoteByte [OF assms, of v c] by simp
qed simp

text \<open>The reader of the escapes that \<^verbatim>\<open>jsonEscape\<close> writes.\<close>

fun jsonUnescape :: "string \<Rightarrow> string option" where
  "jsonUnescape [] = Some []"
| "jsonUnescape [c] = (if c = CHR 0x5C then None else Some [c])"
| "jsonUnescape (c # e # s) =
    (if c \<noteq> CHR 0x5C then map_option (Cons c) (jsonUnescape (e # s))
     else if e = CHR 0x22 \<or> e = CHR 0x5C then map_option (Cons e) (jsonUnescape s)
     else if e = CHR ''n'' then map_option (Cons (char_of (10::nat))) (jsonUnescape s)
     else if e = CHR ''r'' then map_option (Cons (char_of (13::nat))) (jsonUnescape s)
     else if e = CHR ''t'' then map_option (Cons (char_of (9::nat))) (jsonUnescape s)
     else if e = CHR ''u'' then
       (case s of _ # _ # h # l # t \<Rightarrow>
          (case (hexValue h, hexValue l) of
             (Some x, Some y) \<Rightarrow> map_option (Cons (char_of (x * 16 + y))) (jsonUnescape (drop 4 s))
           | _ \<Rightarrow> None)
        | _ \<Rightarrow> None)
     else None)"

lemma jsonUnescape_plain: "c \<noteq> CHR 0x5C \<Longrightarrow> jsonUnescape (c # s) = map_option (Cons c) (jsonUnescape s)"
  by (cases s) auto

lemma hexValue_digit: "d < 16 \<Longrightarrow> hexValue (digit_char d) = Some d"
  by (auto simp: hexValue_def digit_char_def of_char_of Let_def)

lemma jsonUnescape_char: "jsonUnescape (jsonChar c @ s) = map_option (Cons c) (jsonUnescape s)"
proof -
  have chars: "of_char c = (10 :: nat) \<Longrightarrow> char_of (10 :: nat) = c" "of_char c = (13 :: nat) \<Longrightarrow> char_of (13 :: nat) = c"
    "of_char c = (9 :: nat) \<Longrightarrow> char_of (9 :: nat) = c"
    by (metis char_of_char)+
  have hex: "char_of (of_char c div 16 mod 16 * 16 + of_char c mod 16 :: nat) = c" if "of_char c < (32 :: nat)"
  proof -
    have "(of_char c :: nat) div 16 mod 16 = of_char c div 16" using that by simp
    then show ?thesis by (simp only: div_mult_mod_eq char_of_char)
  qed
  show ?thesis
    unfolding jsonChar_def Let_def
    using chars hex hexValue_digit [of "of_char c div 16 mod 16"] hexValue_digit [of "of_char c mod 16"]
    by (auto simp: jsonUnescape_plain numeral_2_eq_2)
qed

lemma jsonUnescape_escape: "jsonUnescape (jsonEscape s) = Some s"
  by (induction s) (simp_all add: jsonEscape_def jsonUnescape_char)

section \<open>Offsets\<close>

text \<open>Literals are found in the order of their offsets, all inside the source.\<close>

definition offsets_from :: "nat \<Rightarrow> nat \<Rightarrow> literal list \<Rightarrow> bool" where
  "offsets_from n k ls \<longleftrightarrow> sorted_wrt (\<lambda>a b. lit_offset a < lit_offset b) ls \<and>
    (\<forall>l\<in>set ls. n - k \<le> lit_offset l \<and> lit_offset l < n)"

lemma offsets_from_mono: "offsets_from n k ls \<Longrightarrow> k \<le> k' \<Longrightarrow> offsets_from n k' ls"
  by (fastforce simp: offsets_from_def)

lemma offsets_from_Cons:
  "offsets_from n k ls \<Longrightarrow> k < k' \<Longrightarrow> k' \<le> n \<Longrightarrow> offsets_from n k' (\<lparr>lit_value = v, lit_offset = n - k'\<rparr> # ls)"
  by (fastforce simp: offsets_from_def)

lemma stringsFrom_sorted: "length s \<le> n \<Longrightarrow> offsets_from n (length s) (stringsFrom n s)"
proof (induction n s rule: stringsFrom.induct)
  case (1 n)
  then show ?case by (simp add: offsets_from_def)
next
  case (2 n c s)
  let ?comment = "c = CHR ''-'' \<and> s \<noteq> [] \<and> hd s = CHR ''-''"
  let ?bracket = "c = CHR ''['' \<and> skipLongBracket (c # s) \<noteq> c # s"
  let ?quote = "c = CHR 0x27 \<or> c = CHR 0x22"
  consider (comment) "?comment" | (bracket) "\<not> ?comment" "?bracket" |
    (lit) "\<not> ?comment" "\<not> ?bracket" "?quote" | (other) "\<not> ?comment" "\<not> ?bracket" "\<not> ?quote" by blast
  then show ?case
  proof cases
    case comment
    let ?t = "if skipLongBracket (tl s) \<noteq> tl s then skipLongBracket (tl s) else skipLine (tl s)"
    have "length ?t \<le> length (tl s)" using skipLongBracket_length [of "tl s"] skipLine_length [of "tl s"] by auto
    then have t: "length ?t \<le> length (c # s)" by simp
    then have "offsets_from n (length ?t) (stringsFrom n ?t)" using 2(1) [OF comment refl refl] 2(5) by simp
    then show ?thesis using offsets_from_mono [OF _ t] comment by (simp add: Let_def)
  next
    case bracket
    let ?t = "skipLongBracket (c # s)"
    have t: "length ?t \<le> length (c # s)" using skipLongBracket_length [of "c # s"] bracket by auto
    then have "offsets_from n (length ?t) (stringsFrom n ?t)" using 2(2) [OF bracket] 2(5) by simp
    then show ?thesis using offsets_from_mono [OF _ t] bracket by auto
  next
    case lit
    show ?thesis
    proof (cases "readQuoted c [] s")
      case None
      then show ?thesis using lit by (auto simp: offsets_from_def)
    next
      case (Some r)
      obtain v t where r: "r = (v, t)" by fastforce
      have t: "length t < length (c # s)" using readQuoted_length [OF Some [unfolded r]] by simp
      then have "offsets_from n (length t) (stringsFrom n t)" using 2(3) [OF lit Some r [symmetric]] 2(5) by simp
      from offsets_from_Cons [OF this t 2(5)] show ?thesis using lit Some r by auto
    qed
  next
    case other
    then have "offsets_from n (length s) (stringsFrom n s)" using 2(4) [OF other] 2(5) by simp
    then show ?thesis using offsets_from_mono [of n "length s" _ "length (c # s)"] other by auto
  qed
qed

lemma stringsInSource_sorted:
  "sorted_wrt (\<lambda>a b. lit_offset a < lit_offset b) (stringsInSource source) \<and>
    (\<forall>l\<in>set (stringsInSource source). lit_offset l < length source)"
  using stringsFrom_sorted [of source "length source"] by (auto simp: stringsInSource_def offsets_from_def)

end
