(* ===== verification/Byte_Reader.thy ===== *)
theory Byte_Reader
  imports BV_Prelude
begin

unbundle bit_operations_syntax

text \<open>
  Cursors over a byte string. The program has several readers of the same shape (a view of the
  input, a position, a sticky error string); a reading operation is a function of the input and
  the position that fails with the reader's message or returns a value and the new position.
  Every failure makes the caller return, so the error string is empty whenever a caller looks at
  it after a successful operation.
  The collection \<open>scans_intros\<close> proves of a composed reader that it never moves backwards,
  never leaves the input, and depends on nothing but the bytes it moves over.
\<close>

named_theorems scans_intros "readers that stay inside the input"

type_synonym 'a reader = "u8 list \<Rightarrow> nat \<Rightarrow> string + 'a \<times> nat"

definition rreturn :: "'a \<Rightarrow> 'a reader" where
  "rreturn x = (\<lambda>bs pos. Inr (x, pos))"

definition rfail :: "string \<Rightarrow> 'a reader" where
  "rfail msg = (\<lambda>bs pos. Inl msg)"

definition rbind :: "'a reader \<Rightarrow> ('a \<Rightarrow> 'b reader) \<Rightarrow> 'b reader" where
  "rbind p f = (\<lambda>bs pos. andthen (p bs pos) (\<lambda>(x, pos'). f x bs pos'))"

definition rcheck :: "bool \<Rightarrow> string \<Rightarrow> unit reader" where
  "rcheck c msg = (if c then rreturn () else rfail msg)"

text \<open>\<^verbatim>\<open>offset()\<close> and \<^verbatim>\<open>remaining()\<close>.\<close>

definition roffset :: "nat reader" where
  "roffset = (\<lambda>bs pos. Inr (pos, pos))"

definition rremaining :: "nat reader" where
  "rremaining = (\<lambda>bs pos. Inr (length bs - pos, pos))"

text \<open>A counted \<^verbatim>\<open>for\<close> loop whose body reads and updates the loop's local state.\<close>

primrec rloop :: "nat \<Rightarrow> ('s \<Rightarrow> 's reader) \<Rightarrow> 's \<Rightarrow> 's reader" where
  "rloop 0 f s = rreturn s"
| "rloop (Suc n) f s = rbind (f s) (rloop n f)"

section \<open>Inversion\<close>

lemma rreturn_app [simp]: "rreturn x bs pos = Inr (x, pos)"
  by (simp add: rreturn_def)

lemma rfail_app [simp]: "rfail msg bs pos = Inl msg"
  by (simp add: rfail_def)

lemma rcheck_app [simp]: "rcheck c msg bs pos = (if c then Inr ((), pos) else Inl msg)"
  by (simp add: rcheck_def)

lemma roffset_app [simp]: "roffset bs pos = Inr (pos, pos)"
  by (simp add: roffset_def)

lemma rremaining_app [simp]: "rremaining bs pos = Inr (length bs - pos, pos)"
  by (simp add: rremaining_def)

lemma rbind_Inr [res_simps]:
  "rbind p f bs pos = Inr (y, q) \<longleftrightarrow> (\<exists>x pos'. p bs pos = Inr (x, pos') \<and> f x bs pos' = Inr (y, q))"
  by (auto simp: rbind_def andthen_def split: sum.splits)

lemma rbind_step: "p bs pos = Inr (x, pos') \<Longrightarrow> rbind p f bs pos = f x bs pos'"
  by (simp add: rbind_def)

lemma rbind_return_left: "rbind (rreturn x) f = f x"
  by (simp add: rbind_def fun_eq_iff)

lemma rbind_return_right: "rbind p rreturn = p"
  by (auto simp: rbind_def andthen_def fun_eq_iff split: sum.split)

lemma rbind_assoc: "rbind (rbind p f) g = rbind p (\<lambda>x. rbind (f x) g)"
  by (auto simp: rbind_def andthen_def fun_eq_iff split: sum.split)

section \<open>Readers stay inside the input\<close>

definition scans :: "'a reader \<Rightarrow> bool" where
  "scans p \<longleftrightarrow> (\<forall>bs pos x q. pos \<le> length bs \<longrightarrow> p bs pos = Inr (x, q) \<longrightarrow>
     pos \<le> q \<and> q \<le> length bs \<and>
     (\<forall>bs'. length bs' = length bs \<longrightarrow> (\<forall>i. pos \<le> i \<and> i < q \<longrightarrow> bs' ! i = bs ! i) \<longrightarrow>
        p bs' pos = Inr (x, q)))"

lemma scansD:
  "scans p \<Longrightarrow> p bs pos = Inr (x, q) \<Longrightarrow> pos \<le> length bs \<Longrightarrow> pos \<le> q \<and> q \<le> length bs"
  unfolding scans_def by blast

lemma scans_local:
  "scans p \<Longrightarrow> p bs pos = Inr (x, q) \<Longrightarrow> pos \<le> length bs \<Longrightarrow> length bs' = length bs \<Longrightarrow>
    (\<And>i. pos \<le> i \<Longrightarrow> i < q \<Longrightarrow> bs' ! i = bs ! i) \<Longrightarrow> p bs' pos = Inr (x, q)"
  unfolding scans_def by blast

lemma scans_return [scans_intros]: "scans (rreturn x)"
  by (simp add: scans_def)

lemma scans_fail [scans_intros]: "scans (rfail msg)"
  by (simp add: scans_def)

lemma scans_check [scans_intros]: "scans (rcheck c msg)"
  by (simp add: scans_def)

lemma scans_offset [scans_intros]: "scans roffset"
  by (simp add: scans_def)

lemma scans_remaining [scans_intros]: "scans rremaining"
  by (simp add: scans_def)

lemma scans_bind [scans_intros]:
  assumes p: "scans p" and f: "\<And>x. scans (f x)"
  shows "scans (rbind p f)"
  unfolding scans_def
proof (intro allI impI)
  fix bs pos x q
  assume le: "pos \<le> length bs" and "rbind p f bs pos = Inr (x, q)"
  then obtain y m where 1: "p bs pos = Inr (y, m)" and 2: "f y bs m = Inr (x, q)"
    by (auto simp: res_simps)
  have m: "pos \<le> m \<and> m \<le> length bs" by (rule scansD [OF p 1 le])
  then have q: "m \<le> q \<and> q \<le> length bs" using scansD [OF f 2] by blast
  have "rbind p f bs' pos = Inr (x, q)"
    if bs': "length bs' = length bs" "\<forall>i. pos \<le> i \<and> i < q \<longrightarrow> bs' ! i = bs ! i" for bs'
  proof -
    have "p bs' pos = Inr (y, m)" by (rule scans_local [OF p 1 le bs'(1)]) (use bs'(2) q in simp)
    moreover have "f y bs' m = Inr (x, q)" by (rule scans_local [OF f 2 _ bs'(1)]) (use bs'(2) m in simp_all)
    ultimately show ?thesis by (simp add: rbind_step)
  qed
  then show "pos \<le> q \<and> q \<le> length bs \<and>
      (\<forall>bs'. length bs' = length bs \<longrightarrow> (\<forall>i. pos \<le> i \<and> i < q \<longrightarrow> bs' ! i = bs ! i) \<longrightarrow>
        rbind p f bs' pos = Inr (x, q))" using m q by auto
qed

lemma scans_if [scans_intros]:
  "(c \<Longrightarrow> scans p) \<Longrightarrow> (\<not> c \<Longrightarrow> scans q) \<Longrightarrow> scans (if c then p else q)"
  by simp

lemma scans_loop [scans_intros]: "(\<And>s. scans (f s)) \<Longrightarrow> scans (rloop n f s)"
  by (induction n arbitrary: s) (auto intro!: scans_intros)

text \<open>A loop keeps what each turn keeps.\<close>

lemma rloop_invariant:
  assumes "rloop n f s bs pos = Inr (t, q)" "I 0 s pos"
    and "\<And>k s pos t q. k < n \<Longrightarrow> I k s pos \<Longrightarrow> f s bs pos = Inr (t, q) \<Longrightarrow> I (Suc k) t q"
  shows "I n t q"
  using assms
proof (induction n arbitrary: s pos I)
  case 0
  then show ?case by simp
next
  case (Suc n)
  from Suc.prems(1) obtain s' p' where 1: "f s bs pos = Inr (s', p')" and 2: "rloop n f s' bs p' = Inr (t, q)"
    by (auto simp: res_simps)
  show ?case
    using Suc.IH [of s' p' "\<lambda>k. I (Suc k)", OF 2] Suc.prems(2,3) 1 by blast
qed

section \<open>What a successful run establishes\<close>

text \<open>
  \<open>gives p bs pos Q\<close>: if the reader succeeds from \<open>pos\<close>, its value and final position satisfy \<open>Q\<close>.
  The rules walk through a chain of operations and collect the bounds on the positions.
\<close>

definition gives :: "'a reader \<Rightarrow> u8 list \<Rightarrow> nat \<Rightarrow> ('a \<Rightarrow> nat \<Rightarrow> bool) \<Rightarrow> bool" where
  "gives p bs pos Q \<longleftrightarrow> (\<forall>x q. p bs pos = Inr (x, q) \<longrightarrow> Q x q)"

lemma givesD: "gives p bs pos Q \<Longrightarrow> p bs pos = Inr (x, q) \<Longrightarrow> Q x q"
  by (simp add: gives_def)

lemma gives_return: "Q x pos \<Longrightarrow> gives (rreturn x) bs pos Q"
  by (simp add: gives_def)

lemma gives_check: "(c \<Longrightarrow> gives (f ()) bs pos Q) \<Longrightarrow> gives (rbind (rcheck c m) f) bs pos Q"
  by (auto simp: gives_def rbind_def)

lemma gives_offset: "gives (f pos) bs pos Q \<Longrightarrow> gives (rbind roffset f) bs pos Q"
  by (auto simp: gives_def rbind_def)

lemma gives_remaining: "gives (f (length bs - pos)) bs pos Q \<Longrightarrow> gives (rbind rremaining f) bs pos Q"
  by (auto simp: gives_def rbind_def)

lemma gives_bind:
  assumes "scans p" "pos \<le> length bs"
    "\<And>x pos'. pos \<le> pos' \<Longrightarrow> pos' \<le> length bs \<Longrightarrow> p bs pos = Inr (x, pos') \<Longrightarrow> gives (f x) bs pos' Q"
  shows "gives (rbind p f) bs pos Q"
  unfolding gives_def
proof (intro allI impI)
  fix x q assume "rbind p f bs pos = Inr (x, q)"
  then obtain y pos' where p: "p bs pos = Inr (y, pos')" and f: "f y bs pos' = Inr (x, q)"
    by (auto simp: res_simps)
  show "Q x q" using scansD [OF assms(1) p assms(2)] assms(3) p f by (auto simp: gives_def)
qed

end
