(* ===== verification/MoonSec_Tree.thy ===== *)
theory MoonSec_Tree
  imports MoonSec_Text Byte_Reader
begin

unbundle bit_operations_syntax

text \<open>
  The two readers of a serialized MoonSec prototype tree in \<^verbatim>\<open>byteveil_decompiler/MoonSec.cpp\<close>:
  \<^verbatim>\<open>SerializedReader\<close>, which only counts, and \<^verbatim>\<open>VirtualTreeReader\<close>, which builds the tree. Both
  fail without a message. The main lemma is that whatever the first accepts, the second decodes,
  with the counts of the tree equal to the counted ones.
\<close>

definition kMaxPrototypeDepth :: nat where "kMaxPrototypeDepth = 128"
definition kMaxFunctions :: nat where "kMaxFunctions = 100000"
definition kMaxInstructions :: nat where "kMaxInstructions = 4000000"
definition kMaxConstants :: nat where "kMaxConstants = 4000000"

section \<open>Primitive reads\<close>

definition need :: "nat \<Rightarrow> unit reader" where
  "need count bs pos = (if count \<le> length bs - pos then Inr ((), pos) else Inl [])"

definition readByte :: "u8 reader" where
  "readByte = rbind (need 1) (\<lambda>_ bs pos. Inr (bs ! pos, pos + 1))"

definition readU16 :: "u16 reader" where
  "readU16 = rbind (need 2) (\<lambda>_ bs pos.
    Inr (ucast (bs ! pos) OR push_bit 8 (ucast (bs ! (pos + 1))), pos + 2))"

definition readU32 :: "u32 reader" where
  "readU32 = rbind (need 4) (\<lambda>_ bs pos.
    Inr (ucast (bs ! pos) OR push_bit 8 (ucast (bs ! (pos + 1))) OR push_bit 16 (ucast (bs ! (pos + 2))) OR
      push_bit 24 (ucast (bs ! (pos + 3))), pos + 4))"

definition readI16 :: "int reader" where
  "readI16 = rbind readU16 (\<lambda>raw. rreturn (sint raw))"

definition readI32 :: "int reader" where
  "readI32 = rbind readU32 (\<lambda>raw. rreturn (sint raw))"

definition readBytes :: "nat \<Rightarrow> u8 list reader" where
  "readBytes count = rbind (need count) (\<lambda>_ bs pos. Inr (take count (drop pos bs), pos + count))"

definition skipBytes :: "nat \<Rightarrow> unit reader" where
  "skipBytes count = rbind (need count) (\<lambda>_ bs pos. Inr ((), pos + count))"

definition dataSize :: "nat reader" where
  "dataSize = (\<lambda>bs pos. Inr (length bs, pos))"

text \<open>A count that must not exceed what is left of a limit, nor the bytes that are left.\<close>

definition limitedCount :: "nat \<Rightarrow> nat reader" where
  "limitedCount left =
    rbind readU32 (\<lambda>count. rbind rremaining (\<lambda>rest.
    rbind (rcheck (\<not> (unat count > left \<or> unat count > rest)) []) (\<lambda>_. rreturn (unat count))))"

text \<open>The entry of the tag table for a type flag; an unrecognized flag is nil.\<close>

definition kindOf :: "constant_kind list \<Rightarrow> u8 \<Rightarrow> constant_kind" where
  "kindOf tags tag = (if unat tag < length tags then tags ! unat tag else KUnknown)"

definition stringLength :: "nat reader" where
  "stringLength =
    rbind readU32 (\<lambda>len. rbind rremaining (\<lambda>rest.
    rbind (rcheck (\<not> (unat len > rest \<or> unat len > kMaxPayloadBytes)) []) (\<lambda>_. rreturn (unat len))))"

text \<open>The count of children is checked against a fifth of the input, not against what is left of it.\<close>

definition childCount :: "nat \<Rightarrow> nat reader" where
  "childCount left =
    rbind readU32 (\<lambda>count. rbind dataSize (\<lambda>size.
    rbind (rcheck (\<not> (unat count > left \<or> unat count > size div 5)) []) (\<lambda>_. rreturn (unat count))))"

section \<open>The steps of a function\<close>

text \<open>Both readers run the four steps of a function in the order of the layout.\<close>

primrec runSteps :: "('s \<Rightarrow> step \<Rightarrow> 's reader) \<Rightarrow> step list \<Rightarrow> 's \<Rightarrow> 's reader" where
  "runSteps f [] s = rreturn s"
| "runSteps f (st # sts) s = rbind (f s st) (runSteps f sts)"

section \<open>SerializedReader\<close>

record metrics =
  m_functions :: nat
  m_instructions :: nat
  m_constants :: nat
  m_strings :: nat
  m_nonNil :: nat

definition countConstant :: "constant_kind list \<Rightarrow> metrics \<Rightarrow> metrics reader" where
  "countConstant tags m =
    rbind readByte (\<lambda>tag.
      case kindOf tags tag of
        KUnknown \<Rightarrow> rreturn m
      | KBoolean \<Rightarrow> rbind (skipBytes 1) (\<lambda>_. rreturn (m\<lparr>m_nonNil := m_nonNil m + 1\<rparr>))
      | KNumber \<Rightarrow> rbind (skipBytes 8) (\<lambda>_. rreturn (m\<lparr>m_nonNil := m_nonNil m + 1\<rparr>))
      | KString \<Rightarrow> rbind stringLength (\<lambda>len. rbind (skipBytes len) (\<lambda>_.
          rreturn (m\<lparr>m_nonNil := m_nonNil m + 1, m_strings := m_strings m + 1\<rparr>))))"

definition countConstants :: "constant_kind list \<Rightarrow> metrics \<Rightarrow> metrics reader" where
  "countConstants tags m =
    rbind (limitedCount (kMaxConstants - m_constants m)) (\<lambda>count.
      rloop count (countConstant tags) (m\<lparr>m_constants := m_constants m + count\<rparr>))"

definition countInstruction :: "metrics \<Rightarrow> metrics reader" where
  "countInstruction m =
    rbind readByte (\<lambda>descriptor.
      if descriptor AND 1 \<noteq> 0 then rreturn m
      else rbind readU16 (\<lambda>_. rbind readU16 (\<lambda>_.
        let form = drop_bit 1 descriptor AND 3 in
        rbind (if form = 0 then rbind readU16 (\<lambda>_. rbind readU16 (\<lambda>_. rreturn ()))
          else if form = 1 \<or> form = 2 then rbind readU32 (\<lambda>_. rreturn ())
          else rbind readU32 (\<lambda>_. rbind readU16 (\<lambda>_. rreturn ()))) (\<lambda>_.
        rreturn (m\<lparr>m_instructions := m_instructions m + 1\<rparr>)))))"

definition countInstructions :: "metrics \<Rightarrow> metrics reader" where
  "countInstructions m =
    rbind (limitedCount (kMaxInstructions - m_instructions m)) (\<lambda>count. rloop count countInstruction m)"

text \<open>\<^verbatim>\<open>parseFunctions\<close>; \<open>child\<close> is \<^verbatim>\<open>parseFunction\<close> one level deeper.\<close>

definition countFunctions :: "(metrics \<Rightarrow> metrics reader) \<Rightarrow> metrics \<Rightarrow> metrics reader" where
  "countFunctions child m =
    rbind (childCount (kMaxFunctions - m_functions m)) (\<lambda>count. rloop count child m)"

definition countStep ::
  "constant_kind list \<Rightarrow> (metrics \<Rightarrow> metrics reader) \<Rightarrow> metrics \<Rightarrow> step \<Rightarrow> metrics reader" where
  "countStep tags child m st =
    (case st of
       Constants \<Rightarrow> countConstants tags m
     | Instructions \<Rightarrow> countInstructions m
     | Functions \<Rightarrow> countFunctions child m
     | Parameters \<Rightarrow> rbind readByte (\<lambda>_. rreturn m))"

function countFunction :: "step list \<Rightarrow> constant_kind list \<Rightarrow> nat \<Rightarrow> metrics \<Rightarrow> metrics reader" where
  "countFunction layout tags depth m =
    (if depth > kMaxPrototypeDepth \<or> m_functions m \<ge> kMaxFunctions then rfail []
     else runSteps (countStep tags (\<lambda>m'. countFunction layout tags (depth + 1) m')) layout
       (m\<lparr>m_functions := m_functions m + 1\<rparr>))"
  by pat_completeness auto
termination
  by (relation "measure (\<lambda>(layout, tags, depth, m). kMaxPrototypeDepth + 1 - depth)") auto

declare countFunction.simps [simp del]

definition noMetrics :: metrics where
  "noMetrics = \<lparr>m_functions = 0, m_instructions = 0, m_constants = 0, m_strings = 0, m_nonNil = 0\<rparr>"

definition serialized_parse :: "step list \<Rightarrow> constant_kind list \<Rightarrow> u8 list \<Rightarrow> metrics option" where
  "serialized_parse layout tags bytes =
    (case countFunction layout tags 0 noMetrics bytes 0 of
       Inl _ \<Rightarrow> None
     | Inr (m, position) \<Rightarrow>
         (if position \<noteq> length bytes \<or> m_functions m = 0 \<or> m_instructions m = 0 then None else Some m))"

section \<open>VirtualTreeReader\<close>

record virtual_constant =
  vc_kind :: constant_kind
  vc_boolean :: bool
  vc_bytes :: "u8 list"

record virtual_instruction =
  vi_pc :: nat
  vi_descriptor :: u8
  vi_discarded :: bool
  vi_opNum :: int
  vi_a :: int
  vi_b :: int
  vi_c :: int
  vi_isKA :: bool
  vi_isKB :: bool
  vi_isKC :: bool

datatype virtual_function = VFunction
  (vf_parameters: nat)
  (vf_constants: "virtual_constant list")
  (vf_instructions: "virtual_instruction list")
  (vf_children: "virtual_function list")

text \<open>The counters of the reader.\<close>

record tree_counts =
  t_functions :: nat
  t_instructions :: nat
  t_constants :: nat

text \<open>The \<^verbatim>\<open>switch\<close> on the kind of a constant.\<close>

definition readConstantValue :: "constant_kind \<Rightarrow> virtual_constant reader" where
  "readConstantValue kind =
    (let blank = \<lparr>vc_kind = kind, vc_boolean = False, vc_bytes = []\<rparr> in
     case kind of
       KUnknown \<Rightarrow> rreturn blank
     | KBoolean \<Rightarrow> rbind readByte (\<lambda>v. rreturn (blank\<lparr>vc_boolean := v \<noteq> 0\<rparr>))
     | KNumber \<Rightarrow> rbind (readBytes 8) (\<lambda>bs. rreturn (blank\<lparr>vc_bytes := bs\<rparr>))
     | KString \<Rightarrow> rbind stringLength (\<lambda>len. rbind (readBytes len) (\<lambda>bs. rreturn (blank\<lparr>vc_bytes := bs\<rparr>))))"

definition readConstant :: "constant_kind list \<Rightarrow> virtual_constant list \<Rightarrow> virtual_constant list reader" where
  "readConstant tags out =
    rbind readByte (\<lambda>tag. rbind (readConstantValue (kindOf tags tag)) (\<lambda>c. rreturn (out @ [c])))"

text \<open>The \<^verbatim>\<open>switch\<close> on the operand form: \<^verbatim>\<open>b\<close> and \<^verbatim>\<open>c\<close>.\<close>

definition readOperands :: "u8 \<Rightarrow> (int \<times> int) reader" where
  "readOperands form =
    (if form = 0 then rbind readI16 (\<lambda>b. rbind readI16 (\<lambda>c. rreturn (b, c)))
     else if form = 1 then rbind readI32 (\<lambda>b. rreturn (b, 0))
     else if form = 2 then rbind readI32 (\<lambda>b. rreturn (b - 65536, 0))
     else rbind readI32 (\<lambda>b. rbind readI16 (\<lambda>c. rreturn (b - 65536, c))))"

definition readInstruction ::
  "tree_counts \<times> virtual_instruction list \<Rightarrow> (tree_counts \<times> virtual_instruction list) reader" where
  "readInstruction s =
    (let counts = fst s; out = snd s in
     rbind readByte (\<lambda>descriptor.
      let blank = \<lparr>vi_pc = length out, vi_descriptor = descriptor, vi_discarded = False, vi_opNum = 0, vi_a = 0,
        vi_b = 0, vi_c = 0, vi_isKA = False, vi_isKB = False, vi_isKC = False\<rparr> in
      if descriptor AND 1 \<noteq> 0 then rreturn (counts, out @ [blank\<lparr>vi_discarded := True\<rparr>])
      else rbind readI16 (\<lambda>opNum. rbind readI16 (\<lambda>a.
        rbind (readOperands (drop_bit 1 descriptor AND 3)) (\<lambda>bc.
        rreturn (counts\<lparr>t_instructions := t_instructions counts + 1\<rparr>,
          out @ [blank\<lparr>vi_opNum := opNum, vi_a := a, vi_b := fst bc, vi_c := snd bc,
            vi_isKA := (descriptor AND 8 \<noteq> 0), vi_isKB := (descriptor AND 16 \<noteq> 0),
            vi_isKC := (descriptor AND 32 \<noteq> 0)\<rparr>]))))))"

definition emptyFunction :: virtual_function where
  "emptyFunction = VFunction 0 [] [] []"

text \<open>One turn of the loop over the children.\<close>

definition readChild :: "(tree_counts \<Rightarrow> (tree_counts \<times> virtual_function) reader) \<Rightarrow>
  tree_counts \<times> virtual_function list \<Rightarrow> (tree_counts \<times> virtual_function list) reader" where
  "readChild child s = rbind (child (fst s)) (\<lambda>r. rreturn (fst r, snd s @ [snd r]))"

definition readStep ::
  "constant_kind list \<Rightarrow> (tree_counts \<Rightarrow> (tree_counts \<times> virtual_function) reader) \<Rightarrow>
   tree_counts \<times> virtual_function \<Rightarrow> step \<Rightarrow> (tree_counts \<times> virtual_function) reader" where
  "readStep tags child s st =
    (let counts = fst s; p = vf_parameters (snd s); ks = vf_constants (snd s); is = vf_instructions (snd s);
         cs = vf_children (snd s) in
     case st of
       Constants \<Rightarrow>
         rbind (limitedCount (kMaxConstants - t_constants counts)) (\<lambda>count.
         rbind (rloop count (readConstant tags) []) (\<lambda>ks'.
         rreturn (counts\<lparr>t_constants := t_constants counts + count\<rparr>, VFunction p ks' is cs)))
     | Instructions \<Rightarrow>
         rbind (limitedCount (kMaxInstructions - t_instructions counts)) (\<lambda>count.
         rbind (rloop count readInstruction (counts, [])) (\<lambda>r.
         rreturn (fst r, VFunction p ks (snd r) cs)))
     | Functions \<Rightarrow>
         rbind (childCount (kMaxFunctions - t_functions counts)) (\<lambda>count.
         rbind (rloop count (readChild child) (counts, [])) (\<lambda>r.
         rreturn (fst r, VFunction p ks is (snd r))))
     | Parameters \<Rightarrow> rbind readByte (\<lambda>v. rreturn (counts, VFunction (unat v) ks is cs)))"

function readFunction ::
  "step list \<Rightarrow> constant_kind list \<Rightarrow> nat \<Rightarrow> tree_counts \<Rightarrow> (tree_counts \<times> virtual_function) reader" where
  "readFunction layout tags depth c =
    (if depth > kMaxPrototypeDepth \<or> t_functions c \<ge> kMaxFunctions then rfail []
     else runSteps (readStep tags (\<lambda>c'. readFunction layout tags (depth + 1) c')) layout
       (c\<lparr>t_functions := t_functions c + 1\<rparr>, emptyFunction))"
  by pat_completeness auto
termination
  by (relation "measure (\<lambda>(layout, tags, depth, c). kMaxPrototypeDepth + 1 - depth)") auto

declare readFunction.simps [simp del]

definition noCounts :: tree_counts where
  "noCounts = \<lparr>t_functions = 0, t_instructions = 0, t_constants = 0\<rparr>"

definition tree_parse :: "step list \<Rightarrow> constant_kind list \<Rightarrow> u8 list \<Rightarrow> virtual_function option" where
  "tree_parse layout tags bytes =
    (case readFunction layout tags 0 noCounts bytes 0 of
       Inl _ \<Rightarrow> None
     | Inr (r, position) \<Rightarrow> (if position = length bytes then Some (snd r) else None))"

section \<open>The two readers agree\<close>

text \<open>
  \<open>mirrors R p q\<close>: on every input both readers fail, or both succeed at the same position with
  values related by \<open>R\<close>.
\<close>

definition mirrors :: "('a \<Rightarrow> 'b \<Rightarrow> bool) \<Rightarrow> 'a reader \<Rightarrow> 'b reader \<Rightarrow> bool" where
  "mirrors R p q \<longleftrightarrow> (\<forall>bs pos. rel_sum (=) (rel_prod R (=)) (p bs pos) (q bs pos))"

named_theorems mirrors_intros "readers that agree"

lemma mirrors_app: "mirrors R p q \<Longrightarrow> rel_sum (=) (rel_prod R (=)) (p bs pos) (q bs pos)"
  by (simp add: mirrors_def)

lemma mirrors_refl: "mirrors (=) p p"
  by (simp add: mirrors_def prod.rel_eq sum.rel_eq)

lemma mirrors_return [mirrors_intros]: "R x y \<Longrightarrow> mirrors R (rreturn x) (rreturn y)"
  by (simp add: mirrors_def)

lemma mirrors_fail: "mirrors R (rfail m) (rfail m)"
  by (simp add: mirrors_def)

lemma mirrors_bind:
  assumes "mirrors S p q" "\<And>x y. S x y \<Longrightarrow> mirrors R (f x) (g y)"
  shows "mirrors R (rbind p f) (rbind q g)"
  unfolding mirrors_def
proof (intro allI)
  fix bs pos
  show "rel_sum (=) (rel_prod R (=)) (rbind p f bs pos) (rbind q g bs pos)"
    using mirrors_app [OF assms(1), of bs pos] mirrors_app [OF assms(2)]
    by (auto simp: rbind_def andthen_def rel_prod_sel split: sum.splits elim!: rel_sum.cases)
qed

lemma mirrors_bind_same:
  "(\<And>x. mirrors R (f x) (g x)) \<Longrightarrow> mirrors R (rbind p f) (rbind p g)"
  by (rule mirrors_bind [OF mirrors_refl]) simp

lemma mirrors_if:
  "(c \<Longrightarrow> mirrors R p q) \<Longrightarrow> (\<not> c \<Longrightarrow> mirrors R p' q') \<Longrightarrow> mirrors R (if c then p else p') (if c then q else q')"
  by simp

lemma mirrors_weaken:
  assumes "mirrors S p q" "\<And>x y. S x y \<Longrightarrow> R x y"
  shows "mirrors R p q"
  unfolding mirrors_def
proof (intro allI)
  fix bs pos
  show "rel_sum (=) (rel_prod R (=)) (p bs pos) (q bs pos)"
    using mirrors_app [OF assms(1), of bs pos] assms(2)
    by (cases "p bs pos"; cases "q bs pos") (auto simp: rel_prod_sel)
qed

text \<open>A loop of related turns; \<open>R k\<close> relates the states after \<open>k\<close> turns.\<close>

lemma mirrors_loop:
  "(\<And>k x y. R k x y \<Longrightarrow> mirrors (R (Suc k)) (f x) (g y)) \<Longrightarrow> R k x y \<Longrightarrow>
    mirrors (R (k + n)) (rloop n f x) (rloop n g y)"
proof (induction n arbitrary: k x y)
  case 0
  then show ?case by (simp del: rreturn_app add: mirrors_return)
next
  case (Suc n)
  have "mirrors (R (Suc k + n)) (rbind (f x) (rloop n f)) (rbind (g y) (rloop n g))"
    by (rule mirrors_bind [OF Suc.prems(1) [OF Suc.prems(2)]]) (rule Suc.IH [OF Suc.prems(1)])
  then show ?case by simp
qed

lemma mirrors_steps:
  assumes "\<And>st done x y. st \<notin> done \<Longrightarrow> R done x y \<Longrightarrow> mirrors (R (insert st done)) (f x st) (g y st)"
  shows "distinct sts \<Longrightarrow> set sts \<inter> done = {} \<Longrightarrow> R done x y \<Longrightarrow>
    mirrors (R (set sts \<union> done)) (runSteps f sts x) (runSteps g sts y)"
proof (induction sts arbitrary: "done" x y)
  case Nil
  then show ?case by (simp del: rreturn_app add: mirrors_return)
next
  case (Cons st sts)
  have "mirrors (R (set sts \<union> insert st done)) (rbind (f x st) (runSteps f sts)) (rbind (g y st) (runSteps g sts))"
  proof (rule mirrors_bind)
    show "mirrors (R (insert st done)) (f x st) (g y st)" using assms Cons.prems by simp
    show "mirrors (R (set sts \<union> insert st done)) (runSteps f sts x') (runSteps g sts y')"
      if "R (insert st done) x' y'" for x' y'
      by (rule Cons.IH) (use Cons.prems that in auto)
  qed
  then show ?case by simp
qed

lemma need_cases: "need n bs pos = Inr ((), pos) \<or> need n bs pos = Inl []"
  by (simp add: need_def)

lemma mirrors_skip_byte: "mirrors (\<lambda>_ _. True) (skipBytes 1) readByte"
  unfolding skipBytes_def readByte_def
  by (rule mirrors_bind_same) (simp add: mirrors_def)

lemma mirrors_skip_bytes: "mirrors (\<lambda>_ _. True) (skipBytes n) (readBytes n)"
  unfolding skipBytes_def readBytes_def
  by (rule mirrors_bind_same) (simp add: mirrors_def)

lemma mirrors_16: "mirrors (\<lambda>_ _. True) readU16 readI16"
  unfolding readI16_def mirrors_def rbind_def andthen_def by (simp split: sum.split)

lemma mirrors_32: "mirrors (\<lambda>_ _. True) readU32 readI32"
  unfolding readI32_def mirrors_def rbind_def andthen_def by (simp split: sum.split)

section \<open>What the counts of a tree are\<close>

primrec tally :: "(virtual_constant list \<Rightarrow> virtual_instruction list \<Rightarrow> nat) \<Rightarrow> virtual_function \<Rightarrow> nat" where
  "tally w (VFunction p ks is cs) = w ks is + sum_list (map (tally w) cs)"

definition countIf :: "('a \<Rightarrow> bool) \<Rightarrow> 'a list \<Rightarrow> nat" where
  "countIf P xs = length (filter P xs)"

definition metrics_of :: "virtual_function \<Rightarrow> metrics" where
  "metrics_of f = \<lparr>
     m_functions = tally (\<lambda>ks is. 1) f,
     m_instructions = tally (\<lambda>ks is. countIf (\<lambda>i. \<not> vi_discarded i) is) f,
     m_constants = tally (\<lambda>ks is. length ks) f,
     m_strings = tally (\<lambda>ks is. countIf (\<lambda>c. vc_kind c = KString) ks) f,
     m_nonNil = tally (\<lambda>ks is. countIf (\<lambda>c. vc_kind c \<noteq> KUnknown) ks) f\<rparr>"

definition madd :: "metrics \<Rightarrow> metrics \<Rightarrow> metrics" where
  "madd a b = \<lparr>
     m_functions = m_functions a + m_functions b,
     m_instructions = m_instructions a + m_instructions b,
     m_constants = m_constants a + m_constants b,
     m_strings = m_strings a + m_strings b,
     m_nonNil = m_nonNil a + m_nonNil b\<rparr>"

definition counts_match :: "tree_counts \<Rightarrow> metrics \<Rightarrow> bool" where
  "counts_match c m \<longleftrightarrow>
    t_functions c = m_functions m \<and> t_instructions c = m_instructions m \<and> t_constants c = m_constants m"

lemma countIf_simps [simp]:
  "countIf P [] = 0" "countIf P (xs @ [x]) = countIf P xs + (if P x then 1 else 0)"
  by (simp_all add: countIf_def)

lemma madd_noMetrics [simp]: "madd noMetrics m = m"
  by (simp add: madd_def noMetrics_def)

section \<open>The simulation\<close>

definition constants_rel :: "metrics \<Rightarrow> nat \<Rightarrow> metrics \<Rightarrow> virtual_constant list \<Rightarrow> bool" where
  "constants_rel base k m ks \<longleftrightarrow> length ks = k \<and>
    m = base\<lparr>m_strings := m_strings base + countIf (\<lambda>c. vc_kind c = KString) ks,
      m_nonNil := m_nonNil base + countIf (\<lambda>c. vc_kind c \<noteq> KUnknown) ks\<rparr>"

lemma constant_mirrors:
  assumes "constants_rel base k m ks"
  shows "mirrors (constants_rel base (Suc k)) (countConstant tags m) (readConstant tags ks)"
  unfolding countConstant_def readConstant_def
proof (rule mirrors_bind_same)
  fix tag
  show "mirrors (constants_rel base (Suc k))
    (case kindOf tags tag of KUnknown \<Rightarrow> rreturn m
      | KBoolean \<Rightarrow> rbind (skipBytes 1) (\<lambda>_. rreturn (m\<lparr>m_nonNil := m_nonNil m + 1\<rparr>))
      | KNumber \<Rightarrow> rbind (skipBytes 8) (\<lambda>_. rreturn (m\<lparr>m_nonNil := m_nonNil m + 1\<rparr>))
      | KString \<Rightarrow> rbind stringLength (\<lambda>len. rbind (skipBytes len) (\<lambda>_.
          rreturn (m\<lparr>m_nonNil := m_nonNil m + 1, m_strings := m_strings m + 1\<rparr>))))
    (rbind (readConstantValue (kindOf tags tag)) (\<lambda>c. rreturn (ks @ [c])))"
  proof (cases "kindOf tags tag")
    case KUnknown
    show ?thesis unfolding KUnknown readConstantValue_def Let_def constant_kind.case rbind_return_left
      by (rule mirrors_return) (use assms in \<open>simp add: constants_rel_def\<close>)
  next
    case KBoolean
    show ?thesis unfolding KBoolean readConstantValue_def Let_def constant_kind.case rbind_assoc rbind_return_left
      by (rule mirrors_bind [OF mirrors_skip_byte], rule mirrors_return)
        (use assms in \<open>auto simp: constants_rel_def\<close>)
  next
    case KNumber
    show ?thesis unfolding KNumber readConstantValue_def Let_def constant_kind.case rbind_assoc rbind_return_left
      by (rule mirrors_bind [OF mirrors_skip_bytes], rule mirrors_return)
        (use assms in \<open>auto simp: constants_rel_def\<close>)
  next
    case KString
    show ?thesis unfolding KString readConstantValue_def Let_def constant_kind.case rbind_assoc rbind_return_left
      by (rule mirrors_bind_same, rule mirrors_bind [OF mirrors_skip_bytes], rule mirrors_return)
        (use assms in \<open>auto simp: constants_rel_def\<close>)
  qed
qed

definition instructions_rel ::
  "metrics \<Rightarrow> nat \<Rightarrow> metrics \<Rightarrow> tree_counts \<times> virtual_instruction list \<Rightarrow> bool" where
  "instructions_rel base k m s \<longleftrightarrow> counts_match (fst s) m \<and>
    m = base\<lparr>m_instructions := m_instructions base + countIf (\<lambda>i. \<not> vi_discarded i) (snd s)\<rparr>"

lemma instruction_mirrors:
  assumes "instructions_rel base k m s"
  shows "mirrors (instructions_rel base (Suc k)) (countInstruction m) (readInstruction s)"
  unfolding countInstruction_def readInstruction_def readOperands_def Let_def
  apply (rule mirrors_bind_same)
  apply (rule mirrors_if)
   apply (rule mirrors_return)
  subgoal using assms by (simp add: instructions_rel_def counts_match_def)
  apply (rule mirrors_bind [OF mirrors_16], rule mirrors_bind [OF mirrors_16])
  apply (rule mirrors_bind [where S = "\<lambda>_ _. True"])
  subgoal by (auto intro!: mirrors_bind [OF mirrors_16] mirrors_bind [OF mirrors_32] mirrors_return)
  apply (rule mirrors_return)
  subgoal using assms by (simp add: instructions_rel_def counts_match_def)
  done

text \<open>The counting reader at a function against the building one: the base is what was counted before.\<close>

definition function_rel ::
  "metrics \<Rightarrow> metrics \<Rightarrow> tree_counts \<times> virtual_function \<Rightarrow> bool" where
  "function_rel base m r \<longleftrightarrow> counts_match (fst r) m \<and> m = madd base (metrics_of (snd r))"

definition children_rel ::
  "metrics \<Rightarrow> nat \<Rightarrow> metrics \<Rightarrow> tree_counts \<times> virtual_function list \<Rightarrow> bool" where
  "children_rel base k m s \<longleftrightarrow> counts_match (fst s) m \<and>
    madd base (metrics_of (VFunction 0 [] [] (snd s))) = m\<lparr>m_functions := m_functions m + 1\<rparr>"

definition steps_rel ::
  "metrics \<Rightarrow> step set \<Rightarrow> metrics \<Rightarrow> tree_counts \<times> virtual_function \<Rightarrow> bool" where
  "steps_rel base done m r \<longleftrightarrow> function_rel base m r \<and>
    (Constants \<notin> done \<longrightarrow> vf_constants (snd r) = []) \<and>
    (Instructions \<notin> done \<longrightarrow> vf_instructions (snd r) = []) \<and>
    (Functions \<notin> done \<longrightarrow> vf_children (snd r) = [])"

lemma child_mirrors:
  assumes child: "\<And>m c. counts_match c m \<Longrightarrow> mirrors (function_rel m) (child m) (child' c)"
    and s: "children_rel base k m s"
  shows "mirrors (children_rel base (Suc k)) (child m) (readChild child' s)"
proof -
  have "mirrors (children_rel base (Suc k)) (rbind (child m) rreturn) (readChild child' s)"
    unfolding readChild_def
  proof (rule mirrors_bind [OF child [of "fst s"]])
    show "counts_match (fst s) m" using s by (simp add: children_rel_def)
    fix m' r assume "function_rel m m' r"
    then show "mirrors (children_rel base (Suc k)) (rreturn m') (rreturn (fst r, snd s @ [snd r]))"
      by (intro mirrors_return) (use s in \<open>cases m, auto simp: children_rel_def function_rel_def madd_def metrics_of_def\<close>)
  qed
  then show ?thesis by (simp only: rbind_return_right)
qed

lemma step_mirrors:
  assumes child: "\<And>m c. counts_match c m \<Longrightarrow> mirrors (function_rel m) (child m) (child' c)"
    and st: "st \<notin> done" and s: "steps_rel base done m s"
  shows "mirrors (steps_rel base (insert st done)) (countStep tags child m st) (readStep tags child' s st)"
proof -
  obtain c p ks ins cs where s_def: "s = (c, VFunction p ks ins cs)" by (metis prod.exhaust virtual_function.exhaust)
  have cm: "counts_match c m" using s unfolding s_def steps_rel_def function_rel_def fst_conv by blast
  show ?thesis
  proof (cases st)
    case Constants
    have ks: "ks = []" using s st Constants by (simp add: s_def steps_rel_def)
    have "mirrors (steps_rel base (insert Constants done))
        (rloop n (countConstant tags) (m\<lparr>m_constants := m_constants m + n\<rparr>))
        (rbind (rloop n (readConstant tags) []) (\<lambda>ks'.
          rreturn (c\<lparr>t_constants := t_constants c + n\<rparr>, VFunction p ks' ins cs)))" for n
    proof -
      let ?m = "m\<lparr>m_constants := m_constants m + n\<rparr>"
      have "mirrors (steps_rel base (insert Constants done)) (rbind (rloop n (countConstant tags) ?m) rreturn)
        (rbind (rloop n (readConstant tags) []) (\<lambda>ks'.
          rreturn (c\<lparr>t_constants := t_constants c + n\<rparr>, VFunction p ks' ins cs)))"
      proof (rule mirrors_bind)
        show "mirrors (constants_rel ?m (0 + n)) (rloop n (countConstant tags) ?m) (rloop n (readConstant tags) [])"
          by (rule mirrors_loop, erule constant_mirrors) (simp add: constants_rel_def)
        fix m' ks' assume "constants_rel ?m (0 + n) m' ks'"
        then show "mirrors (steps_rel base (insert Constants done)) (rreturn m')
            (rreturn (c\<lparr>t_constants := t_constants c + n\<rparr>, VFunction p ks' ins cs))"
          by (intro mirrors_return)
            (use s ks in \<open>auto simp: s_def steps_rel_def function_rel_def constants_rel_def counts_match_def
              metrics_of_def madd_def\<close>)
      qed
      then show ?thesis by (simp only: rbind_return_right)
    qed
    moreover have "t_constants c = m_constants m" using cm by (simp add: counts_match_def)
    ultimately show ?thesis unfolding Constants
      by (auto simp: countStep_def readStep_def countConstants_def s_def Let_def intro!: mirrors_bind_same)
  next
    case Instructions
    have is_Nil: "ins = []" using s st Instructions by (simp add: s_def steps_rel_def)
    have "mirrors (steps_rel base (insert Instructions done)) (rloop n countInstruction m)
        (rbind (rloop n readInstruction (c, [])) (\<lambda>r. rreturn (fst r, VFunction p ks (snd r) cs)))" for n
    proof -
      have "mirrors (steps_rel base (insert Instructions done)) (rbind (rloop n countInstruction m) rreturn)
        (rbind (rloop n readInstruction (c, [])) (\<lambda>r. rreturn (fst r, VFunction p ks (snd r) cs)))"
      proof (rule mirrors_bind)
        show "mirrors (instructions_rel m (0 + n)) (rloop n countInstruction m) (rloop n readInstruction (c, []))"
          by (rule mirrors_loop, erule instruction_mirrors) (use cm in \<open>simp add: instructions_rel_def\<close>)
        fix m' r assume "instructions_rel m (0 + n) m' r"
        then show "mirrors (steps_rel base (insert Instructions done)) (rreturn m')
            (rreturn (fst r, VFunction p ks (snd r) cs))"
          by (intro mirrors_return)
            (use s is_Nil in \<open>auto simp: s_def steps_rel_def function_rel_def instructions_rel_def counts_match_def
              metrics_of_def madd_def\<close>)
      qed
      then show ?thesis by (simp only: rbind_return_right)
    qed
    moreover have "t_instructions c = m_instructions m" using cm by (simp add: counts_match_def)
    ultimately show ?thesis unfolding Instructions
      by (auto simp: countStep_def readStep_def countInstructions_def s_def Let_def intro!: mirrors_bind_same)
  next
    case Functions
    have cs: "cs = []" using s st Functions by (simp add: s_def steps_rel_def)
    have "mirrors (steps_rel base (insert Functions done)) (rloop n child m)
        (rbind (rloop n (readChild child') (c, [])) (\<lambda>r. rreturn (fst r, VFunction p ks ins (snd r))))" for n
    proof -
      have "mirrors (steps_rel base (insert Functions done)) (rbind (rloop n child m) rreturn)
        (rbind (rloop n (readChild child') (c, [])) (\<lambda>r. rreturn (fst r, VFunction p ks ins (snd r))))"
      proof (rule mirrors_bind)
        show "mirrors (children_rel m (0 + n)) (rloop n child m) (rloop n (readChild child') (c, []))"
          by (rule mirrors_loop, erule child_mirrors [OF child, rotated])
            (use cm in \<open>simp_all add: children_rel_def madd_def metrics_of_def\<close>)
        fix m' r assume "children_rel m (0 + n) m' r"
        then show "mirrors (steps_rel base (insert Functions done)) (rreturn m')
            (rreturn (fst r, VFunction p ks ins (snd r)))"
          by (intro mirrors_return)
            (use s cs in \<open>cases m', auto simp: s_def steps_rel_def function_rel_def children_rel_def
              counts_match_def metrics_of_def madd_def\<close>)
      qed
      then show ?thesis by (simp only: rbind_return_right)
    qed
    moreover have "t_functions c = m_functions m" using cm by (simp add: counts_match_def)
    ultimately show ?thesis unfolding Functions
      by (auto simp: countStep_def readStep_def countFunctions_def s_def Let_def intro!: mirrors_bind_same)
  next
    case Parameters
    then show ?thesis using s
      by (auto simp: countStep_def readStep_def s_def Let_def steps_rel_def function_rel_def metrics_of_def
        simp del: rreturn_app intro!: mirrors_bind_same mirrors_return)
  qed
qed

lemma function_mirrors:
  assumes "distinct layout" "counts_match c m"
  shows "mirrors (function_rel m) (countFunction layout tags depth m) (readFunction layout tags depth c)"
  using assms(2)
proof (induction "kMaxPrototypeDepth + 1 - depth" arbitrary: depth c m rule: less_induct)
  case less
  have f: "t_functions c = m_functions m" using less.prems by (simp add: counts_match_def)
  show ?case
  proof (cases "depth > kMaxPrototypeDepth \<or> m_functions m \<ge> kMaxFunctions")
    case True
    then show ?thesis using f by (simp add: countFunction.simps [of _ _ depth] readFunction.simps [of _ _ depth]
      mirrors_fail del: rfail_app)
  next
    case False
    let ?m = "m\<lparr>m_functions := m_functions m + 1\<rparr>" and ?c = "c\<lparr>t_functions := t_functions c + 1\<rparr>"
    let ?f = "countStep tags (\<lambda>m'. countFunction layout tags (depth + 1) m')"
    let ?g = "readStep tags (\<lambda>c'. readFunction layout tags (depth + 1) c')"
    have child: "counts_match c' m' \<Longrightarrow>
      mirrors (function_rel m') (countFunction layout tags (depth + 1) m') (readFunction layout tags (depth + 1) c')"
      for c' m' by (rule less.hyps) (use False in auto)
    have "steps_rel m {} ?m (?c, emptyFunction)"
      using less.prems by (simp add: steps_rel_def function_rel_def counts_match_def madd_def metrics_of_def
        emptyFunction_def)
    then have "mirrors (steps_rel m (set layout \<union> {})) (runSteps ?f layout ?m) (runSteps ?g layout (?c, emptyFunction))"
      by (intro mirrors_steps step_mirrors child) (use assms in auto)
    then have "mirrors (function_rel m) (runSteps ?f layout ?m) (runSteps ?g layout (?c, emptyFunction))"
      by (rule mirrors_weaken) (simp add: steps_rel_def)
    then show ?thesis using False f by (simp add: countFunction.simps [of _ _ depth] readFunction.simps [of _ _ depth])
  qed
qed

lemma tally_one: "0 < tally (\<lambda>ks is. 1) f"
  by (cases f) simp

text \<open>The counting reader answers exactly when the building one does, and counts what is in the tree.\<close>

lemma serialized_parse_tree:
  assumes "distinct layout"
  shows "serialized_parse layout tags bytes =
    (case tree_parse layout tags bytes of
       None \<Rightarrow> None
     | Some f \<Rightarrow> if m_instructions (metrics_of f) = 0 then None else Some (metrics_of f))"
proof -
  have "counts_match noCounts noMetrics" by (simp add: counts_match_def noCounts_def noMetrics_def)
  from mirrors_app [OF function_mirrors [OF assms this], of tags 0 bytes 0]
  show ?thesis
    using tally_one
    by (cases "countFunction layout tags 0 noMetrics bytes 0"; cases "readFunction layout tags 0 noCounts bytes 0")
      (auto simp: serialized_parse_def tree_parse_def rel_prod_sel function_rel_def metrics_of_def)
qed

end
