(* ===== verification/MoonSec_Extract.thy ===== *)
theory MoonSec_Extract
  imports MoonSec_Tree
begin

unbundle bit_operations_syntax

text \<open>
  The search of \<^verbatim>\<open>byteveil_decompiler/MoonSec.cpp\<close>: \<^verbatim>\<open>probe\<close> tries every prototype layout with every
  assignment of constant tags on decoded bytes, \<^verbatim>\<open>extract\<close> every literal with every key, and the
  two reports render what was found. \<^verbatim>\<open>INT_MIN\<close> as the initial best score is \<^const>\<open>None\<close>: every real
  score is a natural number far below \<^verbatim>\<open>INT_MAX\<close>.
\<close>

section \<open>Candidates of probe\<close>

text \<open>
  What \<^verbatim>\<open>std::next_permutation\<close> runs through from a sorted array: its permutations in lexicographic
  order.
\<close>

fun lexPermutations :: "nat \<Rightarrow> 'a list \<Rightarrow> 'a list list" where
  "lexPermutations 0 xs = [[]]"
| "lexPermutations (Suc n) xs =
    concat (map (\<lambda>i. map (Cons (xs ! i)) (lexPermutations n (take i xs @ drop (Suc i) xs))) [0..<length xs])"

definition layouts :: "step list list" where
  "layouts = lexPermutations 4 [Constants, Instructions, Functions, Parameters]"

text \<open>The three nested loops over tags.\<close>

definition tagTables :: "constant_kind list list" where
  "tagTables =
    concat (map (\<lambda>booleanTag.
      concat (map (\<lambda>numberTag.
        if numberTag = booleanTag then []
        else concat (map (\<lambda>stringTag.
          if stringTag = booleanTag \<or> stringTag = numberTag then []
          else [((replicate 4 KUnknown)[booleanTag := KBoolean, numberTag := KNumber, stringTag := KString])])
          [0..<4])) [0..<4])) [0..<4])"

definition probeCandidates :: "(step list \<times> constant_kind list) list" where
  "probeCandidates = concat (map (\<lambda>layout. map (\<lambda>tags. (layout, tags)) tagTables) layouts)"

definition cap :: "nat \<Rightarrow> nat \<Rightarrow> nat" where
  "cap limit n = (if n > limit then limit else n)"

definition probeScore :: "metrics \<Rightarrow> nat" where
  "probeScore m = cap 1000000 (m_instructions m) + cap 100000 (m_functions m) * 3 +
     cap 100000 (m_strings m) * 4 + cap 100000 (m_nonNil m)"

section \<open>probe\<close>

text \<open>A search loop: the best score and what it belongs to.\<close>

type_synonym 'a best = "(nat \<times> 'a) option"

definition keepBest :: "(nat \<Rightarrow> 'a \<Rightarrow> nat \<Rightarrow> 'a \<Rightarrow> bool) \<Rightarrow> nat \<Rightarrow> 'a \<Rightarrow> 'a best \<Rightarrow> 'a best" where
  "keepBest better score x best =
    (case best of
       None \<Rightarrow> Some (score, x)
     | Some (bestScore, y) \<Rightarrow> if better score x bestScore y then Some (score, x) else best)"

definition probeStep ::
  "u8 list \<Rightarrow> step list \<times> constant_kind list \<Rightarrow> (metrics \<times> step list \<times> constant_kind list) best \<Rightarrow>
   (metrics \<times> step list \<times> constant_kind list) best" where
  "probeStep bytes lt best =
    (case serialized_parse (fst lt) (snd lt) bytes of
       None \<Rightarrow> best
     | Some m \<Rightarrow> keepBest (\<lambda>score _ bestScore _. score > bestScore) (probeScore m) (m, fst lt, snd lt) best)"

record payload =
  pl_bytes :: "u8 list"
  pl_sourceOffset :: nat
  pl_key :: nat
  pl_prototypeLayout :: string
  pl_constantTags :: string
  pl_functions :: nat
  pl_instructions :: nat
  pl_constants :: nat
  pl_checksum :: string

definition probe :: "payload \<Rightarrow> payload option" where
  "probe p =
    (case fold (probeStep (pl_bytes p)) probeCandidates None of
       None \<Rightarrow> None
     | Some (_, m, layout, tags) \<Rightarrow>
         Some (p\<lparr>pl_prototypeLayout := layoutName layout, pl_constantTags := tagName tags,
           pl_functions := m_functions m, pl_instructions := m_instructions m, pl_constants := m_constants m\<rparr>))"

section \<open>extract\<close>

definition emptyPayload :: payload where
  "emptyPayload = \<lparr>pl_bytes = [], pl_sourceOffset = 0, pl_key = 0, pl_prototypeLayout = [], pl_constantTags = [],
     pl_functions = 0, pl_instructions = 0, pl_constants = 0, pl_checksum = []\<rparr>"

text \<open>One turn of the loop over the keys, up to the comparison with the best candidate.\<close>

definition keyCandidate :: "literal \<Rightarrow> nat \<Rightarrow> payload option" where
  "keyCandidate l key =
    (case probe (emptyPayload\<lparr>pl_bytes := decodeAlphabetPayload (lit_value l) key\<rparr>) of
       None \<Rightarrow> None
     | Some p \<Rightarrow> Some (p\<lparr>pl_sourceOffset := lit_offset l, pl_key := key, pl_checksum := checksum (pl_bytes p)\<rparr>))"

definition payloadScore :: "payload \<Rightarrow> nat" where
  "payloadScore p = cap 1000000 (pl_instructions p) + cap 100000 (pl_functions p) * 3 + cap 100000 (pl_constants p)"

definition betterPayload :: "nat \<Rightarrow> payload \<Rightarrow> nat \<Rightarrow> payload \<Rightarrow> bool" where
  "betterPayload score p bestScore best \<longleftrightarrow>
    score > bestScore \<or> (score = bestScore \<and> pl_sourceOffset p < pl_sourceOffset best)"

definition keyStep :: "literal \<Rightarrow> nat \<Rightarrow> payload best \<Rightarrow> payload best" where
  "keyStep l key best =
    (case keyCandidate l key of None \<Rightarrow> best | Some p \<Rightarrow> keepBest betterPayload (payloadScore p) p best)"

definition literalStep :: "literal \<Rightarrow> payload best \<Rightarrow> payload best" where
  "literalStep l best =
    (if \<not> alphabetCandidate (lit_value l) then best else fold (keyStep l) [0..<256] best)"

definition noMarkerMessage :: string where
  "noMarkerMessage = ''MoonSec V3 marker is not visible''"

definition noPayloadMessage :: string where
  "noPayloadMessage = ''no alphabet-encoded MoonSec V3 serialized prototype passed structural validation''"

definition moonsec_extract :: "string \<Rightarrow> payload res" where
  "moonsec_extract source =
    (if \<not> hasMoonSecMarker source then Inl noMarkerMessage
     else case fold literalStep (stringsInSource source) None of
         None \<Rightarrow> Inl noPayloadMessage
       | Some (_, p) \<Rightarrow> Inr p)"

section \<open>Reports\<close>

definition emitConstant :: "virtual_constant \<Rightarrow> string" where
  "emitConstant c =
    ''{'' @ field ''type'' (quoted (kind_name (vc_kind c))) @
    (if vc_kind c = KBoolean then '','' @ field ''value'' (bool_text (vc_boolean c)) else []) @
    (if vc_kind c = KNumber \<or> vc_kind c = KString then '','' @ field ''bytes_hex'' (quoted (bytesHex (vc_bytes c)))
     else []) @
    (if vc_kind c = KString \<and> vc_bytes c \<noteq> [] \<and> unat (hd (vc_bytes c)) > 127
     then '','' @ field ''transport_encoded'' ''true'' else []) @ ''}''"

definition emitInstruction :: "virtual_instruction \<Rightarrow> string" where
  "emitInstruction i =
    ''{'' @ field ''pc'' (nat_text (vi_pc i)) @ '','' @ field ''descriptor'' (nat_text (unat (vi_descriptor i))) @
    (if vi_discarded i then '','' @ field ''discarded'' ''true'' @ ''}''
     else '','' @ field ''op_num'' (int_text (vi_opNum i)) @ '','' @ field ''a'' (int_text (vi_a i)) @
       '','' @ field ''b'' (int_text (vi_b i)) @ '','' @ field ''c'' (int_text (vi_c i)) @
       '','' @ field ''is_k_a'' (bool_text (vi_isKA i)) @ '','' @ field ''is_k_b'' (bool_text (vi_isKB i)) @
       '','' @ field ''is_k_c'' (bool_text (vi_isKC i)) @ ''}'')"

primrec emitVirtualFunction :: "virtual_function \<Rightarrow> string" where
  "emitVirtualFunction (VFunction parameters constants instructions children) =
    ''{'' @ field ''parameters'' (nat_text parameters) @
    '','' @ field ''constants'' (''['' @ join '','' (map emitConstant constants) @ '']'') @
    '','' @ field ''instructions'' (''['' @ join '','' (map emitInstruction instructions) @ '']'') @
    '','' @ field ''children'' (''['' @ join '','' (map emitVirtualFunction children) @ '']'') @ ''}''"

definition inspectNote :: string where
  "inspectNote = ''The adapter lexes and validates data only; it never invokes Lua, loads a recovered chunk, or executes the protected payload. Opcode virtualization is reported as a separate stage.''"

definition virtualNote :: string where
  "virtualNote = ''op_num is the protected sample'' @ [CHR 0x27] @ ''s virtual opcode number, not a Lua 5.1 opcode. Constants retain exact serialized bytes so encrypted transport strings are not misrepresented as plaintext.''"

definition inspect :: "string \<Rightarrow> string" where
  "inspect source =
    (let result = moonsec_extract source in
     ''{'' @ field ''format'' (quoted ''moonsec-v3-analysis'') @ '','' @ field ''executed'' ''false'' @
     '','' @ field ''recognized'' (bool_text (hasMoonSecMarker source)) @
     '','' @ field ''status'' (quoted (case result of Inr _ \<Rightarrow> ''serialized-bytecode-extracted''
       | Inl _ \<Rightarrow> ''serialized-bytecode-not-recovered'')) @
     (case result of
        Inr p \<Rightarrow>
          '','' @ field ''payload'' (''{'' @ field ''kind'' (quoted ''moonsec-v3-serialized-bytecode'') @
            '','' @ field ''bytes'' (nat_text (length (pl_bytes p))) @
            '','' @ field ''source_offset'' (nat_text (pl_sourceOffset p)) @
            '','' @ field ''decoder_key'' (nat_text (pl_key p)) @
            '','' @ field ''prototype_layout'' (quoted (jsonEscape (pl_prototypeLayout p))) @
            '','' @ field ''constant_tags'' (quoted (jsonEscape (pl_constantTags p))) @
            '','' @ field ''functions'' (nat_text (pl_functions p)) @
            '','' @ field ''instructions'' (nat_text (pl_instructions p)) @
            '','' @ field ''constants'' (nat_text (pl_constants p)) @
            '','' @ field ''checksum'' (quoted (pl_checksum p)) @ ''}'')
      | Inl e \<Rightarrow> '','' @ field ''reason'' (quoted (jsonEscape e))) @
     '','' @ field ''note'' (quoted inspectNote) @ ''}'' @ newline)"

text \<open>The three returns of \<^verbatim>\<open>inspectVirtualIR\<close>.\<close>

definition virtualPrefix :: "bool \<Rightarrow> string \<Rightarrow> string" where
  "virtualPrefix recognized status =
    ''{'' @ field ''format'' (quoted ''moonsec-v3-virtual-ir'') @ '','' @ field ''executed'' ''false'' @
    '','' @ field ''recognized'' (bool_text recognized) @ '','' @ field ''status'' (quoted status)"

definition notRecovered :: "string \<Rightarrow> string \<Rightarrow> string" where
  "notRecovered source e =
    virtualPrefix (hasMoonSecMarker source) ''serialized-bytecode-not-recovered'' @
    '','' @ field ''reason'' (quoted (jsonEscape e)) @ ''}'' @ newline"

definition internalDecodeError :: string where
  "internalDecodeError =
    virtualPrefix True ''internal-decode-error'' @
    '','' @ field ''reason'' (quoted ''validated MoonSec payload could not be decoded into virtual IR'') @ ''}'' @ newline"

definition virtualReport :: "payload \<Rightarrow> virtual_function \<Rightarrow> string" where
  "virtualReport p root =
    virtualPrefix True ''virtual-ir-extracted'' @
    '','' @ field ''virtual_opcode_mapping'' (quoted ''unresolved'') @
    '','' @ field ''payload'' (''{'' @ field ''bytes'' (nat_text (length (pl_bytes p))) @
      '','' @ field ''source_offset'' (nat_text (pl_sourceOffset p)) @
      '','' @ field ''decoder_key'' (nat_text (pl_key p)) @
      '','' @ field ''prototype_layout'' (quoted (jsonEscape (pl_prototypeLayout p))) @
      '','' @ field ''constant_tags'' (quoted (jsonEscape (pl_constantTags p))) @
      '','' @ field ''checksum'' (quoted (pl_checksum p)) @ ''}'') @
    '','' @ field ''root_function'' (emitVirtualFunction root) @
    '','' @ field ''note'' (quoted virtualNote) @ ''}'' @ newline"

text \<open>The tree \<^verbatim>\<open>inspectVirtualIR\<close> builds from a payload, from the recorded names.\<close>

definition decodePayload :: "payload \<Rightarrow> virtual_function option" where
  "decodePayload p =
    (case decodeLayout (pl_prototypeLayout p) of
       None \<Rightarrow> None
     | Some layout \<Rightarrow>
         (case decodeTags (pl_constantTags p) of
            None \<Rightarrow> None
          | Some tags \<Rightarrow> tree_parse layout tags (pl_bytes p)))"

definition inspectVirtualIR :: "string \<Rightarrow> string" where
  "inspectVirtualIR source =
    (case moonsec_extract source of
       Inl e \<Rightarrow> notRecovered source e
     | Inr p \<Rightarrow> (case decodePayload p of None \<Rightarrow> internalDecodeError | Some root \<Rightarrow> virtualReport p root))"

end
