(* ===== verification/MoonSec_Serial.thy ===== *)
theory MoonSec_Serial
  imports MoonSec_Extract
begin

unbundle bit_operations_syntax

text \<open>
  The serialized form the readers of \<^verbatim>\<open>byteveil_decompiler/MoonSec.cpp\<close> accept, as an encoder: for
  every prototype layout and tag table the search tries, the tree reader gives back the tree that
  was encoded. The encoder is the specification of the format; the program has none.
\<close>

section \<open>The encoder\<close>

definition le16 :: "u16 \<Rightarrow> u8 list" where
  "le16 w = [ucast w, ucast (drop_bit 8 w)]"

definition le32 :: "u32 \<Rightarrow> u8 list" where
  "le32 w = [ucast w, ucast (drop_bit 8 w), ucast (drop_bit 16 w), ucast (drop_bit 24 w)]"

definition leI16 :: "int \<Rightarrow> u8 list" where
  "leI16 i = le16 (word_of_int i)"

definition leI32 :: "int \<Rightarrow> u8 list" where
  "leI32 i = le32 (word_of_int i)"

definition tagOf :: "constant_kind list \<Rightarrow> constant_kind \<Rightarrow> nat" where
  "tagOf tags k = length (takeWhile (\<lambda>x. x \<noteq> k) tags)"

definition encodeConstantValue :: "virtual_constant \<Rightarrow> u8 list" where
  "encodeConstantValue c =
    (case vc_kind c of
       KUnknown \<Rightarrow> []
     | KBoolean \<Rightarrow> [if vc_boolean c then 1 else 0]
     | KNumber \<Rightarrow> vc_bytes c
     | KString \<Rightarrow> le32 (of_nat (length (vc_bytes c))) @ vc_bytes c)"

definition encodeConstant :: "constant_kind list \<Rightarrow> virtual_constant \<Rightarrow> u8 list" where
  "encodeConstant tags c = of_nat (tagOf tags (vc_kind c)) # encodeConstantValue c"

definition form_of :: "u8 \<Rightarrow> u8" where
  "form_of descriptor = drop_bit 1 descriptor AND 3"

definition encodeOperands :: "u8 \<Rightarrow> int \<Rightarrow> int \<Rightarrow> u8 list" where
  "encodeOperands form b c =
    (if form = 0 then leI16 b @ leI16 c
     else if form = 1 then leI32 b
     else if form = 2 then leI32 (b + 65536)
     else leI32 (b + 65536) @ leI16 c)"

definition encodeInstruction :: "virtual_instruction \<Rightarrow> u8 list" where
  "encodeInstruction i = vi_descriptor i #
    (if vi_discarded i then []
     else leI16 (vi_opNum i) @ leI16 (vi_a i) @ encodeOperands (form_of (vi_descriptor i)) (vi_b i) (vi_c i))"

definition encodeCount :: "nat \<Rightarrow> u8 list" where
  "encodeCount n = le32 (of_nat n)"

primrec encodeFunction :: "step list \<Rightarrow> constant_kind list \<Rightarrow> virtual_function \<Rightarrow> u8 list" where
  "encodeFunction layout tags (VFunction parameters constants instructions children) =
    concat (map (\<lambda>st. case st of
       Constants \<Rightarrow> encodeCount (length constants) @ concat (map (encodeConstant tags) constants)
     | Instructions \<Rightarrow> encodeCount (length instructions) @ concat (map encodeInstruction instructions)
     | Functions \<Rightarrow> encodeCount (length children) @ concat (map (encodeFunction layout tags) children)
     | Parameters \<Rightarrow> [of_nat parameters]) layout)"

section \<open>Trees that have a serialized form\<close>

definition constant_wf :: "virtual_constant \<Rightarrow> bool" where
  "constant_wf c \<longleftrightarrow>
    (case vc_kind c of
       KUnknown \<Rightarrow> \<not> vc_boolean c \<and> vc_bytes c = []
     | KBoolean \<Rightarrow> vc_bytes c = []
     | KNumber \<Rightarrow> \<not> vc_boolean c \<and> length (vc_bytes c) = 8
     | KString \<Rightarrow> \<not> vc_boolean c \<and> length (vc_bytes c) \<le> kMaxPayloadBytes)"

definition in16 :: "int \<Rightarrow> bool" where
  "in16 i \<longleftrightarrow> - 32768 \<le> i \<and> i < 32768"

definition in32 :: "int \<Rightarrow> bool" where
  "in32 i \<longleftrightarrow> - 2147483648 \<le> i \<and> i < 2147483648"

definition operands_wf :: "u8 \<Rightarrow> int \<Rightarrow> int \<Rightarrow> bool" where
  "operands_wf form b c \<longleftrightarrow>
    (if form = 0 then in16 b \<and> in16 c
     else if form = 1 then in32 b \<and> c = 0
     else if form = 2 then in32 (b + 65536) \<and> c = 0
     else in32 (b + 65536) \<and> in16 c)"

definition instruction_wf :: "virtual_instruction \<Rightarrow> bool" where
  "instruction_wf i \<longleftrightarrow>
    vi_discarded i = (vi_descriptor i AND 1 \<noteq> 0) \<and>
    (if vi_discarded i then
       vi_opNum i = 0 \<and> vi_a i = 0 \<and> vi_b i = 0 \<and> vi_c i = 0 \<and> \<not> vi_isKA i \<and> \<not> vi_isKB i \<and> \<not> vi_isKC i
     else
       in16 (vi_opNum i) \<and> in16 (vi_a i) \<and> operands_wf (form_of (vi_descriptor i)) (vi_b i) (vi_c i) \<and>
       vi_isKA i = (vi_descriptor i AND 8 \<noteq> 0) \<and> vi_isKB i = (vi_descriptor i AND 16 \<noteq> 0) \<and>
       vi_isKC i = (vi_descriptor i AND 32 \<noteq> 0))"

primrec function_wf :: "virtual_function \<Rightarrow> bool" where
  "function_wf (VFunction parameters constants instructions children) \<longleftrightarrow>
    parameters < 256 \<and> list_all constant_wf constants \<and> list_all instruction_wf instructions \<and>
    map vi_pc instructions = [0..<length instructions] \<and> list_all id (map function_wf children)"

primrec levels :: "virtual_function \<Rightarrow> nat" where
  "levels (VFunction parameters constants instructions children) = Suc (foldr max (map levels children) 0)"

definition tree_wf :: "virtual_function \<Rightarrow> bool" where
  "tree_wf f \<longleftrightarrow> function_wf f \<and> levels f \<le> kMaxPrototypeDepth + 1 \<and>
    tally (\<lambda>ks is. 1) f \<le> kMaxFunctions \<and>
    tally (\<lambda>ks is. length is) f \<le> kMaxInstructions \<and>
    tally (\<lambda>ks is. length ks) f \<le> kMaxConstants"

section \<open>Readers that consume exactly an encoding\<close>

text \<open>\<open>reads p xs x\<close>: wherever \<open>xs\<close> stands in an input, the reader yields \<open>x\<close> and stops behind it.\<close>

definition reads :: "'a reader \<Rightarrow> u8 list \<Rightarrow> 'a \<Rightarrow> bool" where
  "reads p xs x \<longleftrightarrow> (\<forall>pre post. p (pre @ xs @ post) (length pre) = Inr (x, length pre + length xs))"

named_theorems reads_intros "readers of encodings"

lemma reads_return [reads_intros]: "reads (rreturn x) [] x"
  by (simp add: reads_def)

lemma reads_bind:
  assumes "reads p xs x" "reads (f x) ys y"
  shows "reads (rbind p f) (xs @ ys) y"
  unfolding reads_def
proof (intro allI)
  fix pre post
  have "p (pre @ xs @ ys @ post) (length pre) = Inr (x, length pre + length xs)"
    using assms(1) by (simp add: reads_def)
  moreover have "f x ((pre @ xs) @ ys @ post) (length (pre @ xs)) = Inr (y, length (pre @ xs) + length ys)"
    using assms(2) unfolding reads_def by blast
  ultimately show "rbind p f (pre @ (xs @ ys) @ post) (length pre) = Inr (y, length pre + length (xs @ ys))"
    by (simp add: rbind_step)
qed

lemma reads_bind_return: "reads p xs x \<Longrightarrow> reads (rbind p (\<lambda>x. rreturn (f x))) xs (f x)"
  using reads_bind [of p xs x "\<lambda>x. rreturn (f x)" "[]" "f x", OF _ reads_return] by simp

lemma reads_byte: "reads readByte [b] b"
  by (simp add: reads_def readByte_def need_def rbind_def nth_append)

lemma nth_append_add: "(xs @ ys) ! (length xs + n) = ys ! n"
  by simp

lemma reads_16: "reads readU16 (le16 w) w"
proof -
  have "(ucast (ucast w :: u8) :: u16) OR push_bit 8 (ucast (ucast (drop_bit 8 w) :: u8)) = w"
    by (rule bit_word_eqI) (auto simp: bit_simps)
  then show ?thesis
    by (simp add: reads_def readU16_def need_def rbind_def le16_def nth_append)
qed

lemma reads_32: "reads readU32 (le32 w) w"
proof -
  have "(ucast (ucast w :: u8) :: u32) OR push_bit 8 (ucast (ucast (drop_bit 8 w) :: u8)) OR
      push_bit 16 (ucast (ucast (drop_bit 16 w) :: u8)) OR push_bit 24 (ucast (ucast (drop_bit 24 w) :: u8)) = w"
  proof (rule bit_word_eqI)
    fix n assume "n < LENGTH(32)"
    then consider "n < 8" | "8 \<le> n" "n < 16" | "16 \<le> n" "n < 24" | "24 \<le> n" "n < 32" by fastforce
    then show "bit ((ucast (ucast w :: u8) :: u32) OR push_bit 8 (ucast (ucast (drop_bit 8 w) :: u8)) OR
      push_bit 16 (ucast (ucast (drop_bit 16 w) :: u8)) OR push_bit 24 (ucast (ucast (drop_bit 24 w) :: u8))) n = bit w n"
      by cases (auto simp: bit_simps)
  qed
  then show ?thesis
    by (simp add: reads_def readU32_def need_def rbind_def le32_def nth_append)
qed

lemma reads_I16: "in16 i \<Longrightarrow> reads readI16 (leI16 i) i"
  unfolding readI16_def leI16_def using reads_bind_return [OF reads_16, of sint "word_of_int i"]
  by (simp add: in16_def signed_of_int signed_take_bit_int_eq_self)

lemma reads_I32: "in32 i \<Longrightarrow> reads readI32 (leI32 i) i"
  unfolding readI32_def leI32_def using reads_bind_return [OF reads_32, of sint "word_of_int i"]
  by (simp add: in32_def signed_of_int signed_take_bit_int_eq_self)

lemma reads_bytes: "reads (readBytes (length xs)) xs xs"
  by (simp add: reads_def readBytes_def need_def rbind_def)

lemma le32_length [simp]: "length (le32 w) = 4"
  by (simp add: le32_def)

lemma encodeCount_length [simp]: "length (encodeCount n) = 4"
  by (simp add: encodeCount_def)

text \<open>A count, the check that enough bytes follow, and what follows.\<close>

lemma reads_counted:
  assumes "n \<le> left" "n \<le> length ys" "n < 2 ^ 32" "reads (f n) ys y"
  shows "reads (rbind (limitedCount left) f) (encodeCount n @ ys) y"
  unfolding reads_def
proof (intro allI)
  fix pre post :: "u8 list"
  let ?bs = "pre @ (encodeCount n @ ys) @ post"
  have n: "unat (of_nat n :: u32) = n" using assms(3) by (simp add: unsigned_of_nat take_bit_nat_eq_self)
  have u: "readU32 ?bs (length pre) = Inr (of_nat n, length pre + 4)"
    using reads_32 [of "of_nat n"] unfolding reads_def encodeCount_def by simp
  have "length ?bs - (length pre + 4) = length ys + length post" by simp
  then have "limitedCount left ?bs (length pre) = Inr (n, length pre + 4)"
    using u n assms(1,2) by (simp add: limitedCount_def rbind_def)
  moreover have "f n ((pre @ encodeCount n) @ ys @ post) (length (pre @ encodeCount n)) =
      Inr (y, length (pre @ encodeCount n) + length ys)"
    using assms(4) unfolding reads_def by blast
  ultimately show "rbind (limitedCount left) f ?bs (length pre) = Inr (y, length pre + length (encodeCount n @ ys))"
    by (simp add: rbind_step)
qed

lemma reads_child_counted:
  assumes "n \<le> left" "5 * n \<le> length ys" "n < 2 ^ 32" "reads (f n) ys y"
  shows "reads (rbind (childCount left) f) (encodeCount n @ ys) y"
  unfolding reads_def
proof (intro allI)
  fix pre post :: "u8 list"
  let ?bs = "pre @ (encodeCount n @ ys) @ post"
  have n: "unat (of_nat n :: u32) = n" using assms(3) by (simp add: unsigned_of_nat take_bit_nat_eq_self)
  have u: "readU32 ?bs (length pre) = Inr (of_nat n, length pre + 4)"
    using reads_32 [of "of_nat n"] unfolding reads_def encodeCount_def by simp
  have "n \<le> length ?bs div 5" using assms(2) by simp
  then have "childCount left ?bs (length pre) = Inr (n, length pre + 4)"
    using u n assms(1) by (simp add: childCount_def dataSize_def rbind_def)
  moreover have "f n ((pre @ encodeCount n) @ ys @ post) (length (pre @ encodeCount n)) =
      Inr (y, length (pre @ encodeCount n) + length ys)"
    using assms(4) unfolding reads_def by blast
  ultimately show "rbind (childCount left) f ?bs (length pre) = Inr (y, length pre + length (encodeCount n @ ys))"
    by (simp add: rbind_step)
qed

lemma reads_string:
  assumes "length ys \<le> kMaxPayloadBytes"
  shows "reads (rbind stringLength readBytes) (le32 (of_nat (length ys)) @ ys) ys"
proof -
  have "length ys < 2 ^ 32" using assms by (simp add: kMaxPayloadBytes_def)
  then have n: "unat (of_nat (length ys) :: u32) = length ys" by (simp add: unsigned_of_nat take_bit_nat_eq_self)
  have "stringLength (pre @ le32 (of_nat (length ys)) @ ys @ post) (length pre) = Inr (length ys, length pre + 4)"
    for pre post
    using reads_32 [of "of_nat (length ys)"] assms n
    unfolding reads_def by (simp add: stringLength_def rbind_def)
  moreover have "readBytes (length ys) (pre @ le32 w @ ys @ post) (length pre + 4) = Inr (ys, length pre + 4 + length ys)"
    for pre post w
  proof -
    have "readBytes (length ys) ((pre @ le32 w) @ ys @ post) (length (pre @ le32 w)) =
        Inr (ys, length (pre @ le32 w) + length ys)"
      using reads_bytes [of ys] unfolding reads_def by blast
    then show ?thesis by simp
  qed
  ultimately show ?thesis by (simp add: reads_def rbind_step)
qed

text \<open>A loop over the encodings of the elements of a list; \<open>S\<close> is the state behind a prefix.\<close>

lemma reads_loop_from:
  assumes "\<And>ys x zs. xs = ys @ x # zs \<Longrightarrow> reads (f (S ys)) (enc x) (S (ys @ [x]))"
  shows "xs = ys @ zs \<Longrightarrow> reads (rloop (length zs) f (S ys)) (concat (map enc zs)) (S xs)"
proof (induction zs arbitrary: ys)
  case Nil
  then show ?case by (simp add: reads_return del: rreturn_app)
next
  case (Cons z zs)
  have "reads (rbind (f (S ys)) (rloop (length zs) f)) (enc z @ concat (map enc zs)) (S xs)"
    by (rule reads_bind [OF assms [OF Cons.prems]]) (rule Cons.IH, simp add: Cons.prems)
  then show ?case by simp
qed

lemma reads_loop:
  assumes "\<And>ys x zs. xs = ys @ x # zs \<Longrightarrow> reads (f (S ys)) (enc x) (S (ys @ [x]))"
  shows "reads (rloop (length xs) f (S [])) (concat (map enc xs)) (S xs)"
  by (rule reads_loop_from, rule assms) auto

section \<open>Constants and instructions\<close>

lemma kindOf_tagOf:
  assumes "k \<in> set tags" "length tags \<le> 4"
  shows "kindOf tags (of_nat (tagOf tags k)) = k"
proof -
  have "\<not> (\<forall>x\<in>set tags. x \<noteq> k)" using assms(1) by blast
  then have neq: "takeWhile (\<lambda>x. x \<noteq> k) tags \<noteq> tags" using takeWhile_eq_all_conv by fastforce
  then have lt: "tagOf tags k < length tags"
    unfolding tagOf_def by (metis length_takeWhile_le nat_less_le takeWhile_eq_take take_all_iff)
  then have "unat (of_nat (tagOf tags k) :: u8) = tagOf tags k"
    using assms(2) by (simp add: unsigned_of_nat take_bit_nat_eq_self)
  moreover have "tags ! tagOf tags k = k" using nth_length_takeWhile [of "\<lambda>x. x \<noteq> k" tags] lt by (simp add: tagOf_def)
  ultimately show ?thesis using lt by (simp add: kindOf_def)
qed

lemma reads_constant_value:
  assumes "constant_wf c"
  shows "reads (readConstantValue (vc_kind c)) (encodeConstantValue c) c"
proof (cases "vc_kind c")
  case KUnknown
  then have "c = \<lparr>vc_kind = KUnknown, vc_boolean = False, vc_bytes = []\<rparr>"
    using assms by (intro virtual_constant.equality) (simp_all add: constant_wf_def)
  then show ?thesis using reads_return [of c] KUnknown
    by (simp add: readConstantValue_def encodeConstantValue_def del: rreturn_app)
next
  case KBoolean
  let ?blank = "\<lparr>vc_kind = KBoolean, vc_boolean = False, vc_bytes = []\<rparr>"
  have "?blank\<lparr>vc_boolean := (if vc_boolean c then 1 else 0 :: u8) \<noteq> 0\<rparr> = c"
    using assms KBoolean by (intro virtual_constant.equality) (simp_all add: constant_wf_def)
  then show ?thesis
    using reads_bind_return [OF reads_byte, of "\<lambda>v. ?blank\<lparr>vc_boolean := v \<noteq> 0\<rparr>" "if vc_boolean c then 1 else 0"] KBoolean
    by (simp add: readConstantValue_def encodeConstantValue_def)
next
  case KNumber
  let ?blank = "\<lparr>vc_kind = KNumber, vc_boolean = False, vc_bytes = []\<rparr>"
  have "?blank\<lparr>vc_bytes := vc_bytes c\<rparr> = c"
    using assms KNumber by (intro virtual_constant.equality) (simp_all add: constant_wf_def)
  then show ?thesis
    using reads_bind_return [OF reads_bytes, of "vc_bytes c" "\<lambda>bs. ?blank\<lparr>vc_bytes := bs\<rparr>"] KNumber assms
    by (simp add: readConstantValue_def encodeConstantValue_def constant_wf_def)
next
  case KString
  let ?blank = "\<lparr>vc_kind = KString, vc_boolean = False, vc_bytes = []\<rparr>"
  have eq: "?blank\<lparr>vc_bytes := vc_bytes c\<rparr> = c"
    using assms KString by (intro virtual_constant.equality) (simp_all add: constant_wf_def)
  have "reads (rbind (rbind stringLength readBytes) (\<lambda>bs. rreturn (?blank\<lparr>vc_bytes := bs\<rparr>)))
      (le32 (of_nat (length (vc_bytes c))) @ vc_bytes c) (?blank\<lparr>vc_bytes := vc_bytes c\<rparr>)"
    using assms KString by (intro reads_bind_return reads_string) (simp add: constant_wf_def)
  then show ?thesis unfolding eq using KString
    by (simp add: readConstantValue_def encodeConstantValue_def rbind_assoc)
qed

lemma reads_constant:
  assumes "constant_wf c" "vc_kind c \<in> set tags" "length tags \<le> 4"
  shows "reads (readConstant tags out) (encodeConstant tags c) (out @ [c])"
proof -
  have "reads (readConstant tags out) ([of_nat (tagOf tags (vc_kind c))] @ encodeConstantValue c) (out @ [c])"
    unfolding readConstant_def
    by (rule reads_bind [OF reads_byte], unfold kindOf_tagOf [OF assms(2,3)],
        rule reads_bind_return [OF reads_constant_value [OF assms(1)]])
  then show ?thesis by (simp add: encodeConstant_def)
qed

lemma reads_operands:
  assumes "operands_wf form b c"
  shows "reads (readOperands form) (encodeOperands form b c) (b, c)"
proof -
  consider "form = 0" | "form = 1" | "form = 2" | "form \<noteq> 0" "form \<noteq> 1" "form \<noteq> 2" by blast
  then show ?thesis
  proof cases
    case 1
    then have "reads (rbind readI16 (\<lambda>b. rbind readI16 (\<lambda>c. rreturn (b, c)))) (leI16 b @ leI16 c) (b, c)"
      using assms by (intro reads_bind [OF reads_I16] reads_bind_return [OF reads_I16]) (simp_all add: operands_wf_def)
    then show ?thesis using 1 by (simp add: readOperands_def encodeOperands_def)
  next
    case 2
    then show ?thesis using reads_bind_return [OF reads_I32, of b "\<lambda>b. (b, 0)"] assms
      by (simp add: readOperands_def encodeOperands_def operands_wf_def)
  next
    case 3
    then show ?thesis using reads_bind_return [OF reads_I32, of "b + 65536" "\<lambda>b. (b - 65536, 0)"] assms
      by (simp add: readOperands_def encodeOperands_def operands_wf_def)
  next
    case 4
    then have "reads (rbind readI32 (\<lambda>b. rbind readI16 (\<lambda>c. rreturn (b - 65536, c)))) (leI32 (b + 65536) @ leI16 c) (b, c)"
      using assms reads_bind [OF reads_I32, of "b + 65536" "\<lambda>b. rbind readI16 (\<lambda>c. rreturn (b - 65536, c))" "leI16 c" "(b, c)"]
        reads_bind_return [OF reads_I16, of c "Pair b"]
      by (simp add: operands_wf_def)
    then show ?thesis using 4 by (simp add: readOperands_def encodeOperands_def)
  qed
qed

lemma reads_instruction:
  assumes "instruction_wf i" "vi_pc i = length out"
  shows "reads (readInstruction (c, out)) (encodeInstruction i)
    (c\<lparr>t_instructions := t_instructions c + (if vi_discarded i then 0 else 1)\<rparr>, out @ [i])"
proof (cases "vi_discarded i")
  case True
  have "\<lparr>vi_pc = length out, vi_descriptor = vi_descriptor i, vi_discarded = True, vi_opNum = 0, vi_a = 0,
        vi_b = 0, vi_c = 0, vi_isKA = False, vi_isKB = False, vi_isKC = False\<rparr> = i"
    by (rule virtual_instruction.equality) (use assms True in \<open>simp_all add: instruction_wf_def\<close>)
  moreover have "vi_descriptor i AND 1 \<noteq> 0" using assms True by (simp add: instruction_wf_def)
  ultimately show ?thesis
    using reads_byte [of "vi_descriptor i"] True
    by (simp add: readInstruction_def encodeInstruction_def Let_def reads_def rbind_step)
next
  case False
  let ?d = "vi_descriptor i" and ?c = "c\<lparr>t_instructions := t_instructions c + 1\<rparr>"
  let ?mk = "\<lambda>opNum a bc. \<lparr>vi_pc = length out, vi_descriptor = ?d, vi_discarded = False, vi_opNum = opNum, vi_a = a,
      vi_b = fst bc, vi_c = snd bc, vi_isKA = (?d AND 8 \<noteq> 0), vi_isKB = (?d AND 16 \<noteq> 0), vi_isKC = (?d AND 32 \<noteq> 0)\<rparr>"
  have wf: "in16 (vi_opNum i)" "in16 (vi_a i)" "operands_wf (drop_bit 1 ?d AND 3) (vi_b i) (vi_c i)" "?d AND 1 = 0"
    using assms(1) False by (auto simp: instruction_wf_def form_of_def)
  have i: "?mk (vi_opNum i) (vi_a i) (vi_b i, vi_c i) = i"
    by (rule virtual_instruction.equality) (use assms False in \<open>simp_all add: instruction_wf_def\<close>)
  have "reads (rbind readI16 (\<lambda>opNum. rbind readI16 (\<lambda>a. rbind (readOperands (drop_bit 1 ?d AND 3)) (\<lambda>bc.
      rreturn (?c, out @ [?mk opNum a bc])))))
      (leI16 (vi_opNum i) @ leI16 (vi_a i) @ encodeOperands (drop_bit 1 ?d AND 3) (vi_b i) (vi_c i))
      (?c, out @ [?mk (vi_opNum i) (vi_a i) (vi_b i, vi_c i)])"
    by (rule reads_bind [OF reads_I16 [OF wf(1)]], rule reads_bind [OF reads_I16 [OF wf(2)]],
        rule reads_bind_return [OF reads_operands [OF wf(3)]])
  then have body: "reads (rbind readI16 (\<lambda>opNum. rbind readI16 (\<lambda>a. rbind (readOperands (drop_bit 1 ?d AND 3)) (\<lambda>bc.
      rreturn (?c, out @ [?mk opNum a bc])))))
      (leI16 (vi_opNum i) @ leI16 (vi_a i) @ encodeOperands (drop_bit 1 ?d AND 3) (vi_b i) (vi_c i)) (?c, out @ [i])"
    unfolding i .
  have "reads (readInstruction (c, out)) ([?d] @ leI16 (vi_opNum i) @ leI16 (vi_a i) @
      encodeOperands (drop_bit 1 ?d AND 3) (vi_b i) (vi_c i)) (?c, out @ [i])"
    unfolding readInstruction_def Let_def
    by (rule reads_bind [OF reads_byte]) (use body wf(4) in simp)
  then show ?thesis using False by (simp add: encodeInstruction_def form_of_def)
qed

section \<open>Functions\<close>

definition encodeStep :: "step list \<Rightarrow> constant_kind list \<Rightarrow> virtual_function \<Rightarrow> step \<Rightarrow> u8 list" where
  "encodeStep layout tags f st =
    (case st of
       Constants \<Rightarrow> encodeCount (length (vf_constants f)) @ concat (map (encodeConstant tags) (vf_constants f))
     | Instructions \<Rightarrow> encodeCount (length (vf_instructions f)) @ concat (map encodeInstruction (vf_instructions f))
     | Functions \<Rightarrow> encodeCount (length (vf_children f)) @ concat (map (encodeFunction layout tags) (vf_children f))
     | Parameters \<Rightarrow> [of_nat (vf_parameters f)])"

lemma encodeFunction_steps: "encodeFunction layout tags f = concat (map (encodeStep layout tags f) layout)"
  by (cases f) (auto simp: encodeStep_def intro!: arg_cong [where f = concat] split: step.split)

definition addCounts :: "tree_counts \<Rightarrow> nat \<Rightarrow> nat \<Rightarrow> nat \<Rightarrow> tree_counts" where
  "addCounts c fs ins ks = \<lparr>t_functions = t_functions c + fs, t_instructions = t_instructions c + ins,
     t_constants = t_constants c + ks\<rparr>"

lemma addCounts_constants: "addCounts c 0 0 k = c\<lparr>t_constants := t_constants c + k\<rparr>"
  by (simp add: addCounts_def)

lemma addCounts_zero [simp]: "addCounts c 0 0 0 = c"
  by (simp add: addCounts_def)

abbreviation fTally :: "virtual_function \<Rightarrow> nat" where "fTally \<equiv> tally (\<lambda>ks is. 1)"
abbreviation iTally :: "virtual_function \<Rightarrow> nat" where "iTally \<equiv> tally (\<lambda>ks is. countIf (\<lambda>i. \<not> vi_discarded i) is)"
abbreviation lTally :: "virtual_function \<Rightarrow> nat" where "lTally \<equiv> tally (\<lambda>ks is. length is)"
abbreviation kTally :: "virtual_function \<Rightarrow> nat" where "kTally \<equiv> tally (\<lambda>ks is. length ks)"

definition total_of :: "(virtual_function \<Rightarrow> nat) \<Rightarrow> virtual_function list \<Rightarrow> nat" where
  "total_of t fs = sum_list (map t fs)"

lemma total_of_simps [simp]:
  "total_of t [] = 0" "total_of t (x # xs) = t x + total_of t xs" "total_of t (xs @ ys) = total_of t xs + total_of t ys"
  by (simp_all add: total_of_def)

lemma countIf_le: "countIf P xs \<le> length xs"
  by (simp add: countIf_def)

lemma iTally_le: "iTally f \<le> lTally f"
  by (induction f) (auto intro!: add_mono countIf_le sum_list_mono)

lemma total_of_mono: "(\<And>f. f \<in> set fs \<Longrightarrow> t f \<le> u f) \<Longrightarrow> total_of t fs \<le> total_of u fs"
  by (simp add: total_of_def sum_list_mono)

definition room :: "virtual_function \<Rightarrow> tree_counts \<Rightarrow> bool" where
  "room f c \<longleftrightarrow> t_functions c + fTally f \<le> kMaxFunctions \<and> t_instructions c + lTally f \<le> kMaxInstructions \<and>
    t_constants c + kTally f \<le> kMaxConstants"

definition functionCounts :: "virtual_function \<Rightarrow> tree_counts \<Rightarrow> tree_counts" where
  "functionCounts f c = addCounts c (fTally f) (iTally f) (kTally f)"

definition stepCounts :: "virtual_function \<Rightarrow> step \<Rightarrow> tree_counts \<Rightarrow> tree_counts" where
  "stepCounts f st c =
    (case st of
       Constants \<Rightarrow> addCounts c 0 0 (length (vf_constants f))
     | Instructions \<Rightarrow> addCounts c 0 (countIf (\<lambda>i. \<not> vi_discarded i) (vf_instructions f)) 0
     | Functions \<Rightarrow> addCounts c (total_of fTally (vf_children f)) (total_of iTally (vf_children f))
         (total_of kTally (vf_children f))
     | Parameters \<Rightarrow> c)"

definition setStep :: "virtual_function \<Rightarrow> step \<Rightarrow> virtual_function \<Rightarrow> virtual_function" where
  "setStep f st g =
    (case st of
       Constants \<Rightarrow> VFunction (vf_parameters g) (vf_constants f) (vf_instructions g) (vf_children g)
     | Instructions \<Rightarrow> VFunction (vf_parameters g) (vf_constants g) (vf_instructions f) (vf_children g)
     | Functions \<Rightarrow> VFunction (vf_parameters g) (vf_constants g) (vf_instructions g) (vf_children f)
     | Parameters \<Rightarrow> VFunction (vf_parameters f) (vf_constants g) (vf_instructions g) (vf_children g))"

text \<open>What is left of the limits covers the steps that are still to run.\<close>

definition fits :: "step set \<Rightarrow> virtual_function \<Rightarrow> tree_counts \<Rightarrow> bool" where
  "fits todo f c \<longleftrightarrow>
    t_functions c + (if Functions \<in> todo then total_of fTally (vf_children f) else 0) \<le> kMaxFunctions \<and>
    t_instructions c + (if Instructions \<in> todo then length (vf_instructions f) else 0) +
      (if Functions \<in> todo then total_of lTally (vf_children f) else 0) \<le> kMaxInstructions \<and>
    t_constants c + (if Constants \<in> todo then length (vf_constants f) else 0) +
      (if Functions \<in> todo then total_of kTally (vf_children f) else 0) \<le> kMaxConstants"

lemma fits_step:
  assumes "fits (insert st todo) f c" "st \<notin> todo"
  shows "fits todo f (stepCounts f st c)"
proof -
  have "total_of iTally (vf_children f) \<le> total_of lTally (vf_children f)" by (rule total_of_mono) (rule iTally_le)
  moreover have "countIf P (vf_instructions f) \<le> length (vf_instructions f)" for P by (rule countIf_le)
  ultimately show ?thesis using assms
    by (cases st) (auto simp: fits_def stepCounts_def addCounts_def intro: order_trans [rotated] split: if_splits)
qed

lemma limits_32: "n \<le> kMaxConstants \<Longrightarrow> n < 2 ^ 32" "n \<le> kMaxInstructions \<Longrightarrow> n < 2 ^ 32"
  "n \<le> kMaxFunctions \<Longrightarrow> n < 2 ^ 32"
  by (simp_all add: kMaxConstants_def kMaxInstructions_def kMaxFunctions_def)

lemma length_concat_ge: "(\<And>x. x \<in> set xs \<Longrightarrow> k \<le> length (enc x)) \<Longrightarrow> k * length xs \<le> length (concat (map enc xs))"
  by (induction xs) (auto intro: add_mono)

lemma length_le_total: "(\<And>x. x \<in> set xs \<Longrightarrow> 1 \<le> t x) \<Longrightarrow> length xs \<le> total_of t xs"
  by (induction xs) (auto, fastforce)

lemma reads_constants:
  assumes "list_all constant_wf ks" "set tags = UNIV" "length tags \<le> 4"
  shows "reads (rloop (length ks) (readConstant tags) []) (concat (map (encodeConstant tags) ks)) ks"
proof -
  have "reads (readConstant tags ys) (encodeConstant tags x) (ys @ [x])" if "ks = ys @ x # zs" for ys x zs
    by (rule reads_constant) (use that assms in auto)
  from reads_loop [where S = "\<lambda>ys. ys", OF this] show ?thesis by simp
qed

lemma reads_instructions:
  assumes "list_all instruction_wf ins" "map vi_pc ins = [0..<length ins]"
  shows "reads (rloop (length ins) readInstruction (c, [])) (concat (map encodeInstruction ins))
    (addCounts c 0 (countIf (\<lambda>i. \<not> vi_discarded i) ins) 0, ins)"
proof -
  let ?S = "\<lambda>ys. (addCounts c 0 (countIf (\<lambda>i. \<not> vi_discarded i) ys) 0, ys)"
  have "reads (readInstruction (?S ys)) (encodeInstruction x) (?S (ys @ [x]))" if xs: "ins = ys @ x # zs" for ys x zs
  proof -
    have "map vi_pc ins ! length ys = length ys" unfolding assms(2) using xs by (simp del: upt_Suc)
    then have "vi_pc x = length ys" using xs by (simp add: nth_append)
    moreover have "instruction_wf x" using assms(1) xs by simp
    ultimately have "reads (readInstruction (?S ys)) (encodeInstruction x)
      ((fst (?S ys))\<lparr>t_instructions := t_instructions (fst (?S ys)) + (if vi_discarded x then 0 else 1)\<rparr>, ys @ [x])"
      by (simp only: fst_conv) (rule reads_instruction)
    then show ?thesis by (cases "vi_discarded x") (simp_all add: addCounts_def)
  qed
  then have "reads (rloop (length ins) readInstruction (?S [])) (concat (map encodeInstruction ins)) (?S ins)"
    by (rule reads_loop)
  then show ?thesis by simp
qed

lemma reads_children:
  assumes child: "\<And>g c. g \<in> set cs \<Longrightarrow> room g c \<Longrightarrow> reads (child c) (enc g) (functionCounts g c, g)"
    and f: "t_functions c + total_of fTally cs \<le> kMaxFunctions" "t_instructions c + total_of lTally cs \<le> kMaxInstructions"
      "t_constants c + total_of kTally cs \<le> kMaxConstants"
  shows "reads (rloop (length cs) (readChild child) (c, [])) (concat (map enc cs))
    (addCounts c (total_of fTally cs) (total_of iTally cs) (total_of kTally cs), cs)"
proof -
  let ?S = "\<lambda>ys. (addCounts c (total_of fTally ys) (total_of iTally ys) (total_of kTally ys), ys)"
  have "reads (readChild child (?S ys)) (enc x) (?S (ys @ [x]))" if xs: "cs = ys @ x # zs" for ys x zs
  proof -
    have "total_of iTally ys \<le> total_of lTally ys" by (rule total_of_mono) (rule iTally_le)
    then have "room x (fst (?S ys))" using f xs by (simp add: room_def addCounts_def)
    then have "reads (child (fst (?S ys))) (enc x) (functionCounts x (fst (?S ys)), x)" using child xs by simp
    from reads_bind_return [OF this, of "\<lambda>r. (fst r, snd (?S ys) @ [snd r])"]
    show ?thesis by (simp add: readChild_def functionCounts_def addCounts_def add.assoc)
  qed
  then have "reads (rloop (length cs) (readChild child) (?S [])) (concat (map enc cs)) (?S cs)" by (rule reads_loop)
  then show ?thesis by simp
qed

text \<open>One step of a function whose children are read back.\<close>

lemma reads_step:
  assumes child: "\<And>g c. g \<in> set (vf_children f) \<Longrightarrow> room g c \<Longrightarrow>
      reads (child c) (encodeFunction layout tags g) (functionCounts g c, g)"
    and len: "\<And>g. g \<in> set (vf_children f) \<Longrightarrow> 5 \<le> length (encodeFunction layout tags g)"
    and wf: "function_wf f" and tags: "set tags = UNIV" "length tags \<le> 4"
    and fits: "fits (insert st todo) f c"
  shows "reads (readStep tags child (c, h) st) (encodeStep layout tags f st) (stepCounts f st c, setStep f st h)"
proof -
  obtain p ks ins cs where f: "f = VFunction p ks ins cs" by (cases f)
  obtain p' ks' ins' cs' where h: "h = VFunction p' ks' ins' cs'" by (cases h)
  show ?thesis
  proof (cases st)
    case Constants
    have n: "length ks \<le> kMaxConstants - t_constants c" "length ks < 2 ^ 32"
      using fits limits_32(1) [of "length ks"] by (auto simp: fits_def f Constants)
    have len: "length ks \<le> length (concat (map (encodeConstant tags) ks))"
      using length_concat_ge [of ks 1 "encodeConstant tags"] by (simp add: encodeConstant_def)
    have "reads (rloop (length ks) (readConstant tags) []) (concat (map (encodeConstant tags) ks)) ks"
      by (rule reads_constants) (use wf tags f in auto)
    then have "reads (rbind (limitedCount (kMaxConstants - t_constants c)) (\<lambda>count.
         rbind (rloop count (readConstant tags) []) (\<lambda>ks.
         rreturn (c\<lparr>t_constants := t_constants c + count\<rparr>, VFunction p' ks ins' cs'))))
        (encodeCount (length ks) @ concat (map (encodeConstant tags) ks))
        (c\<lparr>t_constants := t_constants c + length ks\<rparr>, VFunction p' ks ins' cs')"
      by (intro reads_counted n len reads_bind_return)
    then show ?thesis
      by (simp add: Constants f h readStep_def Let_def encodeStep_def stepCounts_def setStep_def addCounts_constants)
  next
    case Instructions
    have n: "length ins \<le> kMaxInstructions - t_instructions c" "length ins < 2 ^ 32"
      using fits limits_32(2) [of "length ins"] by (auto simp: fits_def f Instructions)
    have len: "length ins \<le> length (concat (map encodeInstruction ins))"
      using length_concat_ge [of ins 1 encodeInstruction] by (simp add: encodeInstruction_def)
    let ?r = "(addCounts c 0 (countIf (\<lambda>i. \<not> vi_discarded i) ins) 0, ins)"
    have "reads (rloop (length ins) readInstruction (c, [])) (concat (map encodeInstruction ins)) ?r"
      by (rule reads_instructions) (use wf f in auto)
    then have "reads (rbind (limitedCount (kMaxInstructions - t_instructions c)) (\<lambda>count.
         rbind (rloop count readInstruction (c, [])) (\<lambda>r. rreturn (fst r, VFunction p' ks' (snd r) cs'))))
        (encodeCount (length ins) @ concat (map encodeInstruction ins)) (fst ?r, VFunction p' ks' (snd ?r) cs')"
      by (intro reads_counted n len reads_bind_return)
    then show ?thesis
      by (simp add: Instructions f h readStep_def Let_def encodeStep_def stepCounts_def setStep_def)
  next
    case Functions
    have "1 \<le> fTally g" for g by (cases g) simp
    then have "length cs \<le> total_of fTally cs" by (intro length_le_total)
    then have n: "length cs \<le> kMaxFunctions - t_functions c" "length cs < 2 ^ 32"
      using fits limits_32(3) [of "length cs"] by (auto simp: fits_def f Functions)
    have len: "5 * length cs \<le> length (concat (map (encodeFunction layout tags) cs))"
      using length_concat_ge [of cs 5 "encodeFunction layout tags"] len f by simp
    let ?r = "(addCounts c (total_of fTally cs) (total_of iTally cs) (total_of kTally cs), cs)"
    have "reads (rloop (length cs) (readChild child) (c, [])) (concat (map (encodeFunction layout tags) cs)) ?r"
      by (rule reads_children) (use child fits f in \<open>auto simp: fits_def Functions\<close>)
    then have "reads (rbind (childCount (kMaxFunctions - t_functions c)) (\<lambda>count.
         rbind (rloop count (readChild child) (c, [])) (\<lambda>r. rreturn (fst r, VFunction p' ks' ins' (snd r)))))
        (encodeCount (length cs) @ concat (map (encodeFunction layout tags) cs)) (fst ?r, VFunction p' ks' ins' (snd ?r))"
      by (intro reads_child_counted n len reads_bind_return)
    then show ?thesis
      by (simp add: Functions f h readStep_def Let_def encodeStep_def stepCounts_def setStep_def)
  next
    case Parameters
    have "unat (of_nat p :: u8) = p" using wf f by (simp add: unsigned_of_nat take_bit_nat_eq_self)
    moreover have "reads (rbind readByte (\<lambda>v. rreturn (c, VFunction (unat v) ks' ins' cs'))) [of_nat p]
        (c, VFunction (unat (of_nat p :: u8)) ks' ins' cs')"
      by (rule reads_bind_return [OF reads_byte])
    ultimately show ?thesis
      by (simp add: Parameters f h readStep_def Let_def encodeStep_def stepCounts_def setStep_def)
  qed
qed

lemma fold_setStep:
  "vf_parameters (fold (setStep f) sts h) = (if Parameters \<in> set sts then vf_parameters f else vf_parameters h)"
  "vf_constants (fold (setStep f) sts h) = (if Constants \<in> set sts then vf_constants f else vf_constants h)"
  "vf_instructions (fold (setStep f) sts h) = (if Instructions \<in> set sts then vf_instructions f else vf_instructions h)"
  "vf_children (fold (setStep f) sts h) = (if Functions \<in> set sts then vf_children f else vf_children h)"
  by (induction sts arbitrary: h) (auto simp: setStep_def split: step.splits)

lemma fold_stepCounts:
  assumes "distinct sts"
  shows "fold (stepCounts f) sts c = addCounts c
    (if Functions \<in> set sts then total_of fTally (vf_children f) else 0)
    ((if Instructions \<in> set sts then countIf (\<lambda>i. \<not> vi_discarded i) (vf_instructions f) else 0) +
      (if Functions \<in> set sts then total_of iTally (vf_children f) else 0))
    ((if Constants \<in> set sts then length (vf_constants f) else 0) +
      (if Functions \<in> set sts then total_of kTally (vf_children f) else 0))"
  using assms
proof (induction sts arbitrary: c)
  case Nil
  then show ?case by (simp add: addCounts_def)
next
  case (Cons st sts)
  then show ?case by (cases st) (simp_all add: stepCounts_def addCounts_def)
qed

lemma reads_steps:
  assumes step: "\<And>st todo c h. fits (insert st todo) f c \<Longrightarrow>
      reads (g (c, h) st) (enc st) (stepCounts f st c, setStep f st h)"
  shows "distinct sts \<Longrightarrow> fits (set sts) f c \<Longrightarrow>
    reads (runSteps g sts (c, h)) (concat (map enc sts)) (fold (stepCounts f) sts c, fold (setStep f) sts h)"
proof (induction sts arbitrary: c h)
  case Nil
  then show ?case by (simp add: reads_return del: rreturn_app)
next
  case (Cons st sts)
  have "reads (rbind (g (c, h) st) (runSteps g sts)) (enc st @ concat (map enc sts))
    (fold (stepCounts f) sts (stepCounts f st c), fold (setStep f) sts (setStep f st h))"
    by (rule reads_bind [OF step [of st "set sts"]], use Cons.prems in simp, rule Cons.IH)
      (use Cons.prems fits_step [of st "set sts" f c] in auto)
  then show ?case by simp
qed

section \<open>The round trip\<close>

text \<open>What every layout and every tag table of the search has.\<close>

lemma layouts_complete:
  assumes "layout \<in> set layouts"
  shows "distinct layout \<and> set layout = UNIV \<and> length layout = 4"
proof -
  have "list_all (\<lambda>l. distinct l \<and> Constants \<in> set l \<and> Instructions \<in> set l \<and> Functions \<in> set l \<and>
      Parameters \<in> set l \<and> length l = 4) layouts"
    by code_simp
  then have l: "distinct layout \<and> Constants \<in> set layout \<and> Instructions \<in> set layout \<and> Functions \<in> set layout \<and>
      Parameters \<in> set layout \<and> length layout = 4"
    using assms by (simp add: list_all_iff)
  moreover have "st \<in> set layout" for st using l by (cases st) auto
  ultimately show ?thesis by auto
qed

lemma tagTables_complete:
  assumes "tags \<in> set tagTables"
  shows "set tags = UNIV \<and> length tags = 4"
proof -
  have "list_all (\<lambda>t. KUnknown \<in> set t \<and> KBoolean \<in> set t \<and> KNumber \<in> set t \<and> KString \<in> set t \<and> length t = 4) tagTables"
    by code_simp
  then have t: "KUnknown \<in> set tags \<and> KBoolean \<in> set tags \<and> KNumber \<in> set tags \<and> KString \<in> set tags \<and> length tags = 4"
    using assms by (simp add: list_all_iff)
  moreover have "k \<in> set tags" for k using t by (cases k) auto
  ultimately show ?thesis by auto
qed

lemma encodeFunction_length:
  assumes "set layout = UNIV"
  shows "5 \<le> length (encodeFunction layout tags f)"
proof -
  have "Constants \<in> set layout" using assms by simp
  then obtain xs ys where l: "layout = xs @ Constants # ys" by (meson split_list)
  have "Parameters \<in> set (xs @ ys)" using assms l by (metis UNIV_I Un_iff insert_iff list.simps(15) set_append step.distinct(5))
  then obtain us vs where u: "xs @ ys = us @ Parameters # vs" by (meson split_list)
  have "length (concat (map (encodeStep layout tags f) (xs @ ys))) \<ge> 1" unfolding u by (simp add: encodeStep_def)
  moreover have "length (encodeFunction layout tags f) =
      length (encodeStep layout tags f Constants) + length (concat (map (encodeStep layout tags f) (xs @ ys)))"
    unfolding encodeFunction_steps by (subst (2) l) simp
  ultimately show ?thesis by (simp add: encodeStep_def)
qed

lemma levels_child: "g \<in> set cs \<Longrightarrow> levels g < levels (VFunction p ks ins cs)"
proof -
  have "x \<in> set xs \<Longrightarrow> x \<le> foldr max xs (0::nat)" for x xs by (induction xs) auto
  then show "g \<in> set cs \<Longrightarrow> levels g < levels (VFunction p ks ins cs)" by (simp add: less_Suc_eq_le)
qed

lemma reads_function:
  assumes layout: "distinct layout" "set layout = UNIV" and tags: "set tags = UNIV" "length tags \<le> 4"
  shows "function_wf f \<Longrightarrow> depth + levels f \<le> kMaxPrototypeDepth + 1 \<Longrightarrow> room f c \<Longrightarrow>
    reads (readFunction layout tags depth c) (encodeFunction layout tags f) (functionCounts f c, f)"
proof (induction f arbitrary: depth c)
  case (VFunction p ks ins cs)
  let ?f = "VFunction p ks ins cs" and ?c = "c\<lparr>t_functions := t_functions c + 1\<rparr>"
  let ?g = "readStep tags (\<lambda>c'. readFunction layout tags (depth + 1) c')"
  have child: "reads (readFunction layout tags (depth + 1) c') (encodeFunction layout tags g) (functionCounts g c', g)"
    if "g \<in> set (vf_children ?f)" "room g c'" for g c'
    by (rule VFunction.IH)
      (use that VFunction.prems levels_child [of g cs p ks ins] in \<open>auto simp: list_all_iff simp del: levels.simps\<close>)
  have fits: "fits (set layout) ?f ?c"
    using VFunction.prems(3) layout(2) by (simp add: fits_def room_def total_of_def)
  have "reads (runSteps ?g layout (?c, emptyFunction)) (concat (map (encodeStep layout tags ?f) layout))
      (fold (stepCounts ?f) layout ?c, fold (setStep ?f) layout emptyFunction)"
    by (rule reads_steps [OF reads_step layout(1) fits], erule (1) child)
      (use VFunction.prems(1) tags encodeFunction_length [OF layout(2)] in auto)
  moreover have "fold (setStep ?f) layout emptyFunction = ?f"
    using fold_setStep [of ?f layout emptyFunction] layout(2) by (intro virtual_function.expand) simp
  moreover have "fold (stepCounts ?f) layout ?c = functionCounts ?f c"
    using layout by (simp add: fold_stepCounts functionCounts_def addCounts_def total_of_def)
  moreover have "\<not> (depth > kMaxPrototypeDepth \<or> t_functions c \<ge> kMaxFunctions)"
    using VFunction.prems(2,3) by (auto simp: room_def)
  ultimately show ?case
    unfolding encodeFunction_steps by (simp add: readFunction.simps [of _ _ depth])
qed

text \<open>Every tree within the limits is read back from its serialized form.\<close>

lemma tree_parse_encode:
  assumes "layout \<in> set layouts" "tags \<in> set tagTables" "tree_wf f"
  shows "tree_parse layout tags (encodeFunction layout tags f) = Some f"
proof -
  have "room f noCounts" using assms(3) by (simp add: room_def tree_wf_def noCounts_def)
  then have "reads (readFunction layout tags 0 noCounts) (encodeFunction layout tags f) (functionCounts f noCounts, f)"
    by (intro reads_function) (use assms layouts_complete tagTables_complete in \<open>auto simp: tree_wf_def\<close>)
  then have "readFunction layout tags 0 noCounts ([] @ encodeFunction layout tags f @ []) (length ([]::u8 list)) =
      Inr ((functionCounts f noCounts, f), length ([]::u8 list) + length (encodeFunction layout tags f))"
    unfolding reads_def by blast
  then show ?thesis by (simp add: tree_parse_def)
qed

end
