(* ===== verification/MoonSec_Search.thy ===== *)
theory MoonSec_Search
  imports MoonSec_Serial
begin

unbundle bit_operations_syntax

text \<open>
  What the two search loops of \<^verbatim>\<open>byteveil_decompiler/MoonSec.cpp\<close> compute: the first candidate with
  the highest score. For \<^verbatim>\<open>extract\<close> the comparison of offsets in the tie-break never decides, because
  literals come in the order of their offsets.
\<close>

section \<open>The first best candidate\<close>

fun firstBest :: "('a \<Rightarrow> nat) \<Rightarrow> 'a list \<Rightarrow> 'a option" where
  "firstBest score [] = None"
| "firstBest score (x # xs) =
    (case firstBest score xs of
       None \<Rightarrow> Some x
     | Some y \<Rightarrow> if score x < score y then Some y else Some x)"

lemma firstBest_None: "firstBest score xs = None \<longleftrightarrow> xs = []"
  by (cases xs) (auto split: option.splits)

lemma firstBest_Some:
  "firstBest score xs = Some y \<Longrightarrow>
    \<exists>us vs. xs = us @ y # vs \<and> (\<forall>u\<in>set us. score u < score y) \<and> (\<forall>v\<in>set vs. score v \<le> score y)"
proof (induction xs arbitrary: y)
  case Nil
  then show ?case by simp
next
  case (Cons x xs)
  show ?case
  proof (cases "firstBest score xs")
    case None
    then show ?thesis using Cons.prems firstBest_None [of score xs] by (intro exI [of _ "[]"] exI [of _ "[]"]) simp
  next
    case (Some z)
    then obtain us vs where z: "xs = us @ z # vs" "\<forall>u\<in>set us. score u < score z" "\<forall>v\<in>set vs. score v \<le> score z"
      using Cons.IH [OF Some] by blast
    show ?thesis
    proof (cases "score x < score z")
      case True
      then show ?thesis using Some Cons.prems z by (intro exI [of _ "x # us"] exI [of _ vs]) auto
    next
      case False
      then have "y = x" using Some Cons.prems by simp
      moreover have "\<forall>v\<in>set xs. score v \<le> score x" using z False by fastforce
      ultimately show ?thesis by (intro exI [of _ "[]"] exI [of _ xs]) simp
    qed
  qed
qed

lemma firstBest_in: "firstBest score xs = Some y \<Longrightarrow> y \<in> set xs"
  using firstBest_Some by fastforce

definition keepHigher :: "('a \<Rightarrow> nat) \<Rightarrow> 'a \<Rightarrow> 'a best \<Rightarrow> 'a best" where
  "keepHigher score x = keepBest (\<lambda>s _ t _. s > t) (score x) x"

lemma fold_keepHigher_Some:
  "fold (keepHigher score) xs (Some (score b, b)) = map_option (\<lambda>y. (score y, y)) (firstBest score (b # xs))"
proof (induction xs arbitrary: b)
  case Nil
  then show ?case by simp
next
  case (Cons x xs)
  show ?case
    using Cons.IH [of b] Cons.IH [of x]
    by (auto simp: keepHigher_def keepBest_def split: option.splits)
qed

lemma fold_keepHigher:
  "fold (keepHigher score) xs None = map_option (\<lambda>y. (score y, y)) (firstBest score xs)"
proof (cases xs)
  case (Cons x ys)
  have "keepHigher score x None = Some (score x, x)" by (simp add: keepHigher_def keepBest_def)
  then show ?thesis using fold_keepHigher_Some [of score ys x] by (simp add: Cons)
qed simp

text \<open>A loop that skips what has no candidate.\<close>

lemma fold_map_filter:
  "fold (\<lambda>x b. case g x of None \<Rightarrow> b | Some y \<Rightarrow> k y b) xs b = fold k (List.map_filter g xs) b"
  by (induction xs arbitrary: b) (auto simp: List.map_filter_simps split: option.splits)

lemma set_map_filter: "set (List.map_filter g xs) = {y. \<exists>x\<in>set xs. g x = Some y}"
  by (induction xs) (auto simp: List.map_filter_simps split: option.splits)

section \<open>probe\<close>

type_synonym probed = "metrics \<times> step list \<times> constant_kind list"

definition probed :: "u8 list \<Rightarrow> step list \<times> constant_kind list \<Rightarrow> probed option" where
  "probed bytes lt = map_option (\<lambda>m. (m, fst lt, snd lt)) (serialized_parse (fst lt) (snd lt) bytes)"

definition probedScore :: "probed \<Rightarrow> nat" where
  "probedScore r = probeScore (fst r)"

definition probeList :: "u8 list \<Rightarrow> probed list" where
  "probeList bytes = List.map_filter (probed bytes) probeCandidates"

lemma probe_fold:
  "fold (probeStep bytes) probeCandidates None = map_option (\<lambda>r. (probedScore r, r)) (firstBest probedScore (probeList bytes))"
proof -
  have "probeStep bytes = (\<lambda>lt b. case probed bytes lt of None \<Rightarrow> b | Some r \<Rightarrow> keepHigher probedScore r b)"
    by (auto simp: fun_eq_iff probeStep_def probed_def keepHigher_def probedScore_def keepBest_def split: option.splits)
  then show ?thesis by (simp add: fold_map_filter fold_keepHigher probeList_def)
qed

lemma probeCandidates_iff: "(layout, tags) \<in> set probeCandidates \<longleftrightarrow> layout \<in> set layouts \<and> tags \<in> set tagTables"
  by (auto simp: probeCandidates_def)

lemma probe_None:
  "probe p = None \<longleftrightarrow>
    (\<forall>layout\<in>set layouts. \<forall>tags\<in>set tagTables. serialized_parse layout tags (pl_bytes p) = None)"
proof -
  have "probe p = None \<longleftrightarrow> probeList (pl_bytes p) = []"
    using firstBest_None [of probedScore "probeList (pl_bytes p)"]
    by (auto simp: probe_def probe_fold split: option.splits)
  also have "\<dots> \<longleftrightarrow> set (probeList (pl_bytes p)) = {}" by simp
  also have "\<dots> \<longleftrightarrow> (\<forall>lt\<in>set probeCandidates. probed (pl_bytes p) lt = None)"
    unfolding probeList_def set_map_filter by (auto simp: not_Some_eq [symmetric] simp del: not_Some_eq)
  also have "\<dots> \<longleftrightarrow> (\<forall>layout\<in>set layouts. \<forall>tags\<in>set tagTables. serialized_parse layout tags (pl_bytes p) = None)"
    unfolding Ball_def split_paired_All by (auto simp: probed_def probeCandidates_iff)
  finally show ?thesis .
qed

lemma probe_Some:
  assumes "probe p = Some q"
  obtains layout tags m where "layout \<in> set layouts" "tags \<in> set tagTables"
    "serialized_parse layout tags (pl_bytes p) = Some m"
    "q = p\<lparr>pl_prototypeLayout := layoutName layout, pl_constantTags := tagName tags,
           pl_functions := m_functions m, pl_instructions := m_instructions m, pl_constants := m_constants m\<rparr>"
proof -
  from assms obtain m layout tags where r: "firstBest probedScore (probeList (pl_bytes p)) = Some (m, layout, tags)"
    and q: "q = p\<lparr>pl_prototypeLayout := layoutName layout, pl_constantTags := tagName tags,
           pl_functions := m_functions m, pl_instructions := m_instructions m, pl_constants := m_constants m\<rparr>"
    by (auto simp: probe_def probe_fold split: option.splits)
  have "(m, layout, tags) \<in> set (probeList (pl_bytes p))" by (rule firstBest_in [OF r])
  then obtain lt where "lt \<in> set probeCandidates" "probed (pl_bytes p) lt = Some (m, layout, tags)"
    by (auto simp: probeList_def set_map_filter)
  then have "(layout, tags) \<in> set probeCandidates" "serialized_parse layout tags (pl_bytes p) = Some m"
    by (auto simp: probed_def)
  then show ?thesis using that [of layout tags m] q by (simp add: probeCandidates_iff)
qed

section \<open>extract\<close>

definition literalCandidates :: "literal \<Rightarrow> payload list" where
  "literalCandidates l =
    (if alphabetCandidate (lit_value l) then List.map_filter (keyCandidate l) [0..<256] else [])"

definition payloadCandidates :: "string \<Rightarrow> payload list" where
  "payloadCandidates source = concat (map literalCandidates (stringsInSource source))"

definition keepPayload :: "payload \<Rightarrow> payload best \<Rightarrow> payload best" where
  "keepPayload p = keepBest betterPayload (payloadScore p) p"

lemma literalStep_fold: "literalStep l best = fold keepPayload (literalCandidates l) best"
proof -
  have "keyStep l = (\<lambda>key b. case keyCandidate l key of None \<Rightarrow> b | Some p \<Rightarrow> keepPayload p b)"
    by (auto simp: fun_eq_iff keyStep_def keepPayload_def split: option.split)
  then show ?thesis by (simp add: literalStep_def literalCandidates_def fold_map_filter)
qed

lemma fold_literalStep: "fold literalStep ls best = fold keepPayload (concat (map literalCandidates ls)) best"
  by (induction ls arbitrary: best) (simp_all add: literalStep_fold)

lemma keyCandidate_offset: "keyCandidate l key = Some p \<Longrightarrow> pl_sourceOffset p = lit_offset l"
  by (auto simp: keyCandidate_def split: option.splits)

lemma literalCandidates_offset: "p \<in> set (literalCandidates l) \<Longrightarrow> pl_sourceOffset p = lit_offset l"
  by (auto simp: literalCandidates_def set_map_filter keyCandidate_offset split: if_splits)

lemma candidates_sorted:
  "sorted_wrt (\<lambda>a b. lit_offset a < lit_offset b) ls \<Longrightarrow>
    sorted_wrt (\<lambda>p q. pl_sourceOffset p \<le> pl_sourceOffset q) (concat (map literalCandidates ls))"
proof (induction ls)
  case Nil
  then show ?case by simp
next
  case (Cons l ls)
  have "sorted_wrt (\<lambda>p q. pl_sourceOffset p \<le> pl_sourceOffset q) ps"
    if "\<forall>p\<in>set ps. pl_sourceOffset p = lit_offset l" for ps
    using that by (induction ps) auto
  then have "sorted_wrt (\<lambda>p q. pl_sourceOffset p \<le> pl_sourceOffset q) (literalCandidates l)"
    using literalCandidates_offset by blast
  moreover have "pl_sourceOffset p \<le> pl_sourceOffset q"
    if "p \<in> set (literalCandidates l)" "q \<in> set (concat (map literalCandidates ls))" for p q
    using that Cons.prems literalCandidates_offset by fastforce
  ultimately show ?case using Cons by (simp add: sorted_wrt_append)
qed

text \<open>Behind a candidate with a smaller offset, a tie never replaces it.\<close>

lemma fold_keepPayload_Some:
  "sorted_wrt (\<lambda>p q. pl_sourceOffset p \<le> pl_sourceOffset q) (b # ps) \<Longrightarrow>
    fold keepPayload ps (Some (payloadScore b, b)) = fold (keepHigher payloadScore) ps (Some (payloadScore b, b))"
proof (induction ps arbitrary: b)
  case Nil
  then show ?case by simp
next
  case (Cons p ps)
  have "keepPayload p (Some (payloadScore b, b)) = keepHigher payloadScore p (Some (payloadScore b, b))"
    using Cons.prems by (auto simp: keepPayload_def keepHigher_def keepBest_def betterPayload_def)
  moreover have "keepHigher payloadScore p (Some (payloadScore b, b)) =
      (if payloadScore b < payloadScore p then Some (payloadScore p, p) else Some (payloadScore b, b))"
    by (simp add: keepHigher_def keepBest_def)
  ultimately show ?case using Cons.IH [of p] Cons.IH [of b] Cons.prems by simp
qed

lemma fold_keepPayload:
  assumes "sorted_wrt (\<lambda>p q. pl_sourceOffset p \<le> pl_sourceOffset q) ps"
  shows "fold keepPayload ps None = map_option (\<lambda>p. (payloadScore p, p)) (firstBest payloadScore ps)"
proof (cases ps)
  case (Cons p qs)
  have "keepPayload p None = Some (payloadScore p, p)" by (simp add: keepPayload_def keepBest_def)
  then show ?thesis using assms fold_keepPayload_Some [of p qs] fold_keepHigher_Some [of payloadScore qs p]
    by (simp add: Cons)
qed simp

lemma extract_best:
  "moonsec_extract source =
    (if \<not> hasMoonSecMarker source then Inl noMarkerMessage
     else case firstBest payloadScore (payloadCandidates source) of
         None \<Rightarrow> Inl noPayloadMessage
       | Some p \<Rightarrow> Inr p)"
proof -
  have "sorted_wrt (\<lambda>p q. pl_sourceOffset p \<le> pl_sourceOffset q) (payloadCandidates source)"
    unfolding payloadCandidates_def by (rule candidates_sorted) (use stringsInSource_sorted in blast)
  from fold_keepPayload [OF this] show ?thesis
    by (auto simp: moonsec_extract_def fold_literalStep payloadCandidates_def split: option.splits)
qed

section \<open>What a candidate decodes to\<close>

lemma keyCandidate_decodes:
  assumes "keyCandidate l key = Some p"
  obtains f where "decodePayload p = Some f" "pl_functions p = m_functions (metrics_of f)"
    "pl_instructions p = m_instructions (metrics_of f)" "pl_constants p = m_constants (metrics_of f)"
    "0 < m_instructions (metrics_of f)"
    "pl_bytes p = decodeAlphabetPayload (lit_value l) key" "pl_key p = key" "pl_checksum p = checksum (pl_bytes p)"
proof -
  let ?p = "emptyPayload\<lparr>pl_bytes := decodeAlphabetPayload (lit_value l) key\<rparr>"
  from assms obtain q where q: "probe ?p = Some q"
    and p: "p = q\<lparr>pl_sourceOffset := lit_offset l, pl_key := key, pl_checksum := checksum (pl_bytes q)\<rparr>"
    by (auto simp: keyCandidate_def split: option.splits)
  from probe_Some [OF q] obtain layout tags m where
    lt: "layout \<in> set layouts" "tags \<in> set tagTables" and m: "serialized_parse layout tags (pl_bytes ?p) = Some m"
    and q_def: "q = ?p\<lparr>pl_prototypeLayout := layoutName layout, pl_constantTags := tagName tags,
           pl_functions := m_functions m, pl_instructions := m_instructions m, pl_constants := m_constants m\<rparr>" .
  have layout: "distinct layout" "length layout = 4" using layouts_complete [OF lt(1)] by auto
  have tags: "length tags = 4" using tagTables_complete [OF lt(2)] by simp
  obtain f where f: "tree_parse layout tags (pl_bytes ?p) = Some f" "m = metrics_of f" "0 < m_instructions m"
    using m serialized_parse_tree [OF layout(1), of tags "pl_bytes ?p"] by (auto split: option.splits if_splits)
  have "decodePayload p = Some f"
    using f(1) by (simp add: decodePayload_def p q_def decodeLayout_layoutName [OF layout(2)] decodeTags_tagName [OF tags])
  then show ?thesis using that f by (simp add: p q_def)
qed

lemma candidate_origin:
  assumes "p \<in> set (payloadCandidates source)"
  obtains l key where "l \<in> set (stringsInSource source)" "alphabetCandidate (lit_value l)" "key < 256"
    "keyCandidate l key = Some p"
  using assms by (auto simp: payloadCandidates_def literalCandidates_def set_map_filter split: if_splits)

lemma encoded_candidate:
  assumes l: "l \<in> set (stringsInSource source)" "lit_value l = alpha @ encodeNibbles alpha key key bytes"
    and alpha: "distinct alpha" "length alpha = 16" "list_all (\<lambda>c. c \<noteq> char_of (13::nat) \<and> c \<noteq> char_of (10::nat)) alpha"
    and key: "key < 256" and len: "1 \<le> length bytes" "length bytes \<le> kMaxPayloadBytes"
    and parse: "layout \<in> set layouts" "tags \<in> set tagTables" "serialized_parse layout tags bytes = Some m"
  shows "payloadCandidates source \<noteq> []"
proof -
  have enc: "length (encodeNibbles alpha k r bytes) = 2 * length bytes" for k r
    by (induction bytes arbitrary: r) (simp_all add: Let_def)
  have "bytes \<noteq> []" using len(1) by auto
  then have "alphabetCandidate (lit_value l)"
    using alpha len(2) \<open>bytes \<noteq> []\<close> by (simp add: alphabetCandidate_def l(2) enc)
  moreover have "decodeAlphabetPayload (lit_value l) key = bytes"
    unfolding l(2) by (rule decodeAlphabetPayload_encode [OF alpha(1,2)])
  then have "probe (emptyPayload\<lparr>pl_bytes := decodeAlphabetPayload (lit_value l) key\<rparr>) \<noteq> None"
    unfolding probe_None using parse by auto
  then obtain p where "keyCandidate l key = Some p" by (auto simp: keyCandidate_def)
  ultimately have "p \<in> set (literalCandidates l)" using key by (auto simp: literalCandidates_def set_map_filter)
  then have "p \<in> set (payloadCandidates source)" using l(1) by (auto simp: payloadCandidates_def)
  then show ?thesis by auto
qed

text \<open>The reports begin differently.\<close>

lemma reports_distinct:
  "virtualReport p f \<noteq> internalDecodeError" "notRecovered source e \<noteq> internalDecodeError"
  by (simp_all add: virtualReport_def internalDecodeError_def notRecovered_def virtualPrefix_def field_def quoted_def
      bool_text_def)

end
