(* ===== verification/MoonSec_Properties.thy ===== *)
theory MoonSec_Properties
  imports MoonSec_Search
begin

unbundle bit_operations_syntax

text \<open>
  The properties of the MoonSec adapter, with their witnesses on a small protected source: a
  visible marker and one literal that encodes a prototype with one instruction.
\<close>

definition tinyTree :: virtual_function where
  "tinyTree = VFunction 2
    [\<lparr>vc_kind = KBoolean, vc_boolean = True, vc_bytes = []\<rparr>, \<lparr>vc_kind = KString, vc_boolean = False, vc_bytes = [200, 7]\<rparr>]
    [\<lparr>vi_pc = 0, vi_descriptor = 12, vi_discarded = False, vi_opNum = - 3, vi_a = 1, vi_b = - 65534, vi_c = 0,
       vi_isKA = True, vi_isKB = False, vi_isKC = False\<rparr>,
     \<lparr>vi_pc = 1, vi_descriptor = 1, vi_discarded = True, vi_opNum = 0, vi_a = 0, vi_b = 0, vi_c = 0,
       vi_isKA = False, vi_isKB = False, vi_isKC = False\<rparr>]
    [VFunction 0 [] [] []]"

definition tinyLayout :: "step list" where
  "tinyLayout = [Constants, Instructions, Functions, Parameters]"

definition tinyTags :: "constant_kind list" where
  "tinyTags = [KBoolean, KNumber, KString, KUnknown]"

definition tinyAlphabet :: string where
  "tinyAlphabet = ''0123456789abcdef''"

definition tinyBytes :: "u8 list" where
  "tinyBytes = encodeFunction tinyLayout tinyTags tinyTree"

definition tinySource :: string where
  "tinySource = ''--MoonSec V3'' @ [char_of (10::nat), CHR 0x22] @ tinyAlphabet @
     encodeNibbles tinyAlphabet 5 5 tinyBytes @ [CHR 0x22]"

lemma tiny_choice: "tinyLayout \<in> set layouts" "tinyTags \<in> set tagTables"
  by code_simp+

lemma tiny_wf: "tree_wf tinyTree"
  unfolding tree_wf_def
  by (simp add: tinyTree_def constant_wf_def instruction_wf_def operands_wf_def form_of_def in16_def in32_def
      kMaxPayloadBytes_def kMaxPrototypeDepth_def kMaxFunctions_def kMaxInstructions_def kMaxConstants_def)

text \<open>
  C21: The tree reader answers on exactly the bytes the counting reader accepts (up to trees without
  a live instruction, which only the counting reader refuses), and what was counted is what the tree
  holds: prototypes, instructions that are not discarded, constants, string constants, constants
  that are not nil.
\<close>

theorem counting_reader_agrees_with_tree:
  "layout \<in> set layouts \<Longrightarrow>
   serialized_parse layout tags bytes =
    (case tree_parse layout tags bytes of
       None \<Rightarrow> None
     | Some f \<Rightarrow> if m_instructions (metrics_of f) = 0 then None else Some (metrics_of f))"
  by (rule serialized_parse_tree) (use layouts_complete in blast)

theorem counting_reader_agrees_with_tree_witness:
  "serialized_parse tinyLayout tinyTags tinyBytes =
    (case tree_parse tinyLayout tinyTags tinyBytes of
       None \<Rightarrow> None
     | Some f \<Rightarrow> if m_instructions (metrics_of f) = 0 then None else Some (metrics_of f))"
  by (rule counting_reader_agrees_with_tree [OF tiny_choice(1)])

text \<open>
  C22: Reading back: for every layout and every tag table the search tries, the tree reader yields
  exactly the tree that was serialized, operands, signs and biased immediates included, for every
  tree within the reader's limits.
\<close>

theorem virtual_tree_roundtrip:
  "layout \<in> set layouts \<Longrightarrow> tags \<in> set tagTables \<Longrightarrow> tree_wf f \<Longrightarrow>
    tree_parse layout tags (encodeFunction layout tags f) = Some f"
  by (rule tree_parse_encode)

theorem virtual_tree_roundtrip_witness:
  "tree_parse tinyLayout tinyTags (encodeFunction tinyLayout tinyTags tinyTree) = Some tinyTree"
  by (rule virtual_tree_roundtrip [OF tiny_choice tiny_wf])

text \<open>
  C23: \<^verbatim>\<open>extract\<close> fails with the marker message without a marker, with the other message when no
  literal and key give a structurally valid prototype, and otherwise returns the first of the
  candidates, in the order of literals and keys, that has the highest score: the comparison of
  offsets in the tie-break never changes the answer.
\<close>

theorem extract_is_first_best:
  "moonsec_extract source =
    (if \<not> hasMoonSecMarker source then Inl noMarkerMessage
     else case firstBest payloadScore (payloadCandidates source) of
         None \<Rightarrow> Inl noPayloadMessage
       | Some p \<Rightarrow> Inr p)"
  by (rule extract_best)

text \<open>
  C24: Whatever \<^verbatim>\<open>extract\<close> returns decodes, by the recorded layout and tag names, to a prototype tree
  whose counts are the reported ones, with at least one live instruction, and carries the checksum
  of its bytes and a key below 256.
\<close>

theorem extracted_payload_decodes:
  "case moonsec_extract source of
     Inl e \<Rightarrow> e = noMarkerMessage \<or> e = noPayloadMessage
   | Inr p \<Rightarrow>
       (case decodePayload p of
          None \<Rightarrow> False
        | Some f \<Rightarrow> pl_functions p = m_functions (metrics_of f) \<and> pl_instructions p = m_instructions (metrics_of f) \<and>
            pl_constants p = m_constants (metrics_of f) \<and> 0 < pl_instructions p \<and>
            pl_checksum p = checksum (pl_bytes p) \<and> pl_key p < 256)"
proof (cases "moonsec_extract source")
  case (Inl e)
  then show ?thesis by (auto simp: extract_best split: if_splits option.splits)
next
  case (Inr p)
  then have "firstBest payloadScore (payloadCandidates source) = Some p"
    by (auto simp: extract_best split: if_splits option.splits)
  then have "p \<in> set (payloadCandidates source)" by (rule firstBest_in)
  then obtain l key where "key < 256" "keyCandidate l key = Some p" by (rule candidate_origin)
  then show ?thesis using Inr by (elim keyCandidate_decodes) simp
qed

text \<open>The branch of \<^verbatim>\<open>inspectVirtualIR\<close> that reports an internal decode error is never taken.\<close>

theorem internal_decode_error_unreachable: "inspectVirtualIR source \<noteq> internalDecodeError"
proof (cases "moonsec_extract source")
  case (Inl e)
  then show ?thesis by (simp add: inspectVirtualIR_def reports_distinct)
next
  case (Inr p)
  then have "firstBest payloadScore (payloadCandidates source) = Some p"
    by (auto simp: extract_best split: if_splits option.splits)
  then have "p \<in> set (payloadCandidates source)" by (rule firstBest_in)
  then obtain l key where "keyCandidate l key = Some p" by (rule candidate_origin)
  then obtain f where "decodePayload p = Some f" by (rule keyCandidate_decodes)
  then show ?thesis using Inr by (simp add: inspectVirtualIR_def reports_distinct)
qed

text \<open>
  C26: Completeness: when a literal of a marked source is an alphabet followed by the nibbles, under
  some key, of a serialized tree with a live instruction, the adapter recovers a payload and the
  virtual report is rendered.
\<close>

theorem protected_source_is_recovered:
  assumes "hasMoonSecMarker source" "l \<in> set (stringsInSource source)"
    and "lit_value l = alpha @ encodeNibbles alpha key key (encodeFunction layout tags f)"
    and "distinct alpha" "length alpha = 16" "list_all (\<lambda>c. c \<noteq> char_of (13::nat) \<and> c \<noteq> char_of (10::nat)) alpha"
    and "key < 256" "length (encodeFunction layout tags f) \<le> kMaxPayloadBytes"
    and "layout \<in> set layouts" "tags \<in> set tagTables" "tree_wf f" "0 < m_instructions (metrics_of f)"
  shows "\<exists>p root. moonsec_extract source = Inr p \<and> decodePayload p = Some root \<and>
    inspectVirtualIR source = virtualReport p root"
proof -
  have layout: "distinct layout" "set layout = UNIV" using layouts_complete [OF assms(9)] by auto
  have "serialized_parse layout tags (encodeFunction layout tags f) = Some (metrics_of f)"
    using assms(12) by (simp add: serialized_parse_tree [OF layout(1)] tree_parse_encode [OF assms(9,10,11)])
  moreover have "1 \<le> length (encodeFunction layout tags f)" using encodeFunction_length [OF layout(2), of tags f] by simp
  ultimately have "payloadCandidates source \<noteq> []"
    by (intro encoded_candidate [OF assms(2-7) _ assms(8-10)])
  then obtain p where p: "firstBest payloadScore (payloadCandidates source) = Some p"
    using firstBest_None by (metis option.exhaust)
  then have "p \<in> set (payloadCandidates source)" by (rule firstBest_in)
  then obtain l key where "keyCandidate l key = Some p" by (rule candidate_origin)
  then obtain root where "decodePayload p = Some root" by (rule keyCandidate_decodes)
  moreover have "moonsec_extract source = Inr p" using p assms(1) by (simp add: extract_best)
  ultimately show ?thesis by (simp add: inspectVirtualIR_def)
qed

theorem protected_source_is_recovered_witness:
  "\<exists>p root. moonsec_extract tinySource = Inr p \<and> decodePayload p = Some root \<and>
    inspectVirtualIR tinySource = virtualReport p root"
proof (rule protected_source_is_recovered [where l = "hd (stringsInSource tinySource)" and alpha = tinyAlphabet and
      key = 5 and layout = tinyLayout and tags = tinyTags and f = tinyTree])
  show "hasMoonSecMarker tinySource" by code_simp
  show "hd (stringsInSource tinySource) \<in> set (stringsInSource tinySource)" by code_simp
  show "lit_value (hd (stringsInSource tinySource)) =
      tinyAlphabet @ encodeNibbles tinyAlphabet 5 5 (encodeFunction tinyLayout tinyTags tinyTree)" by code_simp
  show "distinct tinyAlphabet" "length tinyAlphabet = 16"
    "list_all (\<lambda>c. c \<noteq> char_of (13::nat) \<and> c \<noteq> char_of (10::nat)) tinyAlphabet" by code_simp+
  have "length (encodeFunction tinyLayout tinyTags tinyTree) = 45" by code_simp
  then show "length (encodeFunction tinyLayout tinyTags tinyTree) \<le> kMaxPayloadBytes" by (simp add: kMaxPayloadBytes_def)
  show "0 < m_instructions (metrics_of tinyTree)" by code_simp
qed (use tiny_choice tiny_wf in simp_all)

text \<open>\<^verbatim>\<open>jsonEscape\<close> loses nothing: undoing the escapes gives the text back.\<close>

theorem json_escape_roundtrip: "jsonUnescape (jsonEscape s) = Some s"
  by (rule jsonUnescape_escape)

end
