(* ===== verification/Roblox_Bytecode.thy ===== *)
theory Roblox_Bytecode
  imports Byte_Reader Luau_Bytecode
begin

unbundle bit_operations_syntax

text \<open>
  \<^verbatim>\<open>byteveil_decompiler/RobloxBytecode.cpp\<close>: the bounds-checked walk over a serialized Luau
  bytecode file that finds the instruction words of every prototype, and the two opcode
  encodings that are tried on them. The lemmas show that the recorded code ranges lie inside the
  input and do not overlap, that decoding touches nothing but opcode bytes, and that the two
  encodings are inverse to each other.
\<close>

section \<open>The reader\<close>

definition kMaxInputBytes :: nat where "kMaxInputBytes = 256 * 1024 * 1024"
definition kMaxObjects :: nat where "kMaxObjects = 2000000"

record code_range =
  cr_offset :: nat
  cr_words :: nat

definition r_u8 :: "u8 reader" where
  "r_u8 bs pos = (if length bs - pos < 1 then Inl ''truncated byte'' else Inr (bs ! pos, pos + 1))"

definition r_u32 :: "u32 reader" where
  "r_u32 bs pos =
    (if length bs - pos < 4 then Inl ''truncated 32-bit value''
     else Inr (ucast (bs ! pos) OR push_bit 8 (ucast (bs ! (pos + 1))) OR
               push_bit 16 (ucast (bs ! (pos + 2))) OR push_bit 24 (ucast (bs ! (pos + 3))), pos + 4))"

text \<open>The loop of \<^verbatim>\<open>var\<close>: \<open>n\<close> turns are left, the next one is turn \<open>i\<close>.\<close>

fun var_loop :: "nat \<Rightarrow> nat \<Rightarrow> u32 \<Rightarrow> u32 reader" where
  "var_loop 0 i value = rfail ''ULEB128 integer is too long''"
| "var_loop (Suc n) i value =
    rbind r_u8 (\<lambda>byte.
      if i = 4 \<and> byte AND 0xf0 \<noteq> 0 then rfail ''ULEB128 integer overflow''
      else let value' = value OR push_bit (i * 7) (ucast (byte AND 0x7f)) in
        if byte AND 0x80 = 0 then rreturn value' else var_loop n (i + 1) value')"

definition r_var :: "u32 reader" where
  "r_var = var_loop 5 0 0"

fun var64_loop :: "nat \<Rightarrow> nat \<Rightarrow> unit reader" where
  "var64_loop 0 i = rfail ''64-bit ULEB128 integer is too long''"
| "var64_loop (Suc n) i =
    rbind r_u8 (\<lambda>byte.
      if i = 9 \<and> byte AND 0xfe \<noteq> 0 then rfail ''64-bit ULEB128 integer overflow''
      else if byte AND 0x80 = 0 then rreturn () else var64_loop n (i + 1))"

definition r_var64 :: "unit reader" where
  "r_var64 = var64_loop 10 0"

definition r_skip :: "nat \<Rightarrow> unit reader" where
  "r_skip count bs pos = (if count > length bs - pos then Inl ''truncated field'' else Inr ((), pos + count))"

text \<open>The helpers \<^verbatim>\<open>count\<close> and \<^verbatim>\<open>stringId\<close>; \<open>r_index\<close> is a variable-length index checked against a bound.\<close>

definition r_count :: "string \<Rightarrow> nat reader" where
  "r_count name = rbind r_var (\<lambda>v. rbind (rcheck (\<not> unat v > kMaxObjects) name) (\<lambda>_. rreturn (unat v)))"

definition r_stringId :: "nat \<Rightarrow> unit reader" where
  "r_stringId strings = rbind r_var (\<lambda>v. rcheck (\<not> unat v > strings) ''string table index is out of range'')"

definition r_index :: "nat \<Rightarrow> string \<Rightarrow> unit reader" where
  "r_index bound msg = rbind r_var (\<lambda>v. rcheck (unat v < bound) msg)"

definition r_flag :: "string \<Rightarrow> bool reader" where
  "r_flag msg = rbind r_u8 (\<lambda>v. rbind (rcheck (\<not> unat v > 1) msg) (\<lambda>_. rreturn (v \<noteq> 0)))"

section \<open>The serialized file\<close>

abbreviation (input) LBC_VERSION_MIN :: nat where "LBC_VERSION_MIN \<equiv> 3"
abbreviation (input) LBC_VERSION_MAX :: nat where "LBC_VERSION_MAX \<equiv> 14"
abbreviation (input) LBC_TYPE_VERSION_MIN :: nat where "LBC_TYPE_VERSION_MIN \<equiv> 1"
abbreviation (input) LBC_TYPE_VERSION_MAX :: nat where "LBC_TYPE_VERSION_MAX \<equiv> 3"

text \<open>The string table; the loop carries \<^verbatim>\<open>totalStringBytes\<close>.\<close>

definition parse_strings :: "nat \<Rightarrow> nat reader" where
  "parse_strings stringCount =
    rloop stringCount (\<lambda>tot. rbind r_var (\<lambda>len.
      let tot' = tot + unat len in
      rbind (rcheck (\<not> tot' > kMaxInputBytes) ''string data exceeds safety limit'') (\<lambda>_.
      rbind (r_skip (unat len)) (\<lambda>_. rreturn tot')))) 0"

text \<open>
  The userdata type map: entries until a zero byte, at most 255. The bound on the turns is the
  one the loop itself enforces: turn 256 reads a nonzero byte and fails.
\<close>

fun parse_userdata :: "nat \<Rightarrow> nat \<Rightarrow> nat \<Rightarrow> unit reader" where
  "parse_userdata 0 stringCount entries = rfail ''userdata type map exceeds safety limit''"
| "parse_userdata (Suc n) stringCount entries =
    rbind r_u8 (\<lambda>index. if index = 0 then rreturn ()
      else rbind (rcheck (\<not> entries + 1 > 255) ''userdata type map exceeds safety limit'') (\<lambda>_.
           rbind (r_stringId stringCount) (\<lambda>_. parse_userdata n stringCount (entries + 1))))"

text \<open>One entry of a constant table, the \<^verbatim>\<open>switch (kind)\<close>.\<close>

definition parse_constant :: "nat \<Rightarrow> nat \<Rightarrow> nat \<Rightarrow> nat \<Rightarrow> unit reader" where
  "parse_constant version stringCount protoCount constantCount =
    rbind r_u8 (\<lambda>kind.
      let k = unat kind in
      if k = 0 then rreturn ()
      else if k = 1 then r_skip 1
      else if k = 2 then r_skip 8
      else if k = 3 then r_stringId stringCount
      else if k = 4 then r_skip 4
      else if k = 5 then
        rbind (r_count ''table constant key count exceeds safety limit'') (\<lambda>a.
          rloop a (\<lambda>_. r_index constantCount ''table constant key index is out of range'') ())
      else if k = 6 then r_index protoCount ''closure prototype index is out of range''
      else if k = 7 then
        rbind (rcheck (\<not> version < 5) ''vector constant is invalid for bytecode version'') (\<lambda>_. r_skip 16)
      else if k = 8 then
        rbind (rcheck (\<not> version < 7) ''table-with-constants requires bytecode version 7'') (\<lambda>_.
        rbind (r_count ''table-with-constants key count exceeds safety limit'') (\<lambda>a.
          rloop a (\<lambda>_.
            rbind (r_index constantCount ''table-with-constants data is invalid'') (\<lambda>_.
            rbind r_u32 (\<lambda>c.
              rcheck (\<not> (sint c \<ge> 0 \<and> unat c \<ge> constantCount))
                ''table constant value index is out of range''))) ()))
      else if k = 9 then
        rbind (rcheck (\<not> version < 8) ''integer constant is invalid for bytecode version'') (\<lambda>_.
        rbind (r_skip 1) (\<lambda>_. r_var64))
      else if k = 10 then
        rbind (rcheck (\<not> version < 10) ''class shape is invalid for bytecode version'') (\<lambda>_.
        rbind (r_index constantCount ''class shape is invalid for bytecode version'') (\<lambda>_.
        rbind r_var (\<lambda>b. rbind r_var (\<lambda>c.
        rbind (rcheck (\<not> unat b + unat c > kMaxObjects) ''class shape member count exceeds safety limit'') (\<lambda>_.
          rloop (unat b + unat c)
            (\<lambda>_. r_index constantCount ''class shape member index is out of range'') ())))))
      else if k = 11 then
        rbind (rcheck (\<not> version < 13) ''double vector constant is invalid for bytecode version'') (\<lambda>_.
          r_skip 32)
      else rfail (''unknown Luau constant tag '' @ nat_text k))"

text \<open>Line information and debug information of a prototype.\<close>

definition parse_lineinfo :: "nat \<Rightarrow> unit reader" where
  "parse_lineinfo codeWords =
    rbind (r_flag ''invalid line-info flag'') (\<lambda>lineInfo.
      if lineInfo then
        rbind r_u8 (\<lambda>gap.
        rbind (rcheck (\<not> unat gap \<ge> 32) ''invalid line-info interval'') (\<lambda>_.
          let intervals = (if codeWords = 0 then 0 else drop_bit (unat gap) (codeWords - 1) + 1) in
          r_skip (codeWords + intervals * 4)))
      else rreturn ())"

definition parse_debuginfo :: "nat \<Rightarrow> nat \<Rightarrow> unit reader" where
  "parse_debuginfo stringCount maxStack =
    rbind (r_flag ''invalid debug-info flag'') (\<lambda>debugInfo.
      if debugInfo then
        rbind (r_count ''local debug count exceeds safety limit'') (\<lambda>localCount.
        rbind (rloop localCount (\<lambda>_.
          rbind (r_stringId stringCount) (\<lambda>_. rbind r_var (\<lambda>_. rbind r_var (\<lambda>_. rbind r_u8 (\<lambda>r.
            rcheck (\<not> unat r \<ge> maxStack) ''debug local register is out of range''))))) ()) (\<lambda>_.
        rbind (r_count ''upvalue debug count exceeds safety limit'') (\<lambda>upvalueNameCount.
          rloop upvalueNameCount (\<lambda>_. r_stringId stringCount) ())))
      else rreturn ())"

definition parse_feedback :: "unit reader" where
  "parse_feedback =
    rbind (r_count ''feedback-vector count exceeds safety limit'') (\<lambda>feedbackCount.
      rloop feedbackCount (\<lambda>_.
        rbind r_u8 (\<lambda>slotKind.
        rbind (rcheck (\<not> slotKind \<noteq> 0) ''unsupported feedback-vector slot'') (\<lambda>_.
        rbind r_var (\<lambda>_. rreturn ())))) ())"

text \<open>
  The body of the loop over the prototypes. The loop carries the aggregate counts and the code
  ranges recorded so far.
\<close>

record proto_totals =
  totalCodeWords :: nat
  totalConstants :: nat
  ranges :: "code_range list"

text \<open>What the fields before the code words leave for the rest of the loop body.\<close>

record proto_header =
  h_protoEnd :: nat
  h_maxStack :: u8
  h_flags :: u8
  h_codeWords :: nat

definition parse_header :: "nat \<Rightarrow> proto_totals \<Rightarrow> proto_header reader" where
  "parse_header version st =
    rbind rremaining (\<lambda>rest0. rbind roffset (\<lambda>pos0.
    rbind (if version \<ge> 12 then
        rbind r_var (\<lambda>protoSize. rbind rremaining (\<lambda>rest.
        rbind (rcheck (\<not> (unat protoSize = 0 \<or> unat protoSize > rest)) ''prototype size is out of range'') (\<lambda>_.
        rbind roffset (\<lambda>pos. rreturn (pos + unat protoSize)))))
      else rreturn (pos0 + rest0)) (\<lambda>protoEnd.
    rbind r_u8 (\<lambda>maxStack. rbind r_u8 (\<lambda>params. rbind r_u8 (\<lambda>upvalues. rbind r_u8 (\<lambda>vararg.
    rbind (rcheck (\<not> (params > maxStack \<or> unat upvalues > 200 \<or> unat vararg > 1))
      ''invalid prototype register metadata'') (\<lambda>_.
    rbind (if version \<ge> 4 then
        rbind r_u8 (\<lambda>flags. rbind r_var (\<lambda>typeInfoSize. rbind (r_skip (unat typeInfoSize)) (\<lambda>_. rreturn flags)))
      else rreturn 0) (\<lambda>flags.
    rbind (r_count ''instruction word count exceeds safety limit'') (\<lambda>codeWords.
    rbind (rcheck (\<not> totalCodeWords st + codeWords > kMaxObjects)
      ''aggregate instruction word count exceeds safety limit'') (\<lambda>_.
    rreturn \<lparr>h_protoEnd = protoEnd, h_maxStack = maxStack, h_flags = flags, h_codeWords = codeWords\<rparr>)))))))))))"

text \<open>The fields after the code words; the result is the constant count.\<close>

definition parse_tail :: "nat \<Rightarrow> nat \<Rightarrow> nat \<Rightarrow> proto_totals \<Rightarrow> proto_header \<Rightarrow> nat reader" where
  "parse_tail version stringCount protoCount st h =
    rbind (r_count ''constant count exceeds safety limit'') (\<lambda>constantCount.
    rbind (rcheck (\<not> totalConstants st + constantCount > kMaxObjects)
      ''aggregate constant count exceeds safety limit'') (\<lambda>_.
    rbind (rloop constantCount (\<lambda>_. parse_constant version stringCount protoCount constantCount) ()) (\<lambda>_.
    rbind (r_count ''child prototype count exceeds safety limit'') (\<lambda>childCount.
    rbind (rloop childCount (\<lambda>_. r_index protoCount ''child prototype index is out of range'') ()) (\<lambda>_.
    rbind r_var (\<lambda>_. rbind (r_stringId stringCount) (\<lambda>_.
    rbind (parse_lineinfo (h_codeWords h)) (\<lambda>_.
    rbind (parse_debuginfo stringCount (unat (h_maxStack h))) (\<lambda>_.
    rbind (if version \<ge> 11 then parse_feedback else rreturn ()) (\<lambda>_.
    rbind (if version \<ge> 12 then
        rbind (if h_flags h AND 8 \<noteq> 0 then r_var64 else rreturn ()) (\<lambda>_.
        rbind roffset (\<lambda>pos.
        rbind (rcheck (\<not> pos > h_protoEnd h) ''prototype fields exceed declared size'') (\<lambda>_.
          r_skip (h_protoEnd h - pos))))
      else rreturn ()) (\<lambda>_.
    rreturn constantCount)))))))))))"

definition parse_proto :: "nat \<Rightarrow> nat \<Rightarrow> nat \<Rightarrow> proto_totals \<Rightarrow> proto_totals reader" where
  "parse_proto version stringCount protoCount st =
    rbind (parse_header version st) (\<lambda>h.
    rbind roffset (\<lambda>codeOffset.
    rbind (r_skip (h_codeWords h * 4)) (\<lambda>_.
    rbind (parse_tail version stringCount protoCount st h) (\<lambda>constantCount.
    rreturn \<lparr>totalCodeWords = totalCodeWords st + h_codeWords h,
      totalConstants = totalConstants st + constantCount,
      ranges = ranges st @ [\<lparr>cr_offset = codeOffset, cr_words = h_codeWords h\<rparr>]\<rparr>))))"

text \<open>The file after the optional prefix, and the prefix itself.\<close>

definition parse_file_head :: "(nat \<times> nat \<times> nat) reader" where
  "parse_file_head =
    rbind r_u8 (\<lambda>v. let version = unat v in
    rbind (rcheck (\<not> (version < LBC_VERSION_MIN \<or> version > LBC_VERSION_MAX))
      ''unsupported Luau bytecode version'') (\<lambda>_.
    rbind (if version \<ge> 4 then
        rbind r_u8 (\<lambda>t. rbind (rcheck (\<not> (unat t < LBC_TYPE_VERSION_MIN \<or> unat t > LBC_TYPE_VERSION_MAX))
          ''unsupported Luau type-info version'') (\<lambda>_. rreturn (unat t)))
      else rreturn 0) (\<lambda>typeVersion.
    rbind (r_count ''string table count exceeds safety limit'') (\<lambda>stringCount.
    rbind (parse_strings stringCount) (\<lambda>_.
    rbind (if typeVersion = 3 then parse_userdata 256 stringCount 0 else rreturn ()) (\<lambda>_.
    rbind (r_count ''prototype count exceeds safety limit'') (\<lambda>protoCount.
    rbind (rcheck (protoCount \<noteq> 0) ''prototype table is empty'') (\<lambda>_.
    rreturn (version, stringCount, protoCount)))))))))"

definition parse_file_tail :: "nat \<Rightarrow> unit reader" where
  "parse_file_tail protoCount =
    rbind (r_index protoCount ''main prototype index is out of range'') (\<lambda>_.
    rbind rremaining (\<lambda>trailing.
    rcheck (\<not> (trailing \<noteq> 0 \<and> trailing \<noteq> 24))
      ''unexpected trailing data after main prototype (expected 0 or 24 bytes)''))"

definition parse_file :: "(nat \<times> code_range list) reader" where
  "parse_file =
    rbind parse_file_head (\<lambda>(version, stringCount, protoCount).
    rbind (rloop protoCount (parse_proto version stringCount protoCount)
        \<lparr>totalCodeWords = 0, totalConstants = 0, ranges = []\<rparr>) (\<lambda>st.
    rbind (parse_file_tail protoCount) (\<lambda>_.
    rreturn (version, ranges st))))"

definition luauPrefix :: "u8 list" where
  "luauPrefix = [0x1b, 0x4c, 0x75, 0x61, 0x75]"

definition remove_prefix :: "u8 list \<Rightarrow> u8 list" where
  "remove_prefix input =
    (if length input \<ge> 5 \<and> take 5 input = luauPrefix then drop 5 input else input)"

definition parse :: "u8 list \<Rightarrow> (nat \<times> code_range list) res" where
  "parse input0 =
    (let input = remove_prefix input0 in
     if input = [] then Inl ''empty input''
     else if length input > kMaxInputBytes then Inl ''input exceeds 256 MiB safety limit''
     else andthen (parse_file input 0) (\<lambda>(r, pos). Inr r))"

definition isBytecode :: "u8 list \<Rightarrow> bool" where
  "isBytecode input = (case parse input of Inr _ \<Rightarrow> True | Inl _ \<Rightarrow> False)"

section \<open>Opcode encodings\<close>

text \<open>
  The walk over the words of one range. A byte outside the string is the unspecified value \<open>oob\<close>.
\<close>

definition byteAt :: "u8 \<Rightarrow> u8 list \<Rightarrow> nat \<Rightarrow> u8" where
  "byteAt oob bytes i = (if i < length bytes then bytes ! i else oob)"

function transformRange :: "u8 \<Rightarrow> u32 \<Rightarrow> code_range \<Rightarrow> nat \<Rightarrow> u8 list \<Rightarrow> u8 list res" where
  "transformRange oob multiplier rg pc bytes =
    (if pc < cr_words rg then
       (let opcodeOffset = cr_offset rg + pc * 4;
            encoded = byteAt oob bytes opcodeOffset;
            opcode = (ucast ((ucast encoded * multiplier) AND 0xff :: u32) :: u8);
            len = getOpLength (unat opcode) in
        if unat opcode \<ge> LOP_COUNT then
          Inl (''unknown opcode '' @ nat_text (unat opcode) @ '' at code word '' @ nat_text pc)
        else if len = 0 \<or> len > cr_words rg - pc then
          Inl (''instruction AUX word is truncated at code word '' @ nat_text pc)
        else transformRange oob multiplier rg (pc + len) (bytes[opcodeOffset := opcode]))
     else Inr bytes)"
  by pat_completeness auto
termination
  by (relation "measure (\<lambda>(oob, m, rg, pc, bytes). cr_words rg - pc)") (auto intro!: diff_less_mono2)

declare transformRange.simps [simp del]

fun applyOpcodeTransform :: "u8 \<Rightarrow> u32 \<Rightarrow> code_range list \<Rightarrow> u8 list \<Rightarrow> u8 list res" where
  "applyOpcodeTransform oob multiplier [] bytes = Inr bytes"
| "applyOpcodeTransform oob multiplier (r # rs) bytes =
    andthen (transformRange oob multiplier r 0 bytes) (applyOpcodeTransform oob multiplier rs)"

text \<open>The loop over the two multipliers; the error string is threaded through, starting from \<open>err\<close>.\<close>

definition tryMultiplier ::
  "u8 \<Rightarrow> u8 list \<Rightarrow> code_range list \<Rightarrow> u32 \<Rightarrow> u8 list list \<times> string \<Rightarrow> u8 list list \<times> string" where
  "tryMultiplier oob input rs multiplier s =
    (case applyOpcodeTransform oob multiplier rs input of
       Inl e \<Rightarrow> (if multiplier = 1 then s else (fst s, ''Roblox opcode decoding failed: '' @ e))
     | Inr candidate \<Rightarrow>
         (if fst s = [] \<or> hd (fst s) \<noteq> candidate then (fst s @ [candidate], snd s) else s))"

definition opcodeVariants :: "u8 \<Rightarrow> string \<Rightarrow> u8 list \<Rightarrow> u8 list list res" where
  "opcodeVariants oob err input0 =
    andthen (parse input0) (\<lambda>(version, rs).
      let input = remove_prefix input0;
          (variants, err') = fold (tryMultiplier oob input rs) [1, 203] ([], err)
      in if variants = []
         then Inl (if err' = [] then ''no supported opcode encoding was found'' else err')
         else Inr variants)"

section \<open>Readers of this file stay inside the input\<close>

lemma scans_u8 [scans_intros]: "scans r_u8"
  by (auto simp: scans_def r_u8_def split: if_splits)

lemma scans_u32 [scans_intros]: "scans r_u32"
  by (auto simp: scans_def r_u32_def split: if_splits)

lemma scans_skip [scans_intros]: "scans (r_skip n)"
  by (auto simp: scans_def r_skip_def split: if_splits)

lemma scans_var_loop: "scans (var_loop n i v)"
  by (induction n i v rule: var_loop.induct) (simp_all only: var_loop.simps Let_def, (intro scans_intros; simp)+)

lemma scans_var [scans_intros]: "scans r_var"
  by (simp add: r_var_def scans_var_loop)

lemma scans_var64_loop: "scans (var64_loop n i)"
  by (induction n i rule: var64_loop.induct) (simp_all only: var64_loop.simps, (intro scans_intros; simp)+)

lemma scans_var64 [scans_intros]: "scans r_var64"
  by (simp add: r_var64_def scans_var64_loop)

lemma scans_count [scans_intros]: "scans (r_count name)"
  unfolding r_count_def by (intro scans_intros)

lemma scans_stringId [scans_intros]: "scans (r_stringId n)"
  unfolding r_stringId_def by (intro scans_intros)

lemma scans_index [scans_intros]: "scans (r_index n m)"
  unfolding r_index_def by (intro scans_intros)

lemma scans_flag [scans_intros]: "scans (r_flag m)"
  unfolding r_flag_def by (intro scans_intros)

lemma scans_strings [scans_intros]: "scans (parse_strings n)"
  unfolding parse_strings_def Let_def by (intro scans_intros)

lemma scans_userdata [scans_intros]: "scans (parse_userdata n s e)"
  by (induction n s e rule: parse_userdata.induct) (simp_all only: parse_userdata.simps, (intro scans_intros; simp)+)

lemma scans_constant [scans_intros]: "scans (parse_constant v s p c)"
  unfolding parse_constant_def Let_def by (intro scans_intros)

lemma scans_lineinfo [scans_intros]: "scans (parse_lineinfo n)"
  unfolding parse_lineinfo_def Let_def by (intro scans_intros)

lemma scans_debuginfo [scans_intros]: "scans (parse_debuginfo s m)"
  unfolding parse_debuginfo_def by (intro scans_intros)

lemma scans_feedback [scans_intros]: "scans parse_feedback"
  unfolding parse_feedback_def by (intro scans_intros)

lemma scans_header [scans_intros]: "scans (parse_header v st)"
  unfolding parse_header_def by (intro scans_intros)

lemma scans_tail [scans_intros]: "scans (parse_tail v s p st h)"
  unfolding parse_tail_def by (intro scans_intros)

lemma scans_proto [scans_intros]: "scans (parse_proto v s p st)"
  unfolding parse_proto_def by (intro scans_intros)

lemma scans_file_head: "scans parse_file_head"
  unfolding parse_file_head_def Let_def by (intro scans_intros)

text \<open>The trailing check looks at the length of the input only.\<close>

lemma scans_file_tail: "scans (parse_file_tail n)"
  unfolding parse_file_tail_def by (intro scans_intros)

section \<open>The recorded code ranges\<close>

text \<open>
  Ranges that start at or after \<open>lo\<close>, follow one another without overlap, and end at or before
  \<open>hi\<close>.
\<close>

fun ranges_within :: "nat \<Rightarrow> code_range list \<Rightarrow> nat \<Rightarrow> bool" where
  "ranges_within lo [] hi \<longleftrightarrow> lo \<le> hi"
| "ranges_within lo (r # rs) hi \<longleftrightarrow> lo \<le> cr_offset r \<and> ranges_within (cr_offset r + cr_words r * 4) rs hi"

lemma ranges_within_snoc:
  "ranges_within lo rs mid \<Longrightarrow> mid \<le> cr_offset r \<Longrightarrow> cr_offset r + cr_words r * 4 \<le> hi \<Longrightarrow>
    ranges_within lo (rs @ [r]) hi"
  by (induction lo rs mid rule: ranges_within.induct) auto

lemma ranges_within_le: "ranges_within lo rs hi \<Longrightarrow> lo \<le> hi"
  by (induction lo rs hi rule: ranges_within.induct) auto

lemma ranges_within_mono:
  "ranges_within lo rs hi \<Longrightarrow> lo' \<le> lo \<Longrightarrow> hi \<le> hi' \<Longrightarrow> ranges_within lo' rs hi'"
  by (induction lo rs hi arbitrary: lo' rule: ranges_within.induct) auto

lemma ranges_within_mem:
  "ranges_within lo rs hi \<Longrightarrow> r \<in> set rs \<Longrightarrow> lo \<le> cr_offset r \<and> cr_offset r + cr_words r * 4 \<le> hi"
  by (induction lo rs hi rule: ranges_within.induct) (auto dest: ranges_within_le)

definition words_of :: "code_range list \<Rightarrow> nat" where
  "words_of rs = sum_list (map cr_words rs)"

text \<open>The header's check on the aggregate number of words.\<close>

lemma parse_header_words:
  assumes "parse_header v st bs pos = Inr (h, q)"
  shows "totalCodeWords st + h_codeWords h \<le> kMaxObjects"
  using assms unfolding parse_header_def
  by (auto simp: res_simps split: if_splits)

text \<open>
  One turn of the prototype loop records one range, between the old and the new position, and
  the bytes of that range have no influence on the turn.
\<close>

lemma parse_proto_range:
  assumes run: "parse_proto v s p st bs pos = Inr (st', q)" and pos: "pos \<le> length bs"
  obtains r where "ranges st' = ranges st @ [r]" "totalCodeWords st' = totalCodeWords st + cr_words r"
    "totalCodeWords st' \<le> kMaxObjects" "pos \<le> cr_offset r" "cr_offset r + cr_words r * 4 \<le> q" "q \<le> length bs"
    "\<And>bs'. length bs' = length bs \<Longrightarrow>
      (\<And>i. pos \<le> i \<Longrightarrow> i < q \<Longrightarrow> \<not> (cr_offset r \<le> i \<and> i < cr_offset r + cr_words r * 4) \<Longrightarrow> bs' ! i = bs ! i) \<Longrightarrow>
      parse_proto v s p st bs' pos = Inr (st', q)"
proof -
  obtain h off cc where 1: "parse_header v st bs pos = Inr (h, off)"
    and 2: "r_skip (h_codeWords h * 4) bs off = Inr ((), off + h_codeWords h * 4)"
    and 3: "parse_tail v s p st h bs (off + h_codeWords h * 4) = Inr (cc, q)"
    and st': "st' = \<lparr>totalCodeWords = totalCodeWords st + h_codeWords h, totalConstants = totalConstants st + cc,
      ranges = ranges st @ [\<lparr>cr_offset = off, cr_words = h_codeWords h\<rparr>]\<rparr>"
    using run unfolding parse_proto_def by (auto simp: res_simps r_skip_def split: if_splits)
  have a: "pos \<le> off \<and> off \<le> length bs" by (rule scansD [OF scans_header 1 pos])
  have b: "off + h_codeWords h * 4 \<le> length bs" using 2 a by (simp add: r_skip_def split: if_splits)
  have c: "off + h_codeWords h * 4 \<le> q \<and> q \<le> length bs" by (rule scansD [OF scans_tail 3 b])
  let ?r = "\<lparr>cr_offset = off, cr_words = h_codeWords h\<rparr>"
  show thesis
  proof (rule that [of ?r])
    fix bs' assume len: "length bs' = length bs"
      and eq: "\<And>i. pos \<le> i \<Longrightarrow> i < q \<Longrightarrow> \<not> (cr_offset ?r \<le> i \<and> i < cr_offset ?r + cr_words ?r * 4) \<Longrightarrow> bs' ! i = bs ! i"
    have "parse_header v st bs' pos = Inr (h, off)"
      by (rule scans_local [OF scans_header 1 pos len]) (use eq a b c in simp)
    moreover have "r_skip (h_codeWords h * 4) bs' off = Inr ((), off + h_codeWords h * 4)"
      using 2 len by (simp add: r_skip_def)
    moreover have "parse_tail v s p st h bs' (off + h_codeWords h * 4) = Inr (cc, q)"
      by (rule scans_local [OF scans_tail 3 b len]) (use eq a b c in simp)
    ultimately show "parse_proto v s p st bs' pos = Inr (st', q)"
      unfolding parse_proto_def st' by (simp add: rbind_def)
  qed (use a b c st' parse_header_words [OF 1] in simp_all)
qed

text \<open>The bytes of the recorded ranges.\<close>

definition codeBytes :: "code_range list \<Rightarrow> nat set" where
  "codeBytes rs = {i. \<exists>r\<in>set rs. cr_offset r \<le> i \<and> i < cr_offset r + cr_words r * 4}"

definition agree_outside :: "nat set \<Rightarrow> u8 list \<Rightarrow> u8 list \<Rightarrow> nat \<Rightarrow> nat \<Rightarrow> bool" where
  "agree_outside D bs bs' lo hi \<longleftrightarrow> length bs' = length bs \<and> (\<forall>i. lo \<le> i \<and> i < hi \<and> i \<notin> D \<longrightarrow> bs' ! i = bs ! i)"

lemma codeBytes_within: "ranges_within lo rs hi \<Longrightarrow> i \<in> codeBytes rs \<Longrightarrow> lo \<le> i \<and> i < hi"
  using ranges_within_mem by (fastforce simp: codeBytes_def)

text \<open>The loop over the prototypes: what it records, and that it does not look at the code.\<close>

lemma parse_protos_ranges:
  assumes "rloop n (parse_proto v s p) st bs pos = Inr (st', q)" "pos \<le> length bs"
  shows "\<exists>new. ranges st' = ranges st @ new \<and> length new = n \<and> ranges_within pos new q \<and> q \<le> length bs \<and>
    totalCodeWords st' = totalCodeWords st + words_of new \<and> (n \<noteq> 0 \<longrightarrow> totalCodeWords st' \<le> kMaxObjects) \<and>
    (\<forall>bs'. agree_outside (codeBytes new) bs bs' pos q \<longrightarrow> rloop n (parse_proto v s p) st bs' pos = Inr (st', q))"
  using assms
proof (induction n arbitrary: st pos)
  case 0
  then show ?case by (auto simp: words_of_def)
next
  case (Suc n)
  obtain st1 m where 1: "parse_proto v s p st bs pos = Inr (st1, m)"
    and 2: "rloop n (parse_proto v s p) st1 bs m = Inr (st', q)"
    using Suc.prems(1) by (auto simp: res_simps)
  from 1 Suc.prems(2) obtain r where r: "ranges st1 = ranges st @ [r]"
    "totalCodeWords st1 = totalCodeWords st + cr_words r" "totalCodeWords st1 \<le> kMaxObjects"
    "pos \<le> cr_offset r" "cr_offset r + cr_words r * 4 \<le> m" "m \<le> length bs"
    and blind: "\<And>bs'. length bs' = length bs \<Longrightarrow>
      (\<And>i. pos \<le> i \<Longrightarrow> i < m \<Longrightarrow> \<not> (cr_offset r \<le> i \<and> i < cr_offset r + cr_words r * 4) \<Longrightarrow> bs' ! i = bs ! i) \<Longrightarrow>
      parse_proto v s p st bs' pos = Inr (st1, m)"
    by (rule parse_proto_range) blast
  obtain new where new: "ranges st' = ranges st1 @ new" "length new = n" "ranges_within m new q" "q \<le> length bs"
    "totalCodeWords st' = totalCodeWords st1 + words_of new" "n \<noteq> 0 \<longrightarrow> totalCodeWords st' \<le> kMaxObjects"
    and IH: "\<And>bs'. agree_outside (codeBytes new) bs bs' m q \<Longrightarrow> rloop n (parse_proto v s p) st1 bs' m = Inr (st', q)"
    using Suc.IH [OF 2 r(6)] by blast
  have mq: "m \<le> q" using new(3) by (rule ranges_within_le)
  have "rloop (Suc n) (parse_proto v s p) st bs' pos = Inr (st', q)"
    if ag: "agree_outside (codeBytes (r # new)) bs bs' pos q" for bs'
  proof -
    have "parse_proto v s p st bs' pos = Inr (st1, m)"
      using ag mq codeBytes_within [OF new(3)] by (intro blind) (force simp: agree_outside_def codeBytes_def)+
    moreover have "rloop n (parse_proto v s p) st1 bs' m = Inr (st', q)"
      using ag r(4,5) by (intro IH) (fastforce simp: agree_outside_def codeBytes_def)
    ultimately show ?thesis by (simp add: rbind_step)
  qed
  then show ?case
    using r new ranges_within_mono [OF new(3) r(5)]
    by (intro exI [of _ "r # new"]) (auto simp: words_of_def)
qed

text \<open>The whole file.\<close>

lemma r_u8_Inr: "r_u8 bs pos = Inr (x, q) \<Longrightarrow> x = bs ! pos \<and> q = Suc pos"
  by (simp add: r_u8_def split: if_splits)

lemma parse_file_head_gives:
  "gives parse_file_head bs 0 (\<lambda>(v, sc, pc) m. 3 \<le> v \<and> v \<le> 14 \<and> unat (bs ! 0) = v \<and> 1 \<le> m \<and> pc \<noteq> 0)"
  unfolding parse_file_head_def Let_def
  by ((rule gives_check gives_return |
     (rule gives_bind, (intro scans_intros; fail), (assumption | simp; fail)))+)
    (auto dest: r_u8_Inr)

lemma parse_file_ranges:
  assumes run: "parse_file bs 0 = Inr ((v, rs), q)"
  shows "ranges_within 1 rs (length bs)" "rs \<noteq> []" "words_of rs \<le> kMaxObjects" "3 \<le> v" "v \<le> 14"
    "unat (bs ! 0) = v"
    "agree_outside (codeBytes rs) bs bs' 0 (length bs) \<Longrightarrow> parse_file bs' 0 = Inr ((v, rs), q)"
proof -
  obtain sc pc st m1 m2 where 1: "parse_file_head bs 0 = Inr ((v, sc, pc), m1)"
    and 2: "rloop pc (parse_proto v sc pc) \<lparr>totalCodeWords = 0, totalConstants = 0, ranges = []\<rparr> bs m1 = Inr (st, m2)"
    and 3: "parse_file_tail pc bs m2 = Inr ((), q)" and rs: "rs = ranges st"
    using run unfolding parse_file_def by (auto simp: res_simps)
  have m1: "m1 \<le> length bs" using scansD [OF scans_file_head 1] by simp
  have pre: "3 \<le> v" "v \<le> 14" "unat (bs ! 0) = v" "1 \<le> m1" "pc \<noteq> 0"
    using givesD [OF parse_file_head_gives 1] by simp_all
  obtain new where new: "ranges st = new" "length new = pc" "ranges_within m1 new m2" "m2 \<le> length bs"
    "words_of new \<le> kMaxObjects"
    and loop: "\<And>bs'. agree_outside (codeBytes new) bs bs' m1 m2 \<Longrightarrow>
      rloop pc (parse_proto v sc pc) \<lparr>totalCodeWords = 0, totalConstants = 0, ranges = []\<rparr> bs' m1 = Inr (st, m2)"
    using parse_protos_ranges [OF 2 m1] pre(5) by auto
  show "ranges_within 1 rs (length bs)" "rs \<noteq> []" "words_of rs \<le> kMaxObjects" "3 \<le> v" "v \<le> 14" "unat (bs ! 0) = v"
    using new pre ranges_within_mono [OF new(3) pre(4)] by (auto simp: rs)
  have m2: "m1 \<le> m2" using new(3) by (rule ranges_within_le)
  have q: "m2 \<le> q \<and> q \<le> length bs" by (rule scansD [OF scans_file_tail 3 new(4)])
  show "parse_file bs' 0 = Inr ((v, rs), q)" if ag: "agree_outside (codeBytes rs) bs bs' 0 (length bs)"
  proof -
    have len: "length bs' = length bs" using ag by (simp add: agree_outside_def)
    have eq: "bs' ! i = bs ! i" if "i < m1 \<or> m2 \<le> i" "i < length bs" for i
      using ag codeBytes_within [OF new(3), of i] that m2 by (auto simp: agree_outside_def rs new(1))
    have "parse_file_head bs' 0 = Inr ((v, sc, pc), m1)"
      by (rule scans_local [OF scans_file_head 1 _ len]) (use eq m1 in auto)
    moreover have "parse_file_tail pc bs' m2 = Inr ((), q)"
      by (rule scans_local [OF scans_file_tail 3 new(4) len]) (use eq q in auto)
    moreover have "rloop pc (parse_proto v sc pc) \<lparr>totalCodeWords = 0, totalConstants = 0, ranges = []\<rparr> bs' m1 = Inr (st, m2)"
      using ag new(1,4) by (intro loop) (auto simp: agree_outside_def rs)
    ultimately show ?thesis unfolding parse_file_def by (simp add: rbind_def rs)
  qed
qed

section \<open>Variable-length integers\<close>

text \<open>The encoding: seven bits per byte, low bits first, the top bit set on all bytes but the last.\<close>

function uleb :: "u32 \<Rightarrow> u8 list" where
  "uleb w = (if drop_bit 7 w = 0 then [ucast w]
    else (ucast (take_bit 7 w) OR 0x80) # uleb (drop_bit 7 w))"
  by pat_completeness auto
termination
proof (relation "measure unat")
  fix w :: u32 assume "drop_bit 7 w \<noteq> 0"
  then have "w \<noteq> 0" by auto
  then have "0 < unat w" by (simp add: unat_gt_0)
  then have "unat w div 128 < unat w" by (intro div_less_dividend) simp_all
  then show "(drop_bit 7 w, w) \<in> measure unat" by (simp add: drop_bit_eq_div unat_div)
qed simp

declare uleb.simps [simp del]

lemma and_7f: "(x :: u8) AND 0x7f = take_bit 7 x"
  by (simp add: take_bit_eq_mask mask_eq_exp_minus_1)

lemma more_byte: "ucast (take_bit 7 (ucast (take_bit 7 v) OR 0x80 :: u8)) = take_bit 7 (v :: u32)"
  by (rule bit_word_eqI) (auto simp: bit_simps)

lemma join_bits:
  "take_bit (7 * i) w OR push_bit (i * 7) (take_bit 7 (drop_bit (7 * i) w)) = take_bit (7 * (i + 1)) (w :: u32)"
  by (rule bit_word_eqI) (auto simp: bit_simps)

lemma and_80: "(x :: u8) AND 0x80 = 0 \<longleftrightarrow> \<not> bit x 7"
  using and_exp_eq_0_iff_not_bit [of x 7] by simp
lemma more_bit: "bit (ucast (take_bit 7 (v :: u32)) OR 0x80 :: u8) 7"
  by (simp add: bit_simps)
lemma last_byte: assumes "drop_bit 7 (v :: u32) = 0" 
  shows "take_bit 7 v = v" "ucast (take_bit 7 (ucast v :: u8)) = v" "\<not> bit (ucast v :: u8) 7"
proof -
  have b: "k < 7" if "bit v k" for k
  proof (rule ccontr)
    assume "\<not> k < 7"
    then have "bit (drop_bit 7 v) (k - 7) = bit v k" by (simp add: bit_simps)
    then show False using assms that by simp
  qed
  show "take_bit 7 v = v" by (rule bit_word_eqI) (use b in \<open>fastforce simp: bit_simps\<close>)
  show "ucast (take_bit 7 (ucast v :: u8)) = v" by (rule bit_word_eqI) (use b in \<open>fastforce simp: bit_simps\<close>)
  show "\<not> bit (ucast v :: u8) 7" using b [of 7] by (auto simp: bit_simps)
qed
lemma top_nibble: "drop_bit 28 w = x \<Longrightarrow> (ucast x :: u8) AND 0xf0 = 0" for w :: "u32"
proof (rule bit_word_eqI)
  fix k assume "drop_bit 28 w = x" "k < LENGTH(8)"
  then have "k < 4 \<or> \<not> bit x k" using bit_imp_le_length [of w "28 + k"] by (auto simp: bit_simps)
  moreover have "\<not> bit (0xf0 :: u8) k" if "k < 4" using that by (auto simp: less_Suc_eq numeral_eq_Suc)
  ultimately show "bit ((ucast x :: u8) AND 0xf0) k = bit (0 :: u8) k" by (auto simp: bit_simps)
qed

lemma split_bits: "take_bit k w OR push_bit k (drop_bit k w) = (w :: u32)"
proof (rule bit_word_eqI)
  fix n assume "n < LENGTH(32)"
  then show "bit (take_bit k w OR push_bit k (drop_bit k w)) n = bit w n"
    by (cases "n < k") (auto simp: bit_simps)
qed

text \<open>Turn \<open>i\<close> of \<^verbatim>\<open>var\<close> on the encoding of the bits that are left.\<close>

lemma r_u8_at: "r_u8 (pre @ b # rest) (length pre) = Inr (b, Suc (length pre))"
  by (simp add: r_u8_def nth_append)

lemma var_loop_uleb:
  assumes "n + i = 5" "n \<noteq> 0"
  shows "var_loop n i (take_bit (7 * i) w) (pre @ uleb (drop_bit (7 * i) w) @ post) (length pre) =
    Inr (w, length pre + length (uleb (drop_bit (7 * i) w)))"
  using assms
proof (induction n arbitrary: i pre)
  case 0
  then show ?case by simp
next
  case (Suc n)
  let ?v = "drop_bit (7 * i) w"
  have nxt: "drop_bit 7 ?v = drop_bit (7 * (i + 1)) w" by (simp add: drop_bit_drop_bit add.commute)
  show ?case
  proof (cases "drop_bit 7 ?v = 0")
    case True
    have enc: "uleb ?v = [ucast ?v]" using True by (simp add: uleb.simps [of ?v])
    have ok: "i = 4 \<Longrightarrow> (ucast ?v :: u8) AND 0xf0 = 0" by (rule top_nibble) simp
    have val: "take_bit (7 * i) w OR push_bit (i * 7) (ucast ((ucast ?v :: u8) AND 0x7f)) = w"
    proof -
      have "take_bit (7 * i) w OR push_bit (i * 7) ?v = w"
        using split_bits [of "7 * i" w] by (simp add: mult.commute)
      then show ?thesis using last_byte(2) [OF True] by (simp add: and_7f)
    qed
    show ?thesis
      using ok val last_byte(3) [OF True]
      by (simp add: enc rbind_def r_u8_at Let_def and_80)
  next
    case False
    let ?b = "ucast (take_bit 7 ?v) OR 0x80 :: u8"
    have i: "i < 4"
    proof (rule ccontr)
      assume "\<not> i < 4"
      then have "drop_bit (7 * (i + 1)) w = 0" by (intro bit_word_eqI) (auto simp: bit_simps dest: bit_imp_le_length)
      then show False using False nxt by simp
    qed
    have enc: "uleb ?v = ?b # uleb (drop_bit (7 * (i + 1)) w)"
      using False by (subst uleb.simps) (simp add: nxt)
    have val: "take_bit (7 * i) w OR push_bit (i * 7) (ucast (?b AND 0x7f)) = take_bit (7 * (i + 1)) w"
      unfolding and_7f more_byte by (rule join_bits)
    have "var_loop n (i + 1) (take_bit (7 * (i + 1)) w)
        ((pre @ [?b]) @ uleb (drop_bit (7 * (i + 1)) w) @ post) (length (pre @ [?b])) =
        Inr (w, length (pre @ [?b]) + length (uleb (drop_bit (7 * (i + 1)) w)))"
      by (rule Suc.IH) (use Suc.prems i in auto)
    then show ?thesis
      using i val more_bit [of ?v] by (simp add: enc rbind_def r_u8_at Let_def and_80 del: mult_Suc_right)
  qed
qed

text \<open>A single byte below 128.\<close>

lemma r_var_small:
  "pos < length bs \<Longrightarrow> bs ! pos AND 0x80 = 0 \<Longrightarrow> r_var bs pos = Inr (ucast (bs ! pos AND 0x7f), Suc pos)"
  using var_loop.simps(2) [of 4 0 0] by (simp add: r_var_def rbind_def r_u8_def Let_def)

lemma r_var_uleb: "r_var (pre @ uleb w @ post) (length pre) = Inr (w, length pre + length (uleb w))"
  using var_loop_uleb [of 5 0 w pre post] by (simp add: r_var_def)

section \<open>Opcode decoding\<close>

text \<open>
  A range of a byte string holds a stream of instructions: at the first word and then after the
  length of each instruction there is a known opcode, and the last one is not cut off.
\<close>

function stream_ok :: "u8 list \<Rightarrow> code_range \<Rightarrow> nat \<Rightarrow> bool" where
  "stream_ok bytes rg pc \<longleftrightarrow>
    (if pc < cr_words rg then
       (let opcode = unat (bytes ! (cr_offset rg + pc * 4)) in
        opcode < LOP_COUNT \<and> getOpLength opcode \<le> cr_words rg - pc \<and> stream_ok bytes rg (pc + getOpLength opcode))
     else True)"
  by pat_completeness auto
termination
  by (relation "measure (\<lambda>(bytes, rg, pc). cr_words rg - pc)") (auto intro!: diff_less_mono2)

declare stream_ok.simps [simp del]

text \<open>The offsets of the opcode bytes of such a stream.\<close>

function opcode_offsets :: "u8 list \<Rightarrow> code_range \<Rightarrow> nat \<Rightarrow> nat set" where
  "opcode_offsets bytes rg pc =
    (if pc < cr_words rg then
       insert (cr_offset rg + pc * 4)
         (opcode_offsets bytes rg (pc + getOpLength (unat (bytes ! (cr_offset rg + pc * 4)))))
     else {})"
  by pat_completeness auto
termination
  by (relation "measure (\<lambda>(bytes, rg, pc). cr_words rg - pc)") (auto intro!: diff_less_mono2)

declare opcode_offsets.simps [simp del]

text \<open>Only the bytes of the range, from word \<open>pc\<close> on, matter.\<close>

lemma stream_ok_cong:
  assumes "\<And>i. cr_offset rg + pc * 4 \<le> i \<Longrightarrow> i < cr_offset rg + cr_words rg * 4 \<Longrightarrow> bs ! i = bs' ! i"
  shows "stream_ok bs rg pc = stream_ok bs' rg pc"
  using assms
proof (induction bs rg pc rule: stream_ok.induct)
  case (1 bs rg pc)
  let ?op = "\<lambda>bs. unat (bs ! (cr_offset rg + pc * 4))"
  show ?case
  proof (cases "pc < cr_words rg")
    case True
    then have eq: "?op bs = ?op bs'" using 1(2) by simp
    have "stream_ok bs rg (pc + getOpLength (?op bs)) = stream_ok bs' rg (pc + getOpLength (?op bs))"
      by (rule 1(1) [OF True refl]) (use 1(2) in auto)
    then show ?thesis
      unfolding stream_ok.simps [of bs rg pc] stream_ok.simps [of bs' rg pc] Let_def eq by auto
  qed (simp add: stream_ok.simps [of _ rg pc])
qed

lemma opcode_offsets_range:
  "i \<in> opcode_offsets bs rg pc \<Longrightarrow> cr_offset rg + pc * 4 \<le> i \<and> i < cr_offset rg + cr_words rg * 4"
proof (induction bs rg pc rule: opcode_offsets.induct)
  case (1 bs rg pc)
  then show ?case by (subst (asm) opcode_offsets.simps) (force split: if_splits)
qed

lemma opcode_offsets_cong:
  assumes "\<And>i. cr_offset rg + pc * 4 \<le> i \<Longrightarrow> i < cr_offset rg + cr_words rg * 4 \<Longrightarrow> bs ! i = bs' ! i"
  shows "opcode_offsets bs rg pc = opcode_offsets bs' rg pc"
  using assms
proof (induction bs rg pc rule: opcode_offsets.induct)
  case (1 bs rg pc)
  let ?op = "\<lambda>bs. unat (bs ! (cr_offset rg + pc * 4))"
  show ?case
  proof (cases "pc < cr_words rg")
    case True
    then have eq: "?op bs = ?op bs'" using 1(2) by simp
    have "opcode_offsets bs rg (pc + getOpLength (?op bs)) = opcode_offsets bs' rg (pc + getOpLength (?op bs))"
      by (rule 1(1) [OF True]) (use 1(2) in auto)
    then show ?thesis
      unfolding opcode_offsets.simps [of bs rg pc] opcode_offsets.simps [of bs' rg pc] eq by simp
  qed (simp add: opcode_offsets.simps [of _ rg pc])
qed

text \<open>What decoding one range with multiplier \<open>m\<close> does.\<close>

lemma opcode_mult: "(ucast ((ucast (x :: u8) * m) AND 0xff :: u32) :: u8) = x * ucast m"
proof -
  have m: "(0xff :: u32) = mask 8" by (simp add: mask_eq_exp_minus_1)
  have "(ucast (w AND mask 8) :: u8) = ucast w" for w :: "u32"
    by (rule bit_word_eqI) (auto simp: bit_simps)
  moreover have "(ucast (ucast x * m) :: u8) = x * ucast m"
  proof (transfer, goal_cases)
    case (1 x m)
    then show ?case
      using take_bit_mult [of 8 x "take_bit 32 m"] take_bit_mult [of 8 "take_bit 8 x" m] take_bit_mult [of 8 x m]
      by (simp add: take_bit_take_bit)
  qed
  ultimately show ?thesis unfolding m by simp
qed

lemma transformRange_Inr:
  assumes "transformRange oob m rg pc bs = Inr bs'" "cr_offset rg + cr_words rg * 4 \<le> length bs"
  shows "length bs' = length bs \<and> stream_ok bs' rg pc \<and>
    (\<forall>i. bs' ! i = (if i \<in> opcode_offsets bs' rg pc then bs ! i * ucast m else bs ! i))"
  using assms
proof (induction oob m rg pc bs rule: transformRange.induct)
  case (1 oob m rg pc bs)
  show ?case
  proof (cases "pc < cr_words rg")
    case False
    then show ?thesis
      using 1(2) by (simp add: transformRange.simps [of oob m rg pc] stream_ok.simps [of _ rg pc]
          opcode_offsets.simps [of _ rg pc])
  next
    case True
    let ?o = "cr_offset rg + pc * 4"
    let ?x = "bs ! ?o * ucast m"
    let ?len = "getOpLength (unat ?x)"
    have o: "?o < length bs" using True 1(3) by simp
    have ok: "unat ?x < LOP_COUNT" "?len \<le> cr_words rg - pc"
      and rest: "transformRange oob m rg (pc + ?len) (bs[?o := ?x]) = Inr bs'"
      using 1(2) True o
      by (subst (asm) transformRange.simps; auto simp: Let_def byteAt_def opcode_mult split: if_splits)+
    have IH: "length bs' = length bs \<and> stream_ok bs' rg (pc + ?len) \<and>
      (\<forall>i. bs' ! i = (if i \<in> opcode_offsets bs' rg (pc + ?len) then bs[?o := ?x] ! i * ucast m
        else bs[?o := ?x] ! i))"

      using 1(1) [OF True refl refl refl refl] ok rest o 1(3) by (simp add: byteAt_def opcode_mult)
    have nin: "?o \<notin> opcode_offsets bs' rg (pc + ?len)"
      using opcode_offsets_range [of ?o bs' rg "pc + ?len"] by auto
    then have at: "bs' ! ?o = ?x" using IH o by simp
    have "stream_ok bs' rg pc"
      using IH ok True at by (simp add: stream_ok.simps [of bs' rg pc] Let_def)
    moreover have "opcode_offsets bs' rg pc = insert ?o (opcode_offsets bs' rg (pc + ?len))"
      using True at by (simp add: opcode_offsets.simps [of bs' rg pc])
    moreover have "bs[?o := ?x] ! i = (if i = ?o then ?x else bs ! i)" for i using o by simp
    ultimately show ?thesis using IH nin by auto
  qed
qed

lemma transform_Inr:
  assumes "applyOpcodeTransform oob m rs bs = Inr bs'" "ranges_within lo rs hi" "hi \<le> length bs"
  shows "length bs' = length bs \<and> (\<forall>r\<in>set rs. stream_ok bs' r 0) \<and>
    (\<forall>i. bs' ! i = (if \<exists>r\<in>set rs. i \<in> opcode_offsets bs' r 0 then bs ! i * ucast m else bs ! i))"
  using assms
proof (induction oob m rs bs arbitrary: lo rule: applyOpcodeTransform.induct)
  case (1 oob m bs)
  then show ?case by simp
next
  case (2 oob m r rs bs)
  obtain b1 where b1: "transformRange oob m r 0 bs = Inr b1" and rest: "applyOpcodeTransform oob m rs b1 = Inr bs'"
    using 2(2) by (auto simp: res_simps)
  have w: "ranges_within (cr_offset r + cr_words r * 4) rs hi" using 2(3) by simp
  have hi: "cr_offset r + cr_words r * 4 \<le> length bs" using ranges_within_le [OF w] 2(4) by simp
  note A = transformRange_Inr [OF b1 hi]
  note B = 2(1) [OF b1 rest w] 
  have B: "length bs' = length b1 \<and> (\<forall>r\<in>set rs. stream_ok bs' r 0) \<and>
    (\<forall>i. bs' ! i = (if \<exists>r\<in>set rs. i \<in> opcode_offsets bs' r 0 then b1 ! i * ucast m else b1 ! i))"
    using B A 2(4) by simp
  have later: "cr_offset r + cr_words r * 4 \<le> i" if "r' \<in> set rs" "i \<in> opcode_offsets bs' r' 0" for r' i
    using opcode_offsets_range [OF that(2)] ranges_within_mem [OF w that(1)] by simp
  have same: "b1 ! i = bs' ! i" if "i < cr_offset r + cr_words r * 4" for i
    using B later that by fastforce
  have "stream_ok bs' r 0" "opcode_offsets bs' r 0 = opcode_offsets b1 r 0"
    using A same stream_ok_cong [of r 0 b1 bs'] opcode_offsets_cong [of r 0 b1 bs'] by auto
  moreover have "i \<notin> opcode_offsets b1 r 0" if "r' \<in> set rs" "i \<in> opcode_offsets bs' r' 0" for r' i
    using later [OF that] opcode_offsets_range [of i b1 r 0] by auto
  ultimately show ?case using A B by auto
qed

section \<open>The Roblox encoding\<close>

text \<open>
  The encoding that decoding with 203 undoes: every opcode byte of a stream is multiplied by 227,
  the inverse of 203 modulo 256.
\<close>

function encodeRange :: "u8 \<Rightarrow> code_range \<Rightarrow> nat \<Rightarrow> u8 list \<Rightarrow> u8 list" where
  "encodeRange m rg pc bs =
    (if pc < cr_words rg then
       (let i = cr_offset rg + pc * 4
        in encodeRange m rg (pc + getOpLength (unat (bs ! i))) (bs[i := bs ! i * m]))
     else bs)"
  by pat_completeness auto
termination
  by (relation "measure (\<lambda>(m, rg, pc, bs). cr_words rg - pc)") (auto intro!: diff_less_mono2)

declare encodeRange.simps [simp del]

fun encodeRanges :: "u8 \<Rightarrow> code_range list \<Rightarrow> u8 list \<Rightarrow> u8 list" where
  "encodeRanges m [] bs = bs"
| "encodeRanges m (r # rs) bs = encodeRange m r 0 (encodeRanges m rs bs)"

lemma encodeRange_outside:
  "length (encodeRange m rg pc bs) = length bs \<and>
    (i < cr_offset rg + pc * 4 \<or> cr_offset rg + cr_words rg * 4 \<le> i \<longrightarrow> encodeRange m rg pc bs ! i = bs ! i)"
proof (induction m rg pc bs rule: encodeRange.induct)
  case (1 m rg pc bs)
  show ?case
  proof (cases "pc < cr_words rg")
    case True
    then show ?thesis using 1 [OF True refl] by (auto simp: encodeRange.simps [of m rg pc bs] Let_def)
  qed (simp add: encodeRange.simps [of m rg pc bs])
qed

text \<open>Writing before the current word commutes with encoding the rest.\<close>

lemma encodeRange_update:
  "j < cr_offset rg + pc * 4 \<Longrightarrow> encodeRange m rg pc (bs[j := v]) = (encodeRange m rg pc bs)[j := v]"
proof (induction m rg pc bs rule: encodeRange.induct)
  case (1 m rg pc bs)
  show ?case
  proof (cases "pc < cr_words rg")
    case True
    let ?i = "cr_offset rg + pc * 4"
    have "(bs[j := v]) ! ?i = bs ! ?i" using 1(2) by simp
    then show ?thesis
      using 1(1) [OF True refl] 1(2) True list_update_swap [of ?i j bs]
      by (simp add: encodeRange.simps [of m rg pc] Let_def)
  qed (simp add: encodeRange.simps [of m rg pc])
qed

lemma inverse_227: "x * 227 * ucast (203 :: u32) = (x :: u8)"
proof -
  have "(227 :: u8) * ucast (203 :: u32) = 1" by simp
  then show ?thesis by (simp only: mult.assoc mult_1_right)
qed

lemma transformRange_step:
  assumes "pc < cr_words rg" "cr_offset rg + pc * 4 < length bs" "bs ! (cr_offset rg + pc * 4) * ucast m = x"
    "unat x < LOP_COUNT" "getOpLength (unat x) \<le> cr_words rg - pc"
  shows "transformRange oob m rg pc bs =
    transformRange oob m rg (pc + getOpLength (unat x)) (bs[cr_offset rg + pc * 4 := x])"
  using assms by (subst transformRange.simps) (simp add: Let_def byteAt_def opcode_mult not_le)

lemma transformRange_encode:
  assumes "stream_ok bs rg pc" "cr_offset rg + cr_words rg * 4 \<le> length bs"
  shows "transformRange oob 203 rg pc (encodeRange 227 rg pc bs) = Inr bs"
  using assms
proof (induction bs rg pc rule: stream_ok.induct)
  case (1 bs rg pc)
  show ?case
  proof (cases "pc < cr_words rg")
    case False
    then show ?thesis by (simp add: encodeRange.simps [of _ rg pc] transformRange.simps [of oob _ rg pc])
  next
    case True
    let ?i = "cr_offset rg + pc * 4"
    let ?len = "getOpLength (unat (bs ! ?i))"
    let ?rest = "encodeRange 227 rg (pc + ?len) bs"
    have i: "?i < length bs" using True 1(3) by simp
    have ok: "unat (bs ! ?i) < LOP_COUNT" "?len \<le> cr_words rg - pc" "stream_ok bs rg (pc + ?len)"
      using 1(2) True by (subst (asm) stream_ok.simps; simp add: Let_def)+
    have enc: "encodeRange 227 rg pc bs = ?rest[?i := bs ! ?i * 227]"
      using True encodeRange_update [of ?i rg "pc + ?len" 227 bs]
      by (simp add: encodeRange.simps [of _ rg pc] Let_def)
    have len: "length ?rest = length bs" and same: "?rest ! ?i = bs ! ?i"
      using encodeRange_outside [of 227 rg "pc + ?len" bs ?i] by auto
    have "transformRange oob 203 rg (pc + ?len) (?rest[?i := bs ! ?i]) = Inr bs"
      using 1(1) [OF True refl ok(3) 1(3)] list_update_same_conv [of ?i ?rest "bs ! ?i"] i len same by simp
    moreover have "(?rest[?i := bs ! ?i * 227]) ! ?i * ucast (203 :: u32) = bs ! ?i"
      using i len inverse_227 [of "bs ! ?i"] by (simp only: nth_list_update_eq)
    ultimately show ?thesis
      unfolding enc using transformRange_step [of pc rg "?rest[?i := bs ! ?i * 227]" 203 "bs ! ?i" oob] True i ok(1,2) len
      by simp
  qed
qed

lemma encodeRanges_length: "length (encodeRanges m rs bs) = length bs"
  by (induction rs) (simp_all add: encodeRange_outside)

lemma encodeRanges_outside: "i \<notin> codeBytes rs \<Longrightarrow> encodeRanges m rs bs ! i = bs ! i"
  by (induction rs) (auto simp: codeBytes_def encodeRange_outside not_le not_less)

lemma transform_encode:
  assumes "\<forall>r\<in>set rs. stream_ok bs r 0" "ranges_within lo rs hi" "hi \<le> length bs"
  shows "applyOpcodeTransform oob 203 rs (encodeRanges 227 rs bs) = Inr bs"
  using assms
proof (induction rs arbitrary: lo)
  case Nil
  then show ?case by simp
next
  case (Cons r rs)
  let ?e = "encodeRanges 227 rs bs"
  have w: "ranges_within (cr_offset r + cr_words r * 4) rs hi" using Cons.prems(2) by simp
  have same: "?e ! i = bs ! i" if "i < cr_offset r + cr_words r * 4" for i
    using codeBytes_within [OF w, of i] that by (intro encodeRanges_outside) auto
  have "stream_ok ?e r 0" using Cons.prems(1) same stream_ok_cong [of r 0 ?e bs] by simp
  moreover have "cr_offset r + cr_words r * 4 \<le> length ?e"
    using ranges_within_le [OF w] Cons.prems(3) by (simp add: encodeRanges_length)
  ultimately have "transformRange oob 203 r 0 (encodeRange 227 r 0 ?e) = Inr ?e"
    by (rule transformRange_encode)
  then show ?case using Cons.IH [OF _ w] Cons.prems by simp
qed

text \<open>A stream that is in order already passes the identity decoding unchanged.\<close>

lemma transformRange_identity:
  assumes "stream_ok bs rg pc" "cr_offset rg + cr_words rg * 4 \<le> length bs"
  shows "transformRange oob 1 rg pc bs = Inr bs"
  using assms
proof (induction bs rg pc rule: stream_ok.induct)
  case (1 bs rg pc)
  show ?case
  proof (cases "pc < cr_words rg")
    case True
    let ?i = "cr_offset rg + pc * 4"
    have i: "?i < length bs" using True 1(3) by simp
    have ok: "unat (bs ! ?i) < LOP_COUNT" "getOpLength (unat (bs ! ?i)) \<le> cr_words rg - pc"
      "stream_ok bs rg (pc + getOpLength (unat (bs ! ?i)))"
      using 1(2) True by (subst (asm) stream_ok.simps; simp add: Let_def)+
    have "bs ! ?i * ucast (1 :: u32) = bs ! ?i" by simp
    then show ?thesis
      using transformRange_step [OF True i _ ok(1,2), of 1 oob] 1(1) [OF True refl ok(3) 1(3)] by simp
  qed (simp add: transformRange.simps [of oob 1 rg pc])
qed

lemma transform_identity:
  "\<forall>r\<in>set rs. stream_ok bs r 0 \<Longrightarrow> ranges_within lo rs hi \<Longrightarrow> hi \<le> length bs \<Longrightarrow>
    applyOpcodeTransform oob 1 rs bs = Inr bs"
proof (induction rs arbitrary: lo)
  case (Cons r rs)
  then have "ranges_within (cr_offset r + cr_words r * 4) rs hi" by simp
  with ranges_within_le [OF this] Cons show ?case by (simp add: transformRange_identity)
qed simp

section \<open>Reads outside the input\<close>

text \<open>On ranges inside the input, the unspecified byte plays no part.\<close>

lemma transformRange_oob:
  assumes "cr_offset rg + cr_words rg * 4 \<le> length bs"
  shows "transformRange oob m rg pc bs = transformRange oob' m rg pc bs"
  using assms
proof (induction oob m rg pc bs rule: transformRange.induct)
  case (1 oob m rg pc bs)
  show ?case
  proof (cases "pc < cr_words rg")
    case True
    then have "byteAt oob bs (cr_offset rg + pc * 4) = byteAt oob' bs (cr_offset rg + pc * 4)"
      using 1(2) by (simp add: byteAt_def)
    then show ?thesis
      using 1(1) [OF True refl refl refl refl] 1(2)
      by (simp add: transformRange.simps [of oob m rg pc] transformRange.simps [of oob' m rg pc] Let_def)
  qed (simp add: transformRange.simps [of _ m rg pc])
qed

lemma transform_oob:
  assumes "ranges_within lo rs hi" "hi \<le> length bs"
  shows "applyOpcodeTransform oob m rs bs = applyOpcodeTransform oob' m rs bs"
  using assms
proof (induction oob m rs bs arbitrary: lo rule: applyOpcodeTransform.induct)
  case (2 oob m r rs bs)
  have w: "ranges_within (cr_offset r + cr_words r * 4) rs hi" using 2(2) by simp
  have hi: "cr_offset r + cr_words r * 4 \<le> length bs" using ranges_within_le [OF w] 2(3) by simp
  have eq: "transformRange oob m r 0 bs = transformRange oob' m r 0 bs" by (rule transformRange_oob [OF hi])
  show ?case
  proof (cases "transformRange oob m r 0 bs")
    case (Inr b1)
    then have "hi \<le> length b1" using transformRange_Inr [OF Inr hi] 2(3) by simp
    then show ?thesis using 2(1) [OF Inr w] Inr eq by simp
  qed (use eq in simp)
qed simp

text \<open>The outcome of \<^verbatim>\<open>parse\<close>.\<close>

lemma parse_Inr:
  assumes "parse input = Inr (v, rs)"
  shows "ranges_within 1 rs (length (remove_prefix input))" "rs \<noteq> []" "words_of rs \<le> kMaxObjects"
    "3 \<le> v" "v \<le> 14" "unat (remove_prefix input ! 0) = v" "remove_prefix input \<noteq> []"
    "length (remove_prefix input) \<le> kMaxInputBytes"
proof -
  obtain q where q: "parse_file (remove_prefix input) 0 = Inr ((v, rs), q)"
    and ne: "remove_prefix input \<noteq> []" "length (remove_prefix input) \<le> kMaxInputBytes"
    using assms by (auto simp: parse_def Let_def res_simps split: if_splits)
  show "ranges_within 1 rs (length (remove_prefix input))" "rs \<noteq> []" "words_of rs \<le> kMaxObjects"
    "3 \<le> v" "v \<le> 14" "unat (remove_prefix input ! 0) = v"
    using parse_file_ranges(1-6) [OF q] by blast+
  show "remove_prefix input \<noteq> []" "length (remove_prefix input) \<le> kMaxInputBytes" by (fact ne)+
qed

text \<open>A file with no prefix whose recorded ranges were rewritten is parsed in the same way.\<close>

lemma parse_blind:
  assumes p: "parse input = Inr (v, rs)" and ag: "agree_outside (codeBytes rs) (remove_prefix input) bs 0 (length (remove_prefix input))"
  shows "parse bs = Inr (v, rs) \<and> remove_prefix bs = bs"
proof -
  note P = parse_Inr [OF p]
  have len: "length bs = length (remove_prefix input)" using ag by (simp add: agree_outside_def)
  then have ne: "bs \<noteq> []" using P(7) by auto
  have "0 \<notin> codeBytes rs" using codeBytes_within [OF P(1), of 0] by auto
  then have "bs ! 0 = remove_prefix input ! 0" using ag P(7) by (simp add: agree_outside_def)
  then have "unat (hd bs) \<le> 14" using P(5,6) ne by (simp add: hd_conv_nth)
  then have "take 5 bs \<noteq> luauPrefix" using ne by (cases bs) (auto simp: luauPrefix_def)
  then have rp: "remove_prefix bs = bs" by (simp add: remove_prefix_def)
  from p obtain q where "parse_file (remove_prefix input) 0 = Inr ((v, rs), q)"
    by (auto simp: parse_def Let_def res_simps split: if_splits)
  from parse_file_ranges(7) [OF this ag] have "parse_file bs 0 = Inr ((v, rs), q)" .
  then show ?thesis using rp ne len P(8) by (simp add: parse_def Let_def)
qed

end
