(* ===== verification/Tarjan.thy ===== *)
theory Tarjan
  imports BV_Prelude
begin

text \<open>
  Tarjan's search for strongly connected components, as the program writes it twice (over basic
  blocks in \<^verbatim>\<open>IR.cpp\<close>, over instructions in \<^verbatim>\<open>Lua51.cpp\<close>): a recursive lambda with the vectors it
  captures as a record. The graph is a function to lists of nodes below \<open>n\<close>, and \<open>live\<close> says which
  nodes the search may enter. Every call visits a node that was not visited before, so as much fuel
  as there are nodes is enough, which \<open>components_exist\<close> shows together with what the vectors hold
  at the end: the components are disjoint and hold exactly the live nodes.
\<close>

section \<open>The model\<close>

record tarjan =
  t_index :: "int list"
  t_low :: "int list"
  t_stack :: "nat list"  \<comment> \<open>its top first\<close>
  t_on :: "bool list"
  t_next :: nat
  t_comps :: "nat list list"

definition tarjan_init :: "nat \<Rightarrow> tarjan" where
  "tarjan_init n = \<lparr>t_index = replicate n (-1), t_low = replicate n (-1), t_stack = [],
     t_on = replicate n False, t_next = 0, t_comps = []\<rparr>"

definition enter :: "nat \<Rightarrow> tarjan \<Rightarrow> tarjan" where
  "enter v t = t\<lparr>t_index := (t_index t)[v := int (t_next t)], t_low := (t_low t)[v := int (t_next t)],
     t_next := t_next t + 1, t_stack := v # t_stack t, t_on := (t_on t)[v := True]\<rparr>"

definition lower :: "nat \<Rightarrow> int \<Rightarrow> tarjan \<Rightarrow> tarjan" where
  "lower v x t = t\<lparr>t_low := (t_low t)[v := min (t_low t ! v) x]\<rparr>"

text \<open>The loop that pops the stack down to \<open>v\<close>: what it pops, and the stack that is left.\<close>

fun popUntil :: "nat \<Rightarrow> nat list \<Rightarrow> nat list \<times> nat list" where
  "popUntil v [] = ([], [])"
| "popUntil v (w # ws) =
    (if w = v then ([w], ws) else let (popped, rest) = popUntil v ws in (w # popped, rest))"

definition closeComponent :: "nat \<Rightarrow> tarjan \<Rightarrow> tarjan" where
  "closeComponent v t =
    (if t_low t ! v = t_index t ! v then
       (let (popped, rest) = popUntil v (t_stack t) in
        t\<lparr>t_stack := rest, t_on := fold (\<lambda>w on. on[w := False]) popped (t_on t),
          t_comps := t_comps t @ [sort popped]\<rparr>)
     else t)"

fun strongConnect :: "nat \<Rightarrow> (nat \<Rightarrow> nat list) \<Rightarrow> (nat \<Rightarrow> bool) \<Rightarrow> nat \<Rightarrow> tarjan \<Rightarrow> tarjan option"
  and connectAll :: "nat \<Rightarrow> (nat \<Rightarrow> nat list) \<Rightarrow> (nat \<Rightarrow> bool) \<Rightarrow> nat \<Rightarrow> nat list \<Rightarrow> tarjan \<Rightarrow> tarjan option" where
  "strongConnect 0 succ live v t = None"
| "strongConnect (Suc k) succ live v t = map_option (closeComponent v) (connectAll k succ live v (succ v) (enter v t))"
| "connectAll k succ live v [] t = Some t"
| "connectAll k succ live v (w # ws) t =
    (if live w then
       (if t_index t ! w < 0 then
          Option.bind (strongConnect k succ live w t) (\<lambda>u. connectAll k succ live v ws (lower v (t_low u ! w) u))
        else if t_on t ! w then connectAll k succ live v ws (lower v (t_index t ! w) t)
        else connectAll k succ live v ws t)
     else connectAll k succ live v ws t)"

definition connectFrom :: "nat \<Rightarrow> (nat \<Rightarrow> nat list) \<Rightarrow> (nat \<Rightarrow> bool) \<Rightarrow> nat \<Rightarrow> tarjan option \<Rightarrow> tarjan option" where
  "connectFrom n succ live b s = Option.bind s (\<lambda>t.
    if live b \<and> t_index t ! b < 0 then strongConnect n succ live b t else Some t)"

definition components :: "nat \<Rightarrow> (nat \<Rightarrow> nat list) \<Rightarrow> (nat \<Rightarrow> bool) \<Rightarrow> nat list list option" where
  "components n succ live =
    map_option t_comps (fold (connectFrom n succ live) [0..<n] (Some (tarjan_init n)))"

section \<open>What the vectors hold\<close>

definition visited :: "tarjan \<Rightarrow> nat set" where
  "visited t = {b. b < length (t_index t) \<and> 0 \<le> t_index t ! b}"

text \<open>
  The invariant inside the call for a root whose index is \<open>i\<close>: the blocks on the stack and in the
  components are the visited ones, and nothing on the stack is older than the root.
\<close>

definition tarjan_ok :: "nat \<Rightarrow> (nat \<Rightarrow> bool) \<Rightarrow> nat \<Rightarrow> tarjan \<Rightarrow> bool" where
  "tarjan_ok n live i t \<longleftrightarrow>
    length (t_index t) = n \<and> length (t_low t) = n \<and> length (t_on t) = n \<and>
    distinct (concat (t_comps t) @ t_stack t) \<and> set (concat (t_comps t) @ t_stack t) = visited t \<and>
    list_all sorted (t_comps t) \<and> [] \<notin> set (t_comps t) \<and>
    (\<forall>b<n. t_on t ! b \<longleftrightarrow> b \<in> set (t_stack t)) \<and>
    visited t \<subseteq> {b. live b} \<and> i \<le> t_next t \<and>
    (\<forall>b\<in>visited t. t_index t ! b < int (t_next t)) \<and>
    (\<forall>b\<in>set (t_stack t). int i \<le> t_index t ! b) \<and>
    (\<forall>b\<in>visited t. int i \<le> t_index t ! b \<longrightarrow> int i \<le> t_low t ! b)"

text \<open>What a call leaves alone: indices, and the \<^verbatim>\<open>low\<close> of the blocks outside \<open>S\<close>.\<close>

definition extends :: "nat set \<Rightarrow> tarjan \<Rightarrow> tarjan \<Rightarrow> bool" where
  "extends S t u \<longleftrightarrow> (\<exists>new. t_stack u = new @ t_stack t) \<and> visited t \<subseteq> visited u \<and>
    (\<forall>b\<in>visited t. t_index u ! b = t_index t ! b \<and> (b \<in> S \<or> t_low u ! b = t_low t ! b) \<and>
       t_low u ! b \<le> t_low t ! b)"

lemma extends_refl [simp]: "extends S t t"
  by (simp add: extends_def)

lemma extends_trans: "extends S t u \<Longrightarrow> extends S u w \<Longrightarrow> extends S t w"
  unfolding extends_def by (auto 4 4 dest: subsetD intro: order_trans)

lemma extends_mono: "extends S t u \<Longrightarrow> S \<subseteq> T \<Longrightarrow> extends T t u"
  unfolding extends_def by auto

lemma visited_enter: "v < length (t_index t) \<Longrightarrow> visited (enter v t) = insert v (visited t)"
  by (auto simp: visited_def enter_def nth_list_update)

lemma visited_lower [simp]: "visited (lower v x t) = visited t"
  by (simp add: visited_def lower_def)

lemma extends_enter: "v \<notin> visited t \<Longrightarrow> v < length (t_index t) \<Longrightarrow> extends S t (enter v t)"
proof -
  assume v: "v \<notin> visited t" "v < length (t_index t)"
  have "t_index (enter v t) ! b = t_index t ! b \<and> t_low (enter v t) ! b = t_low t ! b" if "b \<in> visited t" for b
    using v that by (cases "b = v") (auto simp: enter_def)
  then show ?thesis using v by (auto simp: extends_def visited_enter, simp add: enter_def)
qed

lemma extends_lower: "v < length (t_low t) \<Longrightarrow> extends {v} t (lower v x t)"
  by (auto simp: extends_def, auto simp: lower_def nth_list_update split: if_splits)

lemma tarjan_ok_enter:
  assumes "tarjan_ok n live i t" "v < n" "v \<notin> visited t" "live v"
  shows "tarjan_ok n live i (enter v t)"
proof -
  have v: "v < length (t_index t)" using assms(1,2) by (simp add: tarjan_ok_def)
  show ?thesis
    using assms unfolding tarjan_ok_def visited_enter [OF v]
    by (auto simp: enter_def nth_list_update visited_def)
qed

lemma tarjan_ok_lower:
  assumes "tarjan_ok n live i t" "v < n" "int i \<le> x"
  shows "tarjan_ok n live i (lower v x t)"
  using assms unfolding tarjan_ok_def visited_lower by (auto simp: lower_def nth_list_update)

lemma popUntil_split: "v \<notin> set new \<Longrightarrow> popUntil v (new @ v # rest) = (new @ [v], rest)"
  by (induction new) auto

lemma fold_clear: "length (fold (\<lambda>w on. on[w := False]) ws on) = length on"
  "b < length on \<Longrightarrow> fold (\<lambda>w on. on[w := False]) ws on ! b = (on ! b \<and> b \<notin> set ws)"
proof (induction ws arbitrary: on)
  case (Cons a ws)
  { case 1 show ?case using Cons.IH(1) by simp
  next
    case 2
    then show ?case using Cons.IH(2) [of "on[a := False]"] by (cases "a = b") auto }
qed simp_all

lemma closeComponent_cases:
  assumes ok: "tarjan_ok n live i t" and st: "t_stack t = new @ v # rest"
  shows "tarjan_ok n live i (closeComponent v t)" "visited (closeComponent v t) = visited t"
    "t_index (closeComponent v t) = t_index t" "t_low (closeComponent v t) = t_low t"
    "t_stack (closeComponent v t) = (if t_low t ! v = t_index t ! v then rest else t_stack t)"
proof -
  have "v \<notin> set new" using ok st by (auto simp: tarjan_ok_def)
  then have pop: "popUntil v (t_stack t) = (new @ [v], rest)" unfolding st by (rule popUntil_split)
  show fields: "t_index (closeComponent v t) = t_index t" "t_low (closeComponent v t) = t_low t"
    "t_stack (closeComponent v t) = (if t_low t ! v = t_index t ! v then rest else t_stack t)"
    by (simp_all add: closeComponent_def pop)
  then show vis: "visited (closeComponent v t) = visited t" by (simp add: visited_def)
  show "tarjan_ok n live i (closeComponent v t)"
  proof (cases "t_low t ! v = t_index t ! v")
    case True
    have nonempty_sort: "[] \<noteq> sort (new @ [v])"
    proof
      assume "[] = sort (new @ [v])"
      then have "length (sort (new @ [v])) = 0" by simp
      then show False unfolding length_sort by simp
    qed
    have close: "t_on (closeComponent v t) = fold (\<lambda>w on. on[w := False]) (new @ [v]) (t_on t)"
      "t_comps (closeComponent v t) = t_comps t @ [sort (new @ [v])]" "t_next (closeComponent v t) = t_next t"
      "t_stack (closeComponent v t) = rest"
      using True by (simp_all add: closeComponent_def pop)
    show ?thesis
      using ok unfolding tarjan_ok_def vis fields(1,2) close st
      using nonempty_sort by (auto simp: fold_clear simp del: fold_append)
  next
    case False
    then show ?thesis using ok by (simp add: closeComponent_def)
  qed
qed

section \<open>Enough fuel\<close>

definition unvisited :: "nat \<Rightarrow> tarjan \<Rightarrow> nat set" where
  "unvisited n t = {..<n} - visited t"

lemma unvisited_enter:
  "v < n \<Longrightarrow> length (t_index t) = n \<Longrightarrow> v \<notin> visited t \<Longrightarrow>
    Suc (card (unvisited n (enter v t))) = card (unvisited n t)"
proof -
  assume a: "v < n" "length (t_index t) = n" "v \<notin> visited t"
  then have "unvisited n t = insert v (unvisited n (enter v t))" "v \<notin> unvisited n (enter v t)"
    by (auto simp: unvisited_def visited_enter)
  then show ?thesis by (simp add: unvisited_def)
qed

lemma unvisited_mono: "extends S t u \<Longrightarrow> card (unvisited n u) \<le> card (unvisited n t)"
  by (rule card_mono) (auto simp: unvisited_def extends_def)

lemma not_visited: "w < n \<Longrightarrow> length (t_index t) = n \<Longrightarrow> t_index t ! w < 0 \<longleftrightarrow> w \<notin> visited t"
  by (auto simp: visited_def)

locale search =
  fixes n :: nat and succ :: "nat \<Rightarrow> nat list" and live :: "nat \<Rightarrow> bool"
  assumes succ_range: "v < n \<Longrightarrow> set (succ v) \<subseteq> {..<n}"
begin

text \<open>What a call for \<open>v\<close> achieves, when the fuel covers the blocks that were not visited yet.\<close>

definition connects :: "nat \<Rightarrow> nat \<Rightarrow> bool" where
  "connects i k \<longleftrightarrow> (\<forall>v t. v < n \<and> v \<notin> visited t \<and> live v \<and> tarjan_ok n live i t \<and>
     card (unvisited n t) \<le> k \<longrightarrow>
     (\<exists>u. strongConnect k succ live v t = Some u \<and> tarjan_ok n live i u \<and> extends {} t u \<and> v \<in> visited u \<and>
        t_index u ! v = int (t_next t) \<and> t_low u ! v \<le> t_index u ! v \<and>
        (t_low u ! v = t_index u ! v \<longrightarrow> t_stack u = t_stack t)))"

lemma connectAll_ok:
  assumes "connects i k" and v: "v < n"
  shows "v \<in> visited t \<Longrightarrow> tarjan_ok n live i t \<Longrightarrow> card (unvisited n t) \<le> k \<Longrightarrow> set ws \<subseteq> {..<n} \<Longrightarrow>
    \<exists>u. connectAll k succ live v ws t = Some u \<and> tarjan_ok n live i u \<and> extends {v} t u"
proof (induction ws arbitrary: t)
  case Nil
  then show ?case by simp
next
  case (Cons w ws)
  have len: "length (t_index t) = n" "length (t_low t) = n" using Cons.prems(2) by (simp_all add: tarjan_ok_def)
  have w: "w < n" using Cons.prems(4) by simp
  have rest: "\<exists>u'. connectAll k succ live v ws (lower v x u) = Some u' \<and> tarjan_ok n live i u' \<and> extends {v} t u'"
    if u: "tarjan_ok n live i u" "extends {v} t u" "int i \<le> x" for u x
  proof -
    have "extends {v} t (lower v x u)"
      using u(1,2) v extends_lower [of v u x] by (auto simp: tarjan_ok_def intro: extends_trans)
    moreover have "v \<in> visited u" using u(2) Cons.prems(1) by (auto simp: extends_def)
    ultimately show ?thesis
      using Cons.IH [of "lower v x u"] tarjan_ok_lower [OF u(1) v u(3)] unvisited_mono [of "{v}" t "lower v x u" n]
        Cons.prems(3,4) extends_trans [of "{v}" t "lower v x u"] by auto
  qed
  consider (skip) "\<not> live w \<or> (0 \<le> t_index t ! w \<and> \<not> t_on t ! w)"
    | (new) "live w" "t_index t ! w < 0"
    | (old) "live w" "0 \<le> t_index t ! w" "t_on t ! w"
    by linarith
  then show ?case
  proof cases
    case skip
    then show ?thesis using Cons by auto
  next
    case new
    have "w \<notin> visited t" using new(2) not_visited [OF w len(1)] by simp
    then obtain u where u: "strongConnect k succ live w t = Some u" "tarjan_ok n live i u" "extends {} t u" "w \<in> visited u"
      "t_index u ! w = int (t_next t)"
      using assms(1) w new(1) Cons.prems(2,3) unfolding connects_def by blast
    have "int i \<le> t_low u ! w" using u(2,4,5) Cons.prems(2) by (simp add: tarjan_ok_def)
    then show ?thesis using rest [of u "t_low u ! w"] u new extends_mono [of "{}" t u "{v}"] by simp
  next
    case old
    have "int i \<le> t_index t ! w" using old Cons.prems(2) w by (simp add: tarjan_ok_def)
    then show ?thesis using rest [of t "t_index t ! w"] old Cons.prems(2) by simp
  qed
qed

lemma connects_all: "connects i k"
proof (induction k)
  case 0
  then show ?case by (auto simp: connects_def unvisited_def)
next
  case (Suc k)
  show ?case
    unfolding connects_def
  proof (intro allI impI, elim conjE)
    fix v t
    assume v: "v < n" "v \<notin> visited t" "live v" and ok: "tarjan_ok n live i t"
      and fuel: "card (unvisited n t) \<le> Suc k"
    have len: "length (t_index t) = n" "length (t_low t) = n" using ok by (simp_all add: tarjan_ok_def)
    let ?e = "enter v t"
    have e: "tarjan_ok n live i ?e" "v \<in> visited ?e" "extends {} t ?e"
      using tarjan_ok_enter [OF ok v(1,2,3)] visited_enter [of v t] extends_enter [OF v(2)] v(1) len by simp_all
    have "card (unvisited n ?e) \<le> k" using unvisited_enter [OF v(1) len(1) v(2)] fuel by simp
    moreover have "set (succ v) \<subseteq> {..<n}" using succ_range [OF v(1)] by auto
    ultimately obtain c where c: "connectAll k succ live v (succ v) ?e = Some c" "tarjan_ok n live i c" "extends {v} ?e c"
      using connectAll_ok [OF Suc v(1) e(2,1)] by blast
    obtain new where st: "t_stack c = new @ v # t_stack t" using c(3) by (auto simp: extends_def enter_def)
    note close = closeComponent_cases [OF c(2) st]
    have idx: "t_index c ! v = int (t_next t)" "t_low c ! v \<le> int (t_next t)"
      using c(3) e(2) v(1) len by (auto simp: extends_def enter_def)
    have "extends {} t (closeComponent v c)"
      unfolding extends_def close(2-4)
    proof (intro conjI ballI)
      show "\<exists>ns. t_stack (closeComponent v c) = ns @ t_stack t" using close(5) st by simp
      show "visited t \<subseteq> visited c" using c(3) e(3) by (auto simp: extends_def)
      fix b assume b: "b \<in> visited t"
      then have "b \<noteq> v" "b \<in> visited ?e" using v(2) e(3) by (auto simp: extends_def)
      then show "t_index c ! b = t_index t ! b" "b \<in> {} \<or> t_low c ! b = t_low t ! b" "t_low c ! b \<le> t_low t ! b"
        using c(3) e(3) b by (auto simp: extends_def)
    qed
    then show "\<exists>u. strongConnect (Suc k) succ live v t = Some u \<and> tarjan_ok n live i u \<and> extends {} t u \<and> v \<in> visited u \<and>
        t_index u ! v = int (t_next t) \<and> t_low u ! v \<le> t_index u ! v \<and>
        (t_low u ! v = t_index u ! v \<longrightarrow> t_stack u = t_stack t)"
      using c close idx e(2) by (intro exI [of _ "closeComponent v c"]) (auto simp: extends_def)
  qed
qed

section \<open>The loop over the blocks\<close>

text \<open>Between the calls the stack is empty, and the blocks before the current one are done.\<close>

definition between :: "nat \<Rightarrow> tarjan \<Rightarrow> bool" where
  "between b t \<longleftrightarrow> tarjan_ok n live (t_next t) t \<and> t_stack t = [] \<and> {a. a < b \<and> live a} \<subseteq> visited t"

lemma tarjan_ok_raise: "tarjan_ok n live i t \<Longrightarrow> t_stack t = [] \<Longrightarrow> tarjan_ok n live (t_next t) t"
  by (auto simp: tarjan_ok_def)

lemma between_init: "between 0 (tarjan_init n)"
  by (auto simp: between_def tarjan_ok_def tarjan_init_def visited_def)

lemma between_step:
  assumes "between b t" "b < n"
  shows "\<exists>u. connectFrom n succ live b (Some t) = Some u \<and> between (Suc b) u"
proof (cases "live b \<and> t_index t ! b < 0")
  case False
  have "length (t_index t) = n" using assms(1) by (simp add: between_def tarjan_ok_def)
  then have "live b \<Longrightarrow> b \<in> visited t" using False not_visited [OF assms(2), of t] by simp
  then show ?thesis using False assms(1) by (auto simp: connectFrom_def between_def less_Suc_eq)
next
  case True
  have ok: "tarjan_ok n live (t_next t) t" and st: "t_stack t = []" using assms(1) by (simp_all add: between_def)
  have "b \<notin> visited t" using True by (simp add: visited_def)
  moreover have "card (unvisited n t) \<le> n"
    using card_mono [of "{..<n}" "unvisited n t"] by (auto simp: unvisited_def)
  ultimately obtain u where u: "strongConnect n succ live b t = Some u" "tarjan_ok n live (t_next t) u" "extends {} t u"
    "b \<in> visited u" "t_index u ! b = int (t_next t)" "t_low u ! b \<le> t_index u ! b"
    "t_low u ! b = t_index u ! b \<longrightarrow> t_stack u = t_stack t"
    using connects_all [of "t_next t" "n"] assms(2) True ok unfolding connects_def by blast
  have "int (t_next t) \<le> t_low u ! b" using u(2,4,5) by (simp add: tarjan_ok_def)
  then have "t_stack u = []" using u(5-7) st by simp
  then have "between (Suc b) u"
    using tarjan_ok_raise [OF u(2)] u(3,4) assms(1) by (auto simp: between_def extends_def less_Suc_eq)
  then show ?thesis using True u(1) by (simp add: connectFrom_def)
qed

lemma between_fold:
  "b \<le> n \<Longrightarrow> \<exists>t. fold (connectFrom n succ live) [0..<b] (Some (tarjan_init n)) = Some t \<and> between b t"
proof (induction b)
  case 0
  then show ?case using between_init by simp
next
  case (Suc b)
  then obtain t where "fold (connectFrom n succ live) [0..<b] (Some (tarjan_init n)) = Some t" "between b t" by auto
  then show ?case using between_step [of b t] Suc.prems by simp
qed

lemma components_exist:
  "\<exists>cs. components n succ live = Some cs \<and> distinct (concat cs) \<and>
    set (concat cs) = {b. b < n \<and> live b} \<and> list_all sorted cs \<and> [] \<notin> set cs"
proof -
  obtain t where t: "fold (connectFrom n succ live) [0..<n] (Some (tarjan_init n)) = Some t"
    "between (n) t" using between_fold by blast
  have "visited t = {b. b < n \<and> live b}"
    using t(2) by (auto simp: between_def tarjan_ok_def visited_def)
  then show ?thesis using t by (auto simp: components_def between_def tarjan_ok_def)
qed

end

end
