(* ===== verification/Strong_Components.thy ===== *)
theory Strong_Components
  imports Tarjan
begin

text \<open>
  Why the components that Tarjan's search records are the strongly connected components: the
  invariant of the search with the calls that are under way as a set \<open>G\<close> of nodes, and what
  the \<^verbatim>\<open>low\<close> of a node means when its call returns.
\<close>

text \<open>Two nodes of the stack are compared by their index; the stack is in descending order.\<close>

definition older :: "tarjan \<Rightarrow> nat \<Rightarrow> nat \<Rightarrow> bool" where
  "older t a b \<longleftrightarrow> t_index t ! a \<le> t_index t ! b"

definition closed_nodes :: "tarjan \<Rightarrow> nat set" where
  "closed_nodes t = set (concat (t_comps t))"

context search
begin

definition edge :: "nat \<Rightarrow> nat \<Rightarrow> bool" where
  "edge v w \<longleftrightarrow> v < n \<and> w \<in> set (succ v) \<and> live w"

abbreviation reaches :: "nat \<Rightarrow> nat \<Rightarrow> bool" where
  "reaches \<equiv> edge\<^sup>*\<^sup>*"

definition component :: "nat set \<Rightarrow> bool" where
  "component K \<longleftrightarrow> (\<forall>a\<in>K. K = {b. reaches a b \<and> reaches b a})"

definition search_inv :: "nat set \<Rightarrow> tarjan \<Rightarrow> bool" where
  "search_inv G t \<longleftrightarrow>
    sorted_wrt (\<lambda>a b. t_index t ! b < t_index t ! a) (t_stack t) \<and>
    (\<forall>c\<in>closed_nodes t. \<forall>w. edge c w \<longrightarrow> w \<in> closed_nodes t) \<and>
    (\<forall>K\<in>set (t_comps t). component (set K)) \<and>
    (\<forall>x\<in>set (t_stack t). \<forall>y\<in>set (t_stack t). older t x y \<longrightarrow> reaches x y) \<and>
    (\<forall>y\<in>set (t_stack t). \<exists>g\<in>G. older t g y \<and> reaches y g) \<and>
    (\<forall>b\<in>visited t - G. \<forall>w. edge b w \<longrightarrow> w \<in> visited t) \<and>
    G \<subseteq> set (t_stack t)"

lemma search_invD:
  assumes "search_inv G t"
  shows "sorted_wrt (\<lambda>a b. t_index t ! b < t_index t ! a) (t_stack t)"
    "c \<in> closed_nodes t \<Longrightarrow> edge c w \<Longrightarrow> w \<in> closed_nodes t"
    "K \<in> set (t_comps t) \<Longrightarrow> component (set K)"
    "x \<in> set (t_stack t) \<Longrightarrow> y \<in> set (t_stack t) \<Longrightarrow> older t x y \<Longrightarrow> reaches x y"
    "y \<in> set (t_stack t) \<Longrightarrow> \<exists>g\<in>G. older t g y \<and> reaches y g"
    "b \<in> visited t \<Longrightarrow> b \<notin> G \<Longrightarrow> edge b w \<Longrightarrow> w \<in> visited t"
    "G \<subseteq> set (t_stack t)"
  using assms unfolding search_inv_def by blast+

lemma visited_split: "tarjan_ok n live i t \<Longrightarrow> visited t = closed_nodes t \<union> set (t_stack t)"
  "tarjan_ok n live i t \<Longrightarrow> closed_nodes t \<inter> set (t_stack t) = {}"
  unfolding tarjan_ok_def closed_nodes_def by auto

lemma search_inv_lower [simp]: "search_inv G (lower v x t) \<longleftrightarrow> search_inv G t"
  by (simp add: search_inv_def older_def closed_nodes_def lower_def visited_def)

text \<open>A closed set of nodes holds whatever its nodes reach.\<close>

lemma reaches_closed: "reaches a b \<Longrightarrow> a \<in> S \<Longrightarrow> (\<And>c w. c \<in> S \<Longrightarrow> edge c w \<Longrightarrow> w \<in> S) \<Longrightarrow> b \<in> S"
  by (induction rule: rtranclp_induct) blast+

lemma search_inv_enter:
  assumes inv: "search_inv G t" and ok: "tarjan_ok n live i t" and v: "v < n" "v \<notin> visited t"
    and from_grey: "\<And>g. g \<in> G \<Longrightarrow> reaches g v"
  shows "search_inv (insert v G) (enter v t)"
proof -
  have len: "length (t_index t) = n" using ok by (simp add: tarjan_ok_def)
  have vis: "visited (enter v t) = insert v (visited t)" using v len by (simp add: visited_enter)
  have stack: "t_stack (enter v t) = v # t_stack t" and comps: "t_comps (enter v t) = t_comps t"
    and closed: "closed_nodes (enter v t) = closed_nodes t" by (simp_all add: enter_def closed_nodes_def)
  have on: "set (t_stack t) \<subseteq> visited t" using visited_split [OF ok] by blast
  have old: "t_index (enter v t) ! b = t_index t ! b" "t_index t ! b < int (t_next t)" if "b \<in> set (t_stack t)" for b
  proof -
    have "b \<in> visited t" "b \<noteq> v" using that on v(2) by auto
    then show "t_index (enter v t) ! b = t_index t ! b" "t_index t ! b < int (t_next t)"
      using ok by (auto simp: enter_def tarjan_ok_def)
  qed
  have new: "t_index (enter v t) ! v = int (t_next t)" using v len by (simp add: enter_def)
  have order: "older (enter v t) x y \<longleftrightarrow> older t x y" if "x \<in> set (t_stack t)" "y \<in> set (t_stack t)" for x y
    using old that by (simp add: older_def)
  have to_v: "reaches x v" if "x \<in> set (t_stack t)" for x
    using search_invD(5) [OF inv that] from_grey by (meson rtranclp_trans)
  have G: "G \<subseteq> set (t_stack t)" using search_invD(7) [OF inv] .
  show ?thesis
    unfolding search_inv_def stack comps closed vis
  proof (intro conjI ballI allI impI)
    show "sorted_wrt (\<lambda>a b. t_index (enter v t) ! b < t_index (enter v t) ! a) (v # t_stack t)"
      using old new by (auto intro: sorted_wrt_mono_rel [OF _ search_invD(1) [OF inv]])
  next
    fix c w assume "c \<in> closed_nodes t" "edge c w"
    then show "w \<in> closed_nodes t" using search_invD(2) [OF inv] by blast
  next
    fix K assume "K \<in> set (t_comps t)"
    then show "component (set K)" using search_invD(3) [OF inv] by blast
  next
    fix x y assume xy: "x \<in> set (v # t_stack t)" "y \<in> set (v # t_stack t)" "older (enter v t) x y"
    show "reaches x y"
    proof (cases "x = v")
      case True
      then have "y = v" using xy old new by (fastforce simp: older_def)
      then show ?thesis using True by simp
    next
      case False
      then have x: "x \<in> set (t_stack t)" using xy by simp
      then show ?thesis using to_v xy order search_invD(4) [OF inv x, of y] by (cases "y = v") auto
    qed
  next
    fix y assume y: "y \<in> set (v # t_stack t)"
    show "\<exists>g\<in>insert v G. older (enter v t) g y \<and> reaches y g"
    proof (cases "y = v")
      case True
      then show ?thesis by (auto simp: older_def)
    next
      case False
      then have "y \<in> set (t_stack t)" using y by simp
      then show ?thesis using search_invD(5) [OF inv] G order by blast
    qed
  next
    fix b w assume "b \<in> insert v (visited t) - insert v G" "edge b w"
    then show "w \<in> insert v (visited t)" using search_invD(6) [OF inv] by blast
  next
    show "insert v G \<subseteq> set (v # t_stack t)" using G by auto
  qed
qed

text \<open>
  What the \<^verbatim>\<open>low\<close> of \<open>v\<close> means, when \<open>old\<close> was the stack of the call and \<open>new\<close> is what the call has
  left on top of it: it is the index of a node of the stack that \<open>v\<close> reaches, and it is not above the
  index of a node of \<open>old\<close> to which an edge leads from \<open>new\<close>.
\<close>

definition low_ok :: "nat \<Rightarrow> nat list \<Rightarrow> nat list \<Rightarrow> tarjan \<Rightarrow> bool" where
  "low_ok v new old t \<longleftrightarrow> t_low t ! v \<le> t_index t ! v \<and>
    (\<exists>x\<in>insert v (set (t_stack t)). t_index t ! x = t_low t ! v \<and> reaches v x) \<and>
    (\<forall>y\<in>set new. \<forall>z\<in>set old. edge y z \<longrightarrow> t_low t ! v \<le> t_index t ! z)"

text \<open>Closing a component: the nodes above the root, and the root, are one.\<close>

lemma reaches_back:
  assumes inv: "search_inv (insert v G) t" and ok: "tarjan_ok n live i t" and st: "t_stack t = new @ v # old"
    and G: "G \<subseteq> set old" and low: "\<And>y z. y \<in> set (new @ [v]) \<Longrightarrow> z \<in> set old \<Longrightarrow> \<not> edge y z"
    and v_done: "\<And>z. edge v z \<Longrightarrow> z \<in> visited t" and y: "y \<in> set (new @ [v])"
  shows "reaches y v" "reaches v y" "reaches y b \<Longrightarrow> b \<in> set (new @ [v]) \<union> closed_nodes t"
proof -
  have vis: "visited t = closed_nodes t \<union> set (t_stack t)" "closed_nodes t \<inter> set (t_stack t) = {}"
    using visited_split [OF ok] by blast+
  have dist: "distinct (new @ v # old)" using ok st by (auto simp: tarjan_ok_def)
  let ?S = "set (new @ [v]) \<union> closed_nodes t"
  have closed: "w \<in> ?S" if "c \<in> ?S" "edge c w" for c w
  proof (cases "c \<in> closed_nodes t")
    case True
    then show ?thesis using search_invD(2) [OF inv True that(2)] by blast
  next
    case False
    then have c: "c \<in> set (new @ [v])" using that(1) by blast
    have "w \<in> visited t"
    proof (cases "c = v")
      case True
      then show ?thesis using v_done that(2) by blast
    next
      case False
      then have "c \<in> set new" using c by simp
      then have "c \<notin> insert v G" "c \<in> visited t" using dist G st vis by auto
      then show ?thesis using search_invD(6) [OF inv _ _ that(2)] by blast
    qed
    then show ?thesis using low [OF c, of w] that(2) vis(1) st by auto
  qed
  show "b \<in> ?S" if "reaches y b"
    using reaches_closed [OF that, of ?S] y closed by blast
  have y': "y \<in> set (t_stack t)" using y st by auto
  obtain g where g: "g \<in> insert v G" "older t g y" "reaches y g" using search_invD(5) [OF inv y'] by blast
  have "g \<in> ?S" using reaches_closed [OF g(3), of ?S] y closed by blast
  moreover have "g \<notin> closed_nodes t" using g(1) G st vis(2) by auto
  ultimately have "g \<notin> set old" using dist by auto
  then have "g = v" using g(1) G by blast
  then show "reaches y v" using g(3) by simp
  have "older t v y" using search_invD(1) [OF inv] y st by (auto simp: older_def sorted_wrt_append)
  moreover have "v \<in> set (t_stack t)" using st by simp
  ultimately show "reaches v y" using search_invD(4) [OF inv _ y', of v] by blast
qed

lemma search_inv_close:
  assumes inv: "search_inv (insert v G) t" and ok: "tarjan_ok n live i t" and st: "t_stack t = new @ v # old"
    and G: "G \<subseteq> set old" and low: "low_ok v (new @ [v]) old t"
    and v_done: "\<And>z. edge v z \<Longrightarrow> z \<in> visited t"
  shows "search_inv G (closeComponent v t)"
proof -
  have vis: "visited t = closed_nodes t \<union> set (t_stack t)" "closed_nodes t \<inter> set (t_stack t) = {}"
    using visited_split [OF ok] by blast+
  have dist: "distinct (new @ v # old)" using ok st by (auto simp: tarjan_ok_def)
  have sorted: "\<And>y z. y \<in> set (new @ [v]) \<Longrightarrow> z \<in> set old \<Longrightarrow> t_index t ! z < t_index t ! y"
    "\<And>y. y \<in> set new \<Longrightarrow> t_index t ! v < t_index t ! y"
    using search_invD(1) [OF inv] st by (auto simp: sorted_wrt_append)
  note close = closeComponent_cases [OF ok st]
  have pop: "popUntil v (t_stack t) = (new @ [v], old)" unfolding st using dist by (intro popUntil_split) simp
  have order: "older (closeComponent v t) = older t" by (simp add: fun_eq_iff older_def close(3))
  show ?thesis
  proof (cases "t_low t ! v = t_index t ! v")
    case True
    have comps: "t_comps (closeComponent v t) = t_comps t @ [sort (new @ [v])]"
      using True by (simp add: closeComponent_def pop)
    then have cl: "closed_nodes (closeComponent v t) = closed_nodes t \<union> set (new @ [v])"
      by (auto simp: closed_nodes_def)
    have stack: "t_stack (closeComponent v t) = old" using close(5) True by simp
    have no: "\<not> edge y z" if "y \<in> set (new @ [v])" "z \<in> set old" for y z
      using low sorted(1) [of v z] that True unfolding low_ok_def by force
    note returns = reaches_back [OF inv ok st G no v_done]
    have comp: "component (set (new @ [v]))"
      unfolding component_def
    proof (intro ballI set_eqI iffI; (elim CollectE conjE)?)
      fix a b assume a: "a \<in> set (new @ [v])" and b: "b \<in> set (new @ [v])"
      show "b \<in> {b. reaches a b \<and> reaches b a}"
        using returns(1,2) [OF _ _ _ a] returns(1,2) [OF _ _ _ b] by (blast intro: rtranclp_trans)
    next
      fix a b assume a: "a \<in> set (new @ [v])" and ab: "reaches a b" "reaches b a"
      show "b \<in> set (new @ [v])"
      proof (rule ccontr)
        assume "b \<notin> set (new @ [v])"
        then have "b \<in> closed_nodes t" using returns(3) [OF _ _ _ a ab(1)] by blast
        then have "a \<in> closed_nodes t"
          using reaches_closed [OF ab(2), of "closed_nodes t"] search_invD(2) [OF inv] by blast
        then show False using a vis(2) st by auto
      qed
    qed
    show ?thesis
      unfolding search_inv_def order cl stack comps close(2,3)
    proof (intro conjI ballI allI impI)
      show "sorted_wrt (\<lambda>a b. t_index t ! b < t_index t ! a) old"
        using search_invD(1) [OF inv] st by (simp add: sorted_wrt_append)
    next
      fix c w assume c: "c \<in> closed_nodes t \<union> set (new @ [v])" "edge c w"
      then show "w \<in> closed_nodes t \<union> set (new @ [v])"
        using search_invD(2) [OF inv _ c(2)] returns(3) [of c w] by auto
    next
      fix K assume "K \<in> set (t_comps t @ [sort (new @ [v])])"
      then show "component (set K)" using search_invD(3) [OF inv] comp by auto
    next
      fix x y assume "x \<in> set old" "y \<in> set old" "older t x y"
      then show "reaches x y" using search_invD(4) [OF inv, of x y] st by simp
    next
      fix y assume y: "y \<in> set old"
      then obtain g where g: "g \<in> insert v G" "older t g y" "reaches y g"
        using search_invD(5) [OF inv, of y] st by auto
      then have "g \<noteq> v" using sorted(1) [of v y] y by (auto simp: older_def)
      then show "\<exists>g\<in>G. older t g y \<and> reaches y g" using g by blast
    next
      fix b w assume "b \<in> visited t - G" "edge b w"
      then show "w \<in> visited t" using search_invD(6) [OF inv, of b w] v_done by (cases "b = v") auto
    next
      show "G \<subseteq> set old" by (rule G)
    qed
  next
    case False
    then have same: "closeComponent v t = t" by (simp add: closeComponent_def)
    obtain x where x: "x \<in> set (t_stack t)" "t_index t ! x = t_low t ! v" "reaches v x"
      using low st unfolding low_ok_def by auto
    have "t_index t ! x < t_index t ! v" using x(2) False low by (simp add: low_ok_def)
    then have "x \<in> set old" using x(1) st sorted(2) [of x] by fastforce
    have lt: "t_index t ! x < t_index t ! v" by fact
    obtain g where g: "g \<in> insert v G" "older t g x" "reaches x g" using search_invD(5) [OF inv x(1)] by blast
    have gv: "g \<in> G" "older t g v" "reaches v g"
      using g lt rtranclp_trans [OF x(3) g(3)] by (auto simp: older_def)
    show ?thesis
      unfolding same search_inv_def
    proof (intro conjI ballI allI impI)
      fix y assume "y \<in> set (t_stack t)"
      then obtain h where h: "h \<in> insert v G" "older t h y" "reaches y h" using search_invD(5) [OF inv] by blast
      show "\<exists>g\<in>G. older t g y \<and> reaches y g"
      proof (cases "h = v")
        case True
        then have "older t g y" "reaches y g" using gv h by (auto simp: older_def intro: rtranclp_trans)
        then show ?thesis using gv(1) by blast
      qed (use h in blast)
    next
      fix b w assume "b \<in> visited t - G" "edge b w"
      then show "w \<in> visited t" using search_invD(6) [OF inv, of b w] v_done by (cases "b = v") auto
    qed (use inv st G in \<open>auto dest: search_invD\<close>)
  qed
qed

section \<open>The calls\<close>

text \<open>What the call for \<open>v\<close> achieves beyond \<open>connects\<close>, when the calls under way can reach \<open>v\<close>.\<close>

definition finds :: "nat \<Rightarrow> nat \<Rightarrow> bool" where
  "finds i k \<longleftrightarrow> (\<forall>v t G. v < n \<and> v \<notin> visited t \<and> live v \<and> tarjan_ok n live i t \<and>
     card (unvisited n t) \<le> k \<and> search_inv G t \<and> (\<forall>g\<in>G. reaches g v) \<longrightarrow>
     (\<exists>u new. strongConnect k succ live v t = Some u \<and> search_inv G u \<and>
        t_stack u = new @ t_stack t \<and> low_ok v new (t_stack t) u))"

text \<open>What holds in the loop over the successors of \<open>v\<close>, when those of \<open>seen\<close> have been visited.\<close>

definition looping :: "nat \<Rightarrow> nat set \<Rightarrow> nat list \<Rightarrow> nat \<Rightarrow> nat set \<Rightarrow> tarjan \<Rightarrow> bool" where
  "looping i G old v seen t \<longleftrightarrow> tarjan_ok n live i t \<and> search_inv (insert v G) t \<and> v \<in> visited t \<and>
     (\<exists>new. t_stack t = new @ v # old \<and> low_ok v new old t) \<and>
     (\<forall>w\<in>seen. live w \<longrightarrow> w \<in> visited t \<and> (w \<in> set old \<longrightarrow> t_low t ! v \<le> t_index t ! w))"

lemma lower_fields [simp]: "t_index (lower v j t) = t_index t" "t_stack (lower v j t) = t_stack t"
  "v < length (t_low t) \<Longrightarrow> t_low (lower v j t) ! v = min (t_low t ! v) j"
  by (simp_all add: lower_def)

lemma low_ok_lower:
  assumes ok: "low_ok v new old t" and v: "v < length (t_low t)"
    and x: "x \<in> set (t_stack t)" "t_index t ! x = j" "reaches v x"
  shows "low_ok v new old (lower v j t)"
proof -
  obtain y where y: "y \<in> insert v (set (t_stack t))" "t_index t ! y = t_low t ! v" "reaches v y"
    using ok by (auto simp: low_ok_def)
  have "\<exists>z\<in>insert v (set (t_stack t)). t_index t ! z = min (t_low t ! v) j \<and> reaches v z"
    using x y by (cases "t_low t ! v \<le> j") (auto simp: min_def)
  then show ?thesis using ok v unfolding low_ok_def by fastforce
qed

lemma looping_old:
  assumes "looping i G old v seen t" "v < n" "w \<in> set (succ v)" "live w" "w < n" "w \<in> visited t" "t_on t ! w"
  shows "looping i G old v (insert w seen) (lower v (t_index t ! w) t)"
proof -
  have ok: "tarjan_ok n live i t" using assms(1) by (simp add: looping_def)
  then have len: "length (t_low t) = n" by (simp add: tarjan_ok_def)
  have w: "w \<in> set (t_stack t)" "int i \<le> t_index t ! w" using ok assms(5,7) by (auto simp: tarjan_ok_def)
  have "reaches v w" using assms(2-4) by (auto simp: edge_def)
  then have low: "low_ok v new old (lower v (t_index t ! w) t)" if "low_ok v new old t" for new
    using low_ok_lower [OF that _ w(1)] assms(2) len by simp
  have v: "v < length (t_low t)" using assms(2) len by simp
  show ?thesis
    using assms(1,6) low tarjan_ok_lower [OF ok assms(2) w(2)] v unfolding looping_def by auto
qed

lemma looping_closed:
  assumes "looping i G old v seen t" "w < n" "w \<in> visited t" "\<not> t_on t ! w"
  shows "looping i G old v (insert w seen) t"
proof -
  have "w \<notin> set (t_stack t)" using assms unfolding looping_def tarjan_ok_def by blast
  then show ?thesis using assms(1,3) unfolding looping_def by auto
qed

lemma looping_new:
  assumes loop: "looping i G old v seen t" and v: "v < n" and w: "w \<in> set (succ v)" "live w" "w < n" "w \<notin> visited t"
    and k: "finds i k" "card (unvisited n t) \<le> k" and G: "\<And>g. g \<in> G \<Longrightarrow> g \<in> set old"
  shows "\<exists>u. strongConnect k succ live w t = Some u \<and> looping i G old v (insert w seen) (lower v (t_low u ! w) u)"
proof -
  obtain new where st: "t_stack t = new @ v # old" and low: "low_ok v new old t"
    and ok: "tarjan_ok n live i t" and inv: "search_inv (insert v G) t" and vv: "v \<in> visited t"
    using loop by (auto simp: looping_def)
  have "reaches v w" using v w by (auto simp: edge_def)
  moreover have "reaches g v" if "g \<in> insert v G" for g
    using search_invD(4) [OF inv, of g v] search_invD(1) [OF inv] G [of g] that st
    by (cases "g = v") (auto simp: older_def sorted_wrt_append less_imp_le)
  ultimately have "\<forall>g\<in>insert v G. reaches g w" by (meson rtranclp_trans)
  then obtain u new' where u: "strongConnect k succ live w t = Some u" "search_inv (insert v G) u"
      "t_stack u = new' @ t_stack t" "low_ok w new' (t_stack t) u"
    using k w ok inv unfolding finds_def by blast
  obtain u' where "strongConnect k succ live w t = Some u'" "tarjan_ok n live i u'" "extends {} t u'" "w \<in> visited u'"
      "t_index u' ! w = int (t_next t)"
    using connects_all [of i k] w k(2) ok unfolding connects_def by blast
  then have u': "tarjan_ok n live i u" "extends {} t u" "w \<in> visited u" "t_index u ! w = int (t_next t)"
    using u(1) by simp_all
  have keep: "t_index u ! b = t_index t ! b" "t_low u ! b = t_low t ! b" "b \<in> visited u" if "b \<in> visited t" for b
    using u'(2) that by (auto simp: extends_def)
  have on: "set (t_stack t) \<subseteq> visited t" using visited_split [OF ok] by blast
  have len: "length (t_low u) = n" using u'(1) by (simp add: tarjan_ok_def)
  have lw: "int i \<le> t_low u ! w" using u'(1,3,4) ok by (simp add: tarjan_ok_def)
  have low_u: "low_ok v (new' @ new) old (lower v (t_low u ! w) u)"
  proof -
    obtain x where x: "x \<in> insert w (set (t_stack u))" "t_index u ! x = t_low u ! w" "reaches w x"
      using u(4) by (auto simp: low_ok_def)
    obtain y where y: "y \<in> insert v (set (t_stack t))" "t_index t ! y = t_low t ! v" "reaches v y"
      using low by (auto simp: low_ok_def)
    have yu: "y \<in> insert v (set (t_stack u))" "t_index u ! y = t_low u ! v"
      using y u(3) keep on vv by auto
    have lv: "t_low u ! v \<le> t_index u ! v" using low keep vv by (simp add: low_ok_def)
    have vw: "t_index u ! v < t_index u ! w" using keep(1) [OF vv] u'(4) ok vv by (simp add: tarjan_ok_def)
    have "\<exists>z\<in>insert v (set (t_stack u)). t_index u ! z = min (t_low u ! v) (t_low u ! w) \<and> reaches v z"
    proof (cases "t_low u ! v \<le> t_low u ! w")
      case True
      then show ?thesis using yu y(3) by (auto simp: min_def)
    next
      case False
      then have "x \<noteq> w" using x(2) lv vw by auto
      moreover have "reaches v x" using \<open>reaches v w\<close> x(3) by (rule rtranclp_trans)
      ultimately show ?thesis using x False by (auto simp: min_def)
    qed
    moreover have "min (t_low u ! v) (t_low u ! w) \<le> t_index u ! z"
      if "y \<in> set (new' @ new)" "z \<in> set old" "edge y z" for y z
    proof -
      have z: "z \<in> set (t_stack t)" "z \<in> visited t" using that(2) st on by auto
      show ?thesis
      proof (cases "y \<in> set new'")
        case True
        then show ?thesis using u(4) that(3) z(1) by (fastforce simp: low_ok_def)
      next
        case False
        then show ?thesis using low that z keep vv by (fastforce simp: low_ok_def)
      qed
    qed
    ultimately show ?thesis using lv v len by (auto simp: low_ok_def)
  qed
  have seen: "a \<in> visited u \<and> (a \<in> set old \<longrightarrow> min (t_low u ! v) (t_low u ! w) \<le> t_index u ! a)"
    if "a \<in> insert w seen" "live a" for a
  proof (cases "a = w")
    case True
    then show ?thesis using u'(3) w(4) st on by auto
  next
    case False
    then show ?thesis using loop that keep vv by (auto simp: looping_def)
  qed
  have "looping i G old v (insert w seen) (lower v (t_low u ! w) u)"
    unfolding looping_def
  proof (intro conjI ballI impI)
    show "tarjan_ok n live i (lower v (t_low u ! w) u)" by (rule tarjan_ok_lower [OF u'(1) v lw])
    show "search_inv (insert v G) (lower v (t_low u ! w) u)" using u(2) by simp
    show "v \<in> visited (lower v (t_low u ! w) u)" using keep vv by simp
    show "\<exists>new. t_stack (lower v (t_low u ! w) u) = new @ v # old \<and> low_ok v new old (lower v (t_low u ! w) u)"
      using low_u u(3) st by (intro exI [of _ "new' @ new"]) simp
    fix a assume "a \<in> insert w seen" "live a"
    then show "a \<in> visited (lower v (t_low u ! w) u)"
      "a \<in> set old \<Longrightarrow> t_low (lower v (t_low u ! w) u) ! v \<le> t_index (lower v (t_low u ! w) u) ! a"
      using seen v len by simp_all
  qed
  then show ?thesis using u(1) by blast
qed

lemma looping_all:
  assumes k: "finds i k" and v: "v < n" and G: "\<And>g. g \<in> G \<Longrightarrow> g \<in> set old"
  shows "looping i G old v seen t \<Longrightarrow> card (unvisited n t) \<le> k \<Longrightarrow> set ws \<subseteq> set (succ v) \<Longrightarrow>
    \<exists>u. connectAll k succ live v ws t = Some u \<and> looping i G old v (seen \<union> set ws) u"
proof (induction ws arbitrary: t seen)
  case Nil
  then show ?case by simp
next
  case (Cons w ws)
  have w: "w < n" "w \<in> set (succ v)" using Cons.prems(3) succ_range [OF v] by auto
  have ok: "tarjan_ok n live i t" using Cons.prems(1) by (simp add: looping_def)
  then have len: "length (t_index t) = n" by (simp add: tarjan_ok_def)
  have step: "\<exists>u'. connectAll k succ live v ws u = Some u' \<and> looping i G old v (seen \<union> set (w # ws)) u'"
    if u: "looping i G old v (insert w seen) u" "visited t \<subseteq> visited u" for u
  proof -
    have "card (unvisited n u) \<le> card (unvisited n t)"
      using u(2) by (intro card_mono) (auto simp: unvisited_def)
    then show ?thesis using Cons.IH [OF u(1)] Cons.prems(2,3) by auto
  qed
  consider (dead) "\<not> live w" | (new) "live w" "w \<notin> visited t" | (old) "live w" "w \<in> visited t" "t_on t ! w"
    | (closed) "live w" "w \<in> visited t" "\<not> t_on t ! w" by blast
  then show ?case
  proof cases
    case dead
    then have "looping i G old v (insert w seen) t" using Cons.prems(1) by (auto simp: looping_def)
    then show ?thesis using step dead by simp
  next
    case new
    then obtain u where u: "strongConnect k succ live w t = Some u"
        "looping i G old v (insert w seen) (lower v (t_low u ! w) u)"
      using looping_new [OF Cons.prems(1) v w(2) new(1) w(1) new(2) k Cons.prems(2) G] by blast
    have "visited t \<subseteq> visited u"
      using connects_all [of i k] w(1) new ok Cons.prems(2) u(1) unfolding connects_def extends_def by fastforce
    then show ?thesis using step [OF u(2)] u(1) new not_visited [OF w(1) len] by simp
  next
    case old
    then show ?thesis using step [OF looping_old [OF Cons.prems(1) v w(2) old(1) w(1) old(2,3)]] not_visited [OF w(1) len]
      by simp
  next
    case closed
    then show ?thesis using step [OF looping_closed [OF Cons.prems(1) w(1) closed(2,3)]] not_visited [OF w(1) len]
      by simp
  qed
qed

lemma looping_enter:
  assumes "tarjan_ok n live i t" "v < n" "v \<notin> visited t" "live v" "search_inv G t" "\<And>g. g \<in> G \<Longrightarrow> reaches g v"
  shows "looping i G (t_stack t) v {} (enter v t)"
proof -
  have len: "length (t_index t) = n" "length (t_low t) = n" using assms(1) by (simp_all add: tarjan_ok_def)
  then have "t_stack (enter v t) = [] @ v # t_stack t" "low_ok v [] (t_stack t) (enter v t)"
    using assms(2) by (simp_all add: enter_def low_ok_def)
  moreover have "v \<in> visited (enter v t)" using assms(2) len by (simp add: visited_enter)
  ultimately show ?thesis
    using tarjan_ok_enter [OF assms(1-4)] search_inv_enter [OF assms(5,1-3,6)] unfolding looping_def by blast
qed

lemma looping_close:
  assumes loop: "looping i G old v (set (succ v)) t" and G: "G \<subseteq> set old"
  shows "search_inv G (closeComponent v t) \<and>
    (\<exists>new. t_stack (closeComponent v t) = new @ old \<and> low_ok v new old (closeComponent v t))"
proof -
  obtain new where st: "t_stack t = new @ v # old" and low: "low_ok v new old t"
    and ok: "tarjan_ok n live i t" and inv: "search_inv (insert v G) t"
    using loop by (auto simp: looping_def)
  have seen: "z \<in> visited t" "z \<in> set old \<Longrightarrow> t_low t ! v \<le> t_index t ! z" if "edge v z" for z
    using loop that by (auto simp: looping_def edge_def)
  have low': "low_ok v (new @ [v]) old t" using low seen(2) by (auto simp: low_ok_def)
  note close = closeComponent_cases [OF ok st]
  have "\<exists>new. t_stack (closeComponent v t) = new @ old \<and> low_ok v new old (closeComponent v t)"
  proof (cases "t_low t ! v = t_index t ! v")
    case True
    then show ?thesis using close(3-5) by (intro exI [of _ "[]"]) (auto simp: low_ok_def)
  next
    case False
    then have "closeComponent v t = t" by (simp add: closeComponent_def)
    then show ?thesis using low' st by (intro exI [of _ "new @ [v]"]) simp
  qed
  then show ?thesis using search_inv_close [OF inv ok st G low' seen(1)] by blast
qed

lemma finds_all: "finds i k"
proof (induction k)
  case 0
  then show ?case by (auto simp: finds_def unvisited_def)
next
  case (Suc k)
  show ?case
    unfolding finds_def
  proof (intro allI impI, elim conjE)
    fix v t G
    assume v: "v < n" "v \<notin> visited t" "live v" and ok: "tarjan_ok n live i t"
      and fuel: "card (unvisited n t) \<le> Suc k" and inv: "search_inv G t" and G: "\<forall>g\<in>G. reaches g v"
    have "length (t_index t) = n" using ok by (simp add: tarjan_ok_def)
    then have "card (unvisited n (enter v t)) \<le> k" using unvisited_enter [OF v(1) _ v(2)] fuel by simp
    moreover have sub: "G \<subseteq> set (t_stack t)" using search_invD(7) [OF inv] .
    ultimately obtain c where "connectAll k succ live v (succ v) (enter v t) = Some c"
        "looping i G (t_stack t) v (set (succ v)) c"
      using looping_all [OF Suc v(1) _ looping_enter [OF ok v inv]] G by fastforce
    then show "\<exists>u new. strongConnect (Suc k) succ live v t = Some u \<and> search_inv G u \<and>
        t_stack u = new @ t_stack t \<and> low_ok v new (t_stack t) u"
      using looping_close [OF _ sub] by auto
  qed
qed

section \<open>The components\<close>

lemma strong_step:
  assumes "between b t" "search_inv {} t" "b < n" "connectFrom n succ live b (Some t) = Some u"
  shows "search_inv {} u"
proof (cases "live b \<and> t_index t ! b < 0")
  case False
  then show ?thesis using assms by (simp add: connectFrom_def split: if_splits)
next
  case True
  have ok: "tarjan_ok n live (t_next t) t" using assms(1) by (simp add: between_def)
  have "b \<notin> visited t" using True by (simp add: visited_def)
  moreover have "card (unvisited n t) \<le> n"
    using card_mono [of "{..<n}" "unvisited n t"] by (auto simp: unvisited_def)
  ultimately obtain u' where "strongConnect n succ live b t = Some u'" "search_inv {} u'"
    using finds_all [of "t_next t" n] assms(2,3) True ok unfolding finds_def by blast
  then show ?thesis using assms(4) True by (simp add: connectFrom_def)
qed

lemma strong_fold:
  "b \<le> n \<Longrightarrow> \<exists>t. fold (connectFrom n succ live) [0..<b] (Some (tarjan_init n)) = Some t \<and> between b t \<and> search_inv {} t"
proof (induction b)
  case 0
  have "search_inv {} (tarjan_init n)"
    by (auto simp: search_inv_def tarjan_init_def closed_nodes_def visited_def)
  then show ?case using between_init by simp
next
  case (Suc b)
  then obtain t where t: "fold (connectFrom n succ live) [0..<b] (Some (tarjan_init n)) = Some t" "between b t"
    "search_inv {} t" by auto
  then obtain u where "connectFrom n succ live b (Some t) = Some u" "between (Suc b) u"
    using between_step [of b t] Suc.prems by auto
  then show ?case using t strong_step [OF t(2,3) _, of u] Suc.prems by simp
qed

text \<open>The nodes of a component are the ones that its nodes reach and are reached from.\<close>

lemma components_strong:
  assumes "components n succ live = Some cs" "c \<in> set cs" "a \<in> set c"
  shows "set c = {b. reaches a b \<and> reaches b a}"
proof -
  obtain t where "fold (connectFrom n succ live) [0..<n] (Some (tarjan_init n)) = Some t" "search_inv {} t"
    using strong_fold [of n] by blast
  then have "t_comps t = cs" "search_inv {} t" using assms(1) by (simp_all add: components_def)
  then have "component (set c)" using search_invD(3) [of "{}" t c] assms(2) by blast
  then show ?thesis using assms(3) unfolding component_def by blast
qed

end

end
