(* ===== verification/IR_SCC.thy ===== *)
theory IR_SCC
  imports IR_Reach Strong_Components
begin

text \<open>
  The strongly connected components of \<^verbatim>\<open>addFunction\<close> (\<^verbatim>\<open>byteveil_decompiler/IR.cpp\<close>): Tarjan's search
  over the successors of the basic blocks, restricted to the reachable ones.
\<close>

definition stronglyConnectedComponents :: "basic_block list \<Rightarrow> nat list list option" where
  "stronglyConnectedComponents bs = components (length bs) (succs bs) (\<lambda>b. reachable_flags bs ! b)"

sublocale cfg \<subseteq> scc: search "length bs" "succs bs" "\<lambda>b. reachable_flags bs ! b"
  by unfold_locales (auto dest: succ_range)

text \<open>The blocks on a way into a block and back again, that block included.\<close>

definition cycleClass :: "basic_block list \<Rightarrow> nat \<Rightarrow> nat set" where
  "cycleClass bs a = {b. (a, b) \<in> (edges bs)\<^sup>* \<and> (b, a) \<in> (edges bs)\<^sup>*}"

context cfg
begin

lemma components_partition:
  "\<exists>cs. stronglyConnectedComponents bs = Some cs \<and> distinct (concat cs) \<and>
    set (concat cs) = {b. b < length bs \<and> reachable_flags bs ! b} \<and> list_all sorted cs \<and> [] \<notin> set cs"
  unfolding stronglyConnectedComponents_def by (rule scc.components_exist)

text \<open>From a reachable block the search follows the paths of the graph.\<close>

lemma edge_reachable: "scc.edge a b \<Longrightarrow> (a, b) \<in> edges bs"
  by (simp add: scc.edge_def edges_iff)

lemma scc_reaches: "(0, a) \<in> (edges bs)\<^sup>* \<Longrightarrow> scc.reaches a b \<longleftrightarrow> (a, b) \<in> (edges bs)\<^sup>*"
proof
  assume "scc.reaches a b"
  then show "(a, b) \<in> (edges bs)\<^sup>*"
    by (induction rule: rtranclp_induct) (auto dest: edge_reachable intro: rtrancl_into_rtrancl)
next
  assume a: "(0, a) \<in> (edges bs)\<^sup>*" and "(a, b) \<in> (edges bs)\<^sup>*"
  from this(2) show "scc.reaches a b"
  proof (induction rule: rtrancl_induct)
    case (step b c)
    have "(0, c) \<in> (edges bs)\<^sup>*" using a step.hyps by (meson rtrancl_trans rtrancl_into_rtrancl)
    moreover have "b < length bs" "c \<in> set (succs bs b)" using step.hyps(2) by (simp_all add: edges_iff)
    moreover have "c < length bs" using calculation(2,3) succ_range by auto
    ultimately have "scc.edge b c" using reachable_iff by (simp add: scc.edge_def)
    then show ?case using step.IH by simp
  qed simp
qed

lemma component_class:
  assumes cs: "stronglyConnectedComponents bs = Some cs" "c \<in> set cs" and a: "a \<in> set c"
  shows "(0, a) \<in> (edges bs)\<^sup>*" "set c = cycleClass bs a"
proof -
  have "a \<in> set (concat cs)" using cs(2) a by auto
  then show a0: "(0, a) \<in> (edges bs)\<^sup>*" using components_partition cs(1) reachable_iff by auto
  have "set c = {b. scc.reaches a b \<and> scc.reaches b a}"
    using cs a unfolding stronglyConnectedComponents_def by (rule scc.components_strong)
  moreover have "scc.reaches a b \<and> scc.reaches b a \<longleftrightarrow> b \<in> cycleClass bs a" for b
    using scc_reaches [OF a0, of b] scc_reaches [of b a] rtrancl_trans [OF a0, of b]
    by (auto simp: cycleClass_def)
  ultimately show "set c = cycleClass bs a" by auto
qed

lemma components_classes:
  assumes cs: "stronglyConnectedComponents bs = Some cs"
  shows "set ` set cs = cycleClass bs ` {a. (0, a) \<in> (edges bs)\<^sup>*}"
proof (intro equalityI subsetI; elim imageE CollectE)
  fix K c assume c: "K = set c" "c \<in> set cs"
  then have "c \<noteq> []" using components_partition cs by auto
  then show "K \<in> cycleClass bs ` {a. (0, a) \<in> (edges bs)\<^sup>*}"
    using component_class [OF cs c(2), of "hd c"] c(1) by auto
next
  fix K a assume a: "K = cycleClass bs a" "(0, a) \<in> (edges bs)\<^sup>*"
  then have "a \<in> set (concat cs)" using components_partition cs reachable_iff path_range by auto
  then obtain c where "c \<in> set cs" "a \<in> set c" by auto
  then show "K \<in> set ` set cs" using component_class(2) [OF cs, of c a] a(1) by auto
qed

end

end
