(* ===== verification/Number_Text.thy ===== *)
theory Number_Text
  imports BV_Prelude
begin

unbundle bit_operations_syntax

text \<open>
  The text of binary floating-point numbers as an output stream with a given precision writes
  them (the general format): the exact value rounded to that many significant digits, half to
  even, without trailing zeros, in scientific notation outside a window of exponents. The code
  uses it with the precision at which every value is distinguished (17 digits for \<^verbatim>\<open>double\<close>, 9 for
  \<^verbatim>\<open>float\<close>).
\<close>

text \<open>A finite value is a fraction; \<open>dec_exp n d\<close> is the decimal exponent of \<open>n / d\<close>.\<close>

definition dec_exp :: "nat \<Rightarrow> nat \<Rightarrow> int" where
  "dec_exp n d =
    (if n \<ge> d then int (length (nat_text (n div d))) - 1
     else - int (length (nat_text ((d + n - 1) div n - 1))))"

definition round_half_even :: "nat \<Rightarrow> nat \<Rightarrow> nat" where
  "round_half_even n d =
    (let q = n div d; r = n mod d in
     if 2 * r < d \<or> (2 * r = d \<and> even q) then q else q + 1)"

text \<open>The significant digits and the exponent after rounding.\<close>

definition significant :: "nat \<Rightarrow> nat \<Rightarrow> nat \<Rightarrow> nat \<times> int" where
  "significant prec n d =
    (let x = dec_exp n d; s = int prec - 1 - x;
         q = (if s \<ge> 0 then round_half_even (n * 10 ^ nat s) d else round_half_even n (d * 10 ^ nat (- s)))
     in if q = 10 ^ prec then (10 ^ (prec - 1), x + 1) else (q, x))"

definition strip_zeros :: "string \<Rightarrow> string" where
  "strip_zeros s = rev (dropWhile (\<lambda>c. c = CHR ''0'') (rev s))"

definition with_fraction :: "string \<Rightarrow> string \<Rightarrow> string" where
  "with_fraction whole fraction =
    (let f = strip_zeros fraction in if f = [] then whole else whole @ ''.'' @ f)"

definition exponent_text :: "int \<Rightarrow> string" where
  "exponent_text x =
    (let t = nat_text (nat \<bar>x\<bar>) in
     ''e'' @ (if x < 0 then ''-'' else ''+'') @ (if length t < 2 then ''0'' @ t else t))"

definition general_text :: "nat \<Rightarrow> nat \<Rightarrow> nat \<Rightarrow> string" where
  "general_text prec n d =
    (if n = 0 then ''0''
     else let (q, x) = significant prec n d; ds = nat_text q in
       if x < -4 \<or> x \<ge> int prec then with_fraction (take 1 ds) (drop 1 ds) @ exponent_text x
       else if x < 0 then with_fraction ''0'' (replicate (nat (- x) - 1) CHR ''0'' @ ds)
       else with_fraction (take (nat x + 1) ds) (drop (nat x + 1) ds))"

text \<open>The fields of an IEEE 754 word with \<open>m\<close> mantissa and \<open>e\<close> exponent bits.\<close>

datatype ieee = Finite bool nat nat | Infinite bool | NotANumber bool

definition ieee_of :: "nat \<Rightarrow> nat \<Rightarrow> nat \<Rightarrow> ieee" where
  "ieee_of m e bits =
    (let negative = (bits div 2 ^ (m + e)) mod 2 = 1; ex = (bits div 2 ^ m) mod 2 ^ e; man = bits mod 2 ^ m;
         bias = 2 ^ (e - 1) - 1 in
     if ex = 2 ^ e - 1 then (if man = 0 then Infinite negative else NotANumber negative)
     else let f = (if ex = 0 then man else man + 2 ^ m); x = int (if ex = 0 then 1 else ex) - int bias - int m in
       if x \<ge> 0 then Finite negative (f * 2 ^ nat x) 1 else Finite negative f (2 ^ nat (- x)))"

text \<open>\<^verbatim>\<open>std::ostringstream << std::setprecision(p) << value\<close>.\<close>

definition stream_text :: "nat \<Rightarrow> ieee \<Rightarrow> string" where
  "stream_text prec v =
    (case v of
       Finite negative n d \<Rightarrow> (if negative then ''-'' else []) @ general_text prec n d
     | Infinite negative \<Rightarrow> (if negative then ''-'' else []) @ ''inf''
     | NotANumber negative \<Rightarrow> (if negative then ''-'' else []) @ ''nan'')"

definition double_of :: "u64 \<Rightarrow> ieee" where
  "double_of w = ieee_of 52 11 (unat w)"

definition float_of :: "u32 \<Rightarrow> ieee" where
  "float_of w = ieee_of 23 8 (unat w)"

text \<open>A number and its text denote the same fraction when no rounding was needed.\<close>

lemma round_exact: "0 < d \<Longrightarrow> d dvd n \<Longrightarrow> round_half_even n d = n div d"
  by (auto simp: round_half_even_def Let_def)

end
