(* ===== verification/IR_Constants.thy ===== *)
theory IR_Constants
  imports Luau_Proto Number_Text Json_Text
begin

text \<open>
  The text that \<^verbatim>\<open>byteveil_decompiler/IR.cpp\<close> produces from bytes and constants: \<^verbatim>\<open>esc\<close>, which keeps
  well-formed UTF-8 and escapes every other byte, \<^verbatim>\<open>bytesHex\<close>, \<^verbatim>\<open>numberText\<close>, \<^verbatim>\<open>describeConstant\<close> and
  the debug locals. Strings are lists of bytes. What \<open>esc\<close> writes is a JSON string body in UTF-8
  (\<open>esc_json\<close>), and undoing the escapes gives the bytes back (\<open>unescape_esc\<close>).
\<close>

section \<open>Escaped text\<close>

definition hexByte :: "char \<Rightarrow> string" where
  "hexByte c = [CHR 0x5C, CHR ''u'', CHR ''0'', CHR ''0'', digit_char (byte c div 16), digit_char (byte c mod 16)]"

definition shortEscape :: "char \<Rightarrow> string option" where
  "shortEscape c =
    (if c = CHR 0x22 then Some [CHR 0x5C, CHR 0x22]
     else if c = CHR 0x5C then Some [CHR 0x5C, CHR 0x5C]
     else if c = CHR 0x08 then Some [CHR 0x5C, CHR ''b'']
     else if c = CHR 0x0C then Some [CHR 0x5C, CHR ''f'']
     else if c = CHR 0x0A then Some [CHR 0x5C, CHR ''n'']
     else if c = CHR 0x0D then Some [CHR 0x5C, CHR ''r'']
     else if c = CHR 0x09 then Some [CHR 0x5C, CHR ''t'']
     else None)"

definition sequenceLength :: "nat \<Rightarrow> nat" where
  "sequenceLength c =
    (if 0xc2 \<le> c \<and> c \<le> 0xdf then 2 else if 0xe0 \<le> c \<and> c \<le> 0xef then 3
     else if 0xf0 \<le> c \<and> c \<le> 0xf4 then 4 else 0)"

text \<open>The tests on the sequence that starts with \<open>c\<close>; \<open>s\<close> is what follows it.\<close>

definition continuation :: "char \<Rightarrow> bool" where
  "continuation c \<longleftrightarrow> byte c div 64 = 2"

definition validSequence :: "char \<Rightarrow> string \<Rightarrow> bool" where
  "validSequence c s \<longleftrightarrow>
    (let k = sequenceLength (byte c); second = byte (hd s) in
     k \<noteq> 0 \<and> k \<le> Suc (length s) \<and> list_all continuation (take (k - 1) s) \<and>
     (k = 3 \<longrightarrow> \<not> (byte c = 0xe0 \<and> second < 0xa0 \<or> byte c = 0xed \<and> second \<ge> 0xa0)) \<and>
     (k = 4 \<longrightarrow> \<not> (byte c = 0xf0 \<and> second < 0x90 \<or> byte c = 0xf4 \<and> second \<ge> 0x90)))"

function esc :: "string \<Rightarrow> string" where
  "esc [] = []"
| "esc (c # s) =
    (case shortEscape c of Some t \<Rightarrow> t @ esc s
     | None \<Rightarrow>
       if byte c < 0x20 then hexByte c @ esc s
       else if byte c < 0x80 then c # esc s
       else if validSequence c s then
         (let k = sequenceLength (byte c) - 1 in c # take k s @ esc (drop k s))
       else hexByte c @ esc s)"
  by pat_completeness auto
termination by (relation "measure length") auto

declare esc.simps(2) [simp del]

definition text_of :: "string option \<Rightarrow> string" where
  "text_of s = (case s of None \<Rightarrow> [] | Some t \<Rightarrow> t)"

definition hexBytes :: "string \<Rightarrow> string" where
  "hexBytes s = concat (map (\<lambda>c. [digit_char (byte c div 16), digit_char (byte c mod 16)]) s)"

section \<open>Constants and locals\<close>

definition numberText :: "u64 \<Rightarrow> string" where
  "numberText w =
    (case double_of w of NotANumber _ \<Rightarrow> ''nan''
     | Infinite negative \<Rightarrow> (if negative then ''-inf'' else ''inf'')
     | Finite negative n d \<Rightarrow> stream_text 17 (Finite negative n d))"

definition vectorText :: "u32 \<Rightarrow> u32 \<Rightarrow> u32 \<Rightarrow> string" where
  "vectorText x y z =
    stream_text 9 (float_of x) @ '','' @ stream_text 9 (float_of y) @ '','' @ stream_text 9 (float_of z)"

record constant_info =
  ci_index :: int
  ci_type :: string
  ci_value :: string
  ci_stringBytesHex :: string
  ci_childPrototype :: int

definition childPrototype :: "lproto \<Rightarrow> nat \<Rightarrow> int" where
  "childPrototype p addr =
    (case find (\<lambda>k. map_option p_addr (cells (subprotos p) ! k) = Some addr) [0..<nat (sizep p)] of
       None \<Rightarrow> -1 | Some k \<Rightarrow> int k)"

definition described :: "int \<Rightarrow> string \<Rightarrow> string \<Rightarrow> constant_info" where
  "described index type val =
    \<lparr>ci_index = index, ci_type = type, ci_value = val, ci_stringBytesHex = [], ci_childPrototype = -1\<rparr>"

fun describeValue :: "lproto \<Rightarrow> int \<Rightarrow> tvalue \<Rightarrow> constant_info" where
  "describeValue p i TNil = described i ''nil'' ''nil''"
| "describeValue p i (TBoolean b) = described i ''boolean'' (if b then ''true'' else ''false'')"
| "describeValue p i (TNumber w) = described i ''number'' (numberText w)"
| "describeValue p i (TInteger w) = described i ''integer'' (int_text (sint w))"
| "describeValue p i (TVector x y z) = described i ''vector'' (vectorText x y z)"
| "describeValue p i (TString s) = (described i ''string'' (text_of s))\<lparr>ci_stringBytesHex := hexBytes (text_of s)\<rparr>"
| "describeValue p i (TTable t) = described i ''table-template'' ''table''"
| "describeValue p i (TFunction a) = (described i ''function'' ''closure'')
    \<lparr>ci_childPrototype := (case a of None \<Rightarrow> -1 | Some addr \<Rightarrow> childPrototype p addr)\<rparr>"
| "describeValue p i TLightUserdata = described i ''lightuserdata'' ''opaque''"
| "describeValue p i TUserdata = described i ''userdata'' ''opaque''"
| "describeValue p i TThread = described i ''thread'' ''opaque''"
| "describeValue p i (TOther tt) = described i (''unknown-'' @ int_text tt) []"

definition describeConstant :: "lproto \<Rightarrow> int \<Rightarrow> constant_info" where
  "describeConstant p i =
    (if i < 0 \<or> i \<ge> sizek p then described i ''invalid'' []
     else describeValue p i (cells (kconst p) ! nat i))"

record local_info =
  li_name :: string
  li_register :: int
  li_start :: int
  li_end :: int

definition localInfo :: "locvar \<Rightarrow> local_info" where
  "localInfo l =
    \<lparr>li_name = text_of (varname l), li_register = int (reg l), li_start = startpc l, li_end = endpc l\<rparr>"

lemma describeValue_index [simp]: "ci_index (describeValue p i v) = i"
  by (cases v) (simp_all add: described_def)

lemma describeConstant_index [simp]: "ci_index (describeConstant p i) = i"
  by (simp add: describeConstant_def described_def)

section \<open>What esc writes\<close>

lemma byte_bound: "byte c < 256"
  by (rule nat_of_char_less_256)

lemma continuation_iff: "continuation c \<longleftrightarrow> 0x80 \<le> byte c \<and> byte c \<le> 0xBF"
  unfolding continuation_def by (auto simp: div_nat_eqI)

lemma validSequence_utf8:
  assumes "validSequence c s"
  defines "k \<equiv> sequenceLength (byte c) - 1"
  shows "utf8_sequence (map of_char (c # take k s))" "k \<le> length s"
proof -
  have seq: "sequenceLength (byte c) \<noteq> 0" "k \<le> length s" "list_all continuation (take k s)"
    using assms by (auto simp: validSequence_def Let_def)
  then show "k \<le> length s" by simp
  consider (two) "0xc2 \<le> byte c" "byte c \<le> 0xdf" "k = 1" | (three) "0xe0 \<le> byte c" "byte c \<le> 0xef" "k = 2"
    | (four) "0xf0 \<le> byte c" "byte c \<le> 0xf4" "k = 3"
    using seq(1) by (auto simp: sequenceLength_def k_def split: if_splits)
  then show "utf8_sequence (map of_char (c # take k s))"
  proof cases
    case two
    then obtain a r where "s = a # r" using seq(2) by (cases s) auto
    then show ?thesis using two seq(3) by (simp add: utf8_sequence_def continuation_iff)
  next
    case three
    then obtain a b r where s: "s = a # b # r" using seq(2) by (cases s; cases "tl s") auto
    have "sequenceLength (byte c) = 3" using three by (simp add: sequenceLength_def)
    then have "\<not> (byte c = 0xe0 \<and> byte a < 0xa0 \<or> byte c = 0xed \<and> byte a \<ge> 0xa0)"
      using assms(1) s by (auto simp: validSequence_def Let_def)
    then show ?thesis using three seq(3) s by (auto simp: utf8_sequence_def continuation_iff numeral_2_eq_2)
  next
    case four
    then obtain a b d r where s: "s = a # b # d # r" using seq(2) by (cases s; cases "tl s"; cases "tl (tl s)") auto
    have "sequenceLength (byte c) = 4" using four by (simp add: sequenceLength_def)
    then have "\<not> (byte c = 0xf0 \<and> byte a < 0x90 \<or> byte c = 0xf4 \<and> byte a \<ge> 0x90)"
      using assms(1) s by (auto simp: validSequence_def Let_def)
    then show ?thesis using four seq(3) s by (auto simp: utf8_sequence_def continuation_iff numeral_3_eq_3)
  qed
qed

lemma shortEscape_Some: "shortEscape c = Some t \<Longrightarrow>
    \<exists>e. t = [CHR 0x5C, e] \<and> e \<in> set [CHR 0x22, CHR 0x5C, CHR ''b'', CHR ''f'', CHR ''n'', CHR ''r'', CHR ''t'']"
  by (auto simp: shortEscape_def split: if_splits)

lemma shortEscape_None: "shortEscape c = None \<Longrightarrow> c \<noteq> CHR 0x22 \<and> c \<noteq> CHR 0x5C"
  by (auto simp: shortEscape_def)

lemma esc_json: "json_body (esc s)"
proof (induction s rule: esc.induct)
  case 1
  then show ?case by (simp add: json_empty)
next
  case (2 c s)
  have hex: "json_body (hexByte c @ esc s)" if "json_body (esc s)"
    unfolding hexByte_def append.simps
    by (intro json_hex digit_char_hex that) (use byte_bound [of c] in \<open>simp_all add: div_less_iff_less_mult\<close>)
  show ?case
  proof (cases "shortEscape c")
    case (Some t)
    obtain e where e: "t = [CHR 0x5C, e]"
      "e \<in> set [CHR 0x22, CHR 0x5C, CHR ''b'', CHR ''f'', CHR ''n'', CHR ''r'', CHR ''t'']"
      using shortEscape_Some [OF Some] by blast
    have "json_body (CHR 0x5C # e # esc s)" by (rule json_short [OF e(2) 2(5) [OF Some]])
    then show ?thesis by (simp only: esc.simps Some option.case e(1) append.simps)
  next
    case None
    note IH = 2(1-4) [OF None]
    consider "byte c < 0x20" | "0x20 \<le> byte c" "byte c < 0x80" | (seq) "0x80 \<le> byte c" "validSequence c s"
      | "0x80 \<le> byte c" "\<not> validSequence c s" by linarith
    then show ?thesis
    proof cases
      case seq
      let ?k = "sequenceLength (byte c) - 1"
      have "json_body ((c # take ?k s) @ esc (drop ?k s))"
        by (rule json_utf8 [OF validSequence_utf8(1) [OF seq(2)]]) (use seq IH in simp)
      then show ?thesis using None seq by (simp add: esc.simps Let_def)
    qed (use None IH hex shortEscape_None [OF None] in \<open>simp_all add: esc.simps json_ascii\<close>)
  qed
qed

text \<open>Reading the escapes back.\<close>

definition hex_value :: "char \<Rightarrow> nat" where
  "hex_value c = (if byte c < 58 then byte c - 48 else byte c - 87)"

definition short_value :: "char \<Rightarrow> char" where
  "short_value e =
    (if e = CHR ''b'' then CHR 0x08 else if e = CHR ''f'' then CHR 0x0C else if e = CHR ''n'' then CHR 0x0A
     else if e = CHR ''r'' then CHR 0x0D else if e = CHR ''t'' then CHR 0x09 else e)"

function unescape :: "string \<Rightarrow> string" where
  "unescape [] = []"
| "unescape (c # s) =
    (if c \<noteq> CHR 0x5C then c # unescape s
     else case s of [] \<Rightarrow> []
       | e # r \<Rightarrow> if e = CHR ''u'' then char_of (hex_value (r ! 2) * 16 + hex_value (r ! 3)) # unescape (drop 4 r)
                else short_value e # unescape r)"
  by pat_completeness auto
termination by (relation "measure length") auto

lemma hex_value_digit: "d < 16 \<Longrightarrow> hex_value (digit_char d) = d"
proof -
  have "list_all (\<lambda>d. hex_value (digit_char d) = d) [0..<16]" by code_simp
  then show "d < 16 \<Longrightarrow> hex_value (digit_char d) = d" by (simp add: list_all_iff)
qed

lemma unescape_hexByte: "unescape (hexByte c @ s) = c # unescape s"
proof -
  have "byte c div 16 < 16" using byte_bound [of c] by (simp add: div_less_iff_less_mult)
  then have "hex_value (digit_char (byte c div 16)) * 16 + hex_value (digit_char (byte c mod 16)) = byte c"
    using div_mult_mod_eq [of "byte c" 16] by (simp add: hex_value_digit)
  moreover have "unescape (hexByte c @ s) =
      char_of (hex_value (digit_char (byte c div 16)) * 16 + hex_value (digit_char (byte c mod 16))) # unescape s"
    by (simp add: hexByte_def)
  ultimately show ?thesis by (simp only: char_of_char)
qed

lemma unescape_short: "shortEscape c = Some t \<Longrightarrow> unescape (t @ s) = c # unescape s"
  by (auto simp: shortEscape_def short_value_def split: if_splits)

lemma unescape_plains: "CHR 0x5C \<notin> set w \<Longrightarrow> unescape (w @ s) = w @ unescape s"
  by (induction w) auto

lemma high_not_escape: "0x80 \<le> byte c \<Longrightarrow> c \<noteq> CHR 0x5C"
  by auto

lemma unescape_esc: "unescape (esc s) = s"
proof (induction s rule: esc.induct)
  case 1
  then show ?case by simp
next
  case (2 c s)
  show ?case
  proof (cases "shortEscape c")
    case (Some t)
    then show ?thesis using 2(5) [OF Some] by (simp add: esc.simps unescape_short)
  next
    case None
    note IH = 2(1-4) [OF None]
    consider "byte c < 0x20" | "0x20 \<le> byte c" "byte c < 0x80" | (seq) "0x80 \<le> byte c" "validSequence c s"
      | "0x80 \<le> byte c" "\<not> validSequence c s" by linarith
    then show ?thesis
    proof cases
      case seq
      let ?k = "sequenceLength (byte c) - 1"
      have "list_all continuation (take ?k s)" using seq(2) by (simp add: validSequence_def Let_def)
      then have "CHR 0x5C \<notin> set (take ?k s)" by (auto simp: list_all_iff continuation_def)
      then have "CHR 0x5C \<notin> set (c # take ?k s)" using high_not_escape [OF seq(1)] by simp
      then have "unescape ((c # take ?k s) @ esc (drop ?k s)) = (c # take ?k s) @ unescape (esc (drop ?k s))"
        by (rule unescape_plains)
      then show ?thesis using None seq IH by (simp add: esc.simps Let_def)
    qed (use None IH shortEscape_None [OF None] in \<open>simp_all add: esc.simps unescape_hexByte\<close>)
  qed
qed

end
