(* ===== verification/IR_Function.thy ===== *)
theory IR_Function
  imports IR_Decode IR_Loops IR_PostDom IR_Liveness IR_SSA IR_SCC IR_Constants
begin

text \<open>
  \<^verbatim>\<open>addFunction\<close> of \<^verbatim>\<open>byteveil_decompiler/IR.cpp\<close> as a whole: the summaries of register use, the
  blocks of instructions, the scopes, and the record \<^verbatim>\<open>IR::Function\<close> put together from the parts of
  the other theories, for a prototype and recursively for its children. The loops that could go
  on forever are options, and so is a null pointer among the children, which the code would
  follow.
\<close>

section \<open>Register summaries\<close>

text \<open>The vectors \<^verbatim>\<open>registerFirstUse\<close>, \<^verbatim>\<open>registerLastUse\<close>, \<^verbatim>\<open>registerUseCount\<close> and \<^verbatim>\<open>registerDefinitionCount\<close>.\<close>

record register_stats =
  rs_firstUse :: "int list"
  rs_lastUse :: "int list"
  rs_useCount :: "nat list"
  rs_definitionCount :: "nat list"

definition stats_init :: "nat \<Rightarrow> register_stats" where
  "stats_init regs = \<lparr>rs_firstUse = replicate regs (-1), rs_lastUse = replicate regs (-1),
     rs_useCount = replicate regs 0, rs_definitionCount = replicate regs 0\<rparr>"

definition noteDefinition :: "nat \<Rightarrow> nat \<Rightarrow> register_stats \<Rightarrow> register_stats" where
  "noteDefinition regs r st =
    (if r < regs then st\<lparr>rs_definitionCount := (rs_definitionCount st)[r := rs_definitionCount st ! r + 1]\<rparr> else st)"

definition noteUse :: "nat \<Rightarrow> nat \<Rightarrow> nat \<Rightarrow> register_stats \<Rightarrow> register_stats" where
  "noteUse regs k r st =
    (if r \<ge> regs then st
     else st\<lparr>rs_useCount := (rs_useCount st)[r := rs_useCount st ! r + 1],
             rs_firstUse := (if rs_firstUse st ! r < 0 then (rs_firstUse st)[r := int k] else rs_firstUse st),
             rs_lastUse := (rs_lastUse st)[r := int k]\<rparr>)"

definition noteInstruction :: "nat \<Rightarrow> instruction list \<Rightarrow> nat \<Rightarrow> register_stats \<Rightarrow> register_stats" where
  "noteInstruction regs ins k st =
    fold (noteUse regs k) (i_uses (ins ! k)) (fold (noteDefinition regs) (i_definitions (ins ! k)) st)"

definition registerStats :: "nat \<Rightarrow> instruction list \<Rightarrow> register_stats" where
  "registerStats regs ins = fold (noteInstruction regs ins) [0..<length ins] (stats_init regs)"

definition unknownInstructionCount :: "instruction list \<Rightarrow> nat" where
  "unknownInstructionCount ins = length (filter (\<lambda>i. i_semanticTag i = ''unknown'') ins)"

section \<open>Instructions and their blocks\<close>

definition targetBlock :: "basic_block list \<Rightarrow> instruction \<Rightarrow> int" where
  "targetBlock bs i =
    (if i_jumpTarget i \<ge> 0 then
       (case find (\<lambda>t. int (b_start t) = i_jumpTarget i) bs of Some t \<Rightarrow> int (b_id t) | None \<Rightarrow> i_targetBlock i)
     else i_targetBlock i)"

definition placeInstruction :: "basic_block list \<Rightarrow> basic_block \<Rightarrow> nat \<Rightarrow> instruction list \<Rightarrow> instruction list" where
  "placeInstruction bs b k ins =
    ins[k := (ins ! k)\<lparr>i_sourceBlock := int (b_id b), i_targetBlock := targetBlock bs (ins ! k)\<rparr>]"

definition placeInstructions :: "basic_block list \<Rightarrow> instruction list \<Rightarrow> instruction list" where
  "placeInstructions bs ins = fold (\<lambda>b. fold (placeInstruction bs b) (b_instructions b)) bs ins"

section \<open>Scopes\<close>

record scope =
  sc_id :: nat
  sc_parent :: int
  sc_entryBlock :: nat
  sc_exitBlock :: int
  sc_registers :: "nat list"

definition only :: "nat list \<Rightarrow> int" where
  "only xs = (if length xs = 1 then int (hd xs) else -1)"

definition rootScope :: "nat \<Rightarrow> basic_block list \<Rightarrow> scope" where
  "rootScope regs bs =
    \<lparr>sc_id = 0, sc_parent = -1, sc_entryBlock = 0,
     sc_exitBlock = only (map b_id (filter (\<lambda>b. b_reachable b \<and> b_successors b = []) bs)),
     sc_registers = [0..<regs]\<rparr>"

text \<open>The search for the parent: the scope id so far, and the size of its loop, \<open>None\<close> at the start.\<close>

definition parentStep :: "loop_region list \<Rightarrow> nat \<Rightarrow> nat \<Rightarrow> int \<times> nat option \<Rightarrow> int \<times> nat option" where
  "parentStep ls n c s =
    (let members = l_blocks (ls ! n); candidate = l_blocks (ls ! c) in
     if c \<noteq> n \<and> length candidate > card (set members) \<and>
        (case snd s of None \<Rightarrow> True | Some m \<Rightarrow> length candidate < m) \<and> list_all (\<lambda>b. b \<in> set candidate) members
     then (int (c + 1), Some (length candidate)) else s)"

definition scopeParent :: "loop_region list \<Rightarrow> nat \<Rightarrow> int" where
  "scopeParent ls n = fst (fold (parentStep ls n) [0..<length ls] (0, None))"

definition scopeRegisters :: "instruction list \<Rightarrow> basic_block list \<Rightarrow> nat list list \<Rightarrow> loop_region \<Rightarrow> nat list" where
  "scopeRegisters ins bs liveIn l =
    sorted_list_of_set (set (liveIn ! l_header l) \<union>
      set (concat (map (\<lambda>b. concat (map (\<lambda>k. i_uses (ins ! k) @ i_definitions (ins ! k))
        (b_instructions (bs ! b)))) (l_blocks l))))"

definition loopScope ::
  "instruction list \<Rightarrow> basic_block list \<Rightarrow> nat list list \<Rightarrow> loop_region list \<Rightarrow> nat \<Rightarrow> scope" where
  "loopScope ins bs liveIn ls n =
    \<lparr>sc_id = n + 1, sc_parent = scopeParent ls n, sc_entryBlock = l_header (ls ! n),
     sc_exitBlock = only (l_exits (ls ! n)), sc_registers = scopeRegisters ins bs liveIn (ls ! n)\<rparr>"

definition scopes ::
  "nat \<Rightarrow> instruction list \<Rightarrow> basic_block list \<Rightarrow> nat list list \<Rightarrow> loop_region list \<Rightarrow> scope list" where
  "scopes regs ins bs liveIn ls = rootScope regs bs # map (loopScope ins bs liveIn ls) [0..<length ls]"

section \<open>The function record\<close>

record function_ir =
  f_id :: nat
  f_parentId :: int
  f_prototypeIndex :: nat
  f_parameters :: nat
  f_registers :: nat
  f_constants :: int
  f_upvalues :: nat
  f_lineDefined :: int
  f_nameHint :: string
  f_constantTable :: "constant_info list"
  f_debugLocals :: "local_info list"
  f_upvalueNames :: "string list"
  f_instructions :: "instruction list"
  f_basicBlocks :: "basic_block list"
  f_immediateDominators :: "int list"
  f_immediatePostDominators :: "int list"
  f_postDominators :: "nat set list"
  f_backEdges :: "(nat \<times> nat) list"
  f_naturalLoops :: "nat list list"
  f_stronglyConnectedComponents :: "nat list list"
  f_scopes :: "scope list"
  f_loops :: "loop_region list"
  f_liveIn :: "nat list list"
  f_liveOut :: "nat list list"
  f_blockLiveRegisterCount :: "nat list"
  f_instructionDefVersions :: "int list"
  f_phiNodes :: "phi_node list"
  f_registerStats :: register_stats
  f_unknownInstructionCount :: nat

datatype ir_function = IRFunction (fn: function_ir) (children: "ir_function list")

definition nameHint :: "lproto \<Rightarrow> nat \<Rightarrow> string" where
  "nameHint p k =
    (case debugname p of Some t \<Rightarrow> if t \<noteq> [] then t else ''function_'' @ nat_text k
     | None \<Rightarrow> ''function_'' @ nat_text k)"

definition upvalueNameList :: "lproto \<Rightarrow> string list" where
  "upvalueNameList p =
    map (\<lambda>u. case upvalueNames p of None \<Rightarrow> []
             | Some names \<Rightarrow> if u < length names then text_of (names ! u) else []) [0..<nups p]"

text \<open>The body of \<^verbatim>\<open>addFunction\<close> without the loop over the children.\<close>

definition describeFunction :: "u32 \<Rightarrow> lproto \<Rightarrow> nat \<Rightarrow> int \<Rightarrow> nat \<Rightarrow> function_ir option" where
  "describeFunction oob p k parent protoIndex =
    (let regs = maxstacksize p; decoded = decodeCode oob p; blocks = build_blocks (nat (sizecode p)) decoded;
         ins = placeInstructions blocks decoded in
     Option.bind (liveness regs ins blocks) (\<lambda>live.
     let liveIn = map (\<lambda>l. sorted_list_of_set (fst l)) live;
         liveOut = map (\<lambda>l. sorted_list_of_set (snd l)) live;
         peaks = map (\<lambda>b. snd (block_peak regs ins (blocks ! b) (snd (live ! b)))) [0..<length blocks];
         bs = set_reachable blocks in
     Option.bind (dominators blocks) (\<lambda>doms.
     let loops = loop_regions blocks doms in
     Option.bind (postDominators blocks) (\<lambda>pd.
     Option.bind (stronglyConnectedComponents blocks) (\<lambda>components.
     let versioned_ins = (if regs > 0 then versioned regs ins else ins) in
     Option.bind (ssa_loop regs versioned_ins blocks) (\<lambda>versions.
     Some \<lparr>f_id = k, f_parentId = parent, f_prototypeIndex = protoIndex, f_parameters = numparams p,
       f_registers = regs, f_constants = sizek p, f_upvalues = nups p, f_lineDefined = linedefined p,
       f_nameHint = nameHint p k, f_constantTable = map (describeConstant p) [0..sizek p - 1],
       f_debugLocals = map localInfo (locvars p), f_upvalueNames = upvalueNameList p,
       f_instructions = versioned_ins, f_basicBlocks = bs,
       f_immediateDominators = immediateDominators blocks doms,
       f_immediatePostDominators = immediatePostDominators blocks pd, f_postDominators = pd,
       f_backEdges = backEdges blocks doms, f_naturalLoops = naturalLoops blocks doms,
       f_stronglyConnectedComponents = components, f_scopes = scopes regs ins bs liveIn loops, f_loops = loops,
       f_liveIn = liveIn, f_liveOut = liveOut, f_blockLiveRegisterCount = peaks,
       f_instructionDefVersions = instructionDefVersions versioned_ins,
       f_phiNodes = phiNodes regs blocks versions, f_registerStats = registerStats regs decoded,
       f_unknownInstructionCount = unknownInstructionCount decoded\<rparr>))))))"

text \<open>The recursion, with the counter \<^verbatim>\<open>nextId\<close> threaded through it.\<close>

function (sequential) addFunction :: "u32 \<Rightarrow> lproto \<Rightarrow> nat \<Rightarrow> int \<Rightarrow> nat \<Rightarrow> (ir_function \<times> nat) option"
  and addChildren :: "u32 \<Rightarrow> lproto option list \<Rightarrow> nat \<Rightarrow> nat \<Rightarrow> nat \<Rightarrow> (ir_function list \<times> nat) option" where
  "addFunction oob p nextId parent protoIndex =
    Option.bind (describeFunction oob p nextId parent protoIndex) (\<lambda>f.
      map_option (\<lambda>(cs, m). (IRFunction f cs, m)) (addChildren oob (cells (subprotos p)) (nextId + 1) nextId 0))"
| "addChildren oob [] nextId parent c = Some ([], nextId)"
| "addChildren oob (None # ps) nextId parent c = None"
| "addChildren oob (Some p # ps) nextId parent c =
    Option.bind (addFunction oob p nextId (int parent) c) (\<lambda>(f, m).
      map_option (\<lambda>(fs, m'). (f # fs, m')) (addChildren oob ps m parent (c + 1)))"
  by pat_completeness auto
termination
  by (relation "measure (\<lambda>x. case x of Inl (oob, p, _) \<Rightarrow> Suc (size p)
      | Inr (oob, cs, _) \<Rightarrow> size_list (size_option size) cs)") (auto simp: size_children)

declare addFunction.simps [simp del]

end
