(* ===== verification/IR_Analysis.thy ===== *)
theory IR_Analysis
  imports IR_Function
begin

text \<open>
  \<^verbatim>\<open>validateFunctionAnalysis\<close>, \<^verbatim>\<open>validateAnalysis\<close> and \<^verbatim>\<open>buildModule\<close> of \<^verbatim>\<open>byteveil_decompiler/IR.cpp\<close>:
  the checks that a function record passes before a module is handed out, in their order and with
  their messages. Where a field is a natural number the test for a negative value is left out.
\<close>

section \<open>The checks\<close>

fun check_each :: "('a \<Rightarrow> unit res) \<Rightarrow> 'a list \<Rightarrow> unit res" where
  "check_each f [] = Inr ()"
| "check_each f (x # xs) = andthen (f x) (\<lambda>_. check_each f xs)"

definition badLocals :: string where
  "badLocals = ''IR contains invalid debug-local metadata''"

definition checkTables :: "function_ir \<Rightarrow> unit res" where
  "checkTables f =
    andthen (require (int (length (f_constantTable f)) = f_constants f)
      ''IR constant table does not match constant count'') (\<lambda>_.
    andthen (require (length (f_upvalueNames f) = f_upvalues f)
      ''IR upvalue names do not match upvalue count'') (\<lambda>_.
    check_each (\<lambda>k. require (ci_index (f_constantTable f ! k) = int k) ''IR constant table index mismatch'')
      [0..<length (f_constantTable f)]))"

definition localOk :: "function_ir \<Rightarrow> local_info \<Rightarrow> bool" where
  "localOk f l \<longleftrightarrow> 0 \<le> li_register l \<and> li_register l < int (f_registers f) \<and> 0 \<le> li_start l \<and> li_start l \<le> li_end l"

definition checkLocals :: "function_ir \<Rightarrow> unit res" where
  "checkLocals f = check_each (\<lambda>l. require (localOk f l) badLocals) (f_debugLocals f)"

definition checkSizes :: "function_ir \<Rightarrow> unit res" where
  "checkSizes f =
    (let blocks = length (f_basicBlocks f) in
     andthen (require (blocks \<noteq> 0) ''IR function has no basic blocks'') (\<lambda>_.
     andthen (require (length (f_immediateDominators f) = blocks)
       ''IR dominator vector does not match block count'') (\<lambda>_.
     andthen (require (length (f_immediatePostDominators f) = blocks)
       ''IR post-dominator vector does not match block count'') (\<lambda>_.
     require (length (f_liveIn f) = blocks \<and> length (f_liveOut f) = blocks \<and>
         length (f_blockLiveRegisterCount f) = blocks)
       ''IR liveness vectors do not match block count''))))"

definition checkLive :: "function_ir \<Rightarrow> nat \<Rightarrow> unit res" where
  "checkLive f b =
    andthen (require (list_all (\<lambda>r. r < f_registers f) (f_liveIn f ! b))
      ''IR liveness contains an invalid live-in register'') (\<lambda>_.
    require (list_all (\<lambda>r. r < f_registers f) (f_liveOut f ! b))
      ''IR liveness contains an invalid live-out register'')"

definition checkBlock :: "function_ir \<Rightarrow> basic_block \<Rightarrow> unit res" where
  "checkBlock f b =
    (let bs = f_basicBlocks f; blocks = length bs in
     andthen (require (b_id b < blocks) ''IR contains an invalid basic-block id'') (\<lambda>_.
     andthen (check_each (\<lambda>t.
         andthen (require (t < blocks) ''IR contains an out-of-range CFG successor'') (\<lambda>_.
         require (b_id b \<in> set (b_predecessors (bs ! t))) ''IR CFG successor/predecessor mismatch''))
       (b_successors b)) (\<lambda>_.
     andthen (check_each (\<lambda>p.
         andthen (require (p < blocks) ''IR contains an out-of-range CFG predecessor'') (\<lambda>_.
         require (b_id b \<in> set (b_successors (bs ! p))) ''IR CFG predecessor/successor mismatch''))
       (b_predecessors b)) (\<lambda>_.
     check_each (\<lambda>k.
         andthen (require (k < length (f_instructions f)) ''IR block references an invalid instruction'') (\<lambda>_.
         require (i_sourceBlock (f_instructions f ! k) = int (b_id b)) ''IR instruction has the wrong source block''))
       (b_instructions b)))))"

definition checkIrInstruction :: "function_ir \<Rightarrow> instruction \<Rightarrow> unit res" where
  "checkIrInstruction f i =
    andthen (require (length (i_definitions i) = length (i_definitionVersions i))
      ''IR instruction definition/version mismatch'') (\<lambda>_.
    andthen (require (list_all (\<lambda>r. r < f_registers f) (i_uses i))
      ''IR instruction contains an invalid register use'') (\<lambda>_.
    andthen (require (list_all (\<lambda>r. r < f_registers f) (i_definitions i))
      ''IR instruction contains an invalid register definition'') (\<lambda>_.
    require (i_definitions i = [] \<or> i_destinationRegister i = int (hd (i_definitions i)))
      ''IR primary destination does not match definitions'')))"

definition checkLoop :: "function_ir \<Rightarrow> loop_region \<Rightarrow> unit res" where
  "checkLoop f l =
    (let blocks = length (f_basicBlocks f) in
     andthen (require (l_header l < blocks \<and> l_preheader l < int blocks) ''IR contains an invalid loop region'') (\<lambda>_.
     andthen (require (list_all (\<lambda>b. b < blocks) (l_blocks l)) ''IR loop contains an invalid member'') (\<lambda>_.
     andthen (require (list_all (\<lambda>b. b < blocks) (l_latches l)) ''IR loop contains an invalid latch'') (\<lambda>_.
     require (list_all (\<lambda>b. b < blocks) (l_exits l)) ''IR loop contains an invalid exit''))))"

definition checkPhi :: "function_ir \<Rightarrow> phi_node \<Rightarrow> unit res" where
  "checkPhi f phi =
    (let blocks = length (f_basicBlocks f) in
     andthen (require (phi_block phi < blocks \<and> phi_reg phi < f_registers f) ''IR contains an invalid phi node'') (\<lambda>_.
     andthen (require (length (phi_incomingVersions phi) = length (b_predecessors (f_basicBlocks f ! phi_block phi)))
       ''IR phi node has the wrong number of incoming versions'') (\<lambda>_.
     andthen (require (length (phi_incomingBlocks phi) = length (phi_incomingVersions phi))
       ''IR phi node has the wrong number of incoming blocks'') (\<lambda>_.
     require (list_all (\<lambda>p. p < blocks) (phi_incomingBlocks phi)) ''IR phi node contains an invalid incoming block''))))"

definition checkFacts :: "function_ir \<Rightarrow> unit res" where
  "checkFacts f =
    (let blocks = length (f_basicBlocks f) in
     andthen (require (list_all (\<lambda>d. -1 \<le> d \<and> d < int blocks) (f_immediateDominators f))
       ''IR contains an invalid immediate dominator'') (\<lambda>_.
     andthen (require (list_all (\<lambda>d. -1 \<le> d \<and> d < int blocks) (f_immediatePostDominators f))
       ''IR contains an invalid immediate post-dominator'') (\<lambda>_.
     andthen (require (list_all (\<lambda>e. fst e < blocks \<and> snd e < blocks) (f_backEdges f))
       ''IR contains an invalid back-edge'') (\<lambda>_.
     andthen (check_each (checkLoop f) (f_loops f)) (\<lambda>_.
     check_each (checkPhi f) (f_phiNodes f))))))"

definition checkFunction :: "function_ir \<Rightarrow> unit res" where
  "checkFunction f =
    andthen (checkTables f) (\<lambda>_.
    andthen (checkLocals f) (\<lambda>_.
    andthen (checkSizes f) (\<lambda>_.
    andthen (check_each (checkLive f) [0..<length (f_basicBlocks f)]) (\<lambda>_.
    andthen (check_each (checkBlock f) (f_basicBlocks f)) (\<lambda>_.
    andthen (check_each (checkIrInstruction f) (f_instructions f)) (\<lambda>_.
    checkFacts f))))))"

fun validateFunctionAnalysis :: "ir_function \<Rightarrow> unit res"
  and validateChildAnalyses :: "nat \<Rightarrow> ir_function list \<Rightarrow> unit res" where
  "validateFunctionAnalysis (IRFunction f cs) =
    andthen (checkFunction f) (\<lambda>_. validateChildAnalyses (f_id f) cs)"
| "validateChildAnalyses k [] = Inr ()"
| "validateChildAnalyses k (c # cs) =
    andthen (require (f_parentId (fn c) = int k) ''IR child has the wrong parent id'') (\<lambda>_.
    andthen (validateFunctionAnalysis c) (\<lambda>_. validateChildAnalyses k cs))"

text \<open>The recursive lambda \<^verbatim>\<open>collect\<close> with the set it captures.\<close>

fun collectIds :: "ir_function \<Rightarrow> nat set \<Rightarrow> (nat set) res"
  and collectAllIds :: "ir_function list \<Rightarrow> nat set \<Rightarrow> (nat set) res" where
  "collectIds (IRFunction f cs) ids =
    (if f_id f \<in> ids then Inl ''IR contains duplicate function ids'' else collectAllIds cs (insert (f_id f) ids))"
| "collectAllIds [] ids = Inr ids"
| "collectAllIds (c # cs) ids = andthen (collectIds c ids) (collectAllIds cs)"

record ir_module =
  m_format :: string
  m_version :: nat
  m_source :: string
  m_root :: ir_function

definition validateAnalysis :: "ir_module \<Rightarrow> unit res" where
  "validateAnalysis m =
    andthen (validateFunctionAnalysis (m_root m)) (\<lambda>_. andthen (collectIds (m_root m) {}) (\<lambda>_. Inr ()))"

text \<open>\<^verbatim>\<open>buildModule\<close>, with the default limits of \<^verbatim>\<open>validateProto\<close>. A root that passes is not null.\<close>

definition moduleOf :: "lproto \<Rightarrow> ir_function \<Rightarrow> ir_module" where
  "moduleOf p f = \<lparr>m_format = ''Luau bytecode'', m_version = 0, m_source = text_of (psource p), m_root = f\<rparr>"

definition buildModule :: "u32 \<Rightarrow> lproto option \<Rightarrow> ir_module res option" where
  "buildModule oob root =
    (case validateProto oob root 128 1000000 of Inl e \<Rightarrow> Some (Inl e)
     | Inr _ \<Rightarrow> (case root of None \<Rightarrow> None
        | Some p \<Rightarrow> map_option (\<lambda>(f, _). andthen (validateAnalysis (moduleOf p f)) (\<lambda>_. Inr (moduleOf p f)))
            (addFunction oob p 0 (-1) 0)))"

section \<open>What a passing check means\<close>

lemma check_each_Inr [res_simps]: "check_each f xs = Inr u \<longleftrightarrow> (\<forall>x\<in>set xs. f x = Inr ())"
  by (induction xs) (auto simp: res_simps)

lemma check_each_Inl: "check_each f xs = Inl e \<Longrightarrow> \<exists>x\<in>set xs. f x = Inl e"
  by (induction xs) (auto simp: res_simps)

end
