(* ===== verification/IR_Build.thy ===== *)
theory IR_Build
  imports IR_Analysis
begin

text \<open>
  What \<^verbatim>\<open>buildModule\<close> (\<^verbatim>\<open>byteveil_decompiler/IR.cpp\<close>) does after validation: the construction of a
  function never fails, its record passes every check of \<^verbatim>\<open>validateFunctionAnalysis\<close> except the one
  on the debug locals, which validation does not look at, and the function ids number the tree in
  preorder.
\<close>

section \<open>Placing instructions\<close>

text \<open>Placing changes the two block fields and nothing else.\<close>

definition same_code :: "instruction \<Rightarrow> instruction \<Rightarrow> bool" where
  "same_code i j \<longleftrightarrow> j\<lparr>i_sourceBlock := i_sourceBlock i, i_targetBlock := i_targetBlock i\<rparr> = i"

lemma same_code_fields:
  assumes "same_code i j"
  shows "i_offset j = i_offset i" "i_opcode j = i_opcode i" "i_length j = i_length i"
    "i_jumpTarget j = i_jumpTarget i" "i_uses j = i_uses i" "i_definitions j = i_definitions i"
    "i_definitionVersions j = i_definitionVersions i" "i_destinationRegister j = i_destinationRegister i"
    "i_isPure j = i_isPure i" "i_hasSideEffects j = i_hasSideEffects i"
proof -
  obtain s t where i: "i = j\<lparr>i_sourceBlock := s, i_targetBlock := t\<rparr>"
    using assms [unfolded same_code_def, symmetric] by blast
  show "i_offset j = i_offset i" "i_opcode j = i_opcode i" "i_length j = i_length i"
    "i_jumpTarget j = i_jumpTarget i" "i_uses j = i_uses i" "i_definitions j = i_definitions i"
    "i_definitionVersions j = i_definitionVersions i" "i_destinationRegister j = i_destinationRegister i"
    "i_isPure j = i_isPure i" "i_hasSideEffects j = i_hasSideEffects i"
    by (simp_all add: i)
qed

lemma same_code_tag: "same_code i j \<Longrightarrow> i_semanticTag j = i_semanticTag i"
  by (cases i; cases j) (simp add: same_code_def)

lemma same_code_refl [simp]: "same_code i i"
  by (simp add: same_code_def)

lemma same_code_trans: "same_code i j \<Longrightarrow> same_code j k \<Longrightarrow> same_code i k"
  by (cases i; cases j; cases k) (auto simp: same_code_def)

lemma same_code_place: "same_code i (i\<lparr>i_sourceBlock := s, i_targetBlock := t\<rparr>)"
  by (cases i) (simp add: same_code_def)

lemma place_nth:
  "k < length ins \<Longrightarrow> i_sourceBlock (placeInstruction bs b k ins ! k) = int (b_id b)"
  "c \<noteq> k \<Longrightarrow> placeInstruction bs b c ins ! k = ins ! k"
  by (simp_all add: placeInstruction_def)

definition placements :: "basic_block list \<Rightarrow> (basic_block \<times> nat) list" where
  "placements bs = concat (map (\<lambda>b. map (Pair b) (b_instructions b)) bs)"

lemma placeInstructions_fold:
  "placeInstructions bs ins = fold (\<lambda>(b, k). placeInstruction bs b k) (placements bs) ins"
proof -
  have "fold (\<lambda>b. fold (placeInstruction bs b) (b_instructions b)) cs ins =
      fold (\<lambda>(b, k). placeInstruction bs b k) (concat (map (\<lambda>b. map (Pair b) (b_instructions b)) cs)) ins" for cs ins
    by (induction cs arbitrary: ins) (simp_all add: fold_map comp_def)
  then show ?thesis by (simp add: placeInstructions_def placements_def)
qed

lemma fold_place_code:
  "length (fold (\<lambda>(b, k). placeInstruction bs b k) ps ins) = length ins"
  "k < length ins \<Longrightarrow> same_code (ins ! k) (fold (\<lambda>(b, k). placeInstruction bs b k) ps ins ! k)"
proof (induction ps rule: rev_induct)
  case (snoc q ps)
  obtain b c where q: "q = (b, c)" by (cases q)
  { case 1 show ?case using snoc.IH(1) by (simp add: q placeInstruction_def)
  next
    case 2
    then show ?case using snoc.IH
      by (cases "c = k") (auto simp: q placeInstruction_def intro: same_code_trans same_code_place) }
qed simp_all

lemma fold_place_source:
  assumes "\<And>b. (b, k) \<in> set ps \<Longrightarrow> b_id b = v" "k < length ins"
  shows "(\<exists>b. (b, k) \<in> set ps) \<Longrightarrow> i_sourceBlock (fold (\<lambda>(b, k). placeInstruction bs b k) ps ins ! k) = int v"
  using assms(1)
proof (induction ps rule: rev_induct)
  case (snoc q ps)
  obtain b c where q: "q = (b, c)" by (cases q)
  show ?case
  proof (cases "c = k")
    case True
    then show ?thesis using snoc.prems(2) [of b] assms(2) by (simp add: q place_nth(1) fold_place_code(1))
  next
    case False
    then show ?thesis using snoc q by (auto simp: place_nth(2))
  qed
qed simp

lemma placed_code:
  "length (placeInstructions bs ins) = length ins"
  "k < length ins \<Longrightarrow> same_code (ins ! k) (placeInstructions bs ins ! k)"
  by (simp_all add: placeInstructions_fold fold_place_code)

lemma placements_mem: "(b, k) \<in> set (placements bs) \<longleftrightarrow> b \<in> set bs \<and> k \<in> set (b_instructions b)"
  by (auto simp: placements_def)

lemma placed_source:
  assumes "code_layout 0 n ins" "b < length (build_blocks n ins)" "k \<in> set (b_instructions (build_blocks n ins ! b))"
  shows "k < length ins" "i_sourceBlock (placeInstructions (build_blocks n ins) ins ! k) = int b"
proof -
  let ?bs = "build_blocks n ins"
  show k: "k < length ins" using build_blocks_mem [OF assms(2)] assms(3) by simp
  have "b_id c = b" if "(c, k) \<in> set (placements ?bs)" for c
  proof -
    have c: "c \<in> set ?bs" "k \<in> set (b_instructions c)" using that by (simp_all add: placements_mem)
    obtain d where d: "d < length ?bs" "?bs ! d = c" using c(1) unfolding in_set_conv_nth by blast
    then have "d = b" using built_partition [OF assms(1) k] assms(2,3) c(2) by blast
    then show ?thesis using d build_blocks_nth(1) by blast
  qed
  moreover have "(?bs ! b, k) \<in> set (placements ?bs)" using assms(2,3) by (simp add: placements_mem)
  ultimately show "i_sourceBlock (placeInstructions ?bs ins ! k) = int b"
    unfolding placeInstructions_fold by (intro fold_place_source) (use k in auto)
qed

text \<open>The blocks depend on the code alone.\<close>

lemma list_all2_filter_map:
  assumes "list_all2 R xs ys" "\<And>x y. R x y \<Longrightarrow> f x = f y" "\<And>x y. R x y \<Longrightarrow> P x = P y"
  shows "map f (filter P xs) = map f (filter P ys)"
  using assms(1) by (induction rule: list_all2_induct) (auto simp: assms(2,3))

lemma build_blocks_same:
  assumes "list_all2 same_code ins ins'"
  shows "build_blocks n ins = build_blocks n ins'"
proof -
  have nth: "k < length ins \<Longrightarrow> same_code (ins ! k) (ins' ! k)" for k
    using assms by (simp add: list_all2_conv_all_nth)
  have len: "length ins' = length ins" using assms by (simp add: list_all2_lengthD)
  note f = same_code_fields
  have starts: "block_starts n ins = block_starts n ins'"
    unfolding block_starts_def
    using list_all2_filter_map [OF assms, of "\<lambda>i. nat (i_jumpTarget i)" "\<lambda>i. i_jumpTarget i \<ge> 0"]
      list_all2_filter_map [OF assms, of "\<lambda>i. i_offset i + i_length i"
        "\<lambda>i. (i_jumpTarget i \<ge> 0 \<or> isReturn (i_opcode i)) \<and> i_offset i + i_length i < n"]
    by (simp add: f)
  have mem: "block_instructions ins s e = block_instructions ins' s e" for s e
    unfolding block_instructions_def len by (rule filter_cong) (simp_all add: f(1) [OF nth])
  have "make_block n ins ls b = make_block n ins' ls b" for ls b
  proof -
    have "block_successors ls b (ins ! last (block_instructions ins' s e)) =
        block_successors ls b (ins' ! last (block_instructions ins' s e))" if "block_instructions ins' s e \<noteq> []" for s e
    proof -
      have "last (block_instructions ins' s e) < length ins"
        using last_in_set [OF that] by (simp add: block_instructions_def len)
      then show ?thesis by (simp add: block_successors_def f [OF nth])
    qed
    then show ?thesis by (simp add: make_block_def Let_def mem)
  qed
  then have "make_block n ins = make_block n ins'" by (simp add: fun_eq_iff)
  then show ?thesis by (simp add: build_blocks_def starts)
qed

lemma placed_same: "list_all2 same_code ins (placeInstructions bs ins)"
  by (simp add: list_all2_conv_all_nth placed_code)

lemma placed_blocks: "build_blocks n (placeInstructions bs ins) = build_blocks n ins"
  using build_blocks_same [OF placed_same] by simp

section \<open>The facts about blocks\<close>

lemma set_reachable_nth:
  assumes "b < length bs" "length (reachable_flags bs) = length bs"
  shows "b_id (set_reachable bs ! b) = b_id (bs ! b)" "b_successors (set_reachable bs ! b) = b_successors (bs ! b)"
    "b_predecessors (set_reachable bs ! b) = b_predecessors (bs ! b)"
    "b_instructions (set_reachable bs ! b) = b_instructions (bs ! b)" "length (set_reachable bs) = length bs"
    "b_reachable (set_reachable bs ! b) = reachable_flags bs ! b" "b_start (set_reachable bs ! b) = b_start (bs ! b)"
  using assms by (simp_all add: set_reachable_def)

lemma set_reachable_length: "length (reachable_flags bs) = length bs \<Longrightarrow> length (set_reachable bs) = length bs"
  by (simp add: set_reachable_def)

context cfg
begin

lemma backEdges_range: "e \<in> set (backEdges bs doms) \<Longrightarrow> fst e < length bs \<and> snd e < length bs"
  using backEdges_mem [of "fst e" "snd e" doms] by simp

lemma immediateDominators_range:
  assumes doms: "dominators bs = Some doms"
  shows "length (immediateDominators bs doms) = length bs"
    "d \<in> set (immediateDominators bs doms) \<Longrightarrow> -1 \<le> d \<and> d < int (length bs)"
proof -
  show "length (immediateDominators bs doms) = length bs" by (simp add: immediateDominators_def)
  have pick: "-1 \<le> pick_idom doms b \<and> pick_idom doms b < int (length bs)"
    if b: "b < length bs" "reachable_flags bs ! b" for b
  proof -
    have fin: "finite (doms ! b)" by (rule dominators_finite [OF doms b(1)])
    have reach: "(0, b) \<in> (edges bs)\<^sup>*" using b by (simp add: reachable_iff)
    have sub: "c < length bs" if c: "c \<in> doms ! b" for c
    proof -
      obtain q where q: "walk (edges bs) q" "hd q = 0" "last q = b" using rtrancl_walk [OF reach] by blast
      then have "c \<in> set q" using dominators_sound [OF doms q(1,2)] c by simp
      then have "(0, c) \<in> (edges bs)\<^sup>*" using walk_reachable [of q c] q by simp
      then show ?thesis by (rule path_range)
    qed
    let ?xs = "filter (\<lambda>c. c \<noteq> b) (sorted_list_of_set (doms ! b))"
    obtain r d where rd: "best_by (\<lambda>c. card (doms ! c)) ?xs (None, 0) = (r, d)" by fastforce
    have "r = None \<or> (\<exists>c\<in>set ?xs. r = Some c)" using best_by_aux [OF rd] by blast
    then show ?thesis unfolding pick_idom_def rd using sub fin by auto
  qed
  show "-1 \<le> d \<and> d < int (length bs)" if "d \<in> set (immediateDominators bs doms)"
    using that pick nonempty by (auto simp: immediateDominators_def)
qed

lemma immediatePostDominators_range:
  assumes pd: "postDominators bs = Some pd"
  shows "length (immediatePostDominators bs pd) = length bs"
    "d \<in> set (immediatePostDominators bs pd) \<Longrightarrow> -1 \<le> d \<and> d < int (length bs)"
proof -
  show "length (immediatePostDominators bs pd) = length bs" by (simp add: immediatePostDominators_def)
  have pick: "-1 \<le> pick_ipdom pd b \<and> pick_ipdom pd b < int (length bs)" if b: "b < length bs" for b
  proof -
    let ?xs = "filter (\<lambda>c. c \<noteq> b) (sorted_list_of_set (pd ! b))"
    have sub: "c < length bs" if "c \<in> set ?xs" for c
    proof (cases "finite (pd ! b)")
      case True
      then show ?thesis using that postDominators_reachable [OF pd b] path_range by auto
    next
      case False
      then show ?thesis using that by simp
    qed
    show ?thesis
    proof (cases "?xs = []")
      case True
      then show ?thesis by (simp add: pick_ipdom_def least_by_def)
    next
      case False
      then obtain m where "m \<in> set ?xs" "least_by (\<lambda>c. card (pd ! c)) ?xs = Some m"
        using least_by_min [of ?xs "\<lambda>c. card (pd ! c)"] by blast
      then show ?thesis using sub by (simp add: pick_ipdom_def)
    qed
  qed
  show "-1 \<le> d \<and> d < int (length bs)" if "d \<in> set (immediatePostDominators bs pd)"
    using that pick by (auto simp: immediatePostDominators_def split: if_splits)
qed

lemma natural_loop_range:
  assumes "fst e < length bs" "snd e < length bs" "b \<in> set (natural_loop bs e)"
  shows "b < length bs"
proof (cases "b \<in> {snd e, fst e}")
  case False
  then have "b \<in> loop_worklist bs {snd e, fst e} [fst e] - {snd e, fst e}" using assms(3) by (simp add: set_natural_loop)
  then show ?thesis by (rule loop_worklist_sound [where st = "{}"]) (use assms in auto)
qed (use assms in auto)

definition region_range :: "loop_region \<Rightarrow> bool" where
  "region_range r \<longleftrightarrow> l_header r < length bs \<and> (\<forall>b\<in>set (l_blocks r). b < length bs) \<and>
    (\<forall>b\<in>set (l_latches r). b < length bs)"

lemma add_to_region_range:
  assumes "fst e < length bs" "snd e < length bs"
  shows "list_all region_range rs \<Longrightarrow> list_all region_range (add_to_region e (natural_loop bs e) rs)"
  using assms natural_loop_range [OF assms]
  by (induction e "natural_loop bs e" rs rule: add_to_region.induct) (auto simp: region_range_def)

lemma finish_region_range:
  assumes "region_range r"
  shows "region_range (finish_region bs r)" "l_preheader (finish_region bs r) < int (length bs)"
    "b \<in> set (l_exits (finish_region bs r)) \<Longrightarrow> b < length bs"
proof -
  show "region_range (finish_region bs r)" using assms by (simp add: finish_region_def Let_def region_range_def)
  have out: "p < length bs" if "p \<in> set (filter (\<lambda>p. p \<notin> A) (pred_list bs h))" for p A h
    using that by (simp add: pred_list_def)
  show "l_preheader (finish_region bs r) < int (length bs)"
  proof (cases "length (filter (\<lambda>p. p \<notin> set (sort (remdups (l_blocks r)))) (pred_list bs (l_header r))) = 1")
    case True
    then have "filter (\<lambda>p. p \<notin> set (sort (remdups (l_blocks r)))) (pred_list bs (l_header r)) \<noteq> []" by auto
    then have "hd (filter (\<lambda>p. p \<notin> set (sort (remdups (l_blocks r)))) (pred_list bs (l_header r))) < length bs"
      by (rule out [OF hd_in_set])
    then show ?thesis using True by (simp add: finish_region_def Let_def)
  next
    case False
    then show ?thesis by (simp add: finish_region_def Let_def)
  qed
  show "b < length bs" if "b \<in> set (l_exits (finish_region bs r))"
    using that assms succ_range by (auto simp: finish_region_def Let_def region_range_def)
qed

lemma loop_regions_range:
  assumes "r \<in> set (loop_regions bs doms)"
  shows "region_range r" "l_preheader r < int (length bs)" "b \<in> set (l_exits r) \<Longrightarrow> b < length bs"
proof -
  have "list_all region_range (fold (\<lambda>e. add_to_region e (natural_loop bs e)) es rs)"
    if "list_all region_range rs" "\<And>e. e \<in> set es \<Longrightarrow> fst e < length bs \<and> snd e < length bs" for es rs
    using that by (induction es arbitrary: rs) (simp_all add: add_to_region_range)
  then have "list_all region_range (fold (\<lambda>e. add_to_region e (natural_loop bs e)) (backEdges bs doms) [])"
    using backEdges_range by simp
  then obtain q where "region_range q" "r = finish_region bs q"
    using assms by (auto simp: loop_regions_def list_all_iff)
  then show "region_range r" "l_preheader r < int (length bs)" "b \<in> set (l_exits r) \<Longrightarrow> b < length bs"
    using finish_region_range by blast+
qed

end

end
