(* ===== verification/IR_Accept.thy ===== *)
theory IR_Accept
  imports IR_Build
begin

text \<open>
  The function records of an accepted prototype tree pass the checks of \<^verbatim>\<open>validateFunctionAnalysis\<close>,
  apart from the one on debug locals, and the ids of the tree are its preorder numbers. Together
  they say when \<^verbatim>\<open>buildModule\<close> (\<^verbatim>\<open>byteveil_decompiler/IR.cpp\<close>) succeeds.
\<close>

section \<open>The record of one function\<close>

lemma decode_versions [simp]: "i_definitionVersions (decodeInstruction rc line raw nxt pc) = []"
  by (simp add: decodeInstruction_def annotateInstruction_def Let_def split: prod.splits)

lemma versioned_none:
  assumes "\<And>k. k < length ins \<Longrightarrow> i_definitions (ins ! k) = [] \<and> i_definitionVersions (ins ! k) = []"
  shows "versioned regs ins = ins"
proof (rule nth_equalityI)
  fix k assume "k < length (versioned regs ins)"
  then have k: "k < length ins" by (simp add: versioned_def)
  have "(ins ! k)\<lparr>i_definitionVersions := []\<rparr> = ins ! k"
    using assms [OF k] by (cases "ins ! k") simp
  then show "versioned regs ins ! k = ins ! k" using k assms [OF k] by (simp add: versioned_def with_versions_def)
qed (simp add: versioned_def)

text \<open>The decoded and placed instructions of a prototype, with versions when there are registers.\<close>

definition placedCode :: "u32 \<Rightarrow> lproto \<Rightarrow> instruction list" where
  "placedCode oob p = placeInstructions (build_blocks (nat (sizecode p)) (decodeCode oob p)) (decodeCode oob p)"

definition finalCode :: "u32 \<Rightarrow> lproto \<Rightarrow> instruction list" where
  "finalCode oob p = versioned (maxstacksize p) (placedCode oob p)"

abbreviation blocksOf :: "u32 \<Rightarrow> lproto \<Rightarrow> basic_block list" where
  "blocksOf oob p \<equiv> build_blocks (nat (sizecode p)) (placedCode oob p)"

lemma blocksOf_decoded: "build_blocks (nat (sizecode p)) (decodeCode oob p) = blocksOf oob p"
  by (simp add: placedCode_def placed_blocks)

lemma placed_instruction:
  assumes "k < length (placedCode oob p)"
  shows "i_uses (placedCode oob p ! k) = i_uses (decodeCode oob p ! k)"
    "i_definitions (placedCode oob p ! k) = i_definitions (decodeCode oob p ! k)"
    "i_destinationRegister (placedCode oob p ! k) = i_destinationRegister (decodeCode oob p ! k)"
    "instr_ok (int (maxstacksize p)) (decodeCode oob p ! k)"
    "i_definitionVersions (placedCode oob p ! k) = []"
proof -
  have k: "k < length (decodeCode oob p)" using assms by (simp add: placedCode_def placed_code)
  have same: "same_code (decodeCode oob p ! k) (placedCode oob p ! k)"
    unfolding placedCode_def by (rule placed_code(2) [OF k])
  then show "i_uses (placedCode oob p ! k) = i_uses (decodeCode oob p ! k)"
    "i_definitions (placedCode oob p ! k) = i_definitions (decodeCode oob p ! k)"
    "i_destinationRegister (placedCode oob p ! k) = i_destinationRegister (decodeCode oob p ! k)"
    by (simp_all add: same_code_fields)
  show "instr_ok (int (maxstacksize p)) (decodeCode oob p ! k)" using k by (intro decodeCode_instr_ok [of _ oob] nth_mem)
  have "i_definitionVersions (decodeCode oob p ! k) = []"
    using decodeFrom_mem [of "decodeCode oob p ! k" oob p 0] nth_mem [OF k] decode_versions
    unfolding decodeCode_def by metis
  then show "i_definitionVersions (placedCode oob p ! k) = []" using same by (simp add: same_code_fields)
qed

lemma final_versions: "(if maxstacksize p > 0 then versioned (maxstacksize p) (placedCode oob p) else placedCode oob p) = finalCode oob p"
proof (cases "maxstacksize p > 0")
  case False
  have "versioned (maxstacksize p) (placedCode oob p) = placedCode oob p"
  proof (rule versioned_none)
    fix k assume k: "k < length (placedCode oob p)"
    have "set (i_definitions (placedCode oob p ! k)) = {}"
      using placed_instruction [OF k] False by (auto simp: instr_ok_def)
    then show "i_definitions (placedCode oob p ! k) = [] \<and> i_definitionVersions (placedCode oob p ! k) = []"
      using placed_instruction(5) [OF k] by simp
  qed
  then show ?thesis using False by (simp add: finalCode_def)
qed (simp add: finalCode_def)

text \<open>The construction never fails, and these are its parts.\<close>

lemma describeFunction_total:
  obtains live doms pd components versions where
    "liveness (maxstacksize p) (placedCode oob p) (blocksOf oob p) = Some live"
    "dominators (blocksOf oob p) = Some doms" "postDominators (blocksOf oob p) = Some pd"
    "stronglyConnectedComponents (blocksOf oob p) = Some components"
    "ssa_loop (maxstacksize p) (finalCode oob p) (blocksOf oob p) = Some versions"
    "describeFunction oob p k parent protoIndex =
      Some \<lparr>f_id = k, f_parentId = parent, f_prototypeIndex = protoIndex, f_parameters = numparams p,
       f_registers = maxstacksize p, f_constants = sizek p, f_upvalues = nups p, f_lineDefined = linedefined p,
       f_nameHint = nameHint p k, f_constantTable = map (describeConstant p) [0..sizek p - 1],
       f_debugLocals = map localInfo (locvars p), f_upvalueNames = upvalueNameList p,
       f_instructions = finalCode oob p, f_basicBlocks = set_reachable (blocksOf oob p),
       f_immediateDominators = immediateDominators (blocksOf oob p) doms,
       f_immediatePostDominators = immediatePostDominators (blocksOf oob p) pd, f_postDominators = pd,
       f_backEdges = backEdges (blocksOf oob p) doms, f_naturalLoops = naturalLoops (blocksOf oob p) doms,
       f_stronglyConnectedComponents = components,
       f_scopes = scopes (maxstacksize p) (placedCode oob p) (set_reachable (blocksOf oob p))
         (map (\<lambda>l. sorted_list_of_set (fst l)) live) (loop_regions (blocksOf oob p) doms),
       f_loops = loop_regions (blocksOf oob p) doms,
       f_liveIn = map (\<lambda>l. sorted_list_of_set (fst l)) live, f_liveOut = map (\<lambda>l. sorted_list_of_set (snd l)) live,
       f_blockLiveRegisterCount = map (\<lambda>b. snd (block_peak (maxstacksize p) (placedCode oob p) (blocksOf oob p ! b)
         (snd (live ! b)))) [0..<length (blocksOf oob p)],
       f_instructionDefVersions = instructionDefVersions (finalCode oob p),
       f_phiNodes = phiNodes (maxstacksize p) (blocksOf oob p) versions,
       f_registerStats = registerStats (maxstacksize p) (decodeCode oob p),
       f_unknownInstructionCount = unknownInstructionCount (decodeCode oob p)\<rparr>"
proof -
  obtain live where live: "liveness (maxstacksize p) (placedCode oob p) (blocksOf oob p) = Some live"
    using built_regs.liveness_stop by blast
  obtain doms where doms: "dominators (blocksOf oob p) = Some doms" using built.dominators_stop by blast
  obtain pd where pd: "postDominators (blocksOf oob p) = Some pd" using built.postDominators_stop by blast
  obtain components where components: "stronglyConnectedComponents (blocksOf oob p) = Some components"
    using built.components_partition by blast
  obtain versions where versions: "ssa_loop (maxstacksize p) (finalCode oob p) (blocksOf oob p) = Some versions"
    unfolding finalCode_def using ssa_stops by blast
  have "placeInstructions (blocksOf oob p) (decodeCode oob p) = placedCode oob p"
    by (simp add: placedCode_def placed_blocks)
  then show ?thesis
    using that [OF live doms pd components versions]
    by (simp add: describeFunction_def Let_def blocksOf_decoded final_versions live doms pd components versions
        cong: if_cong)
qed

section \<open>It passes the checks\<close>

lemma final_instruction:
  assumes "k < length (finalCode oob p)"
  shows "k < length (placedCode oob p)" "i_uses (finalCode oob p ! k) = i_uses (placedCode oob p ! k)"
    "i_definitions (finalCode oob p ! k) = i_definitions (placedCode oob p ! k)"
    "i_sourceBlock (finalCode oob p ! k) = i_sourceBlock (placedCode oob p ! k)"
    "i_destinationRegister (finalCode oob p ! k) = i_destinationRegister (placedCode oob p ! k)"
    "length (i_definitionVersions (finalCode oob p ! k)) = length (i_definitions (finalCode oob p ! k))"
  using assms by (simp_all add: finalCode_def versioned_def with_versions_def)

lemma blocksOf_flags [simp]: "length (reachable_flags (blocksOf oob p)) = length (blocksOf oob p)"
  by (rule built.reachable_flags_length)

lemma built_block_ok:
  assumes lay: "code_layout 0 (nat (sizecode p)) (decodeCode oob p)" and b: "b < length (blocksOf oob p)"
    and f: "f_basicBlocks f = set_reachable (blocksOf oob p)" "f_instructions f = finalCode oob p"
  shows "checkBlock f (set_reachable (blocksOf oob p) ! b) = Inr ()"
proof -
  let ?bs = "blocksOf oob p"
  note nth = set_reachable_nth [OF _ blocksOf_flags [of p oob]]
  have len: "length (set_reachable ?bs) = length ?bs" by (rule set_reachable_length) simp
  have id: "b_id (?bs ! b) = b" using b build_blocks_nth(1) by blast
  have succ: "t < length ?bs \<and> b \<in> set (b_predecessors (?bs ! t))" if t: "t \<in> set (b_successors (?bs ! b))" for t
  proof -
    have tn: "t < length ?bs" using built.succ_range [OF b] t by (simp add: succs_def)
    then show ?thesis using b t by (simp add: built_predecessors pred_list_def succs_def)
  qed
  have pred: "q < length ?bs \<and> b \<in> set (b_successors (?bs ! q))" if "q \<in> set (b_predecessors (?bs ! b))" for q
    using that b by (simp add: built_predecessors pred_list_def succs_def)
  have inst: "k < length (finalCode oob p) \<and> i_sourceBlock (finalCode oob p ! k) = int b"
    if "k \<in> set (b_instructions (?bs ! b))" for k
  proof -
    have "k < length (decodeCode oob p)" "i_sourceBlock (placedCode oob p ! k) = int b"
      using placed_source [OF lay, of b k] b that by (simp_all add: placedCode_def placed_blocks)
    moreover have "length (finalCode oob p) = length (decodeCode oob p)"
      by (simp add: finalCode_def versioned_def placedCode_def placed_code)
    ultimately show ?thesis using final_instruction(4) by simp
  qed
  show ?thesis
    unfolding checkBlock_def Let_def f len
    using b succ pred inst by (auto simp: res_simps nth id)
qed

lemma built_instruction_ok:
  assumes "k < length (finalCode oob p)" "f_registers f = maxstacksize p"
  shows "checkIrInstruction f (finalCode oob p ! k) = Inr ()"
  using final_instruction [OF assms(1)] placed_instruction [where k = k and oob = oob and p = p] assms(2)
  by (auto simp: checkIrInstruction_def res_simps instr_ok_def list_all_iff)

lemma built_facts_ok:
  assumes f: "f_basicBlocks f = set_reachable (blocksOf oob p)" "f_registers f = maxstacksize p"
    and doms: "dominators (blocksOf oob p) = Some doms" "f_immediateDominators f = immediateDominators (blocksOf oob p) doms"
      "f_backEdges f = backEdges (blocksOf oob p) doms" "f_loops f = loop_regions (blocksOf oob p) doms"
    and pd: "postDominators (blocksOf oob p) = Some pd"
      "f_immediatePostDominators f = immediatePostDominators (blocksOf oob p) pd"
    and phis: "f_phiNodes f = phiNodes (maxstacksize p) (blocksOf oob p) versions"
  shows "checkFacts f = Inr ()"
proof -
  let ?bs = "blocksOf oob p"
  have len: "length (set_reachable ?bs) = length ?bs" by (rule set_reachable_length) simp
  have phi: "checkPhi f phi = Inr ()" if "phi \<in> set (phiNodes (maxstacksize p) ?bs versions)" for phi
  proof -
    obtain b r v where b: "b < length ?bs" "r < maxstacksize p" and phi: "phi = \<lparr>phi_block = b, phi_reg = r,
        phi_version = v, phi_incomingBlocks = pred_list ?bs b, phi_incomingVersions = ssa_arriving ?bs versions b r\<rparr>"
      using \<open>phi \<in> _\<close> by (auto simp: phiNodes_def split: if_splits)
    have "b_predecessors (set_reachable ?bs ! b) = pred_list ?bs b"
      using b by (simp add: set_reachable_nth built_predecessors)
    then show ?thesis
      using b by (auto simp: checkPhi_def Let_def f len phi res_simps ssa_arriving_def list_all_iff pred_list_def)
  qed
  have loop: "checkLoop f l = Inr ()" if "l \<in> set (loop_regions ?bs doms)" for l
    using built.loop_regions_range [OF that]
    by (auto simp: checkLoop_def Let_def f len res_simps list_all_iff built.region_range_def)
  show ?thesis
    using built.immediateDominators_range(2) [OF doms(1)] built.immediatePostDominators_range(2) [OF pd(1)]
      built.backEdges_range phi loop
    by (auto simp: checkFacts_def Let_def f len doms(2-) pd(2) phis res_simps list_all_iff)
qed

text \<open>The only check that depends on more than validation covers.\<close>

definition localsOk :: "lproto \<Rightarrow> bool" where
  "localsOk p \<longleftrightarrow> list_all (\<lambda>l. reg l < maxstacksize p \<and> 0 \<le> startpc l \<and> startpc l \<le> endpc l) (locvars p)"

lemma check_each_require: "check_each (\<lambda>x. require (P x) e) xs = (if list_all P xs then Inr () else Inl e)"
  by (induction xs) (auto simp: require_def)

lemma described_function:
  assumes ok: "proto_ok oob p" and f: "describeFunction oob p k parent protoIndex = Some f"
  shows "f_id f = k" "f_parentId f = parent" "f_prototypeIndex f = protoIndex"
    "checkFunction f = (if localsOk p then Inr () else Inl badLocals)"
proof -
  have lay: "code_layout 0 (nat (sizecode p)) (decodeCode oob p)" and sizek: "0 \<le> sizek p"
    using ok by (simp_all add: proto_ok_def Let_def)
  let ?bs = "blocksOf oob p"
  obtain live doms pd components versions where
    parts: "liveness (maxstacksize p) (placedCode oob p) ?bs = Some live" "dominators ?bs = Some doms"
      "postDominators ?bs = Some pd"
    and fields: "f_id f = k" "f_parentId f = parent" "f_prototypeIndex f = protoIndex" "f_registers f = maxstacksize p"
      "f_constants f = sizek p" "f_upvalues f = nups p" "f_constantTable f = map (describeConstant p) [0..sizek p - 1]"
      "f_debugLocals f = map localInfo (locvars p)" "f_upvalueNames f = upvalueNameList p"
      "f_instructions f = finalCode oob p" "f_basicBlocks f = set_reachable ?bs"
      "f_immediateDominators f = immediateDominators ?bs doms"
      "f_immediatePostDominators f = immediatePostDominators ?bs pd" "f_backEdges f = backEdges ?bs doms"
      "f_loops f = loop_regions ?bs doms" "f_liveIn f = map (\<lambda>l. sorted_list_of_set (fst l)) live"
      "f_liveOut f = map (\<lambda>l. sorted_list_of_set (snd l)) live"
      "length (f_blockLiveRegisterCount f) = length ?bs" "f_phiNodes f = phiNodes (maxstacksize p) ?bs versions"
    by (rule describeFunction_total [of p oob k parent protoIndex]) (use f in simp)
  show "f_id f = k" "f_parentId f = parent" "f_prototypeIndex f = protoIndex" by (rule fields)+
  have len: "length (set_reachable ?bs) = length ?bs" by (rule set_reachable_length) simp
  have tables: "checkTables f = Inr ()"
    using sizek by (simp add: checkTables_def fields upvalueNameList_def check_each_require list_all_iff)
  have locals: "checkLocals f = (if localsOk p then Inr () else Inl badLocals)"
    by (simp add: checkLocals_def check_each_require fields localsOk_def list_all_iff localOk_def localInfo_def)
  have live_len: "length live = length ?bs" by (rule built_regs.liveness_length [OF parts(1)])
  have sizes: "checkSizes f = Inr ()"
    using built.entry_range built.immediateDominators_range(1) [OF parts(2)]
      built.immediatePostDominators_range(1) [OF parts(3)] live_len
    by (simp add: checkSizes_def Let_def fields len)
  have lives: "checkLive f b = Inr ()" if b: "b < length ?bs" for b
  proof -
    have "live_ok (maxstacksize p) (live ! b)" by (rule built_regs.liveness_ok [OF parts(1) b])
    then have "fst (live ! b) \<subseteq> {..<maxstacksize p}" "snd (live ! b) \<subseteq> {..<maxstacksize p}"
      by (simp_all add: live_ok_def)
    moreover from this have "finite (fst (live ! b))" "finite (snd (live ! b))" by (blast intro: finite_subset)+
    ultimately show ?thesis using b live_len by (auto simp: checkLive_def fields list_all_iff res_simps)
  qed
  have blocks: "checkBlock f b = Inr ()" if b: "b \<in> set (set_reachable ?bs)" for b
  proof -
    obtain n where "n < length ?bs" "b = set_reachable ?bs ! n" using b unfolding in_set_conv_nth len by blast
    then show ?thesis using built_block_ok [OF lay] fields(10,11) by blast
  qed
  have code: "checkIrInstruction f i = Inr ()" if i: "i \<in> set (finalCode oob p)" for i
    using i built_instruction_ok fields(4) unfolding in_set_conv_nth by blast
  have facts: "checkFacts f = Inr ()"
    by (rule built_facts_ok [OF fields(11) fields(4) parts(2) fields(12,14,15) parts(3) fields(13,19)])
  have each: "check_each (checkLive f) [0..<length (f_basicBlocks f)] = Inr ()"
    "check_each (checkBlock f) (f_basicBlocks f) = Inr ()"
    "check_each (checkIrInstruction f) (f_instructions f) = Inr ()"
    unfolding check_each_Inr fields(10,11) len using lives blocks code by auto
  show "checkFunction f = (if localsOk p then Inr () else Inl badLocals)"
    by (simp add: checkFunction_def tables locals sizes each facts)
qed

section \<open>The tree\<close>

text \<open>The functions of a tree in preorder.\<close>

fun functionsOf :: "ir_function \<Rightarrow> function_ir list"
  and functionsOfAll :: "ir_function list \<Rightarrow> function_ir list" where
  "functionsOf (IRFunction f cs) = f # functionsOfAll cs"
| "functionsOfAll [] = []"
| "functionsOfAll (c # cs) = functionsOf c @ functionsOfAll cs"

definition describes :: "u32 \<Rightarrow> nat \<times> lproto \<Rightarrow> function_ir \<Rightarrow> bool" where
  "describes oob q g \<longleftrightarrow> describeFunction oob (snd q) (f_id g) (f_parentId g) (f_prototypeIndex g) = Some g"

definition allLocalsOk :: "(nat \<times> lproto) list \<Rightarrow> bool" where
  "allLocalsOk qs \<longleftrightarrow> list_all (\<lambda>q. localsOk (snd q)) qs"

lemma addFunction_ok:
  "list_all (\<lambda>q. proto_ok oob (snd q)) (prototypesOf d (Some p)) \<Longrightarrow>
    \<exists>f m. addFunction oob p k parent c = Some (f, m) \<and> k < m \<and> map f_id (functionsOf f) = [k..<m] \<and>
      f_parentId (fn f) = parent \<and> f_prototypeIndex (fn f) = c \<and>
      list_all2 (describes oob) (prototypesOf d (Some p)) (functionsOf f) \<and>
      validateFunctionAnalysis f = (if allLocalsOk (prototypesOf d (Some p)) then Inr () else Inl badLocals)"
  "None \<notin> set ps \<Longrightarrow> list_all (\<lambda>q. proto_ok oob (snd q)) (prototypesOfAll d ps) \<Longrightarrow>
    \<exists>fs m. addChildren oob ps k pk c = Some (fs, m) \<and> k \<le> m \<and> map f_id (functionsOfAll fs) = [k..<m] \<and>
      list_all2 (describes oob) (prototypesOfAll d ps) (functionsOfAll fs) \<and>
      validateChildAnalyses pk fs = (if allLocalsOk (prototypesOfAll d ps) then Inr () else Inl badLocals)"
proof (induction oob p k parent c and oob ps k pk c arbitrary: d and d rule: addFunction_addChildren.induct)
  case (1 oob p k parent c)
  obtain f where f: "describeFunction oob p k parent c = Some f"
    by (rule describeFunction_total [of p oob k parent c]) simp
  have ok: "proto_ok oob p" using 1(2) by simp
  note df = described_function [OF ok f]
  have kids: "None \<notin> set (cells (subprotos p))" using ok by (simp add: proto_ok_def Let_def)
  obtain fs m where fs: "addChildren oob (cells (subprotos p)) (k + 1) k 0 = Some (fs, m)" "k + 1 \<le> m"
    "map f_id (functionsOfAll fs) = [k + 1..<m]"
    "list_all2 (describes oob) (prototypesOfAll (d + 1) (cells (subprotos p))) (functionsOfAll fs)"
    "validateChildAnalyses k fs =
      (if allLocalsOk (prototypesOfAll (d + 1) (cells (subprotos p))) then Inr () else Inl badLocals)"
    using 1(1) [OF f kids, of "d + 1"] 1(2) by auto
  have "addFunction oob p k parent c = Some (IRFunction f fs, m)"
    by (simp add: addFunction.simps f fs(1) [simplified])
  moreover have "describes oob (d, p) f" using f df(1-3) by (simp add: describes_def)
  ultimately show ?case
    using fs(2-) df by (auto simp: allLocalsOk_def upt_conv_Cons)
next
  case (2 oob k pk c)
  then show ?case by (simp add: allLocalsOk_def)
next
  case (3 oob ps k pk c)
  then show ?case by simp
next
  case (4 oob p ps k pk c)
  obtain f m where f: "addFunction oob p k (int pk) c = Some (f, m)" "k < m" "map f_id (functionsOf f) = [k..<m]"
    "f_parentId (fn f) = int pk" "list_all2 (describes oob) (prototypesOf d (Some p)) (functionsOf f)"
    "validateFunctionAnalysis f = (if allLocalsOk (prototypesOf d (Some p)) then Inr () else Inl badLocals)"
    using 4(1) [of d] 4(4) by auto
  obtain fs m' where fs: "addChildren oob ps m pk (c + 1) = Some (fs, m')" "m \<le> m'"
    "map f_id (functionsOfAll fs) = [m..<m']" "list_all2 (describes oob) (prototypesOfAll d ps) (functionsOfAll fs)"
    "validateChildAnalyses pk fs = (if allLocalsOk (prototypesOfAll d ps) then Inr () else Inl badLocals)"
    using 4(2) [OF f(1) refl, of d] 4(3,4) by auto
  have "addChildren oob (Some p # ps) k pk c = Some (f # fs, m')"
    by (simp add: addChildren.simps(3) f(1) fs(1) [simplified])
  moreover have "map f_id (functionsOfAll (f # fs)) = [k..<m']"
    using f(2,3) fs(2,3) upt_add_eq_append [of k m "m' - m"] by simp
  moreover have "list_all2 (describes oob) (prototypesOfAll d (Some p # ps)) (functionsOfAll (f # fs))"
    using list_all2_appendI [OF f(5) fs(4)] by simp
  moreover have "allLocalsOk (prototypesOfAll d (Some p # ps)) \<longleftrightarrow>
      allLocalsOk (prototypesOf d (Some p)) \<and> allLocalsOk (prototypesOfAll d ps)"
    by (simp add: allLocalsOk_def)
  ultimately show ?case
    using f(2,4,6) fs(2,5) by (simp del: prototypesOf.simps prototypesOfAll.simps functionsOfAll.simps addChildren.simps)
qed

text \<open>Distinct ids are collected without an error.\<close>

lemma collect_ids:
  "distinct (map f_id (functionsOf f)) \<Longrightarrow> ids \<inter> f_id ` set (functionsOf f) = {} \<Longrightarrow>
    collectIds f ids = Inr (ids \<union> f_id ` set (functionsOf f))"
  "distinct (map f_id (functionsOfAll fs)) \<Longrightarrow> ids \<inter> f_id ` set (functionsOfAll fs) = {} \<Longrightarrow>
    collectAllIds fs ids = Inr (ids \<union> f_id ` set (functionsOfAll fs))"
proof (induction f and fs arbitrary: ids and ids rule: functionsOf_functionsOfAll.induct)
  case (3 c cs)
  have "collectIds c ids = Inr (ids \<union> f_id ` set (functionsOf c))" using 3(1) [of ids] 3(3,4) by auto
  moreover have "collectAllIds cs (ids \<union> f_id ` set (functionsOf c)) =
      Inr (ids \<union> f_id ` set (functionsOf c) \<union> f_id ` set (functionsOfAll cs))"
    using 3(2) [of "ids \<union> f_id ` set (functionsOf c)"] 3(3,4) by (auto simp: Un_Int_distrib2 Int_commute)
  ultimately show ?case by (simp add: Un_assoc image_Un)
qed auto

lemma buildModule_accepted:
  assumes "validateProto oob (Some p) 128 1000000 = Inr t"
  shows "\<exists>f m. addFunction oob p 0 (-1) 0 = Some (f, m) \<and> map f_id (functionsOf f) = [0..<m] \<and>
    list_all2 (describes oob) (prototypesOf 0 (Some p)) (functionsOf f) \<and>
    buildModule oob (Some p) =
      Some (if allLocalsOk (prototypesOf 0 (Some p)) then Inr (moduleOf p f) else Inl badLocals)"
proof -
  have "list_all (\<lambda>q. proto_ok oob (snd q)) (prototypesOf 0 (Some p))"
    using validateOne_tree(1) [OF assms [unfolded validateProto_def]] by (auto simp: list_all_iff)
  then obtain f m where f: "addFunction oob p 0 (-1) 0 = Some (f, m)" "map f_id (functionsOf f) = [0..<m]"
    "list_all2 (describes oob) (prototypesOf 0 (Some p)) (functionsOf f)"
    "validateFunctionAnalysis f = (if allLocalsOk (prototypesOf 0 (Some p)) then Inr () else Inl badLocals)"
    using addFunction_ok(1) by blast
  have "collectIds f {} = Inr ({} \<union> f_id ` set (functionsOf f))"
    by (rule collect_ids(1)) (simp_all add: f(2))
  then show ?thesis
    using f assms by (simp add: buildModule_def validateAnalysis_def moduleOf_def)
qed

end
