(* ===== verification/IR_Text.thy ===== *)
theory IR_Text
  imports IR_Accept
begin

text \<open>
  The text of the neutral IR (\<^verbatim>\<open>byteveil_decompiler/IR.cpp\<close>): opcode names, the JSON of a function and
  of a module, the disassembly, the graph of the root function and the two listings. The JSON of a
  module that \<^verbatim>\<open>buildModule\<close> hands out is well-formed (\<open>module_json\<close>).
\<close>

section \<open>Names of opcodes\<close>

definition opcodeNames :: "string list" where
  "opcodeNames =
    [''NOP'', ''BREAK'', ''LOADNIL'', ''LOADB'', ''LOADN'', ''LOADK'', ''MOVE'', ''GETGLOBAL'',
     ''SETGLOBAL'', ''GETUPVAL'', ''SETUPVAL'', ''CLOSEUPVALS'', ''GETIMPORT'', ''GETTABLE'', ''SETTABLE'',
     ''GETTABLEKS'', ''SETTABLEKS'', ''GETTABLEN'', ''SETTABLEN'', ''NEWCLOSURE'', ''NAMECALL'', ''CALL'',
     ''RETURN'', ''JUMP'', ''JUMPBACK'', ''JUMPIF'', ''JUMPIFNOT'', ''JUMPIFEQ'', ''JUMPIFLE'',
     ''JUMPIFLT'', ''JUMPIFNOTEQ'', ''JUMPIFNOTLE'', ''JUMPIFNOTLT'', ''ADD'', ''SUB'', ''MUL'', ''DIV'',
     ''MOD'', ''POW'', ''ADDK'', ''SUBK'', ''MULK'', ''DIVK'', ''MODK'', ''POWK'', ''AND'', ''OR'',
     ''ANDK'', ''ORK'', ''CONCAT'', ''NOT'', ''MINUS'', ''LENGTH'', ''NEWTABLE'', ''DUPTABLE'',
     ''SETLIST'', ''FORNPREP'', ''FORNLOOP'', ''FORGLOOP'', ''FORGPREP_INEXT'', ''FASTCALL3'',
     ''FORGPREP_NEXT'', ''NATIVECALL'', ''GETVARARGS'', ''DUPCLOSURE'', ''PREPVARARGS'', ''LOADKX'',
     ''JUMPX'', ''FASTCALL'', ''COVERAGE'', ''CAPTURE'', ''SUBRK'', ''DIVRK'', ''FASTCALL1'',
     ''FASTCALL2'', ''FASTCALL2K'', ''FORGPREP'', ''JUMPXEQKNIL'', ''JUMPXEQKB'', ''JUMPXEQKN'',
     ''JUMPXEQKS'', ''IDIV'', ''IDIVK'', ''GETUDATAKS'', ''SETUDATAKS'', ''NAMECALLUDATA'',
     ''NEWCLASSMEMBER'', ''CALLFB'', ''CMPPROTO'', ''FASTPCALL'', ''NEWCLASS'']"

definition opcodeName :: "nat \<Rightarrow> string" where
  "opcodeName op = (if op < LOP_COUNT then opcodeNames ! op else ''UNKNOWN'')"

section \<open>JSON\<close>

definition nats_text :: "nat list \<Rightarrow> string" where
  "nats_text xs = array_text (map nat_text xs)"

definition ints_text :: "int list \<Rightarrow> string" where
  "ints_text xs = array_text (map int_text xs)"

definition jsonConstant :: "constant_info \<Rightarrow> string" where
  "jsonConstant c = object_text
    [field ''index'' (int_text (ci_index c)), field ''type'' (quoted (esc (ci_type c))),
     field ''value'' (quoted (esc (ci_value c))), field ''string_bytes_hex'' (quoted (ci_stringBytesHex c)),
     field ''child_prototype'' (int_text (ci_childPrototype c))]"

definition jsonLocal :: "local_info \<Rightarrow> string" where
  "jsonLocal l = object_text
    [field ''name'' (quoted (esc (li_name l))), field ''register'' (int_text (li_register l)),
     field ''start'' (int_text (li_start l)), field ''end'' (int_text (li_end l))]"

definition jsonInstruction :: "instruction \<Rightarrow> string" where
  "jsonInstruction i = object_text
    [field ''offset'' (nat_text (i_offset i)), field ''opcode'' (nat_text (i_opcode i)),
     field ''opcode_name'' (quoted (opcodeName (i_opcode i))), field ''length'' (nat_text (i_length i)),
     field ''a'' (nat_text (i_a i)), field ''b'' (nat_text (i_b i)), field ''c'' (nat_text (i_c i)),
     field ''d'' (int_text (i_d i)), field ''e'' (int_text (i_e i)), field ''aux'' (nat_text (unat (i_aux i))),
     field ''line'' (int_text (i_line i)), field ''jump_target'' (int_text (i_jumpTarget i)),
     field ''target_block'' (int_text (i_targetBlock i)),
     field ''destination_register'' (int_text (i_destinationRegister i)),
     field ''constant_index'' (int_text (i_constantIndex i)), field ''source_block'' (int_text (i_sourceBlock i)),
     field ''has_aux'' (bool_text (i_hasAux i)), field ''is_auxiliary'' (bool_text (i_isAuxiliary i)),
     field ''is_pure'' (bool_text (i_isPure i)), field ''has_side_effects'' (bool_text (i_hasSideEffects i)),
     field ''semantic_tag'' (quoted (i_semanticTag i)), field ''uses'' (nats_text (i_uses i)),
     field ''definitions'' (nats_text (i_definitions i)),
     field ''definition_versions'' (nats_text (i_definitionVersions i))]"

definition jsonBlock :: "function_ir \<Rightarrow> basic_block \<Rightarrow> string" where
  "jsonBlock f b = object_text
    [field ''id'' (nat_text (b_id b)), field ''start'' (nat_text (b_start b)), field ''end'' (int_text (b_end b)),
     field ''instructions'' (nats_text (b_instructions b)), field ''successors'' (nats_text (b_successors b)),
     field ''predecessors'' (nats_text (b_predecessors b)), field ''live_in'' (nats_text (f_liveIn f ! b_id b)),
     field ''live_out'' (nats_text (f_liveOut f ! b_id b)),
     field ''live_register_count'' (nat_text (f_blockLiveRegisterCount f ! b_id b)),
     field ''reachable'' (bool_text (b_reachable b))]"

definition jsonLoop :: "loop_region \<Rightarrow> string" where
  "jsonLoop l = object_text
    [field ''header'' (nat_text (l_header l)), field ''preheader'' (int_text (l_preheader l)),
     field ''blocks'' (nats_text (l_blocks l)), field ''latches'' (nats_text (l_latches l)),
     field ''exits'' (nats_text (l_exits l))]"

definition jsonCfg :: "function_ir \<Rightarrow> string" where
  "jsonCfg f = object_text
    [field ''immediate_dominators'' (ints_text (f_immediateDominators f)),
     field ''back_edges'' (array_text (map (\<lambda>(a, b). nats_text [a, b]) (f_backEdges f))),
     field ''natural_loops'' (array_text (map nats_text (f_naturalLoops f))),
     field ''loop_regions'' (array_text (map jsonLoop (f_loops f))),
     field ''sccs'' (array_text (map nats_text (f_stronglyConnectedComponents f))),
     field ''immediate_post_dominators'' (ints_text (f_immediatePostDominators f)),
     field ''liveness'' (object_text [field ''block_live_register_count'' (nats_text (f_blockLiveRegisterCount f))])]"

definition jsonPhi :: "phi_node \<Rightarrow> string" where
  "jsonPhi phi = object_text
    [field ''block'' (nat_text (phi_block phi)), field ''register'' (nat_text (phi_reg phi)),
     field ''version'' (int_text (phi_version phi)), field ''incoming_blocks'' (nats_text (phi_incomingBlocks phi)),
     field ''incoming'' (ints_text (phi_incomingVersions phi))]"

definition jsonDataflow :: "function_ir \<Rightarrow> string" where
  "jsonDataflow f = object_text
    [field ''register_first_use'' (ints_text (rs_firstUse (f_registerStats f))),
     field ''register_last_use'' (ints_text (rs_lastUse (f_registerStats f))),
     field ''definition_count'' (nats_text (rs_definitionCount (f_registerStats f))),
     field ''use_count'' (nats_text (rs_useCount (f_registerStats f))),
     field ''unknown_instructions'' (nat_text (f_unknownInstructionCount f))]"

definition jsonScope :: "scope \<Rightarrow> string" where
  "jsonScope s = object_text
    [field ''id'' (nat_text (sc_id s)), field ''parent'' (int_text (sc_parent s)),
     field ''entry'' (nat_text (sc_entryBlock s)), field ''exit'' (int_text (sc_exitBlock s)),
     field ''registers'' (nats_text (sc_registers s))]"

definition jsonFields :: "function_ir \<Rightarrow> string list" where
  "jsonFields f =
    [field ''id'' (nat_text (f_id f)), field ''parent_id'' (int_text (f_parentId f)),
     field ''prototype_index'' (nat_text (f_prototypeIndex f)), field ''name_hint'' (quoted (esc (f_nameHint f))),
     field ''line_defined'' (int_text (f_lineDefined f)), field ''parameters'' (nat_text (f_parameters f)),
     field ''registers'' (nat_text (f_registers f)), field ''constants'' (int_text (f_constants f)),
     field ''upvalues'' (nat_text (f_upvalues f)),
     field ''constant_table'' (array_text (map jsonConstant (f_constantTable f))),
     field ''debug_locals'' (array_text (map jsonLocal (f_debugLocals f))),
     field ''upvalue_names'' (array_text (map (\<lambda>u. quoted (esc u)) (f_upvalueNames f))),
     field ''instructions'' (array_text (map jsonInstruction (f_instructions f))),
     field ''basic_blocks'' (array_text (map (jsonBlock f) (f_basicBlocks f))),
     field ''cfg_analysis'' (jsonCfg f),
     field ''ssa'' (object_text [field ''instruction_def_versions'' (ints_text (f_instructionDefVersions f)),
       field ''phi_nodes'' (array_text (map jsonPhi (f_phiNodes f)))]),
     field ''dataflow'' (jsonDataflow f), field ''scopes'' (array_text (map jsonScope (f_scopes f)))]"

primrec jsonFn :: "ir_function \<Rightarrow> string" where
  "jsonFn (IRFunction f cs) = object_text (jsonFields f @ [field ''children'' (array_text (map jsonFn cs))])"

definition toJson :: "ir_module \<Rightarrow> string" where
  "toJson m = object_text
    [field ''format'' (quoted (esc (m_format m))), field ''version'' (nat_text (m_version m)),
     field ''source'' (quoted (esc (m_source m))), field ''root_function'' (jsonFn (m_root m))] @ newline"

section \<open>Disassembly\<close>

fun hex_text :: "nat \<Rightarrow> string" where
  "hex_text n = (if n < 16 then [digit_char n] else hex_text (n div 16) @ [digit_char (n mod 16)])"

declare hex_text.simps [simp del]

definition disassembleInstruction :: "instruction \<Rightarrow> string" where
  "disassembleInstruction i =
    ''    @'' @ nat_text (i_offset i) @ '' (0x'' @ hex_text (i_offset i) @ '') '' @ opcodeName (i_opcode i) @
    '' len='' @ nat_text (i_length i) @ '' A='' @ nat_text (i_a i) @ '' B='' @ nat_text (i_b i) @
    '' C='' @ nat_text (i_c i) @ '' D='' @ int_text (i_d i) @ '' E='' @ int_text (i_e i) @
    (if i_jumpTarget i \<ge> 0 then '' -> '' @ int_text (i_jumpTarget i) else []) @
    (if i_line i \<noteq> 0 then '' line='' @ int_text (i_line i) else []) @
    (if i_hasAux i then '' AUX='' @ nat_text (unat (i_aux i)) else []) @
    (if i_definitions i \<noteq> [] then '' defs='' @ join '','' (map (\<lambda>n. ''r'' @ nat_text (i_definitions i ! n) @
       '':v'' @ nat_text (i_definitionVersions i ! n)) [0..<length (i_definitions i)]) else []) @ newline"

definition disassembleBlock :: "function_ir \<Rightarrow> basic_block \<Rightarrow> string" where
  "disassembleBlock f b =
    ''  block_'' @ nat_text (b_id b) @ '' ['' @ nat_text (b_start b) @ ''..'' @ int_text (b_end b) @ '']'' @
    (if b_reachable b then [] else '' unreachable'') @
    (if b_id b < length (f_immediateDominators f) then '' idom=block_'' @ int_text (f_immediateDominators f ! b_id b)
     else []) @
    concat (map (\<lambda>phi. if phi_block phi = b_id b then '' phi=r'' @ nat_text (phi_reg phi) @ '':v'' @
       int_text (phi_version phi) else []) (f_phiNodes f)) @
    (if b_successors b \<noteq> [] then '' ->'' @ concat (map (\<lambda>s. '' block_'' @ nat_text s) (b_successors b)) else []) @
    '':'' @ newline @
    concat (map (\<lambda>k. disassembleInstruction (f_instructions f ! k)) (b_instructions b))"

primrec disassembleFunction :: "ir_function \<Rightarrow> string" where
  "disassembleFunction (IRFunction f cs) =
    ''function '' @ nat_text (f_id f) @ '' '' @ quoted (f_nameHint f) @ '' (parent='' @ int_text (f_parentId f) @ '')'' @
    newline @ concat (map (disassembleBlock f) (f_basicBlocks f)) @ concat (map disassembleFunction cs)"

definition disassemble :: "ir_module \<Rightarrow> string" where
  "disassemble m = disassembleFunction (m_root m)"

section \<open>The graph and the listings\<close>

definition dotBreak :: string where
  "dotBreak = [CHR 0x5C, CHR ''n'']"

definition dotBlock :: "function_ir \<Rightarrow> basic_block \<Rightarrow> string" where
  "dotBlock f b =
    ''  b'' @ nat_text (b_id b) @ '' [label='' @ [CHR 0x22] @ ''block_'' @ nat_text (b_id b) @ dotBreak @
    nat_text (b_start b) @ ''..'' @ int_text (b_end b) @
    (if b_id b < length (f_immediateDominators f) then dotBreak @ ''idom='' @ int_text (f_immediateDominators f ! b_id b)
     else []) @
    (if b_id b \<in> snd ` set (f_backEdges f) then dotBreak @ ''loop-header'' else []) @ [CHR 0x22] @ ''];'' @ newline @
    concat (map (\<lambda>s. ''  b'' @ nat_text (b_id b) @ '' -> b'' @ nat_text s @ '';'' @ newline) (b_successors b))"

definition cfgDot :: "ir_module \<Rightarrow> string" where
  "cfgDot m =
    ''digraph byteveil_cfg {'' @ newline @
    concat (map (dotBlock (fn (m_root m))) (f_basicBlocks (fn (m_root m)))) @ ''}'' @ newline"

definition constantLine :: "constant_info \<Rightarrow> string" where
  "constantLine c =
    ''  ['' @ int_text (ci_index c) @ ''] '' @ ci_type c @
    (if ci_value c \<noteq> [] then '' value='' @ quoted (esc (ci_value c)) else []) @
    (if ci_stringBytesHex c \<noteq> [] then '' bytes='' @ ci_stringBytesHex c else []) @
    (if ci_childPrototype c \<ge> 0 then '' child_prototype='' @ int_text (ci_childPrototype c) else []) @ newline"

primrec constantsOf :: "ir_function \<Rightarrow> string" where
  "constantsOf (IRFunction f cs) =
    ''function '' @ nat_text (f_id f) @ '' '' @ quoted (esc (f_nameHint f)) @ '' constants: '' @ int_text (f_constants f) @
    newline @ concat (map constantLine (f_constantTable f)) @ concat (map constantsOf cs)"

definition constantsText :: "ir_module \<Rightarrow> string" where
  "constantsText m = constantsOf (m_root m)"

primrec prototypesOfFunction :: "ir_function \<Rightarrow> nat \<Rightarrow> string" where
  "prototypesOfFunction (IRFunction f cs) = (\<lambda>depth.
    replicate (depth * 2) CHR '' '' @ ''function '' @ nat_text (f_id f) @ '' '' @ quoted (esc (f_nameHint f)) @
    '' parent='' @ int_text (f_parentId f) @ '' prototype_index='' @ nat_text (f_prototypeIndex f) @
    '' line='' @ int_text (f_lineDefined f) @ '' params='' @ nat_text (f_parameters f) @
    '' registers='' @ nat_text (f_registers f) @ '' upvalues='' @ nat_text (f_upvalues f) @
    '' constants='' @ int_text (f_constants f) @ '' instructions='' @ nat_text (length (f_instructions f)) @
    '' children='' @ nat_text (length cs) @ newline @ concat (map (\<lambda>c. c (depth + 1)) (map prototypesOfFunction cs)))"

definition prototypesText :: "ir_module \<Rightarrow> string" where
  "prototypesText m = prototypesOfFunction (m_root m) 0"

section \<open>The JSON is well-formed\<close>

lemma opcodeNames_table: "length opcodeNames = LOP_COUNT" "list_all plain opcodeNames" "distinct opcodeNames"
  by code_simp+

lemma opcodeName_plain: "plain (opcodeName op)"
proof (cases "op < LOP_COUNT")
  case True
  then show ?thesis using opcodeNames_table(1,2) by (simp add: opcodeName_def list_all_length)
next
  case False
  have "plain ''UNKNOWN''" by code_simp
  then show ?thesis using False by (simp add: opcodeName_def)
qed

lemma tag_plain: "plain (tag op)"
proof -
  have "list_all plain [''control-flow'', ''load'', ''binary'', ''unary'', ''table-read'', ''table-write'', ''store'',
      ''call'', ''closure'', ''return'', ''vararg'', ''metadata'', ''unknown'']" by code_simp
  then show ?thesis unfolding tag_def Let_def by (auto split: if_splits)
qed

lemma lower_hex_plain: "lower_hex c \<Longrightarrow> plain [c]"
  unfolding lower_hex_def by (auto simp: plain_def)

lemma hexBytes_plain: "plain (hexBytes s)"
proof (induction s)
  case Nil
  then show ?case by (simp add: hexBytes_def plain_def)
next
  case (Cons c s)
  have "byte c div 16 < 16" using byte_bound [of c] by (simp add: div_less_iff_less_mult)
  then have "plain [digit_char (byte c div 16)]" "plain [digit_char (byte c mod 16)]"
    by (intro lower_hex_plain digit_char_hex; simp)+
  then show ?case using Cons by (simp add: hexBytes_def plain_def)
qed

text \<open>What the strings that are written without escaping have to satisfy.\<close>

definition writable :: "function_ir \<Rightarrow> bool" where
  "writable f \<longleftrightarrow> list_all (\<lambda>c. plain (ci_stringBytesHex c)) (f_constantTable f) \<and>
    list_all (\<lambda>i. plain (i_semanticTag i)) (f_instructions f)"

lemma nats_json: "json (nats_text xs)"
  by (simp add: nats_text_def json_map json_nat)

lemma ints_json: "json (ints_text xs)"
  by (simp add: ints_text_def json_map json_int)

lemma esc_quoted_json: "json (quoted (esc s))"
  by (rule json_string [OF esc_json])

lemmas json_parts = json_fields json_named json_nat json_int json_bool nats_json ints_json esc_quoted_json

lemma jsonConstant_json: "plain (ci_stringBytesHex c) \<Longrightarrow> json (jsonConstant c)"
  unfolding jsonConstant_def by (intro json_fields) (simp add: json_parts json_quoted_plain plain_simps)

lemma jsonLocal_json: "json (jsonLocal l)"
  unfolding jsonLocal_def by (intro json_fields) (simp add: json_parts plain_simps)

lemma jsonInstruction_json: "plain (i_semanticTag i) \<Longrightarrow> json (jsonInstruction i)"
  unfolding jsonInstruction_def
  by (intro json_fields) (simp add: json_parts json_quoted_plain opcodeName_plain plain_simps)

lemma jsonBlock_json: "json (jsonBlock f b)"
  unfolding jsonBlock_def by (intro json_fields) (simp add: json_parts plain_simps)

lemma jsonLoop_json: "json (jsonLoop l)"
  unfolding jsonLoop_def by (intro json_fields) (simp add: json_parts plain_simps)

lemma jsonPhi_json: "json (jsonPhi phi)"
  unfolding jsonPhi_def by (intro json_fields) (simp add: json_parts plain_simps)

lemma jsonScope_json: "json (jsonScope sc)"
  unfolding jsonScope_def by (intro json_fields) (simp add: json_parts plain_simps)

lemma jsonDataflow_json: "json (jsonDataflow f)"
  unfolding jsonDataflow_def by (intro json_fields) (simp add: json_parts plain_simps)

lemma jsonCfg_json: "json (jsonCfg f)"
proof -
  have "json (array_text (map (\<lambda>(a, b). nats_text [a, b]) (f_backEdges f)))"
    "json (array_text (map nats_text (f_naturalLoops f)))" "json (array_text (map jsonLoop (f_loops f)))"
    "json (array_text (map nats_text (f_stronglyConnectedComponents f)))"
    "json (object_text [field ''block_live_register_count'' (nats_text (f_blockLiveRegisterCount f))])"
    by (auto intro!: json_map nats_json jsonLoop_json json_fields json_named simp: plain_simps)
  then show ?thesis unfolding jsonCfg_def by (intro json_fields) (simp add: json_parts plain_simps)
qed

lemma jsonFields_json:
  assumes "writable f"
  shows "list_all json_field (jsonFields f)"
proof -
  have "json (array_text (map jsonConstant (f_constantTable f)))" "json (array_text (map jsonInstruction (f_instructions f)))"
    using assms by (auto simp: writable_def list_all_iff intro!: json_map jsonConstant_json jsonInstruction_json)
  moreover have "json (array_text (map jsonLocal (f_debugLocals f)))" "json (array_text (map (\<lambda>u. quoted (esc u)) (f_upvalueNames f)))"
    "json (array_text (map (jsonBlock f) (f_basicBlocks f)))" "json (array_text (map jsonScope (f_scopes f)))"
    "json (array_text (map jsonPhi (f_phiNodes f)))"
    by (auto intro!: json_map jsonLocal_json esc_quoted_json jsonBlock_json jsonScope_json jsonPhi_json)
  moreover from this have "json (object_text [field ''instruction_def_versions'' (ints_text (f_instructionDefVersions f)),
       field ''phi_nodes'' (array_text (map jsonPhi (f_phiNodes f)))])"
    by (intro json_fields) (simp add: json_parts plain_simps)
  ultimately show ?thesis
    unfolding jsonFields_def by (simp add: json_parts jsonCfg_json jsonDataflow_json plain_simps)
qed

lemma jsonFn_json:
  "list_all writable (functionsOf f) \<Longrightarrow> json (jsonFn f)"
  "list_all writable (functionsOfAll fs) \<Longrightarrow> json (array_text (map jsonFn fs)) \<and> (\<forall>c\<in>set fs. json (jsonFn c))"
proof (induction f and fs rule: functionsOf_functionsOfAll.induct)
  case (1 f cs)
  have "json (array_text (map jsonFn cs))" using 1 by simp
  moreover have "list_all json_field (jsonFields f)" using 1(2) by (intro jsonFields_json) simp
  ultimately show ?case by (simp, intro json_fields) (simp add: json_named plain_simps)
next
  case 2
  have "json (array_text [])" by (rule json_array) simp
  then show ?case by simp
next
  case (3 c cs)
  then have "\<And>x. x \<in> set (c # cs) \<Longrightarrow> json (jsonFn x)" by auto
  then show ?case using json_map [of "c # cs" jsonFn] by blast
qed

lemma described_writable:
  assumes "describeFunction oob p k parent c = Some f"
  shows "writable f"
proof -
  have fields: "f_constantTable f = map (describeConstant p) [0..sizek p - 1]" "f_instructions f = finalCode oob p"
    by (rule describeFunction_total [of p oob k parent c], use assms in simp)+
  have hex: "plain (ci_stringBytesHex (describeConstant p i))" for i
  proof -
    have "plain []" by (simp add: plain_simps)
    then show ?thesis
      by (cases "cells (kconst p) ! nat i") (simp_all add: describeConstant_def described_def hexBytes_plain)
  qed
  have tags: "plain (i_semanticTag (finalCode oob p ! k))" if k: "k < length (finalCode oob p)" for k
  proof -
    have k': "k < length (decodeCode oob p)" using k by (simp add: finalCode_def versioned_def placedCode_def placed_code)
    have mem: "decodeCode oob p ! k \<in> set (decodeFrom oob p 0)" using nth_mem [OF k'] by (simp add: decodeCode_def)
    obtain l raw nxt pc where dec: "decodeCode oob p ! k = decodeInstruction (int (maxstacksize p)) l raw nxt pc"
      using decodeFrom_mem [OF mem] by blast
    then have "i_semanticTag (decodeCode oob p ! k) = tag (LUAU_INSN_OP raw)"
      by (simp add: decodeInstruction_def annotateInstruction_def Let_def split: prod.splits)
    moreover have "i_semanticTag (finalCode oob p ! k) = i_semanticTag (decodeCode oob p ! k)"
      using k k' same_code_tag [OF placed_code(2) [OF k']]
      by (simp add: finalCode_def versioned_def with_versions_def placedCode_def)
    ultimately show ?thesis using tag_plain [of "LUAU_INSN_OP raw"] by simp
  qed
  show ?thesis
    using hex tags by (auto simp: writable_def fields list_all_iff in_set_conv_nth)
qed

lemma describes_writable: "list_all2 (describes oob) qs fs \<Longrightarrow> list_all writable fs"
  by (induction rule: list_all2_induct) (auto simp: describes_def intro: described_writable)

lemma module_json:
  assumes "buildModule oob root = Some (Inr m)"
  shows "\<exists>t. toJson m = t @ newline \<and> json t"
proof -
  obtain t where t: "validateProto oob root 128 1000000 = Inr t"
    using assms by (auto simp: buildModule_def split: sum.splits)
  then obtain p where p: "root = Some p" using assms by (auto simp: buildModule_def split: option.splits)
  obtain f k where f: "list_all2 (describes oob) (prototypesOf 0 (Some p)) (functionsOf f)"
    "buildModule oob (Some p) =
      Some (if allLocalsOk (prototypesOf 0 (Some p)) then Inr (moduleOf p f) else Inl badLocals)"
    using buildModule_accepted [of oob p t] t p by blast
  have m: "m = moduleOf p f" using f(2) assms p by (auto split: if_splits)
  have "list_all writable (functionsOf f)"
    using f(1) by (rule describes_writable)
  then have "json (jsonFn f)" by (rule jsonFn_json(1))
  then have "json (object_text [field ''format'' (quoted (esc (m_format m))), field ''version'' (nat_text (m_version m)),
     field ''source'' (quoted (esc (m_source m))), field ''root_function'' (jsonFn (m_root m))])"
    by (intro json_fields) (simp add: json_parts plain_simps m moduleOf_def)
  then show ?thesis by (auto simp: toJson_def)
qed

end
