(* ===== verification/Restructure.thy ===== *)
theory Restructure
  imports IR_Text
begin

text \<open>
  \<^verbatim>\<open>byteveil_decompiler/Restructure.cpp\<close>: the structured plan of a module. For a block with two
  successors it names a join, the candidate of \<open>commonPostdom\<close>; \<open>commonPostdom_furthest\<close> shows which
  common post-dominator that is. \<^verbatim>\<open>std::sort\<close> leaves the order of candidates with post-dominator sets
  of one size open; the model keeps them ascending.
\<close>

section \<open>The plan\<close>

definition indent :: "nat \<Rightarrow> string" where
  "indent n = replicate (n * 2) CHR '' ''"

definition headersOf :: "function_ir \<Rightarrow> nat set" where
  "headersOf f = snd ` set (f_backEdges f)"

definition blockKind :: "function_ir \<Rightarrow> nat \<Rightarrow> nat set \<Rightarrow> string" where
  "blockKind f k headers =
    (let b = f_basicBlocks f ! k in
     if k = 0 then ''entry'' else if k \<in> headers then ''loop-header''
     else if b_successors b = [] then ''exit'' else if length (b_successors b) > 1 then ''conditional''
     else if length (b_predecessors b) > 1 then ''join'' else ''linear'')"

definition commonPostdom :: "nat set list \<Rightarrow> nat \<Rightarrow> nat \<Rightarrow> int" where
  "commonPostdom pd left right =
    (if left \<ge> length pd \<or> right \<ge> length pd then -1
     else case least_by (\<lambda>c. card (pd ! c)) (filter (\<lambda>c. c \<in> pd ! right) (sorted_list_of_set (pd ! left))) of
       None \<Rightarrow> -1 | Some c \<Rightarrow> int c)"

definition planLine :: "nat \<Rightarrow> string \<Rightarrow> string" where
  "planLine level s = indent level @ s @ newline"

definition planBranch :: "function_ir \<Rightarrow> nat \<Rightarrow> basic_block \<Rightarrow> string" where
  "planBranch f level b =
    (let s = b_successors b; joinBlock = commonPostdom (f_postDominators f) (s ! 0) (s ! 1) in
     planLine level (''    if <condition from block_'' @ nat_text (b_id b) @ ''> then'') @
     planLine level (''      -- true -> block_'' @ nat_text (s ! 0)) @
     planLine level ''    else'' @
     planLine level (''      -- false -> block_'' @ nat_text (s ! 1)) @
     planLine level (''    end'' @ (if joinBlock \<ge> 0 then '' -- join=block_'' @ int_text joinBlock else [])))"

definition planLoop :: "function_ir \<Rightarrow> nat \<Rightarrow> basic_block \<Rightarrow> string" where
  "planLoop f level b =
    planLine level ''    while true do -- natural loop header'' @
    concat (map (\<lambda>l. if l_header l = b_id b
      then planLine level (''      -- loop blocks: '' @ nat_text (length (l_blocks l))) else []) (f_loops f)) @
    planLine level ''    end''"

definition planFlow :: "function_ir \<Rightarrow> nat \<Rightarrow> basic_block \<Rightarrow> string" where
  "planFlow f level b =
    (if length (b_successors b) = 2 then planBranch f level b
     else if b_id b \<in> headersOf f then planLoop f level b
     else if b_successors b = [] then planLine level ''    return''
     else if length (b_successors b) = 1 then planLine level (''    goto block_'' @ nat_text (b_successors b ! 0))
     else planLine level ''    -- irreducible edge set; preserved as explicit CFG edges'')"

definition planInstruction :: "function_ir \<Rightarrow> nat \<Rightarrow> nat \<Rightarrow> string" where
  "planInstruction f level k =
    (if k \<ge> length (f_instructions f) then []
     else let i = f_instructions f ! k in
       planLine level (''    -- @'' @ nat_text (i_offset i) @ '' '' @ opcodeName (i_opcode i) @
         (if i_destinationRegister i \<ge> 0 then '' r'' @ int_text (i_destinationRegister i) @ '' <-'' else []) @
         (if i_hasSideEffects i then '' [side-effect]'' else if i_isPure i then '' [pure]'' else [])))"

definition planBlock :: "function_ir \<Rightarrow> nat \<Rightarrow> basic_block \<Rightarrow> string" where
  "planBlock f level b =
    planLine level (''  block_'' @ nat_text (b_id b) @ '' -- '' @ blockKind f (b_id b) (headersOf f) @
      (if b_id b < length (f_immediateDominators f)
       then '', idom=block_'' @ int_text (f_immediateDominators f ! b_id b) else [])) @
    planFlow f level b @ concat (map (planInstruction f level) (b_instructions b))"

primrec renderFunction :: "ir_function \<Rightarrow> nat \<Rightarrow> string" where
  "renderFunction (IRFunction f cs) = (\<lambda>level.
    planLine level (''function '' @ nat_text (f_id f) @ '' -- structured CFG plan'') @
    planLine level (''  -- blocks='' @ nat_text (length (f_basicBlocks f)) @ '', loops='' @ nat_text (length (f_loops f)) @
      '', sccs='' @ nat_text (length (f_stronglyConnectedComponents f)) @
      '', phis='' @ nat_text (length (f_phiNodes f))) @
    concat (map (planBlock f level) (f_basicBlocks f)) @
    concat (map (\<lambda>c. c level) (map renderFunction cs)))"

definition render :: "ir_module \<Rightarrow> string" where
  "render m =
    ''-- ByteVeil structured control-flow reconstruction'' @ newline @
    ''-- This output preserves unsafe regions explicitly; it is not executed.'' @ newline @
    renderFunction (m_root m) 0"

section \<open>The join of a branch\<close>

context cfg
begin

lemma postDominators_eq:
  assumes pd: "postDominators bs = Some pd" and b: "(0, b) \<in> (edges bs)\<^sup>*"
  shows "pd ! b = {a. (0, a) \<in> (edges bs)\<^sup>* \<and> postdominates bs a b}"
  using postDominators_correct [OF pd b] by blast

lemma commonPostdom_furthest:
  assumes pd: "postDominators bs = Some pd"
    and left: "(0, left) \<in> (edges bs)\<^sup>*" "reaches_exit bs left" and right: "(0, right) \<in> (edges bs)\<^sup>*"
    and c: "(0, c) \<in> (edges bs)\<^sup>*" "postdominates bs c left" "postdominates bs c right"
  shows "\<exists>d. commonPostdom pd left right = int d \<and> postdominates bs d left \<and> postdominates bs d right \<and>
    postdominates bs d c"
proof -
  have range: "left < length pd" "right < length pd"
    using path_range [OF left(1)] path_range [OF right] postDominators_length [OF pd] by simp_all
  have fin: "finite (pd ! b)" if "(0, b) \<in> (edges bs)\<^sup>*" for b
  proof (rule finite_subset)
    show "pd ! b \<subseteq> {..<length bs}" using path_range by (auto simp: postDominators_eq [OF pd that])
  qed simp
  let ?xs = "filter (\<lambda>c. c \<in> pd ! right) (sorted_list_of_set (pd ! left))"
  have mem: "x \<in> set ?xs \<longleftrightarrow> (0, x) \<in> (edges bs)\<^sup>* \<and> postdominates bs x left \<and> postdominates bs x right" for x
    using fin [OF left(1)] by (auto simp: postDominators_eq [OF pd] left right)
  have "c \<in> set ?xs" using c mem by blast
  then obtain d where d: "d \<in> set ?xs" "least_by (\<lambda>c. card (pd ! c)) ?xs = Some d"
    "\<forall>x\<in>set ?xs. card (pd ! d) \<le> card (pd ! x)"
    using least_by_min [of ?xs "\<lambda>c. card (pd ! c)"] by (metis empty_iff empty_set)
  have dm: "(0, d) \<in> (edges bs)\<^sup>*" "postdominates bs d left" "postdominates bs d right" using d(1) mem by blast+
  have "postdominates bs d c"
  proof (rule ccontr)
    assume no: "\<not> postdominates bs d c"
    then have cd: "postdominates bs c d" using postdominates_chain [OF c(2) dm(2) left(2)] by blast
    have "pd ! c \<subseteq> pd ! d"
      using postdominates_trans [OF _ cd] by (auto simp: postDominators_eq [OF pd c(1)] postDominators_eq [OF pd dm(1)])
    moreover have "d \<in> pd ! d" "d \<notin> pd ! c"
      using no postdominates_refl dm(1) by (simp_all add: postDominators_eq [OF pd c(1)] postDominators_eq [OF pd dm(1)])
    ultimately have "pd ! c \<subset> pd ! d" by blast
    then have "card (pd ! c) < card (pd ! d)" by (rule psubset_card_mono [OF fin [OF dm(1)]])
    then show False using d(3) \<open>c \<in> set ?xs\<close> by fastforce
  qed
  then show ?thesis using range d(2) dm by (simp add: commonPostdom_def)
qed

end

end
