(* ===== verification/Load_Inspect.thy ===== *)
theory Load_Inspect
  imports Roblox_Bytecode Restructure
begin

text \<open>
  \<^verbatim>\<open>loadBytecode\<close> and \<^verbatim>\<open>inspectBytecode\<close> (end of \<^verbatim>\<open>byteveil_decompiler/IR.cpp\<close>): every opcode decoding of
  the input is loaded until one gives a prototype whose module is built. \<^verbatim>\<open>luau_load\<close> of the vendored
  virtual machine is the parameter \<open>load\<close>, with what the code looks at of its outcome; the Lua
  stack, which the code puts back, is not part of the model. \<open>None\<close> is a run that does not return or
  follows a null pointer; \<open>inspect_returns\<close> shows that there is none.
\<close>

datatype load_outcome =
    LoadFailed "string option"  \<comment> \<open>the message on the stack, if it is a string\<close>
  | NoPrototype
  | LoadedProto lproto

fun tryVariants :: "u32 \<Rightarrow> (u8 list \<Rightarrow> load_outcome) \<Rightarrow> u8 list list \<Rightarrow> string \<Rightarrow> lproto res option" where
  "tryVariants oob load [] lastError =
    Some (Inl (if lastError = [] then ''bytecode failed structural validation'' else lastError))"
| "tryVariants oob load (v # vs) lastError =
    (case load v of
       LoadFailed msg \<Rightarrow>
         tryVariants oob load vs (case msg of Some t \<Rightarrow> t | None \<Rightarrow> ''bytecode loading failed'')
     | NoPrototype \<Rightarrow> tryVariants oob load vs ''loaded chunk has no Lua prototype''
     | LoadedProto p \<Rightarrow>
         (case buildModule oob (Some p) of None \<Rightarrow> None
          | Some (Inl e) \<Rightarrow> tryVariants oob load vs e
          | Some (Inr _) \<Rightarrow> Some (Inr p)))"

definition loadBytecode ::
  "u8 \<Rightarrow> u32 \<Rightarrow> (u8 list \<Rightarrow> load_outcome) \<Rightarrow> u8 list \<Rightarrow> lproto res option" where
  "loadBytecode oob8 oob load input =
    (case opcodeVariants oob8 [] input of Inl e \<Rightarrow> Some (Inl e)
     | Inr variants \<Rightarrow> tryVariants oob load variants [])"

definition showModule :: "string \<Rightarrow> ir_module \<Rightarrow> string res" where
  "showModule mode m =
    (if mode = ''json'' \<or> mode = ''ir'' then Inr (toJson m)
     else if mode = ''disassemble'' then Inr (disassemble m)
     else if mode = ''cfg'' then Inr (cfgDot m)
     else if mode = ''structured'' then Inr (render m)
     else if mode = ''constants'' then Inr (constantsText m)
     else if mode = ''prototypes'' then Inr (prototypesText m)
     else Inl (''unknown inspection mode: '' @ mode))"

definition inspectBytecode ::
  "u8 \<Rightarrow> u32 \<Rightarrow> (u8 list \<Rightarrow> load_outcome) \<Rightarrow> u8 list \<Rightarrow> string \<Rightarrow> string res option" where
  "inspectBytecode oob8 oob load input mode =
    (case loadBytecode oob8 oob load input of None \<Rightarrow> None
     | Some (Inl e) \<Rightarrow> Some (Inl e)
     | Some (Inr root) \<Rightarrow>
         (case buildModule oob (Some root) of None \<Rightarrow> None
          | Some (Inl e) \<Rightarrow> Some (Inl e)
          | Some (Inr m) \<Rightarrow> Some (showModule mode m)))"

section \<open>What loading leads to\<close>

lemma buildModule_returns: "buildModule oob (Some p) \<noteq> None"
proof (cases "validateProto oob (Some p) 128 1000000")
  case (Inr t)
  then show ?thesis using buildModule_accepted [OF Inr] by auto
qed (simp add: buildModule_def)

lemma buildModule_sound: "buildModule oob (Some p) = Some (Inr m) \<Longrightarrow> \<exists>t. validateProto oob (Some p) 128 1000000 = Inr t"
  by (auto simp: buildModule_def split: sum.splits)

lemma tryVariants_cases:
  "(\<exists>e. tryVariants oob load vs err = Some (Inl e)) \<or>
   (\<exists>p v m. tryVariants oob load vs err = Some (Inr p) \<and> v \<in> set vs \<and> load v = LoadedProto p \<and>
      buildModule oob (Some p) = Some (Inr m))"
proof (induction vs arbitrary: err)
  case Nil
  then show ?case by simp
next
  case (Cons v vs)
  show ?case
  proof (cases "load v")
    case (LoadedProto p)
    obtain r where r: "buildModule oob (Some p) = Some r" using buildModule_returns by blast
    show ?thesis
    proof (cases r)
      case (Inl e)
      then show ?thesis using Cons.IH [of e] LoadedProto r by auto
    next
      case (Inr m)
      then show ?thesis using LoadedProto r by auto
    qed
  next
    case (LoadFailed msg)
    then show ?thesis using Cons.IH [of "case msg of Some t \<Rightarrow> t | None \<Rightarrow> ''bytecode loading failed''"] by auto
  next
    case NoPrototype
    then show ?thesis using Cons.IH [of "''loaded chunk has no Lua prototype''"] by auto
  qed
qed

lemma loadBytecode_cases:
  "(\<exists>e. loadBytecode oob8 oob load input = Some (Inl e)) \<or>
   (\<exists>p v vs m. loadBytecode oob8 oob load input = Some (Inr p) \<and> opcodeVariants oob8 [] input = Inr vs \<and> v \<in> set vs \<and>
      load v = LoadedProto p \<and> buildModule oob (Some p) = Some (Inr m))"
  unfolding loadBytecode_def using tryVariants_cases [of oob load _ "[]"]
  by (cases "opcodeVariants oob8 [] input") (simp, fastforce)

lemma inspect_cases:
  "(\<exists>e. inspectBytecode oob8 oob load input mode = Some (Inl e)) \<or>
   (\<exists>p v vs m. opcodeVariants oob8 [] input = Inr vs \<and> v \<in> set vs \<and> load v = LoadedProto p \<and>
      buildModule oob (Some p) = Some (Inr m) \<and> inspectBytecode oob8 oob load input mode = Some (showModule mode m))"
  unfolding inspectBytecode_def using loadBytecode_cases [of oob8 oob load input] by fastforce

end
