(* ===== verification/Static_Reports.thy ===== *)
theory Static_Reports
  imports MoonSec_Extract
begin

text \<open>
  The two reports on source text beside the MoonSec adapter: \<^verbatim>\<open>byteveil_decompiler/Protectors.cpp\<close>,
  which looks for markers, and \<^verbatim>\<open>byteveil_decompiler/Unpack.cpp\<close>, which collects the literal arguments
  of \<^verbatim>\<open>loadstring\<close>. The first is well-formed JSON for every input (\<open>protectors_json\<close>), the second for
  ASCII input (\<open>unpack_json\<close>).
\<close>

section \<open>Protectors\<close>

definition protectorEsc :: "string \<Rightarrow> string" where
  "protectorEsc s = concat (map (\<lambda>c. if c = CHR 0x22 \<or> c = CHR 0x5C then [CHR 0x5C, c] else [c]) s)"

definition familyText :: "string \<Rightarrow> string \<Rightarrow> string \<Rightarrow> string" where
  "familyText name conf reason = object_text
    [field ''name'' (quoted name), field ''confidence'' (quoted conf), field ''evidence'' (quoted (protectorEsc reason))]"

definition families :: "string \<Rightarrow> string list" where
  "families s =
    (let moon = contains ''MoonSec'' s \<or> contains ''moonsec'' s \<or> contains ''MoonSecV3'' s;
         luraph = contains ''Luraph'' s \<or> contains ''LuraphScript'' s;
         loader = contains ''loadstring'' s \<or> contains ''string.dump'' s \<or> contains ''getfenv'' s \<or>
           contains ''setfenv'' s \<or> contains ''load('' s;
         roblox = contains ''HttpGet'' s \<or> contains ''request'' s \<or> contains ''writefile'' s \<or> contains ''getgenv'' s;
         vm = contains ''while true do'' s \<and>
           (contains ''local function'' s \<or> contains ''dispatch'' s \<or> contains ''opcode'' s);
         encoded = length s > 4096 \<and> contains ([CHR 0x5C] @ ''255'') s
     in (if moon then [familyText ''MoonSec V3'' ''high'' ''MoonSec marker visible''] else []) @
        (if luraph then [familyText ''Luraph'' ''high'' ''Luraph marker visible''] else []) @
        (if loader then [familyText ''dynamic-loader'' ''medium'' ''dynamic loader primitives visible''] else []) @
        (if roblox then [familyText ''Roblox/executor-api'' ''medium'' ''executor or network names visible''] else []) @
        (if vm then [familyText ''virtual-machine-pattern'' ''low'' ''dispatcher-like loop pattern''] else []) @
        (if encoded then [familyText ''encoded-blob'' ''low'' ''large escaped binary-looking string''] else []))"

definition protectorsRecommendation :: string where
  "protectorsRecommendation =
    ''detector-only; use a family-specific unpacker only when independently validated''"

definition protectors_analyze :: "string \<Rightarrow> string" where
  "protectors_analyze s = object_text
    [field ''format'' (quoted ''protector-analysis''), field ''static_only'' ''true'',
     field ''families'' (array_text (families s)), field ''recommendation'' (quoted protectorsRecommendation)] @ newline"

section \<open>Unpack\<close>

definition unpackEsc :: "string \<Rightarrow> string" where
  "unpackEsc s = concat (map (\<lambda>c.
    (if c = CHR 0x22 \<or> c = CHR 0x5C then [CHR 0x5C] else []) @
    (if c = CHR 0x0A then [CHR 0x5C, CHR ''n''] else if c = CHR 0x0D then [CHR 0x5C, CHR ''r'']
     else if byte c < 32 then ''?'' else [c])) s)"

text \<open>The scan of one literal behind its opening quote: its text, whether it is closed, and the rest.\<close>

fun scanLiteral :: "char \<Rightarrow> string \<Rightarrow> string \<times> bool \<times> string" where
  "scanLiteral q [] = ([], False, [])"
| "scanLiteral q [c] = (if c = q then ([], True, []) else ([c], False, []))"
| "scanLiteral q (c # n # s) =
    (if c = q then ([], True, n # s)
     else if c = CHR 0x5C then
       (let (x, ok, r) = scanLiteral q s in
        ((if n = CHR ''n'' then CHR 0x0A else if n = CHR ''r'' then CHR 0x0D else n) # x, ok, r))
     else (let (x, ok, r) = scanLiteral q (n # s) in (c # x, ok, r)))"

lemma scanLiteral_shorter: "length (snd (snd (scanLiteral q s))) \<le> length s"
  by (induction q s rule: scanLiteral.induct) (auto split: prod.splits)

lemma after_sub_suffix: "after_sub pat s = Some r \<Longrightarrow> \<exists>pre. s = pre @ pat @ r"
proof (induction pat s rule: after_sub.induct)
  case (1 pat)
  then show ?case by (auto split: if_splits)
next
  case (2 pat c s)
  show ?case
  proof (cases "starts_with pat (c # s)")
    case True
    then have "c # s = pat @ r" using 2(2) append_take_drop_id [of "length pat" "c # s"]
      by (simp add: starts_with_def)
    then show ?thesis by (intro exI [of _ "[]"]) simp
  next
    case False
    then obtain pre where "s = pre @ pat @ r" using 2 by auto
    then show ?thesis by (intro exI [of _ "c # pre"]) simp
  qed
qed

definition isQuote :: "char \<Rightarrow> bool" where
  "isQuote c \<longleftrightarrow> c = CHR 0x22 \<or> c = CHR 0x27"

function loadstringPayloads :: "string \<Rightarrow> string list" where
  "loadstringPayloads s =
    (case after_sub ''loadstring'' s of None \<Rightarrow> []
     | Some r \<Rightarrow>
       (case dropWhile (\<lambda>c. \<not> isQuote c) r of [] \<Rightarrow> []
        | q # t \<Rightarrow> (let (x, ok, rest) = scanLiteral q t in
            (if ok \<and> x \<noteq> [] then [x] else []) @ loadstringPayloads rest)))"
  by pat_completeness auto
termination
proof (relation "measure length", goal_cases)
  case (2 s r q t y x z ok rest)
  have "length rest \<le> length t" using scanLiteral_shorter [of q t] 2(3-5) by (metis snd_conv)
  moreover have "length (q # t) \<le> length r" using 2(2) length_dropWhile_le [of "\<lambda>c. \<not> isQuote c" r] by simp
  moreover have "length r \<le> length s" using after_sub_suffix [OF 2(1)] by auto
  ultimately show ?case by simp
qed simp

declare loadstringPayloads.simps [simp del]

definition unpackFamily :: "string \<Rightarrow> string" where
  "unpackFamily s =
    (if contains ''MoonSec'' s \<or> contains ''moonsec'' s then ''MoonSec V3''
     else if contains ''Luraph'' s \<or> contains ''LuraphScript'' s then ''Luraph'' else ''generic-loader'')"

definition unpackNote :: string where
  "unpackNote = ''Family adapters extract only literal payloads and never execute loaders or virtual machines.''"

definition unpackReport :: "string \<Rightarrow> string" where
  "unpackReport s =
    (let payloads = loadstringPayloads s in object_text
     [field ''format'' (quoted ''unpack-analysis''), field ''family'' (quoted (unpackFamily s)),
      field ''executed'' ''false'',
      field ''payloads'' (array_text (map (\<lambda>x. object_text
        [field ''kind'' (quoted ''literal-loadstring''), field ''bytes'' (nat_text (length x)),
         field ''source'' (quoted (unpackEsc x))]) payloads)),
      field ''status'' (quoted (if payloads = [] then ''no-literal-payload'' else ''literal-payload-extracted'')),
      field ''note'' (quoted unpackNote)] @ newline)"

definition extractedStatus :: string where
  "extractedStatus = quoted ''status'' @ '':'' @ quoted ''serialized-bytecode-extracted''"

definition unpack_inspect :: "string \<Rightarrow> string" where
  "unpack_inspect s =
    (if unpackFamily s = ''MoonSec V3'' \<and> contains extractedStatus (inspect s) then inspect s
     else unpackReport s)"

section \<open>The reports are JSON\<close>

lemma json_true: "json ''true''" and json_false: "json ''false''"
  using json_bool [of True] json_bool [of False] by (simp_all add: bool_text_def)

lemma familyText_json: "plain name \<Longrightarrow> plain conf \<Longrightarrow> plain (protectorEsc reason) \<Longrightarrow> json (familyText name conf reason)"
  unfolding familyText_def by (intro json_fields) (simp add: json_named json_quoted_plain plain_simps)

lemma families_json: "x \<in> set (families s) \<Longrightarrow> json x"
  unfolding families_def Let_def
  by (auto simp: plain_simps protectorEsc_def intro!: familyText_json split: if_splits)

lemma reportI: "json x \<Longrightarrow> \<exists>t. x @ newline = t @ newline \<and> json t"
  by blast

lemma protectors_json: "\<exists>t. protectors_analyze s = t @ newline \<and> json t"
proof -
  have parts: "json (array_text (families s))" "plain protectorsRecommendation"
    by (rule json_array, erule families_json) (simp add: protectorsRecommendation_def plain_simps)
  show ?thesis unfolding protectors_analyze_def
    by (rule reportI, rule json_fields) (simp add: parts json_named json_quoted_plain json_true plain_simps)
qed

definition ascii :: "string \<Rightarrow> bool" where
  "ascii s \<longleftrightarrow> list_all (\<lambda>c. byte c < 0x80) s"

lemma unpackEsc_one:
  "unpackEsc [CHR 0x22] = [CHR 0x5C, CHR 0x22]" "unpackEsc [CHR 0x5C] = [CHR 0x5C, CHR 0x5C]"
  "unpackEsc [CHR 0x0A] = [CHR 0x5C, CHR ''n'']" "unpackEsc [CHR 0x0D] = [CHR 0x5C, CHR ''r'']"
  by (simp_all add: unpackEsc_def)

lemma unpackEsc_body: "ascii s \<Longrightarrow> json_body (unpackEsc s)"
proof (induction s)
  case Nil
  then show ?case by (simp add: unpackEsc_def json_empty)
next
  case (Cons c s)
  have IH: "json_body (unpackEsc s)" and c: "byte c < 0x80" using Cons by (simp_all add: ascii_def)
  have eq: "unpackEsc (c # s) = unpackEsc [c] @ unpackEsc s" by (simp add: unpackEsc_def)
  consider "c = CHR 0x22" | "c = CHR 0x5C" | "c = CHR 0x0A" | "c = CHR 0x0D"
    | (ctrl) "byte c < 32" "c \<notin> {CHR 0x22, CHR 0x5C, CHR 0x0A, CHR 0x0D}"
    | (rest) "32 \<le> byte c" "c \<noteq> CHR 0x22" "c \<noteq> CHR 0x5C" "c \<noteq> CHR 0x0A" "c \<noteq> CHR 0x0D"
    by fastforce
  then show ?case
  proof cases
    case ctrl
    then have "unpackEsc [c] = [CHR ''?'']" by (simp add: unpackEsc_def)
    then show ?thesis unfolding eq using json_ascii [OF _ _ _ _ IH, of "CHR ''?''"] by simp
  next
    case rest
    then have "unpackEsc [c] = [c]" by (simp add: unpackEsc_def)
    then show ?thesis unfolding eq using json_ascii [OF _ _ _ _ IH, of c] rest c by simp
  qed (use json_short [OF _ IH] eq in \<open>simp_all add: unpackEsc_one\<close>)
qed

text \<open>The characters of a reported literal come from the source, up to the two line escapes.\<close>

lemma scanLiteral_ascii: "ascii s \<Longrightarrow> scanLiteral q s = (x, ok, r) \<Longrightarrow> ascii x \<and> ascii r"
  by (induction q s arbitrary: x ok r rule: scanLiteral.induct) (auto simp: ascii_def split: if_splits prod.splits)

lemma ascii_suffix: "ascii (pre @ s) \<Longrightarrow> ascii s"
  by (simp add: ascii_def)

lemma dropWhile_suffix: "\<exists>pre. s = pre @ dropWhile P s"
  by (metis takeWhile_dropWhile_id)

lemma payloads_ascii: "ascii s \<Longrightarrow> x \<in> set (loadstringPayloads s) \<Longrightarrow> ascii x"
proof (induction s rule: loadstringPayloads.induct)
  case (1 s)
  obtain r where r: "after_sub ''loadstring'' s = Some r"
    using that 1(3) by (cases "after_sub ''loadstring'' s") (simp_all add: loadstringPayloads.simps [of s])
  obtain q t where qt: "dropWhile (\<lambda>c. \<not> isQuote c) r = q # t"
    using that 1(3) r
    by (cases "dropWhile (\<lambda>c. \<not> isQuote c) r") (simp_all add: loadstringPayloads.simps [of s])
  obtain y ok rest where scan: "scanLiteral q t = (y, ok, rest)" by (cases "scanLiteral q t") auto
  have "ascii r" using after_sub_suffix [OF r] 1(2) ascii_suffix by (metis append.assoc)
  then have "ascii t" using dropWhile_suffix [of r "\<lambda>c. \<not> isQuote c"] unfolding qt by (auto simp: ascii_def)
  then have "ascii y" "ascii rest" using scanLiteral_ascii [OF _ scan] by blast+
  moreover have "x \<in> set ((if ok \<and> y \<noteq> [] then [y] else []) @ loadstringPayloads rest)"
    using 1(3) by (simp add: loadstringPayloads.simps [of s] r qt scan)
  ultimately show ?case using 1(1) [OF r qt scan [symmetric] refl refl] by (auto split: if_splits)
qed

lemma unpack_json:
  assumes "ascii s"
  shows "\<exists>t. unpackReport s = t @ newline \<and> json t"
proof -
  have one: "json (object_text [field ''kind'' (quoted ''literal-loadstring''), field ''bytes'' (nat_text (length x)),
      field ''source'' (quoted (unpackEsc x))])" if "x \<in> set (loadstringPayloads s)" for x
    using unpackEsc_body [OF payloads_ascii [OF assms that]]
    by (intro json_fields) (simp add: json_named json_nat json_string json_quoted_plain plain_simps)
  have list: "json (array_text (map (\<lambda>x. object_text
      [field ''kind'' (quoted ''literal-loadstring''), field ''bytes'' (nat_text (length x)),
       field ''source'' (quoted (unpackEsc x))]) (loadstringPayloads s)))"
    by (rule json_map) (rule one)
  have texts: "plain unpackNote" "plain (unpackFamily s)" by (simp_all add: unpackNote_def unpackFamily_def plain_simps)
  show ?thesis unfolding unpackReport_def Let_def
    by (rule reportI, rule json_fields)
      (simp add: list texts json_named json_quoted_plain json_false plain_simps)
qed

end
