(* ===== verification/Command_Line.thy ===== *)
theory Command_Line
  imports Load_Inspect Static_Reports
begin

text \<open>
  \<^verbatim>\<open>byteveil_cli.cpp\<close>: the options, the indicators of \<^verbatim>\<open>--analyze\<close> and the dispatch of \<^verbatim>\<open>main\<close> as a
  function of its arguments and its surroundings. The surroundings are a record: reading and
  writing files, the vendored compiler and loader, the lifter behind \<^verbatim>\<open>decompile\<close>, whose watchdog makes
  running out of time an outcome, and the Lua 5.1 component, for which \<open>Lua51_Inspect\<close> puts its model. What \<^verbatim>\<open>main\<close> does is an exit code and the outputs in
  order. The address-space limit is not modelled.
\<close>

section \<open>Options\<close>

record cli_options =
  o_input :: string
  o_output :: string
  o_format :: string
  o_cfg :: string
  o_analyze :: bool
  o_compileSource :: bool
  o_quiet :: bool
  o_noColor :: bool
  o_timeoutSec :: nat

definition defaultOptions :: cli_options where
  "defaultOptions = \<lparr>o_input = [], o_output = [], o_format = ''lua'', o_cfg = [], o_analyze = False,
     o_compileSource = True, o_quiet = False, o_noColor = False, o_timeoutSec = 20\<rparr>"

text \<open>\<^verbatim>\<open>std::strtoul\<close> to the base 10 with a 64-bit \<^verbatim>\<open>unsigned long\<close>: the number and what is not read.\<close>

definition spaceChar :: "char \<Rightarrow> bool" where
  "spaceChar c \<longleftrightarrow> byte c = 32 \<or> (9 \<le> byte c \<and> byte c \<le> 13)"

definition digitChar :: "char \<Rightarrow> bool" where
  "digitChar c \<longleftrightarrow> 48 \<le> byte c \<and> byte c \<le> 57"

definition strtoul :: "string \<Rightarrow> nat \<times> string" where
  "strtoul s =
    (let t = dropWhile spaceChar s;
         negative = (t \<noteq> [] \<and> hd t = CHR ''-'');
         u = (if t \<noteq> [] \<and> (hd t = CHR ''-'' \<or> hd t = CHR ''+'') then tl t else t);
         ds = takeWhile digitChar u;
         m = fold (\<lambda>c n. n * 10 + (byte c - 48)) ds 0
     in if ds = [] then (0, s)
        else (if m \<ge> 2 ^ 64 then 2 ^ 64 - 1 else if negative then (2 ^ 64 - m) mod 2 ^ 64 else m,
              dropWhile digitChar u))"

definition knownFormats :: "string list" where
  "knownFormats = [''lua'', ''luau'', ''json'', ''ir'', ''disassemble'', ''cfg'', ''structured'', ''constants'',
     ''prototypes'', ''protectors'', ''unpack'', ''moonsec'', ''moonsec-ir'', ''moonsec-bytecode'']"

datatype parse_outcome = Accepted cli_options | Rejected | ShowHelp | ShowVersion

text \<open>The options without a value; \<open>None\<close> is any other argument.\<close>

definition flagOption :: "string \<Rightarrow> cli_options \<Rightarrow> cli_options option" where
  "flagOption a opts =
    (if a = ''--disassemble'' then Some (opts\<lparr>o_format := ''disassemble''\<rparr>)
     else if a = ''--dump-constants'' then Some (opts\<lparr>o_format := ''constants''\<rparr>)
     else if a = ''--dump-prototypes'' then Some (opts\<lparr>o_format := ''prototypes''\<rparr>)
     else if a = ''--analyze'' then Some (opts\<lparr>o_analyze := True\<rparr>)
     else if a = ''--bytecode'' then Some (opts\<lparr>o_compileSource := False\<rparr>)
     else if a = ''--source'' then Some (opts\<lparr>o_compileSource := True\<rparr>)
     else if a = ''--no-color'' then Some (opts\<lparr>o_noColor := True\<rparr>)
     else if a = ''-q'' \<or> a = ''--quiet'' then Some (opts\<lparr>o_quiet := True\<rparr>)
     else None)"

definition valueOption :: "string \<Rightarrow> string \<Rightarrow> cli_options \<Rightarrow> cli_options option" where
  "valueOption a v opts =
    (if a = ''--cfg'' then Some (opts\<lparr>o_cfg := v, o_format := ''cfg''\<rparr>)
     else if a = ''--format'' then (if v \<in> set knownFormats then Some (opts\<lparr>o_format := v\<rparr>) else None)
     else if a = ''--timeout'' then
       (let (n, rest) = strtoul v in if rest \<noteq> [] \<or> n > 86400 then None else Some (opts\<lparr>o_timeoutSec := n\<rparr>))
     else Some (opts\<lparr>o_output := v\<rparr>))"

fun parseArgs :: "string list \<Rightarrow> cli_options \<Rightarrow> parse_outcome" where
  "parseArgs [] opts = (if o_input opts = [] then Rejected else Accepted opts)"
| "parseArgs (a # as) opts =
    (if a = ''-h'' \<or> a = ''--help'' then ShowHelp
     else if a = ''--version'' then ShowVersion
     else if a \<in> {''-o'', ''--output'', ''--cfg'', ''--format'', ''--timeout''} then
       (case as of [] \<Rightarrow> Rejected
        | v # bs \<Rightarrow> (case valueOption a v opts of None \<Rightarrow> Rejected | Some opts' \<Rightarrow> parseArgs bs opts'))
     else case flagOption a opts of Some opts' \<Rightarrow> parseArgs as opts'
       | None \<Rightarrow> if o_input opts = [] then parseArgs as (opts\<lparr>o_input := a\<rparr>) else Rejected)"

section \<open>Indicators\<close>

definition indicator :: "string \<Rightarrow> bool \<Rightarrow> string \<Rightarrow> string" where
  "indicator name present evidence =
    name @ '': '' @ (if present then ''yes'' else ''no'') @ newline @
    (if present then ''  evidence: '' @ evidence @ newline else [])"

text \<open>The count of quotes: the quote that is open, if any, and how many were opened.\<close>

definition quoteStep :: "char \<Rightarrow> char option \<times> nat \<Rightarrow> char option \<times> nat" where
  "quoteStep c s =
    (case fst s of None \<Rightarrow> if isQuote c then (Some c, snd s + 1) else s
     | Some q \<Rightarrow> if c = q then (None, snd s) else s)"

definition quotedStrings :: "string \<Rightarrow> nat" where
  "quotedStrings s = snd (fold quoteStep s (None, 0))"

definition analyzeText :: "string \<Rightarrow> bool \<Rightarrow> string" where
  "analyzeText s binary =
    ''format: '' @ (if binary then ''Luau bytecode'' else ''Lua/Luau source'') @ newline @
    ''bytes: '' @ nat_text (length s) @ newline @ ''quoted_strings: '' @ nat_text (quotedStrings s) @ newline @
    indicator ''moonsec_marker'' (contains ''MoonSec'' s) ''MoonSec'' @
    indicator ''dynamic_loader_markers'' (contains ''getfenv'' s \<or> contains ''_ENV'' s \<or> contains ''setfenv'' s \<or>
      contains ''loadstring'' s \<or> contains ''load('' s) ''load/getfenv/_ENV'' @
    indicator ''network_or_executor_names_visible'' (contains ''HttpGet'' s \<or> contains ''request'' s \<or>
      contains ''writefile'' s) ''HttpGet/request/writefile'' @
    indicator ''long_encoded_strings'' (length s \<ge> 512 \<and> quotedStrings s \<ge> 8)
      ''large input with many quoted strings'' @
    ''confidence: '' @ (if contains ''MoonSec'' s \<or> contains ''loadstring'' s \<or> contains ''HttpGet'' s
      then ''medium'' else ''low'') @ newline"

section \<open>The dispatch\<close>

datatype decompile_outcome = Returned string | Threw string | ThrewUnknown | TimedOut

record surroundings =
  e_read :: "string \<Rightarrow> string option"
  e_write :: "string \<Rightarrow> string \<Rightarrow> bool"
  e_compile :: "string \<Rightarrow> string"
  e_newState :: bool
  e_load :: "u8 list \<Rightarrow> load_outcome"
  e_decompile :: "string \<Rightarrow> nat \<Rightarrow> decompile_outcome"
  e_lua51 :: "string \<Rightarrow> string \<Rightarrow> string res"
  e_oob8 :: u8
  e_oob :: u32

datatype effect = Out string | Err string | Written string string

type_synonym run = "int \<times> effect list"

definition errorLine :: "string \<Rightarrow> effect" where
  "errorLine s = Err (''error: '' @ s @ newline)"

definition cannotWrite :: "string \<Rightarrow> effect" where
  "cannotWrite path = errorLine (''cannot write '' @ path)"

definition bytes_of :: "string \<Rightarrow> u8 list" where
  "bytes_of s = map (\<lambda>c. of_nat (byte c)) s"

definition isChunk :: "string \<Rightarrow> bool" where
  "isChunk s \<longleftrightarrow> length s \<ge> 4 \<and> take 4 s = [CHR 0x1B, CHR ''L'', CHR ''u'', CHR ''a'']"

definition withNewline :: "string \<Rightarrow> string" where
  "withNewline s = (if s = [] \<or> last s = CHR 0x0A then s else s @ newline)"

text \<open>A static report goes to the output file or to standard output.\<close>

definition deliver :: "surroundings \<Rightarrow> cli_options \<Rightarrow> string \<Rightarrow> run" where
  "deliver env opts report =
    (if o_output opts = [] then (0, [Out report])
     else if e_write env (o_output opts) report then (0, [Written (o_output opts) report])
     else (1, [cannotWrite (o_output opts)]))"

definition extractRun :: "surroundings \<Rightarrow> cli_options \<Rightarrow> string \<Rightarrow> run" where
  "extractRun env opts input =
    (if o_output opts = [] then
       (2, [errorLine ''--format moonsec-bytecode requires -o/--output for the binary serialized prototype''])
     else case moonsec_extract input of Inl e \<Rightarrow> (1, [errorLine e])
       | Inr p \<Rightarrow>
         (let bytes = map (\<lambda>b. char_of (unat b)) (pl_bytes p) in
          if \<not> e_write env (o_output opts) bytes then (1, [cannotWrite (o_output opts)])
          else (0, Written (o_output opts) bytes #
            (if o_quiet opts then [] else [Err (''wrote '' @ o_output opts @ '' ('' @ nat_text (length bytes) @
              '' bytes; MoonSec virtual opcode mapping has not been applied)'' @ newline)]))))"

text \<open>Writing a result: the graph file first when \<open>toCfg\<close>, then standard output or the output file.\<close>

definition finish :: "surroundings \<Rightarrow> cli_options \<Rightarrow> bool \<Rightarrow> string \<Rightarrow> string \<Rightarrow> string \<Rightarrow> run" where
  "finish env opts toCfg graph printed written =
    (if toCfg \<and> \<not> e_write env (o_cfg opts) graph then (1, [cannotWrite (o_cfg opts)])
     else let first = (if toCfg then [Written (o_cfg opts) graph] else []) in
       if o_output opts = [] then (0, first @ [Out printed])
       else if \<not> e_write env (o_output opts) written then (1, first @ [cannotWrite (o_output opts)])
       else (0, first @ Written (o_output opts) written #
         (if o_quiet opts then [] else [Err (''wrote '' @ o_output opts @ newline)])))"

definition cfgRequested :: "cli_options \<Rightarrow> bool" where
  "cfgRequested opts \<longleftrightarrow> o_cfg opts \<noteq> [] \<and> o_format opts = ''cfg''"

definition lua51Run :: "surroundings \<Rightarrow> cli_options \<Rightarrow> string \<Rightarrow> run" where
  "lua51Run env opts input =
    (case e_lua51 env input (if o_format opts = ''luau'' then ''lua'' else o_format opts) of
       Inl e \<Rightarrow> (1, [errorLine e])
     | Inr r \<Rightarrow> if r = [] then (1, [errorLine []])
         else finish env opts (cfgRequested opts) r (withNewline r) r)"

definition luauRun :: "surroundings \<Rightarrow> cli_options \<Rightarrow> string \<Rightarrow> run option" where
  "luauRun env opts bc =
    (if \<not> e_newState env then Some (1, [errorLine ''cannot create Luau state''])
     else if o_format opts \<noteq> ''lua'' \<and> o_format opts \<noteq> ''luau'' then
       (case inspectBytecode (e_oob8 env) (e_oob env) (e_load env) (bytes_of bc) (o_format opts) of
          None \<Rightarrow> None
        | Some (Inl e) \<Rightarrow> Some (1, [errorLine e])
        | Some (Inr r) \<Rightarrow> Some (if r = [] then (1, [errorLine []])
            else finish env opts (cfgRequested opts) r (withNewline r) (withNewline r)))
     else (case e_decompile env bc (o_timeoutSec opts) of
          TimedOut \<Rightarrow> Some (124, [Err (''error: decompiler exceeded '' @ nat_text (o_timeoutSec opts) @
            ''s timeout (bytecode shape likely defeats this lifter'' @ [CHR 0x27] @
            ''s assumptions; raise with --timeout or use --format protectors/unpack instead)'' @ newline)])
        | Threw e \<Rightarrow> Some (1, [errorLine (''decompiler exception: '' @ e)])
        | ThrewUnknown \<Rightarrow> Some (1, [errorLine ''decompiler exception: unknown failure''])
        | Returned r \<Rightarrow> Some (if r = [] then (1, [errorLine ''decompiler returned no output''])
            else if starts_with ''error:'' r then (1, [errorLine r])
            else finish env opts False r (withNewline r) (withNewline r))))"

text \<open>\<^verbatim>\<open>main\<close> after the options are parsed and the input is read.\<close>

definition dispatch :: "surroundings \<Rightarrow> cli_options \<Rightarrow> string \<Rightarrow> run option" where
  "dispatch env opts input =
    (let lua51 = isChunk input; binary = (\<not> o_compileSource opts \<or> isChunk input \<or> isBytecode (bytes_of input)) in
     if o_analyze opts then Some (0, [Out (analyzeText input binary)])
     else if o_format opts = ''protectors'' then Some (deliver env opts (protectors_analyze input))
     else if o_format opts = ''unpack'' then Some (deliver env opts (unpack_inspect input))
     else if o_format opts = ''moonsec'' then Some (deliver env opts (inspect input))
     else if o_format opts = ''moonsec-ir'' then Some (deliver env opts (inspectVirtualIR input))
     else if o_format opts = ''moonsec-bytecode'' then Some (extractRun env opts input)
     else if lua51 then Some (lua51Run env opts input)
     else if binary then luauRun env opts input
     else if e_compile env input = [] then Some (1, [errorLine (''source compilation failed: '' @ o_input opts)])
     else luauRun env opts (e_compile env input))"

definition usageLines :: "string \<Rightarrow> string list" where
  "usageLines name =
    [''ByteVeil - Luau bytecode decompiler and safe static analyzer'', [], ''Usage: '' @ name @ '' <input> [options]'', [],
     ''Options:'',
     ''  -o, --output FILE       Write output to FILE'',
     ''  --format lua|luau|json|ir|structured|protectors|unpack|moonsec|moonsec-ir|moonsec-bytecode Output format (default: lua)'',
     ''  --disassemble           Print deterministic low-level disassembly'',
     ''  --dump-constants        Print constant table summary'',
     ''  --dump-prototypes       Print prototype summary'',
     ''  --cfg FILE              Write root CFG as Graphviz DOT'',
     ''  --analyze               Print static indicators; never executes input'',
     ''  --bytecode              Treat input as precompiled bytecode'',
     ''  --source                Treat input as Luau source (default)'',
     ''  --no-color              Disable colored diagnostics'',
     ''  --timeout SECONDS       Abort decompile after SECONDS wall-clock (default: 20, 0 = no limit)'',
     ''  -q, --quiet             Suppress informational messages'',
     ''  --version               Show version'',
     ''  -h, --help              Show this help'']"

definition usage :: "string \<Rightarrow> string" where
  "usage name = concat (map (\<lambda>l. l @ newline) (usageLines name))"

definition runMain :: "surroundings \<Rightarrow> string \<Rightarrow> string list \<Rightarrow> run option" where
  "runMain env name args =
    (if args = [] then Some (0, [Out (usage name)])
     else case parseArgs args defaultOptions of
       ShowHelp \<Rightarrow> Some (0, [Out (usage name)])
     | ShowVersion \<Rightarrow> Some (0, [Out (''ByteVeil 0.5.0'' @ newline)])
     | Rejected \<Rightarrow> Some (2, [Out (usage name)])
     | Accepted opts \<Rightarrow>
         (case e_read env (o_input opts) of
            None \<Rightarrow> Some (1, [errorLine (''cannot read '' @ o_input opts)])
          | Some input \<Rightarrow> dispatch env opts input))"

section \<open>What the options accept\<close>

definition optionsOk :: "cli_options \<Rightarrow> bool" where
  "optionsOk opts \<longleftrightarrow> o_format opts \<in> set knownFormats \<and> o_timeoutSec opts \<le> 86400"

lemma known: "''lua'' \<in> set knownFormats" "''disassemble'' \<in> set knownFormats" "''constants'' \<in> set knownFormats"
  "''prototypes'' \<in> set knownFormats" "''cfg'' \<in> set knownFormats"
  by code_simp+

lemma default_ok: "optionsOk defaultOptions"
  by (simp add: optionsOk_def defaultOptions_def known)

lemma if_SomeE: "(if b then Some x else r) = Some y \<Longrightarrow> P x \<Longrightarrow> (r = Some y \<Longrightarrow> P y) \<Longrightarrow> P y"
  by (cases b) auto

lemma flagOption_ok:
  assumes "flagOption a opts = Some opts'" "optionsOk opts"
  shows "optionsOk opts'"
proof -
  have upd: "optionsOk (opts\<lparr>o_format := ''disassemble''\<rparr>)" "optionsOk (opts\<lparr>o_format := ''constants''\<rparr>)"
    "optionsOk (opts\<lparr>o_format := ''prototypes''\<rparr>)" "optionsOk (opts\<lparr>o_analyze := b\<rparr>)"
    "optionsOk (opts\<lparr>o_compileSource := b\<rparr>)" "optionsOk (opts\<lparr>o_noColor := b\<rparr>)" "optionsOk (opts\<lparr>o_quiet := b\<rparr>)" for b
    using assms(2) by (simp_all add: optionsOk_def known)
  show ?thesis
    using assms(1) unfolding flagOption_def by (elim if_SomeE) (simp_all only: upd option.distinct)
qed

lemma valueOption_ok:
  assumes "valueOption a v opts = Some opts'" "optionsOk opts"
  shows "optionsOk opts'"
proof -
  have form: "(if v \<in> set knownFormats then Some (opts\<lparr>o_format := v\<rparr>) else None) = Some y \<Longrightarrow> optionsOk y" for y
    using assms(2) by (auto simp: optionsOk_def split: if_splits)
  have time: "(let (n, rest) = strtoul v in if rest \<noteq> [] \<or> n > 86400 then None else Some (opts\<lparr>o_timeoutSec := n\<rparr>)) = Some y \<Longrightarrow>
      optionsOk y" for y
    using assms(2) by (auto simp: optionsOk_def split: if_splits prod.splits)
  have upd: "optionsOk (opts\<lparr>o_cfg := v, o_format := ''cfg''\<rparr>)" "optionsOk (opts\<lparr>o_output := v\<rparr>)"
    using assms(2) by (simp_all add: optionsOk_def known)
  show ?thesis
  proof (cases "a = ''--cfg''")
    case True
    show ?thesis using assms(1) upd unfolding valueOption_def if_P [OF True] by simp
  next
    case cfg: False
    show ?thesis
    proof (cases "a = ''--format''")
      case True
      show ?thesis using assms(1) unfolding valueOption_def if_not_P [OF cfg] if_P [OF True] by (rule form)
    next
      case format: False
      show ?thesis
      proof (cases "a = ''--timeout''")
        case True
        show ?thesis
          using assms(1) unfolding valueOption_def if_not_P [OF cfg] if_not_P [OF format] if_P [OF True] by (rule time)
      next
        case False
        show ?thesis
          using assms(1) upd unfolding valueOption_def if_not_P [OF cfg] if_not_P [OF format] if_not_P [OF False] by simp
      qed
    qed
  qed
qed

lemma parseArgs_ok:
  "parseArgs args opts = Accepted opts' \<Longrightarrow> optionsOk opts \<Longrightarrow> optionsOk opts' \<and> o_input opts' \<noteq> []"
proof (induction "length args" arbitrary: args opts rule: less_induct)
  case less
  show ?case
  proof (cases args)
    case Nil
    then show ?thesis using less.prems by (auto split: if_splits)
  next
    case (Cons a as)
    let ?valued = "a \<in> {''-o'', ''--output'', ''--cfg'', ''--format'', ''--timeout''}"
    have neither: "\<not> (a = ''-h'' \<or> a = ''--help'')" "a \<noteq> ''--version''"
      using less.prems(1) unfolding Cons parseArgs.simps by (metis parse_outcome.distinct)+
    have step: "(if ?valued then
        (case as of [] \<Rightarrow> Rejected | v # bs \<Rightarrow> (case valueOption a v opts of None \<Rightarrow> Rejected | Some o' \<Rightarrow> parseArgs bs o'))
      else case flagOption a opts of Some o' \<Rightarrow> parseArgs as o'
        | None \<Rightarrow> if o_input opts = [] then parseArgs as (opts\<lparr>o_input := a\<rparr>) else Rejected) = Accepted opts'"
      using less.prems(1) unfolding Cons parseArgs.simps if_not_P [OF neither(1)] if_not_P [OF neither(2)] .
    show ?thesis
    proof (cases ?valued)
      case True
      then obtain v bs o' where "as = v # bs" "valueOption a v opts = Some o'" "parseArgs bs o' = Accepted opts'"
        using step unfolding if_P [OF True] by (auto split: list.splits option.splits)
      then show ?thesis using less.hyps [of bs o'] valueOption_ok less.prems(2) Cons by simp
    next
      case False
      then consider o' where "flagOption a opts = Some o'" "parseArgs as o' = Accepted opts'"
        | "parseArgs as (opts\<lparr>o_input := a\<rparr>) = Accepted opts'"
        using step unfolding if_not_P [OF False] by (auto split: option.splits if_splits)
      then show ?thesis
      proof cases
        case 1
        then show ?thesis using less.hyps [of as o'] flagOption_ok less.prems(2) Cons by simp
      next
        case 2
        have "optionsOk (opts\<lparr>o_input := a\<rparr>)" using less.prems(2) by (simp add: optionsOk_def)
        then show ?thesis using less.hyps [OF _ 2] Cons by simp
      qed
    qed
  qed
qed

end
