(* ===== verification/Roblox_Properties.thy ===== *)
theory Roblox_Properties
  imports Roblox_Bytecode
begin

text \<open>
  The properties of the serialized-bytecode reader and of the opcode decodings of
  \<^verbatim>\<open>byteveil_decompiler/RobloxBytecode.cpp\<close>, with a minimal file at which they are applied.
\<close>

text \<open>
  Version 3, no strings, one prototype with one register and the single word RETURN 0 1, main
  prototype 0.
\<close>

definition tinyFile :: "u8 list" where
  "tinyFile = [3, 0, 1, 1, 0, 0, 0, 1, 22, 0, 1, 0, 0, 0, 0, 0, 0, 0, 0]"

lemma tiny_parse: "parse tinyFile = Inr (3, [\<lparr>cr_offset = 8, cr_words = 1\<rparr>])"
  by (simp add: parse_def tinyFile_def remove_prefix_def luauPrefix_def parse_file_def parse_file_head_def
      parse_file_tail_def parse_strings_def parse_proto_def parse_header_def parse_tail_def parse_lineinfo_def
      parse_debuginfo_def r_count_def r_stringId_def r_index_def r_flag_def r_var_small r_u8_def r_skip_def rbind_def
      kMaxObjects_def kMaxInputBytes_def Let_def)

text \<open>
  Every 32-bit value survives the variable-length encoding: reading its encoding, anywhere
  in an input, gives the value back and stops right behind it.
\<close>

theorem varint_roundtrip:
  "r_var (pre @ uleb w @ post) (length pre) = Inr (w, length pre + length (uleb w))"
  by (rule r_var_uleb)

text \<open>
  C17: When \<^verbatim>\<open>parse\<close> accepts a file, the code ranges it records lie inside the file (after the
  optional prefix), follow one another without overlap, leave the version byte alone, and hold
  at most two million words in total.
\<close>

theorem parse_ranges_safe:
  assumes "parse input = Inr (version, rs)"
  shows "ranges_within 1 rs (length (remove_prefix input)) \<and> rs \<noteq> [] \<and> words_of rs \<le> kMaxObjects \<and>
    LBC_VERSION_MIN \<le> version \<and> version \<le> LBC_VERSION_MAX \<and> length (remove_prefix input) \<le> kMaxInputBytes"
  using parse_Inr [OF assms] by blast

theorem parse_ranges_safe_witness: "ranges_within 1 [\<lparr>cr_offset = 8, cr_words = 1\<rparr>] 19"
  using parse_ranges_safe [OF tiny_parse] by (simp add: tinyFile_def remove_prefix_def luauPrefix_def)

text \<open>
  C18: The decodings that \<^verbatim>\<open>opcodeVariants\<close> returns are one or two different byte strings. Each
  has the length of the input, holds a stream of known, complete instructions in every code
  range, and differs from the input at opcode bytes only; there its opcode is the input byte
  times the multiplier of that decoding.
\<close>

theorem opcode_variants_sound:
  assumes "opcodeVariants oob err input = Inr variants"
  defines "bs \<equiv> remove_prefix input"
  shows "\<exists>version rs. parse input = Inr (version, rs) \<and> variants \<noteq> [] \<and> length variants \<le> 2 \<and> distinct variants \<and>
    (\<forall>v\<in>set variants. length v = length bs \<and> (\<forall>r\<in>set rs. stream_ok v r 0) \<and>
      (\<exists>m\<in>{1, 203}. \<forall>i. v ! i = (if \<exists>r\<in>set rs. i \<in> opcode_offsets v r 0 then bs ! i * m else bs ! i)))"
proof -
  obtain version rs where p: "parse input = Inr (version, rs)"
    using assms(1) unfolding opcodeVariants_def andthen_eq_Inr by force
  obtain vs e where f: "fold (tryMultiplier oob bs rs) [1, 203] ([], err) = (vs, e)" by fastforce
  have ne: "variants \<noteq> []" and vs: "variants = fst (fold (tryMultiplier oob bs rs) [1, 203] ([], err))"
    using assms(1) f unfolding opcodeVariants_def p bs_def by (auto simp: Let_def split: if_splits)
  have mem: "\<exists>m\<in>{1, 203}. applyOpcodeTransform oob m rs bs = Inr v" if "v \<in> set variants" for v
    using that unfolding vs by (auto simp: tryMultiplier_def split: sum.splits if_splits)
  have two: "length variants \<le> 2 \<and> distinct variants"
    unfolding vs by (auto simp: tryMultiplier_def split: sum.splits if_splits)
  have "length v = length bs \<and> (\<forall>r\<in>set rs. stream_ok v r 0) \<and>
      (\<exists>m\<in>{1, 203}. \<forall>i. v ! i = (if \<exists>r\<in>set rs. i \<in> opcode_offsets v r 0 then bs ! i * m else bs ! i))"
    if v: "v \<in> set variants" for v
  proof -
    obtain m where m: "m \<in> {1, 203}" "applyOpcodeTransform oob m rs bs = Inr v" using mem [OF v] by blast
    have "(ucast m :: u8) \<in> {1, 203}" using m(1) by auto
    then show ?thesis
      using transform_Inr [OF m(2) parse_Inr(1) [OF p]] unfolding bs_def by blast
  qed
  then show ?thesis using p ne two by blast
qed

lemma tiny_variants: "opcodeVariants 0 [] tinyFile = Inr [tinyFile]"
proof -
  have rp: "remove_prefix tinyFile = tinyFile" by (simp add: remove_prefix_def luauPrefix_def tinyFile_def)
  have "applyOpcodeTransform 0 1 [\<lparr>cr_offset = 8, cr_words = 1\<rparr>] tinyFile = Inr tinyFile"
    "applyOpcodeTransform 0 203 [\<lparr>cr_offset = 8, cr_words = 1\<rparr>] tinyFile =
      Inl ''unknown opcode 114 at code word 0''"
    by code_simp+
  then show ?thesis by (simp add: opcodeVariants_def tiny_parse rp Let_def tryMultiplier_def)
qed

theorem opcode_variants_sound_witness:
  "\<exists>version rs. parse tinyFile = Inr (version, rs) \<and> list_all (\<lambda>r. stream_ok tinyFile r 0) rs"
  using opcode_variants_sound [OF tiny_variants] by (auto simp: list_all_iff)

text \<open>
  C19: Decoding inverts the Roblox opcode encoding end to end. Take a file whose instruction
  streams use standard opcodes and multiply every opcode byte by 227; the walk over the encoded
  file finds the same code ranges, and the standard file is among the returned decodings. For
  the standard file itself the first decoding is the unchanged input.
\<close>

theorem roblox_decoding_roundtrip:
  assumes "parse input = Inr (version, rs)" and "\<forall>r\<in>set rs. stream_ok (remove_prefix input) r 0"
  shows "parse (encodeRanges 227 rs (remove_prefix input)) = Inr (version, rs) \<and>
    (\<exists>variants. opcodeVariants oob err (encodeRanges 227 rs (remove_prefix input)) = Inr variants \<and>
      remove_prefix input \<in> set variants) \<and>
    (\<exists>rest. opcodeVariants oob err input = Inr (remove_prefix input # rest))"
proof -
  let ?bs = "remove_prefix input" and ?enc = "encodeRanges 227 rs (remove_prefix input)"
  note P = parse_Inr [OF assms(1)]
  have "agree_outside (codeBytes rs) ?bs ?enc 0 (length ?bs)"
    by (simp add: agree_outside_def encodeRanges_length encodeRanges_outside)
  from parse_blind [OF assms(1) this] have enc: "parse ?enc = Inr (version, rs)" "remove_prefix ?enc = ?enc" by auto
  have dec: "applyOpcodeTransform oob 203 rs ?enc = Inr ?bs"
    by (rule transform_encode [OF assms(2) P(1) order_refl])
  have "\<exists>variants. opcodeVariants oob err ?enc = Inr variants \<and> ?bs \<in> set variants"
    unfolding opcodeVariants_def enc
    by (auto simp: Let_def tryMultiplier_def dec split: sum.splits)
  moreover have "\<exists>rest. opcodeVariants oob err input = Inr (?bs # rest)"
  proof -
    have "applyOpcodeTransform oob 1 rs ?bs = Inr ?bs" using assms(2) P(1) transform_identity by blast
    then show ?thesis
      unfolding opcodeVariants_def assms(1)
      by (auto simp: Let_def tryMultiplier_def split: sum.splits)
  qed
  ultimately show ?thesis using enc by blast
qed

theorem roblox_decoding_roundtrip_witness:
  "\<exists>variants. opcodeVariants 0 [] (encodeRanges 227 [\<lparr>cr_offset = 8, cr_words = 1\<rparr>] tinyFile) = Inr variants \<and>
    tinyFile \<in> set variants"
proof -
  have rp: "remove_prefix tinyFile = tinyFile" by (simp add: remove_prefix_def luauPrefix_def tinyFile_def)
  have "stream_ok tinyFile \<lparr>cr_offset = 8, cr_words = 1\<rparr> 0" by code_simp
  then show ?thesis using roblox_decoding_roundtrip [OF tiny_parse, of 0 "[]"] by (simp add: rp)
qed

text \<open>
  Opcode decoding never uses a byte outside the input: the decodings and the error message
  do not depend on what such a read would give.
\<close>

theorem opcode_variants_in_bounds: "opcodeVariants oob err input = opcodeVariants oob' err input"
proof (cases "parse input")
  case (Inr r)
  obtain version rs where r: "r = (version, rs)" by fastforce
  have "applyOpcodeTransform oob m rs (remove_prefix input) = applyOpcodeTransform oob' m rs (remove_prefix input)" for m
    using transform_oob [OF parse_Inr(1) [OF Inr [unfolded r]]] by blast
  then have "tryMultiplier oob (remove_prefix input) rs = tryMultiplier oob' (remove_prefix input) rs"
    by (intro ext) (simp add: tryMultiplier_def)
  then show ?thesis by (simp add: opcodeVariants_def Inr r)
qed (simp add: opcodeVariants_def)

end
