(* ===== verification/Module_Properties.thy ===== *)
theory Module_Properties
  imports Command_Line IR_Properties Roblox_Properties
begin

text \<open>
  The properties of modules: the components, the text, building, inspecting and the command line.
\<close>

section \<open>Components and text\<close>

text \<open>
  C31: Tarjan's recursion comes to an end on the blocks of every function, and the components it
  records are the strongly connected components of the reachable blocks: the classes of the blocks
  that are reachable from the entry, two of them being in one class when each is on a path from the
  other. They are disjoint, sorted and not empty.
\<close>

theorem components_are_strong:
  "\<exists>cs. stronglyConnectedComponents (build_blocks n ins) = Some cs \<and>
    set ` set cs = (\<lambda>a. {b. (a, b) \<in> (edges (build_blocks n ins))\<^sup>* \<and> (b, a) \<in> (edges (build_blocks n ins))\<^sup>*}) `
      {a. (0, a) \<in> (edges (build_blocks n ins))\<^sup>*} \<and>
    distinct (concat cs) \<and> list_all sorted cs \<and> [] \<notin> set cs"
  using built.components_partition [of n ins] built.components_classes [of n ins]
  unfolding cycleClass_def by blast

text \<open>
  C32: Whatever bytes a string of the input has, \<^verbatim>\<open>esc\<close> writes a JSON string body in well-formed
  UTF-8, and undoing the escapes gives exactly those bytes back.
\<close>

theorem esc_lossless_json: "json_body (esc s) \<and> unescape (esc s) = s"
  using esc_json unescape_esc by blast

section \<open>Modules\<close>

text \<open>
  C33: For an accepted prototype tree \<^verbatim>\<open>addFunction\<close> returns a tree of functions, one for each
  prototype in preorder and numbered by it, and \<^verbatim>\<open>buildModule\<close> fails exactly when a debug local has
  a register outside the frame or a bad range, which validation does not check; no other check of
  \<^verbatim>\<open>validateAnalysis\<close> can fail.
\<close>

theorem build_fails_on_locals_only:
  assumes "validateProto oob (Some p) 128 1000000 = Inr t"
  shows "\<exists>f m. addFunction oob p 0 (-1) 0 = Some (f, m) \<and> map f_id (functionsOf f) = [0..<m] \<and>
    list_all2 (describes oob) (prototypesOf 0 (Some p)) (functionsOf f) \<and>
    buildModule oob (Some p) =
      Some (if allLocalsOk (prototypesOf 0 (Some p)) then Inr (moduleOf p f)
            else Inl ''IR contains invalid debug-local metadata'')"
  using buildModule_accepted [OF assms] unfolding badLocals_def .

text \<open>A tree that is accepted stays accepted under a larger limit on instructions.\<close>

lemma validateCode_more:
  "validateCode oob mi p fid pc tot = Inr r \<Longrightarrow> mi \<le> mi' \<Longrightarrow> validateCode oob mi' p fid pc tot = Inr r"
proof (induction oob mi p fid pc tot arbitrary: r rule: validateCode.induct)
  case (1 oob mi p fid pc tot)
  then show ?case
    unfolding validateCode.simps [of oob mi p fid pc tot] validateCode.simps [of oob mi' p fid pc tot]
    by (fastforce simp: res_simps split: if_splits prod.splits)
qed

lemma validateOne_more:
  "validateOne oob md mi q depth tot fid = Inr r \<Longrightarrow> mi \<le> mi' \<Longrightarrow> validateOne oob md mi' q depth tot fid = Inr r"
  "validateChildren oob md mi qs depth tot fid = Inr r \<Longrightarrow> mi \<le> mi' \<Longrightarrow>
    validateChildren oob md mi' qs depth tot fid = Inr r"
proof (induction oob md mi q depth tot fid and oob md mi qs depth tot fid arbitrary: r and r
    rule: validateOne_validateChildren.induct)
  case (2 oob md mi p depth tot fid)
  then obtain t bounds js where run: "validateHeader md p depth mi fid = Inr ()"
    "validateCode oob mi p fid 0 tot = Inr (t, bounds, js)" "checkBoundaries fid bounds js = Inr ()"
    "validateChildren oob md mi (cells (subprotos p)) (depth + 1) t (fid + 1) = Inr r"
    by (auto simp: res_simps split: prod.splits)
  have "validateHeader md p depth mi' fid = Inr ()" using run(1) 2(3) by (auto simp: validateHeader_def res_simps)
  moreover have "validateCode oob mi' p fid 0 tot = Inr (t, bounds, js)" by (rule validateCode_more [OF run(2) 2(3)])
  moreover have "validateChildren oob md mi' (cells (subprotos p)) (depth + 1) t (fid + 1) = Inr r"
    using 2(1) [OF run(1,2) refl refl run(3,4) 2(3)] .
  ultimately show ?case using run(3) by simp
next
  case (4 oob md mi c cs depth tot fid)
  then show ?case by (force simp: res_simps)
qed simp_all

lemma validateProto_more:
  "validateProto oob root md mi = Inr t \<Longrightarrow> mi \<le> mi' \<Longrightarrow> validateProto oob root md mi' = Inr t"
  unfolding validateProto_def by (rule validateOne_more(1))

lemma loop_accepted: "validateProto 0 (Some (proto_of loopWords)) 128 1000000 = Inr 5"
proof -
  have "validateProto 0 (Some (proto_of loopWords)) 128 5 = Inr 5" by code_simp
  then show ?thesis by (rule validateProto_more) simp
qed

theorem build_fails_on_locals_only_witness:
  "\<exists>f. buildModule 0 (Some (proto_of loopWords)) = Some (Inr (moduleOf (proto_of loopWords) f)) \<and>
    map f_id (functionsOf f) = [0]"
proof -
  have tree: "prototypesOf 0 (Some (proto_of loopWords)) = [(0, proto_of loopWords)]" by (simp add: proto_of_def)
  have "locvars (proto_of loopWords) = []" by (simp add: proto_of_def)
  then have ok: "allLocalsOk [(0, proto_of loopWords)]" by (simp add: allLocalsOk_def localsOk_def)
  obtain f m where f: "map f_id (functionsOf f) = [0..<m]" "list_all2 (describes 0) [(0, proto_of loopWords)] (functionsOf f)"
    "buildModule 0 (Some (proto_of loopWords)) = Some (Inr (moduleOf (proto_of loopWords) f))"
    using build_fails_on_locals_only [OF loop_accepted] ok unfolding tree by auto
  have "length (functionsOf f) = 1" using list_all2_lengthD [OF f(2)] by simp
  then have "m = 1" using arg_cong [OF f(1), of length] by simp
  then show ?thesis using f by auto
qed

text \<open>
  C34: The JSON of every module that \<^verbatim>\<open>buildModule\<close> hands out is one well-formed JSON value and a
  line end, whatever the names and strings of the bytecode are.
\<close>

theorem json_of_modules:
  assumes "buildModule oob root = Some (Inr m)"
  shows "\<exists>t. toJson m = t @ newline \<and> json t"
  using assms by (rule module_json)

theorem json_of_modules_witness:
  "\<exists>f t. toJson (moduleOf (proto_of loopWords) f) = t @ newline \<and> json t"
proof -
  obtain f where "buildModule 0 (Some (proto_of loopWords)) = Some (Inr (moduleOf (proto_of loopWords) f))"
  proof -
    have "locvars (proto_of loopWords) = []" "prototypesOf 0 (Some (proto_of loopWords)) = [(0, proto_of loopWords)]"
      by (simp_all add: proto_of_def)
    then show ?thesis using that buildModule_accepted [OF loop_accepted] by (auto simp: allLocalsOk_def localsOk_def)
  qed
  then show ?thesis using json_of_modules by blast
qed

text \<open>
  C35: \<^verbatim>\<open>inspectBytecode\<close> always returns. Either with an error, or with the rendering of the module of
  a prototype that was validated and that the loader made from one of the opcode decodings of the
  input; the second \<^verbatim>\<open>buildModule\<close> never fails after the first.
\<close>

theorem inspect_returns:
  "(\<exists>e. inspectBytecode oob8 oob load input mode = Some (Inl e)) \<or>
   (\<exists>p v vs m t. opcodeVariants oob8 [] input = Inr vs \<and> v \<in> set vs \<and> load v = LoadedProto p \<and>
      validateProto oob (Some p) 128 1000000 = Inr t \<and> buildModule oob (Some p) = Some (Inr m) \<and>
      inspectBytecode oob8 oob load input mode = Some (showModule mode m))"
  using inspect_cases [of oob8 oob load input mode] buildModule_sound by meson



section \<open>The command line\<close>

definition printsNothing :: "effect list \<Rightarrow> bool" where
  "printsNothing fx \<longleftrightarrow> list_all (\<lambda>e. case e of Out _ \<Rightarrow> False | _ \<Rightarrow> True) fx"

definition run_ok :: "run \<Rightarrow> bool" where
  "run_ok r \<longleftrightarrow> fst r \<in> {0, 1, 2, 124} \<and> (fst r = 0 \<or> printsNothing (snd r))"

lemma run_ok_parts:
  "run_ok (deliver env opts s)" "run_ok (extractRun env opts s)" "run_ok (finish env opts g t u w)"
  "run_ok (lua51Run env opts s)"
  by (auto simp: run_ok_def deliver_def extractRun_def finish_def lua51Run_def printsNothing_def errorLine_def
      cannotWrite_def Let_def split: sum.splits)

lemma run_ok_some: "run_ok q \<Longrightarrow> \<exists>r. Some q = Some r \<and> run_ok r"
  by blast

lemma run_ok_if:
  "run_ok q \<Longrightarrow> run_ok q' \<Longrightarrow> run_ok (if b then q else q')"
  "\<exists>r. x = Some r \<and> run_ok r \<Longrightarrow> \<exists>r. y = Some r \<and> run_ok r \<Longrightarrow> \<exists>r. (if b then x else y) = Some r \<and> run_ok r"
  by simp_all

lemma run_ok_simple: "run_ok (0, fx)" "run_ok (1, [errorLine e])" "run_ok (124, [Err t])"
  by (simp_all add: run_ok_def printsNothing_def errorLine_def)

lemmas run_oks = run_ok_some run_ok_if run_ok_parts run_ok_simple

lemma luauRun_ok: "\<exists>r. luauRun env opts bc = Some r \<and> run_ok r"
proof -
  obtain q where q: "inspectBytecode (e_oob8 env) (e_oob env) (e_load env) (bytes_of bc) (o_format opts) = Some q"
    using inspect_cases by blast
  show ?thesis
    unfolding luauRun_def q option.case
    by (cases q; cases "e_decompile env bc (o_timeoutSec opts)"; simp only: sum.case decompile_outcome.case;
        intro run_oks)
qed

lemma dispatch_ok: "\<exists>r. dispatch env opts input = Some r \<and> run_ok r"
  unfolding dispatch_def Let_def by (intro run_oks luauRun_ok)

lemma main_runs:
  "\<exists>r. runMain env name args = Some r \<and> fst r \<in> {0, 1, 2, 124} \<and>
    (fst r = 0 \<or> printsNothing (snd r) \<or> r = (2, [Out (usage name)]) \<and> parseArgs args defaultOptions = Rejected)"
proof (cases "args = []")
  case True
  then show ?thesis by (simp add: runMain_def)
next
  case False
  show ?thesis
  proof (cases "parseArgs args defaultOptions")
    case (Accepted opts)
    show ?thesis
    proof (cases "e_read env (o_input opts)")
      case None
      then show ?thesis using False Accepted by (simp add: runMain_def printsNothing_def errorLine_def)
    next
      case (Some input)
      obtain r where "dispatch env opts input = Some r" "run_ok r" using dispatch_ok by blast
      then show ?thesis using False Accepted Some by (auto simp: runMain_def run_ok_def)
    qed
  qed (use False in \<open>simp_all add: runMain_def\<close>)
qed

text \<open>
  C37: A run of the tool always comes to an end with exit code 0, 1, 2 or 124. Standard output is
  used only by runs that succeed, apart from the usage text that answers rejected options, and
  accepted options have a known format, an input and at most a day of time.
\<close>

theorem main_exits:
  "(\<exists>r. runMain env name args = Some r \<and> fst r \<in> {0, 1, 2, 124} \<and>
     (fst r = 0 \<or> printsNothing (snd r) \<or> r = (2, [Out (usage name)]) \<and> parseArgs args defaultOptions = Rejected)) \<and>
   (case parseArgs args defaultOptions of
      Accepted opts \<Rightarrow> o_format opts \<in> set knownFormats \<and> o_timeoutSec opts \<le> 86400 \<and> o_input opts \<noteq> []
    | _ \<Rightarrow> True)"
  using main_runs parseArgs_ok [OF _ default_ok] by (simp add: optionsOk_def split: parse_outcome.split)

lemma written_only:
  assumes "e_write env' = e_write env"
  shows "deliver env' opts r = deliver env opts r" "extractRun env' opts input = extractRun env opts input"
  unfolding deliver_def extractRun_def assms by (rule refl)+

text \<open>
  C38: With \<^verbatim>\<open>--analyze\<close> or one of the static formats the outcome does not depend on the compiler, the
  loader, the lifter or the Lua 5.1 component: nothing of the input is compiled, loaded or lifted.
\<close>

theorem static_formats_never_load:
  assumes "o_analyze opts \<or> o_format opts \<in> {''protectors'', ''unpack'', ''moonsec'', ''moonsec-ir'', ''moonsec-bytecode''}"
  shows "dispatch env opts input =
    dispatch (env\<lparr>e_compile := c, e_newState := b, e_load := l, e_decompile := d, e_lua51 := q\<rparr>) opts input"
proof -
  let ?env = "env\<lparr>e_compile := c, e_newState := b, e_load := l, e_decompile := d, e_lua51 := q\<rparr>"
  have same: "deliver ?env opts r = deliver env opts r" "extractRun ?env opts input = extractRun env opts input" for r
    by (rule written_only; simp)+
  show ?thesis
  proof (cases "o_analyze opts")
    case True
    then show ?thesis by (simp add: dispatch_def Let_def)
  next
    case False
    then consider "o_format opts = ''protectors''" | "o_format opts = ''unpack''" | "o_format opts = ''moonsec''"
      | "o_format opts = ''moonsec-ir''" | "o_format opts = ''moonsec-bytecode''" using assms by blast
    then show ?thesis by cases (simp_all add: dispatch_def Let_def same)
  qed
qed

definition noSurroundings :: surroundings where
  "noSurroundings = \<lparr>e_read = \<lambda>path. Some [], e_write = \<lambda>path s. False, e_compile = \<lambda>s. s, e_newState = True,
     e_load = \<lambda>v. NoPrototype, e_decompile = \<lambda>s n. TimedOut, e_lua51 = \<lambda>s mode. Inl [], e_oob8 = 0, e_oob = 0\<rparr>"

theorem static_formats_never_load_witness:
  "dispatch noSurroundings (defaultOptions\<lparr>o_format := ''protectors''\<rparr>) [] =
    dispatch (noSurroundings\<lparr>e_compile := \<lambda>s. [], e_newState := False, e_load := \<lambda>v. LoadFailed None,
      e_decompile := \<lambda>s n. ThrewUnknown, e_lua51 := \<lambda>s mode. Inr s\<rparr>) (defaultOptions\<lparr>o_format := ''protectors''\<rparr>) []"
  by (rule static_formats_never_load) simp

end
