(* ===== verification/Lua51_Chunk.thy ===== *)
theory Lua51_Chunk
  imports Byte_Reader IR_Constants
begin

unbundle bit_operations_syntax

text \<open>
  The reader of Lua 5.1 chunks in \<^verbatim>\<open>byteveil_decompiler/Lua51.cpp\<close>: the data it builds, the
  primitive reads, the header, constants and instruction words. The strings of a chunk are lists
  of bytes. What the reader does with a whole prototype is in \<open>Lua51_Proto\<close>.
\<close>

section \<open>Data\<close>

record lua_local =
  ll_name :: string
  ll_start :: int
  ll_end :: int

record capture_info =
  cap_bindingPc :: int
  cap_sourceIndex :: int
  cap_fromUpvalue :: bool

record lua_instr =
  l_raw :: u32
  l_pc :: int
  l_op :: int
  l_a :: int
  l_b :: int
  l_c :: int
  l_bx :: int
  l_sbx :: int
  l_target :: int
  l_openProducer :: int
  l_setlistBlock :: int
  l_closureBindingFor :: int
  l_captureSlot :: int
  l_extraWord :: bool
  l_captures :: "capture_info list"

record lua_constant =
  lc_type :: string
  lc_lua :: string
  lc_value :: string
  lc_stringBytesHex :: string

record lua_fields =
  q_id :: nat
  q_parent :: int
  q_linedefined :: int
  q_lastline :: int
  q_nups :: nat
  q_params :: nat
  q_vararg :: nat
  q_maxstack :: nat
  q_source :: string
  q_lines :: "int list"
  q_locals :: "lua_local list"
  q_upvalues :: "string list"
  q_code :: "lua_instr list"
  q_constants :: "string list"
  q_constantTable :: "lua_constant list"
  q_capturedRegisters :: "bool list"
  q_managedCapturedRegisters :: "bool list"

datatype lua_proto = LuaProto (lp_fields: lua_fields) (lp_children: "lua_proto list")

text \<open>An instruction with the default values of its fields.\<close>

definition blankInstr :: "u32 \<Rightarrow> int \<Rightarrow> lua_instr" where
  "blankInstr raw pc =
    \<lparr>l_raw = raw, l_pc = pc, l_op = 0, l_a = 0, l_b = 0, l_c = 0, l_bx = 0, l_sbx = 0, l_target = -1,
     l_openProducer = -1, l_setlistBlock = -1, l_closureBindingFor = -1, l_captureSlot = -1,
     l_extraWord = False, l_captures = []\<rparr>"

section \<open>Primitive reads\<close>

text \<open>The two facts of the header that later reads depend on: byte order and the width of \<^verbatim>\<open>size_t\<close>.\<close>

record chunk_format =
  little :: bool
  sizeT :: nat

definition maxString :: nat where "maxString = 64 * 1024 * 1024"

definition lua_need :: "nat \<Rightarrow> unit reader" where
  "lua_need n bs pos = (if n > length bs - pos then Inl ''truncated Lua 5.1 chunk'' else Inr ((), pos))"

definition lua_u8 :: "u8 reader" where
  "lua_u8 = rbind (lua_need 1) (\<lambda>_ bs pos. Inr (bs ! pos, pos + 1))"

text \<open>The bytes of a number, least significant first or most significant first.\<close>

fun fromLittle :: "u8 list \<Rightarrow> 'a::len word" where
  "fromLittle [] = 0"
| "fromLittle (b # bs) = ucast b OR push_bit 8 (fromLittle bs)"

definition fromBig :: "u8 list \<Rightarrow> 'a::len word" where
  "fromBig bs = foldl (\<lambda>v b. push_bit 8 v OR ucast b) 0 bs"

definition lua_raw :: "nat \<Rightarrow> u8 list reader" where
  "lua_raw n = rbind (lua_need n) (\<lambda>_ bs pos. Inr (take n (drop pos bs), pos + n))"

definition lua_u32 :: "chunk_format \<Rightarrow> u32 reader" where
  "lua_u32 fmt = rbind (lua_raw 4) (\<lambda>bs. rreturn (if little fmt then fromLittle bs else fromBig bs))"

definition lua_u64 :: "chunk_format \<Rightarrow> u64 reader" where
  "lua_u64 fmt = rbind (lua_raw 8) (\<lambda>bs. rreturn (if little fmt then fromLittle bs else fromBig bs))"

definition lua_i32 :: "chunk_format \<Rightarrow> int reader" where
  "lua_i32 fmt = rbind (lua_u32 fmt) (\<lambda>v. rreturn (sint v))"

definition text_bytes :: "u8 list \<Rightarrow> string" where
  "text_bytes bs = map (\<lambda>b. char_of (unat b)) bs"

definition lua_bytes :: "nat \<Rightarrow> string reader" where
  "lua_bytes n = rbind (lua_raw n) (\<lambda>bs. rreturn (text_bytes bs))"

text \<open>A string is its length with the trailing byte, the bytes, and that byte, which may be anything.\<close>

definition luaString :: "chunk_format \<Rightarrow> string reader" where
  "luaString fmt =
    rbind (if sizeT fmt = 4 then rbind (lua_u32 fmt) (\<lambda>n. rreturn (unat n))
           else rbind (lua_u64 fmt) (\<lambda>n. rreturn (unat n))) (\<lambda>n.
      if n = 0 then rreturn []
      else rbind (rcheck (\<not> n > maxString) ''invalid Lua 5.1 string length'') (\<lambda>_.
        rbind (lua_bytes (n - 1)) (\<lambda>s. rbind lua_u8 (\<lambda>_. rreturn s))))"

section \<open>Header\<close>

definition lua_header :: "chunk_format reader" where
  "lua_header =
    rbind (lua_bytes 4) (\<lambda>magic.
    rbind (rcheck (magic = CHR 0x1B # ''Lua'') ''not a Lua 5.1 chunk'') (\<lambda>_.
    rbind lua_u8 (\<lambda>version. rbind (rcheck (version = 0x51) ''unsupported Lua version; expected 5.1'') (\<lambda>_.
    rbind lua_u8 (\<lambda>format. rbind (rcheck (format = 0) ''unsupported Lua binary format'') (\<lambda>_.
    rbind lua_u8 (\<lambda>endian. rbind (rcheck (endian = 0 \<or> endian = 1) ''invalid Lua endianness'') (\<lambda>_.
    rbind lua_u8 (\<lambda>intWidth. rbind (rcheck (intWidth = 4) ''unsupported Lua integer width'') (\<lambda>_.
    rbind lua_u8 (\<lambda>sizeWidth. rbind (rcheck (sizeWidth = 4 \<or> sizeWidth = 8) ''unsupported Lua size_t width'') (\<lambda>_.
    rbind lua_u8 (\<lambda>insWidth. rbind (rcheck (insWidth = 4) ''unsupported Lua instruction width'') (\<lambda>_.
    rbind lua_u8 (\<lambda>numWidth. rbind (rcheck (numWidth = 8) ''unsupported Lua number width'') (\<lambda>_.
    rbind lua_u8 (\<lambda>integral. rbind (rcheck (integral = 0) ''integral Lua number chunks are unsupported'') (\<lambda>_.
    rreturn \<lparr>little = (endian = 1), sizeT = unat sizeWidth\<rparr>))))))))))))))))))"

section \<open>Constants\<close>

definition threeDigits :: "nat \<Rightarrow> string" where
  "threeDigits n = replicate (3 - length (nat_text n)) CHR ''0'' @ nat_text n"

text \<open>One character of a quoted Lua string.\<close>

definition quoteChar :: "char \<Rightarrow> string" where
  "quoteChar c =
    (if c = CHR 0x5C then [CHR 0x5C, CHR 0x5C]
     else if c = CHR 0x22 then [CHR 0x5C, CHR 0x22]
     else if c = CHR 0x07 then [CHR 0x5C, CHR ''a'']
     else if c = CHR 0x08 then [CHR 0x5C, CHR ''b'']
     else if c = CHR 0x0C then [CHR 0x5C, CHR ''f'']
     else if c = CHR 0x0A then [CHR 0x5C, CHR ''n'']
     else if c = CHR 0x0D then [CHR 0x5C, CHR ''r'']
     else if c = CHR 0x09 then [CHR 0x5C, CHR ''t'']
     else if c = CHR 0x0B then [CHR 0x5C, CHR ''v'']
     else if 32 \<le> byte c \<and> byte c \<le> 126 then [c]
     else CHR 0x5C # threeDigits (byte c))"

definition luaQuote :: "string \<Rightarrow> string" where
  "luaQuote s = [CHR 0x22] @ concat (map quoteChar s) @ [CHR 0x22]"

text \<open>\<^verbatim>\<open>bytesHex\<close> of this file.\<close>

definition lua_bytesHex :: "string \<Rightarrow> string" where
  "lua_bytesHex s = concat (map (\<lambda>c. [digit_char (byte c div 16), digit_char (byte c mod 16)]) s)"

definition luaConstant :: "chunk_format \<Rightarrow> lua_constant reader" where
  "luaConstant fmt =
    rbind lua_u8 (\<lambda>tag.
      if tag = 0 then
        rreturn \<lparr>lc_type = ''nil'', lc_lua = ''nil'', lc_value = ''nil'', lc_stringBytesHex = []\<rparr>
      else if tag = 1 then rbind lua_u8 (\<lambda>b. let v = if b \<noteq> 0 then ''true'' else ''false'' in
        rreturn \<lparr>lc_type = ''boolean'', lc_lua = v, lc_value = v, lc_stringBytesHex = []\<rparr>)
      else if tag = 3 then rbind (lua_u64 fmt) (\<lambda>bits. let v = stream_text 17 (double_of bits) in
        rreturn \<lparr>lc_type = ''number'', lc_lua = v, lc_value = v, lc_stringBytesHex = []\<rparr>)
      else if tag = 4 then rbind (luaString fmt) (\<lambda>s.
        rreturn \<lparr>lc_type = ''string'', lc_lua = luaQuote s, lc_value = s, lc_stringBytesHex = lua_bytesHex s\<rparr>)
      else rfail ''unsupported Lua constant tag'')"

section \<open>Instruction words\<close>

text \<open>The operations that leave an open list of values: CALL, TAILCALL and VARARG.\<close>

definition lastProducer :: "lua_instr list \<Rightarrow> int" where
  "lastProducer ins =
    (case find (\<lambda>k. l_op (ins ! k) \<in> {28, 29, 37}) (rev [0..<length ins]) of
       None \<Rightarrow> -1 | Some k \<Rightarrow> int k)"

definition wordFields :: "u32 \<Rightarrow> int \<Rightarrow> lua_instr" where
  "wordFields raw pc =
    (let bx = uint (drop_bit 14 raw AND 0x3ffff) in
     (blankInstr raw pc)\<lparr>l_op := uint (raw AND 0x3f), l_a := uint (drop_bit 6 raw AND 0xff),
       l_c := uint (drop_bit 14 raw AND 0x1ff), l_b := uint (drop_bit 23 raw AND 0x1ff),
       l_bx := bx, l_sbx := bx - 131071\<rparr>)"

definition jumpOf :: "lua_instr \<Rightarrow> int" where
  "jumpOf i =
    (if l_op i = 22 \<or> l_op i = 31 \<or> l_op i = 32 then l_pc i + l_sbx i + 1
     else if 23 \<le> l_op i \<and> l_op i \<le> 27 \<or> l_op i = 33 then l_pc i + 2
     else if l_op i = 2 \<and> l_c i \<noteq> 0 then l_pc i + 2
     else l_target i)"

text \<open>
  One word of code behind the instructions \<open>ins\<close>, with the words that follow it; the flag says that
  the next word is the block number of a SETLIST.
\<close>

definition decodeWord :: "lua_instr list \<Rightarrow> u32 \<Rightarrow> u32 list \<Rightarrow> (lua_instr \<times> bool) res" where
  "decodeWord ins raw rest =
    (let i0 = wordFields raw (int (length ins)); i = i0\<lparr>l_target := jumpOf i0\<rparr> in
     if l_op i = 34 then
       andthen (if l_c i = 0 then
           (case rest of [] \<Rightarrow> Inl ''Lua SETLIST is missing its extra block word''
            | w # _ \<Rightarrow> Inr (i\<lparr>l_setlistBlock := sint w\<rparr>, True))
         else Inr (i\<lparr>l_setlistBlock := l_c i\<rparr>, False)) (\<lambda>(j, extra).
       Inr (if l_b j = 0 then j\<lparr>l_openProducer := lastProducer ins\<rparr> else j, extra))
     else if (l_op i = 28 \<or> l_op i = 29 \<or> l_op i = 30) \<and> l_b i = 0 then
       Inr (i\<lparr>l_openProducer := lastProducer ins\<rparr>, False)
     else Inr (i, False))"

definition extraInstr :: "int \<Rightarrow> u32 \<Rightarrow> lua_instr" where
  "extraInstr pc raw = (blankInstr raw pc)\<lparr>l_op := -1, l_extraWord := True, l_setlistBlock := sint raw\<rparr>"

fun decodeWords :: "lua_instr list \<Rightarrow> bool \<Rightarrow> u32 list \<Rightarrow> lua_instr list res" where
  "decodeWords ins nextIsExtra [] = Inr ins"
| "decodeWords ins nextIsExtra (raw # rest) =
    (if nextIsExtra then decodeWords (ins @ [extraInstr (int (length ins)) raw]) False rest
     else andthen (decodeWord ins raw rest) (\<lambda>(i, extra). decodeWords (ins @ [i]) extra rest))"

end
