(* ===== verification/Lua51_Proto.thy ===== *)
theory Lua51_Proto
  imports Lua51_Chunk
begin

unbundle bit_operations_syntax

text \<open>
  The prototypes of a Lua 5.1 chunk (\<^verbatim>\<open>byteveil_decompiler/Lua51.cpp\<close>): the capture bindings behind a
  CLOSURE (\<^verbatim>\<open>associateClosureCaptures\<close>), the checks of \<^verbatim>\<open>validateProtoData\<close>, and the recursive reader
  \<^verbatim>\<open>parseProto\<close> with its limits.
\<close>

section \<open>Messages\<close>

definition functionPrefix :: "nat \<Rightarrow> string" where
  "functionPrefix k = ''Lua function '' @ nat_text k"

definition atInstr :: "nat \<Rightarrow> lua_instr \<Rightarrow> string \<Rightarrow> string" where
  "atInstr k i message = functionPrefix k @ '' pc '' @ int_text (l_pc i) @ '': '' @ message"

section \<open>Captures\<close>

text \<open>The code with its captures and the captured registers, as \<^verbatim>\<open>associateClosureCaptures\<close> updates them.\<close>

type_synonym capture_state = "lua_instr list \<times> bool list"

text \<open>One binding behind the CLOSURE at \<open>pc\<close>.\<close>

definition bindSlot :: "nat \<Rightarrow> nat \<Rightarrow> nat \<Rightarrow> capture_state \<Rightarrow> capture_state res" where
  "bindSlot k pc slot s =
    (let ins = fst s; captured = snd s; at = pc + slot + 1; binding = ins ! at; closure = ins ! pc in
     andthen (require (\<not> (l_extraWord binding \<or> l_op binding \<noteq> 0 \<and> l_op binding \<noteq> 4))
       (atInstr k binding ''CLOSURE capture binding must be MOVE or GETUPVAL'')) (\<lambda>_.
     Inr (ins[at := binding\<lparr>l_closureBindingFor := l_pc closure, l_captureSlot := int slot\<rparr>,
          pc := closure\<lparr>l_captures := l_captures closure @
            [\<lparr>cap_bindingPc = l_pc binding, cap_sourceIndex = l_b binding, cap_fromUpvalue = (l_op binding = 4)\<rparr>]\<rparr>],
        if l_op binding = 0 \<and> 0 \<le> l_b binding \<and> l_b binding < int (length captured)
        then captured[nat (l_b binding) := True] else captured)))"

fun bindSlots :: "nat \<Rightarrow> nat \<Rightarrow> nat list \<Rightarrow> capture_state \<Rightarrow> capture_state res" where
  "bindSlots k pc [] s = Inr s"
| "bindSlots k pc (slot # slots) s = andthen (bindSlot k pc slot s) (bindSlots k pc slots)"

text \<open>The CLOSURE at \<open>pc\<close> with a child that has \<open>expected\<close> upvalues.\<close>

definition bindClosure :: "nat \<Rightarrow> nat \<Rightarrow> nat \<Rightarrow> capture_state \<Rightarrow> capture_state res" where
  "bindClosure k pc expected s =
    (let closure = fst s ! pc in
     andthen (require (\<not> int expected > int (length (fst s)) - int pc - 1)
       (atInstr k closure ''CLOSURE capture bindings truncated'')) (\<lambda>_.
     bindSlots k pc [0..<expected] ((fst s)[pc := closure\<lparr>l_captures := []\<rparr>], snd s)))"

text \<open>
  The loop over the code; \<open>n\<close> is the number of instructions, \<open>childUps\<close> the upvalue counts of the
  children. A CLOSURE without a child is left to the later checks.
\<close>

function associateFrom :: "nat \<Rightarrow> nat list \<Rightarrow> nat \<Rightarrow> nat \<Rightarrow> capture_state \<Rightarrow> capture_state res" where
  "associateFrom k childUps n pc s =
    (if pc \<ge> n then Inr s
     else let closure = fst s ! pc in
       if l_op closure \<noteq> 36 then associateFrom k childUps n (pc + 1) s
       else if l_bx closure < 0 \<or> l_bx closure \<ge> int (length childUps) then associateFrom k childUps n (pc + 1) s
       else let expected = childUps ! nat (l_bx closure) in
         andthen (bindClosure k pc expected s) (\<lambda>s'. associateFrom k childUps n (pc + expected + 1) s'))"
  by pat_completeness auto
termination
  by (relation "measure (\<lambda>(k, childUps, n, pc, s). n - pc)") auto

declare associateFrom.simps [simp del]

text \<open>The captured registers that a CLOSE closes.\<close>

definition manageFrom :: "bool list \<Rightarrow> bool list \<Rightarrow> lua_instr \<Rightarrow> bool list" where
  "manageFrom captured managed i =
    (let firstClosed = (if l_op i = 35 then l_a i else -1) in
     if firstClosed < 0 then managed
     else map (\<lambda>r. managed ! r \<or> firstClosed \<le> int r \<and> captured ! r) [0..<length managed])"

definition associateClosureCaptures :: "nat list \<Rightarrow> lua_fields \<Rightarrow> lua_fields res" where
  "associateClosureCaptures childUps f =
    andthen (associateFrom (q_id f) childUps (length (q_code f)) 0
      (q_code f, replicate (q_maxstack f) False)) (\<lambda>(ins, captured).
    Inr (f\<lparr>q_code := ins, q_capturedRegisters := captured,
      q_managedCapturedRegisters := foldl (manageFrom captured) (replicate (q_maxstack f) False) ins\<rparr>))"

section \<open>Checks\<close>

fun checks :: "unit res list \<Rightarrow> unit res" where
  "checks [] = Inr ()"
| "checks (c # cs) = andthen c (\<lambda>_. checks cs)"

lemma checks_Inr [res_simps]: "checks cs = Inr u \<longleftrightarrow> (\<forall>c\<in>set cs. c = Inr ())"
  by (induction cs) (auto simp: res_simps)

text \<open>Without a check the value is passed on.\<close>

definition whenever :: "bool \<Rightarrow> unit res \<Rightarrow> unit res" where
  "whenever b c = (if b then c else Inr ())"

lemma whenever_Inr [res_simps]: "whenever b c = Inr u \<longleftrightarrow> (b \<longrightarrow> c = Inr ())"
  by (simp add: whenever_def)

definition checkLuaReg :: "lua_fields \<Rightarrow> lua_instr \<Rightarrow> int \<Rightarrow> string \<Rightarrow> unit res" where
  "checkLuaReg f i r name =
    require (\<not> (r < 0 \<or> r \<ge> int (q_maxstack f))) (atInstr (q_id f) i (''register '' @ name @ '' out of range''))"

definition checkRange :: "lua_fields \<Rightarrow> lua_instr \<Rightarrow> int \<Rightarrow> int \<Rightarrow> string \<Rightarrow> unit res" where
  "checkRange f i first count name =
    require (\<not> (count < 0 \<or> first < 0 \<or> first + count > int (q_maxstack f)))
      (atInstr (q_id f) i (''register range '' @ name @ '' out of range''))"

definition checkRK :: "lua_fields \<Rightarrow> lua_instr \<Rightarrow> int \<Rightarrow> string \<Rightarrow> unit res" where
  "checkRK f i operand name =
    (if operand AND 256 \<noteq> 0 then
       require (\<not> (operand AND 255) \<ge> int (length (q_constants f)))
         (atInstr (q_id f) i (''constant '' @ name @ '' out of range''))
     else checkLuaReg f i operand name)"

definition checkLuaConstant :: "lua_fields \<Rightarrow> lua_instr \<Rightarrow> int \<Rightarrow> unit res" where
  "checkLuaConstant f i index =
    require (\<not> (index < 0 \<or> index \<ge> int (length (q_constants f)))) (atInstr (q_id f) i ''constant index out of range'')"

definition checkUpvalue :: "lua_fields \<Rightarrow> lua_instr \<Rightarrow> int \<Rightarrow> unit res" where
  "checkUpvalue f i index =
    require (\<not> (index < 0 \<or> index \<ge> int (q_nups f))) (atInstr (q_id f) i ''upvalue index out of range'')"

definition checkTarget :: "lua_fields \<Rightarrow> lua_instr \<Rightarrow> unit res" where
  "checkTarget f i =
    require (\<not> (l_target i < 0 \<or> l_target i \<ge> int (length (q_code f)) \<or>
        l_extraWord (q_code f ! nat (l_target i)) \<or> l_closureBindingFor (q_code f ! nat (l_target i)) \<ge> 0))
      (atInstr (q_id f) i ''jump target is not an instruction boundary'')"

text \<open>The \<^verbatim>\<open>switch\<close> on the operation; \<open>childUps\<close> are the upvalue counts of the children.\<close>

definition luaOperands :: "lua_fields \<Rightarrow> nat list \<Rightarrow> lua_instr \<Rightarrow> unit res list" where
  "luaOperands f childUps i =
    (let rg = checkLuaReg f i; rk = checkRK f i; span = checkRange f i; a = l_a i; b = l_b i; c = l_c i; bx = l_bx i;
         fail = (\<lambda>bad message. require (\<not> bad) (atInstr (q_id f) i message)); op = l_op i in
     if op = 0 then [rg a ''A'', rg b ''B'']
     else if op = 1 then [rg a ''A'', checkLuaConstant f i bx]
     else if op = 2 then [rg a ''A'', fail (b > 1) ''LOADBOOL boolean operand out of range'', whenever (c \<noteq> 0) (checkTarget f i)]
     else if op = 3 then [rg a ''A'', rg b ''B'', fail (b < a) ''LOADNIL range is reversed'']
     else if op = 4 then [rg a ''A'', checkUpvalue f i b]
     else if op = 5 then [rg a ''A'', checkLuaConstant f i bx]
     else if op = 6 then [rg a ''A'', rg b ''B'', rk c ''C'']
     else if op = 7 then [rg a ''A'', checkLuaConstant f i bx]
     else if op = 8 then [rg a ''A'', checkUpvalue f i b]
     else if op = 9 then [rg a ''A'', rk b ''B'', rk c ''C'']
     else if op = 10 then [rg a ''A'']
     else if op = 11 then [span a 2 ''SELF results'', rg b ''B'', rk c ''C'']
     else if 12 \<le> op \<and> op \<le> 17 then [rg a ''A'', rk b ''B'', rk c ''C'']
     else if 18 \<le> op \<and> op \<le> 20 then [rg a ''A'', rg b ''B'']
     else if op = 21 then [rg a ''A'', rg b ''B'', rg c ''C'', fail (b > c) ''CONCAT range is reversed'']
     else if op = 22 then [rg a ''A'', checkTarget f i]
     else if 23 \<le> op \<and> op \<le> 25 then
       [fail (a > 1) ''comparison inversion flag out of range'', rk b ''B'', rk c ''C'', checkTarget f i]
     else if op = 26 then [rg a ''A'', fail (c > 1) ''TEST boolean operand out of range'', checkTarget f i]
     else if op = 27 then
       [rg a ''A'', rg b ''B'', fail (c > 1) ''TESTSET boolean operand out of range'', checkTarget f i]
     else if op = 28 \<or> op = 29 then
       [rg a ''A'', whenever (b > 1) (span (a + 1) (b - 1) ''call arguments''),
        whenever (op = 28 \<and> c > 1) (span a (c - 1) ''call results'')]
     else if op = 30 then [rg a ''A'', whenever (b > 0) (span a (b - 1) ''return values'')]
     else if op = 31 \<or> op = 32 then [span a 4 ''numeric for'', checkTarget f i]
     else if op = 33 then
       [fail (c = 0) ''TFORLOOP result count is zero'', span a (3 + c) ''generic for'', checkTarget f i]
     else if op = 34 then
       [rg a ''A'', whenever (b > 0) (span (a + 1) b ''SETLIST values''),
        fail (l_setlistBlock i \<le> 0) ''SETLIST block index is zero'']
     else if op = 35 then [fail (a < 0 \<or> a > int (q_maxstack f)) ''CLOSE register out of range'']
     else if op = 36 then
       [rg a ''A'', fail (bx < 0 \<or> bx \<ge> int (length childUps)) ''child prototype index out of range'',
        fail (0 \<le> bx \<and> bx < int (length childUps) \<and> length (l_captures i) \<noteq> childUps ! nat bx)
          ''CLOSURE capture binding count does not match child upvalues'']
     else if op = 37 then [rg a ''A'', whenever (b > 1) (span a (b - 1) ''vararg results'')]
     else [])"

definition checkLuaInstr :: "lua_fields \<Rightarrow> nat list \<Rightarrow> lua_instr \<Rightarrow> unit res" where
  "checkLuaInstr f childUps i =
    (if l_extraWord i then Inr ()
     else andthen (require (\<not> (l_op i < 0 \<or> l_op i \<ge> 38)) (atInstr (q_id f) i (''unknown opcode '' @ int_text (l_op i)))) (\<lambda>_.
       if l_closureBindingFor i \<ge> 0 then
         (if l_op i = 0 then checkLuaReg f i (l_b i) ''CLOSURE local capture B'' else checkUpvalue f i (l_b i))
       else checks (luaOperands f childUps i)))"

definition checkLuaDebug :: "lua_fields \<Rightarrow> unit res" where
  "checkLuaDebug f =
    checks (
      require (\<not> (q_lines f \<noteq> [] \<and> length (q_lines f) \<noteq> length (q_code f)))
        (functionPrefix (q_id f) @ '': lineinfo count does not match code size'') #
      require (\<not> length (q_upvalues f) > q_nups f)
        (functionPrefix (q_id f) @ '': upvalue debug count exceeds upvalue count'') #
      map (\<lambda>l. require (\<not> (ll_start l < 0 \<or> ll_end l < ll_start l \<or> ll_end l > int (length (q_code f))))
        (functionPrefix (q_id f) @ '': invalid local debug range'')) (q_locals f))"

definition validateProtoData :: "lua_fields \<Rightarrow> nat list \<Rightarrow> unit res" where
  "validateProtoData f childUps =
    andthen (checks (map (checkLuaInstr f childUps) (q_code f))) (\<lambda>_. checkLuaDebug f)"

section \<open>The recursive reader\<close>

text \<open>The totals of the reader and the next function id.\<close>

record lua_totals =
  t5_prototypes :: nat
  t5_instructions :: nat
  t5_constants :: nat
  t5_debugEntries :: nat
  t5_next :: nat

definition rlift :: "'a res \<Rightarrow> 'a reader" where
  "rlift r = (case r of Inl e \<Rightarrow> rfail e | Inr x \<Rightarrow> rreturn x)"

text \<open>\<open>n\<close> items read one after the other.\<close>

definition rmany :: "nat \<Rightarrow> 'a reader \<Rightarrow> 'a list reader" where
  "rmany n p = rloop n (\<lambda>xs. rbind p (\<lambda>x. rreturn (xs @ [x]))) []"

text \<open>A count that must not exceed what is left of a limit.\<close>

definition lua_count :: "chunk_format \<Rightarrow> nat \<Rightarrow> string \<Rightarrow> nat reader" where
  "lua_count fmt left message =
    rbind (lua_u32 fmt) (\<lambda>n. rbind (rcheck (\<not> unat n > left) message) (\<lambda>_. rreturn (unat n)))"

definition luaLocal :: "chunk_format \<Rightarrow> lua_local reader" where
  "luaLocal fmt =
    rbind (luaString fmt) (\<lambda>name. rbind (lua_u32 fmt) (\<lambda>start. rbind (lua_u32 fmt) (\<lambda>stop.
    rreturn \<lparr>ll_name = name, ll_start = sint start, ll_end = sint stop\<rparr>)))"

definition luaHead :: "chunk_format \<Rightarrow> nat \<Rightarrow> int \<Rightarrow> lua_fields reader" where
  "luaHead fmt k parent =
    rbind (luaString fmt) (\<lambda>source.
    rbind (lua_i32 fmt) (\<lambda>linedefined. rbind (lua_i32 fmt) (\<lambda>lastline.
    rbind lua_u8 (\<lambda>nupvals. rbind lua_u8 (\<lambda>params. rbind lua_u8 (\<lambda>vararg. rbind lua_u8 (\<lambda>maxstack.
    rbind (rcheck (\<not> maxstack = 0) ''Lua prototype has zero maxstack'') (\<lambda>_.
    rreturn \<lparr>q_id = k, q_parent = parent, q_linedefined = linedefined, q_lastline = lastline, q_nups = unat nupvals,
      q_params = unat params, q_vararg = unat vararg, q_maxstack = unat maxstack, q_source = source, q_lines = [],
      q_locals = [], q_upvalues = [], q_code = [], q_constants = [], q_constantTable = [],
      q_capturedRegisters = [], q_managedCapturedRegisters = []\<rparr>))))))))"

definition luaCode :: "chunk_format \<Rightarrow> lua_totals \<times> lua_fields \<Rightarrow> (lua_totals \<times> lua_fields) reader" where
  "luaCode fmt s =
    rbind (lua_count fmt (1000000 - t5_instructions (fst s)) ''Lua instruction limit exceeded'') (\<lambda>n.
    rbind (rmany n (lua_u32 fmt)) (\<lambda>raw.
    rbind (rlift (decodeWords [] False raw)) (\<lambda>ins.
    rreturn ((fst s)\<lparr>t5_instructions := t5_instructions (fst s) + n\<rparr>, (snd s)\<lparr>q_code := ins\<rparr>))))"

definition luaConstants :: "chunk_format \<Rightarrow> lua_totals \<times> lua_fields \<Rightarrow> (lua_totals \<times> lua_fields) reader" where
  "luaConstants fmt s =
    rbind (lua_count fmt (1000000 - t5_constants (fst s)) ''Lua constant limit exceeded'') (\<lambda>n.
    rbind (rmany n (luaConstant fmt)) (\<lambda>ks.
    rreturn ((fst s)\<lparr>t5_constants := t5_constants (fst s) + n\<rparr>,
      (snd s)\<lparr>q_constants := map lc_lua ks, q_constantTable := ks\<rparr>)))"

text \<open>A table of debug entries: its count is charged to the common total.\<close>

definition luaDebugTable ::
  "chunk_format \<Rightarrow> string \<Rightarrow> 'a reader \<Rightarrow> lua_totals \<Rightarrow> (lua_totals \<times> 'a list) reader" where
  "luaDebugTable fmt message item t =
    rbind (lua_count fmt (1000000 - t5_debugEntries t) message) (\<lambda>n.
    rbind (rmany n item) (\<lambda>xs. rreturn (t\<lparr>t5_debugEntries := t5_debugEntries t + n\<rparr>, xs)))"

definition luaDebug :: "chunk_format \<Rightarrow> lua_totals \<times> lua_fields \<Rightarrow> (lua_totals \<times> lua_fields) reader" where
  "luaDebug fmt s =
    rbind (luaDebugTable fmt ''Lua lineinfo limit exceeded'' (lua_i32 fmt) (fst s)) (\<lambda>(t1, lns).
    rbind (luaDebugTable fmt ''Lua local debug limit exceeded'' (luaLocal fmt) t1) (\<lambda>(t2, locals).
    rbind (luaDebugTable fmt ''Lua upvalue debug limit exceeded'' (luaString fmt) t2) (\<lambda>(t3, ups).
    rreturn (t3, (snd s)\<lparr>q_lines := lns, q_locals := locals, q_upvalues := ups\<rparr>))))"

definition luaFinish :: "lua_proto list \<Rightarrow> lua_fields \<Rightarrow> lua_fields res" where
  "luaFinish cs f =
    (let childUps = map (\<lambda>c. q_nups (lp_fields c)) cs in
     andthen (associateClosureCaptures childUps f) (\<lambda>g. andthen (validateProtoData g childUps) (\<lambda>_. Inr g)))"

definition luaChild :: "(lua_totals \<Rightarrow> (lua_totals \<times> lua_proto) reader) \<Rightarrow>
  lua_totals \<times> lua_proto list \<Rightarrow> (lua_totals \<times> lua_proto list) reader" where
  "luaChild child s = rbind (child (fst s)) (\<lambda>(t, p). rreturn (t, snd s @ [p]))"

function luaProto :: "chunk_format \<Rightarrow> int \<Rightarrow> nat \<Rightarrow> lua_totals \<Rightarrow> (lua_totals \<times> lua_proto) reader" where
  "luaProto fmt parent depth t =
    (if depth > 128 then rfail ''Lua prototype nesting exceeds 128''
     else if t5_prototypes t + 1 > 100000 then rfail ''Lua prototype limit exceeded''
     else
       rbind (luaHead fmt (t5_next t) parent) (\<lambda>f0.
       rbind (luaCode fmt (t\<lparr>t5_prototypes := t5_prototypes t + 1, t5_next := t5_next t + 1\<rparr>, f0)) (\<lambda>s1.
       rbind (luaConstants fmt s1) (\<lambda>s2.
       rbind (lua_count fmt 100000 ''Lua child prototype limit exceeded'') (\<lambda>np.
       rbind (rloop np (luaChild (luaProto fmt (int (t5_next t)) (depth + 1))) (fst s2, [])) (\<lambda>s3.
       rbind (luaDebug fmt (fst s3, snd s2)) (\<lambda>s4.
       rbind (rlift (luaFinish (snd s3) (snd s4))) (\<lambda>f.
       rreturn (fst s4, LuaProto f (snd s3))))))))))"
  by pat_completeness auto
termination
  by (relation "measure (\<lambda>(fmt, parent, depth, t). 129 - depth)") auto

declare luaProto.simps [simp del]

definition zeroTotals :: lua_totals where
  "zeroTotals = \<lparr>t5_prototypes = 0, t5_instructions = 0, t5_constants = 0, t5_debugEntries = 0, t5_next = 0\<rparr>"

definition lua_parse :: "u8 list \<Rightarrow> lua_proto res" where
  "lua_parse data =
    andthen (rbind lua_header (\<lambda>fmt. luaProto fmt (-1) 0 zeroTotals) data 0) (\<lambda>((t, p), pos).
    andthen (require (\<not> pos \<noteq> length data) ''trailing bytes after Lua chunk'') (\<lambda>_. Inr p))"

end
