(* ===== verification/Lua51_Names.thy ===== *)
theory Lua51_Names
  imports Lua51_Proto
begin

unbundle bit_operations_syntax

text \<open>
  How the decompiler of \<^verbatim>\<open>byteveil_decompiler/Lua51.cpp\<close> names registers, upvalues and constants:
  identifiers, debug locals, the values that are folded into the text of a use, and the sets of
  registers an instruction writes and reads. The functions that follow a register backwards go from
  a program counter to a smaller one.
\<close>

section \<open>Identifiers and debug locals\<close>

definition rname :: "int \<Rightarrow> string" where
  "rname a = ''r'' @ int_text a"

definition letterOrUnderscore :: "char \<Rightarrow> bool" where
  "letterOrUnderscore c \<longleftrightarrow> 97 \<le> byte c \<and> byte c \<le> 122 \<or> 65 \<le> byte c \<and> byte c \<le> 90 \<or> c = CHR ''_''"

definition luaKeywords :: "string list" where
  "luaKeywords =
    [''and'', ''break'', ''do'', ''else'', ''elseif'', ''end'', ''false'', ''for'', ''function'', ''if'', ''in'',
     ''local'', ''nil'', ''not'', ''or'', ''repeat'', ''return'', ''then'', ''true'', ''until'', ''while'']"

definition validIdentifier :: "string \<Rightarrow> bool" where
  "validIdentifier name \<longleftrightarrow>
    name \<noteq> [] \<and> letterOrUnderscore (hd name) \<and>
    list_all (\<lambda>c. letterOrUnderscore c \<or> 48 \<le> byte c \<and> byte c \<le> 57) name \<and> name \<notin> set luaKeywords"

text \<open>The register an instruction near the start of a local's range points to, if it decides.\<close>

definition debugStep :: "lua_fields \<Rightarrow> lua_local \<Rightarrow> lua_instr \<Rightarrow> int option" where
  "debugStep f l i =
    (if l_pc i < ll_start l - 1 \<or> l_pc i \<ge> ll_end l then None
     else if l_op i = 32 \<and> l_pc i \<le> ll_start l \<and> l_a i + 3 < int (q_maxstack f) then Some (l_a i + 3)
     else if (l_pc i = ll_start l \<or> l_pc i = ll_start l - 1) \<and>
         l_op i \<in> {36, 1, 2, 3, 10, 12, 13, 14, 15, 16, 17} then Some (l_a i)
     else None)"

fun firstSome :: "('a \<Rightarrow> 'b option) \<Rightarrow> 'a list \<Rightarrow> 'b option" where
  "firstSome g [] = None"
| "firstSome g (x # xs) = (case g x of None \<Rightarrow> firstSome g xs | Some y \<Rightarrow> Some y)"

definition debugRegister :: "lua_fields \<Rightarrow> lua_local \<Rightarrow> int" where
  "debugRegister f l =
    (if ll_name l \<noteq> [] \<and> hd (ll_name l) = CHR ''('' then -1
     else if ll_start l = 0 \<and> ll_start l < int (q_params f) then ll_start l
     else case firstSome (debugStep f l) (q_code f) of None \<Rightarrow> -1 | Some r \<Rightarrow> r)"

definition bestLocal :: "lua_fields \<Rightarrow> int \<Rightarrow> int \<Rightarrow> lua_local option \<Rightarrow> lua_local \<Rightarrow> lua_local option" where
  "bestLocal f a pc best l =
    (if debugRegister f l = a \<and>
        (case best of None \<Rightarrow> True
         | Some m \<Rightarrow> (ll_start l \<le> pc \<and> pc < ll_end l) \<or> ll_start l > ll_start m) then Some l else best)"

definition localReg :: "lua_fields \<Rightarrow> int \<Rightarrow> int \<Rightarrow> string" where
  "localReg f a pc =
    (case foldl (bestLocal f a pc) None (q_locals f) of
       Some l \<Rightarrow> if validIdentifier (ll_name l) then ll_name l else rname a
     | None \<Rightarrow> rname a)"

definition upvalueName :: "lua_fields \<Rightarrow> int \<Rightarrow> string" where
  "upvalueName f index =
    (if 0 \<le> index \<and> index < int (length (q_upvalues f)) \<and> validIdentifier (q_upvalues f ! nat index)
     then q_upvalues f ! nat index else ''__upvalue_'' @ int_text index)"

definition constantText :: "lua_fields \<Rightarrow> int \<Rightarrow> string" where
  "constantText f index = (if index < int (length (q_constants f)) then q_constants f ! nat index else ''nil'')"

definition operandText :: "lua_fields \<Rightarrow> int \<Rightarrow> int \<Rightarrow> string" where
  "operandText f x pc = (if x AND 256 \<noteq> 0 then constantText f (x AND 255) else localReg f x pc)"

text \<open>
  \<^verbatim>\<open>valueAt\<close>: the loop over the instructions before \<open>n\<close>; \<open>regIndex\<close> is looked up at \<open>pc\<close> when no
  definition is folded.
\<close>

fun valueBefore :: "lua_fields \<Rightarrow> int \<Rightarrow> int \<Rightarrow> nat \<Rightarrow> string" where
  "valueBefore f regIndex pc 0 = localReg f regIndex pc"
| "valueBefore f regIndex pc (Suc n) =
    (let d = q_code f ! n in
     if l_a d \<noteq> regIndex then valueBefore f regIndex pc n
     else if l_op d = 1 then constantText f (l_bx d)
     else if l_op d = 0 then valueBefore f (l_b d) (int n) n
     else if l_op d = 3 then ''nil''
     else localReg f regIndex pc)"

definition valueAt :: "lua_fields \<Rightarrow> int \<Rightarrow> int \<Rightarrow> string" where
  "valueAt f regIndex pc = valueBefore f regIndex pc (nat pc)"

definition argsText :: "lua_fields \<Rightarrow> int \<Rightarrow> int \<Rightarrow> int \<Rightarrow> string" where
  "argsText f a b pc = join '', '' (map (\<lambda>k. valueAt f (a + k) pc) [1..b - 1])"

section \<open>Rendered names\<close>

record render_context =
  rc_capturedUpvalues :: "string list"
  rc_capturedUpvalueCells :: "string list"
  rc_stateMachine :: bool

definition managedCapturedLocal :: "lua_fields \<Rightarrow> int \<Rightarrow> bool" where
  "managedCapturedLocal f r \<longleftrightarrow>
    0 \<le> r \<and> r < int (length (q_managedCapturedRegisters f)) \<and> q_managedCapturedRegisters f ! nat r"

definition qualifiedName :: "lua_fields \<Rightarrow> int \<Rightarrow> string" where
  "qualifiedName f r = ''__byteveil_f'' @ nat_text (q_id f) @ ''_r'' @ int_text r"

definition renderedRegisterName :: "lua_fields \<Rightarrow> int \<Rightarrow> int \<Rightarrow> render_context \<Rightarrow> string" where
  "renderedRegisterName f r pc context =
    (if rc_stateMachine context \<and> q_nups f = 0 then rname r
     else if rc_stateMachine context then qualifiedName f r
     else if q_id f = 0 then localReg f r pc
     else if q_nups f = 0 then rname r
     else qualifiedName f r)"

text \<open>
  A name is lengthened by underscores while a debug local that is an identifier has it. Each turn
  makes the name longer, so it is over once the name is longer than all of them.
\<close>

definition conflicts :: "lua_fields \<Rightarrow> string \<Rightarrow> bool" where
  "conflicts f candidate = list_ex (\<lambda>l. validIdentifier (ll_name l) \<and> ll_name l = candidate) (q_locals f)"

definition longest :: "string list \<Rightarrow> nat" where
  "longest names = foldr (\<lambda>s m. max (length s) m) names 0"

lemma longest_member: "s \<in> set names \<Longrightarrow> length s \<le> longest names"
  by (induction names) (auto simp: longest_def)

function freshName :: "string list \<Rightarrow> string \<Rightarrow> string" where
  "freshName names name = (if name \<in> set names then freshName names (name @ ''_'') else name)"
  by pat_completeness auto
termination
  by (relation "measure (\<lambda>(names, name). Suc (longest names) - length name)")
    (auto dest: longest_member)

declare freshName.simps [simp del]

lemma freshName_fresh: "freshName names name \<notin> set names"
  by (induction names name rule: freshName.induct) (subst freshName.simps, simp)

definition identifierNames :: "lua_fields \<Rightarrow> string list" where
  "identifierNames f = filter validIdentifier (map ll_name (q_locals f))"

lemma conflicts_iff: "conflicts f s \<longleftrightarrow> s \<in> set (identifierNames f)"
  by (auto simp: conflicts_def identifierNames_def list_ex_iff)

definition capturedCellName :: "lua_fields \<Rightarrow> int \<Rightarrow> string" where
  "capturedCellName f r =
    freshName (identifierNames f) (''__byteveil_upcell_f'' @ nat_text (q_id f) @ ''_r'' @ int_text r)"

definition renderedLocal :: "lua_fields \<Rightarrow> int \<Rightarrow> int \<Rightarrow> render_context \<Rightarrow> string" where
  "renderedLocal f r pc context =
    (if managedCapturedLocal f r then capturedCellName f r @ ''[1]'' else renderedRegisterName f r pc context)"

definition renderedUpvalue :: "lua_fields \<Rightarrow> int \<Rightarrow> render_context \<Rightarrow> string" where
  "renderedUpvalue f index context =
    (if 0 \<le> index \<and> index < int (length (rc_capturedUpvalues context)) \<and> rc_capturedUpvalues context ! nat index \<noteq> []
     then rc_capturedUpvalues context ! nat index else upvalueName f index)"

definition renderedValue :: "lua_fields \<Rightarrow> int \<Rightarrow> int \<Rightarrow> render_context \<Rightarrow> string" where
  "renderedValue f x pc context =
    (if x AND 256 \<noteq> 0 then constantText f (x AND 255) else renderedLocal f x pc context)"

section \<open>Register effects\<close>

definition writesRegister :: "lua_instr \<Rightarrow> int \<Rightarrow> int \<Rightarrow> bool" where
  "writesRegister i r maxstack =
    (if l_extraWord i \<or> l_closureBindingFor i \<ge> 0 then False
     else let contains = (\<lambda>first end. first \<le> r \<and> r \<le> end); op = l_op i; a = l_a i; b = l_b i; c = l_c i in
       if op \<in> {0, 1, 2, 4, 5, 6, 10, 12, 13, 14, 15, 16, 17, 18, 19, 20, 21, 36} then r = a
       else if op = 3 then contains a b
       else if op = 11 then r = a \<or> r = a + 1
       else if op = 27 then r = a
       else if op = 28 then (if c = 0 then a \<le> r \<and> r < maxstack else c > 1 \<and> contains a (a + c - 2))
       else if op = 31 then r = a \<or> r = a + 3
       else if op = 32 then r = a
       else if op = 33 then contains (a + 3) (a + 2 + c)
       else if op = 37 then (if b = 0 then a \<le> r \<and> r < maxstack else b > 1 \<and> contains a (a + b - 2))
       else False)"

definition readsRegister :: "lua_instr \<Rightarrow> int \<Rightarrow> int \<Rightarrow> bool" where
  "readsRegister i r maxstack =
    (if l_extraWord i then False
     else if l_closureBindingFor i \<ge> 0 then l_op i = 0 \<and> l_b i = r
     else let rk = (\<lambda>operand. \<not> operand AND 256 \<noteq> 0 \<and> operand = r); contains = (\<lambda>first end. first \<le> r \<and> r \<le> end);
           op = l_op i; a = l_a i; b = l_b i; c = l_c i in
       if op = 0 then b = r
       else if op \<in> {1, 2, 3, 4, 5, 10, 36, 37} then False
       else if op = 6 then b = r \<or> rk c
       else if op = 7 \<or> op = 8 then a = r
       else if op = 9 then a = r \<or> rk b \<or> rk c
       else if op = 11 then b = r \<or> rk c
       else if 12 \<le> op \<and> op \<le> 17 then rk b \<or> rk c
       else if 18 \<le> op \<and> op \<le> 20 then b = r
       else if op = 21 then contains b c
       else if 23 \<le> op \<and> op \<le> 25 then rk b \<or> rk c
       else if op = 26 then a = r
       else if op = 27 then a = r \<or> b = r
       else if op = 28 \<or> op = 29 then (if b = 0 then r \<ge> a else contains a (a + b - 1))
       else if op = 30 then (if b = 0 then r \<ge> a else b > 1 \<and> contains a (a + b - 2))
       else if op = 31 \<or> op = 32 then contains a (a + 2)
       else if op = 33 then contains a (a + 2)
       else if op = 34 then (if b = 0 then r \<ge> a else contains a (a + b))
       else if op = 35 then False
       else True)"

text \<open>
  \<^verbatim>\<open>renderedValueAt\<close>: as \<open>valueBefore\<close>, but it stops at a definition that a forward edge bypasses and
  does not fold a copy whose source is overwritten before the use.
\<close>

definition bypassed :: "lua_fields \<Rightarrow> int \<Rightarrow> int \<Rightarrow> bool" where
  "bypassed f n pc = list_ex (\<lambda>edge. l_pc edge < n \<and> l_target edge > n \<and> l_target edge \<le> pc) (q_code f)"

definition sourceChanged :: "lua_fields \<Rightarrow> int \<Rightarrow> int \<Rightarrow> int \<Rightarrow> bool" where
  "sourceChanged f r n pc =
    list_ex (\<lambda>k. writesRegister (q_code f ! nat k) r (int (q_maxstack f))) [n + 1..pc - 1]"

fun renderedBefore :: "lua_fields \<Rightarrow> render_context \<Rightarrow> int \<Rightarrow> int \<Rightarrow> nat \<Rightarrow> string" where
  "renderedBefore f context r pc 0 = renderedLocal f r pc context"
| "renderedBefore f context r pc (Suc n) =
    (let d = q_code f ! n in
     if l_closureBindingFor d \<ge> 0 \<or> l_a d \<noteq> r then renderedBefore f context r pc n
     else if bypassed f (int n) pc then renderedLocal f r pc context
     else if l_op d = 1 then constantText f (l_bx d)
     else if l_op d = 0 then
       (if \<not> sourceChanged f (l_b d) (int n) pc then renderedBefore f context (l_b d) (int n) n
        else renderedLocal f r pc context)
     else if l_op d = 3 then ''nil''
     else renderedLocal f r pc context)"

definition renderedValueAt :: "lua_fields \<Rightarrow> int \<Rightarrow> int \<Rightarrow> render_context \<Rightarrow> string" where
  "renderedValueAt f r pc context =
    (if rc_stateMachine context then renderedLocal f r pc context else renderedBefore f context r pc (nat pc))"

definition renderedArgs :: "lua_fields \<Rightarrow> int \<Rightarrow> int \<Rightarrow> int \<Rightarrow> render_context \<Rightarrow> string" where
  "renderedArgs f a b pc context = join '', '' (map (\<lambda>k. renderedValueAt f (a + k) pc context) [1..b - 1])"

end
