(* ===== verification/Lua51_Flow.thy ===== *)
theory Lua51_Flow
  imports Lua51_Names MoonSec_Text "HOL-Library.Product_Lexorder"
begin

unbundle bit_operations_syntax

text \<open>
  The control flow of a Lua 5.1 prototype in \<^verbatim>\<open>byteveil_decompiler/Lua51.cpp\<close>: the successors of an
  instruction, the graph over program counters, regions with one entry and one exit, and the search
  for a small region around the branches that the structured rendering could not express.
\<close>

section \<open>Entries and successors\<close>

text \<open>The jump behind a conditional goes to \<open>t\<close>.\<close>

definition jumpBehindTo :: "lua_fields \<Rightarrow> lua_instr \<Rightarrow> int \<Rightarrow> bool" where
  "jumpBehindTo f i t \<longleftrightarrow>
    (let jumpPc = l_pc i + 1 in
     0 \<le> jumpPc \<and> jumpPc < int (length (q_code f)) \<and> l_op (q_code f ! nat jumpPc) = 22 \<and>
     l_target (q_code f ! nat jumpPc) = t)"

definition entersAt :: "lua_fields \<Rightarrow> int \<Rightarrow> lua_instr \<Rightarrow> bool" where
  "entersAt f t i \<longleftrightarrow>
    l_op i \<in> {22, 31, 32} \<and> l_target i = t \<or>
    (23 \<le> l_op i \<and> l_op i \<le> 27 \<or> l_op i = 33) \<and> (l_target i = t \<or> jumpBehindTo f i t) \<or>
    l_op i = 2 \<and> l_c i \<noteq> 0 \<and> l_target i = t"

definition hasControlEntryAt :: "lua_fields \<Rightarrow> int \<Rightarrow> bool" where
  "hasControlEntryAt f t = list_ex (entersAt f t) (q_code f)"

definition followingControlTarget :: "lua_fields \<Rightarrow> lua_instr \<Rightarrow> int" where
  "followingControlTarget f i =
    (let following = l_pc i + 1 in
     if following < 0 \<or> following \<ge> int (length (q_code f)) then l_pc i + 2
     else l_pc (q_code f ! nat following) + l_sbx (q_code f ! nat following) + 1)"

text \<open>The targets before the range test of \<^verbatim>\<open>add\<close>.\<close>

definition rawSuccessors :: "lua_fields \<Rightarrow> lua_instr \<Rightarrow> int list" where
  "rawSuccessors f i =
    (let following = l_pc i + 1; op = l_op i in
     if l_closureBindingFor i \<ge> 0 \<or> l_extraWord i \<or> op = 29 \<or> op = 30 then []
     else if op = 22 then [l_target i]
     else if 23 \<le> op \<and> op \<le> 27 then
       [if following < int (length (q_code f)) \<and> l_op (q_code f ! nat following) = 22
        then l_target (q_code f ! nat following) else l_pc i + 2, l_pc i + 2]
     else if op = 31 then [l_target i, following]
     else if op = 32 then [l_target i]
     else if op = 33 then [followingControlTarget f i, l_pc i + 2]
     else if op = 2 \<and> l_c i \<noteq> 0 then [l_pc i + 2]
     else if op = 34 \<and> l_c i = 0 then [l_pc i + 2]
     else if op = 36 then [l_pc i + 1 + int (length (l_captures i))]
     else [following])"

definition controlSuccessors :: "lua_fields \<Rightarrow> lua_instr \<Rightarrow> int list" where
  "controlSuccessors f i = filter (\<lambda>t. 0 \<le> t \<and> t \<le> int (length (q_code f))) (rawSuccessors f i)"

section \<open>The graph\<close>

record flow_graph =
  g_successors :: "int list list"
  g_predecessors :: "int list list"

definition addPredecessor :: "int \<Rightarrow> int list list \<Rightarrow> int \<Rightarrow> int list list" where
  "addPredecessor pc preds t =
    (if t < int (length preds) then preds[nat t := preds ! nat t @ [pc]] else preds)"

definition addInstruction :: "lua_fields \<Rightarrow> flow_graph \<Rightarrow> lua_instr \<Rightarrow> flow_graph" where
  "addInstruction f g i =
    (if l_pc i < 0 \<or> l_pc i \<ge> int (length (q_code f)) then g
     else let ss = controlSuccessors f i in
       \<lparr>g_successors = (g_successors g)[nat (l_pc i) := ss],
        g_predecessors = foldl (addPredecessor (l_pc i)) (g_predecessors g) ss\<rparr>)"

definition buildControlFlowGraph :: "lua_fields \<Rightarrow> flow_graph" where
  "buildControlFlowGraph f =
    foldl (addInstruction f)
      \<lparr>g_successors = replicate (length (q_code f)) [], g_predecessors = replicate (length (q_code f)) []\<rparr> (q_code f)"

section \<open>Regions\<close>

definition regionEntries :: "flow_graph \<Rightarrow> int \<Rightarrow> int \<Rightarrow> int set" where
  "regionEntries g begin end =
    (if begin = 0 then {0} else {}) \<union>
    set (filter (\<lambda>t. list_ex (\<lambda>s. s < begin \<or> s \<ge> end) (g_predecessors g ! nat t)) [begin..end - 1])"

definition regionExits :: "flow_graph \<Rightarrow> int \<Rightarrow> int \<Rightarrow> int set" where
  "regionExits g begin end =
    set (concat (map (\<lambda>s. filter (\<lambda>t. t < begin \<or> t \<ge> end) (g_successors g ! nat s)) [begin..end - 1]))"

definition isSingleEntryExitRegion :: "flow_graph \<Rightarrow> int \<Rightarrow> int \<Rightarrow> bool" where
  "isSingleEntryExitRegion g begin end \<longleftrightarrow>
    \<not> (begin < 0 \<or> end \<le> begin \<or> end > int (length (g_successors g))) \<and>
    regionEntries g begin end = {begin} \<and> regionExits g begin end = {end}"

section \<open>The branches left in the text\<close>

text \<open>A number as \<^verbatim>\<open>parseMarkerNumber\<close> reads it, with the overflow test of \<^verbatim>\<open>int\<close>.\<close>

definition isDigit :: "char \<Rightarrow> bool" where
  "isDigit c \<longleftrightarrow> 48 \<le> byte c \<and> byte c \<le> 57"

fun markerDigits :: "int \<Rightarrow> string \<Rightarrow> (int \<times> string) option" where
  "markerDigits n [] = Some (n, [])"
| "markerDigits n (c # s) =
    (if isDigit c then
       (let digit = int (byte c) - 48 in
        if n > (2147483647 - digit) div 10 then None else markerDigits (n * 10 + digit) s)
     else Some (n, c # s))"

definition parseMarkerNumber :: "string \<Rightarrow> (int \<times> string) option" where
  "parseMarkerNumber s = (if s = [] \<or> \<not> isDigit (hd s) then None else markerDigits 0 s)"

lemma markerDigits_length: "markerDigits n s = Some (m, t) \<Longrightarrow> length t \<le> length s"
  by (induction n s rule: markerDigits.induct) (auto simp: Let_def split: if_splits)

lemma parseMarkerNumber_length: "parseMarkerNumber s = Some (m, t) \<Longrightarrow> length t \<le> length s"
  by (auto simp: parseMarkerNumber_def split: if_splits dest: markerDigits_length)

definition branchMarker :: string where "branchMarker = ''-- ByteVeil: branch at pc ''"
definition branchTail :: string where "branchTail = '' exits current structured range to pc ''"

definition otherMarkers :: "string list" where
  "otherMarkers =
    [''-- ByteVeil: unsupported opcode retained:'', ''-- ByteVeil: TESTSET at pc '',
     ''stopped at repeated control-flow pc '', ''left reconstructed range at pc '',
     ''FORLOOP at pc '', ''FORPREP at pc '', ''TFORLOOP at pc '']"

text \<open>One marker behind its fixed text: the branch and its target.\<close>

definition markedBranch :: "string \<Rightarrow> ((int \<times> int) \<times> string) option" where
  "markedBranch s =
    (case parseMarkerNumber s of None \<Rightarrow> None
     | Some (pc, t) \<Rightarrow>
       if \<not> starts_with branchTail t then None
       else (case parseMarkerNumber (drop (length branchTail) t) of None \<Rightarrow> None
         | Some (target, u) \<Rightarrow> Some ((pc, target), u)))"

lemma markedBranch_length: "markedBranch s = Some (b, u) \<Longrightarrow> length u \<le> length s"
  by (fastforce simp: markedBranch_def split: option.splits if_splits dest: parseMarkerNumber_length)

lemma after_marker_length: "after_sub branchMarker s = Some t \<Longrightarrow> length t < length s"
proof (induction branchMarker s rule: after_sub.induct)
  case 1
  then show ?case by (simp add: branchMarker_def)
next
  case (2 c s)
  then show ?case by (auto simp: branchMarker_def split: if_splits)
qed

function markedBranches :: "string \<Rightarrow> (int \<times> int) list option" where
  "markedBranches s =
    (case after_sub branchMarker s of None \<Rightarrow> Some []
     | Some t \<Rightarrow> (case markedBranch t of None \<Rightarrow> None
       | Some (b, u) \<Rightarrow> map_option (\<lambda>bs. b # bs) (markedBranches u)))"
  by pat_completeness auto
termination
  by (relation "measure length") (auto dest!: after_marker_length markedBranch_length)

declare markedBranches.simps [simp del]

text \<open>
  The regions in the order of the two loops: the ends from the exit upwards, for each the beginnings
  from the first branch downwards.
\<close>

definition candidateRegions :: "nat \<Rightarrow> int \<Rightarrow> int \<Rightarrow> (int \<times> int) list" where
  "candidateRegions n exit firstBranch =
    concat (map (\<lambda>end. map (\<lambda>begin. (begin, end))
        (takeWhile (\<lambda>begin. end - begin \<le> 512) (rev [max 0 (firstBranch - 512)..firstBranch])))
      [exit..min (int n) (exit + 256)])"

definition findSingleExitDispatcherRegion :: "lua_fields \<Rightarrow> string \<Rightarrow> (int \<times> int) option" where
  "findSingleExitDispatcherRegion f source =
    (if list_ex (\<lambda>m. contains m source) otherMarkers then None
     else case markedBranches source of None \<Rightarrow> None
       | Some branches \<Rightarrow>
         if branches = [] \<or> length (q_code f) > 65536 then None
         else let exit = snd (Min (set branches));
                  firstBranch = Min (set (map fst branches) \<union> {int (length (q_code f))}) in
           if list_ex (\<lambda>b. snd b \<noteq> exit \<or> fst b < 0 \<or> fst b \<ge> int (length (q_code f))) branches then None
           else find (\<lambda>(begin, end). list_all (\<lambda>b. begin \<le> fst b \<and> fst b < end) branches \<and>
                  isSingleEntryExitRegion (buildControlFlowGraph f) begin end)
                (candidateRegions (length (q_code f)) exit firstBranch))"

end
