(* ===== verification/Lua51_Accept.thy ===== *)
theory Lua51_Accept
  imports Lua51_Flow IR_Text
begin

unbundle bit_operations_syntax

text \<open>
  What the reader of Lua 5.1 chunks guarantees of the prototypes it accepts: how the code is laid
  out (extra words behind SETLIST, bindings behind CLOSURE), what the operands refer to, and that
  control only ever reaches instruction boundaries.
\<close>

section \<open>Decoded code\<close>

definition setlistHead :: "lua_instr \<Rightarrow> bool" where
  "setlistHead i \<longleftrightarrow> \<not> l_extraWord i \<and> l_op i = 34 \<and> l_c i = 0"

definition unbound :: "lua_instr \<Rightarrow> bool" where
  "unbound i \<longleftrightarrow> l_closureBindingFor i < 0"

text \<open>One decoded instruction at position \<open>k\<close> of \<open>ins\<close>.\<close>

definition decoded_at :: "lua_instr list \<Rightarrow> nat \<Rightarrow> bool" where
  "decoded_at ins k \<longleftrightarrow>
    (let i = ins ! k in
     l_pc i = int k \<and> unbound i \<and> l_captures i = [] \<and>
     (l_extraWord i \<longleftrightarrow> 0 < k \<and> setlistHead (ins ! (k - 1))) \<and> (l_extraWord i \<longrightarrow> l_op i = -1) \<and>
     0 \<le> l_a i \<and> 0 \<le> l_b i \<and> 0 \<le> l_c i \<and> 0 \<le> l_bx i \<and> l_a i < 256 \<and> l_b i < 512 \<and> l_c i < 512 \<and>
     l_target i = jumpOf (i\<lparr>l_target := -1\<rparr>))"

lemma wordFields_simps [simp]:
  "l_pc (wordFields raw pc) = pc" "l_captures (wordFields raw pc) = []" "\<not> l_extraWord (wordFields raw pc)"
  "l_closureBindingFor (wordFields raw pc) = -1" "l_target (wordFields raw pc) = -1"
  by (simp_all add: wordFields_def blankInstr_def Let_def)

lemma uint_and_le: "uint (x AND y :: 'a::len word) \<le> uint y"
  by (metis word_and_le1 word_le_def)

lemma uint_and_mask: "uint (w AND 0xff :: u32) < 256" "uint (w AND 0x1ff :: u32) < 512"
  using uint_and_le [where x = w and y = "0xff :: u32"] uint_and_le [where x = w and y = "0x1ff :: u32"] by simp_all

lemma decodeWord_fields:
  assumes "decodeWord ins raw rest = Inr (i, extra)"
  shows "l_pc i = int (length ins)" "unbound i" "l_captures i = []" "\<not> l_extraWord i" "extra = setlistHead i"
    "0 \<le> l_a i" "0 \<le> l_b i" "0 \<le> l_c i" "0 \<le> l_bx i" "l_a i < 256" "l_b i < 512" "l_c i < 512"
    "l_target i = jumpOf (i\<lparr>l_target := -1\<rparr>)" "extra \<Longrightarrow> rest \<noteq> []"
proof -
  define i0 where "i0 = wordFields raw (int (length ins))"
  have range: "0 \<le> l_a i0" "0 \<le> l_b i0" "0 \<le> l_c i0" "0 \<le> l_bx i0" "l_a i0 < 256" "l_b i0 < 512" "l_c i0 < 512"
    by (simp_all add: i0_def wordFields_def uint_and_mask Let_def)
  have fields: "l_pc i0 = int (length ins)" "l_captures i0 = []" "\<not> l_extraWord i0" "l_closureBindingFor i0 = -1" "l_target i0 = -1"
    by (simp_all add: i0_def)
  obtain block producer where i: "i = i0\<lparr>l_target := jumpOf i0, l_setlistBlock := block, l_openProducer := producer\<rparr>"
    and extra: "extra = setlistHead i" and more: "extra \<longrightarrow> rest \<noteq> []"
  proof -
    let ?t = "i0\<lparr>l_target := jumpOf i0\<rparr>"
    note dec = assms [unfolded decodeWord_def i0_def [symmetric] Let_def]
    consider (extra) "l_op i0 = 34" "l_c i0 = 0" | (block) "l_op i0 = 34" "l_c i0 \<noteq> 0" | (plain) "l_op i0 \<noteq> 34" by blast
    then show ?thesis
    proof cases
      case extra
      then obtain w ws where "rest = w # ws" using dec by (cases rest) simp_all
      then have i: "i = ?t\<lparr>l_setlistBlock := sint w, l_openProducer := (if l_b i0 = 0 then lastProducer ins else l_openProducer i0)\<rparr>" and e: "extra"
        using dec extra by (auto split: if_splits)
      show ?thesis by (rule that [OF i]) (use e extra fields(3) \<open>rest = w # ws\<close> i in \<open>simp_all add: setlistHead_def\<close>)
    next
      case block
      then have i: "i = ?t\<lparr>l_setlistBlock := l_c i0, l_openProducer := (if l_b i0 = 0 then lastProducer ins else l_openProducer i0)\<rparr>" and e: "\<not> extra"
        using dec by (auto split: if_splits)
      show ?thesis by (rule that [OF i]) (use e block i in \<open>simp_all add: setlistHead_def\<close>)
    next
      case plain
      then have i: "i = ?t\<lparr>l_setlistBlock := l_setlistBlock i0, l_openProducer := (if (l_op i0 = 28 \<or> l_op i0 = 29 \<or> l_op i0 = 30) \<and> l_b i0 = 0
          then lastProducer ins else l_openProducer i0)\<rparr>" and e: "\<not> extra"
        using dec by (auto split: if_splits)
      show ?thesis by (rule that [OF i]) (use e plain i in \<open>simp_all add: setlistHead_def\<close>)
    qed
  qed
  have same: "jumpOf (i\<lparr>l_target := -1\<rparr>) = jumpOf i0" using fields(5) by (simp add: i jumpOf_def)
  show "l_pc i = int (length ins)" "unbound i" "l_captures i = []" "\<not> l_extraWord i"
    "0 \<le> l_a i" "0 \<le> l_b i" "0 \<le> l_c i" "0 \<le> l_bx i" "l_a i < 256" "l_b i < 512" "l_c i < 512"
    "l_target i = jumpOf (i\<lparr>l_target := -1\<rparr>)"
    using range fields same by (simp_all add: i unbound_def)
  show "extra = setlistHead i" "extra \<Longrightarrow> rest \<noteq> []" using extra more by simp_all
qed

lemma decoded_at_append:
  assumes "k < length ins"
  shows "decoded_at (ins @ rest) k = decoded_at ins k"
  using assms by (auto simp: decoded_at_def nth_append Let_def)

lemma decodeWords_ok:
  assumes "decodeWords ins flag raw = Inr out" "\<forall>k<length ins. decoded_at ins k"
    "flag \<longleftrightarrow> ins \<noteq> [] \<and> setlistHead (last ins)" "flag \<longrightarrow> raw \<noteq> []"
    "\<forall>k<length ins. setlistHead (ins ! k) \<longrightarrow> Suc k < length ins + length raw"
  shows "length out = length ins + length raw \<and> (\<forall>k<length out. decoded_at out k) \<and>
    (\<forall>k<length out. setlistHead (out ! k) \<longrightarrow> Suc k < length out)"
  using assms
proof (induction ins flag raw rule: decodeWords.induct)
  case (1 ins flag)
  then show ?case by simp
next
  case (2 ins flag raw rest)
  have at_last: "setlistHead (ins ! (length ins - 1)) = setlistHead (last ins)" if "ins \<noteq> []"
    using that by (simp add: last_conv_nth)
  show ?case
  proof (cases flag)
    case True
    let ?i = "extraInstr (int (length ins)) raw"
    have "decoded_at (ins @ [?i]) (length ins)"
      using True 2(5) at_last
      by (auto simp: decoded_at_def nth_append extraInstr_def blankInstr_def unbound_def Let_def jumpOf_def)
    then have all: "\<forall>k<length (ins @ [?i]). decoded_at (ins @ [?i]) k"
      using 2(4) by (auto simp: less_Suc_eq decoded_at_append)
    have head: "\<not> setlistHead ?i" by (simp add: setlistHead_def extraInstr_def)
    have "\<forall>k<length (ins @ [?i]). setlistHead ((ins @ [?i]) ! k) \<longrightarrow> Suc k < length (ins @ [?i]) + length rest"
      using 2(7) head by (auto simp: nth_append less_Suc_eq)
    moreover have "decodeWords (ins @ [?i]) False rest = Inr out" using 2(3) True by simp
    moreover have "False \<longleftrightarrow> ins @ [?i] \<noteq> [] \<and> setlistHead (last (ins @ [?i]))" "False \<longrightarrow> rest \<noteq> []" using head by simp_all
    ultimately show ?thesis using 2(1) [OF True _ all] unfolding length_append_singleton length_Cons add_Suc_shift by blast
  next
    case False
    then obtain i extra where dec: "decodeWord ins raw rest = Inr (i, extra)"
      and rec: "decodeWords (ins @ [i]) extra rest = Inr out" using 2(3) by (auto simp: res_simps)
    note fields = decodeWord_fields [OF dec]
    have "decoded_at (ins @ [i]) (length ins)"
      using False 2(5) at_last fields by (auto simp: decoded_at_def nth_append Let_def)
    then have all: "\<forall>k<length (ins @ [i]). decoded_at (ins @ [i]) k"
      using 2(4) by (auto simp: less_Suc_eq decoded_at_append)
    have nonempty: "setlistHead i \<Longrightarrow> 0 < length rest" using fields(5,14) by blast
    have "\<forall>k<length (ins @ [i]). setlistHead ((ins @ [i]) ! k) \<longrightarrow> Suc k < length (ins @ [i]) + length rest"
    proof (intro allI impI)
      fix k assume "k < length (ins @ [i])" "setlistHead ((ins @ [i]) ! k)"
      then show "Suc k < length (ins @ [i]) + length rest"
        using 2(7) nonempty by (cases "k = length ins") (auto simp: nth_append)
    qed
    moreover have "extra \<longleftrightarrow> ins @ [i] \<noteq> [] \<and> setlistHead (last (ins @ [i]))" "extra \<longrightarrow> rest \<noteq> []" using fields(5,14) by simp_all
    ultimately show ?thesis using 2(2) [OF False dec refl rec all] unfolding length_append_singleton length_Cons add_Suc_shift by blast
  qed
qed

lemma decoded_code:
  assumes "decodeWords [] False raw = Inr out"
  shows "k < length out \<Longrightarrow> decoded_at out k" "k < length out \<Longrightarrow> setlistHead (out ! k) \<Longrightarrow> Suc k < length out"
  using decodeWords_ok [OF assms] by auto

section \<open>Bindings\<close>

definition captureOf :: "lua_instr \<Rightarrow> capture_info" where
  "captureOf i = \<lparr>cap_bindingPc = l_pc i, cap_sourceIndex = l_b i, cap_fromUpvalue = (l_op i = 4)\<rparr>"

definition bound_to :: "int \<Rightarrow> nat \<Rightarrow> lua_instr \<Rightarrow> lua_instr" where
  "bound_to owner slot i = i\<lparr>l_closureBindingFor := owner, l_captureSlot := int slot\<rparr>"

definition bindable :: "lua_instr \<Rightarrow> bool" where
  "bindable i \<longleftrightarrow> \<not> l_extraWord i \<and> (l_op i = 0 \<or> l_op i = 4)"

lemma bindSlots_append: "bindSlots k pc (xs @ ys) s = andthen (bindSlots k pc xs s) (bindSlots k pc ys)"
  by (induction xs arbitrary: s) (simp_all, simp add: andthen_def split: sum.split)

lemma bindSlots_upto:
  assumes "bindSlots k pc [0..<e] (ins, cap) = Inr (out, cap')" "pc + e < length ins"
  shows "length out = length ins \<and> length cap' = length cap \<and>
    out ! pc = (ins ! pc)\<lparr>l_captures := l_captures (ins ! pc) @ map (\<lambda>s. captureOf (ins ! (pc + s + 1))) [0..<e]\<rparr> \<and>
    (\<forall>s<e. out ! (pc + s + 1) = bound_to (l_pc (ins ! pc)) s (ins ! (pc + s + 1)) \<and> bindable (ins ! (pc + s + 1))) \<and>
    (\<forall>j<length ins. j < pc \<or> j > pc + e \<longrightarrow> out ! j = ins ! j)"
  using assms
proof (induction e arbitrary: out cap')
  case 0
  then show ?case by simp
next
  case (Suc e)
  obtain mid midcap where mid: "bindSlots k pc [0..<e] (ins, cap) = Inr (mid, midcap)"
    and step: "bindSlot k pc e (mid, midcap) = Inr (out, cap')"
    using Suc.prems(1) by (auto simp: bindSlots_append res_simps)
  note IH = Suc.IH [OF mid] 
  have IH: "length mid = length ins" "length midcap = length cap"
    "mid ! pc = (ins ! pc)\<lparr>l_captures := l_captures (ins ! pc) @ map (\<lambda>s. captureOf (ins ! (pc + s + 1))) [0..<e]\<rparr>"
    "\<And>s. s < e \<Longrightarrow> mid ! (pc + s + 1) = bound_to (l_pc (ins ! pc)) s (ins ! (pc + s + 1)) \<and> bindable (ins ! (pc + s + 1))"
    "\<And>j. j < length ins \<Longrightarrow> j < pc \<or> j > pc + e \<Longrightarrow> mid ! j = ins ! j"
    using IH Suc.prems(2) by auto
  let ?at = "pc + e + 1"
  have at: "mid ! ?at = ins ! ?at" "?at < length mid" using IH(1,5) Suc.prems(2) by auto
  have bindable: "bindable (ins ! ?at)"
    using step unfolding bindSlot_def Let_def fst_conv snd_conv at(1) by (auto simp: res_simps bindable_def)
  have out: "out = mid[?at := bound_to (l_pc (mid ! pc)) e (ins ! ?at),
      pc := (mid ! pc)\<lparr>l_captures := l_captures (mid ! pc) @ [captureOf (ins ! ?at)]\<rparr>]"
    "length cap' = length midcap"
    using step unfolding bindSlot_def Let_def fst_conv snd_conv at(1) bound_to_def captureOf_def
    by (auto simp: res_simps)
  show ?case
  proof (intro conjI allI impI)
    show "length out = length ins" "length cap' = length cap" using out IH by simp_all
    show "out ! pc = (ins ! pc)\<lparr>l_captures := l_captures (ins ! pc) @ map (\<lambda>s. captureOf (ins ! (pc + s + 1))) [0..<Suc e]\<rparr>"
      using IH(1,3) Suc.prems(2) by (simp add: out)
    fix s assume s: "s < Suc e"
    show "out ! (pc + s + 1) = bound_to (l_pc (ins ! pc)) s (ins ! (pc + s + 1))"
      using s IH(1,3,4) at(2) by (cases "s = e") (simp_all add: out)
    show "bindable (ins ! (pc + s + 1))" using s IH(4) bindable by (cases "s = e") simp_all
  next
    fix j assume j: "j < length ins" "j < pc \<or> j > pc + Suc e"
    then show "out ! j = ins ! j" using IH(5) by (auto simp: out)
  qed
qed

text \<open>The instruction \<open>s\<close> places behind the CLOSURE at \<open>c\<close> is its binding for that slot.\<close>

definition binds_at :: "lua_instr list \<Rightarrow> nat \<Rightarrow> nat \<Rightarrow> bool" where
  "binds_at ins c s \<longleftrightarrow>
    c + s + 1 < length ins \<and> l_closureBindingFor (ins ! (c + s + 1)) = int c \<and>
    l_captureSlot (ins ! (c + s + 1)) = int s \<and> bindable (ins ! (c + s + 1)) \<and>
    l_captures (ins ! c) ! s = captureOf (ins ! (c + s + 1))"

definition closure_ok :: "nat list \<Rightarrow> lua_instr list \<Rightarrow> nat \<Rightarrow> bool" where
  "closure_ok ups ins c \<longleftrightarrow>
    unbound (ins ! c) \<and>
    (0 \<le> l_bx (ins ! c) \<and> l_bx (ins ! c) < int (length ups) \<longrightarrow> length (l_captures (ins ! c)) = ups ! nat (l_bx (ins ! c))) \<and>
    (\<forall>s<length (l_captures (ins ! c)). binds_at ins c s)"

definition owner_ok :: "lua_instr list \<Rightarrow> nat \<Rightarrow> bool" where
  "owner_ok ins j \<longleftrightarrow> unbound (ins ! j) \<or>
    (\<exists>c s. j = c + s + 1 \<and> l_op (ins ! c) = 36 \<and> s < length (l_captures (ins ! c)) \<and> binds_at ins c s)"

text \<open>All fields that the association does not set.\<close>

definition same_core :: "lua_instr \<Rightarrow> lua_instr \<Rightarrow> bool" where
  "same_core i j \<longleftrightarrow>
    j = i\<lparr>l_closureBindingFor := l_closureBindingFor j, l_captureSlot := l_captureSlot j, l_captures := l_captures j\<rparr>"

lemma same_core_iff:
  "same_core i j \<longleftrightarrow> (\<exists>x y z. j = i\<lparr>l_closureBindingFor := x, l_captureSlot := y, l_captures := z\<rparr>)"
proof
  assume "\<exists>x y z. j = i\<lparr>l_closureBindingFor := x, l_captureSlot := y, l_captures := z\<rparr>"
  then show "same_core i j" by (auto simp: same_core_def)
qed (auto simp: same_core_def)

lemma same_core_refl [simp]: "same_core i i"
  by (simp add: same_core_def)

lemma same_core_bound [simp]: "same_core i (bound_to c s i)"
  by (simp add: same_core_def bound_to_def)

lemma same_core_captures [simp]: "same_core i (i\<lparr>l_captures := cs\<rparr>)"
  by (simp add: same_core_def)

lemma same_core_simps:
  assumes "same_core i j"
  shows "l_raw j = l_raw i" "l_pc j = l_pc i" "l_op j = l_op i" "l_a j = l_a i" "l_b j = l_b i" "l_c j = l_c i"
    "l_bx j = l_bx i" "l_sbx j = l_sbx i" "l_target j = l_target i" "l_extraWord j = l_extraWord i"
    "setlistHead j = setlistHead i" "bindable j = bindable i" "captureOf j = captureOf i"
proof -
  obtain x y z where "j = i\<lparr>l_closureBindingFor := x, l_captureSlot := y, l_captures := z\<rparr>"
    using assms unfolding same_core_def by blast
  then show "l_raw j = l_raw i" "l_pc j = l_pc i" "l_op j = l_op i" "l_a j = l_a i" "l_b j = l_b i" "l_c j = l_c i"
    "l_bx j = l_bx i" "l_sbx j = l_sbx i" "l_target j = l_target i" "l_extraWord j = l_extraWord i"
    "setlistHead j = setlistHead i" "bindable j = bindable i" "captureOf j = captureOf i"
    by (simp_all add: setlistHead_def bindable_def captureOf_def)
qed

lemma same_core_trans: "same_core i j \<Longrightarrow> same_core j k \<Longrightarrow> same_core i k"
proof -
  assume "same_core i j" "same_core j k"
  then obtain x y z u v w where "j = i\<lparr>l_closureBindingFor := x, l_captureSlot := y, l_captures := z\<rparr>"
    "k = j\<lparr>l_closureBindingFor := u, l_captureSlot := v, l_captures := w\<rparr>" unfolding same_core_iff by blast
  then have "k = i\<lparr>l_closureBindingFor := u, l_captureSlot := v, l_captures := w\<rparr>" by simp
  then show "same_core i k" unfolding same_core_iff by blast
qed

text \<open>The loop over the code.\<close>

lemma associateFrom_ok:
  assumes "associateFrom k ups n pc (ins, cap) = Inr (out, cap')" "length ins = n"
    "\<And>j. pc \<le> j \<Longrightarrow> j < n \<Longrightarrow> unbound (ins ! j) \<and> l_captures (ins ! j) = [] \<and> l_pc (ins ! j) = int j"
  shows "length out = n \<and> length cap' = length cap \<and> (\<forall>j<n. same_core (ins ! j) (out ! j)) \<and>
    (\<forall>j<n. j < pc \<longrightarrow> out ! j = ins ! j) \<and>
    (\<forall>j<n. pc \<le> j \<longrightarrow> owner_ok out j) \<and> (\<forall>c<n. pc \<le> c \<longrightarrow> l_op (out ! c) = 36 \<longrightarrow> closure_ok ups out c)"
  using assms
proof (induction "n - pc" arbitrary: pc ins cap rule: less_induct)
  case less
  show ?case
  proof (cases "pc \<ge> n")
    case True
    then show ?thesis using less.prems by (simp add: associateFrom.simps)
  next
    case False
    then have pc: "pc < n" by simp
    have fresh: "unbound (ins ! pc)" "l_captures (ins ! pc) = []" "l_pc (ins ! pc) = int pc" using less.prems(3) pc by auto
    let ?closure = "ins ! pc"
    show ?thesis
    proof (cases "l_op ?closure \<noteq> 36 \<or> l_bx ?closure < 0 \<or> l_bx ?closure \<ge> int (length ups)")
      case True
      then have "associateFrom k ups n (pc + 1) (ins, cap) = Inr (out, cap')"
        using less.prems(1) pc by (subst (asm) associateFrom.simps) (auto simp: Let_def split: if_splits)
      then have IH: "length out = n \<and> length cap' = length cap \<and> (\<forall>j<n. same_core (ins ! j) (out ! j)) \<and>
          (\<forall>j<n. j < pc + 1 \<longrightarrow> out ! j = ins ! j) \<and>
          (\<forall>j<n. pc + 1 \<le> j \<longrightarrow> owner_ok out j) \<and> (\<forall>c<n. pc + 1 \<le> c \<longrightarrow> l_op (out ! c) = 36 \<longrightarrow> closure_ok ups out c)"
        using less.hyps [of "pc + 1" ins cap] less.prems(2,3) pc by simp
      have "out ! pc = ins ! pc" using IH pc by simp
      then have here: "owner_ok out pc" "l_op (out ! pc) = 36 \<Longrightarrow> closure_ok ups out pc"
        using fresh True by (auto simp: owner_ok_def closure_ok_def)
      have split: "\<And>j. pc \<le> j \<longleftrightarrow> j = pc \<or> pc + 1 \<le> j" by auto
      show ?thesis using IH here unfolding split by auto
    next
      case False
      define e where "e = ups ! nat (l_bx ?closure)"
      obtain mid midcap where close: "bindClosure k pc e (ins, cap) = Inr (mid, midcap)"
        and rest: "associateFrom k ups n (pc + e + 1) (mid, midcap) = Inr (out, cap')"
        using less.prems(1) pc False
        by (subst (asm) associateFrom.simps) (auto simp: Let_def res_simps e_def)
      have "?closure\<lparr>l_captures := []\<rparr> = ?closure" using fresh(2) by (cases ?closure) simp
      then have blank: "ins[pc := ?closure\<lparr>l_captures := []\<rparr>] = ins" by simp
      have room: "pc + e < length ins"
        and slots: "bindSlots k pc [0..<e] (ins, cap) = Inr (mid, midcap)"
        using close pc less.prems(2) unfolding bindClosure_def Let_def fst_conv snd_conv blank by (auto simp: res_simps)
      note bound = bindSlots_upto [OF slots room]
      have mid: "length mid = n" "length midcap = length cap"
        "mid ! pc = ?closure\<lparr>l_captures := map (\<lambda>s. captureOf (ins ! (pc + s + 1))) [0..<e]\<rparr>"
        "\<And>s. s < e \<Longrightarrow> mid ! (pc + s + 1) = bound_to (int pc) s (ins ! (pc + s + 1)) \<and> bindable (ins ! (pc + s + 1))"
        "\<And>j. j < n \<Longrightarrow> j < pc \<or> j > pc + e \<Longrightarrow> mid ! j = ins ! j"
        using bound fresh less.prems(2) by auto
      have cover: "j = pc \<or> (\<exists>s<e. j = pc + s + 1) \<or> j < pc \<or> j > pc + e" for j
      proof -
        have "pc < j \<Longrightarrow> j \<le> pc + e \<Longrightarrow> \<exists>s<e. j = pc + s + 1" by (rule exI [of _ "j - pc - 1"]) simp
        then show ?thesis using linorder_less_linear [of pc j] by (cases "j \<le> pc + e") auto
      qed
      have IH: "length out = n \<and> length cap' = length midcap \<and> (\<forall>j<n. same_core (mid ! j) (out ! j)) \<and>
          (\<forall>j<n. j < pc + e + 1 \<longrightarrow> out ! j = mid ! j) \<and>
          (\<forall>j<n. pc + e + 1 \<le> j \<longrightarrow> owner_ok out j) \<and>
          (\<forall>c<n. pc + e + 1 \<le> c \<longrightarrow> l_op (out ! c) = 36 \<longrightarrow> closure_ok ups out c)"
      proof (rule less.hyps [OF _ rest mid(1)])
        show "n - (pc + e + 1) < n - pc" using pc by simp
        fix j assume "pc + e + 1 \<le> j" "j < n"
        then show "unbound (mid ! j) \<and> l_captures (mid ! j) = [] \<and> l_pc (mid ! j) = int j"
          using mid(5) less.prems(3) by simp
      qed
      have core: "same_core (ins ! j) (mid ! j)" if "j < n" for j
        using cover [of j] mid(3-5) that by (auto simp del: One_nat_def)
      have at_pc: "out ! pc = mid ! pc" "l_op (mid ! pc) = 36" "length (l_captures (mid ! pc)) = e" "unbound (mid ! pc)"
        using IH pc mid(3) False fresh(1) by (auto simp: unbound_def)
      have slot: "binds_at out pc s \<and> bindable (ins ! (pc + s + 1))" if s: "s < e" for s
      proof -
        have j: "pc + s + 1 < n" using s room less.prems(2) by simp
        have out: "out ! (pc + s + 1) = bound_to (int pc) s (ins ! (pc + s + 1))" using IH mid(4) [OF s] j s by simp
        have "captureOf (out ! (pc + s + 1)) = captureOf (ins ! (pc + s + 1))" "bindable (out ! (pc + s + 1))"
          using mid(4) [OF s] same_core_simps(12,13) [OF same_core_bound [of "ins ! (pc + s + 1)" "int pc" s]] unfolding out by simp_all
        then show ?thesis
          using mid(3) mid(4) [OF s] s IH j at_pc(1) by (simp add: binds_at_def out, simp add: bound_to_def)
      qed
      have here: "closure_ok ups out pc" "owner_ok out pc"
        using at_pc slot mid(3) by (auto simp: closure_ok_def owner_ok_def e_def)
      have owned: "owner_ok out (pc + s + 1) \<and> l_op (out ! (pc + s + 1)) \<noteq> 36" if s: "s < e" for s
      proof
        show "owner_ok out (pc + s + 1)"
          using slot [OF s] at_pc s unfolding owner_ok_def by metis
        show "l_op (out ! (pc + s + 1)) \<noteq> 36" using slot [OF s] by (auto simp: binds_at_def bindable_def)
      qed
      show ?thesis
      proof (intro conjI allI impI)
        show "length out = n" "length cap' = length cap" using IH mid(2) by simp_all
        fix j assume j: "j < n"
        show "same_core (ins ! j) (out ! j)" using same_core_trans [OF core [OF j]] IH j by simp
        show "out ! j = ins ! j" if "j < pc" using IH j that mid(5) by simp
        show "owner_ok out j" if "pc \<le> j"
          using cover [of j] that here(2) owned IH j by auto
        show "closure_ok ups out j" if "pc \<le> j" "l_op (out ! j) = 36"
          using cover [of j] that here(1) owned IH j by auto
      qed
    qed
  qed
qed

section \<open>Accepted prototypes\<close>

text \<open>The strings of a constant that the reports write without escaping.\<close>

definition constant_written :: "lua_constant \<Rightarrow> bool" where
  "constant_written c \<longleftrightarrow> plain (lc_type c) \<and> plain (lc_stringBytesHex c)"

text \<open>A prototype whose code was decoded, associated and validated.\<close>

definition accepted :: "lua_fields \<Rightarrow> nat list \<Rightarrow> bool" where
  "accepted f ups \<longleftrightarrow> (\<exists>g raw. decodeWords [] False raw = Inr (q_code g) \<and>
     associateClosureCaptures ups g = Inr f \<and> validateProtoData f ups = Inr () \<and>
     0 < q_maxstack g \<and> q_maxstack g < 256 \<and>
     q_constants g = map lc_lua (q_constantTable g) \<and> list_all constant_written (q_constantTable g))"

lemma associate_fields:
  assumes "associateClosureCaptures ups g = Inr f"
  shows "q_id f = q_id g" "q_parent f = q_parent g" "q_nups f = q_nups g" "q_maxstack f = q_maxstack g"
    "q_lines f = q_lines g" "q_locals f = q_locals g" "q_upvalues f = q_upvalues g"
    "q_constants f = q_constants g" "q_constantTable f = q_constantTable g" "q_source f = q_source g" "q_params f = q_params g"
  using assms by (auto simp: associateClosureCaptures_def res_simps)

text \<open>How the code of an accepted prototype is laid out.\<close>

definition code_layout :: "nat list \<Rightarrow> lua_instr list \<Rightarrow> bool" where
  "code_layout ups ins \<longleftrightarrow>
    (\<forall>k<length ins.
       l_pc (ins ! k) = int k \<and>
       (l_extraWord (ins ! k) \<longleftrightarrow> 0 < k \<and> setlistHead (ins ! (k - 1))) \<and>
       (l_extraWord (ins ! k) \<longrightarrow> l_op (ins ! k) = -1) \<and>
       (setlistHead (ins ! k) \<longrightarrow> Suc k < length ins) \<and>
       owner_ok ins k \<and> (l_op (ins ! k) = 36 \<longrightarrow> closure_ok ups ins k))"

text \<open>The ranges of the operand fields.\<close>

definition fields_ok :: "lua_instr \<Rightarrow> bool" where
  "fields_ok i \<longleftrightarrow> 0 \<le> l_a i \<and> 0 \<le> l_b i \<and> 0 \<le> l_c i \<and> 0 \<le> l_bx i \<and> l_a i < 256 \<and> l_b i < 512 \<and> l_c i < 512 \<and>
    l_target i = jumpOf (i\<lparr>l_target := -1\<rparr>)"

lemma same_core_fields_ok: "same_core i j \<Longrightarrow> fields_ok i \<Longrightarrow> fields_ok j"
proof -
  assume "same_core i j" "fields_ok i"
  then obtain x y z where "j = i\<lparr>l_closureBindingFor := x, l_captureSlot := y, l_captures := z\<rparr>" unfolding same_core_iff by blast
  then show ?thesis using \<open>fields_ok i\<close> by (simp add: fields_ok_def jumpOf_def)
qed

lemma associated_code:
  assumes dec: "decodeWords [] False raw = Inr (q_code g)" and ass: "associateClosureCaptures ups g = Inr f"
  shows "length (q_code f) = length (q_code g)" "code_layout ups (q_code f)" "list_all fields_ok (q_code f)"
    "length (q_capturedRegisters f) = q_maxstack f"
proof -
  let ?ins = "q_code g" and ?out = "q_code f"
  obtain captured where run: "associateFrom (q_id g) ups (length ?ins) 0 (?ins, replicate (q_maxstack g) False) = Inr (?out, captured)"
    and cap: "q_capturedRegisters f = captured"
    using ass by (auto simp: associateClosureCaptures_def res_simps)
  have decoded: "decoded_at ?ins k" "setlistHead (?ins ! k) \<Longrightarrow> Suc k < length ?ins" if "k < length ?ins" for k
    using decoded_code [OF dec that] by blast+
  have ok: "length ?out = length ?ins \<and> length captured = length (replicate (q_maxstack g) False) \<and> (\<forall>j<length ?ins. same_core (?ins ! j) (?out ! j)) \<and>
      (\<forall>j<length ?ins. j < 0 \<longrightarrow> ?out ! j = ?ins ! j) \<and>
      (\<forall>j<length ?ins. 0 \<le> j \<longrightarrow> owner_ok ?out j) \<and> (\<forall>c<length ?ins. 0 \<le> c \<longrightarrow> l_op (?out ! c) = 36 \<longrightarrow> closure_ok ups ?out c)"
    by (rule associateFrom_ok [OF run refl]) (use decoded(1) in \<open>auto simp: decoded_at_def Let_def\<close>)
  show len: "length ?out = length ?ins" using ok by simp
  show "length (q_capturedRegisters f) = q_maxstack f" using ok cap associate_fields(4) [OF ass] by simp
  have core: "same_core (?ins ! k) (?out ! k)" if "k < length ?ins" for k using ok that by blast
  show "code_layout ups ?out"
    unfolding code_layout_def
  proof (intro allI impI)
    fix k assume k: "k < length ?out"
    have prev: "setlistHead (?out ! (k - 1)) = setlistHead (?ins ! (k - 1))"
      using same_core_simps(11) [OF core [of "k - 1"]] k len by simp
    show "l_pc (?out ! k) = int k \<and> (l_extraWord (?out ! k) \<longleftrightarrow> 0 < k \<and> setlistHead (?out ! (k - 1))) \<and>
       (l_extraWord (?out ! k) \<longrightarrow> l_op (?out ! k) = -1) \<and> (setlistHead (?out ! k) \<longrightarrow> Suc k < length ?out) \<and>
       owner_ok ?out k \<and> (l_op (?out ! k) = 36 \<longrightarrow> closure_ok ups ?out k)"
      using ok k len prev decoded [of k] same_core_simps [OF core [of k]] by (simp add: decoded_at_def Let_def)
  qed
  show "list_all fields_ok ?out"
    unfolding list_all_length
  proof (intro allI impI)
    fix k assume "k < length ?out"
    then show "fields_ok (?out ! k)"
      using same_core_fields_ok [OF core [of k]] decoded(1) [of k] len by (simp add: decoded_at_def fields_ok_def Let_def)
  qed
qed

lemma accepted_code:
  assumes "accepted f ups"
  shows "code_layout ups (q_code f)" "list_all fields_ok (q_code f)" "0 < q_maxstack f" "q_maxstack f < 256"
    "i \<in> set (q_code f) \<Longrightarrow> checkLuaInstr f ups i = Inr ()" "checkLuaDebug f = Inr ()"
    "q_constants f = map lc_lua (q_constantTable f)" "list_all constant_written (q_constantTable f)"
proof -
  obtain g raw where g: "decodeWords [] False raw = Inr (q_code g)" "associateClosureCaptures ups g = Inr f"
    "validateProtoData f ups = Inr ()" "0 < q_maxstack g" "q_maxstack g < 256"
    "q_constants g = map lc_lua (q_constantTable g)" "list_all constant_written (q_constantTable g)"
    using assms unfolding accepted_def by blast
  show "q_constants f = map lc_lua (q_constantTable f)" "list_all constant_written (q_constantTable f)"
    using g(6,7) associate_fields(8,9) [OF g(2)] by simp_all
  show "code_layout ups (q_code f)" "list_all fields_ok (q_code f)" using associated_code [OF g(1,2)] by blast+
  show "0 < q_maxstack f" "q_maxstack f < 256" using g(4,5) associate_fields(4) [OF g(2)] by simp_all
  show "i \<in> set (q_code f) \<Longrightarrow> checkLuaInstr f ups i = Inr ()" "checkLuaDebug f = Inr ()"
    using g(3) by (auto simp: validateProtoData_def res_simps)
qed

section \<open>Where control goes\<close>

text \<open>An instruction that is executed: neither an extra word nor a binding.\<close>

definition boundary :: "lua_instr list \<Rightarrow> int \<Rightarrow> bool" where
  "boundary ins t \<longleftrightarrow> 0 \<le> t \<and> t < int (length ins) \<and> \<not> l_extraWord (ins ! nat t) \<and> unbound (ins ! nat t)"

definition boundary_or_end :: "lua_instr list \<Rightarrow> int \<Rightarrow> bool" where
  "boundary_or_end ins t \<longleftrightarrow> t = int (length ins) \<or> boundary ins t"

lemma layoutD:
  assumes "code_layout ups ins" "k < length ins"
  shows "l_pc (ins ! k) = int k" "l_extraWord (ins ! k) \<longleftrightarrow> 0 < k \<and> setlistHead (ins ! (k - 1))"
    "l_extraWord (ins ! k) \<Longrightarrow> l_op (ins ! k) = -1" "setlistHead (ins ! k) \<Longrightarrow> Suc k < length ins"
    "owner_ok ins k" "l_op (ins ! k) = 36 \<Longrightarrow> closure_ok ups ins k"
  using assms unfolding code_layout_def by blast+

lemma bound_step:
  assumes lay: "code_layout ups ins" and k: "Suc k < length ins" "\<not> unbound (ins ! Suc k)"
  shows "l_op (ins ! k) = 36 \<and> 0 < length (l_captures (ins ! k)) \<or> \<not> unbound (ins ! k) \<and> bindable (ins ! k)"
proof -
  obtain c s where c: "Suc k = c + s + 1" "l_op (ins ! c) = 36" "s < length (l_captures (ins ! c))"
    using layoutD(5) [OF lay k(1)] k(2) by (auto simp: owner_ok_def)
  show ?thesis
  proof (cases s)
    case 0
    then show ?thesis using c by simp
  next
    case (Suc r)
    have cl: "closure_ok ups ins c" using layoutD(6) [OF lay _ c(2)] c(1) k(1) by simp
    have "binds_at ins c r" using cl c(3) Suc by (simp add: closure_ok_def)
    then show ?thesis using c(1) Suc by (auto simp: binds_at_def unbound_def)
  qed
qed

lemma fall_through:
  assumes lay: "code_layout ups ins" and k: "k < length ins" and b: "boundary ins (int k)"
    and plain: "l_op (ins ! k) \<noteq> 36" "\<not> setlistHead (ins ! k)"
  shows "boundary_or_end ins (int k + 1)"
proof (cases "Suc k < length ins")
  case False
  then show ?thesis using k by (simp add: boundary_or_end_def)
next
  case True
  have "\<not> l_extraWord (ins ! Suc k)" using layoutD(2) [OF lay True] plain(2) by simp
  moreover have "unbound (ins ! Suc k)" using bound_step [OF lay True] b plain(1) by (auto simp: boundary_def)
  ultimately show ?thesis using True by (simp add: boundary_or_end_def boundary_def nat_add_distrib)
qed

lemma behind_setlist:
  assumes lay: "code_layout ups ins" and k: "k < length ins" and head: "setlistHead (ins ! k)"
  shows "boundary_or_end ins (int k + 2)"
proof (cases "Suc (Suc k) < length ins")
  case False
  then show ?thesis using layoutD(4) [OF lay k head] by (simp add: boundary_or_end_def)
next
  case True
  have extra: "l_extraWord (ins ! Suc k)" using layoutD(2) [OF lay, of "Suc k"] True head by simp
  then have op: "l_op (ins ! Suc k) = -1" using layoutD(3) [OF lay] True by simp
  have "\<not> setlistHead (ins ! Suc k)" using extra by (simp add: setlistHead_def)
  then have "\<not> l_extraWord (ins ! Suc (Suc k))" using layoutD(2) [OF lay True] by simp
  moreover have "unbound (ins ! Suc (Suc k))"
    using bound_step [OF lay True] op extra by (auto simp: bindable_def)
  ultimately show ?thesis using True by (simp add: boundary_or_end_def boundary_def nat_add_distrib numeral_2_eq_2)
qed

lemma behind_closure:
  assumes lay: "code_layout ups ins" and k: "k < length ins" and op: "l_op (ins ! k) = 36"
  shows "boundary_or_end ins (int k + 1 + int (length (l_captures (ins ! k))))"
proof -
  let ?e = "length (l_captures (ins ! k))"
  have cl: "closure_ok ups ins k" by (rule layoutD(6) [OF lay k op])
  have bindings: "binds_at ins k s" if "s < ?e" for s using cl that by (simp add: closure_ok_def)
  have last: "k + ?e < length ins" using bindings [of "?e - 1"] k by (cases ?e) (auto simp: binds_at_def)
  show ?thesis
  proof (cases "Suc (k + ?e) < length ins")
    case False
    then show ?thesis using last by (simp add: boundary_or_end_def)
  next
    case True
    have at_end: "ins ! (k + ?e) = ins ! k \<and> ?e = 0 \<or> bindable (ins ! (k + ?e))"
      using bindings [of "?e - 1"] by (cases ?e) (auto simp: binds_at_def)
    then have "\<not> setlistHead (ins ! (k + ?e))" using op by (auto simp: setlistHead_def bindable_def)
    then have "\<not> l_extraWord (ins ! Suc (k + ?e))" using layoutD(2) [OF lay True] by simp
    moreover have "unbound (ins ! Suc (k + ?e))"
    proof (rule ccontr)
      assume "\<not> unbound (ins ! Suc (k + ?e))"
      then obtain c s where c: "Suc (k + ?e) = c + s + 1" "l_op (ins ! c) = 36" "s < length (l_captures (ins ! c))"
        using layoutD(5) [OF lay True] by (auto simp: owner_ok_def)
      have clc: "closure_ok ups ins c" using layoutD(6) [OF lay _ c(2)] c(1) True by simp
      consider "c = k" | "k < c" | "c < k" by linarith
      then show False
      proof cases
        case 1
        then show ?thesis using c by simp
      next
        case 2
        then have "binds_at ins k (c - k - 1)" using c(1) by (intro bindings) linarith
        then show ?thesis using 2 c(2) by (auto simp: binds_at_def bindable_def)
      next
        case 3
        then have "binds_at ins c (k - c - 1)" using c(1,3) clc by (simp add: closure_ok_def)
        then show ?thesis using 3 op by (auto simp: binds_at_def bindable_def)
      qed
    qed
    ultimately show ?thesis using True by (simp add: boundary_or_end_def boundary_def nat_add_distrib)
  qed
qed

lemma checkTarget_boundary: "checkTarget f i = Inr () \<longleftrightarrow> boundary (q_code f) (l_target i)"
  by (auto simp: checkTarget_def res_simps boundary_def unbound_def)

lemma executed_checks:
  assumes "accepted f ups" "k < length (q_code f)" "boundary (q_code f) (int k)"
  shows "0 \<le> l_op (q_code f ! k)" "l_op (q_code f ! k) < 38"
    "c \<in> set (luaOperands f ups (q_code f ! k)) \<Longrightarrow> c = Inr ()"
  using accepted_code(5) [OF assms(1) nth_mem [OF assms(2)]] assms(3)
  by (auto simp: checkLuaInstr_def boundary_def unbound_def res_simps)

definition branches_away :: "lua_instr \<Rightarrow> bool" where
  "branches_away i \<longleftrightarrow> l_op i \<in> {22, 23, 24, 25, 26, 27, 31, 32, 33} \<or> l_op i = 2 \<and> l_c i \<noteq> 0"

lemma target_boundary:
  assumes "accepted f ups" "k < length (q_code f)" "boundary (q_code f) (int k)" "branches_away (q_code f ! k)"
  shows "boundary (q_code f) (l_target (q_code f ! k))"
proof -
  have "checkTarget f (q_code f ! k) \<in> set (luaOperands f ups (q_code f ! k)) \<or>
      l_op (q_code f ! k) = 2 \<and> whenever (l_c (q_code f ! k) \<noteq> 0) (checkTarget f (q_code f ! k)) \<in> set (luaOperands f ups (q_code f ! k))"
    using assms(4) unfolding branches_away_def by (elim disjE insertE) (simp_all add: luaOperands_def Let_def)
  then have "checkTarget f (q_code f ! k) = Inr ()"
    using executed_checks(3) [OF assms(1-3)] assms(4) by (auto simp: branches_away_def whenever_def)
  then show ?thesis by (simp add: checkTarget_boundary)
qed

lemma jump_boundary:
  assumes "accepted f ups" "k < length (q_code f)" "l_op (q_code f ! k) = 22"
  shows "boundary (q_code f) (int k)"
proof -
  note lay = layoutD [OF accepted_code(1) [OF assms(1)] assms(2)]
  have "\<not> l_extraWord (q_code f ! k)" using lay(3) assms(3) by auto
  moreover have "unbound (q_code f ! k)"
    using lay(5) assms(3) by (auto simp: owner_ok_def binds_at_def bindable_def)
  ultimately show ?thesis using assms(2) by (simp add: boundary_def)
qed

lemma target_of:
  assumes "accepted f ups" "k < length (q_code f)"
  shows "l_target (q_code f ! k) = jumpOf ((q_code f ! k)\<lparr>l_target := -1\<rparr>)" "l_pc (q_code f ! k) = int k"
proof -
  have "fields_ok (q_code f ! k)" using accepted_code(2) [OF assms(1)] assms(2) by (simp add: list_all_length)
  then show "l_target (q_code f ! k) = jumpOf ((q_code f ! k)\<lparr>l_target := -1\<rparr>)" by (simp add: fields_ok_def)
  show "l_pc (q_code f ! k) = int k" by (rule layoutD(1) [OF accepted_code(1) [OF assms(1)] assms(2)])
qed

lemma successor_boundary:
  assumes acc: "accepted f ups" and k: "k < length (q_code f)" and b: "boundary (q_code f) (int k)"
    and forloop: "l_op (q_code f ! k) = 33 \<Longrightarrow> l_op (q_code f ! (k + 1)) = 22"
    and t: "t \<in> set (controlSuccessors f (q_code f ! k))"
  shows "boundary_or_end (q_code f) t"
proof -
  let ?ins = "q_code f" and ?i = "q_code f ! k"
  note lay = accepted_code(1) [OF acc]
  note pc = target_of(2) [OF acc k]
  have here: "l_closureBindingFor ?i < 0" "\<not> l_extraWord ?i" using b by (simp_all add: boundary_def unbound_def)
  have skip: "boundary ?ins (int k + 2)" if "l_op ?i \<in> {23, 24, 25, 26, 27, 33} \<or> l_op ?i = 2 \<and> l_c ?i \<noteq> 0"
  proof -
    have "l_target ?i = int k + 2" using target_of [OF acc k] that by (auto simp: jumpOf_def)
    then show ?thesis using target_boundary [OF acc k b] that by (auto simp: branches_away_def)
  qed
  have own: "boundary ?ins (l_target ?i)" if "l_op ?i \<in> {22, 31, 32}"
    using target_boundary [OF acc k b] that by (auto simp: branches_away_def)
  have jump: "boundary ?ins (l_target (?ins ! Suc k))" if "Suc k < length ?ins" "l_op (?ins ! Suc k) = 22"
    using target_boundary [OF acc that(1) jump_boundary [OF acc that]] that(2) by (simp add: branches_away_def)
  have next_pc: "nat (int k + 1) = Suc k" by simp
  from t have t: "t \<in> set (rawSuccessors f ?i)" by (simp add: controlSuccessors_def)
  consider (stop) "l_op ?i \<in> {29, 30}" | (goto) "l_op ?i \<in> {22, 32}" | (test) "l_op ?i \<in> {23, 24, 25, 26, 27}"
    | (numeric) "l_op ?i = 31" | (generic) "l_op ?i = 33" | (skipping) "l_op ?i = 2 \<and> l_c ?i \<noteq> 0"
    | (block) "l_op ?i = 34 \<and> l_c ?i = 0" | (closure) "l_op ?i = 36"
    | (plain) "l_op ?i \<notin> {29, 30}" "l_op ?i \<notin> {22, 32}" "l_op ?i \<notin> {23, 24, 25, 26, 27}" "l_op ?i \<noteq> 31" "l_op ?i \<noteq> 33"
        "\<not> (l_op ?i = 2 \<and> l_c ?i \<noteq> 0)" "\<not> (l_op ?i = 34 \<and> l_c ?i = 0)" "l_op ?i \<noteq> 36"
    by metis
  then show ?thesis
  proof cases
    case stop
    then show ?thesis using t by (auto simp: rawSuccessors_def Let_def)
  next
    case goto
    then have "t = l_target ?i" using t here by (auto simp: rawSuccessors_def Let_def)
    then show ?thesis using own goto by (auto simp: boundary_or_end_def)
  next
    case test
    then have "23 \<le> l_op ?i \<and> l_op ?i \<le> 27" by auto
    then have "rawSuccessors f ?i = [if int k + 1 < int (length ?ins) \<and> l_op (?ins ! Suc k) = 22
        then l_target (?ins ! Suc k) else int k + 2, int k + 2]"
      using here pc next_pc by (simp add: rawSuccessors_def Let_def)
    then have "t = int k + 2 \<or> Suc k < length ?ins \<and> l_op (?ins ! Suc k) = 22 \<and> t = l_target (?ins ! Suc k)"
      using t by (simp split: if_splits) linarith
    then show ?thesis using skip jump test by (auto simp: boundary_or_end_def)
  next
    case numeric
    then have "t = l_target ?i \<or> t = int k + 1" using t here pc by (auto simp: rawSuccessors_def Let_def)
    then show ?thesis
      using own numeric fall_through [OF lay k b] by (auto simp: boundary_or_end_def setlistHead_def)
  next
    case generic
    have "boundary ?ins (int k + 2)" using skip generic by simp
    then have room: "Suc k < length ?ins" by (simp add: boundary_def)
    have "l_target (?ins ! Suc k) = int k + 1 + l_sbx (?ins ! Suc k) + 1"
      using target_of [OF acc room] forloop [OF generic] by (simp add: jumpOf_def)
    then have "followingControlTarget f ?i = l_target (?ins ! Suc k)"
      using room pc target_of(2) [OF acc room] next_pc by (simp add: followingControlTarget_def Let_def)
    then have "t = l_target (?ins ! Suc k) \<or> t = int k + 2"
      using t here pc generic by (auto simp: rawSuccessors_def Let_def)
    then show ?thesis using jump [OF room] forloop [OF generic] skip generic by (auto simp: boundary_or_end_def)
  next
    case skipping
    then have "t = int k + 2" using t here pc by (auto simp: rawSuccessors_def Let_def)
    then show ?thesis using skip skipping by (auto simp: boundary_or_end_def)
  next
    case block
    then have "t = int k + 2" using t here pc by (auto simp: rawSuccessors_def Let_def)
    then show ?thesis using behind_setlist [OF lay k] block here by (auto simp: setlistHead_def)
  next
    case closure
    then have "t = int k + 1 + int (length (l_captures ?i))" using t here pc by (auto simp: rawSuccessors_def Let_def)
    then show ?thesis using behind_closure [OF lay k closure] by simp
  next
    case plain
    have "23 \<le> l_op ?i \<and> l_op ?i \<le> 27 \<longrightarrow> l_op ?i \<in> {23, 24, 25, 26, 27}" by auto
    then have "t = int k + 1" using t here pc plain by (auto simp: rawSuccessors_def Let_def split: if_splits)
    then show ?thesis using fall_through [OF lay k b] plain by (auto simp: setlistHead_def)
  qed
qed

end
