(* ===== verification/Lua51_Frame.thy ===== *)
theory Lua51_Frame
  imports Lua51_Accept
begin

unbundle bit_operations_syntax

text \<open>
  The registers that the instructions of an accepted Lua 5.1 prototype touch, as the decompiler
  computes them, lie in its frame; and the prototypes of an accepted chunk, all of which are
  accepted, are numbered in preorder and stay within the limits of the reader.
\<close>

section \<open>Registers\<close>

lemma writes_frame:
  assumes acc: "accepted f ups" and k: "k < length (q_code f)" and w: "writesRegister (q_code f ! k) r (int (q_maxstack f))"
  shows "0 \<le> r \<and> r < int (q_maxstack f)"
proof -
  let ?i = "q_code f ! k"
  have b: "boundary (q_code f) (int k)"
    using w k by (auto simp: writesRegister_def boundary_def unbound_def split: if_splits)
  have ok: "\<forall>c\<in>set (luaOperands f ups ?i). c = Inr ()" using executed_checks(3) [OF acc k b] by blast
  have fields: "fields_ok ?i" using accepted_code(2) [OF acc] k by (simp add: list_all_length)
  have plain: "\<not> l_extraWord ?i" "\<not> 0 \<le> l_closureBindingFor ?i" using b by (simp_all add: boundary_def unbound_def)
  note unfold_writes = w [unfolded writesRegister_def Let_def, simplified plain if_False simp_thms]
  consider (single) "l_op ?i \<in> {0, 1, 2, 4, 5, 6, 10, 12, 13, 14, 15, 16, 17, 18, 19, 20, 21, 36}" "r = l_a ?i"
    | (nils) "l_op ?i = 3" "l_a ?i \<le> r" "r \<le> l_b ?i" | (self) "l_op ?i = 11" "r = l_a ?i \<or> r = l_a ?i + 1"
    | (testset) "l_op ?i = 27" "r = l_a ?i"
    | (call) "l_op ?i = 28" "l_a ?i \<le> r" "r < int (q_maxstack f) \<or> l_c ?i > 1 \<and> r \<le> l_a ?i + l_c ?i - 2"
    | (loop) "l_op ?i = 31 \<or> l_op ?i = 32" "r = l_a ?i \<or> r = l_a ?i + 3"
    | (generic) "l_op ?i = 33" "l_a ?i + 3 \<le> r" "r \<le> l_a ?i + 2 + l_c ?i"
    | (vararg) "l_op ?i = 37" "l_a ?i \<le> r" "r < int (q_maxstack f) \<or> l_b ?i > 1 \<and> r \<le> l_a ?i + l_b ?i - 2"
    using unfold_writes by (simp split: if_split_asm) 
  then show ?thesis
  proof cases
    case single
    have "checkLuaReg f ?i (l_a ?i) ''A'' \<in> set (luaOperands f ups ?i)"
      using single(1) unfolding insert_iff empty_iff by (elim disjE) (simp_all add: luaOperands_def Let_def)
    then show ?thesis using ok single by (auto simp: checkLuaReg_def res_simps)
  qed (use ok fields in \<open>auto simp: luaOperands_def Let_def checkLuaReg_def checkRange_def whenever_def res_simps fields_ok_def split: if_splits\<close>)
qed

lemma reads_frame:
  assumes acc: "accepted f ups" and k: "k < length (q_code f)" and w: "readsRegister (q_code f ! k) r (int (q_maxstack f))"
    and no_jump: "l_op (q_code f ! k) \<noteq> 22"
    and closed: "\<not> (l_op (q_code f ! k) \<in> {28, 29, 30, 34} \<and> l_b (q_code f ! k) = 0)"
  shows "0 \<le> r \<and> r < int (q_maxstack f)"
proof (cases "unbound (q_code f ! k)")
  case False
  then have "l_op (q_code f ! k) = 0" "l_b (q_code f ! k) = r" "\<not> l_extraWord (q_code f ! k)"
    using w by (auto simp: readsRegister_def unbound_def split: if_splits)
  then show ?thesis
    using accepted_code(5) [OF acc nth_mem [OF k]] False
    by (auto simp: checkLuaInstr_def unbound_def checkLuaReg_def res_simps)
next
  case True
  let ?i = "q_code f ! k"
  have b: "boundary (q_code f) (int k)"
    using w k True by (auto simp: readsRegister_def boundary_def split: if_splits)
  have ok: "\<forall>c\<in>set (luaOperands f ups ?i). c = Inr ()" using executed_checks(3) [OF acc k b] by blast
  note ops = executed_checks(1,2) [OF acc k b]
  have fields: "fields_ok ?i" using accepted_code(2) [OF acc] k by (simp add: list_all_length)
  have plain: "\<not> l_extraWord ?i" "\<not> 0 \<le> l_closureBindingFor ?i" using b by (simp_all add: boundary_def unbound_def)
  have "l_op ?i \<in> set [0..37]" using ops by simp
  then have "l_op ?i \<in> {0, 1, 2, 3, 4, 5, 6, 7, 8, 9, 10, 11, 12, 13, 14, 15, 16, 17, 18, 19, 20, 21, 22, 23, 24, 25, 26, 27,
      28, 29, 30, 31, 32, 33, 34, 35, 36, 37}"
    unfolding upto_rec_numeral by (simp add: upto.simps)
  then show ?thesis
    using no_jump unfolding insert_iff empty_iff
    by (elim disjE) (use w ok fields plain closed in \<open>auto simp: readsRegister_def luaOperands_def Let_def checkLuaReg_def
      checkRange_def checkRK_def whenever_def res_simps fields_ok_def split: if_split_asm\<close>)
qed

section \<open>The tree\<close>

text \<open>The prototypes in preorder, each with the upvalue counts of its children.\<close>

primrec protosOf :: "lua_proto \<Rightarrow> (lua_fields \<times> nat list) list" where
  "protosOf (LuaProto f cs) = (f, map (\<lambda>c. q_nups (lp_fields c)) cs) # concat (map protosOf cs)"

primrec parents_ok :: "lua_proto \<Rightarrow> bool" where
  "parents_ok (LuaProto f cs) \<longleftrightarrow>
    list_all id (map parents_ok cs) \<and> list_all (\<lambda>c. q_parent (lp_fields c) = int (q_id f)) cs"

primrec proto_depth :: "lua_proto \<Rightarrow> nat" where
  "proto_depth (LuaProto f cs) = Suc (foldr max (map proto_depth cs) 0)"

definition debugSize :: "lua_fields \<Rightarrow> nat" where
  "debugSize f = length (q_lines f) + length (q_locals f) + length (q_upvalues f)"

definition weigh :: "(lua_fields \<Rightarrow> nat) \<Rightarrow> (lua_fields \<times> nat list) list \<Rightarrow> nat" where
  "weigh m xs = sum_list (map (\<lambda>x. m (fst x)) xs)"

lemma weigh_simps [simp]: "weigh m [] = 0" "weigh m (x # xs) = m (fst x) + weigh m xs" "weigh m (xs @ ys) = weigh m xs + weigh m ys"
  by (simp_all add: weigh_def)

definition within :: "lua_totals \<Rightarrow> bool" where
  "within t \<longleftrightarrow> t5_prototypes t \<le> 100000 \<and> t5_instructions t \<le> 1000000 \<and> t5_constants t \<le> 1000000 \<and>
    t5_debugEntries t \<le> 1000000"

text \<open>From the totals \<open>t\<close> to the totals \<open>u\<close> the prototypes \<open>xs\<close> were read.\<close>

definition counted :: "lua_totals \<Rightarrow> lua_totals \<Rightarrow> (lua_fields \<times> nat list) list \<Rightarrow> bool" where
  "counted t u xs \<longleftrightarrow>
    t5_next u = t5_next t + length xs \<and> map (\<lambda>x. q_id (fst x)) xs = [t5_next t..<t5_next u] \<and>
    t5_prototypes u = t5_prototypes t + length xs \<and>
    t5_instructions u = t5_instructions t + weigh (\<lambda>f. length (q_code f)) xs \<and>
    t5_constants u = t5_constants t + weigh (\<lambda>f. length (q_constants f)) xs \<and>
    t5_debugEntries u = t5_debugEntries t + weigh debugSize xs \<and>
    list_all (\<lambda>(f, ups). accepted f ups) xs \<and> (within t \<longrightarrow> within u)"

lemma counted_nil: "counted t t []"
  by (simp add: counted_def)

lemma counted_append: "counted t u xs \<Longrightarrow> counted u v ys \<Longrightarrow> counted t v (xs @ ys)"
proof -
  assume a: "counted t u xs" and b: "counted u v ys"
  have ids: "map (\<lambda>x. q_id (fst x)) (xs @ ys) = [t5_next t..<t5_next v]"
    using a b upt_add_eq_append [of "t5_next t" "t5_next u" "length ys"] by (simp add: counted_def)
  show ?thesis unfolding counted_def ids using a b by (simp add: counted_def)
qed

lemma rmany_all:
  assumes "rmany n p bs pos = Inr (xs, q)" "\<And>bs pos x q. p bs pos = Inr (x, q) \<Longrightarrow> P x"
  shows "length xs = n \<and> list_all P xs"
  by (rule rloop_invariant [where I = "\<lambda>k xs pos. length xs = k \<and> list_all P xs", OF assms(1) [unfolded rmany_def]])
    (auto simp: res_simps assms(2))

lemma rmany_length: "rmany n p bs pos = Inr (xs, q) \<Longrightarrow> length xs = n"
  using rmany_all [where P = "\<lambda>_. True"] by fast

lemma luaConstant_written:
  assumes "luaConstant fmt bs pos = Inr (c, q)"
  shows "constant_written c"
proof -
  have hex: "plain (lua_bytesHex s)" for s using hexBytes_plain [of s] by (simp add: lua_bytesHex_def hexBytes_def)
  have names: "plain ''nil''" "plain ''boolean''" "plain ''number''" "plain ''string''" "plain []" by (simp_all add: plain_simps)
  show ?thesis
    using assms by (auto simp: luaConstant_def res_simps constant_written_def Let_def hex names split: if_splits)
qed

lemma lua_count_bound: "lua_count fmt left m bs pos = Inr (n, q) \<Longrightarrow> n \<le> left"
  by (auto simp: lua_count_def res_simps split: if_splits)

lemma luaHead_fields:
  assumes "luaHead fmt k parent bs pos = Inr (f, q)"
  shows "q_id f = k" "q_parent f = parent" "0 < q_maxstack f" "q_maxstack f < 256"
proof -
  have nz: "\<not> m = 0 \<Longrightarrow> 0 < unat m" "unat m < 256" for m :: u8
    using unsigned_less [of m] by (simp_all add: unat_gt_0)
  show "q_id f = k" "q_parent f = parent" "0 < q_maxstack f" "q_maxstack f < 256"
    using assms nz by (auto simp: luaHead_def res_simps split: if_splits)
qed

lemma luaCode_fields:
  assumes "luaCode fmt (t, f) bs pos = Inr ((u, g), q)"
  shows "\<exists>raw ins. decodeWords [] False raw = Inr ins \<and> g = f\<lparr>q_code := ins\<rparr> \<and> t5_instructions t + length ins \<le> max (t5_instructions t) 1000000 \<and>
    u = t\<lparr>t5_instructions := t5_instructions t + length ins\<rparr>"
proof -
  obtain n p1 raw p2 ins p3 where n: "lua_count fmt (1000000 - t5_instructions t) ''Lua instruction limit exceeded'' bs pos = Inr (n, p1)"
    and raw: "rmany n (lua_u32 fmt) bs p1 = Inr (raw, p2)" and ins: "rlift (decodeWords [] False raw) bs p2 = Inr (ins, p3)"
    and res: "u = t\<lparr>t5_instructions := t5_instructions t + n\<rparr>" "g = f\<lparr>q_code := ins\<rparr>"
    using assms by (auto simp: luaCode_def res_simps)
  have dec: "decodeWords [] False raw = Inr ins" using ins by (simp add: rlift_def split: sum.splits)
  have len: "length ins = n" using decodeWords_ok [OF dec] rmany_length [OF raw] by auto
  show ?thesis using dec res len lua_count_bound [OF n] by (intro exI [of _ raw] exI [of _ ins]) auto
qed

lemma luaConstants_fields:
  assumes "luaConstants fmt (t, f) bs pos = Inr ((u, g), q)"
  shows "\<exists>ks. g = f\<lparr>q_constants := map lc_lua ks, q_constantTable := ks\<rparr> \<and> t5_constants t + length ks \<le> max (t5_constants t) 1000000 \<and>
    u = t\<lparr>t5_constants := t5_constants t + length ks\<rparr> \<and> list_all constant_written ks"
proof -
  obtain n p1 ks p2 where n: "lua_count fmt (1000000 - t5_constants t) ''Lua constant limit exceeded'' bs pos = Inr (n, p1)"
    and ks: "rmany n (luaConstant fmt) bs p1 = Inr (ks, p2)"
    and res: "u = t\<lparr>t5_constants := t5_constants t + n\<rparr>" "g = f\<lparr>q_constants := map lc_lua ks, q_constantTable := ks\<rparr>"
    using assms by (auto simp: luaConstants_def res_simps)
  have "length ks = n \<and> list_all constant_written ks" by (rule rmany_all [OF ks]) (rule luaConstant_written)
  then show ?thesis using lua_count_bound [OF n] res by auto
qed

lemma luaDebugTable_fields:
  assumes "luaDebugTable fmt m p t bs pos = Inr ((u, xs), q)"
  shows "u = t\<lparr>t5_debugEntries := t5_debugEntries t + length xs\<rparr>" "t5_debugEntries t + length xs \<le> max (t5_debugEntries t) 1000000"
  using assms by (auto simp: luaDebugTable_def res_simps dest!: lua_count_bound rmany_length)

lemma luaDebug_fields:
  assumes "luaDebug fmt (t, f) bs pos = Inr ((u, g), q)"
  shows "\<exists>ls locs us. g = f\<lparr>q_lines := ls, q_locals := locs, q_upvalues := us\<rparr> \<and>
    u = t\<lparr>t5_debugEntries := t5_debugEntries t + debugSize g\<rparr> \<and> t5_debugEntries t + debugSize g \<le> max (t5_debugEntries t) 1000000"
proof -
  obtain t1 ls p1 t2 locs p2 t3 us p3 where *:
    "luaDebugTable fmt ''Lua lineinfo limit exceeded'' (lua_i32 fmt) t bs pos = Inr ((t1, ls), p1)"
    "luaDebugTable fmt ''Lua local debug limit exceeded'' (luaLocal fmt) t1 bs p1 = Inr ((t2, locs), p2)"
    "luaDebugTable fmt ''Lua upvalue debug limit exceeded'' (luaString fmt) t2 bs p2 = Inr ((t3, us), p3)"
    and res: "u = t3" "g = f\<lparr>q_lines := ls, q_locals := locs, q_upvalues := us\<rparr>"
    using assms by (auto simp: luaDebug_def res_simps)
  show ?thesis
    using luaDebugTable_fields [OF *(1)] luaDebugTable_fields [OF *(2)] luaDebugTable_fields [OF *(3)] res
    by (intro exI [of _ ls] exI [of _ locs] exI [of _ us]) (auto simp: debugSize_def add.assoc)
qed

lemma luaFinish_fields:
  assumes "luaFinish cs g = Inr f"
  shows "associateClosureCaptures (map (\<lambda>c. q_nups (lp_fields c)) cs) g = Inr f"
    "validateProtoData f (map (\<lambda>c. q_nups (lp_fields c)) cs) = Inr ()"
  using assms by (auto simp: luaFinish_def Let_def res_simps)

lemma counted_upto: "counted t u xs \<Longrightarrow> within t \<Longrightarrow> within u"
  by (simp add: counted_def)

text \<open>The children: each is read one level deeper, with the parent's id.\<close>

definition child_ok :: "int \<Rightarrow> nat \<Rightarrow> lua_proto \<Rightarrow> bool" where
  "child_ok parent depth p \<longleftrightarrow> q_parent (lp_fields p) = parent \<and> parents_ok p \<and> depth + proto_depth p \<le> 129"

lemma children_ok:
  assumes "rloop n (luaChild child) (t, []) bs pos = Inr ((u, ps), q)"
    and "\<And>t u p bs pos q. child t bs pos = Inr ((u, p), q) \<Longrightarrow> counted t u (protosOf p) \<and> child_ok parent depth p"
  shows "counted t u (concat (map protosOf ps)) \<and> list_all (child_ok parent depth) ps"
proof -
  have "counted t (fst (u, ps)) (concat (map protosOf (snd (u, ps)))) \<and> list_all (child_ok parent depth) (snd (u, ps))"
  proof (rule rloop_invariant [where I = "\<lambda>k s pos. counted t (fst s) (concat (map protosOf (snd s))) \<and>
      list_all (child_ok parent depth) (snd s)", OF assms(1)])
    show "counted t (fst (t, [])) (concat (map protosOf (snd (t, [])))) \<and> list_all (child_ok parent depth) (snd (t, []))"
      by (simp add: counted_nil)
    fix k :: nat and s s' :: "lua_totals \<times> lua_proto list" and pos q
    assume I: "counted t (fst s) (concat (map protosOf (snd s))) \<and> list_all (child_ok parent depth) (snd s)"
      and step: "luaChild child s bs pos = Inr (s', q)"
    obtain u p q' where p: "child (fst s) bs pos = Inr ((u, p), q')" "s' = (u, snd s @ [p])"
      using step by (auto simp: luaChild_def res_simps)
    show "counted t (fst s') (concat (map protosOf (snd s'))) \<and> list_all (child_ok parent depth) (snd s')"
      using I assms(2) [OF p(1)] p(2) counted_append [of t "fst s" "concat (map protosOf (snd s))" u "protosOf p"] by simp
  qed
  then show ?thesis by simp
qed

lemma foldr_max_bound: "list_all (\<lambda>x. f x \<le> b) xs \<Longrightarrow> foldr max (map f xs) 0 \<le> (b :: nat)"
  by (induction xs) auto

lemma luaProto_ok:
  assumes "luaProto fmt parent depth t bs pos = Inr ((u, p), q)"
  shows "counted t u (protosOf p) \<and> child_ok parent depth p"
  using assms
proof (induction "129 - depth" arbitrary: depth parent t u p bs pos q rule: less_induct)
  case less
  let ?t1 = "t\<lparr>t5_prototypes := t5_prototypes t + 1, t5_next := t5_next t + 1\<rparr>"
  have depth: "depth \<le> 128" and limit: "t5_prototypes t + 1 \<le> 100000"
    using less.prems by (subst (asm) luaProto.simps, auto split: if_splits)+
  obtain f0 p0 t2 f1 p1 t3 f2 p2 np p3 t4 cs p4 t5 f3 p5 f p6 where
    head: "luaHead fmt (t5_next t) parent bs pos = Inr (f0, p0)" and
    ins: "luaCode fmt (?t1, f0) bs p0 = Inr ((t2, f1), p1)" and
    pool: "luaConstants fmt (t2, f1) bs p1 = Inr ((t3, f2), p2)" and
    kids: "rloop np (luaChild (luaProto fmt (int (t5_next t)) (depth + 1))) (t3, []) bs p3 = Inr ((t4, cs), p4)" and
    debug: "luaDebug fmt (t4, f2) bs p4 = Inr ((t5, f3), p5)" and
    fin: "rlift (luaFinish cs f3) bs p5 = Inr (f, p6)" and
    res: "u = t5" "p = LuaProto f cs"
    using less.prems depth limit by (subst (asm) luaProto.simps) (auto simp: res_simps)
  have deeper: "counted t' u' (protosOf p') \<and> child_ok (int (t5_next t)) (depth + 1) p'"
    if "luaProto fmt (int (t5_next t)) (depth + 1) t' bs' pos' = Inr ((u', p'), q')" for t' u' p' bs' pos' q'
    using less.hyps [OF _ that] depth by simp
  have children: "counted t3 t4 (concat (map protosOf cs)) \<and> list_all (child_ok (int (t5_next t)) (depth + 1)) cs"
    by (rule children_ok [OF kids]) (rule deeper)
  obtain raw out where code: "decodeWords [] False raw = Inr out" "f1 = f0\<lparr>q_code := out\<rparr>"
    "t5_instructions t + length out \<le> max (t5_instructions t) 1000000"
    "t2 = ?t1\<lparr>t5_instructions := t5_instructions t + length out\<rparr>"
    using luaCode_fields [OF ins] by auto
  obtain ks where ks: "f2 = f1\<lparr>q_constants := map lc_lua ks, q_constantTable := ks\<rparr>"
    "t5_constants t2 + length ks \<le> max (t5_constants t2) 1000000" "t3 = t2\<lparr>t5_constants := t5_constants t2 + length ks\<rparr>"
    "list_all constant_written ks"
    using luaConstants_fields [OF pool] by auto
  obtain ls locs us where dbg: "f3 = f2\<lparr>q_lines := ls, q_locals := locs, q_upvalues := us\<rparr>"
    "t5 = t4\<lparr>t5_debugEntries := t5_debugEntries t4 + debugSize f3\<rparr>"
    "t5_debugEntries t4 + debugSize f3 \<le> max (t5_debugEntries t4) 1000000"
    using luaDebug_fields [OF debug] by auto
  let ?ups = "map (\<lambda>c. q_nups (lp_fields c)) cs"
  have "luaFinish cs f3 = Inr f" using fin by (simp add: rlift_def split: sum.splits)
  note finish = luaFinish_fields [OF this]
  note fields = associate_fields [OF finish(1)]
  have dec: "decodeWords [] False raw = Inr (q_code f3)" using code ks(1) dbg(1) by simp
  have acc: "accepted f ?ups"
    unfolding accepted_def
    by (rule exI [of _ f3], rule exI [of _ raw]) (use dec finish luaHead_fields(3,4) [OF head] code(2) ks(1,4) dbg(1) in simp)
  have sizes: "length (q_code f) = length out" "length (q_constants f) = length ks" "debugSize f = debugSize f3"
    using associated_code(1) [OF dec finish(1)] fields dbg(1) ks(1) code(2) by (simp_all add: debugSize_def)
  have ids: "q_id f = t5_next t" "q_parent f = parent"
    using fields luaHead_fields(1,2) [OF head] dbg(1) ks(1) code(2) by simp_all
  have c: "t5_next t4 = t5_next t + 1 + length (concat (map protosOf cs))"
    "map (\<lambda>x. q_id (fst x)) (concat (map protosOf cs)) = [t5_next t + 1..<t5_next t4]"
    "t5_prototypes t4 = t5_prototypes t + 1 + length (concat (map protosOf cs))"
    "t5_instructions t4 = t5_instructions t + length out + weigh (\<lambda>f. length (q_code f)) (concat (map protosOf cs))"
    "t5_constants t4 = t5_constants t + length ks + weigh (\<lambda>f. length (q_constants f)) (concat (map protosOf cs))"
    "t5_debugEntries t4 = t5_debugEntries t + weigh debugSize (concat (map protosOf cs))"
    "list_all (\<lambda>(f, ups). accepted f ups) (concat (map protosOf cs))" "within t3 \<longrightarrow> within t4"
    using children code(4) ks(3) by (simp_all add: counted_def)
  have "within t \<longrightarrow> within t3" using code(3,4) ks(2,3) limit by (auto simp: within_def)
  then have lim: "within t \<longrightarrow> within t5" using c(8) dbg(2,3) by (auto simp: within_def)
  have "map (\<lambda>x. q_id (fst x)) ((f, ?ups) # concat (map protosOf cs)) = [t5_next t..<t5_next t5]"
    using c(1,2) ids(1) dbg(2) upt_conv_Cons [of "t5_next t" "t5_next t5"] by simp
  then have "counted t u (protosOf p)"
    unfolding counted_def res protosOf.simps using c lim acc sizes dbg(2) by simp
  moreover have "depth + proto_depth p \<le> 129"
  proof -
    have "list_all (\<lambda>x. proto_depth x \<le> 128 - depth) cs"
      using children depth by (auto simp: list_all_iff child_ok_def)
    then show ?thesis using foldr_max_bound [of proto_depth "128 - depth" cs] depth by (simp add: res)
  qed
  moreover have "parents_ok p" using children ids(1) by (auto simp: res child_ok_def list_all_iff)
  ultimately show ?case using ids(2) by (simp add: child_ok_def res)
qed

lemma parsed_tree:
  assumes "lua_parse bs = Inr p"
  shows "list_all (\<lambda>(f, ups). accepted f ups) (protosOf p)" "map (\<lambda>x. q_id (fst x)) (protosOf p) = [0..<length (protosOf p)]"
    "parents_ok p" "q_parent (lp_fields p) = -1" "proto_depth p \<le> 129" "length (protosOf p) \<le> 100000"
    "weigh (\<lambda>f. length (q_code f)) (protosOf p) \<le> 1000000" "weigh (\<lambda>f. length (q_constants f)) (protosOf p) \<le> 1000000"
    "weigh debugSize (protosOf p) \<le> 1000000"
proof -
  obtain fmt t pos q where "luaProto fmt (-1) 0 zeroTotals bs pos = Inr ((t, p), q)"
    using assms by (auto simp: lua_parse_def res_simps)
  note ok = luaProto_ok [OF this]
  have "within zeroTotals" by (simp add: within_def zeroTotals_def)
  then show "list_all (\<lambda>(f, ups). accepted f ups) (protosOf p)" "map (\<lambda>x. q_id (fst x)) (protosOf p) = [0..<length (protosOf p)]"
    "parents_ok p" "q_parent (lp_fields p) = -1" "proto_depth p \<le> 129" "length (protosOf p) \<le> 100000"
    "weigh (\<lambda>f. length (q_code f)) (protosOf p) \<le> 1000000" "weigh (\<lambda>f. length (q_constants f)) (protosOf p) \<le> 1000000"
    "weigh debugSize (protosOf p) \<le> 1000000"
    using ok by (auto simp: counted_def child_ok_def zeroTotals_def within_def)
qed

end
