(* ===== verification/Lua51_Text.thy ===== *)
theory Lua51_Text
  imports Lua51_Names Tarjan Json_Text
begin

unbundle bit_operations_syntax

text \<open>
  The reports over Lua 5.1 chunks in \<^verbatim>\<open>byteveil_decompiler/Lua51.cpp\<close>: JSON, disassembly, graph,
  constants, prototypes and the state machine of the structured mode. \<^verbatim>\<open>inspect\<close>, which chooses among
  them and the readable decompilation, is in \<open>Lua51_Inspect\<close>.
\<close>

section \<open>Names and escapes\<close>

definition luaOps :: "string list" where
  "luaOps =
    [''MOVE'', ''LOADK'', ''LOADBOOL'', ''LOADNIL'', ''GETUPVAL'', ''GETGLOBAL'', ''GETTABLE'', ''SETGLOBAL'',
     ''SETUPVAL'', ''SETTABLE'', ''NEWTABLE'', ''SELF'', ''ADD'', ''SUB'', ''MUL'', ''DIV'', ''MOD'', ''POW'',
     ''UNM'', ''NOT'', ''LEN'', ''CONCAT'', ''JMP'', ''EQ'', ''LT'', ''LE'', ''TEST'', ''TESTSET'', ''CALL'',
     ''TAILCALL'', ''RETURN'', ''FORLOOP'', ''FORPREP'', ''TFORLOOP'', ''SETLIST'', ''CLOSE'', ''CLOSURE'',
     ''VARARG'']"

definition opName :: "int \<Rightarrow> string" where
  "opName op = (if op = -1 then ''EXTRAARG'' else if 0 \<le> op \<and> op < 38 then luaOps ! nat op else ''UNKNOWN'')"

definition escapeByte :: "char \<Rightarrow> string" where
  "escapeByte c = [CHR 0x5C, CHR ''u'', CHR ''0'', CHR ''0'', digit_char (byte c div 16), digit_char (byte c mod 16)]"

text \<open>The tests on a multi-byte sequence that starts with \<open>c\<close> and goes on with \<open>s\<close>.\<close>

definition utf8Length :: "char \<Rightarrow> nat" where
  "utf8Length c =
    (if 0xc2 \<le> byte c \<and> byte c \<le> 0xdf then 2 else if 0xe0 \<le> byte c \<and> byte c \<le> 0xef then 3
     else if 0xf0 \<le> byte c \<and> byte c \<le> 0xf4 then 4 else 0)"

definition utf8Valid :: "char \<Rightarrow> string \<Rightarrow> bool" where
  "utf8Valid c s \<longleftrightarrow>
    (let k = utf8Length c; second = byte (hd s) in
     k \<noteq> 0 \<and> k \<le> Suc (length s) \<and> list_all (\<lambda>d. byte d div 64 = 2) (take (k - 1) s) \<and>
     (k = 3 \<longrightarrow> \<not> (byte c = 0xe0 \<and> second < 0xa0 \<or> byte c = 0xed \<and> second \<ge> 0xa0)) \<and>
     (k = 4 \<longrightarrow> \<not> (byte c = 0xf0 \<and> second < 0x90 \<or> byte c = 0xf4 \<and> second \<ge> 0x90)))"

function lua_jsonEscape :: "string \<Rightarrow> string" where
  "lua_jsonEscape [] = []"
| "lua_jsonEscape (c # s) =
    (if c = CHR 0x22 then [CHR 0x5C, CHR 0x22] @ lua_jsonEscape s
     else if c = CHR 0x5C then [CHR 0x5C, CHR 0x5C] @ lua_jsonEscape s
     else if c = CHR 0x08 then [CHR 0x5C, CHR ''b''] @ lua_jsonEscape s
     else if c = CHR 0x0C then [CHR 0x5C, CHR ''f''] @ lua_jsonEscape s
     else if c = CHR 0x0A then [CHR 0x5C, CHR ''n''] @ lua_jsonEscape s
     else if c = CHR 0x0D then [CHR 0x5C, CHR ''r''] @ lua_jsonEscape s
     else if c = CHR 0x09 then [CHR 0x5C, CHR ''t''] @ lua_jsonEscape s
     else if byte c < 0x20 then escapeByte c @ lua_jsonEscape s
     else if byte c < 0x80 then c # lua_jsonEscape s
     else if utf8Valid c s then
       c # take (utf8Length c - 1) s @ lua_jsonEscape (drop (utf8Length c - 1) s)
     else escapeByte c @ lua_jsonEscape s)"
  by pat_completeness auto
termination by (relation "measure length") auto

declare lua_jsonEscape.simps(2) [simp del]

text \<open>It is the same function as \<^verbatim>\<open>esc\<close> of \<^verbatim>\<open>IR.cpp\<close>.\<close>

lemma utf8Valid_eq: "utf8Valid c s = validSequence c s" "utf8Length c = sequenceLength (byte c)"
  by (simp_all add: utf8Valid_def validSequence_def utf8Length_def sequenceLength_def continuation_def [abs_def])

lemma escapeByte_eq: "escapeByte c = hexByte c"
  by (simp add: escapeByte_def hexByte_def)

lemma lua_jsonEscape_esc: "lua_jsonEscape s = esc s"
proof (induction s rule: length_induct)
  case (1 s)
  show ?case
  proof (cases s)
    case Nil
    then show ?thesis by simp
  next
    case (Cons c t)
    have IH: "lua_jsonEscape t = esc t" "lua_jsonEscape (drop k t) = esc (drop k t)" for k
      using 1 Cons by simp_all
    show ?thesis
      unfolding Cons lua_jsonEscape.simps(2) esc.simps(2) shortEscape_def utf8Valid_eq escapeByte_eq IH Let_def
      by simp
  qed
qed

section \<open>JSON\<close>

text \<open>The sites that \<^verbatim>\<open>advanced\<close> counts: GETTABLE, SETTABLE and SELF.\<close>

definition tableAccess :: "lua_instr \<Rightarrow> bool" where
  "tableAccess i \<longleftrightarrow> l_op i = 6 \<or> l_op i = 9 \<or> l_op i = 11"

definition countWhere :: "('a \<Rightarrow> bool) \<Rightarrow> 'a list \<Rightarrow> nat" where
  "countWhere p xs = length (filter p xs)"

definition overlaps :: "lua_local \<Rightarrow> lua_local \<Rightarrow> bool" where
  "overlaps l m \<longleftrightarrow> ll_name l = ll_name m \<and> ll_start l < ll_end m \<and> ll_start m < ll_end l"

fun scopeOverlaps :: "lua_local list \<Rightarrow> nat" where
  "scopeOverlaps [] = 0"
| "scopeOverlaps (l # ls) = countWhere (overlaps l) ls + scopeOverlaps ls"

definition hasSub :: "string \<Rightarrow> string \<Rightarrow> bool" where
  "hasSub pat s = list_ex (\<lambda>k. take (length pat) (drop k s) = pat) [0..<Suc (length s)]"

definition metamethodName :: "string \<Rightarrow> bool" where
  "metamethodName c \<longleftrightarrow> hasSub ''__index'' c \<or> hasSub ''__newindex'' c \<or> hasSub ''__call'' c"

text \<open>
  The graph of \<^verbatim>\<open>advanced\<close>: the explicit target, and the next instruction only behind a conditional.
\<close>

definition branchEdges :: "nat \<Rightarrow> lua_instr \<Rightarrow> nat list" where
  "branchEdges n i =
    (if 0 \<le> l_target i \<and> l_target i < int n then [nat (l_target i)] else []) @
    (if l_pc i + 1 < int n \<and> (23 \<le> l_op i \<and> l_op i \<le> 27 \<or> l_op i = 33) then [nat (l_pc i + 1)] else [])"

definition branchComponents :: "lua_instr list \<Rightarrow> nat list list option" where
  "branchComponents ins = components (length ins) (\<lambda>v. branchEdges (length ins) (ins ! v)) (\<lambda>_. True)"

text \<open>
  The search returns for every graph (\<open>branchComponents_total\<close>), so the default of this
  definition is never used.
\<close>

definition branchSccs :: "lua_instr list \<Rightarrow> nat" where
  "branchSccs ins = (case branchComponents ins of None \<Rightarrow> 0 | Some cs \<Rightarrow> countWhere (\<lambda>c. length c > 1) cs)"

interpretation branches: search "length ins" "\<lambda>v. branchEdges (length ins) (ins ! v)" "\<lambda>_. True"
  for ins :: "lua_instr list"
  by unfold_locales (auto simp: branchEdges_def)

lemma branchComponents_total:
  "\<exists>cs. branchComponents ins = Some cs \<and> distinct (concat cs) \<and> set (concat cs) = {..<length ins}"
proof -
  obtain cs where "branchComponents ins = Some cs" "distinct (concat cs)" "set (concat cs) = {b. b < length ins}"
    using branches.components_exist [of ins] unfolding branchComponents_def by auto
  then show ?thesis by (auto simp: lessThan_def)
qed

definition advanced :: "lua_fields \<Rightarrow> string" where
  "advanced f = object_text
    [field ''alias_hazards'' (nat_text (countWhere tableAccess (q_code f))),
     field ''scope_overlaps'' (nat_text (scopeOverlaps (q_locals f))),
     field ''dynamic_metamethod_sites''
       (nat_text (countWhere tableAccess (q_code f) + countWhere metamethodName (q_constants f))),
     field ''irreducible_or_loop_sccs'' (nat_text (branchSccs (q_code f)))]"

definition jsonLuaLocal :: "lua_local \<Rightarrow> string" where
  "jsonLuaLocal l = object_text
    [field ''name'' (quoted (lua_jsonEscape (ll_name l))), field ''name_bytes_hex'' (quoted (lua_bytesHex (ll_name l))),
     field ''start_pc'' (int_text (ll_start l)), field ''end_pc'' (int_text (ll_end l))]"

definition jsonLuaConstant :: "nat \<Rightarrow> lua_constant \<Rightarrow> string" where
  "jsonLuaConstant index c = object_text
    [field ''index'' (nat_text index), field ''type'' (quoted (lc_type c)),
     field ''value'' (quoted (lua_jsonEscape (lc_value c))), field ''lua'' (quoted (lua_jsonEscape (lc_lua c))),
     field ''string_bytes_hex'' (quoted (lc_stringBytesHex c))]"

definition jsonCapture :: "nat \<Rightarrow> capture_info \<Rightarrow> string" where
  "jsonCapture slot c = object_text
    [field ''slot'' (nat_text slot), field ''binding_pc'' (int_text (cap_bindingPc c)),
     field ''kind'' (quoted (if cap_fromUpvalue c then ''upvalue'' else ''local'')),
     field ''source_index'' (int_text (cap_sourceIndex c))]"

text \<open>A list of which every element is rendered with its index.\<close>

definition indexed :: "(nat \<Rightarrow> 'a \<Rightarrow> string) \<Rightarrow> 'a list \<Rightarrow> string list" where
  "indexed render xs = map (\<lambda>k. render k (xs ! k)) [0..<length xs]"

definition jsonLuaInstr :: "lua_fields \<Rightarrow> lua_instr \<Rightarrow> string" where
  "jsonLuaInstr f i = object_text
    [field ''pc'' (int_text (l_pc i)),
     field ''line'' (int_text (if l_pc i < int (length (q_lines f)) then q_lines f ! nat (l_pc i) else -1)),
     field ''opcode'' (int_text (l_op i)), field ''opcode_name'' (quoted (opName (l_op i))),
     field ''a'' (int_text (l_a i)), field ''b'' (int_text (l_b i)), field ''c'' (int_text (l_c i)),
     field ''bx'' (int_text (l_bx i)), field ''sbx'' (int_text (l_sbx i)),
     field ''jump_target'' (int_text (l_target i)), field ''extra_word'' (bool_text (l_extraWord i)),
     field ''setlist_block'' (int_text (l_setlistBlock i)),
     field ''open_tail'' (bool_text (l_op i = 34 \<and> l_b i = 0)),
     field ''open_producer_pc'' (int_text (l_openProducer i)),
     field ''closure_binding_for_pc'' (int_text (l_closureBindingFor i)),
     field ''capture_slot'' (int_text (l_captureSlot i)),
     field ''captures'' (array_text (indexed jsonCapture (l_captures i)))]"

definition jsonLuaFields :: "lua_fields \<Rightarrow> string list" where
  "jsonLuaFields f =
    [field ''id'' (nat_text (q_id f)), field ''parent_id'' (int_text (q_parent f)),
     field ''source'' (quoted (lua_jsonEscape (q_source f))), field ''source_bytes_hex'' (quoted (lua_bytesHex (q_source f))),
     field ''parameters'' (nat_text (q_params f)), field ''registers'' (nat_text (q_maxstack f)),
     field ''analysis'' (advanced f),
     field ''line_defined'' (int_text (q_linedefined f)), field ''last_line'' (int_text (q_lastline f)),
     field ''lines'' (array_text (map int_text (q_lines f))),
     field ''locals'' (array_text (map jsonLuaLocal (q_locals f))),
     field ''upvalues'' (array_text (map (\<lambda>u. quoted (lua_jsonEscape u)) (q_upvalues f))),
     field ''upvalue_bytes_hex'' (array_text (map (\<lambda>u. quoted (lua_bytesHex u)) (q_upvalues f))),
     field ''constants'' (array_text (map (\<lambda>c. quoted (lua_jsonEscape c)) (q_constants f))),
     field ''constant_table'' (array_text (indexed jsonLuaConstant (q_constantTable f))),
     field ''instructions'' (array_text (map (jsonLuaInstr f) (q_code f)))]"

primrec jsonProto :: "lua_proto \<Rightarrow> string" where
  "jsonProto (LuaProto f cs) =
    object_text (jsonLuaFields f @ [field ''children'' (array_text (map jsonProto cs))])"

definition lua_json :: "lua_proto \<Rightarrow> string" where
  "lua_json p = object_text
    [field ''format'' (quoted ''Lua 5.1 bytecode''), field ''version'' (nat_text 81),
     field ''root_function'' (jsonProto p)] @ newline"

section \<open>Disassembly and listings\<close>

definition disCapture :: "nat \<Rightarrow> capture_info \<Rightarrow> string" where
  "disCapture slot c =
    '' ['' @ nat_text slot @ '':'' @ (if cap_fromUpvalue c then ''upvalue'' else ''local'') @ '' '' @
    int_text (cap_sourceIndex c) @ '' at '' @ int_text (cap_bindingPc c) @ '']''"

definition disInstr :: "lua_instr \<Rightarrow> string" where
  "disInstr i =
    ''  @'' @ int_text (l_pc i) @ '' '' @ opName (l_op i) @
    (if l_extraWord i then '' raw='' @ nat_text (unat (l_raw i))
     else '' A='' @ int_text (l_a i) @ '' B='' @ int_text (l_b i) @ '' C='' @ int_text (l_c i) @
       '' Bx='' @ int_text (l_bx i) @ '' sBx='' @ int_text (l_sbx i) @
       (if l_op i = 34 then '' block='' @ int_text (l_setlistBlock i) else [])) @
    (if l_target i \<ge> 0 then '' -> '' @ int_text (l_target i) else []) @
    (if l_op i = 34 \<and> l_b i = 0 then '' OPEN_TAIL producer='' @ int_text (l_openProducer i) else []) @
    (if l_closureBindingFor i \<ge> 0 then
       '' CLOSURE_BINDING owner='' @ int_text (l_closureBindingFor i) @ '' slot='' @ int_text (l_captureSlot i) else []) @
    (if l_op i = 36 then '' CAPTURES='' @ nat_text (length (l_captures i)) @ concat (indexed disCapture (l_captures i))
     else []) @ newline"

primrec disProto :: "lua_proto \<Rightarrow> string" where
  "disProto (LuaProto f cs) =
    ''function '' @ nat_text (q_id f) @ '' parent='' @ int_text (q_parent f) @ '' params='' @ nat_text (q_params f) @
    '' registers='' @ nat_text (q_maxstack f) @ '' constants='' @ nat_text (length (q_constants f)) @ newline @
    concat (map disInstr (q_code f)) @ concat (map disProto cs)"

definition luaConstantLine :: "nat \<Rightarrow> lua_constant \<Rightarrow> string" where
  "luaConstantLine k c =
    ''  ['' @ nat_text k @ ''] '' @ lc_type c @ '' value='' @ quoted (lua_jsonEscape (lc_value c)) @
    '' lua='' @ lc_lua c @ (if lc_stringBytesHex c \<noteq> [] then '' bytes='' @ lc_stringBytesHex c else []) @ newline"

primrec constantsProto :: "lua_proto \<Rightarrow> string" where
  "constantsProto (LuaProto f cs) =
    ''function '' @ nat_text (q_id f) @ '' constants: '' @ nat_text (length (q_constantTable f)) @ newline @
    concat (indexed luaConstantLine (q_constantTable f)) @ concat (map constantsProto cs)"

primrec prototypesProto :: "lua_proto \<Rightarrow> string" where
  "prototypesProto (LuaProto f cs) =
    ''function '' @ nat_text (q_id f) @ '' parent='' @ int_text (q_parent f) @
    '' instructions='' @ nat_text (length (q_code f)) @ '' children='' @ nat_text (length cs) @ newline @
    concat (map prototypesProto cs)"

section \<open>The graph of the root function\<close>

definition cfgStarts :: "lua_instr list \<Rightarrow> int list" where
  "cfgStarts ins =
    remdups_adj (sort (0 # concat (map (\<lambda>i.
      if l_target i \<ge> 0 then l_target i # (if l_pc i + 1 < int (length ins) then [l_pc i + 1] else [])
      else []) ins)))"

definition cfgEnd :: "lua_instr list \<Rightarrow> int list \<Rightarrow> nat \<Rightarrow> int" where
  "cfgEnd ins starts k = (if k + 1 < length starts then starts ! (k + 1) - 1 else int (length ins) - 1)"

definition cfgLast :: "lua_instr list \<Rightarrow> int list \<Rightarrow> nat \<Rightarrow> lua_instr option" where
  "cfgLast ins starts k =
    find (\<lambda>i. starts ! k \<le> l_pc i \<and> l_pc i \<le> cfgEnd ins starts k) (rev ins)"

definition cfgEdges :: "lua_instr list \<Rightarrow> int list \<Rightarrow> nat \<Rightarrow> nat list" where
  "cfgEdges ins starts k =
    (case cfgLast ins starts k of None \<Rightarrow> []
     | Some i \<Rightarrow>
       (if l_target i \<ge> 0 then
          (case find (\<lambda>t. starts ! t = l_target i) [0..<length starts] of None \<Rightarrow> [] | Some t \<Rightarrow> [t])
        else []) @
       (if (23 \<le> l_op i \<and> l_op i \<le> 27 \<or> l_op i = 33) \<and> k + 1 < length starts then [k + 1] else []))"

definition cfgProto :: "lua_fields \<Rightarrow> string" where
  "cfgProto f =
    (let ins = q_code f; starts = cfgStarts ins in
     ''digraph lua51_cfg_'' @ nat_text (q_id f) @ '' {'' @ newline @
     concat (map (\<lambda>k. ''  b'' @ nat_text k @ '' [label='' @
         quoted (int_text (starts ! k) @ ''..'' @ int_text (cfgEnd ins starts k)) @ ''];'' @ newline) [0..<length starts]) @
     concat (map (\<lambda>k. concat (map (\<lambda>t. ''  b'' @ nat_text k @ '' -> b'' @ nat_text t @ '';'' @ newline)
         (cfgEdges ins starts k))) [0..<length starts]) @ ''}'' @ newline)"

section \<open>The state machine of the structured mode\<close>

definition conditionText :: "lua_fields \<Rightarrow> lua_instr \<Rightarrow> string" where
  "conditionText f i =
    (let compared = (\<lambda>op. ''('' @ operandText f (l_b i) (l_pc i) @ op @ operandText f (l_c i) (l_pc i) @ '')'') in
     if l_op i = 23 then compared '' == '' else if l_op i = 24 then compared '' < ''
     else if l_op i = 25 then compared '' <= ''
     else if l_op i = 26 then ''truth('' @ localReg f (l_a i) (l_pc i) @ '')''
     else ''truth('' @ localReg f (l_b i) (l_pc i) @ '')'')"

text \<open>The assignment to the state variable \<open>pc\<close> behind one instruction.\<close>

definition stateStep :: "lua_fields \<Rightarrow> string \<Rightarrow> lua_instr \<Rightarrow> string" where
  "stateStep f pc i =
    (let following = int_text (l_pc i + 1); skipped = int_text (l_pc i + 2); pad = replicate 12 CHR '' '';
         branch = (\<lambda>c x y. pad @ ''if '' @ c @ '' then '' @ pc @ '' = '' @ x @ '' else '' @ pc @ '' = '' @ y @ '' end'');
         goto = (\<lambda>x. pad @ pc @ '' = '' @ x) in
     if l_op i = 2 \<and> l_c i \<noteq> 0 then goto skipped @ '' -- LOADBOOL skips the following instruction''
     else if 23 \<le> l_op i \<and> l_op i \<le> 27 then
       branch (conditionText f i @ '' == '' @ (if l_a i \<noteq> 0 then ''false'' else ''true'')) skipped following
     else if l_op i = 33 then branch (localReg f (l_a i + 1) (l_pc i) @ '' == nil'') skipped following
     else if l_target i \<ge> 0 then
       (if l_op i = 31 then
          branch (localReg f (l_a i) (l_pc i) @ '' <= '' @ localReg f (l_a i + 1) (l_pc i)) (int_text (l_target i)) following
        else goto (int_text (l_target i)))
     else if l_op i = 30 \<or> l_op i = 29 then goto ''-1''
     else if l_pc i + 1 < int (length (q_code f)) then goto following
     else goto ''-1'')"

definition stateArm :: "lua_fields \<Rightarrow> string \<Rightarrow> lua_instr \<Rightarrow> string" where
  "stateArm f pc i =
    ''        if '' @ pc @ '' == '' @ int_text (l_pc i) @ '' then -- '' @ opName (l_op i) @ newline @
    stateStep f pc i @ newline @ ''            break'' @ newline @ ''        end'' @ newline"

primrec structuredProto :: "lua_proto \<Rightarrow> string" where
  "structuredProto (LuaProto f cs) =
    (let pc = ''__pc_'' @ nat_text (q_id f) in
     (if q_id f = 0 then ''local __byteveil_functions = {}'' @ newline else []) @
     ''-- ByteVeil structured CFG state machine for function '' @ nat_text (q_id f) @ newline @
     ''__byteveil_functions['' @ nat_text (q_id f) @ ''] = function()'' @ newline @
     ''    local function truth(v) return not not v end'' @ newline @
     ''    local '' @ pc @ '' = 0'' @ newline @ ''    while '' @ pc @ '' >= 0 do'' @ newline @
     concat (map (stateArm f pc) (q_code f)) @ ''    end'' @ newline @ ''end'' @ newline @
     concat (map structuredProto cs) @
     (if q_id f = 0 then ''return __byteveil_functions[0]'' @ newline else []))"

end
