(* ===== verification/Lua51_Calls.thy ===== *)
theory Lua51_Calls
  imports Lua51_Flow
begin

unbundle bit_operations_syntax

text \<open>
  How the decompiler of \<^verbatim>\<open>byteveil_decompiler/Lua51.cpp\<close> recognises calls: open result lists, method
  calls with a colon, reads that can be folded into the target of a call, and argument setup that can
  be left out because its value is folded into the call. Program counters are integers, as in the
  code; \<^verbatim>\<open>-1\<close> stands for none, and a function with an output parameter returns it as an option.
\<close>

definition instrAt :: "lua_fields \<Rightarrow> int \<Rightarrow> lua_instr" where
  "instrAt f pc = q_code f ! nat pc"

definition codeSize :: "lua_fields \<Rightarrow> int" where
  "codeSize f = int (length (q_code f))"

text \<open>The first program counter of a range where a search decides, with the decision.\<close>

definition decideIn :: "int list \<Rightarrow> (int \<Rightarrow> int option) \<Rightarrow> int" where
  "decideIn pcs g = (case firstSome g pcs of None \<Rightarrow> -1 | Some r \<Rightarrow> r)"

section \<open>Open result lists\<close>

definition openResultProducer :: "lua_instr \<Rightarrow> bool" where
  "openResultProducer i \<longleftrightarrow> l_op i = 28 \<and> l_c i = 0 \<or> l_op i = 37 \<and> l_b i = 0"

definition openProducerFor :: "lua_fields \<Rightarrow> lua_instr \<Rightarrow> int" where
  "openProducerFor f consumer =
    (let producer = l_openProducer consumer in
     if producer < 0 \<or> producer \<ge> l_pc consumer \<or> producer + 1 \<noteq> l_pc consumer then -1
     else if hasControlEntryAt f (l_pc consumer) then -1
     else if openResultProducer (instrAt f producer) then producer else -1)"

definition openProducerConsumedInRange :: "lua_fields \<Rightarrow> int \<Rightarrow> int \<Rightarrow> bool" where
  "openProducerConsumedInRange f producerPc end \<longleftrightarrow>
    (if producerPc < 0 \<or> producerPc + 1 \<ge> end \<or> producerPc + 1 \<ge> codeSize f then False
     else let consumer = instrAt f (producerPc + 1) in
       openResultProducer (instrAt f producerPc) \<and> openProducerFor f consumer = producerPc \<and>
       l_op consumer \<in> {28, 29, 30, 34} \<and> l_b consumer = 0)"

section \<open>Argument setup and method calls\<close>

definition safeArgumentSetup :: "lua_instr \<Rightarrow> int \<Rightarrow> int \<Rightarrow> bool" where
  "safeArgumentSetup setup firstArgument lastArgument \<longleftrightarrow>
    (if firstArgument > lastArgument then False
     else if l_op setup = 3 then
       \<not> l_b setup < l_a setup \<and> l_a setup \<ge> firstArgument \<and> l_b setup \<le> lastArgument
     else if l_op setup = 2 \<and> l_c setup \<noteq> 0 \<or> l_op setup \<notin> {0, 1, 2} then False
     else l_a setup \<ge> firstArgument \<and> l_a setup \<le> lastArgument)"

definition stringConstant :: "lua_fields \<Rightarrow> int \<Rightarrow> bool" where
  "stringConstant f k \<longleftrightarrow>
    0 \<le> k \<and> k < int (length (q_constantTable f)) \<and> lc_type (q_constantTable f ! nat k) = ''string'' \<and>
    validIdentifier (lc_value (q_constantTable f ! nat k))"

definition colonMethodCall :: "lua_fields \<Rightarrow> int \<Rightarrow> int \<Rightarrow> bool" where
  "colonMethodCall f selfPc callPc \<longleftrightarrow>
    (if selfPc < 0 \<or> callPc \<le> selfPc \<or> callPc \<ge> codeSize f \<or> callPc - selfPc > 33 then False
     else let self = instrAt f selfPc; call = instrAt f callPc in
       if l_op self \<noteq> 11 \<or> (l_op call \<noteq> 28 \<and> l_op call \<noteq> 29) \<or> l_a call \<noteq> l_a self \<or> l_b call < 2 \<or>
          l_c self AND 256 = 0 then False
       else if \<not> stringConstant f (l_c self AND 255) \<or> hasControlEntryAt f callPc then False
       else let firstArgument = l_a self + 2; lastArgument = l_a self + l_b call - 1 in
         if lastArgument \<ge> int (q_maxstack f) \<or> firstArgument \<le> l_b self \<and> l_b self \<le> lastArgument then False
         else list_all (\<lambda>pc. \<not> hasControlEntryAt f pc \<and>
             safeArgumentSetup (instrAt f pc) firstArgument lastArgument \<and>
             \<not> (l_op (instrAt f pc) = 0 \<and> (l_b (instrAt f pc) = l_a self \<or> l_b (instrAt f pc) = l_a self + 1)))
           [selfPc + 1..callPc - 1])"

text \<open>The operations a search for a call may pass over: MOVE, LOADK, LOADBOOL, LOADNIL.\<close>

definition setupOp :: "int \<Rightarrow> bool" where
  "setupOp op \<longleftrightarrow> op = 0 \<or> op = 1 \<or> op = 2 \<or> op = 3"

definition callOp :: "int \<Rightarrow> bool" where
  "callOp op \<longleftrightarrow> op = 28 \<or> op = 29"

definition colonMethodCallAfter :: "lua_fields \<Rightarrow> int \<Rightarrow> int" where
  "colonMethodCallAfter f selfPc =
    (if selfPc < 0 \<or> selfPc \<ge> codeSize f then -1
     else decideIn [selfPc + 1..min (codeSize f) (selfPc + 34) - 1] (\<lambda>pc.
       let op = l_op (instrAt f pc) in
       if callOp op then Some (if colonMethodCall f selfPc pc then pc else -1)
       else if \<not> setupOp op then Some (-1) else None))"

definition colonMethodSelfForCall :: "lua_fields \<Rightarrow> int \<Rightarrow> int" where
  "colonMethodSelfForCall f callPc =
    (if callPc < 0 \<or> callPc \<ge> codeSize f then -1
     else decideIn (rev [max 0 (callPc - 33)..callPc - 1]) (\<lambda>pc.
       let op = l_op (instrAt f pc) in
       if op = 11 then Some (if colonMethodCall f pc callPc then pc else -1)
       else if \<not> setupOp op then Some (-1) else None))"

section \<open>Reads\<close>

definition canInlineReadProducer :: "lua_fields \<Rightarrow> int \<Rightarrow> int \<Rightarrow> render_context \<Rightarrow> bool" where
  "canInlineReadProducer f producerPc end context \<longleftrightarrow>
    (if rc_stateMachine context \<or> producerPc < 0 \<or> producerPc + 1 \<ge> end \<or> producerPc + 1 \<ge> codeSize f then False
     else let producer = instrAt f producerPc; consumer = instrAt f (producerPc + 1) in
       (l_op producer = 5 \<or> l_op producer = 6) \<and> l_op consumer = 6 \<and> l_a producer = l_a consumer \<and>
       l_b consumer = l_a producer \<and> \<not> hasControlEntryAt f (l_pc consumer))"

definition renderedGlobalRead :: "lua_fields \<Rightarrow> int \<Rightarrow> string" where
  "renderedGlobalRead f k =
    (if stringConstant f k then ''_G.'' @ lc_value (q_constantTable f ! nat k)
     else ''_G['' @ (if 0 \<le> k \<and> k < int (length (q_constants f)) then q_constants f ! nat k else ''nil'') @ '']'')"

definition renderedTableRead :: "lua_fields \<Rightarrow> string \<Rightarrow> int \<Rightarrow> int \<Rightarrow> render_context \<Rightarrow> string" where
  "renderedTableRead f base key pc context =
    (if key AND 256 \<noteq> 0 \<and> stringConstant f (key AND 255)
     then base @ ''.'' @ lc_value (q_constantTable f ! nat (key AND 255))
     else base @ ''['' @ renderedValue f key pc context @ '']'')"

text \<open>\<^verbatim>\<open>renderedInlineReadBase\<close>, with the consumer's program counter as a natural number.\<close>

fun inlineReadBase :: "lua_fields \<Rightarrow> render_context \<Rightarrow> int \<Rightarrow> nat \<Rightarrow> string" where
  "inlineReadBase f context r 0 = renderedLocal f r 0 context"
| "inlineReadBase f context r (Suc n) =
    (if \<not> canInlineReadProducer f (int n) (int n + 2) context then renderedLocal f r (int n + 1) context
     else let producer = instrAt f (int n) in
       if l_op producer = 5 then renderedGlobalRead f (l_bx producer)
       else renderedTableRead f
         (if l_a producer = l_b producer then inlineReadBase f context (l_b producer) n
          else renderedLocal f (l_b producer) (l_pc producer) context)
         (l_c producer) (l_pc producer) context)"

text \<open>Whether the instruction before a table read can provide its base.\<close>

definition providesBase :: "lua_fields \<Rightarrow> int \<Rightarrow> bool" where
  "providesBase f producerPc \<longleftrightarrow>
    (let producer = instrAt f producerPc; previous = instrAt f (producerPc - 1) in
     l_a producer = l_b producer \<and> producerPc > 0 \<and> \<not> hasControlEntryAt f (l_pc producer) \<and>
     (l_op previous = 5 \<or> l_op previous = 6) \<and> l_a previous = l_a producer)"

function inlineReadUsesRegister :: "lua_fields \<Rightarrow> int \<Rightarrow> int \<Rightarrow> nat \<Rightarrow> bool" where
  "inlineReadUsesRegister f producerPc r depth =
    (if depth > 32 \<or> producerPc < 0 \<or> producerPc \<ge> codeSize f then True
     else let producer = instrAt f producerPc in
       if l_op producer = 5 then False
       else if l_op producer \<noteq> 6 then True
       else if l_c producer AND 256 = 0 \<and> l_c producer = r then True
       else let inlinedBase = providesBase f producerPc in
         if inlinedBase \<and> inlineReadUsesRegister f (producerPc - 1) r (depth + 1) then True
         else \<not> inlinedBase \<and> l_b producer = r)"
  by pat_completeness auto
termination by (relation "measure (\<lambda>(f, pc, r, depth). 33 - depth)") auto

declare inlineReadUsesRegister.simps [simp del]

function renderedReadProducerExpression :: "lua_fields \<Rightarrow> int \<Rightarrow> render_context \<Rightarrow> nat \<Rightarrow> string" where
  "renderedReadProducerExpression f producerPc context depth =
    (if depth > 32 \<or> producerPc < 0 \<or> producerPc \<ge> codeSize f then ''nil''
     else let producer = instrAt f producerPc in
       if l_op producer = 5 then renderedGlobalRead f (l_bx producer)
       else if l_op producer \<noteq> 6 then renderedLocal f (l_a producer) (l_pc producer) context
       else renderedTableRead f
         (if providesBase f producerPc then renderedReadProducerExpression f (producerPc - 1) context (depth + 1)
          else renderedLocal f (l_b producer) (l_pc producer) context)
         (l_c producer) (l_pc producer) context)"
  by pat_completeness auto
termination by (relation "measure (\<lambda>(f, pc, context, depth). 33 - depth)") auto

declare renderedReadProducerExpression.simps [simp del]

section \<open>Call targets\<close>

text \<open>Whether the setup at \<open>setupPc\<close> keeps the read at \<open>pc\<close> from being the target of the call.\<close>

definition setupBlocks :: "lua_fields \<Rightarrow> int \<Rightarrow> lua_instr \<Rightarrow> int \<Rightarrow> int \<Rightarrow> int \<Rightarrow> bool" where
  "setupBlocks f pc call firstArgument lastArgument setupPc \<longleftrightarrow>
    (let setup = instrAt f setupPc; lastWritten = (if l_op setup = 3 then l_b setup else l_a setup) in
     hasControlEntryAt f setupPc \<or> \<not> safeArgumentSetup setup firstArgument lastArgument \<or>
     l_op setup = 0 \<and> l_b setup = l_a call \<or>
     list_ex (\<lambda>w. inlineReadUsesRegister f pc w 0) [l_a setup..lastWritten])"

definition inlineCallTargetProducerFor :: "lua_fields \<Rightarrow> int \<Rightarrow> int" where
  "inlineCallTargetProducerFor f callPc =
    (if callPc < 0 \<or> callPc \<ge> codeSize f then -1
     else let call = instrAt f callPc in
       if \<not> callOp (l_op call) \<or> l_b call = 0 \<or> l_op call = 28 \<and> l_c call < 2 \<or>
          managedCapturedLocal f (l_a call) \<or> hasControlEntryAt f callPc then -1
       else let firstArgument = l_a call + 1; lastArgument = l_a call + l_b call - 1 in
         if lastArgument \<ge> int (q_maxstack f) then -1
         else decideIn (rev [max 0 (callPc - 33)..callPc - 1]) (\<lambda>pc.
           let i = instrAt f pc in
           if l_op i = 5 \<or> l_op i = 6 then
             Some (if l_a i \<noteq> l_a call then -1
               else if list_ex (setupBlocks f pc call firstArgument lastArgument) [pc + 1..callPc - 1] then -1
               else pc)
           else if hasControlEntryAt f pc \<or> \<not> safeArgumentSetup i firstArgument lastArgument then Some (-1)
           else None))"

text \<open>Nothing behind the call reads the register: the walk decides at the first instruction that matters.\<close>

definition readAfterStep :: "lua_fields \<Rightarrow> int \<Rightarrow> int \<Rightarrow> bool option" where
  "readAfterStep f r pc =
    (let i = instrAt f pc; op = l_op i in
     if hasControlEntryAt f pc then Some True
     else if readsRegister i r (int (q_maxstack f)) then Some True
     else if op = 29 \<or> op = 30 then Some False
     else if op = 22 \<or> 23 \<le> op \<and> op \<le> 27 \<or> 31 \<le> op \<and> op \<le> 33 \<or> op = 2 \<and> l_c i \<noteq> 0 then Some True
     else if writesRegister i r (int (q_maxstack f)) then Some False
     else if op < 0 \<or> op > 37 then Some True
     else None)"

definition registerMayBeReadAfterCall :: "lua_fields \<Rightarrow> int \<Rightarrow> int \<Rightarrow> bool" where
  "registerMayBeReadAfterCall f callPc r =
    (case firstSome (readAfterStep f r) [callPc + 1..codeSize f - 1] of None \<Rightarrow> False | Some b \<Rightarrow> b)"

text \<open>
  The code does not test the end of the code in this search: \<^verbatim>\<open>end\<close> is at most its size at every
  call.
\<close>

definition argumentCallAfter :: "lua_fields \<Rightarrow> int \<Rightarrow> int \<Rightarrow> int" where
  "argumentCallAfter f setupPc end =
    (if setupPc < 0 \<or> setupPc \<ge> end \<or> setupPc \<ge> codeSize f then -1
     else if \<not> setupOp (l_op (instrAt f setupPc)) then -1
     else decideIn [setupPc + 1..min end (setupPc + 34) - 1] (\<lambda>pc.
       let i = instrAt f pc in
       if callOp (l_op i) then Some (if l_b i > 0 then pc else -1)
       else if \<not> setupOp (l_op i) then Some (-1) else None))"

text \<open>Between the setup and the call: a read keeps the setup, a write before any read ends the test.\<close>

definition laterStep :: "lua_fields \<Rightarrow> int \<Rightarrow> int \<Rightarrow> bool option" where
  "laterStep f r pc =
    (if readsRegister (instrAt f pc) r (int (q_maxstack f)) then Some False
     else if writesRegister (instrAt f pc) r (int (q_maxstack f)) then Some True else None)"

definition omittable :: "lua_fields \<Rightarrow> render_context \<Rightarrow> int \<Rightarrow> int \<Rightarrow> int \<Rightarrow> bool" where
  "omittable f context setupPc callPc r \<longleftrightarrow>
    \<not> (managedCapturedLocal f r \<or> registerMayBeReadAfterCall f callPc r) \<and>
    renderedValueAt f r callPc context \<noteq> renderedLocal f r callPc context \<and>
    (case firstSome (laterStep f r) [setupPc + 1..callPc - 1] of None \<Rightarrow> True | Some b \<Rightarrow> b)"

definition canOmitArgumentSetup :: "lua_fields \<Rightarrow> int \<Rightarrow> int \<Rightarrow> render_context \<Rightarrow> bool" where
  "canOmitArgumentSetup f setupPc end context \<longleftrightarrow>
    (if rc_stateMachine context then False
     else let callPc = argumentCallAfter f setupPc end in
       if callPc < 0 \<or> hasControlEntryAt f callPc then False
       else let setup = instrAt f setupPc; call = instrAt f callPc;
                firstArgument = l_a call + (if colonMethodSelfForCall f callPc \<ge> 0 then 2 else 1);
                lastArgument = l_a call + l_b call - 1;
                lastWritten = (if l_op setup = 3 then l_b setup else l_a setup) in
         safeArgumentSetup setup firstArgument lastArgument \<and>
         list_all (\<lambda>pc. \<not> hasControlEntryAt f pc \<and>
             (pc = setupPc \<or> safeArgumentSetup (instrAt f pc) firstArgument lastArgument)) [setupPc..callPc - 1] \<and>
         list_all (omittable f context setupPc callPc) [l_a setup..lastWritten])"

definition canInlineCallTargetProducer :: "lua_fields \<Rightarrow> int \<Rightarrow> int \<Rightarrow> render_context \<Rightarrow> int option" where
  "canInlineCallTargetProducer f producerPc end context =
    (if rc_stateMachine context \<or> producerPc < 0 \<or> producerPc \<ge> end \<or> producerPc \<ge> codeSize f then None
     else if l_op (instrAt f producerPc) \<noteq> 5 \<and> l_op (instrAt f producerPc) \<noteq> 6 then None
     else let r = decideIn [producerPc + 1..min end (producerPc + 34) - 1] (\<lambda>pc.
         let op = l_op (instrAt f pc) in
         if callOp op then Some (if inlineCallTargetProducerFor f pc \<noteq> producerPc then -1 else pc)
         else if \<not> setupOp op then Some (-1) else None) in
       if r < 0 then None else Some r)"

section \<open>Text of calls\<close>

definition renderedCallTarget :: "lua_fields \<Rightarrow> lua_instr \<Rightarrow> render_context \<Rightarrow> string" where
  "renderedCallTarget f call context =
    (let producerPc = inlineCallTargetProducerFor f (l_pc call) in
     if producerPc < 0 then renderedLocal f (l_a call) (l_pc call) context
     else renderedReadProducerExpression f producerPc context 0)"

definition colonMethodTarget :: "lua_fields \<Rightarrow> lua_instr \<Rightarrow> render_context \<Rightarrow> string" where
  "colonMethodTarget f call context =
    (let selfPc = colonMethodSelfForCall f (l_pc call) in
     if selfPc < 0 then renderedLocal f (l_a call) (l_pc call) context
     else let self = instrAt f selfPc in
       renderedLocal f (l_b self) (l_pc self) context @ '':'' @
       lc_value (q_constantTable f ! nat (l_c self AND 255)))"

definition colonMethodArguments :: "lua_fields \<Rightarrow> lua_instr \<Rightarrow> render_context \<Rightarrow> string" where
  "colonMethodArguments f call context =
    join '', '' (map (\<lambda>r. renderedValueAt f r (l_pc call) context) [l_a call + 2..l_a call + l_b call - 1])"

text \<open>The values before an open tail, and the tail; nothing when the tail has no text.\<close>

definition withTail :: "lua_fields \<Rightarrow> render_context \<Rightarrow> int \<Rightarrow> int \<Rightarrow> int \<Rightarrow> string \<Rightarrow> string" where
  "withTail f context pc first end tail =
    (if tail = [] then []
     else join '', '' (map (\<lambda>r. renderedValueAt f r pc context) [first..end - 1]) @
       (if end > first then '', '' else []) @ tail)"

function openProducerExpression :: "lua_fields \<Rightarrow> int \<Rightarrow> render_context \<Rightarrow> nat \<Rightarrow> string"
  and renderedOpenArgs :: "lua_fields \<Rightarrow> lua_instr \<Rightarrow> render_context \<Rightarrow> nat \<Rightarrow> string" where
  "openProducerExpression f producerPc context depth =
    (if depth > 32 \<or> producerPc < 0 \<or> producerPc \<ge> codeSize f then []
     else let producer = instrAt f producerPc in
       if l_op producer = 37 \<and> l_b producer = 0 then ''...''
       else if l_op producer \<noteq> 28 \<or> l_c producer \<noteq> 0 then []
       else let colonCall = producerPc > 0 \<and> colonMethodCall f (producerPc - 1) producerPc \<and>
                \<not> hasControlEntryAt f producerPc;
              fn = (if colonCall then colonMethodTarget f producer context
                else renderedValueAt f (l_a producer) (l_pc producer) context);
              callArgs = (if colonCall then colonMethodArguments f producer context
                else if l_b producer = 0 then renderedOpenArgs f producer context (depth + 1)
                else renderedArgs f (l_a producer) (l_b producer) (l_pc producer) context) in
         if l_b producer = 0 \<and> callArgs = [] then [] else fn @ ''('' @ callArgs @ '')'')"
| "renderedOpenArgs f consumer context depth =
    (if depth > 32 then []
     else let producerPc = openProducerFor f consumer in
       if producerPc < 0 \<or> l_a (instrAt f producerPc) < l_a consumer + 1 then []
       else withTail f context (l_pc consumer) (l_a consumer + 1) (l_a (instrAt f producerPc))
         (openProducerExpression f producerPc context (depth + 1)))"
  by pat_completeness auto
termination
  by (relation "measure (\<lambda>x. case x of Inl (f, pc, context, depth) \<Rightarrow> 33 - depth | Inr (f, i, context, depth) \<Rightarrow> 33 - depth)")
    auto

declare openProducerExpression.simps [simp del] renderedOpenArgs.simps [simp del]

definition renderedOpenReturnValues :: "lua_fields \<Rightarrow> lua_instr \<Rightarrow> render_context \<Rightarrow> string" where
  "renderedOpenReturnValues f consumer context =
    (let producerPc = openProducerFor f consumer in
     if producerPc < 0 \<or> l_a (instrAt f producerPc) < l_a consumer then []
     else withTail f context (l_pc consumer) (l_a consumer) (l_a (instrAt f producerPc))
       (openProducerExpression f producerPc context 0))"

end
