(* ===== verification/Lua51_Report.thy ===== *)
theory Lua51_Report
  imports Lua51_Frame Lua51_Text Lua51_Calls MoonSec_Search
begin

unbundle bit_operations_syntax

text \<open>
  What the printers of \<^verbatim>\<open>byteveil_decompiler/Lua51.cpp\<close> promise: a string that \<^verbatim>\<open>luaQuote\<close> writes is
  read back by the literal lexer of \<^verbatim>\<open>MoonSec.cpp\<close>, and the JSON report of a chunk is JSON.
\<close>

section \<open>Quoted strings\<close>

lemma digit_char_digit: "d < 10 \<Longrightarrow> is_digit (digit_char d) \<and> byte (digit_char d) - 48 = d"
proof -
  have "list_all (\<lambda>d. is_digit (digit_char d) \<and> byte (digit_char d) - 48 = d) [0..<10]" by code_simp
  then show "d < 10 \<Longrightarrow> ?thesis" by (simp add: list_all_iff)
qed

lemma nat_text_digits:
  "n < 10 \<Longrightarrow> nat_text n = [digit_char n]"
  "10 \<le> n \<Longrightarrow> n < 100 \<Longrightarrow> nat_text n = [digit_char (n div 10), digit_char (n mod 10)]"
  "100 \<le> n \<Longrightarrow> n < 1000 \<Longrightarrow> nat_text n = [digit_char (n div 100), digit_char (n div 10 mod 10), digit_char (n mod 10)]"
proof -
  have one: "nat_text k = [digit_char k]" if "k < 10" for k using that by (subst nat_text.simps) simp
  have two: "nat_text k = [digit_char (k div 10), digit_char (k mod 10)]" if "10 \<le> k" "k < 100" for k
    using that one [of "k div 10"] by (subst nat_text.simps) simp
  show "n < 10 \<Longrightarrow> nat_text n = [digit_char n]"
    "10 \<le> n \<Longrightarrow> n < 100 \<Longrightarrow> nat_text n = [digit_char (n div 10), digit_char (n mod 10)]" using one two by blast+
  assume n: "100 \<le> n" "n < 1000"
  have "nat_text n = nat_text (n div 10) @ [digit_char (n mod 10)]" using n by (subst nat_text.simps) simp
  moreover have "nat_text (n div 10) = [digit_char (n div 10 div 10), digit_char (n div 10 mod 10)]"
    by (rule two) (use n in linarith)+
  ultimately show "nat_text n = [digit_char (n div 100), digit_char (n div 10 mod 10), digit_char (n mod 10)]"
    by (simp add: div_mult2_eq [symmetric])
qed

lemma threeDigits_eq:
  assumes "n < 1000"
  shows "threeDigits n = [digit_char (n div 100), digit_char (n div 10 mod 10), digit_char (n mod 10)]"
proof -
  have zero: "digit_char 0 = CHR ''0''" by code_simp
  consider "n < 10" | "10 \<le> n" "n < 100" | "100 \<le> n" by linarith
  then show ?thesis
  proof cases
    case 1
    then show ?thesis by (simp add: threeDigits_def nat_text_digits zero numeral_2_eq_2)
  next
    case 2
    then have "n div 10 mod 10 = n div 10" by auto
    then show ?thesis using 2 by (simp add: threeDigits_def nat_text_digits zero)
  next
    case 3
    then show ?thesis using assms by (simp add: threeDigits_def nat_text_digits)
  qed
qed

lemma threeDigits_form:
  assumes "n < 256"
  shows "\<exists>a b c. threeDigits n = [a, b, c] \<and> is_digit a \<and> is_digit b \<and> is_digit c \<and>
    ((byte a - 48) * 10 + (byte b - 48)) * 10 + (byte c - 48) = n"
proof -
  have d: "n div 100 < 10" "n div 10 mod 10 < 10" "n mod 10 < 10" using assms by auto
  have sum: "(n div 100 * 10 + n div 10 mod 10) * 10 + n mod 10 = n"
  proof -
    have "n div 100 * 10 + n div 10 mod 10 = n div 10" using div_mult_mod_eq [of "n div 10" 10] by (simp flip: div_mult2_eq)
    then show ?thesis using div_mult_mod_eq [of n 10] by simp
  qed
  note ds = digit_char_digit [OF d(1)] digit_char_digit [OF d(2)] digit_char_digit [OF d(3)]
  have "threeDigits n = [digit_char (n div 100), digit_char (n div 10 mod 10), digit_char (n mod 10)]"
    using assms by (intro threeDigits_eq) simp
  then show ?thesis
    using ds sum by (intro exI [of _ "digit_char (n div 100)"] exI [of _ "digit_char (n div 10 mod 10)"]
        exI [of _ "digit_char (n mod 10)"]) (simp only: simp_thms)
qed

lemma readEscape_decimal:
  assumes "threeDigits (byte c) = [x, y, z]" "is_digit x" "is_digit y" "is_digit z"
    "((of_char x - 48) * 10 + (of_char y - 48)) * 10 + (of_char z - 48) = byte c"
  shows "readEscape x (y # z # s) = Some ([c], s)"
proof -
  have more: "moreDigits 2 (of_char x - 48) (y # z # s) = (byte c, s)"
    using assms by (simp add: numeral_2_eq_2)
  have digit: "is_digit d \<Longrightarrow> d \<notin> {CHR ''a'', CHR ''b'', CHR ''f'', CHR ''n'', CHR ''r'', CHR ''t'', CHR ''v'', CHR ''z'', CHR ''x'', char_of (10::nat), char_of (13::nat)}" for d
    by (auto simp: is_digit_def)
  have le: "byte c \<le> 255" using byte_bound [of c] by linarith
  show ?thesis
    using digit [OF assms(2)] assms(2) more le unfolding readEscape_def by simp
qed

lemma control_chars:
  "char_of (7::nat) = CHR 0x07" "char_of (8::nat) = CHR 0x08" "char_of (9::nat) = CHR 0x09" "char_of (10::nat) = CHR 0x0A"
  "char_of (11::nat) = CHR 0x0B" "char_of (12::nat) = CHR 0x0C" "char_of (13::nat) = CHR 0x0D"
  "\<not> is_digit (CHR 0x5C)" "\<not> is_digit (CHR 0x22)"
  by code_simp+

lemma readQuoted_quoteChar:
  "readQuoted (CHR 0x22) v (quoteChar c @ s) = readQuoted (CHR 0x22) (v @ [c]) s"
proof (cases "c \<in> {CHR 0x5C, CHR 0x22, CHR 0x07, CHR 0x08, CHR 0x0C, CHR 0x0A, CHR 0x0D, CHR 0x09, CHR 0x0B}")
  case True
  then show ?thesis
    unfolding insert_iff empty_iff by (elim disjE) (simp_all add: quoteChar_def readEscape_def control_chars)
next
  case False
  show ?thesis
  proof (cases "32 \<le> byte c \<and> byte c \<le> 126")
    case True
    then have "quoteChar c = [c]" using False by (simp add: quoteChar_def)
    then show ?thesis using False by simp
  next
    case high: False
    then have q: "quoteChar c = CHR 0x5C # threeDigits (byte c)" using False by (auto simp: quoteChar_def)
    obtain x y z where d: "threeDigits (byte c) = [x, y, z]" "is_digit x" "is_digit y" "is_digit z"
      "((of_char x - 48) * 10 + (of_char y - 48)) * 10 + (of_char z - 48) = byte c"
      using threeDigits_form [OF byte_bound [of c]] by blast
    show ?thesis by (simp add: q d(1) readEscape_decimal [OF d])
  qed
qed

lemma readQuoted_body: "readQuoted (CHR 0x22) v (concat (map quoteChar s) @ [CHR 0x22] @ rest) = Some (v @ s, rest)"
proof (induction s arbitrary: v)
  case Nil
  then show ?case by simp
next
  case (Cons c s)
  then show ?case using readQuoted_quoteChar [of v c "concat (map quoteChar s) @ [CHR 0x22] @ rest"] by simp
qed

lemma stringsFrom_quoted:
  "map lit_value (stringsFrom n (luaQuote s @ rest)) = s # map lit_value (stringsFrom n rest)"
  using readQuoted_body [of "[]" s rest] by (simp add: luaQuote_def)

lemma stringsFrom_quotes:
  "map lit_value (stringsFrom n (join '', '' (map luaQuote ss))) = ss"
proof (induction ss rule: induct_list012)
  case 1 then show ?case by simp
next
  case (2 s)
  then show ?case using stringsFrom_quoted [of n s "[]"] by simp
next
  case (3 s t ss)
  then show ?case using stringsFrom_quoted [of n s "'', '' @ join '', '' (map luaQuote (t # ss))"] by simp
qed

section \<open>JSON\<close>

lemma luaOps_plain: "list_all plain luaOps" "length luaOps = 38"
  by code_simp+

lemma opName_plain: "plain (opName op)"
proof -
  have "plain ''EXTRAARG''" "plain ''UNKNOWN''" by (simp_all add: plain_simps)
  then show ?thesis using luaOps_plain by (auto simp: opName_def list_all_length)
qed

lemma bytesHex_plain: "plain (lua_bytesHex s)"
  using hexBytes_plain [of s] by (simp add: lua_bytesHex_def hexBytes_def)

lemma escape_json: "json (quoted (lua_jsonEscape s))"
  using esc_json [of s] by (simp add: lua_jsonEscape_esc json_string)

lemma indexed_json: "(\<And>k x. x \<in> set xs \<Longrightarrow> json (r k x)) \<Longrightarrow> json (array_text (indexed r xs))"
  unfolding indexed_def by (rule json_map) auto

lemmas lua_json_parts = json_parts escape_json json_quoted_plain opName_plain bytesHex_plain plain_simps

lemma jsonCapture_json: "json (jsonCapture k c)"
  unfolding jsonCapture_def by (intro json_fields) (simp add: lua_json_parts)

lemma jsonLuaInstr_json: "json (jsonLuaInstr f i)"
  unfolding jsonLuaInstr_def
  by (intro json_fields) (simp add: lua_json_parts indexed_json jsonCapture_json)

lemma jsonLuaLocal_json: "json (jsonLuaLocal l)"
  unfolding jsonLuaLocal_def by (intro json_fields) (simp add: lua_json_parts)

lemma jsonLuaConstant_json: "constant_written c \<Longrightarrow> json (jsonLuaConstant k c)"
  unfolding jsonLuaConstant_def constant_written_def by (intro json_fields) (simp add: lua_json_parts)

lemma advanced_json: "json (advanced f)"
  unfolding advanced_def by (intro json_fields) (simp add: lua_json_parts)

lemma jsonLuaFields_json:
  assumes "list_all constant_written (q_constantTable f)"
  shows "list_all json_field (jsonLuaFields f)"
proof -
  have "json (array_text (indexed jsonLuaConstant (q_constantTable f)))"
    using assms by (auto simp: list_all_iff intro!: indexed_json jsonLuaConstant_json)
  moreover have "json (array_text (map int_text (q_lines f)))" "json (array_text (map jsonLuaLocal (q_locals f)))"
    "json (array_text (map (\<lambda>u. quoted (lua_jsonEscape u)) xs))" "json (array_text (map (\<lambda>u. quoted (lua_bytesHex u)) xs))"
    "json (array_text (map (jsonLuaInstr f) (q_code f)))" for xs
    by (auto intro!: json_map json_int jsonLuaLocal_json escape_json jsonLuaInstr_json json_quoted_plain bytesHex_plain)
  ultimately show ?thesis
    unfolding jsonLuaFields_def by (simp add: lua_json_parts advanced_json)
qed

lemma jsonProto_json:
  "list_all (\<lambda>x. list_all constant_written (q_constantTable (fst x))) (protosOf p) \<Longrightarrow> json (jsonProto p)"
proof (induction p)
  case (LuaProto f cs)
  have "json (array_text (map jsonProto cs))"
    by (rule json_map, rule LuaProto.IH) (use LuaProto.prems in \<open>auto simp: list_all_iff\<close>)
  moreover have "list_all json_field (jsonLuaFields f)" using LuaProto.prems by (intro jsonLuaFields_json) simp
  ultimately show ?case by (simp, intro json_fields) (simp add: json_named plain_simps)
qed

lemma parsed_json:
  assumes "lua_parse bs = Inr p"
  shows "\<exists>t. lua_json p = t @ newline \<and> json t"
proof -
  have "list_all (\<lambda>x. list_all constant_written (q_constantTable (fst x))) (protosOf p)"
    using parsed_tree(1) [OF assms] accepted_code(8) by (auto simp: list_all_iff)
  then have "json (jsonProto p)" by (rule jsonProto_json)
  then have "json (object_text [field ''format'' (quoted ''Lua 5.1 bytecode''), field ''version'' (nat_text 81),
     field ''root_function'' (jsonProto p)])"
    by (intro json_fields) (simp add: lua_json_parts)
  then show ?thesis by (auto simp: lua_json_def)
qed

end
