(* ===== verification/Lua51_Emit.thy ===== *)
theory Lua51_Emit
  imports Lua51_Text Lua51_Calls "HOL-Library.Char_ord" "HOL-Library.List_Lexorder"
begin

unbundle bit_operations_syntax

text \<open>
  The text of single instructions in the readable mode of \<^verbatim>\<open>byteveil_decompiler/Lua51.cpp\<close>: conditions,
  fresh names of control variables, the cells of captured registers, register declarations, and
  \<^verbatim>\<open>emitSimple\<close> with every operation. A function that writes to the output stream returns what it
  writes. The body of a child prototype is written by the functions of \<open>Lua51_Dispatch\<close>, so a child
  comes here with its writer: from a context, an indentation and the first register it makes the text
  and the context as the call leaves it.
\<close>

type_synonym body_writer = "render_context \<Rightarrow> nat \<Rightarrow> int \<Rightarrow> string \<times> render_context"
type_synonym child_writer = "lua_fields \<times> body_writer"

definition padding :: "nat \<Rightarrow> string" where
  "padding n = replicate n CHR '' ''"

section \<open>Conditions\<close>

definition isCondition :: "int \<Rightarrow> bool" where
  "isCondition op \<longleftrightarrow> op = 23 \<or> op = 24 \<or> op = 25 \<or> op = 26"

definition comparison :: "int \<Rightarrow> string" where
  "comparison op = (if op = 23 then '' == '' else if op = 24 then '' < '' else '' <= '')"

definition conditionExpr :: "lua_fields \<Rightarrow> lua_instr \<Rightarrow> render_context \<Rightarrow> string" where
  "conditionExpr f i context =
    (if l_op i = 26 then
       (let test = renderedLocal f (l_a i) (l_pc i) context in if l_c i \<noteq> 0 then ''not ('' @ test @ '')'' else test)
     else
       (let lhs = renderedValue f (l_b i) (l_pc i) context; rhs = renderedValue f (l_c i) (l_pc i) context;
            compared = ''('' @ lhs @ comparison (l_op i) @ rhs @ '')'' in
        if l_a i \<noteq> 0 then ''not '' @ compared else compared))"

definition negateConditionExpr :: "string \<Rightarrow> string" where
  "negateConditionExpr condition =
    (if starts_with ''not ('' condition \<and> length condition > 6 \<and> last condition = CHR '')''
     then take (length condition - 6) (drop 5 condition) else ''not ('' @ condition @ '')'')"

definition straightLineConditionGap :: "lua_instr \<Rightarrow> bool" where
  "straightLineConditionGap i \<longleftrightarrow>
    (if 0 \<le> l_op i \<and> l_op i \<le> 21 then True
     else if l_op i = 28 then l_b i > 0 \<and> l_c i > 0
     else if l_op i = 34 then l_b i > 0
     else if l_op i = 35 \<or> l_op i = 36 then True
     else if l_op i = 37 then l_b i > 0
     else False)"

definition separatedConditionGap :: "lua_instr \<Rightarrow> bool" where
  "separatedConditionGap i \<longleftrightarrow> \<not> (l_op i = 2 \<and> l_c i \<noteq> 0) \<and> (straightLineConditionGap i \<or> l_op i = 28)"

text \<open>
  \<^verbatim>\<open>visit\<close> of \<^verbatim>\<open>allPathsReturn\<close>: the states of the visited positions are 0 (not visited), 1 (on the
  path), 2 (returns) and 3 (does not). Every nested call marks a new position, so as much fuel as
  there are positions is enough.
\<close>

fun visitReturns :: "lua_fields \<Rightarrow> int \<Rightarrow> int \<Rightarrow> nat \<Rightarrow> nat list \<Rightarrow> int \<Rightarrow> bool \<times> nat list" where
  "visitReturns f begin end 0 state pc = (False, state)"
| "visitReturns f begin end (Suc fuel) state pc =
    (if pc < begin \<or> pc \<ge> end then (False, state)
     else let k = nat (pc - begin) in
       if state ! k = 2 then (True, state)
       else if state ! k = 1 \<or> state ! k = 3 then (False, state)
       else
         let s = state[k := 1]; i = instrAt f pc; visit = visitReturns f begin end fuel;
           both = (\<lambda>s x y. let (r, t) = visit s x in if r then visit t y else (False, t));
           (returns, t) =
             (if l_op i = 29 \<or> l_op i = 30 then (True, s)
              else if l_op i = 22 then visit s (l_target i)
              else if isCondition (l_op i) \<or> l_op i = 27 then
                (if pc + 1 < end \<and> l_op (instrAt f (pc + 1)) = 22 then both s (pc + 2) (l_target (instrAt f (pc + 1)))
                 else both s (pc + 1) (pc + 2))
              else if l_op i = 2 \<and> l_c i \<noteq> 0 then visit s (pc + 2)
              else if l_op i = 31 \<or> l_op i = 32 \<or> l_op i = 33 then (False, s)
              else visit s (pc + 1))
         in (returns, t[k := if returns then 2 else 3]))"

definition allPathsReturn :: "lua_fields \<Rightarrow> int \<Rightarrow> int \<Rightarrow> bool" where
  "allPathsReturn f begin end \<longleftrightarrow>
    \<not> (begin < 0 \<or> begin \<ge> end \<or> end > codeSize f \<or> end - begin > 32) \<and>
    fst (visitReturns f begin end (nat (end - begin) + 1) (replicate (nat (end - begin)) 0) begin)"

definition hasLoopEdgeTo :: "lua_fields \<Rightarrow> int \<Rightarrow> int \<Rightarrow> int \<Rightarrow> bool" where
  "hasLoopEdgeTo f begin end t \<longleftrightarrow>
    list_ex (\<lambda>pc. l_op (instrAt f pc) = 22 \<and> l_target (instrAt f pc) = t \<or>
      (isCondition (l_op (instrAt f pc)) \<or> l_op (instrAt f pc) = 27) \<and> pc + 1 < end \<and>
      l_op (instrAt f (pc + 1)) = 22 \<and> l_target (instrAt f (pc + 1)) = t) [begin..end - 1]"

section \<open>Fresh names\<close>

definition registersOf :: "lua_fields \<Rightarrow> int list" where
  "registersOf f = [0..int (q_maxstack f) - 1]"

text \<open>The names a register has somewhere in the function.\<close>

definition registerNames :: "lua_fields \<Rightarrow> render_context \<Rightarrow> int \<Rightarrow> string list" where
  "registerNames f context r = renderedLocal f r 0 context # map (\<lambda>i. renderedLocal f r (l_pc i) context) (q_code f)"

definition controlNames :: "lua_fields \<Rightarrow> render_context \<Rightarrow> string list" where
  "controlNames f context = identifierNames f @ filter validIdentifier (q_upvalues f) @
    concat (map (registerNames f context) (registersOf f))"

definition conditionChainFlagName :: "lua_fields \<Rightarrow> int \<Rightarrow> render_context \<Rightarrow> string" where
  "conditionChainFlagName f pc context =
    freshName (controlNames f context) (''__byteveil_condition_f'' @ nat_text (q_id f) @ ''_pc'' @ int_text pc)"

definition loopBreakFlagName :: "lua_fields \<Rightarrow> int \<Rightarrow> render_context \<Rightarrow> string" where
  "loopBreakFlagName f pc context =
    freshName (controlNames f context) (''__byteveil_loopbreak_f'' @ nat_text (q_id f) @ ''_pc'' @ int_text pc)"

definition dispatcherPcName :: "lua_fields \<Rightarrow> render_context \<Rightarrow> string" where
  "dispatcherPcName f context =
    freshName (identifierNames f @ concat (map (registerNames f context) (registersOf f)))
      (''__byteveil_pc_f'' @ nat_text (q_id f))"

section \<open>Captures\<close>

definition closureCaptureCellSource :: "lua_fields \<Rightarrow> capture_info \<Rightarrow> render_context \<Rightarrow> string" where
  "closureCaptureCellSource f capture parent =
    (if cap_fromUpvalue capture then
       (if 0 \<le> cap_sourceIndex capture \<and> cap_sourceIndex capture < int (length (rc_capturedUpvalueCells parent))
        then rc_capturedUpvalueCells parent ! nat (cap_sourceIndex capture) else [])
     else if managedCapturedLocal f (cap_sourceIndex capture) then capturedCellName f (cap_sourceIndex capture) else [])"

definition closureCaptureParameterName :: "lua_fields \<Rightarrow> int \<Rightarrow> render_context \<Rightarrow> string" where
  "closureCaptureParameterName child slot context =
    freshName (identifierNames child @ concat (map (\<lambda>r. renderedRegisterName child r 0 context #
        (if managedCapturedLocal child r then [capturedCellName child r] else [])) (registersOf child)))
      (''__byteveil_capture_f'' @ nat_text (q_id child) @ ''_u'' @ int_text slot)"

text \<open>The text, and whether a cell was detached.\<close>

definition emitCapturedCellClose :: "lua_fields \<Rightarrow> int \<Rightarrow> nat \<Rightarrow> string \<times> bool" where
  "emitCapturedCellClose f firstRegister indent =
    (let rs = filter (managedCapturedLocal f) [max 0 firstRegister..int (q_maxstack f) - 1] in
     (concat (map (\<lambda>r. let cell = capturedCellName f r in
        padding indent @ cell @ '' = {'' @ cell @ ''[1]}'' @ newline) rs), rs \<noteq> []))"

definition closureContext :: "lua_fields \<Rightarrow> lua_instr \<Rightarrow> render_context \<Rightarrow> string list \<Rightarrow> render_context" where
  "closureContext f closure parent parameters =
    (let cell = (\<lambda>slot. if slot < length parameters \<and> parameters ! slot \<noteq> [] then parameters ! slot else []);
         slots = [0..<length (l_captures closure)] in
     \<lparr>rc_capturedUpvalues = map (\<lambda>slot. let capture = l_captures closure ! slot in
         if cell slot \<noteq> [] then cell slot @ ''[1]''
         else if cap_fromUpvalue capture then renderedUpvalue f (cap_sourceIndex capture) parent
         else renderedLocal f (cap_sourceIndex capture) (cap_bindingPc capture) parent) slots,
      rc_capturedUpvalueCells = map cell slots, rc_stateMachine = False\<rparr>)"

section \<open>Declarations\<close>

definition declaredNames :: "lua_fields \<Rightarrow> render_context \<Rightarrow> int \<Rightarrow> string list" where
  "declaredNames f context r =
    (if managedCapturedLocal f r then []
     else if q_id f = 0 then registerNames f context r else [renderedLocal f r 0 context])"

definition emitRegisterDeclarations :: "lua_fields \<Rightarrow> render_context \<Rightarrow> nat \<Rightarrow> int \<Rightarrow> string" where
  "emitRegisterDeclarations f context indent firstRegister =
    (let names = sorted_list_of_set (set (concat (map (declaredNames f context) [firstRegister..int (q_maxstack f) - 1]))) in
     (if names \<noteq> [] then padding indent @ ''local '' @ join '', '' names @ newline else []) @
     concat (map (\<lambda>r. if managedCapturedLocal f r then
         padding indent @ ''local '' @ capturedCellName f r @ '' = {'' @
         (if r < int (q_params f) then renderedRegisterName f r 0 context else ''nil'') @ ''}'' @ newline
       else []) (registersOf f)))"

section \<open>Instructions\<close>

text \<open>Whether the prototype takes variable arguments.\<close>

definition isVararg :: "lua_fields \<Rightarrow> bool" where
  "isVararg f \<longleftrightarrow> bit (q_vararg f) 1"

text \<open>
  \<^verbatim>\<open>int\<close> arithmetic on the block number of a \<^verbatim>\<open>SETLIST\<close>, which is a whole 32-bit word of the chunk: the result is
  taken modulo \<open>2 ^ 32\<close>. (The C++ leaves the overflow of large blocks undefined.)
\<close>

definition int32 :: "int \<Rightarrow> int" where
  "int32 x = sint (word_of_int x :: u32)"

text \<open>\<^verbatim>\<open>emitOpenSetList\<close>: the text, if it could be written.\<close>

definition emitOpenSetList :: "lua_fields \<Rightarrow> lua_instr \<Rightarrow> nat \<Rightarrow> render_context \<Rightarrow> string option" where
  "emitOpenSetList f setlist indent context =
    (let producerPc = openProducerFor f setlist in
     if producerPc < 0 then None
     else let producer = instrAt f producerPc; tail = openProducerExpression f producerPc context 0 in
       if tail = [] then None
       else let firstRegister = l_a setlist + 1; prefixEnd = max firstRegister (l_a producer);
           skipped = max 0 (firstRegister - l_a producer); base = int32 ((l_setlistBlock setlist - 1) * 50); pad = padding indent in
         Some (pad @ ''(function(__table, __base, __skip, ...)'' @ newline @
           pad @ ''    local __values = { n = _G['' @ [CHR 0x22] @ ''select'' @ [CHR 0x22] @ '']('' @
             [CHR 0x22] @ ''#'' @ [CHR 0x22] @ '', ...), ... }'' @ newline @
           pad @ ''    for __index = __skip + 1, __values.n do'' @ newline @
           pad @ ''        __table[__base + __index - __skip] = __values[__index]'' @ newline @
           pad @ ''    end'' @ newline @
           pad @ ''end)('' @ renderedLocal f (l_a setlist) (l_pc setlist) context @ '', '' @ int_text base @ '', '' @
             int_text skipped @
           concat (map (\<lambda>r. '', '' @ renderedValueAt f r (l_pc setlist) context) [firstRegister..prefixEnd - 1]) @
           '', '' @ tail @ '')'' @ newline))"

definition arithmeticOp :: "int \<Rightarrow> string" where
  "arithmeticOp op =
    (if op = 12 then ''+'' else if op = 13 then ''-'' else if op = 14 then ''*'' else if op = 15 then ''/''
     else if op = 16 then ''%'' else ''^'')"

text \<open>CALL and TAILCALL; the flags say how the target is written.\<close>

definition callArguments :: "lua_fields \<Rightarrow> lua_instr \<Rightarrow> render_context \<Rightarrow> bool \<Rightarrow> string" where
  "callArguments f i context colonCall =
    (if colonCall then colonMethodArguments f i context
     else if l_b i = 0 then renderedOpenArgs f i context 0
     else renderedArgs f (l_a i) (l_b i) (l_pc i) context)"

definition emitCall :: "lua_fields \<Rightarrow> lua_instr \<Rightarrow> nat \<Rightarrow> render_context \<Rightarrow> bool \<Rightarrow> bool \<Rightarrow> string" where
  "emitCall f i indent context colonCall inlineCallTarget =
    (let pad = padding indent; callArgs = callArguments f i context colonCall; at = int_text (l_pc i);
         t = (if colonCall then colonMethodTarget f i context
              else if inlineCallTarget then renderedCallTarget f i context
              else renderedLocal f (l_a i) (l_pc i) context);
         results = (if l_c i = 0 then 1 else l_c i - 1) in
     (if l_b i = 0 \<and> callArgs = [] then
        pad @ ''-- ByteVeil: CALL at pc '' @ at @ '' has unresolved open arguments'' @ newline else []) @
     (if l_c i = 0 then
        pad @ ''-- ByteVeil: CALL at pc '' @ at @ '' has open results not consumed by a supported open operation'' @ newline
      else []) @
     (if l_c i = 1 then pad @ t @ ''('' @ callArgs @ '')'' @ newline
      else pad @ join '', '' (map (\<lambda>r. renderedLocal f (l_a i + r) (l_pc i) context) [0..results - 1]) @
        '' = '' @ t @ ''('' @ callArgs @ '')'' @ newline))"

definition emitTailCall :: "lua_fields \<Rightarrow> lua_instr \<Rightarrow> nat \<Rightarrow> render_context \<Rightarrow> bool \<Rightarrow> bool \<Rightarrow> string" where
  "emitTailCall f i indent context colonCall inlineCallTarget =
    (let pad = padding indent; callArgs = callArguments f i context colonCall;
         t = (if colonCall then colonMethodTarget f i context
              else if inlineCallTarget then renderedCallTarget f i context
              else renderedValueAt f (l_a i) (l_pc i) context) in
     (if l_b i = 0 \<and> callArgs = [] then
        pad @ ''-- ByteVeil: TAILCALL at pc '' @ int_text (l_pc i) @ '' has unresolved open arguments'' @ newline else []) @
     pad @ ''return '' @ t @ ''('' @ callArgs @ '')'' @ newline)"

definition emitReturn :: "lua_fields \<Rightarrow> lua_instr \<Rightarrow> nat \<Rightarrow> render_context \<Rightarrow> string" where
  "emitReturn f i indent context =
    (let pad = padding indent; values = renderedOpenReturnValues f i context; n = (if l_b i = 0 then 1 else l_b i - 1) in
     if l_b i = 0 \<and> values \<noteq> [] then pad @ ''return '' @ values @ newline
     else
       (if l_b i = 0 then
          pad @ ''-- ByteVeil: RETURN at pc '' @ int_text (l_pc i) @ '' has an unresolved open result tail'' @ newline else []) @
       (if n = 0 then pad @ ''return'' @ newline
        else pad @ ''return '' @ join '', '' (map (\<lambda>k. renderedValueAt f (l_a i + k) (l_pc i) context) [0..n - 1]) @
          (if l_b i = 0 \<and> isVararg f then '', ...'' else []) @ newline))"

definition emitSetList :: "lua_fields \<Rightarrow> lua_instr \<Rightarrow> nat \<Rightarrow> render_context \<Rightarrow> string" where
  "emitSetList f i indent context =
    (let pad = padding indent; base = int32 ((l_setlistBlock i - 1) * 50) in
     if l_b i > 0 then
       concat (map (\<lambda>k. pad @ renderedLocal f (l_a i) (l_pc i) context @ ''['' @ int_text (int32 (base + k)) @ ''] = '' @
         renderedLocal f (l_a i + k) (l_pc i) context @ newline) [1..l_b i])
     else case emitOpenSetList f i indent context of Some s \<Rightarrow> s
       | None \<Rightarrow> pad @ ''-- ByteVeil: SETLIST at pc '' @ int_text (l_pc i) @ '' has an open value tail'' @ newline)"

text \<open>
  CLOSURE: the body of the child is written first, and the parameters are named in the context it
  leaves. Captured cells are passed through the parameters of a wrapping function.
\<close>

definition emitClosure :: "lua_fields \<Rightarrow> child_writer list \<Rightarrow> lua_instr \<Rightarrow> nat \<Rightarrow> render_context \<Rightarrow> string" where
  "emitClosure f children i indent context =
    (let pad = padding indent in
     if \<not> l_bx i < int (length children) then
       pad @ ''-- ByteVeil: CLOSURE child index '' @ int_text (l_bx i) @ '' unavailable'' @ newline
     else
       let child = fst (children ! nat (l_bx i)); slots = [0..<length (l_captures i)];
         cellSources = map (\<lambda>slot. closureCaptureCellSource f (l_captures i ! slot) context) slots;
         cellParameters = map (\<lambda>slot. if cellSources ! slot \<noteq> []
           then closureCaptureParameterName child (int slot) context else []) slots;
         wrapCaptures = list_ex (\<lambda>name. name \<noteq> []) cellParameters;
         (body, childContext) = snd (children ! nat (l_bx i)) (closureContext f i context cellParameters)
           (indent + (if wrapCaptures then 8 else 4)) (int (q_params child)) in
       pad @ renderedLocal f (l_a i) (l_pc i) context @ '' = '' @
       (if wrapCaptures then
          ''(function('' @ join '', '' (filter (\<lambda>name. name \<noteq> []) cellParameters) @ '')'' @ newline @
          pad @ ''    return function(''
        else ''function('') @
       join '', '' (map (\<lambda>k. renderedRegisterName child k 0 childContext) [0..int (q_params child) - 1]) @
       (if isVararg child then (if q_params child \<noteq> 0 then '', '' else []) @ ''...'' else []) @ '')'' @ newline @
       body @
       (if wrapCaptures then
          pad @ ''    end'' @ newline @ pad @ ''end)('' @
          join '', '' (map (\<lambda>slot. cellSources ! slot) (filter (\<lambda>slot. cellParameters ! slot \<noteq> []) slots)) @ '')'' @ newline
        else pad @ ''end'' @ newline))"

definition emitVararg :: "lua_fields \<Rightarrow> lua_instr \<Rightarrow> nat \<Rightarrow> render_context \<Rightarrow> string" where
  "emitVararg f i indent context =
    (let pad = padding indent; local = (\<lambda>r. renderedLocal f r (l_pc i) context) in
     if \<not> isVararg f then
       pad @ ''-- ByteVeil: VARARG used by a non-variadic prototype'' @ newline @ pad @ local (l_a i) @ '' = nil'' @ newline
     else if l_b i = 0 then
       pad @ ''-- ByteVeil: VARARG at pc '' @ int_text (l_pc i) @
         '' has open results not consumed by a supported open operation'' @ newline
     else pad @ local (l_a i) @ concat (map (\<lambda>k. '', '' @ local (l_a i + k)) [1..l_b i - 2]) @ '' = ...'' @ newline)"

definition emitSimple :: "lua_fields \<Rightarrow> child_writer list \<Rightarrow> lua_instr \<Rightarrow> nat \<Rightarrow> render_context \<Rightarrow>
    bool \<Rightarrow> bool \<Rightarrow> bool \<Rightarrow> string" where
  "emitSimple f children i indent context colonCall inlineBase inlineCallTarget =
    (let pad = padding indent; op = l_op i; local = (\<lambda>r. renderedLocal f r (l_pc i) context);
         val = (\<lambda>x. renderedValue f x (l_pc i) context); a = local (l_a i); b = local (l_b i);
         assign = (\<lambda>rhs. pad @ a @ '' = '' @ rhs @ newline);
         unpaired = (\<lambda>what partner. pad @ ''-- ByteVeil: '' @ what @ '' at pc '' @ int_text (l_pc i) @
           '' was not paired with '' @ partner @ newline) in
     if l_closureBindingFor i \<ge> 0 then []
     else if op = 0 then assign b
     else if op = 1 then assign (constantText f (l_bx i))
     else if op = 2 then assign (if l_b i \<noteq> 0 then ''true'' else ''false'')
     else if op = 3 then concat (map (\<lambda>r. pad @ local r @ '' = nil'' @ newline) [l_a i..l_b i])
     else if op = 4 then assign (renderedUpvalue f (l_b i) context)
     else if op = 5 then assign (''_G['' @ constantText f (l_bx i) @ '']'')
     else if op = 6 then assign (if inlineBase
         then renderedTableRead f (inlineReadBase f context (l_b i) (nat (l_pc i))) (l_c i) (l_pc i) context
         else b @ ''['' @ val (l_c i) @ '']'')
     else if op = 7 then pad @ ''_G['' @ constantText f (l_bx i) @ ''] = '' @ a @ newline
     else if op = 8 then pad @ renderedUpvalue f (l_b i) context @ '' = '' @ a @ newline
     else if op = 9 then pad @ a @ ''['' @ val (l_b i) @ ''] = '' @ val (l_c i) @ newline
     else if op = 10 then assign ''{}''
     else if op = 11 then
       pad @ local (l_a i + 1) @ '' = '' @ b @ newline @ assign (b @ ''['' @ val (l_c i) @ '']'')
     else if 12 \<le> op \<and> op \<le> 17 then assign (val (l_b i) @ '' '' @ arithmeticOp op @ '' '' @ val (l_c i))
     else if op = 18 then assign (''-'' @ b)
     else if op = 19 then assign (''not '' @ b)
     else if op = 20 then assign (''#'' @ b)
     else if op = 21 then assign (b @ '' .. '' @ local (l_c i))
     else if op = 27 then
       pad @ ''-- ByteVeil: TESTSET at pc '' @ int_text (l_pc i) @ '' conditionally assigns '' @ a @ '' from '' @ b @
         '' (C='' @ int_text (l_c i) @ '')'' @ newline
     else if op = 28 then emitCall f i indent context colonCall inlineCallTarget
     else if op = 29 then emitTailCall f i indent context colonCall inlineCallTarget
     else if op = 30 then emitReturn f i indent context
     else if op = 31 then unpaired ''FORLOOP'' ''FORPREP''
     else if op = 32 then unpaired ''FORPREP'' ''FORLOOP''
     else if op = 33 then unpaired ''TFORLOOP'' ''its entry jump''
     else if op = 34 then emitSetList f i indent context
     else if op = 35 then
       (let (cells, detached) = emitCapturedCellClose f (l_a i) indent in
        cells @ (if \<not> detached then
          pad @ ''-- ByteVeil: CLOSE registers >= '' @ int_text (l_a i) @ ''; no captured local cell was found'' @ newline else []))
     else if op = 36 then emitClosure f children i indent context
     else if op = 37 then emitVararg f i indent context
     else if op = -1 then
       pad @ ''-- ByteVeil: SETLIST extra block word '' @ int_text (l_setlistBlock i) @ '' consumed at pc '' @
         int_text (l_pc i) @ newline
     else pad @ ''-- ByteVeil: unsupported opcode retained: '' @ opName op @ '' A='' @ int_text (l_a i) @ '' B='' @
         int_text (l_b i) @ '' C='' @ int_text (l_c i) @ '' at pc '' @ int_text (l_pc i) @ newline)"

end
