(* ===== verification/Lua51_Structure.thy ===== *)
theory Lua51_Structure
  imports Lua51_Emit
begin

text \<open>
  The structured writer \<^verbatim>\<open>emitRange\<close> of \<^verbatim>\<open>byteveil_decompiler/Lua51.cpp\<close>, first part: its output and
  the loops. \<^verbatim>\<open>emitRange\<close> walks over a range of positions; at every position it tries a list of shapes,
  and the first that matches writes some lines, calls \<^verbatim>\<open>emitRange\<close> for parts of the range between them,
  and goes on at another position or leaves the range. A shape is a function to an optional plan: the
  pieces it writes, which are lines and ranges to be written, and where it goes on. The loop that
  carries out the plans is in \<open>Lua51_Range\<close>.
\<close>

section \<open>Lines, ranges and plans\<close>

text \<open>A line with its indentation; \<open>Plain\<close> is any text without control structure of its own.\<close>

datatype line =
    Plain string
  | If_then nat string
  | Else_line nat
  | End_line nat
  | Loop_do nat string
  | Repeat nat
  | Until nat string
  | Do_line nat
  | Break nat
  | Break_if nat string

fun line_text :: "line \<Rightarrow> string" where
  "line_text (Plain s) = s"
| "line_text (If_then n c) = padding n @ ''if '' @ c @ '' then'' @ newline"
| "line_text (Else_line n) = padding n @ ''else'' @ newline"
| "line_text (End_line n) = padding n @ ''end'' @ newline"
| "line_text (Loop_do n header) = padding n @ header @ '' do'' @ newline"
| "line_text (Repeat n) = padding n @ ''repeat'' @ newline"
| "line_text (Until n c) = padding n @ ''until '' @ c @ newline"
| "line_text (Do_line n) = padding n @ ''do'' @ newline"
| "line_text (Break n) = padding n @ ''break'' @ newline"
| "line_text (Break_if n c) = padding n @ ''if '' @ c @ '' then break end'' @ newline"

text \<open>The arguments of \<^verbatim>\<open>emitRange\<close> that differ between its calls.\<close>

record range =
  rg_begin :: int
  rg_end :: int
  rg_indent :: nat
  rg_allow :: bool
  rg_break :: int
  rg_continue :: int
  rg_flag :: string

datatype piece = Line line | Sub range
datatype next_pc = Goto int | Leave
type_synonym plan = "piece list \<times> next_pc"

definition say_line :: "nat \<Rightarrow> string \<Rightarrow> piece" where
  "say_line n s = Line (Plain (padding n @ s @ newline))"

definition assign_line :: "nat \<Rightarrow> string \<Rightarrow> string \<Rightarrow> piece" where
  "assign_line n name rhs = say_line n (name @ '' = '' @ rhs)"

text \<open>A part of the range in the same loop, and the body of a loop.\<close>

definition part :: "range \<Rightarrow> int \<Rightarrow> int \<Rightarrow> nat \<Rightarrow> bool \<Rightarrow> piece" where
  "part r first end indent allow =
    Sub (r\<lparr>rg_begin := first, rg_end := end, rg_indent := indent, rg_allow := allow\<rparr>)"

definition loop_body :: "int \<Rightarrow> int \<Rightarrow> nat \<Rightarrow> bool \<Rightarrow> int \<Rightarrow> int \<Rightarrow> string \<Rightarrow> piece" where
  "loop_body first end indent allow break_to continue_to flag =
    Sub \<lparr>rg_begin = first, rg_end = end, rg_indent = indent, rg_allow = allow, rg_break = break_to,
      rg_continue = continue_to, rg_flag = flag\<rparr>"

abbreviation opAt :: "lua_fields \<Rightarrow> int \<Rightarrow> int" where "opAt f pc \<equiv> l_op (instrAt f pc)"
abbreviation targetAt :: "lua_fields \<Rightarrow> int \<Rightarrow> int" where "targetAt f pc \<equiv> l_target (instrAt f pc)"

text \<open>A conditional with its jump inside a range that ends at \<open>end\<close>; LOADBOOL that skips.\<close>

definition conditionJump :: "lua_fields \<Rightarrow> int \<Rightarrow> int \<Rightarrow> bool" where
  "conditionJump f end pc \<longleftrightarrow> pc + 1 < end \<and> isCondition (opAt f pc) \<and> opAt f (pc + 1) = 22"

definition testsetJump :: "lua_fields \<Rightarrow> int \<Rightarrow> int \<Rightarrow> bool" where
  "testsetJump f end pc \<longleftrightarrow> opAt f pc = 27 \<and> pc + 1 < end \<and> opAt f (pc + 1) = 22"

definition skippingLoad :: "lua_instr \<Rightarrow> bool" where
  "skippingLoad i \<longleftrightarrow> l_op i = 2 \<and> l_c i \<noteq> 0"

text \<open>\<^verbatim>\<open>tested\<close> and \<^verbatim>\<open>condition\<close> of TESTSET.\<close>

definition testsetTested :: "lua_fields \<Rightarrow> lua_instr \<Rightarrow> render_context \<Rightarrow> string" where
  "testsetTested f i context = renderedLocal f (l_b i) (l_pc i) context"

definition testsetCondition :: "lua_fields \<Rightarrow> lua_instr \<Rightarrow> render_context \<Rightarrow> string" where
  "testsetCondition f i context =
    (let tested = testsetTested f i context in if l_c i \<noteq> 0 then tested else ''not ('' @ tested @ '')'')"

definition testsetAssign :: "lua_fields \<Rightarrow> lua_instr \<Rightarrow> render_context \<Rightarrow> nat \<Rightarrow> piece" where
  "testsetAssign f i context indent =
    assign_line indent (renderedLocal f (l_a i) (l_pc i) context) (testsetTested f i context)"

section \<open>Repeat loops at the start of a range\<close>

text \<open>
  The scan for the latch with the smallest target: the target, the latch and whether the latch is the
  only one with this target; \<open>-1\<close> is none.
\<close>

definition repeatScan :: "lua_fields \<Rightarrow> int \<Rightarrow> int \<Rightarrow> int \<times> int \<times> bool \<Rightarrow> int \<times> int \<times> bool" where
  "repeatScan f first scan = (\<lambda>(start, latch, unique).
    let t = targetAt f (scan + 1) in
    if isCondition (opAt f scan) \<and> opAt f (scan + 1) = 22 \<and> t \<ge> first \<and> t < scan then
      (if start < 0 \<or> t < start then (t, scan, True)
       else if t = start then (start, latch, False) else (start, latch, unique))
    else (start, latch, unique))"

definition repeatLatch :: "lua_fields \<Rightarrow> int \<Rightarrow> int \<Rightarrow> int \<times> int \<times> bool" where
  "repeatLatch f first end =
    (let (start, latch, unique) = fold (repeatScan f first) [first..end - 2] (-1, -1, True) in
     (start, latch, unique \<and> \<not> (start \<ge> 0 \<and>
        list_ex (\<lambda>edge. opAt f edge = 22 \<and> edge \<noteq> latch + 1 \<and> targetAt f edge = start) [start + 1..end - 1])))"

text \<open>The instruction in front of the loop neither jumps into the loop nor over its start.\<close>

definition prefixContained :: "lua_fields \<Rightarrow> int \<Rightarrow> int \<Rightarrow> bool" where
  "prefixContained f start prefix \<longleftrightarrow>
    (let prior = instrAt f prefix; conditional = isCondition (l_op prior) \<or> l_op prior = 27 \<or> l_op prior = 33;
         taken = (if l_op prior = 22 then l_target prior
           else if conditional then l_pc (instrAt f (prefix + 1)) + l_sbx (instrAt f (prefix + 1)) + 1
           else if l_op prior = 31 \<or> l_op prior = 32 then l_target prior else -1);
         skipsPastStart = skippingLoad prior \<and> prefix + 2 \<ge> start \<or> l_op prior = 34 \<and> l_c prior = 0 \<and> prefix + 2 \<ge> start in
     \<not> (conditional \<and> prefix + 1 \<ge> codeSize f) \<and>
     \<not> (taken \<ge> start \<or> skipsPastStart \<or> l_op prior = 29 \<or> l_op prior = 30))"

definition planRepeatEntry :: "lua_fields \<Rightarrow> render_context \<Rightarrow> range \<Rightarrow> int \<Rightarrow> plan option" where
  "planRepeatEntry f context r pc =
    (if pc \<noteq> rg_begin r then None
     else let (start, latch, unique) = repeatLatch f (rg_begin r) (rg_end r) in
       if start \<ge> 0 \<and> latch \<ge> 0 \<and> unique \<and> list_all (prefixContained f start) [rg_begin r..start - 1] then
         Some ((if start > rg_begin r then [part r (rg_begin r) start (rg_indent r) (rg_allow r)] else []) @
           [Line (Repeat (rg_indent r)), loop_body start latch (rg_indent r + 4) False (latch + 2) (-1) [],
            Line (Until (rg_indent r) (conditionExpr f (instrAt f latch) context))],
           Goto (latch + 2))
       else None)"

section \<open>Loops with unconditional back edges\<close>

text \<open>\<^verbatim>\<open>branchTarget\<close> of the search for these loops.\<close>

definition loopBranchTarget :: "lua_fields \<Rightarrow> lua_instr \<Rightarrow> int" where
  "loopBranchTarget f edge =
    (if l_op edge = 22 \<or> l_op edge = 31 \<or> l_op edge = 32 then l_target edge
     else if (isCondition (l_op edge) \<or> l_op edge = 27) \<and> l_pc edge + 1 < codeSize f \<and> opAt f (l_pc edge + 1) = 22
     then targetAt f (l_pc edge + 1)
     else if l_op edge = 33 then followingControlTarget f edge
     else -1)"

text \<open>The positions of the back edges to \<open>pc\<close>; the jump of a conditional counts with the conditional.\<close>

definition backEdgesTo :: "lua_fields \<Rightarrow> int \<Rightarrow> int \<Rightarrow> int list" where
  "backEdgesTo f pc end = filter (\<lambda>scan.
      \<not> (opAt f scan = 22 \<and> scan > pc \<and>
        (isCondition (opAt f (scan - 1)) \<or> opAt f (scan - 1) = 27 \<or> opAt f (scan - 1) = 33)) \<and>
      loopBranchTarget f (instrAt f scan) = pc \<and> scan > pc) [pc..end - 1]"

definition lastBackEdgeOf :: "lua_fields \<Rightarrow> int \<Rightarrow> int list \<Rightarrow> int" where
  "lastBackEdgeOf f pc edges = fold (\<lambda>scan behind. max behind (scan + (if opAt f scan = 22 then 0 else 1))) edges pc"

definition loopEndOf :: "lua_fields \<Rightarrow> int \<Rightarrow> int \<Rightarrow> int \<Rightarrow> int" where
  "loopEndOf f pc end lastBackEdge =
    fold (\<lambda>scan loopEnd. let t = loopBranchTarget f (instrAt f scan) in if t > lastBackEdge then min loopEnd t else loopEnd)
      [pc..end - 1] end"

text \<open>The targets inside the loop of branches from outside; the code stops at the second different one.\<close>

definition externalEntries :: "lua_fields \<Rightarrow> int \<Rightarrow> int \<Rightarrow> int list" where
  "externalEntries f pc loopEnd = filter (\<lambda>t. t > pc \<and> t < loopEnd)
    (map (loopBranchTarget f) (filter (\<lambda>edge. \<not> (l_pc edge \<ge> pc \<and> l_pc edge < loopEnd)) (q_code f)))"

definition leavesStraightLine :: "lua_instr \<Rightarrow> bool" where
  "leavesStraightLine i \<longleftrightarrow> l_op i = 22 \<or> isCondition (l_op i) \<or> l_op i = 27 \<or> l_op i = 29 \<or> l_op i = 30 \<or>
    l_op i = 31 \<or> l_op i = 32 \<or> l_op i = 33 \<or> skippingLoad i \<or> l_op i = 34 \<and> l_c i = 0"

definition isolatedTail :: "lua_fields \<Rightarrow> int \<Rightarrow> int \<Rightarrow> int \<Rightarrow> int \<Rightarrow> bool" where
  "isolatedTail f pc lastBackEdge loopEnd tail \<longleftrightarrow>
    tail > lastBackEdge \<and> tail > pc \<and> tail < loopEnd \<and> tail > 0 \<and>
    opAt f (tail - 1) = 22 \<and> targetAt f (tail - 1) = loopEnd \<and>
    list_all (\<lambda>scan. \<not> leavesStraightLine (instrAt f scan)) [tail..loopEnd - 1] \<and>
    list_all (\<lambda>scan. let t = loopBranchTarget f (instrAt f scan) in \<not> (t \<ge> tail \<and> t < loopEnd)) [pc..tail - 1]"

definition closedLoop :: "lua_fields \<Rightarrow> int \<Rightarrow> int \<Rightarrow> int \<Rightarrow> bool" where
  "closedLoop f pc lastBackEdge loopEnd \<longleftrightarrow>
    list_all (\<lambda>scan. let t = loopBranchTarget f (instrAt f scan) in
      \<not> (t \<ge> 0 \<and> t \<noteq> pc \<and> (t \<le> pc \<or> t > loopEnd))) [pc..loopEnd - 1] \<and>
    (case externalEntries f pc loopEnd of [] \<Rightarrow> True
     | t # ts \<Rightarrow> list_all (\<lambda>u. u = t) ts \<and> isolatedTail f pc lastBackEdge loopEnd t)"

definition planInfiniteLoop :: "lua_fields \<Rightarrow> range \<Rightarrow> int \<Rightarrow> plan option" where
  "planInfiniteLoop f r pc =
    (let edges = backEdgesTo f pc (rg_end r); lastBackEdge = lastBackEdgeOf f pc edges;
         loopEnd = loopEndOf f pc (rg_end r) lastBackEdge in
     if (rg_allow r \<or> rg_break r \<ge> 0) \<and> rg_continue r \<noteq> pc \<and>
        (length edges \<ge> 2 \<or> length edges = 1 \<and> (pc = rg_begin r \<or> opAt f (last edges) = 22)) \<and>
        loopEnd > lastBackEdge \<and> closedLoop f pc lastBackEdge loopEnd then
       Some ([Line (Loop_do (rg_indent r) ''while true''),
          loop_body pc loopEnd (rg_indent r + 4) True loopEnd pc [], Line (End_line (rg_indent r))],
         Goto loopEnd)
     else None)"

section \<open>A call of a global function\<close>

text \<open>GETGLOBAL, MOVE and a call with one argument whose results are dropped or returned.\<close>

definition unquotedGlobal :: "lua_fields \<Rightarrow> lua_instr \<Rightarrow> string" where
  "unquotedGlobal f i =
    (let fn = (if l_bx i < int (length (q_constants f)) then q_constants f ! nat (l_bx i)
         else ''_G['' @ [CHR 0x22] @ ''unknown'' @ [CHR 0x22] @ '']'') in
     if length fn \<ge> 2 \<and> hd fn = CHR 0x22 \<and> last fn = CHR 0x22 then take (length fn - 2) (drop 1 fn) else fn)"

definition planGlobalCall :: "lua_fields \<Rightarrow> render_context \<Rightarrow> range \<Rightarrow> int \<Rightarrow> plan option" where
  "planGlobalCall f context r pc =
    (let i = instrAt f pc; move = instrAt f (pc + 1); call = instrAt f (pc + 2) in
     if l_op i = 5 \<and> pc + 2 < rg_end r \<and> l_op move = 0 \<and> (l_op call = 28 \<or> l_op call = 29) \<and>
        l_a call = l_a i \<and> l_a move = l_a call + 1 \<and> l_b call = 2 \<and> (l_op call = 29 \<or> l_c call = 1) then
       Some ([say_line (rg_indent r) ((if l_op call = 29 then ''return '' else []) @ unquotedGlobal f i @ ''('' @
           renderedValueAt f (l_b move) (pc + 1) context @ '')'')],
         if l_op call = 29 then Leave else Goto (pc + 3))
     else None)"

section \<open>For loops\<close>

text \<open>
  A jump to the end of the body continues the loop. The body is then written inside a loop that runs
  once, and a flag says that the outer loop is left. \<open>prep\<close> is the position of the loop instruction.
\<close>

definition planForBody :: "lua_fields \<Rightarrow> render_context \<Rightarrow> range \<Rightarrow> int \<Rightarrow> int \<Rightarrow> int \<Rightarrow> piece list" where
  "planForBody f context r pc bodyEnd breakTarget =
    (let bodyBegin = pc + 1; d = rg_indent r;
         continueTarget = (if bodyEnd > bodyBegin \<and> opAt f (bodyEnd - 1) = 35 then bodyEnd - 1 else bodyEnd);
         needsContinueWrapper = hasLoopEdgeTo f bodyBegin bodyEnd continueTarget;
         breakFlag = (if needsContinueWrapper then loopBreakFlagName f (l_pc (instrAt f pc)) context else []) in
     if needsContinueWrapper then
       [say_line (d + 4) (''local '' @ breakFlag @ '' = false''), Line (Repeat (d + 4)),
        loop_body bodyBegin bodyEnd (d + 8) True breakTarget continueTarget breakFlag,
        Line (Until (d + 4) ''true''), Line (Break_if (d + 4) breakFlag), Line (End_line d)]
     else [loop_body bodyBegin bodyEnd (d + 4) True breakTarget continueTarget breakFlag, Line (End_line d)])"

definition loopCell :: "lua_fields \<Rightarrow> render_context \<Rightarrow> nat \<Rightarrow> int \<Rightarrow> int \<Rightarrow> piece list" where
  "loopCell f context d loopRegister at =
    (if managedCapturedLocal f loopRegister then
       [assign_line (d + 4) (capturedCellName f loopRegister) (''{'' @ renderedRegisterName f loopRegister at context @ ''}'')]
     else [])"

definition planNumericFor :: "lua_fields \<Rightarrow> render_context \<Rightarrow> range \<Rightarrow> int \<Rightarrow> plan option" where
  "planNumericFor f context r pc =
    (let i = instrAt f pc; t = l_target i; d = rg_indent r; loopRegister = l_a i + 3 in
     if l_op i = 32 \<and> t > pc \<and> t < rg_end r \<and> t < codeSize f \<and> opAt f t = 31 then
       Some (Line (Loop_do d (''for '' @ renderedRegisterName f loopRegister (pc + 1) context @ '' = '' @
           renderedValueAt f (l_a i) pc context @ '', '' @ renderedValueAt f (l_a i + 1) pc context @ '', '' @
           renderedValueAt f (l_a i + 2) pc context)) #
         loopCell f context d loopRegister (pc + 1) @ planForBody f context r pc t (t + 1),
         Goto (t + 1))
     else None)"

definition planGenericFor :: "lua_fields \<Rightarrow> render_context \<Rightarrow> range \<Rightarrow> int \<Rightarrow> plan option" where
  "planGenericFor f context r pc =
    (let i = instrAt f pc; t = l_target i; d = rg_indent r; loop = instrAt f t;
         registers = map (\<lambda>n. l_a loop + 3 + n) [0..l_c loop - 1] in
     if l_op i = 22 \<and> t > pc \<and> t + 1 < codeSize f \<and> l_op loop = 33 \<and> opAt f (t + 1) = 22 \<and> targetAt f (t + 1) = pc + 1 then
       Some (Line (Loop_do d (''for '' @ join '', '' (map (\<lambda>x. renderedRegisterName f x (pc + 1) context) registers) @
           '' in '' @ renderedLocal f (l_a loop) pc context @ '', '' @ renderedLocal f (l_a loop + 1) pc context @ '', '' @
           renderedLocal f (l_a loop + 2) pc context)) #
         concat (map (\<lambda>x. loopCell f context d x (pc + 1)) registers) @ planForBody f context r pc t (t + 2),
         Goto (t + 2))
     else None)"

section \<open>Leaving and continuing a loop\<close>

definition setFlag :: "range \<Rightarrow> nat \<Rightarrow> piece list" where
  "setFlag r d = (if rg_flag r = [] then [] else [assign_line d (rg_flag r) ''true''])"

definition planLoopExit :: "lua_fields \<Rightarrow> render_context \<Rightarrow> range \<Rightarrow> int \<Rightarrow> plan option" where
  "planLoopExit f context r pc =
    (let i = instrAt f pc; d = rg_indent r; leave = [Line (Break (d + 4)), Line (End_line d)] in
     if rg_break r < 0 then None
     else if testsetJump f (rg_end r) pc \<and> targetAt f (pc + 1) = rg_break r then
       Some (Line (If_then d (testsetCondition f i context)) # testsetAssign f i context (d + 4) # setFlag r (d + 4) @ leave,
         Goto (pc + 2))
     else if conditionJump f (rg_end r) pc \<and> targetAt f (pc + 1) = rg_break r then
       Some (Line (If_then d (negateConditionExpr (conditionExpr f i context))) # setFlag r (d + 4) @ leave, Goto (pc + 2))
     else if conditionJump f (rg_end r) pc \<and> pc + 2 < rg_end r \<and> targetAt f (pc + 1) = pc + 3 \<and>
        opAt f (pc + 2) = 22 \<and> targetAt f (pc + 2) = rg_break r then
       Some (Line (If_then d (conditionExpr f i context)) # setFlag r (d + 4) @ leave, Goto (pc + 3))
     else None)"

text \<open>What is left of the body goes into the conditional; with a flag \<^verbatim>\<open>break\<close> leaves the loop that runs once.\<close>

definition planLoopContinue :: "lua_fields \<Rightarrow> render_context \<Rightarrow> range \<Rightarrow> int \<Rightarrow> plan option" where
  "planLoopContinue f context r pc =
    (let i = instrAt f pc; d = rg_indent r;
         rest = (if pc + 2 < rg_end r then [part r (pc + 2) (rg_end r) (d + 4) False] else []) in
     if rg_continue r < 0 then None
     else if conditionJump f (rg_end r) pc \<and> targetAt f (pc + 1) = rg_continue r then
       Some (Line (If_then d (conditionExpr f i context)) # rest @
         (if rg_flag r = [] then [Line (End_line d)]
          else [Line (Else_line d), Line (Break (d + 4)), Line (End_line d)]), Leave)
     else if testsetJump f (rg_end r) pc \<and> targetAt f (pc + 1) = rg_continue r then
       Some ([Line (If_then d (testsetCondition f i context)), testsetAssign f i context (d + 4)] @
         (if rg_flag r = [] then [] else [Line (Break (d + 4))]) @
         [Line (Else_line d)] @ rest @ [Line (End_line d)], Leave)
     else None)"

text \<open>An unconditional jump out of the loop, to its next pass, or to anywhere.\<close>

definition planJump :: "lua_fields \<Rightarrow> range \<Rightarrow> int \<Rightarrow> plan option" where
  "planJump f r pc =
    (let i = instrAt f pc; d = rg_indent r in
     if l_op i \<noteq> 22 then None
     else if rg_break r \<ge> 0 \<and> l_target i = rg_break r then Some (setFlag r d @ [Line (Break d)], Leave)
     else if rg_continue r \<ge> 0 \<and> l_target i = rg_continue r then
       Some (if rg_flag r = [] then [] else [Line (Break d)], Leave)
     else Some ([], Goto (if l_target i \<ge> 0 then l_target i else pc + 1)))"

end
