(* ===== verification/Lua51_Guards.thy ===== *)
theory Lua51_Guards
  imports Lua51_Structure
begin

text \<open>
  The structured writer \<^verbatim>\<open>emitRange\<close> of \<^verbatim>\<open>byteveil_decompiler/Lua51.cpp\<close>, second part: sequences of
  guards that share a return or a body, and comparisons that end in a boolean value.
\<close>

section \<open>Sequences of guards\<close>

text \<open>The position where straight-line setup of at most \<open>limit\<close> instructions ends.\<close>

definition gapEnd :: "(lua_instr \<Rightarrow> bool) \<Rightarrow> lua_fields \<Rightarrow> int \<Rightarrow> int \<Rightarrow> int \<Rightarrow> int" where
  "gapEnd ok f limit end first =
    first + int (length (takeWhile (\<lambda>pc. ok (instrAt f pc)) [first..min end (first + limit) - 1]))"

definition guardedGapSafe :: "lua_instr \<Rightarrow> bool" where
  "guardedGapSafe i \<longleftrightarrow> straightLineConditionGap i \<and> \<not> skippingLoad i"

text \<open>\<^verbatim>\<open>SharedReturnGuard\<close> and \<^verbatim>\<open>SharedBodyGuard\<close>.\<close>

record shared_guard =
  sg_pc :: int
  sg_target :: int
  sg_gapBegin :: int
  sg_gapEnd :: int

text \<open>
  The guards from a position that holds a conditional with its jump; \<open>same\<close> is the test on the target of
  a further guard.
\<close>

fun collectGuards :: "(int \<Rightarrow> bool) \<Rightarrow> lua_fields \<Rightarrow> int \<Rightarrow> nat \<Rightarrow> int \<Rightarrow> shared_guard list" where
  "collectGuards same f end 0 cursor = []"
| "collectGuards same f end (Suc count) cursor =
    (if \<not> conditionJump f end cursor then []
     else let next = gapEnd guardedGapSafe f 16 end (cursor + 2) in
       if conditionJump f end next \<and> same (targetAt f (next + 1)) then
         \<lparr>sg_pc = cursor, sg_target = targetAt f (cursor + 1), sg_gapBegin = cursor + 2, sg_gapEnd = next\<rparr> #
         collectGuards same f end count next
       else [\<lparr>sg_pc = cursor, sg_target = targetAt f (cursor + 1), sg_gapBegin = cursor + 2, sg_gapEnd = cursor + 2\<rparr>])"

text \<open>The target of the edge an instruction adds, as these shapes see it; \<open>-1\<close> for none.\<close>

definition edgeTarget :: "lua_fields \<Rightarrow> lua_instr \<Rightarrow> int" where
  "edgeTarget f edge =
    (if l_op edge = 22 \<or> l_op edge = 31 \<or> l_op edge = 32 \<or> l_op edge = 33 then l_target edge
     else if (isCondition (l_op edge) \<or> l_op edge = 27) \<and> l_pc edge + 1 < codeSize f \<and> opAt f (l_pc edge + 1) = 22
     then targetAt f (l_pc edge + 1)
     else if skippingLoad edge then l_target edge else -1)"

definition guardGap :: "range \<Rightarrow> nat \<Rightarrow> shared_guard \<Rightarrow> piece list" where
  "guardGap r d g =
    (if sg_gapBegin g < sg_gapEnd g then [part r (sg_gapBegin g) (sg_gapEnd g) d (rg_allow r)] else [])"

definition guardTest :: "lua_fields \<Rightarrow> render_context \<Rightarrow> nat \<Rightarrow> int \<Rightarrow> piece" where
  "guardTest f context d pc = Line (If_then d (conditionExpr f (instrAt f pc) context))"

section \<open>Guards that share a return\<close>

definition controlOrClosure :: "lua_instr \<Rightarrow> bool" where
  "controlOrClosure i \<longleftrightarrow> 29 \<le> l_op i \<and> l_op i \<le> 33 \<or> l_op i = 35 \<or> l_op i = 36 \<or> skippingLoad i"

definition sharedReturnValid :: "lua_fields \<Rightarrow> range \<Rightarrow> int \<Rightarrow> shared_guard list \<Rightarrow> bool" where
  "sharedReturnValid f r pc guards \<longleftrightarrow>
    (let failureBegin = sg_target (hd guards); final = last guards; successBegin = sg_target final in
     length guards \<ge> 2 \<and>
     failureBegin > sg_pc final + 1 \<and> successBegin > failureBegin \<and> successBegin < rg_end r \<and>
     sg_pc final + 2 = failureBegin \<and>
     list_all (\<lambda>g. sg_target g = failureBegin) (butlast guards) \<and>
     opAt f (successBegin - 1) = 30 \<and> successBegin - failureBegin \<le> 32 \<and>
     list_all (\<lambda>scan. let i = instrAt f scan in
         \<not> (l_op i = 22 \<or> 23 \<le> l_op i \<and> l_op i \<le> 27 \<or> controlOrClosure i)) [failureBegin..successBegin - 2] \<and>
     list_all (\<lambda>edge. let t = edgeTarget f edge in
         \<not> (l_pc edge < pc \<and> t \<ge> failureBegin \<and> t < rg_end r) \<and>
         \<not> (l_pc edge \<ge> successBegin \<and> t \<ge> 0 \<and> (t < successBegin \<or> t > rg_end r))) (q_code f))"

definition planSharedReturn :: "lua_fields \<Rightarrow> render_context \<Rightarrow> range \<Rightarrow> int \<Rightarrow> plan option" where
  "planSharedReturn f context r pc =
    (let guards = collectGuards (\<lambda>_. True) f (rg_end r) 8 pc; n = length guards - 1; d = rg_indent r;
         failureBegin = sg_target (hd guards); final = last guards; successBegin = sg_target final;
         failure = (\<lambda>d. part r failureBegin successBegin (d + 4) False) in
     if conditionJump f (rg_end r) pc \<and> rg_end r = codeSize f \<and> sharedReturnValid f r pc guards then
       Some (concat (map (\<lambda>k. guardTest f context (d + 4 * k) (sg_pc (guards ! k)) # guardGap r (d + 4 * k + 4) (guards ! k)) [0..<n]) @
         guardGap r (d + 4 * n) final @
         [guardTest f context (d + 4 * n) (sg_pc final), failure (d + 4 * n), Line (Else_line (d + 4 * n)),
          part r successBegin (rg_end r) (d + 4 * n + 4) (rg_allow r), Line (End_line (d + 4 * n))] @
         concat (map (\<lambda>k. [Line (Else_line (d + 4 * k)), failure (d + 4 * k), Line (End_line (d + 4 * k))]) (rev [0..<n])),
         Goto (rg_end r))
     else None)"

section \<open>Guards that share a body\<close>

definition hasExternalEntry :: "lua_fields \<Rightarrow> range \<Rightarrow> int \<Rightarrow> int \<Rightarrow> int \<Rightarrow> bool" where
  "hasExternalEntry f r bodyBegin joinPc t \<longleftrightarrow>
    list_ex (\<lambda>i. edgeTarget f i = t \<and> \<not> (l_pc i < rg_begin r \<or> l_pc i \<ge> bodyBegin \<and> l_pc i < joinPc)) (q_code f)"

definition sharedBodyInstr :: "lua_fields \<Rightarrow> int \<Rightarrow> int \<Rightarrow> bool" where
  "sharedBodyInstr f joinPc scan \<longleftrightarrow>
    (let i = instrAt f scan in
     if l_op i = 22 then \<not> (l_target i \<le> scan \<or> l_target i > joinPc)
     else if 23 \<le> l_op i \<and> l_op i \<le> 27 then
       \<not> (scan + 1 \<ge> joinPc \<or> opAt f (scan + 1) \<noteq> 22 \<or> targetAt f (scan + 1) \<le> scan + 1 \<or> targetAt f (scan + 1) > joinPc)
     else \<not> controlOrClosure i)"

definition sharedBodyValid :: "lua_fields \<Rightarrow> range \<Rightarrow> int \<Rightarrow> shared_guard list \<Rightarrow> bool" where
  "sharedBodyValid f r pc guards \<longleftrightarrow>
    (let joinPc = sg_target (hd guards); bodyBegin = sg_pc (last guards) + 2 in
     length guards \<ge> 2 \<and>
     joinPc > bodyBegin \<and> joinPc \<le> rg_end r \<and> joinPc - bodyBegin \<le> 64 \<and> opAt f (joinPc - 1) = 30 \<and>
     list_all (\<lambda>g. sg_target g = joinPc) guards \<and>
     list_all (sharedBodyInstr f joinPc) [bodyBegin..joinPc - 2] \<and>
     list_all (\<lambda>g. \<not> (sg_pc g \<noteq> pc \<and> hasExternalEntry f r bodyBegin joinPc (sg_pc g)) \<and>
       list_all (\<lambda>t. \<not> hasExternalEntry f r bodyBegin joinPc t) [sg_gapBegin g..sg_gapEnd g - 1]) guards \<and>
     list_all (\<lambda>t. \<not> hasExternalEntry f r bodyBegin joinPc t) [bodyBegin..joinPc - 1])"

definition planSharedBody :: "lua_fields \<Rightarrow> render_context \<Rightarrow> range \<Rightarrow> int \<Rightarrow> plan option" where
  "planSharedBody f context r pc =
    (let guards = collectGuards (\<lambda>t. t = targetAt f (pc + 1)) f (rg_end r) 8 pc; n = length guards; d = rg_indent r;
         joinPc = sg_target (hd guards); bodyBegin = sg_pc (last guards) + 2 in
     if conditionJump f (rg_end r) pc \<and> sharedBodyValid f r pc guards then
       Some (concat (map (\<lambda>k. guardTest f context (d + 4 * k) (sg_pc (guards ! k)) # guardGap r (d + 4 * k + 4) (guards ! k)) [0..<n]) @
         [part r bodyBegin joinPc (d + 4 * n) False] @
         map (\<lambda>k. Line (End_line (d + 4 * k))) (rev [0..<n]),
         Goto joinPc)
     else None)"

section \<open>Boolean values\<close>

text \<open>A comparison that loads one of two booleans in front of a RETURN of the register.\<close>

definition booleanReturnPc :: "lua_fields \<Rightarrow> int \<Rightarrow> int \<Rightarrow> int" where
  "booleanReturnPc f end joinPc =
    (if opAt f joinPc = 30 then joinPc
     else if opAt f joinPc = 22 \<and> targetAt f joinPc > joinPc \<and> targetAt f joinPc < end \<and> opAt f (targetAt f joinPc) = 30
     then targetAt f joinPc else -1)"

definition planBooleanFold :: "lua_fields \<Rightarrow> render_context \<Rightarrow> range \<Rightarrow> int \<Rightarrow> plan option" where
  "planBooleanFold f context r pc =
    (let i = instrAt f pc; falls = instrAt f (pc + 2); jumps = instrAt f (pc + 3); joinPc = pc + 4;
         returnPc = booleanReturnPc f (rg_end r) joinPc; condition = conditionExpr f i context in
     if isCondition (l_op i) \<and> joinPc \<le> rg_end r \<and> joinPc < codeSize f \<and> opAt f (pc + 1) = 22 \<and> targetAt f (pc + 1) = pc + 3 \<and>
        l_op falls = 2 \<and> l_c falls = 1 \<and> l_op jumps = 2 \<and> l_c jumps = 0 \<and> l_a falls = l_a jumps \<and> l_b falls \<noteq> l_b jumps \<and>
        returnPc \<ge> 0 \<and> l_a (instrAt f returnPc) = l_a falls \<and> l_b (instrAt f returnPc) = 2 then
       Some ([assign_line (rg_indent r) (renderedLocal f (l_a falls) pc context)
           (if l_b falls \<noteq> 0 then condition else ''not ('' @ condition @ '')'')], Goto joinPc)
     else None)"

text \<open>
  A guard whose jump leads to a boolean that is returned, while the other arm has at least two early
  exits to the same RETURN.
\<close>

definition booleanTailInstr :: "lua_fields \<Rightarrow> int \<Rightarrow> int \<Rightarrow> bool" where
  "booleanTailInstr f joinPc scan \<longleftrightarrow>
    (let i = instrAt f scan in
     if l_op i = 22 then \<not> (l_target i \<le> scan \<or> l_target i > joinPc)
     else if isCondition (l_op i) \<or> l_op i = 27 then
       \<not> (scan + 1 \<ge> joinPc \<or> opAt f (scan + 1) \<noteq> 22 \<or> targetAt f (scan + 1) \<le> scan + 1 \<or> targetAt f (scan + 1) > joinPc)
     else \<not> (31 \<le> l_op i \<and> l_op i \<le> 36 \<or> skippingLoad i \<and> l_target i > joinPc))"

definition booleanReturnTail :: "lua_fields \<Rightarrow> range \<Rightarrow> int \<Rightarrow> bool" where
  "booleanReturnTail f r pc \<longleftrightarrow>
    (let falseBegin = targetAt f (pc + 1); joinPc = falseBegin + 2; trueBegin = pc + 2;
         first = instrAt f falseBegin; second = instrAt f (falseBegin + 1); exit = instrAt f joinPc in
     falseBegin \<ge> trueBegin \<and> joinPc + 1 = rg_end r \<and> joinPc < codeSize f \<and>
     l_op first = 2 \<and> l_c first = 1 \<and> l_op second = 2 \<and> l_a second = l_a first \<and> l_c second = 0 \<and> l_b second \<noteq> l_b first \<and>
     l_op exit = 30 \<and> l_a exit = l_a first \<and> l_b exit = 2 \<and>
     length (filter (\<lambda>scan. isCondition (opAt f scan) \<and> opAt f (scan + 1) = 22 \<and> targetAt f (scan + 1) = joinPc)
       [trueBegin..falseBegin - 2]) \<ge> 2 \<and>
     list_all (booleanTailInstr f joinPc) [trueBegin..joinPc - 1] \<and>
     list_all (\<lambda>edge. let t = edgeTarget f edge in
       \<not> (t \<ge> trueBegin \<and> t < joinPc \<and> (l_pc edge < pc \<or> l_pc edge \<ge> joinPc) \<and>
          \<not> (l_pc edge = pc + 1 \<and> t = falseBegin))) (q_code f))"

definition planBooleanReturn :: "lua_fields \<Rightarrow> render_context \<Rightarrow> range \<Rightarrow> int \<Rightarrow> plan option" where
  "planBooleanReturn f context r pc =
    (let d = rg_indent r; falseBegin = targetAt f (pc + 1); joinPc = falseBegin + 2 in
     if conditionJump f (rg_end r) pc \<and> booleanReturnTail f r pc then
       Some ([guardTest f context d pc, part r (pc + 2) (joinPc + 1) (d + 4) (rg_allow r), Line (Else_line d),
          say_line (d + 4) (''return '' @ (if l_b (instrAt f falseBegin) \<noteq> 0 then ''true'' else ''false'')), Line (End_line d)],
         Goto (joinPc + 1))
     else None)"

end
