(* ===== verification/Lua51_Conditions.thy ===== *)
theory Lua51_Conditions
  imports Lua51_Guards
begin

text \<open>
  The structured writer \<^verbatim>\<open>emitRange\<close> of \<^verbatim>\<open>byteveil_decompiler/Lua51.cpp\<close>, third part: short-circuit
  conditions. Consecutive conditionals become one condition with \<^verbatim>\<open>and\<close> or \<^verbatim>\<open>or\<close>; conditionals with
  instructions between them are nested, with a local flag where two arms continue at the same place.
\<close>

section \<open>Consecutive conditionals\<close>

text \<open>The positions of the conditionals of \<^verbatim>\<open>chain\<close>.\<close>

function conditionChain :: "lua_fields \<Rightarrow> int \<Rightarrow> int \<Rightarrow> int list" where
  "conditionChain f end cursor =
    (if conditionJump f end cursor then cursor # conditionChain f end (cursor + 2) else [])"
  by pat_completeness auto
termination
  by (relation "measure (\<lambda>(f, end, cursor). nat (end - cursor))") (auto simp: conditionJump_def)

declare conditionChain.simps [simp del]

text \<open>The target of the jump behind a conditional, and its text.\<close>

definition chainTarget :: "lua_fields \<Rightarrow> int \<Rightarrow> int" where
  "chainTarget f pc = targetAt f (pc + 1)"

definition chainText :: "lua_fields \<Rightarrow> render_context \<Rightarrow> int \<Rightarrow> string" where
  "chainText f context pc = conditionExpr f (instrAt f pc) context"

text \<open>All tests jump to the same place behind the body: \<^verbatim>\<open>a and b and ...\<close>.\<close>

definition planAndChain :: "lua_fields \<Rightarrow> render_context \<Rightarrow> range \<Rightarrow> int \<Rightarrow> plan option" where
  "planAndChain f context r pc =
    (let chain = conditionChain f (rg_end r) pc; bodyBegin = last chain + 2; joinPc = chainTarget f (hd chain); d = rg_indent r;
         loopLatch = joinPc > 0 \<and> joinPc \<le> rg_end r \<and> opAt f (joinPc - 1) = 22 \<and> targetAt f (joinPc - 1) = pc in
     if length chain \<ge> 2 \<and> \<not> loopLatch \<and> joinPc > bodyBegin \<and> joinPc \<le> rg_end r \<and>
        list_all (\<lambda>test. chainTarget f test = joinPc) chain then
       Some ([Line (If_then d (join '' and '' (map (chainText f context) chain))),
         part r bodyBegin joinPc (d + 4) True, Line (End_line d)], Goto joinPc)
     else None)"

text \<open>The tests before \<open>final\<close> jump to the body, that one jumps past it: \<^verbatim>\<open>a or b or ...\<close>.\<close>

definition orChainAt :: "lua_fields \<Rightarrow> range \<Rightarrow> int list \<Rightarrow> nat \<Rightarrow> bool" where
  "orChainAt f r chain final \<longleftrightarrow>
    (let bodyBegin = chain ! final + 2; joinPc = chainTarget f (chain ! final) in
     joinPc > bodyBegin \<and> joinPc \<le> rg_end r \<and> list_all (\<lambda>test. chainTarget f test = bodyBegin) (take final chain))"

definition planOrChain :: "lua_fields \<Rightarrow> render_context \<Rightarrow> range \<Rightarrow> int \<Rightarrow> plan option" where
  "planOrChain f context r pc =
    (let chain = conditionChain f (rg_end r) pc; d = rg_indent r in
     case find (orChainAt f r chain) [1..<length chain] of None \<Rightarrow> None
     | Some final \<Rightarrow>
         let joinPc = chainTarget f (chain ! final) in
         Some ([Line (If_then d (join '' or '' (map (\<lambda>n. negateConditionExpr (chainText f context (chain ! n))) [0..<final] @
             [chainText f context (chain ! final)]))),
           part r (chain ! final + 2) joinPc (d + 4) True, Line (End_line d)], Goto joinPc))"

section \<open>Guarded candidates\<close>

text \<open>
  \<^verbatim>\<open>if gate then value = load(); if value then goto join\<close>, repeated: the gate jumps over its payload and
  the second test to the next candidate, the second test jumps to the join.
\<close>

record candidate =
  gc_primaryPc :: int
  gc_prefixBegin :: int
  gc_secondaryPc :: int
  gc_nextBegin :: int

definition seekCondition :: "lua_fields \<Rightarrow> int \<Rightarrow> int \<Rightarrow> int option" where
  "seekCondition f end first =
    (let cursor = gapEnd guardedGapSafe f 16 end first in if conditionJump f end cursor then Some cursor else None)"

text \<open>The candidates, the join and the start of the fallback; \<open>joinPc\<close> is negative before the first candidate.\<close>

fun guardedCandidates :: "lua_fields \<Rightarrow> int \<Rightarrow> nat \<Rightarrow> int \<Rightarrow> int \<Rightarrow> int \<Rightarrow> (candidate list \<times> int \<times> int) option" where
  "guardedCandidates f end 0 candidatePc prefixBegin joinPc = None"
| "guardedCandidates f end (Suc count) candidatePc prefixBegin joinPc =
    (if \<not> conditionJump f end candidatePc then None
     else case seekCondition f end (candidatePc + 2) of None \<Rightarrow> None
     | Some secondaryPc \<Rightarrow>
       let nextBegin = secondaryPc + 2; primaryTarget = chainTarget f candidatePc; secondaryTarget = chainTarget f secondaryPc;
         c = \<lparr>gc_primaryPc = candidatePc, gc_prefixBegin = prefixBegin, gc_secondaryPc = secondaryPc, gc_nextBegin = nextBegin\<rparr> in
       if primaryTarget \<noteq> nextBegin \<or> secondaryTarget \<le> nextBegin \<or> secondaryTarget > end \<or>
          joinPc \<ge> 0 \<and> joinPc \<noteq> secondaryTarget then None
       else case seekCondition f end nextBegin of
         Some nextPrimary \<Rightarrow>
           (case guardedCandidates f end count nextPrimary nextBegin secondaryTarget of None \<Rightarrow> None
            | Some (cs, rest) \<Rightarrow> Some (c # cs, rest))
       | None \<Rightarrow>
           if secondaryTarget - nextBegin > 16 \<or>
              \<not> list_all (\<lambda>pc. guardedGapSafe (instrAt f pc)) [nextBegin..secondaryTarget - 1] then None
           else Some ([c], secondaryTarget, nextBegin))"

definition guardedJumps :: "candidate list \<Rightarrow> int \<Rightarrow> (int \<times> int) list" where
  "guardedJumps cs joinPc =
    concat (map (\<lambda>c. [(gc_primaryPc c + 1, gc_nextBegin c), (gc_secondaryPc c + 1, joinPc)]) cs)"

definition guardedEdgeOk :: "candidate list \<Rightarrow> int \<Rightarrow> int \<Rightarrow> lua_instr \<Rightarrow> bool" where
  "guardedEdgeOk cs joinPc pc edge \<longleftrightarrow>
    (let inside = l_pc edge \<ge> pc \<and> l_pc edge < joinPc in
     if l_op edge = 22 \<or> l_op edge = 31 \<or> l_op edge = 32 then
       (if inside then l_op edge = 22 \<and> map_of (rev (guardedJumps cs joinPc)) (l_pc edge) = Some (l_target edge)
        else \<not> (l_target edge > pc \<and> l_target edge < joinPc))
     else if isCondition (l_op edge) \<and> inside \<and>
       \<not> list_ex (\<lambda>c. l_pc edge = gc_primaryPc c \<or> l_pc edge = gc_secondaryPc c) cs then False
     else \<not> ((l_op edge = 27 \<or> l_op edge = 33) \<and> inside))"

text \<open>A part in which an infinite loop may be written, if it is not empty.\<close>

definition subpart :: "range \<Rightarrow> int \<Rightarrow> int \<Rightarrow> nat \<Rightarrow> piece list" where
  "subpart r first end d = (if first < end then [part r first end d True] else [])"

definition candidateText :: "lua_fields \<Rightarrow> render_context \<Rightarrow> range \<Rightarrow> string \<Rightarrow> bool \<Rightarrow> candidate \<Rightarrow> piece list" where
  "candidateText f context r flag later c =
    (let d = rg_indent r in
     (if later then Line (If_then (d + 4) (''not '' @ flag)) # subpart r (gc_prefixBegin c) (gc_primaryPc c) (d + 8) else []) @
     [guardTest f context (d + 8) (gc_primaryPc c)] @
     subpart r (gc_primaryPc c + 2) (gc_secondaryPc c) (d + 12) @
     [Line (If_then (d + 12) (negateConditionExpr (chainText f context (gc_secondaryPc c)))),
      assign_line (d + 16) flag ''true'', Line (End_line (d + 12)), Line (End_line (d + 8))] @
     (if later then [Line (End_line (d + 4))] else []))"

definition planGuardedCandidates :: "lua_fields \<Rightarrow> render_context \<Rightarrow> range \<Rightarrow> int \<Rightarrow> plan option" where
  "planGuardedCandidates f context r pc =
    (case if conditionJump f (rg_end r) pc then guardedCandidates f (rg_end r) 128 pc pc (-1) else None of None \<Rightarrow> None
     | Some (cs, joinPc, fallbackBegin) \<Rightarrow>
       if \<not> list_all (guardedEdgeOk cs joinPc pc) (q_code f) then None
       else let flag = conditionChainFlagName f pc context; d = rg_indent r in
         Some ([Line (Do_line d), say_line (d + 4) (''local '' @ flag @ '' = false'')] @
           concat (map (\<lambda>k. candidateText f context r flag (k > 0) (cs ! k)) [0..<length cs]) @
           [Line (If_then (d + 4) (''not '' @ flag))] @ subpart r fallbackBegin joinPc (d + 8) @
           [Line (End_line (d + 4)), Line (End_line d)], Goto joinPc))"

section \<open>Conditionals with setup between them\<close>

text \<open>The gap in front of each further conditional and its position.\<close>

fun separatedTests :: "lua_fields \<Rightarrow> int \<Rightarrow> nat \<Rightarrow> int \<Rightarrow> bool \<Rightarrow> (int \<times> int) list" where
  "separatedTests f end 0 cursor sawGap = []"
| "separatedTests f end (Suc count) cursor sawGap =
    (if cursor \<ge> end then []
     else let test = gapEnd straightLineConditionGap f 16 end cursor in
       if test = cursor \<and> \<not> sawGap \<or> \<not> conditionJump f end test then []
       else (cursor, test) # separatedTests f end count (test + 2) (sawGap \<or> test > cursor))"

text \<open>The target of the edge an instruction adds, with the generic loops.\<close>

definition crossTarget :: "lua_fields \<Rightarrow> lua_instr \<Rightarrow> int" where
  "crossTarget f edge =
    (if l_op edge = 22 \<or> l_op edge = 31 \<or> l_op edge = 32 then l_target edge
     else if isCondition (l_op edge) \<or> l_op edge = 27 \<or> l_op edge = 33 then followingControlTarget f edge else -1)"

text \<open>
  What the conditionals \<open>tests\<close> decide: the common body and where it ends, whether there is an
  \<^verbatim>\<open>else\<close> arm and whether the body ends in a return.
\<close>

definition separatedOrPrefix :: "lua_fields \<Rightarrow> range \<Rightarrow> int list \<Rightarrow> bool" where
  "separatedOrPrefix f r tests \<longleftrightarrow>
    (let bodyBegin = last tests + 2; joinPc = chainTarget f (last tests) in
     joinPc > bodyBegin \<and> joinPc \<le> rg_end r \<and> list_all (\<lambda>t. chainTarget f t = bodyBegin) (butlast tests))"

definition separatedOrAnd :: "lua_fields \<Rightarrow> range \<Rightarrow> int list \<Rightarrow> bool" where
  "separatedOrAnd f r tests \<longleftrightarrow>
    (let bodyBegin = last tests + 2; joinPc = chainTarget f (last tests) in
     joinPc > bodyBegin \<and> joinPc \<le> rg_end r \<and> chainTarget f (hd tests) = bodyBegin \<and>
     list_all (\<lambda>t. chainTarget f t = joinPc) (tl tests))"

definition separatedArms :: "lua_fields \<Rightarrow> range \<Rightarrow> int list \<Rightarrow> int \<times> bool \<times> bool" where
  "separatedArms f r tests =
    (let bodyBegin = last tests + 2; joinPc = chainTarget f (last tests); end = rg_end r; behind = opAt f (joinPc - 1);
         resume = (if behind = 22 \<and> targetAt f (joinPc - 1) > joinPc then targetAt f (joinPc - 1) else joinPc);
         hasElse = (resume \<noteq> joinPc \<and> resume \<le> end) in
     if \<not> hasElse \<and> (behind = 29 \<or> behind = 30) \<and>
        \<not> list_ex (\<lambda>b. opAt f b = 22 \<and> targetAt f b = joinPc) [bodyBegin..joinPc - 2]
     then (end, True, True) else (resume, hasElse, False))"

definition callSeparatedBooleanTail :: "lua_fields \<Rightarrow> range \<Rightarrow> int list \<Rightarrow> (int \<times> int) list \<Rightarrow> bool" where
  "callSeparatedBooleanTail f r tests gaps \<longleftrightarrow>
    (let bodyBegin = last tests + 2; first = instrAt f bodyBegin; second = instrAt f (bodyBegin + 1); exit = instrAt f (bodyBegin + 2) in
     separatedOrPrefix f r tests \<and> bodyBegin \<ge> 0 \<and> bodyBegin + 2 < rg_end r \<and>
     chainTarget f (hd tests) = bodyBegin \<and> chainTarget f (last tests) = bodyBegin + 1 \<and>
     l_op first = 2 \<and> l_b first = 0 \<and> l_c first = 1 \<and>
     l_op second = 2 \<and> l_a second = l_a first \<and> l_b second = 1 \<and> l_c second = 0 \<and>
     l_op exit = 30 \<and> l_a exit = l_a first \<and> l_b exit = 2 \<and>
     list_ex (\<lambda>(g, t). list_ex (\<lambda>pc. opAt f pc = 28) [g..t - 1]) gaps)"

text \<open>\<^verbatim>\<open>a or (b and ...)\<close> and \<^verbatim>\<open>a or b or ...\<close> with setup in front of the later tests.\<close>

definition orAndText :: "lua_fields \<Rightarrow> render_context \<Rightarrow> range \<Rightarrow> string \<Rightarrow> int list \<Rightarrow> (int \<times> int) list \<Rightarrow> piece list" where
  "orAndText f context r flag tests gaps =
    (let d = rg_indent r; n = length tests; gap = (\<lambda>k d. part r (fst (gaps ! k)) (snd (gaps ! k)) d True) in
     [Line (If_then (d + 4) (negateConditionExpr (chainText f context (hd tests)))), assign_line (d + 8) flag ''true'',
      Line (Else_line (d + 4)), gap 0 (d + 8)] @
     concat (map (\<lambda>k. [guardTest f context (d + 4 + 4 * k) (tests ! k),
         if k + 1 = n then assign_line (d + 8 + 4 * k) flag ''true'' else gap k (d + 8 + 4 * k)]) [1..<n]) @
     map (\<lambda>k. Line (End_line (d + 4 * (n - k)))) [1..<n] @ [Line (End_line (d + 4))])"

definition orPrefixText :: "lua_fields \<Rightarrow> render_context \<Rightarrow> range \<Rightarrow> string \<Rightarrow> int list \<Rightarrow> (int \<times> int) list \<Rightarrow> piece list" where
  "orPrefixText f context r flag tests gaps =
    (let d = rg_indent r; n = length tests - 1 in
     concat (map (\<lambda>k. [Line (If_then (d + 4 + 4 * k) (negateConditionExpr (chainText f context (tests ! k)))),
         assign_line (d + 8 + 4 * k) flag ''true'', Line (Else_line (d + 4 + 4 * k)),
         part r (fst (gaps ! k)) (snd (gaps ! k)) (d + 8 + 4 * k) True]) [0..<n]) @
     [assign_line (d + 4 + 4 * n) flag (chainText f context (last tests))] @
     map (\<lambda>k. Line (End_line (d + 4 + 4 * k))) (rev [0..<n]))"

definition planSeparated :: "lua_fields \<Rightarrow> render_context \<Rightarrow> range \<Rightarrow> int \<Rightarrow> plan option" where
  "planSeparated f context r pc =
    (if \<not> conditionJump f (rg_end r) pc \<or> chainTarget f pc < 0 then None
     else
       let gaps = separatedTests f (rg_end r) 8 (pc + 2) False; tests = pc # map snd gaps;
         joinPc = chainTarget f (last tests); bodyBegin = last tests + 2;
         (resume, hasElse, bodyEndsInReturn) = separatedArms f r tests;
         flag = conditionChainFlagName f pc context; d = rg_indent r;
         bodyEnd = (if hasElse \<and> \<not> bodyEndsInReturn then joinPc - 1 else joinPc) in
       if gaps \<noteq> [] \<and> (separatedOrPrefix f r tests \<or> separatedOrAnd f r tests) \<and> \<not> callSeparatedBooleanTail f r tests gaps \<and>
          list_all (\<lambda>edge. l_pc edge \<ge> pc \<and> l_pc edge < resume \<or>
            \<not> (crossTarget f edge > pc \<and> crossTarget f edge < resume)) (q_code f) then
         Some ([Line (Do_line d), say_line (d + 4) (''local '' @ flag @ '' = false'')] @
           (if separatedOrAnd f r tests then orAndText f context r flag tests gaps else orPrefixText f context r flag tests gaps) @
           [Line (If_then (d + 4) flag)] @ subpart r bodyBegin bodyEnd (d + 8) @
           (if hasElse then Line (Else_line (d + 4)) # subpart r joinPc resume (d + 8) else []) @
           [Line (End_line (d + 4)), Line (End_line d)], Goto resume)
       else None)"

end
