(* ===== verification/Lua51_Branches.thy ===== *)
theory Lua51_Branches
  imports Lua51_Conditions
begin

text \<open>
  The structured writer \<^verbatim>\<open>emitRange\<close> of \<^verbatim>\<open>byteveil_decompiler/Lua51.cpp\<close>, fourth part: comparisons that
  share one exit, branches that leave the range, TESTSET, \<^verbatim>\<open>while\<close> and \<^verbatim>\<open>if\<close>, and the instructions that
  are not part of a shape.
\<close>

section \<open>Tests with one exit\<close>

text \<open>A conditional that returns at once when its jump is taken.\<close>

definition directReturnTarget :: "lua_fields \<Rightarrow> int \<Rightarrow> int \<Rightarrow> int \<Rightarrow> int" where
  "directReturnTarget f end sharedJoin pc =
    (if conditionJump f end pc \<and> chainTarget f pc > sharedJoin \<and> chainTarget f pc < end \<and> opAt f (chainTarget f pc) = 30
     then chainTarget f pc else -1)"

text \<open>The end of the setup that begins at \<open>gapBegin\<close>.\<close>

function exitGapEnd :: "lua_fields \<Rightarrow> int \<Rightarrow> int \<Rightarrow> int \<Rightarrow> int \<Rightarrow> int" where
  "exitGapEnd f end sharedJoin gapBegin cursor =
    (if cursor < end \<and> cursor < sharedJoin \<and> cursor - gapBegin < 64 then
       if directReturnTarget f end sharedJoin cursor \<ge> 0 then exitGapEnd f end sharedJoin gapBegin (cursor + 2)
       else if separatedConditionGap (instrAt f cursor) then exitGapEnd f end sharedJoin gapBegin (cursor + 1)
       else cursor
     else cursor)"
  by pat_completeness auto
termination
  by (relation "measure (\<lambda>(f, end, sharedJoin, gapBegin, cursor). nat (end - cursor))") auto

declare exitGapEnd.simps [simp del]

text \<open>The tests, each with the gap behind it if another test follows.\<close>

fun exitTests :: "lua_fields \<Rightarrow> int \<Rightarrow> int \<Rightarrow> nat \<Rightarrow> int \<Rightarrow> (int \<times> (int \<times> int) option) list" where
  "exitTests f end sharedJoin 0 testPc = []"
| "exitTests f end sharedJoin (Suc count) testPc =
    (if \<not> conditionJump f end testPc \<or> chainTarget f testPc \<noteq> sharedJoin then []
     else let gapBegin = testPc + 2; cursor = exitGapEnd f end sharedJoin gapBegin gapBegin in
       if cursor > gapBegin \<and> conditionJump f end cursor \<and> chainTarget f cursor = sharedJoin then
         (testPc, Some (gapBegin, cursor)) # exitTests f end sharedJoin count cursor
       else [(testPc, None)])"

text \<open>How the body of the tests ends: with a boolean result, with an \<^verbatim>\<open>else\<close> arm, or at the exit.\<close>

record exit_shape =
  ex_tests :: "int list"
  ex_gaps :: "(int \<times> int) list"
  ex_join :: int
  ex_booleanTail :: bool
  ex_elseResume :: int

definition booleanResultTail :: "lua_fields \<Rightarrow> int \<Rightarrow> int \<Rightarrow> int \<Rightarrow> bool" where
  "booleanResultTail f end sharedJoin bodyBegin \<longleftrightarrow>
    (let testPc = sharedJoin - 2; first = instrAt f sharedJoin; second = instrAt f (sharedJoin + 1);
         exit = instrAt f (sharedJoin + 2) in
     sharedJoin + 2 < end \<and> testPc \<ge> bodyBegin \<and> isCondition (opAt f testPc) \<and> opAt f (testPc + 1) = 22 \<and>
     chainTarget f testPc = sharedJoin + 1 \<and>
     l_op first = 2 \<and> l_b first = 0 \<and> l_c first = 1 \<and>
     l_op second = 2 \<and> l_a second = l_a first \<and> l_b second = 1 \<and> l_c second = 0 \<and>
     l_op exit = 30 \<and> l_a exit = l_a first \<and> l_b exit = 2)"

definition exitShape :: "lua_fields \<Rightarrow> int \<Rightarrow> int \<Rightarrow> exit_shape" where
  "exitShape f end pc =
    (let sharedJoin = chainTarget f pc; found = exitTests f end sharedJoin 128 pc; tests = map fst found;
         bodyBegin = last tests + 2; tailPc = sharedJoin - 1 in
     \<lparr>ex_tests = tests, ex_gaps = concat (map (\<lambda>(t, gap). case gap of None \<Rightarrow> [] | Some g \<Rightarrow> [g]) found),
      ex_join = sharedJoin, ex_booleanTail = booleanResultTail f end sharedJoin bodyBegin,
      ex_elseResume = (if tailPc \<ge> bodyBegin \<and> tailPc \<ge> 0 \<and> tailPc < end \<and> opAt f tailPc = 22 \<and>
        targetAt f tailPc > sharedJoin \<and> targetAt f tailPc \<le> end then targetAt f tailPc else -1)\<rparr>)"

definition ex_elseTail :: "exit_shape \<Rightarrow> bool" where
  "ex_elseTail x \<longleftrightarrow> \<not> ex_booleanTail x \<and> ex_elseResume x \<ge> 0"

definition ex_bodyBegin :: "exit_shape \<Rightarrow> int" where
  "ex_bodyBegin x = last (ex_tests x) + 2"

definition ex_bodyEnd :: "exit_shape \<Rightarrow> int" where
  "ex_bodyEnd x = (if ex_booleanTail x then ex_join x - 2 else if ex_elseTail x then ex_join x - 1 else ex_join x)"

definition ex_handledEnd :: "exit_shape \<Rightarrow> int" where
  "ex_handledEnd x = (if ex_booleanTail x then ex_join x + 3 else if ex_elseTail x then ex_elseResume x else ex_join x)"

text \<open>The early returns in the gaps: the position of the conditional and of the RETURN.\<close>

definition earlyReturns :: "lua_fields \<Rightarrow> int \<Rightarrow> exit_shape \<Rightarrow> (int \<times> int) list" where
  "earlyReturns f end x =
    concat (map (\<lambda>(g, t). map (\<lambda>scan. (scan, directReturnTarget f end (ex_join x) scan))
      (filter (\<lambda>scan. directReturnTarget f end (ex_join x) scan \<ge> 0) [g..t - 2])) (ex_gaps x))"

definition exitEdgeOk :: "lua_fields \<Rightarrow> int \<Rightarrow> exit_shape \<Rightarrow> int \<Rightarrow> lua_instr \<Rightarrow> bool" where
  "exitEdgeOk f end x pc edge \<longleftrightarrow>
    (let at = l_pc edge; early = earlyReturns f end x; joinPc = ex_join x; booleanTestPc = joinPc - 2;
         conditions = ex_tests x @ map fst early @ (if ex_booleanTail x then [booleanTestPc] else []);
         jumps = map (\<lambda>t. t + 1) conditions @ (if ex_elseTail x then [joinPc - 1] else []) in
     if at \<ge> pc \<and> at < joinPc then
       isCondition (l_op edge) \<and> at \<in> set conditions \<or>
       l_op edge = 22 \<and> at \<in> set jumps \<and>
         (l_target edge = joinPc \<or> ex_booleanTail x \<and> at = booleanTestPc + 1 \<and> l_target edge = joinPc + 1 \<or>
          ex_elseTail x \<and> at = joinPc - 1 \<and> l_target edge = ex_elseResume x \<or>
          map_of early (at - 1) = Some (l_target edge)) \<or>
       \<not> (l_op edge = 22 \<or> isCondition (l_op edge) \<or> l_op edge = 27 \<or> l_op edge = 31 \<or> l_op edge = 32 \<or> l_op edge = 33 \<or>
          skippingLoad edge)
     else \<not> (crossTarget f edge > pc \<and> crossTarget f edge < ex_handledEnd x))"

definition exitInstrOk :: "lua_fields \<Rightarrow> exit_shape \<Rightarrow> int \<Rightarrow> bool" where
  "exitInstrOk f x scan \<longleftrightarrow>
    (let i = instrAt f scan; producerEnd = (if ex_elseTail x then ex_elseResume x else ex_join x) in
     \<not> (openResultProducer i \<and> \<not> openProducerConsumedInRange f scan producerEnd) \<and>
     \<not> (l_op i = 28 \<and> l_b i = 0 \<and> openProducerFor f i < 0) \<and>
     \<not> (ex_elseTail x \<and> scan \<ge> ex_join x \<and>
        (l_op i = 22 \<or> isCondition (l_op i) \<or> l_op i = 27 \<or> l_op i = 31 \<or> l_op i = 32 \<or> l_op i = 33 \<or> skippingLoad i)))"

definition commonGuardExit :: "lua_fields \<Rightarrow> int \<Rightarrow> exit_shape \<Rightarrow> int \<Rightarrow> bool" where
  "commonGuardExit f end x pc \<longleftrightarrow>
    length (ex_tests x) \<ge> 2 \<and> length (ex_gaps x) + 1 = length (ex_tests x) \<and>
    ex_bodyEnd x \<ge> ex_bodyBegin x \<and> ex_handledEnd x \<le> end \<and>
    list_all (exitEdgeOk f end x pc) (q_code f) \<and> list_all (exitInstrOk f x) [pc..ex_handledEnd x - 1]"

text \<open>\<^verbatim>\<open>emitGuardGap\<close>: the setup up to \<open>end\<close> with its early returns; \<open>cursor\<close> is what is not yet written.\<close>

function guardGapText :: "lua_fields \<Rightarrow> render_context \<Rightarrow> range \<Rightarrow> int \<Rightarrow> nat \<Rightarrow> int \<Rightarrow> int \<Rightarrow> int \<Rightarrow> piece list" where
  "guardGapText f context r sharedJoin d end scan cursor =
    (if scan + 1 < end then
       let returnTarget = directReturnTarget f (rg_end r) sharedJoin scan in
       if returnTarget < 0 then guardGapText f context r sharedJoin d end (scan + 1) cursor
       else subpart r cursor scan d @
         [Line (If_then d (negateConditionExpr (chainText f context scan))),
          part r returnTarget (returnTarget + 1) (d + 4) False, Line (End_line d)] @
         guardGapText f context r sharedJoin d end (scan + 2) (scan + 2)
     else subpart r cursor end d)"
  by pat_completeness auto
termination
  by (relation "measure (\<lambda>(f, context, r, sharedJoin, d, end, scan, cursor). nat (end - scan))") auto

declare guardGapText.simps [simp del]

definition planCommonExit :: "lua_fields \<Rightarrow> render_context \<Rightarrow> range \<Rightarrow> int \<Rightarrow> plan option" where
  "planCommonExit f context r pc =
    (let x = exitShape f (rg_end r) pc; n = length (ex_tests x); joinPc = ex_join x;
         flagged = (ex_booleanTail x \<or> ex_elseTail x); flag = conditionChainFlagName f pc context;
         d = rg_indent r; e = (if flagged then d + 4 else d) in
     if conditionJump f (rg_end r) pc \<and> commonGuardExit f (rg_end r) x pc then
       Some ((if flagged then [Line (Do_line d), say_line (d + 4) (''local '' @ flag @ '' = false'')] else []) @
         concat (map (\<lambda>k. guardTest f context (e + 4 * k) (ex_tests x ! k) #
           (if k < length (ex_gaps x) \<and> fst (ex_gaps x ! k) < snd (ex_gaps x ! k) then
              guardGapText f context r joinPc (e + 4 * k + 4) (snd (ex_gaps x ! k)) (fst (ex_gaps x ! k)) (fst (ex_gaps x ! k))
            else [])) [0..<n]) @
         [part r (ex_bodyBegin x) (ex_bodyEnd x) (e + 4 * n) True] @
         (if ex_elseTail x then [assign_line (e + 4 * n) flag ''true''] else []) @
         (if ex_booleanTail x then
            [guardTest f context (e + 4 * n) (joinPc - 2), assign_line (e + 4 * n + 4) flag ''false'',
             Line (Else_line (e + 4 * n)), assign_line (e + 4 * n + 4) flag ''true'', Line (End_line (e + 4 * n))]
          else []) @
         map (\<lambda>k. Line (End_line (e + 4 * k))) (rev [0..<n]) @
         (if ex_elseTail x then
            [Line (If_then (d + 4) (''not '' @ flag)), part r joinPc (ex_elseResume x) (d + 8) True, Line (End_line (d + 4))]
          else []) @
         (if ex_booleanTail x then [say_line (d + 4) (''return '' @ flag), Line (End_line d)]
          else if ex_elseTail x then [Line (End_line d)] else []),
         Goto (ex_handledEnd x))
     else None)"

end
