(* ===== verification/Lua51_Range.thy ===== *)
theory Lua51_Range
  imports Lua51_Branches
begin

text \<open>
  The structured writer \<^verbatim>\<open>emitRange\<close> of \<^verbatim>\<open>byteveil_decompiler/Lua51.cpp\<close>, last part: branches out of the
  range, TESTSET, loops with a test, \<^verbatim>\<open>if\<close> with its two arms, single instructions, and the walk over a
  range that carries out the plans. The walk has a bound on its steps; \<open>Lua51_Walk\<close> proves that the bound
  in \<open>emitRange\<close> is never reached.
\<close>

section \<open>Branches out of the range\<close>

definition exitsRangeText :: "nat \<Rightarrow> int \<Rightarrow> int \<Rightarrow> piece" where
  "exitsRangeText d at t =
    say_line d (''-- ByteVeil: branch at pc '' @ int_text at @ '' exits current structured range to pc '' @ int_text t)"

definition planEscape :: "lua_fields \<Rightarrow> render_context \<Rightarrow> range \<Rightarrow> int \<Rightarrow> plan option" where
  "planEscape f context r pc =
    (let i = instrAt f pc; t = targetAt f (pc + 1); d = rg_indent r; n = codeSize f;
         terminalTail = (t \<ge> rg_end r \<and> t < n \<and> allPathsReturn f t n);
         escape = (if terminalTail then part r t n (d + 4) False else exitsRangeText (d + 4) (l_pc i) t);
         rest = (if pc + 2 < rg_end r then [part r (pc + 2) (rg_end r) (d + 4) False] else []) in
     if (conditionJump f (rg_end r) pc \<or> testsetJump f (rg_end r) pc) \<and> t > rg_end r then
       Some (if l_op i = 27 then
           [Line (If_then d (testsetCondition f i context)), testsetAssign f i context (d + 4), escape, Line (Else_line d)] @
           rest @ [Line (End_line d)]
         else [guardTest f context d pc] @ rest @ [Line (Else_line d), escape, Line (End_line d)], Leave)
     else None)"

section \<open>TESTSET and loops with a test\<close>

definition planTestset :: "lua_fields \<Rightarrow> render_context \<Rightarrow> range \<Rightarrow> int \<Rightarrow> plan option" where
  "planTestset f context r pc =
    (let i = instrAt f pc; joinPc = targetAt f (pc + 1); d = rg_indent r in
     if testsetJump f (rg_end r) pc \<and> joinPc > pc + 1 then
       Some ([Line (If_then d (testsetCondition f i context)), testsetAssign f i context (d + 4)] @
         (if pc + 2 < joinPc then [Line (Else_line d), part r (pc + 2) joinPc (d + 4) True] else []) @
         [Line (End_line d)], Goto joinPc)
     else None)"

definition planRepeat :: "lua_fields \<Rightarrow> render_context \<Rightarrow> range \<Rightarrow> int \<Rightarrow> plan option" where
  "planRepeat f context r pc =
    (let t = targetAt f (pc + 1); d = rg_indent r in
     if conditionJump f (rg_end r) pc \<and> t \<ge> rg_begin r \<and> t < pc then
       Some ([Line (Repeat d), loop_body t pc (d + 4) True (pc + 2) (-1) [],
         Line (Until d (conditionExpr f (instrAt f pc) context))], Goto (pc + 2))
     else None)"

definition planWhile :: "lua_fields \<Rightarrow> render_context \<Rightarrow> range \<Rightarrow> int \<Rightarrow> plan option" where
  "planWhile f context r pc =
    (let exit = targetAt f (pc + 1); d = rg_indent r in
     if conditionJump f (rg_end r) pc \<and> exit > pc + 1 \<and> exit \<le> rg_end r \<and> exit > pc + 2 \<and>
        opAt f (exit - 1) = 22 \<and> targetAt f (exit - 1) = pc then
       Some ([Line (Loop_do d (''while '' @ conditionExpr f (instrAt f pc) context)),
         loop_body (pc + 2) (exit - 1) (d + 4) True exit pc [], Line (End_line d)], Goto exit)
     else None)"

section \<open>If\<close>

text \<open>The end of the first arm and the place where both arms continue.\<close>

definition ifArms :: "lua_fields \<Rightarrow> int \<Rightarrow> int \<times> int" where
  "ifArms f pc =
    (let trueBegin = pc + 2; falseBegin = targetAt f (pc + 1); tail = targetAt f (falseBegin - 1); test = opAt f (falseBegin - 2);
         owns = (falseBegin - 2 \<ge> trueBegin \<and> (test = 27 \<or> isCondition test) \<and> tail \<ge> falseBegin);
         latch = (falseBegin - 2 \<ge> trueBegin \<and> isCondition test \<and> tail \<ge> trueBegin \<and> tail < falseBegin - 2) in
     if falseBegin - 1 \<ge> trueBegin \<and> opAt f (falseBegin - 1) = 22 then
       if tail > falseBegin then
         let exitsOnlyAtJoin = list_all (\<lambda>b. \<not> (opAt f b = 22 \<and> targetAt f b > falseBegin \<and> targetAt f b \<noteq> tail)) [trueBegin..falseBegin - 1];
           nestedSharedBranch = list_ex (\<lambda>b. (isCondition (opAt f b) \<or> opAt f b = 27) \<and> opAt f (b + 1) = 22 \<and>
             (targetAt f (b + 1) = tail \<or> targetAt f (b + 1) = falseBegin)) [trueBegin..falseBegin - 2] in
         (if nestedSharedBranch \<and> exitsOnlyAtJoin \<or> owns then tail else falseBegin - 1, tail)
       else if tail = falseBegin \<and> \<not> latch then (if owns then falseBegin else falseBegin - 1, falseBegin)
       else (falseBegin, falseBegin)
     else (falseBegin, falseBegin))"

definition onlyTarget :: "int list \<Rightarrow> int option" where
  "onlyTarget ts = (case ts of [] \<Rightarrow> None | t # us \<Rightarrow> if list_all (\<lambda>u. u = t) us then Some t else None)"

text \<open>Branches of the first arm that skip a straight second arm and continue behind it.\<close>

definition armBranchTarget :: "lua_fields \<Rightarrow> int \<Rightarrow> int \<Rightarrow> int" where
  "armBranchTarget f falseBegin b =
    (let edge = instrAt f b in
     if l_op edge = 22 then l_target edge
     else if (isCondition (l_op edge) \<or> l_op edge = 27) \<and> b + 1 < falseBegin \<and> opAt f (b + 1) = 22 then targetAt f (b + 1)
     else if skippingLoad edge then l_target edge else -1)"

definition sharedElse :: "lua_fields \<Rightarrow> int \<Rightarrow> int \<Rightarrow> int option" where
  "sharedElse f end pc =
    (let falseBegin = targetAt f (pc + 1); targets = map (armBranchTarget f falseBegin) [pc + 2..falseBegin - 1] in
     case onlyTarget (filter (\<lambda>t. t > falseBegin) targets) of None \<Rightarrow> None
     | Some s \<Rightarrow>
       if falseBegin \<notin> set targets \<and> s < end \<and>
          list_all (\<lambda>scan. guardedGapSafe (instrAt f scan)) [falseBegin..s - 1] \<and>
          list_all (\<lambda>t. \<not> hasControlEntryAt f t) [falseBegin + 1..s - 1] \<and>
          list_all (\<lambda>edge. let t = edgeTarget f edge in
            \<not> ((l_pc edge < pc \<or> l_pc edge \<ge> s) \<and> (t \<ge> falseBegin \<and> t < s \<or> t = s))) (q_code f)
       then Some s else None)"

text \<open>Branches of the second arm to one place behind the join.\<close>

definition sharedContinuation :: "lua_fields \<Rightarrow> int \<Rightarrow> int \<Rightarrow> int \<Rightarrow> int option" where
  "sharedContinuation f end pc joinPc =
    (let falseBegin = targetAt f (pc + 1) in
     case onlyTarget (filter (\<lambda>t. t > joinPc) (map (\<lambda>b. edgeTarget f (instrAt f b)) [falseBegin..joinPc - 1])) of None \<Rightarrow> None
     | Some s \<Rightarrow>
       if s < end \<and>
          list_all (\<lambda>edge. let t = edgeTarget f edge; inside = l_pc edge \<ge> pc \<and> l_pc edge < s in
            \<not> (t \<ge> falseBegin \<and> t < s \<and> \<not> inside \<and> \<not> (l_pc edge = pc + 1 \<and> t = falseBegin)) \<and>
            \<not> (t \<ge> joinPc \<and> t < s \<and> \<not> inside)) (q_code f)
       then Some s else None)"

definition ifRanges :: "lua_fields \<Rightarrow> int \<Rightarrow> int \<Rightarrow> int \<times> int" where
  "ifRanges f end pc =
    (let falseBegin = targetAt f (pc + 1);
         extend = (\<lambda>applies shared arms. if applies then (case shared of None \<Rightarrow> arms | Some s \<Rightarrow> (s, s)) else arms);
         (trueEnd, joinPc) = ifArms f pc;
         (trueEnd, joinPc) = extend (joinPc = falseBegin \<and> falseBegin < end) (sharedElse f end pc) (trueEnd, joinPc) in
     extend (joinPc > falseBegin \<and> joinPc < end) (sharedContinuation f end pc joinPc) (trueEnd, joinPc))"

definition planIf :: "lua_fields \<Rightarrow> render_context \<Rightarrow> range \<Rightarrow> int \<Rightarrow> plan option" where
  "planIf f context r pc =
    (if conditionJump f (rg_end r) pc \<and> targetAt f (pc + 1) > pc + 1 then
       let falseBegin = targetAt f (pc + 1); (trueEnd, joinPc) = ifRanges f (rg_end r) pc; d = rg_indent r in
       Some ([guardTest f context d pc, part r (pc + 2) trueEnd (d + 4) True] @
         (if joinPc > falseBegin then [Line (Else_line d), part r falseBegin joinPc (d + 4) True] else []) @
         [Line (End_line d)], Goto joinPc)
     else None)"

section \<open>Single instructions\<close>

text \<open>Instructions whose text is part of that of a later one, or that only set up a loop or a return.\<close>

definition foldedAway :: "lua_fields \<Rightarrow> render_context \<Rightarrow> range \<Rightarrow> int \<Rightarrow> bool" where
  "foldedAway f context r pc \<longleftrightarrow>
    (let i = instrAt f pc; direct = \<not> rc_stateMachine context in
     direct \<and> (l_op i = 5 \<or> l_op i = 6) \<and> canInlineCallTargetProducer f pc (rg_end r) context \<noteq> None \<or>
     direct \<and> 0 \<le> l_op i \<and> l_op i \<le> 3 \<and> canOmitArgumentSetup f pc (rg_end r) context \<or>
     direct \<and> canInlineReadProducer f pc (rg_end r) context)"

definition setupOnly :: "lua_fields \<Rightarrow> render_context \<Rightarrow> range \<Rightarrow> int \<Rightarrow> bool" where
  "setupOnly f context r pc \<longleftrightarrow>
    (let i = instrAt f pc; end = rg_end r;
         loopSetup = (l_op i \<in> {0, 1, 3} \<and> list_ex (\<lambda>p. opAt f p = 32 \<and> l_a i \<ge> l_a (instrAt f p) \<and> l_a i \<le> l_a (instrAt f p) + 2)
           [pc + 1..min (end - 1) (pc + 4)]);
         returnSetup = (l_op i = 1 \<and> pc + 1 < end \<and> (opAt f (pc + 1) = 30 \<or> opAt f (pc + 1) = 29) \<and> l_a (instrAt f (pc + 1)) = l_a i);
         methodCallPc = (if \<not> rc_stateMachine context \<and> l_op i = 11 then colonMethodCallAfter f pc else -1);
         inlineSelf = (methodCallPc > pc \<and> methodCallPc < end \<and> \<not> hasControlEntryAt f (pc + 1)) in
     loopSetup \<or> returnSetup \<or> openProducerConsumedInRange f pc end \<or> inlineSelf)"

definition planSimple :: "lua_fields \<Rightarrow> child_writer list \<Rightarrow> render_context \<Rightarrow> range \<Rightarrow> int \<Rightarrow> plan" where
  "planSimple f children context r pc =
    (let i = instrAt f pc; direct = \<not> rc_stateMachine context; call = (l_op i = 28 \<or> l_op i = 29);
         methodSelfPc = (if direct \<and> pc > rg_begin r \<and> call then colonMethodSelfForCall f pc else -1);
         colonCall = (methodSelfPc \<ge> rg_begin r \<and> \<not> hasControlEntryAt f pc);
         callTargetProducer = (if direct \<and> call then inlineCallTargetProducerFor f pc else -1);
         inlineCallTarget = (callTargetProducer \<ge> rg_begin r);
         inlineReadBase = (direct \<and> pc > rg_begin r \<and> canInlineReadProducer f (pc - 1) (rg_end r) context) in
     if foldedAway f context r pc then ([], Goto (pc + 1))
     else (if setupOnly f context r pc then []
           else [Line (Plain (emitSimple f children i (rg_indent r) context colonCall inlineReadBase inlineCallTarget))],
       if l_op i = 29 \<or> l_op i = 30 then Leave
       else if skippingLoad i then Goto (if l_target i \<ge> 0 then l_target i else pc + 2)
       else Goto (pc + 1)))"

section \<open>The walk over a range\<close>

text \<open>The shapes in the order in which the code tries them.\<close>

primrec firstPlan :: "plan option list \<Rightarrow> plan option" where
  "firstPlan [] = None"
| "firstPlan (p # ps) = (case p of None \<Rightarrow> firstPlan ps | Some x \<Rightarrow> Some x)"

lemma firstPlan_mem: "firstPlan ps = Some p \<Longrightarrow> Some p \<in> set ps"
  by (induction ps) (auto split: option.splits)

definition conditionShapes :: "lua_fields \<Rightarrow> render_context \<Rightarrow> range \<Rightarrow> int \<Rightarrow> plan option list" where
  "conditionShapes f context r pc =
    [planBooleanFold f context r pc, planBooleanReturn f context r pc, planGuardedCandidates f context r pc,
     planSeparated f context r pc, planCommonExit f context r pc, planAndChain f context r pc, planOrChain f context r pc]"

definition shapes :: "lua_fields \<Rightarrow> render_context \<Rightarrow> range \<Rightarrow> int \<Rightarrow> plan option list" where
  "shapes f context r pc =
    [planRepeatEntry f context r pc, planInfiniteLoop f r pc, planGlobalCall f context r pc, planNumericFor f context r pc,
     planGenericFor f context r pc, planLoopExit f context r pc, planLoopContinue f context r pc,
     planSharedReturn f context r pc, planSharedBody f context r pc] @
    conditionShapes f context r pc @
    [planEscape f context r pc, planTestset f context r pc, planRepeat f context r pc, planWhile f context r pc,
     planIf f context r pc, planJump f r pc]"

definition planAt :: "lua_fields \<Rightarrow> child_writer list \<Rightarrow> render_context \<Rightarrow> range \<Rightarrow> int \<Rightarrow> plan" where
  "planAt f children context r pc =
    (let i = instrAt f pc in
     if l_closureBindingFor i \<ge> 0 then ([], Goto (pc + 1))
     else if l_op i = 22 \<and> l_target i = pc then ([say_line (rg_indent r) ''while true do end''], Leave)
     else case firstPlan (shapes f context r pc) of Some p \<Rightarrow> p | None \<Rightarrow> planSimple f children context r pc)"

text \<open>The positions behind \<open>seen\<close> were walked over before; the bound counts steps and nested ranges.\<close>

fun writeRange :: "nat \<Rightarrow> lua_fields \<Rightarrow> child_writer list \<Rightarrow> render_context \<Rightarrow> range \<Rightarrow> int \<Rightarrow> int list \<Rightarrow> line list option" where
  "writeRange 0 f children context r pc seen = None"
| "writeRange (Suc fuel) f children context r pc seen =
    (if pc \<ge> rg_end r then Some []
     else if pc < rg_begin r then
       Some [Plain (padding (rg_indent r) @ ''-- ByteVeil: function '' @ nat_text (q_id f) @
         '' left reconstructed range at pc '' @ int_text pc @ newline)]
     else if pc \<in> set seen then
       Some [Plain (padding (rg_indent r) @ ''-- ByteVeil: function '' @ nat_text (q_id f) @
         '' stopped at repeated control-flow pc '' @ int_text pc @ '' (unstructured cycle)'' @ newline)]
     else let (pieces, next) = planAt f children context r pc in
       case those (map (\<lambda>p. case p of Line l \<Rightarrow> Some [l]
           | Sub s \<Rightarrow> writeRange fuel f children context s (rg_begin s) []) pieces) of None \<Rightarrow> None
       | Some parts \<Rightarrow>
           (case next of Leave \<Rightarrow> Some (concat parts)
            | Goto q \<Rightarrow> map_option (\<lambda>rest. concat parts @ rest) (writeRange fuel f children context r q (pc # seen))))"

text \<open>The default arguments of \<^verbatim>\<open>emitRange\<close>.\<close>

definition plainRange :: "int \<Rightarrow> int \<Rightarrow> nat \<Rightarrow> range" where
  "plainRange first end indent = \<lparr>rg_begin = first, rg_end = end, rg_indent = indent, rg_allow = True, rg_break = -1,
    rg_continue = -1, rg_flag = []\<rparr>"

definition rangeFuel :: "lua_fields \<Rightarrow> nat" where
  "rangeFuel f = (let n = length (q_code f) in (2 * (n + 1) * (n + 2) + 2) * (n + 2))"

definition emitRange :: "lua_fields \<Rightarrow> child_writer list \<Rightarrow> int \<Rightarrow> int \<Rightarrow> nat \<Rightarrow> render_context \<Rightarrow> string" where
  "emitRange f children first end indent context =
    (case writeRange (rangeFuel f) f children context (plainRange first end indent) first [] of
       None \<Rightarrow> [] | Some ls \<Rightarrow> concat (map line_text ls))"

end
