(* ===== verification/Lua51_Dispatch.thy ===== *)
theory Lua51_Dispatch
  imports Lua51_Range
begin

text \<open>
  The program-counter dispatcher of the readable mode of \<^verbatim>\<open>byteveil_decompiler/Lua51.cpp\<close>: the code of
  a function is cut into blocks, every block is written as Lua statements that end with an assignment
  to a control variable, and a binary search in a loop selects the block for the value of the variable.
  \<^verbatim>\<open>emitReadableBody\<close> chooses between it and the structured writer of \<open>Lua51_Range\<close>.
  Beside the text, the functions here return the values that the text assigns to the control variable.
\<close>

section \<open>Text with assignments to the control variable\<close>

type_synonym emitted = "string \<times> int list"

definition say :: "string \<Rightarrow> emitted" where
  "say s = (s, [])"

definition assignPc :: "string \<Rightarrow> int \<Rightarrow> emitted" where
  "assignPc pcName t = (pcName @ '' = '' @ int_text t, [t])"

definition emitAll :: "emitted list \<Rightarrow> emitted" where
  "emitAll es = (concat (map fst es), concat (map snd es))"

lemma emitted_simps [simp]:
  "snd (say s) = []" "snd (assignPc name t) = [t]" "snd (emitAll es) = concat (map snd es)"
  by (simp_all add: say_def assignPc_def emitAll_def)

section \<open>Blocks\<close>

text \<open>
  The branches of \<^verbatim>\<open>emitPcBlock\<close> for the instructions that decide where control goes, up to
  their \<^verbatim>\<open>return\<close>; \<open>None\<close> for the other instructions.
\<close>

definition emitPcCondition :: "lua_fields \<Rightarrow> lua_instr \<Rightarrow> nat \<Rightarrow> render_context \<Rightarrow> string \<Rightarrow> emitted" where
  "emitPcCondition f i indent context pcName =
    (let pad = padding indent; inner = padding (indent + 4); local = (\<lambda>r. renderedLocal f r (l_pc i) context);
         t = followingControlTarget f i in
     if l_op i = 23 \<or> l_op i = 24 \<or> l_op i = 25 then
       emitAll [say (pad @ ''if ('' @ renderedValue f (l_b i) (l_pc i) context @ comparison (l_op i) @
           renderedValue f (l_c i) (l_pc i) context @ '') == '' @ (if l_a i \<noteq> 0 then ''true'' else ''false'') @ '' then ''),
         assignPc pcName t, say '' else '', assignPc pcName (l_pc i + 2), say ('' end'' @ newline)]
     else
       emitAll [say (pad @ ''if (not '' @ local (if l_op i = 27 then l_b i else l_a i) @ '') ~= '' @
           (if l_c i \<noteq> 0 then ''true'' else ''false'') @ '' then'' @ newline),
         say (if l_op i = 27 then inner @ local (l_a i) @ '' = '' @ local (l_b i) @ newline else []),
         say inner, assignPc pcName t, say (newline @ pad @ ''else ''), assignPc pcName (l_pc i + 2), say ('' end'' @ newline)])"

definition emitPcForLoop :: "lua_fields \<Rightarrow> lua_instr \<Rightarrow> nat \<Rightarrow> render_context \<Rightarrow> string \<Rightarrow> emitted" where
  "emitPcForLoop f i indent context pcName =
    (let pad = padding indent; inner = padding (indent + 4); local = (\<lambda>r. renderedLocal f r (l_pc i) context);
         index = local (l_a i); step = local (l_a i + 2); limit = local (l_a i + 1) in
     emitAll [say (pad @ index @ '' = '' @ index @ '' + '' @ step @ newline),
       say (pad @ ''if (('' @ step @ '' > 0 and '' @ index @ '' <= '' @ limit @ '') or ('' @ step @ '' <= 0 and '' @
         index @ '' >= '' @ limit @ '')) then'' @ newline),
       say (inner @ local (l_a i + 3) @ '' = '' @ index @ newline),
       say inner, assignPc pcName (l_target i), say (newline @ pad @ ''else ''), assignPc pcName (l_pc i + 1), say ('' end'' @ newline)])"

definition emitPcForPrep :: "lua_fields \<Rightarrow> lua_instr \<Rightarrow> nat \<Rightarrow> render_context \<Rightarrow> string \<Rightarrow> emitted" where
  "emitPcForPrep f i indent context pcName =
    (let pad = padding indent; local = (\<lambda>r. renderedLocal f r (l_pc i) context) in
     emitAll [say (concat (map (\<lambda>offset. pad @ local (l_a i + offset) @ '' = tonumber('' @ local (l_a i + offset) @ '')'' @ newline) [0..2])),
       say (pad @ local (l_a i) @ '' = '' @ local (l_a i) @ '' - '' @ local (l_a i + 2) @ newline),
       say pad, assignPc pcName (l_target i), say newline])"

definition emitPcGenericFor :: "lua_fields \<Rightarrow> lua_instr \<Rightarrow> nat \<Rightarrow> render_context \<Rightarrow> string \<Rightarrow> emitted" where
  "emitPcGenericFor f i indent context pcName =
    (let pad = padding indent; inner = padding (indent + 4); local = (\<lambda>r. renderedLocal f r (l_pc i) context) in
     emitAll [say (pad @ join '', '' (map (\<lambda>k. local (l_a i + 3 + k)) [0..l_c i - 1]) @ '' = '' @ local (l_a i) @ ''('' @
         local (l_a i + 1) @ '', '' @ local (l_a i + 2) @ '')'' @ newline),
       say (pad @ ''if '' @ local (l_a i + 3) @ '' ~= nil then'' @ newline),
       say (inner @ local (l_a i + 2) @ '' = '' @ local (l_a i + 3) @ newline),
       say inner, assignPc pcName (followingControlTarget f i), say (newline @ pad @ ''else ''),
       assignPc pcName (l_pc i + 2), say ('' end'' @ newline)])"

definition emitPcExit :: "lua_fields \<Rightarrow> lua_instr \<Rightarrow> nat \<Rightarrow> render_context \<Rightarrow> string \<Rightarrow> emitted option" where
  "emitPcExit f i indent context pcName =
    (if l_op i = 22 then Some (emitAll [say (padding indent), assignPc pcName (l_target i), say newline])
     else if isCondition (l_op i) \<or> l_op i = 27 then Some (emitPcCondition f i indent context pcName)
     else if l_op i = 31 then Some (emitPcForLoop f i indent context pcName)
     else if l_op i = 32 then Some (emitPcForPrep f i indent context pcName)
     else if l_op i = 33 then Some (emitPcGenericFor f i indent context pcName)
     else None)"

text \<open>The other instructions of a block, unless their text is part of that of a later one.\<close>

definition emitPcSimple :: "lua_fields \<Rightarrow> child_writer list \<Rightarrow> int \<Rightarrow> int \<Rightarrow> lua_instr \<Rightarrow> nat \<Rightarrow> render_context \<Rightarrow> string" where
  "emitPcSimple f children start end i indent context =
    (let inlineOpenResults = openProducerConsumedInRange f (l_pc i) end;
         inlineSelf = l_pc i + 1 < end \<and> colonMethodCall f (l_pc i) (l_pc i + 1) \<and> \<not> hasControlEntryAt f (l_pc i + 1);
         colonCall = l_pc i > start \<and> colonMethodCall f (l_pc i - 1) (l_pc i) \<and> \<not> hasControlEntryAt f (l_pc i) in
     if inlineOpenResults \<or> inlineSelf then []
     else emitSimple f children
       (if openProducerFor f i \<ge> 0 \<and> openProducerFor f i < start then i\<lparr>l_openProducer := -1\<rparr> else i)
       indent context colonCall False False)"

text \<open>\<^verbatim>\<open>emitPcBlock\<close> from the position \<open>pc\<close> of the block.\<close>

function emitPcFrom :: "lua_fields \<Rightarrow> child_writer list \<Rightarrow> int \<Rightarrow> int \<Rightarrow> nat \<Rightarrow> render_context \<Rightarrow> string \<Rightarrow> int \<Rightarrow> emitted" where
  "emitPcFrom f children start end indent context pcName pc =
    (if pc \<ge> end then emitAll [say (padding indent), assignPc pcName end, say newline]
     else let i = instrAt f pc in
       if l_closureBindingFor i \<ge> 0 \<or> l_extraWord i then emitPcFrom f children start end indent context pcName (pc + 1)
       else case emitPcExit f i indent context pcName of Some out \<Rightarrow> out
         | None \<Rightarrow>
           let simple = say (emitPcSimple f children start end i indent context) in
           if l_op i = 29 \<or> l_op i = 30 then simple
           else if l_op i = 2 \<and> l_c i \<noteq> 0 then
             emitAll [simple, say (padding indent), assignPc pcName (l_pc i + 2), say newline]
           else if l_op i = 34 \<and> l_c i = 0 then emitAll [simple, emitPcFrom f children start end indent context pcName (pc + 2)]
           else if l_op i = 36 then emitAll [simple, emitPcFrom f children start end indent context pcName (pc + 1 + int (length (l_captures i)))]
           else emitAll [simple, emitPcFrom f children start end indent context pcName (pc + 1)])"
  by pat_completeness auto
termination
  by (relation "measure (\<lambda>(f, children, start, end, indent, context, pcName, pc). nat (end - pc))") auto

declare emitPcFrom.simps [simp del]

definition emitPcBlock :: "lua_fields \<Rightarrow> child_writer list \<Rightarrow> int \<times> int \<Rightarrow> nat \<Rightarrow> render_context \<Rightarrow> string \<Rightarrow> emitted" where
  "emitPcBlock f children block indent context pcName =
    emitPcFrom f children (fst block) (snd block) indent context pcName (fst block)"

section \<open>The dispatcher\<close>

text \<open>The positions \<^verbatim>\<open>addLeader\<close> is called with for one instruction.\<close>

definition leaderTargets :: "lua_fields \<Rightarrow> lua_instr \<Rightarrow> int list" where
  "leaderTargets f i =
    (if l_closureBindingFor i \<ge> 0 \<or> l_extraWord i then []
     else if l_op i = 22 then [l_pc i + 1, l_target i]
     else if isCondition (l_op i) \<or> l_op i = 27 then [l_pc i + 1, l_pc i + 2, followingControlTarget f i]
     else if l_op i = 31 then [l_pc i + 1, l_target i]
     else if l_op i = 32 then [l_pc i + 1, l_target i]
     else if l_op i = 33 then [l_pc i + 1, l_pc i + 2, followingControlTarget f i]
     else if l_op i = 2 \<and> l_c i \<noteq> 0 then [l_pc i + 1, l_pc i + 2]
     else if l_op i = 30 then [l_pc i + 1]
     else if l_op i = 34 \<and> l_c i = 0 then [l_pc i + 2]
     else if l_op i = 36 then [l_pc i + 1 + int (length (l_captures i))]
     else [])"

definition isLeader :: "lua_fields \<Rightarrow> int \<Rightarrow> int \<Rightarrow> int \<Rightarrow> bool" where
  "isLeader f begin end pc \<longleftrightarrow>
    pc \<ge> begin \<and> pc < end \<and> \<not> l_extraWord (instrAt f pc) \<and> l_closureBindingFor (instrAt f pc) < 0"

definition dispatchStarts :: "lua_fields \<Rightarrow> int \<Rightarrow> int \<Rightarrow> int list" where
  "dispatchStarts f begin end = sorted_list_of_set (set (begin #
    filter (isLeader f begin end) (concat (map (\<lambda>pc. leaderTargets f (instrAt f pc)) [begin..end - 1]))))"

definition dispatchBlocks :: "int list \<Rightarrow> int \<Rightarrow> (int \<times> int) list" where
  "dispatchBlocks starts end = map (\<lambda>n. (starts ! n, if n + 1 < length starts then starts ! (n + 1) else end)) [0..<length starts]"

text \<open>
  \<^verbatim>\<open>dispatch\<close>: the arms of the blocks \<open>first\<close> to \<open>last\<close>, which is not included, under a binary
  search. There is always a block.
\<close>

function emitDispatch :: "(nat \<Rightarrow> nat \<Rightarrow> string) \<Rightarrow> (int \<times> int) list \<Rightarrow> string \<Rightarrow> nat \<Rightarrow> nat \<Rightarrow> nat \<Rightarrow> string" where
  "emitDispatch arm blocks pcName first behind level =
    (if behind - first \<le> 1 then arm first level
     else let pad = padding level; middle = first + (behind - first) div 2 in
       pad @ ''if '' @ pcName @ '' < '' @ int_text (fst (blocks ! middle)) @ '' then'' @ newline @
       emitDispatch arm blocks pcName first middle (level + 4) @
       pad @ ''else'' @ newline @
       emitDispatch arm blocks pcName middle behind (level + 4) @
       pad @ ''end'' @ newline)"
  by pat_completeness auto
termination
  by (relation "measure (\<lambda>(arm, blocks, pcName, first, behind, level). behind - first)") auto

declare emitDispatch.simps [simp del]

definition emitPcDispatcherRange ::
  "lua_fields \<Rightarrow> child_writer list \<Rightarrow> nat \<Rightarrow> render_context \<Rightarrow> int \<Rightarrow> int \<Rightarrow> string" where
  "emitPcDispatcherRange f children indent context begin end =
    (if q_code f = [] \<or> begin < 0 \<or> end > codeSize f \<or> end \<le> begin then []
     else let pad = padding indent; pcName = dispatcherPcName f context;
         blocks = dispatchBlocks (dispatchStarts f begin end) end in
       (if begin = 0 \<and> end = codeSize f then
          pad @ ''-- ByteVeil: PC dispatcher preserves Lua 5.1 control flow in function '' @ nat_text (q_id f) @ newline
        else
          pad @ ''-- ByteVeil: isolated PC dispatcher preserves Lua 5.1 control flow in function '' @ nat_text (q_id f) @
            '' ('' @ int_text begin @ ''..'' @ int_text end @ '')'' @ newline) @
       pad @ ''local '' @ pcName @ '' = '' @ int_text begin @ newline @
       pad @ ''while '' @ pcName @ '' >= '' @ int_text begin @ '' and '' @ pcName @ '' < '' @ int_text end @ '' do'' @ newline @
       emitDispatch (\<lambda>n level. fst (emitPcBlock f children (blocks ! n) level context pcName)) blocks pcName
         0 (length blocks) (indent + 4) @
       pad @ ''end'' @ newline)"

definition emitPcDispatcher :: "lua_fields \<Rightarrow> child_writer list \<Rightarrow> nat \<Rightarrow> render_context \<Rightarrow> string" where
  "emitPcDispatcher f children indent context = emitPcDispatcherRange f children indent context 0 (codeSize f)"

section \<open>Bodies\<close>

definition dispatcherMarkers :: "string list" where
  "dispatcherMarkers =
    [''-- ByteVeil: branch at pc '', ''-- ByteVeil: unsupported opcode retained: EQ '',
     ''-- ByteVeil: unsupported opcode retained: LT '', ''-- ByteVeil: unsupported opcode retained: LE '',
     ''-- ByteVeil: unsupported opcode retained: TEST '', ''-- ByteVeil: TESTSET at pc '',
     ''stopped at repeated control-flow pc '', ''left reconstructed range at pc '',
     ''FORLOOP at pc '', ''FORPREP at pc '', ''TFORLOOP at pc '']"

definition needsPcDispatcher :: "string \<Rightarrow> bool" where
  "needsPcDispatcher source \<longleftrightarrow> list_ex (\<lambda>m. contains m source) dispatcherMarkers"

definition emitReadableBody :: "lua_fields \<Rightarrow> child_writer list \<Rightarrow> body_writer" where
  "emitReadableBody f children context indent firstRegister =
    (let n = codeSize f; declarations = (\<lambda>c. emitRegisterDeclarations f c indent firstRegister) in
     if rc_stateMachine context then (declarations context @ emitPcDispatcher f children indent context, context)
     else let structured = emitRange f children 0 n indent context in
       if \<not> needsPcDispatcher structured then (declarations context @ structured, context)
       else case findSingleExitDispatcherRegion f structured of
         Some (begin, end) \<Rightarrow>
           (declarations context @
            (if begin > 0 then emitRange f children 0 begin indent context else []) @
            emitPcDispatcherRange f children indent context begin end @
            (if end < n then emitRange f children end n indent context else []), context)
       | None \<Rightarrow>
           let c = context\<lparr>rc_stateMachine := True\<rparr> in
           (declarations context @ emitPcDispatcher f children indent c, c))"

primrec readableBody :: "lua_proto \<Rightarrow> body_writer" where
  "readableBody (LuaProto f cs) =
    emitReadableBody f (zip (map lp_fields cs) (map readableBody cs))"

definition readableProto :: "lua_proto \<Rightarrow> string" where
  "readableProto p =
    (let f = lp_fields p in
     ''-- ByteVeil Lua 5.1 lifted (reconstructed) function '' @ nat_text (q_id f) @ '' (CFG/SSA conservative)'' @ newline @
     fst (readableBody p \<lparr>rc_capturedUpvalues = [], rc_capturedUpvalueCells = [], rc_stateMachine = False\<rparr> 0 0) @
     (if q_id f = 0 \<and> (q_code f = [] \<or> l_op (last (q_code f)) \<noteq> 29 \<and> l_op (last (q_code f)) \<noteq> 30)
      then ''return nil'' @ newline else []))"

end
