(* ===== verification/Lua51_Region.thy ===== *)
theory Lua51_Region
  imports Lua51_Accept
begin

text \<open>
  The graph of \<^verbatim>\<open>buildControlFlowGraph\<close> and the regions of \<^verbatim>\<open>isSingleEntryExitRegion\<close>: the graph holds
  the successors and their inverse, control that starts at the first instruction
  stays on instructions, a region is entered and left at one place each, and the region
  that \<^verbatim>\<open>findSingleExitDispatcherRegion\<close> returns is one that holds all marked branches.
\<close>

section \<open>Reachable positions\<close>

text \<open>The positions control can reach from the first instruction.\<close>

inductive control_reaches :: "lua_fields \<Rightarrow> int \<Rightarrow> bool" for f where
  "control_reaches f 0"
| "control_reaches f (int k) \<Longrightarrow> k < length (q_code f) \<Longrightarrow> t \<in> set (controlSuccessors f (q_code f ! k)) \<Longrightarrow>
    control_reaches f t"

lemma first_boundary:
  assumes "accepted f ups"
  shows "boundary_or_end (q_code f) 0"
proof (cases "q_code f = []")
  case False
  then have k: "0 < length (q_code f)" by simp
  note lay = layoutD [OF accepted_code(1) [OF assms] k]
  show ?thesis using False lay(2,5) by (simp add: boundary_or_end_def boundary_def owner_ok_def unbound_def)
qed (simp add: boundary_or_end_def)

lemma reaches_boundary:
  assumes "control_reaches f t" "accepted f ups"
    and "\<And>k. k < length (q_code f) \<Longrightarrow> l_op (q_code f ! k) = 33 \<Longrightarrow> l_op (q_code f ! (k + 1)) = 22"
  shows "boundary_or_end (q_code f) t"
  using assms(1)
proof induction
  case 1
  then show ?case by (rule first_boundary [OF assms(2)])
next
  case (2 k t)
  then have "boundary (q_code f) (int k)" by (simp add: boundary_or_end_def)
  then show ?case using successor_boundary [OF assms(2) 2(2)] assms(3) 2 by blast
qed

section \<open>The graph\<close>

text \<open>What the graph records when the instructions carry their own indices.\<close>

lemma addPredecessors:
  assumes "\<forall>t\<in>set ts. 0 \<le> t"
  shows "length (foldl (addPredecessor pc) preds ts) = length preds \<and>
    (\<forall>v<length preds. set (foldl (addPredecessor pc) preds ts ! v) =
       set (preds ! v) \<union> (if int v \<in> set ts then {pc} else {}))"
  using assms
proof (induction ts arbitrary: preds)
  case Nil
  then show ?case by simp
next
  case (Cons t ts)
  have "length (addPredecessor pc preds t) = length preds" by (simp add: addPredecessor_def)
  moreover have "set (addPredecessor pc preds t ! v) = set (preds ! v) \<union> (if int v = t then {pc} else {})"
    if "v < length preds" for v using that Cons.prems by (auto simp: addPredecessor_def nth_list_update)
  ultimately show ?case using Cons.IH [of "addPredecessor pc preds t"] Cons.prems by auto
qed

lemma graph_upto:
  assumes "\<forall>k<length (q_code f). l_pc (q_code f ! k) = int k" "n \<le> length (q_code f)"
  defines "g \<equiv> foldl (addInstruction f) \<lparr>g_successors = replicate (length (q_code f)) [],
    g_predecessors = replicate (length (q_code f)) []\<rparr> (take n (q_code f))"
  shows "g_successors g = map (controlSuccessors f) (take n (q_code f)) @ replicate (length (q_code f) - n) [] \<and>
    length (g_predecessors g) = length (q_code f) \<and>
    (\<forall>v<length (q_code f). set (g_predecessors g ! v) = {int k | k. k < n \<and> int v \<in> set (controlSuccessors f (q_code f ! k))})"
  using assms(2) unfolding g_def
proof (induction n)
  case 0
  then show ?case by simp
next
  case (Suc n)
  let ?ins = "q_code f" and ?step = "\<lambda>n. foldl (addInstruction f) \<lparr>g_successors = replicate (length (q_code f)) [],
    g_predecessors = replicate (length (q_code f)) []\<rparr> (take n (q_code f))"
  let ?ss = "controlSuccessors f (?ins ! n)"
  have pc: "l_pc (?ins ! n) = int n" using assms(1) Suc.prems by simp
  have "?step (Suc n) = addInstruction f (?step n) (?ins ! n)" using Suc.prems by (simp add: take_Suc_conv_app_nth)
  then have step: "?step (Suc n) = \<lparr>g_successors = (g_successors (?step n))[n := ?ss],
      g_predecessors = foldl (addPredecessor (int n)) (g_predecessors (?step n)) ?ss\<rparr>"
    using pc Suc.prems by (simp add: addInstruction_def Let_def)
  have IH: "g_successors (?step n) = map (controlSuccessors f) (take n ?ins) @ replicate (length ?ins - n) []"
    "length (g_predecessors (?step n)) = length ?ins"
    "\<And>v. v < length ?ins \<Longrightarrow> set (g_predecessors (?step n) ! v) = {int k | k. k < n \<and> int v \<in> set (controlSuccessors f (?ins ! k))}"
    using Suc.IH Suc.prems by auto
  have "\<forall>t\<in>set ?ss. 0 \<le> t" by (auto simp: controlSuccessors_def)
  note preds = addPredecessors [OF this, of "int n" "g_predecessors (?step n)"]
  have "replicate (length ?ins - n) [] = [] # replicate (length ?ins - Suc n) ([] :: int list)"
    using Suc.prems by (metis Suc_diff_Suc Suc_le_eq replicate_Suc)
  then have "(g_successors (?step n))[n := ?ss] = map (controlSuccessors f) (take (Suc n) ?ins) @ replicate (length ?ins - Suc n) []"
    using IH(1) Suc.prems by (simp add: take_Suc_conv_app_nth list_update_append)
  then show ?case using preds IH(2,3) unfolding step by (auto simp: less_Suc_eq)
qed

lemma graph_edges:
  assumes "\<forall>k<length (q_code f). l_pc (q_code f ! k) = int k"
  shows "length (g_successors (buildControlFlowGraph f)) = length (q_code f)"
    "k < length (q_code f) \<Longrightarrow> g_successors (buildControlFlowGraph f) ! k = controlSuccessors f (q_code f ! k)"
    "v < length (q_code f) \<Longrightarrow> set (g_predecessors (buildControlFlowGraph f) ! v) =
       {int k | k. k < length (q_code f) \<and> int v \<in> set (controlSuccessors f (q_code f ! k))}"
  using graph_upto [OF assms order_refl] by (auto simp: buildControlFlowGraph_def)

section \<open>Regions\<close>

text \<open>A region that control enters at its first instruction only and leaves to the instruction behind it only.\<close>

definition closed_region :: "lua_fields \<Rightarrow> int \<Rightarrow> int \<Rightarrow> bool" where
  "closed_region f begin end \<longleftrightarrow> 0 \<le> begin \<and> begin < end \<and> end \<le> int (length (q_code f)) \<and>
    (\<forall>s<length (q_code f). \<forall>t\<in>set (controlSuccessors f (q_code f ! s)).
       (\<not> (begin \<le> int s \<and> int s < end) \<and> begin \<le> t \<and> t < end \<longrightarrow> t = begin) \<and>
       (begin \<le> int s \<and> int s < end \<and> \<not> (begin \<le> t \<and> t < end) \<longrightarrow> t = end)) \<and>
    (\<exists>s<length (q_code f). begin \<le> int s \<and> int s < end \<and> end \<in> set (controlSuccessors f (q_code f ! s)))"

lemma isSingleEntryExitRegion_closed:
  assumes pcs: "\<forall>k<length (q_code f). l_pc (q_code f ! k) = int k"
    and region: "isSingleEntryExitRegion (buildControlFlowGraph f) begin end"
  shows "closed_region f begin end"
proof -
  let ?n = "length (q_code f)" and ?g = "buildControlFlowGraph f"
  note edge = graph_edges [OF pcs]
  have range: "0 \<le> begin" "begin < end" "end \<le> int ?n"
    and entries: "regionEntries ?g begin end = {begin}" and exits: "regionExits ?g begin end = {end}"
    using region by (auto simp: isSingleEntryExitRegion_def edge(1))
  have enter: "t = begin" if "s < ?n" "t \<in> set (controlSuccessors f (q_code f ! s))" "\<not> (begin \<le> int s \<and> int s < end)"
    "begin \<le> t" "t < end" for s t
  proof -
    have t: "nat t < ?n" "int (nat t) = t" using that(4,5) range by linarith+
    have "int s \<in> set (g_predecessors ?g ! nat t)" unfolding edge(3) [OF t(1)] using that(1,2) t(2) by auto
    then have "list_ex (\<lambda>s. s < begin \<or> s \<ge> end) (g_predecessors ?g ! nat t)"
      unfolding list_ex_iff using that(3) by (intro bexI [of _ "int s"]) auto
    then have "t \<in> regionEntries ?g begin end" using that(4,5) by (simp add: regionEntries_def)
    then show ?thesis using entries by simp
  qed
  have exit_iff: "t \<in> regionExits ?g begin end \<longleftrightarrow> (\<exists>s<?n. begin \<le> int s \<and> int s < end \<and>
      t \<in> set (controlSuccessors f (q_code f ! s)) \<and> \<not> (begin \<le> t \<and> t < end))" for t
  proof
    assume "t \<in> regionExits ?g begin end"
    then obtain s where s: "begin \<le> s" "s < end" "t \<in> set (g_successors ?g ! nat s)" "\<not> (begin \<le> t \<and> t < end)"
      by (auto simp: regionExits_def)
    moreover have "nat s < ?n" using s(1,2) range by linarith
    ultimately show "\<exists>s<?n. begin \<le> int s \<and> int s < end \<and>
      t \<in> set (controlSuccessors f (q_code f ! s)) \<and> \<not> (begin \<le> t \<and> t < end)"
      using range(1) edge(2) by (intro exI [of _ "nat s"]) auto
  next
    assume "\<exists>s<?n. begin \<le> int s \<and> int s < end \<and>
      t \<in> set (controlSuccessors f (q_code f ! s)) \<and> \<not> (begin \<le> t \<and> t < end)"
    then obtain s where "s < ?n" "begin \<le> int s" "int s < end" "t \<in> set (controlSuccessors f (q_code f ! s))"
      "\<not> (begin \<le> t \<and> t < end)" by blast
    then show "t \<in> regionExits ?g begin end"
      using edge(2) unfolding regionExits_def by (auto intro!: bexI [of _ "int s"])
  qed
  show ?thesis
    unfolding closed_region_def using range enter exits [unfolded set_eq_iff exit_iff singleton_iff] by (metis (full_types))
qed

lemma candidateRegions_range:
  "(begin, end) \<in> set (candidateRegions n exit firstBranch) \<Longrightarrow>
    exit \<le> end \<and> end \<le> exit + 256 \<and> begin \<le> firstBranch \<and> end - begin \<le> 512"
  by (auto simp: candidateRegions_def dest!: set_takeWhileD)

lemma found_region:
  assumes pcs: "\<forall>k<length (q_code f). l_pc (q_code f ! k) = int k"
    and found: "findSingleExitDispatcherRegion f source = Some (begin, end)"
  shows "\<exists>branches exit. markedBranches source = Some branches \<and> branches \<noteq> [] \<and>
    (\<forall>b\<in>set branches. begin \<le> fst b \<and> fst b < end \<and> snd b = exit) \<and> exit \<le> end \<and> end - begin \<le> 512 \<and>
    closed_region f begin end"
proof -
  obtain branches where marks: "markedBranches source = Some branches" "branches \<noteq> []"
    using found by (auto simp: findSingleExitDispatcherRegion_def split: if_splits option.splits)
  define exit where "exit = snd (Min (set branches))"
  define first where "first = min (int (length (q_code f))) (Min (fst ` set branches))"
  have same: "\<forall>b\<in>set branches. snd b = exit"
    and find: "find (\<lambda>(begin, end). list_all (\<lambda>b. begin \<le> fst b \<and> fst b < end) branches \<and>
        isSingleEntryExitRegion (buildControlFlowGraph f) begin end)
      (candidateRegions (length (q_code f)) exit first) = Some (begin, end)"
    using found marks
    by (auto simp: findSingleExitDispatcherRegion_def Let_def list_ex_iff if_distrib [where f = "\<lambda>x. x = Some _"]
      simp flip: exit_def first_def cong: if_cong split: if_split_asm)
  have hit: "list_all (\<lambda>b. begin \<le> fst b \<and> fst b < end) branches"
      "isSingleEntryExitRegion (buildControlFlowGraph f) begin end"
      "(begin, end) \<in> set (candidateRegions (length (q_code f)) exit first)"
    using find unfolding find_Some_iff by (auto dest: nth_mem)
  show ?thesis
    using marks same hit(1) candidateRegions_range [OF hit(3)] isSingleEntryExitRegion_closed [OF pcs hit(2)]
    by (intro exI [of _ branches] exI [of _ exit]) (auto simp: list_all_iff)
qed

end
