(* ===== verification/Lua51_Machine.thy ===== *)
theory Lua51_Machine
  imports Lua51_Dispatch Lua51_Region
begin

text \<open>
  What the dispatcher of \<open>Lua51_Dispatch\<close> does: the binary search selects the block that holds the value
  of the control variable, a block assigns exactly the successors of its last instruction, and so the
  values of the control variable in a run of the emitted loop are the places control reaches.
\<close>

section \<open>The binary search\<close>

text \<open>The nesting of the emitted conditionals as a tree, its text, and the arm it selects.\<close>

datatype dispatch_tree = Arm nat | Split int dispatch_tree dispatch_tree

primrec printTree :: "(nat \<Rightarrow> nat \<Rightarrow> string) \<Rightarrow> string \<Rightarrow> nat \<Rightarrow> dispatch_tree \<Rightarrow> string" where
  "printTree arm pcName level (Arm n) = arm n level"
| "printTree arm pcName level (Split bound left right) =
    padding level @ ''if '' @ pcName @ '' < '' @ int_text bound @ '' then'' @ newline @
    printTree arm pcName (level + 4) left @ padding level @ ''else'' @ newline @
    printTree arm pcName (level + 4) right @ padding level @ ''end'' @ newline"

primrec selectArm :: "int \<Rightarrow> dispatch_tree \<Rightarrow> nat" where
  "selectArm pc (Arm n) = n"
| "selectArm pc (Split bound left right) = (if pc < bound then selectArm pc left else selectArm pc right)"

function dispatchTree :: "(int \<times> int) list \<Rightarrow> nat \<Rightarrow> nat \<Rightarrow> dispatch_tree" where
  "dispatchTree blocks first behind =
    (if behind - first \<le> 1 then Arm first
     else let middle = first + (behind - first) div 2 in
       Split (fst (blocks ! middle)) (dispatchTree blocks first middle) (dispatchTree blocks middle behind))"
  by pat_completeness auto
termination by (relation "measure (\<lambda>(blocks, first, behind). behind - first)") auto

declare dispatchTree.simps [simp del]

lemma emitDispatch_tree:
  "emitDispatch arm blocks pcName first behind level = printTree arm pcName level (dispatchTree blocks first behind)"
proof (induction arm blocks pcName first behind level rule: emitDispatch.induct)
  case (1 arm blocks pcName first behind level)
  show ?case
    using 1 by (subst emitDispatch.simps, subst dispatchTree.simps) (simp add: Let_def)
qed

lemma selectArm_block:
  assumes "sorted_wrt (\<lambda>b c. fst b < fst c) blocks" "first < behind" "behind \<le> length blocks"
    and "fst (blocks ! first) \<le> pc" "behind < length blocks \<Longrightarrow> pc < fst (blocks ! behind)"
  defines "n \<equiv> selectArm pc (dispatchTree blocks first behind)"
  shows "first \<le> n \<and> n < behind \<and> fst (blocks ! n) \<le> pc \<and> (Suc n < length blocks \<longrightarrow> pc < fst (blocks ! Suc n))"
  using assms(2-5) unfolding n_def
proof (induction blocks first behind rule: dispatchTree.induct)
  case (1 blocks first behind)
  show ?case
  proof (cases "behind - first \<le> 1")
    case True
    then have behind: "behind = Suc first" using 1(3) by simp
    have "dispatchTree blocks first behind = Arm first" using True by (subst dispatchTree.simps) simp
    then show ?thesis using 1(4-6) behind by auto
  next
    case False
    let ?m = "first + (behind - first) div 2"
    have m: "first < ?m" "?m < behind" using False by auto
    have tree: "dispatchTree blocks first behind =
        Split (fst (blocks ! ?m)) (dispatchTree blocks first ?m) (dispatchTree blocks ?m behind)"
      using False by (subst dispatchTree.simps) (simp add: Let_def)
    show ?thesis
    proof (cases "pc < fst (blocks ! ?m)")
      case True
      have "first \<le> selectArm pc (dispatchTree blocks first ?m) \<and> selectArm pc (dispatchTree blocks first ?m) < ?m \<and>
          fst (blocks ! selectArm pc (dispatchTree blocks first ?m)) \<le> pc \<and>
          (Suc (selectArm pc (dispatchTree blocks first ?m)) < length blocks \<longrightarrow>
             pc < fst (blocks ! Suc (selectArm pc (dispatchTree blocks first ?m))))"
        by (rule 1(1) [OF False refl]) (use m 1(3-6) True in auto)
      then show ?thesis using True m by (auto simp: tree)
    next
      case False2: False
      have "?m \<le> selectArm pc (dispatchTree blocks ?m behind) \<and> selectArm pc (dispatchTree blocks ?m behind) < behind \<and>
          fst (blocks ! selectArm pc (dispatchTree blocks ?m behind)) \<le> pc \<and>
          (Suc (selectArm pc (dispatchTree blocks ?m behind)) < length blocks \<longrightarrow>
             pc < fst (blocks ! Suc (selectArm pc (dispatchTree blocks ?m behind))))"
        by (rule 1(2) [OF False refl]) (use m 1(3-6) False2 in auto)
      then show ?thesis using False2 m by (auto simp: tree)
    qed
  qed
qed

section \<open>Straight lines\<close>

text \<open>Instructions behind which a block assigns the control variable or returns.\<close>

definition endsBlock :: "lua_instr \<Rightarrow> bool" where
  "endsBlock i \<longleftrightarrow> l_op i \<in> {22, 23, 24, 25, 26, 27, 29, 30, 31, 32, 33} \<or> l_op i = 2 \<and> l_c i \<noteq> 0"

text \<open>The position behind any other instruction.\<close>

definition nextPc :: "lua_fields \<Rightarrow> int \<Rightarrow> int" where
  "nextPc f pc =
    (let i = instrAt f pc in
     if l_op i = 34 \<and> l_c i = 0 then pc + 2
     else if l_op i = 36 then pc + 1 + int (length (l_captures i)) else pc + 1)"

text \<open>A conditional is followed by its jump; the validation does not check it.\<close>

definition jumps_follow :: "lua_fields \<Rightarrow> bool" where
  "jumps_follow f \<longleftrightarrow> (\<forall>k<length (q_code f). l_op (q_code f ! k) \<in> {23, 24, 25, 26, 27, 33} \<longrightarrow>
     k + 1 < length (q_code f) \<and> l_op (q_code f ! (k + 1)) = 22)"

lemma boundaryD:
  assumes "boundary (q_code f) pc"
  shows "nat pc < length (q_code f)" "int (nat pc) = pc" "instrAt f pc = q_code f ! nat pc" "0 \<le> pc" "pc < codeSize f"
    "l_closureBindingFor (instrAt f pc) < 0" "\<not> l_extraWord (instrAt f pc)"
  using assms by (auto simp: boundary_def instrAt_def codeSize_def unbound_def)

lemma boundary_range: "boundary_or_end (q_code f) t \<Longrightarrow> 0 \<le> t \<and> t \<le> int (length (q_code f))"
  by (auto simp: boundary_or_end_def boundary_def)

lemma own_target:
  assumes acc: "accepted f ups" and b: "boundary (q_code f) pc" and op: "branches_away (instrAt f pc)"
  shows "boundary (q_code f) (l_target (instrAt f pc))"
  using target_boundary [OF acc boundaryD(1) [OF b]] boundaryD(2,3) [OF b] b op by simp

lemma pair_target:
  assumes acc: "accepted f ups" and follow: "jumps_follow f" and b: "boundary (q_code f) pc"
    and op: "l_op (instrAt f pc) \<in> {23, 24, 25, 26, 27, 33}"
  shows "l_op (instrAt f (pc + 1)) = 22" "pc + 1 < codeSize f"
    "followingControlTarget f (instrAt f pc) = l_target (instrAt f (pc + 1))"
    "boundary (q_code f) (l_target (instrAt f (pc + 1)))" "boundary (q_code f) (pc + 2)"
proof -
  note at = boundaryD [OF b]
  have k: "nat pc + 1 < length (q_code f)" "l_op (q_code f ! (nat pc + 1)) = 22"
    using follow at(1,3) op by (auto simp: jumps_follow_def)
  have n: "nat (pc + 1) = nat pc + 1" using at(4) by simp
  show jump: "l_op (instrAt f (pc + 1)) = 22" "pc + 1 < codeSize f" using k at(2) by (simp_all add: instrAt_def codeSize_def n)
  have "l_pc (instrAt f pc) = pc" using target_of(2) [OF acc at(1)] at(2,3) by simp
  moreover have ins1: "l_target (q_code f ! (nat pc + 1)) = l_pc (q_code f ! (nat pc + 1)) + l_sbx (q_code f ! (nat pc + 1)) + 1"
    by (subst target_of(1) [OF acc k(1)]) (simp add: jumpOf_def k(2) del: One_nat_def)
  ultimately show "followingControlTarget f (instrAt f pc) = l_target (instrAt f (pc + 1))"
    using target_of(2) [OF acc k(1)] ins1 at(2,4) jump(2) n
    by (simp add: followingControlTarget_def Let_def instrAt_def codeSize_def)
  have "boundary (q_code f) (int (nat pc + 1))" by (rule jump_boundary [OF acc k])
  then have "boundary (q_code f) (pc + 1)" using at(2) by (simp add: add.commute)
  then show "boundary (q_code f) (l_target (instrAt f (pc + 1)))"
    by (rule own_target [OF acc]) (simp add: branches_away_def jump(1))
  have "l_target (instrAt f pc) = jumpOf ((instrAt f pc)\<lparr>l_target := -1\<rparr>)"
    using target_of(1) [OF acc at(1)] at(3) by simp
  moreover have "23 \<le> l_op (instrAt f pc) \<and> l_op (instrAt f pc) \<le> 27 \<or> l_op (instrAt f pc) = 33" using op by auto
  ultimately have "l_target (instrAt f pc) = pc + 2"
    using \<open>l_pc (instrAt f pc) = pc\<close> by (auto simp: jumpOf_def)
  then show "boundary (q_code f) (pc + 2)" using own_target [OF acc b] op by (auto simp: branches_away_def)
qed

lemma controlSuccessors_in_range:
  "(\<And>t. t \<in> set (rawSuccessors f i) \<Longrightarrow> boundary_or_end (q_code f) t) \<Longrightarrow> controlSuccessors f i = rawSuccessors f i"
  unfolding controlSuccessors_def by (rule filter_True) (use boundary_range in blast)

lemma straight_successor:
  assumes acc: "accepted f ups" and b: "boundary (q_code f) pc" and plain: "\<not> endsBlock (instrAt f pc)"
  shows "controlSuccessors f (instrAt f pc) = [nextPc f pc]" "boundary_or_end (q_code f) (nextPc f pc)" "pc < nextPc f pc"
proof -
  note at = boundaryD [OF b]
  let ?i = "instrAt f pc"
  have pc: "l_pc ?i = pc" using target_of(2) [OF acc at(1)] at(2,3) by simp
  have op: "l_op ?i \<notin> {22, 23, 24, 25, 26, 27, 29, 30, 31, 32, 33}" "\<not> (l_op ?i = 2 \<and> l_c ?i \<noteq> 0)"
    using plain by (simp_all add: endsBlock_def)
  then have no_test: "\<not> (23 \<le> l_op ?i \<and> l_op ?i \<le> 27)" by auto
  have raw: "rawSuccessors f ?i = [nextPc f pc]"
    using op no_test at(6,7) pc by (auto simp: rawSuccessors_def nextPc_def Let_def)
  show bound: "boundary_or_end (q_code f) (nextPc f pc)"
  proof -
    note lay = accepted_code(1) [OF acc]
    have kb: "boundary (q_code f) (int (nat pc))" using b at(2) by simp
    have at': "q_code f ! nat pc = ?i" using at(3) by simp
    have head: "setlistHead ?i \<longleftrightarrow> l_op ?i = 34 \<and> l_c ?i = 0" using at(7) by (auto simp: setlistHead_def)
    consider "l_op ?i = 34 \<and> l_c ?i = 0" | "l_op ?i = 36" | "l_op ?i \<noteq> 36" "\<not> setlistHead ?i" using head by blast
    then show ?thesis
    proof cases
      case 1
      then show ?thesis using behind_setlist [OF lay at(1)] head at(2) by (simp add: at' nextPc_def Let_def)
    next
      case 2
      then show ?thesis using behind_closure [OF lay at(1)] at(2) by (simp add: at' nextPc_def Let_def)
    next
      case 3
      then show ?thesis using fall_through [OF lay at(1) kb] head at(2) by (auto simp: at' nextPc_def Let_def)
    qed
  qed
  show "controlSuccessors f ?i = [nextPc f pc]" using controlSuccessors_in_range [of f ?i] raw bound by simp
  show "pc < nextPc f pc" by (simp add: nextPc_def Let_def)
qed

text \<open>Nothing is executed between an instruction and the position behind it.\<close>

lemma gap_not_executed:
  assumes acc: "accepted f ups" and b: "boundary (q_code f) pc" and t: "pc < t" "t < nextPc f pc"
  shows "\<not> boundary_or_end (q_code f) t"
proof -
  note at = boundaryD [OF b]
  note lay = accepted_code(1) [OF acc]
  let ?i = "instrAt f pc"
  have at': "q_code f ! nat pc = ?i" using at(3) by simp
  consider (block) "l_op ?i = 34" "l_c ?i = 0" "t = pc + 1" | (closure) "l_op ?i = 36" "t \<le> pc + int (length (l_captures ?i))"
    using t by (auto simp: nextPc_def Let_def split: if_splits)
  then show ?thesis
  proof cases
    case block
    have head: "setlistHead ?i" using block at(7) by (simp add: setlistHead_def)
    have room: "Suc (nat pc) < length (q_code f)" using layoutD(4) [OF lay at(1)] head at' by simp
    have "l_extraWord (q_code f ! Suc (nat pc))" using layoutD(2) [OF lay room] head at' by simp
    moreover have "nat t = Suc (nat pc)" "t \<noteq> int (length (q_code f))" using block at(2,4) room by linarith+
    ultimately show ?thesis by (simp add: boundary_or_end_def boundary_def)
  next
    case closure
    define s where "s = nat (t - pc - 1)"
    have s: "s < length (l_captures ?i)" "nat t = nat pc + s + 1" using closure t(1) at(4) by (auto simp: s_def)
    have "closure_ok ups (q_code f) (nat pc)" using layoutD(6) [OF lay at(1)] closure(1) at' by simp
    then have "binds_at (q_code f) (nat pc) s" using s(1) at' by (simp add: closure_ok_def)
    then have "\<not> unbound (q_code f ! nat t)" "nat t < length (q_code f)" using s(2) by (auto simp: binds_at_def unbound_def)
    then show ?thesis using t(1) at(4) by (auto simp: boundary_or_end_def boundary_def)
  qed
qed

lemma emitPcExit_None: "emitPcExit f i indent ctx pcName = None \<longleftrightarrow> l_op i \<notin> {22, 23, 24, 25, 26, 27, 31, 32, 33}"
  by (auto simp: emitPcExit_def isCondition_def)

lemma exit_pcs:
  "snd (emitPcCondition f i indent ctx pcName) = [followingControlTarget f i, l_pc i + 2]"
  "snd (emitPcForLoop f i indent ctx pcName) = [l_target i, l_pc i + 1]"
  "snd (emitPcForPrep f i indent ctx pcName) = [l_target i]"
  "snd (emitPcGenericFor f i indent ctx pcName) = [followingControlTarget f i, l_pc i + 2]"
  by (simp_all add: emitPcCondition_def emitPcForLoop_def emitPcForPrep_def emitPcGenericFor_def Let_def)

text \<open>Where control goes behind an instruction that ends its block.\<close>

lemma ending_targets:
  assumes acc: "accepted f ups" and follow: "jumps_follow f" and b: "boundary (q_code f) pc"
    and ends: "endsBlock (instrAt f pc)" and inside: "pc < end"
  shows "set (snd (emitPcFrom f cs start end indent ctx pcName pc)) = set (controlSuccessors f (instrAt f pc))"
    "t \<in> set (controlSuccessors f (instrAt f pc)) \<Longrightarrow> boundary_or_end (q_code f) t"
    "set (controlSuccessors f (instrAt f pc)) \<subseteq> set (leaderTargets f (instrAt f pc)) \<or> l_op (instrAt f pc) \<in> {29, 30}"
proof -
  note at = boundaryD [OF b]
  let ?i = "instrAt f pc" and ?e = "emitPcFrom f cs start end indent ctx pcName pc"
  have pc: "l_pc ?i = pc" using target_of(2) [OF acc at(1)] at(2,3) by simp
  have at': "q_code f ! nat pc = ?i" using at(3) by simp
  have kb: "boundary (q_code f) (int (nat pc))" using b at(2) by simp
  have emit: "?e = (case emitPcExit f ?i indent ctx pcName of Some out \<Rightarrow> out
      | None \<Rightarrow> if l_op ?i = 29 \<or> l_op ?i = 30 then say (emitPcSimple f cs start end ?i indent ctx)
        else emitAll [say (emitPcSimple f cs start end ?i indent ctx), say (padding indent),
          assignPc pcName (l_pc ?i + 2), say newline])"
    using inside at(6,7) ends by (subst emitPcFrom.simps) (auto simp: Let_def endsBlock_def emitPcExit_def isCondition_def)
  have pcs:
    "l_op ?i = 22 \<or> l_op ?i = 32 \<Longrightarrow> snd ?e = [l_target ?i]" "l_op ?i = 31 \<Longrightarrow> snd ?e = [l_target ?i, pc + 1]"
    "l_op ?i \<in> {23, 24, 25, 26, 27, 33} \<Longrightarrow> snd ?e = [followingControlTarget f ?i, pc + 2]"
    "l_op ?i = 29 \<or> l_op ?i = 30 \<Longrightarrow> snd ?e = []" "l_op ?i = 2 \<Longrightarrow> snd ?e = [pc + 2]"
    using pc by (auto simp: emit emitPcExit_def isCondition_def exit_pcs)
  have behind: "boundary_or_end (q_code f) (pc + 1)" if "l_op ?i = 31"
    using fall_through [OF accepted_code(1) [OF acc] at(1) kb] that at(2) by (simp add: at' setlistHead_def)
  have raw: "set (snd ?e) = set (rawSuccessors f ?i) \<and> (\<forall>t\<in>set (rawSuccessors f ?i). boundary_or_end (q_code f) t) \<and>
      (set (rawSuccessors f ?i) \<subseteq> set (leaderTargets f ?i) \<or> l_op ?i \<in> {29, 30})"
  proof -
    consider (jump) "l_op ?i \<in> {22, 32}" | (pair) "l_op ?i \<in> {23, 24, 25, 26, 27, 33}" | (return) "l_op ?i \<in> {29, 30}"
      | (numeric) "l_op ?i = 31" | (skip) "l_op ?i = 2" "l_c ?i \<noteq> 0"
      using ends by (auto simp: endsBlock_def)
    then show ?thesis
    proof cases
      case jump
      then have "boundary (q_code f) (l_target ?i)" using own_target [OF acc b] by (auto simp: branches_away_def)
      moreover have "rawSuccessors f ?i = [l_target ?i]" "l_target ?i \<in> set (leaderTargets f ?i)"
        using jump at(6,7) unfolding insert_iff empty_iff
        by (elim disjE; simp add: rawSuccessors_def leaderTargets_def isCondition_def Let_def)+
      moreover have "snd ?e = [l_target ?i]" using jump pcs(1) by simp
      ultimately show ?thesis by (simp add: boundary_or_end_def)
    next
      case pair
      note p = pair_target [OF acc follow b pair]
      have n: "nat (pc + 1) = nat pc + 1" using at(4) by simp
      have next_op: "l_op (q_code f ! nat (pc + 1)) = 22" "pc + 1 < int (length (q_code f))"
        using p(1,2) by (simp_all add: instrAt_def codeSize_def)
      have goal: "set (rawSuccessors f ?i) = {l_target (instrAt f (pc + 1)), pc + 2}"
      proof (cases "l_op ?i = 33")
        case True
        then show ?thesis using at(6,7) pc p(3) by (simp add: rawSuccessors_def Let_def)
      next
        case False
        then have "23 \<le> l_op ?i \<and> l_op ?i \<le> 27" using pair by auto
        then show ?thesis using at(6,7) pc next_op by (simp add: rawSuccessors_def Let_def instrAt_def)
      qed
      moreover have "set (snd ?e) = {l_target (instrAt f (pc + 1)), pc + 2}"
        using pcs(3) [OF pair] p(3) by simp
      moreover have "{l_target (instrAt f (pc + 1)), pc + 2} \<subseteq> set (leaderTargets f ?i)"
        using pair at(6,7) pc p(3) by (auto simp: leaderTargets_def isCondition_def)
      ultimately show ?thesis using p(4,5) by (auto simp: boundary_or_end_def)
    next
      case return
      then show ?thesis using pcs(4) by (auto simp: rawSuccessors_def Let_def)
    next
      case numeric
      then have "boundary (q_code f) (l_target ?i)" using own_target [OF acc b] by (auto simp: branches_away_def)
      moreover have "rawSuccessors f ?i = [l_target ?i, pc + 1]" "leaderTargets f ?i = [pc + 1, l_target ?i]"
        using numeric at(6,7) pc by (simp_all add: rawSuccessors_def leaderTargets_def isCondition_def Let_def)
      ultimately show ?thesis using behind [OF numeric] pcs(2) [OF numeric] by (simp add: boundary_or_end_def)
    next
      case skip
      have "l_target ?i = pc + 2" using target_of(1) [OF acc at(1)] at' pc skip by (simp add: jumpOf_def)
      moreover have "boundary (q_code f) (l_target ?i)" using own_target [OF acc b] skip by (auto simp: branches_away_def)
      moreover have "rawSuccessors f ?i = [pc + 2]" "leaderTargets f ?i = [pc + 1, pc + 2]"
        using skip at(6,7) pc by (simp_all add: rawSuccessors_def leaderTargets_def isCondition_def Let_def)
      ultimately show ?thesis using pcs(5) [OF skip(1)] by (simp add: boundary_or_end_def)
    qed
  qed
  then have same: "controlSuccessors f ?i = rawSuccessors f ?i" by (intro controlSuccessors_in_range) blast
  show "set (snd ?e) = set (controlSuccessors f ?i)" "t \<in> set (controlSuccessors f ?i) \<Longrightarrow> boundary_or_end (q_code f) t"
    "set (controlSuccessors f ?i) \<subseteq> set (leaderTargets f ?i) \<or> l_op ?i \<in> {29, 30}"
    using raw unfolding same by blast+
qed

section \<open>Blocks\<close>

text \<open>The last instruction of the straight line from \<open>pc\<close> inside the block that ends at \<open>e\<close>.\<close>

lemma nextPc_behind: "pc < nextPc f pc"
  by (simp add: nextPc_def Let_def)

function blockLast :: "lua_fields \<Rightarrow> int \<Rightarrow> int \<Rightarrow> int" where
  "blockLast f e pc = (if endsBlock (instrAt f pc) \<or> nextPc f pc \<ge> e then pc else blockLast f e (nextPc f pc))"
  by pat_completeness auto
termination
proof (relation "measure (\<lambda>(f, e, pc). nat (e - pc))", goal_cases)
  case (2 f e pc)
  then show ?case using nextPc_behind [of pc f] by simp
qed simp

declare blockLast.simps [simp del]

inductive on_line :: "lua_fields \<Rightarrow> int \<Rightarrow> int \<Rightarrow> int \<Rightarrow> bool" for f e s where
  "on_line f e s s"
| "on_line f e s u \<Longrightarrow> \<not> endsBlock (instrAt f u) \<Longrightarrow> nextPc f u < e \<Longrightarrow> on_line f e s (nextPc f u)"

lemma on_line_last: "on_line f e s u \<Longrightarrow> blockLast f e u = blockLast f e s"
proof (induction rule: on_line.induct)
  case (2 u)
  then show ?case by (subst (asm) blockLast.simps) simp
qed simp

lemma on_line_step:
  assumes "on_line f e s u" "u \<noteq> blockLast f e s"
  shows "\<not> endsBlock (instrAt f u)" "nextPc f u < e" "on_line f e s (nextPc f u)"
proof -
  have "blockLast f e u \<noteq> u" using assms on_line_last by metis
  then have "\<not> (endsBlock (instrAt f u) \<or> nextPc f u \<ge> e)" using blockLast.simps [of f e u] by metis
  then show "\<not> endsBlock (instrAt f u)" "nextPc f u < e" by simp_all
  then show "on_line f e s (nextPc f u)" using assms(1) on_line.intros(2) by blast
qed

lemma last_on_line: "on_line f e u (blockLast f e u)"
proof (induction f e u rule: blockLast.induct)
  case (1 f e pc)
  show ?case
  proof (cases "endsBlock (instrAt f pc) \<or> nextPc f pc \<ge> e")
    case True
    then show ?thesis by (subst blockLast.simps) (simp add: on_line.intros(1))
  next
    case False
    have lift: "on_line f e (nextPc f pc) v \<Longrightarrow> on_line f e pc v" for v
    proof (induction rule: on_line.induct)
      case 1
      then show ?case using on_line.intros(2) [OF on_line.intros(1)] False by simp
    next
      case (2 u)
      then show ?case by (intro on_line.intros(2))
    qed
    show ?thesis using lift [OF 1 [OF False]] False by (subst blockLast.simps) simp
  qed
qed

lemma on_line_boundary:
  assumes "on_line f e s u" "accepted f ups" "boundary (q_code f) s" "s < e" "boundary_or_end (q_code f) e"
  shows "boundary (q_code f) u \<and> s \<le> u \<and> u < e"
  using assms(1)
proof induction
  case 1
  then show ?case using assms(3,4) by simp
next
  case (2 u)
  have "boundary_or_end (q_code f) (nextPc f u)" using straight_successor(2) [OF assms(2)] 2 by blast
  moreover have "nextPc f u \<noteq> int (length (q_code f))" using 2(3) boundary_range [OF assms(5)] by linarith
  ultimately show ?case using 2 nextPc_behind [of u f] by (simp add: boundary_or_end_def)
qed

text \<open>What a block assigns are the successors of its last instruction.\<close>

lemma emitPcFrom_straight:
  assumes "accepted f ups" "boundary (q_code f) pc" "\<not> endsBlock (instrAt f pc)" "pc < e"
  shows "snd (emitPcFrom f cs start e indent ctx pcName pc) =
    snd (emitPcFrom f cs start e indent ctx pcName (nextPc f pc))"
proof -
  note at = boundaryD [OF assms(2)]
  have none: "emitPcExit f (instrAt f pc) indent ctx pcName = None" and
    op: "l_op (instrAt f pc) \<noteq> 29" "l_op (instrAt f pc) \<noteq> 30" "\<not> (l_op (instrAt f pc) = 2 \<and> l_c (instrAt f pc) \<noteq> 0)"
    using assms(3) unfolding emitPcExit_None by (auto simp: endsBlock_def)
  have "emitPcFrom f cs start e indent ctx pcName pc = emitAll [say (emitPcSimple f cs start e (instrAt f pc) indent ctx),
      emitPcFrom f cs start e indent ctx pcName (nextPc f pc)]"
    using assms(4) at(6,7) op none emitPcFrom.simps [of f cs start e indent ctx pcName pc]
    by (auto simp: nextPc_def Let_def)
  then show ?thesis by simp
qed

lemma emitPcFrom_behind: "e \<le> pc \<Longrightarrow> snd (emitPcFrom f cs start e indent ctx pcName pc) = [e]"
  by (subst emitPcFrom.simps) simp

lemma block_targets:
  assumes "accepted f ups" "jumps_follow f" "boundary (q_code f) pc" "pc < e" "boundary_or_end (q_code f) e"
  defines "k \<equiv> blockLast f e pc"
  shows "set (snd (emitPcFrom f cs start e indent ctx pcName pc)) = set (controlSuccessors f (instrAt f k))"
    "t \<in> set (controlSuccessors f (instrAt f k)) \<Longrightarrow>
       boundary_or_end (q_code f) t \<and> (t = e \<or> t \<in> set (leaderTargets f (instrAt f k)))"
proof -
  have k: "boundary (q_code f) k" "k < e"
    using on_line_boundary [OF last_on_line assms(1,3-5)] by (simp_all add: k_def)
  have same: "snd (emitPcFrom f cs start e indent ctx pcName u) = snd (emitPcFrom f cs start e indent ctx pcName pc)"
    if "on_line f e pc u" for u
    using that
  proof induction
    case (2 u)
    have "boundary (q_code f) u" "u < e" using on_line_boundary [OF 2(1) assms(1,3-5)] by simp_all
    then show ?case using emitPcFrom_straight [OF assms(1) _ 2(2)] 2(4) by metis
  qed simp
  have pcs: "snd (emitPcFrom f cs start e indent ctx pcName pc) = snd (emitPcFrom f cs start e indent ctx pcName k)"
    using same [OF last_on_line] by (simp add: k_def)
  have "endsBlock (instrAt f k) \<or> nextPc f k \<ge> e"
  proof (rule ccontr)
    assume c: "\<not> (endsBlock (instrAt f k) \<or> nextPc f k \<ge> e)"
    have "blockLast f e k = k" using on_line_last [OF last_on_line] by (simp add: k_def)
    moreover have "blockLast f e k = blockLast f e (nextPc f k)" using c by (subst blockLast.simps) simp
    moreover have "nextPc f k \<le> blockLast f e (nextPc f k)"
    proof -
      have "on_line f e u v \<Longrightarrow> u \<le> v" for u v
      proof (induction rule: on_line.induct)
        case (2 w)
        then show ?case using nextPc_behind [of w f] by linarith
      qed simp
      then show ?thesis using last_on_line by blast
    qed
    ultimately show False using nextPc_behind [of k f] by linarith
  qed
  then have both: "set (snd (emitPcFrom f cs start e indent ctx pcName k)) = set (controlSuccessors f (instrAt f k)) \<and>
     (\<forall>t\<in>set (controlSuccessors f (instrAt f k)). boundary_or_end (q_code f) t \<and> (t = e \<or> t \<in> set (leaderTargets f (instrAt f k))))"
  proof (cases "endsBlock (instrAt f k)")
    case True
    note e = ending_targets(2,3) [OF assms(1,2) k(1) True k(2)]
    note here = ending_targets(1) [OF assms(1,2) k(1) True k(2), where cs = cs and start = start and indent = indent and ctx = ctx and pcName = pcName]
    have "l_op (instrAt f k) \<in> {29, 30} \<Longrightarrow> controlSuccessors f (instrAt f k) = []"
      by (auto simp: controlSuccessors_def rawSuccessors_def Let_def)
    then show ?thesis using e here by auto
  next
    case False
    note s = straight_successor [OF assms(1) k(1) False]
    have "e \<le> nextPc f k" using False \<open>endsBlock (instrAt f k) \<or> nextPc f k \<ge> e\<close> by simp
    moreover have "\<not> e < nextPc f k" using gap_not_executed [OF assms(1) k(1)] k(2) assms(5) by blast
    ultimately have "nextPc f k = e" by simp
    then show ?thesis
      using s emitPcFrom_straight [OF assms(1) k(1) False k(2), where cs = cs and start = start and indent = indent and ctx = ctx and pcName = pcName]
        emitPcFrom_behind [of e e] by simp
  qed
  show "set (snd (emitPcFrom f cs start e indent ctx pcName pc)) = set (controlSuccessors f (instrAt f k))"
    "t \<in> set (controlSuccessors f (instrAt f k)) \<Longrightarrow>
       boundary_or_end (q_code f) t \<and> (t = e \<or> t \<in> set (leaderTargets f (instrAt f k)))"
    using both pcs by auto
qed

section \<open>The dispatcher as a machine\<close>

text \<open>
  The values of the control variable in a run of the emitted loop: it starts with the begin of the range;
  while the value lies in the range the search selects a block, and the block assigns one of its values.
\<close>

definition armPcs :: "lua_fields \<Rightarrow> child_writer list \<Rightarrow> nat \<Rightarrow> render_context \<Rightarrow> int \<Rightarrow> int \<Rightarrow> int \<Rightarrow> int list" where
  "armPcs f cs indent ctx lo hi pc =
    (let blocks = dispatchBlocks (dispatchStarts f lo hi) hi in
     snd (emitPcBlock f cs (blocks ! selectArm pc (dispatchTree blocks 0 (length blocks))) indent ctx (dispatcherPcName f ctx)))"

inductive dispatcher_reaches ::
  "lua_fields \<Rightarrow> child_writer list \<Rightarrow> nat \<Rightarrow> render_context \<Rightarrow> int \<Rightarrow> int \<Rightarrow> int \<Rightarrow> bool"
  for f cs indent ctx lo hi where
  "dispatcher_reaches f cs indent ctx lo hi lo"
| "dispatcher_reaches f cs indent ctx lo hi u \<Longrightarrow> lo \<le> u \<Longrightarrow> u < hi \<Longrightarrow>
    t \<in> set (armPcs f cs indent ctx lo hi u) \<Longrightarrow> dispatcher_reaches f cs indent ctx lo hi t"

text \<open>The positions that control reaches from \<open>lo\<close> without leaving the range before.\<close>

inductive control_in :: "lua_fields \<Rightarrow> int \<Rightarrow> int \<Rightarrow> int \<Rightarrow> bool" for f lo hi where
  "control_in f lo hi lo"
| "control_in f lo hi u \<Longrightarrow> lo \<le> u \<Longrightarrow> u < hi \<Longrightarrow> t \<in> set (controlSuccessors f (instrAt f u)) \<Longrightarrow>
    control_in f lo hi t"

lemma starts_props:
  "sorted_wrt (<) (dispatchStarts f lo hi)" "lo \<in> set (dispatchStarts f lo hi)"
  "t \<in> set (dispatchStarts f lo hi) \<longleftrightarrow>
    t = lo \<or> isLeader f lo hi t \<and> (\<exists>k. lo \<le> k \<and> k < hi \<and> t \<in> set (leaderTargets f (instrAt f k)))"
proof -
  let ?S = "set (lo # filter (isLeader f lo hi) (concat (map (\<lambda>pc. leaderTargets f (instrAt f pc)) [lo..hi - 1])))"
  show "sorted_wrt (<) (dispatchStarts f lo hi)"
    unfolding dispatchStarts_def by (rule sorted_list_of_set.strict_sorted_key_list_of_set)
  have "set (dispatchStarts f lo hi) = ?S" unfolding dispatchStarts_def by (rule set_sorted_list_of_set) (rule finite_set)
  then show "lo \<in> set (dispatchStarts f lo hi)"
    "t \<in> set (dispatchStarts f lo hi) \<longleftrightarrow>
      t = lo \<or> isLeader f lo hi t \<and> (\<exists>k. lo \<le> k \<and> k < hi \<and> t \<in> set (leaderTargets f (instrAt f k)))"
    by auto
qed

lemma dispatchBlocks_nth:
  "n < length starts \<Longrightarrow> dispatchBlocks starts e ! n = (starts ! n, if n + 1 < length starts then starts ! (n + 1) else e)"
  "length (dispatchBlocks starts e) = length starts"
  by (simp_all add: dispatchBlocks_def)

lemma block_at_start:
  assumes u: "u \<in> set (dispatchStarts f lo hi)" and range: "lo < hi" and starts: "\<forall>t\<in>set (dispatchStarts f lo hi). lo \<le> t \<and> t < hi"
  defines "blocks \<equiv> dispatchBlocks (dispatchStarts f lo hi) hi"
  obtains e where "blocks ! selectArm u (dispatchTree blocks 0 (length blocks)) = (u, e)" "u < e"
    "e \<in> set (dispatchStarts f lo hi) \<or> e = hi" "e \<le> hi" "\<forall>t\<in>set (dispatchStarts f lo hi). t \<le> u \<or> e \<le> t"
proof -
  let ?s = "dispatchStarts f lo hi"
  have srt: "i < j \<Longrightarrow> j < length ?s \<Longrightarrow> ?s ! i < ?s ! j" for i j
    using starts_props(1) by (simp add: sorted_wrt_iff_nth_less)
  have fst_block: "n < length ?s \<Longrightarrow> fst (blocks ! n) = ?s ! n" for n by (simp add: blocks_def dispatchBlocks_nth)
  obtain m where m: "m < length ?s" "u = ?s ! m" using u by (metis in_set_conv_nth)
  define n where "n = selectArm u (dispatchTree blocks 0 (length blocks))"
  have "?s ! 0 \<le> u" using srt [of 0 m] m by (cases "m = 0") auto
  moreover have "sorted_wrt (\<lambda>b c. fst b < fst c) blocks"
    using srt fst_block by (auto simp: sorted_wrt_iff_nth_less blocks_def dispatchBlocks_nth)
  moreover have "0 < length ?s" using m(1) by linarith
  ultimately have n: "n < length ?s" "?s ! n \<le> u" "Suc n < length ?s \<Longrightarrow> u < ?s ! Suc n"
    using selectArm_block [of blocks 0 "length blocks" u] m fst_block
    by (auto simp: n_def blocks_def dispatchBlocks_nth)
  have "n = m"
  proof (rule ccontr)
    assume "n \<noteq> m"
    then consider "n < m" | "m < n" by linarith
    then show False
    proof cases
      case 1
      then have "u < ?s ! Suc n" "?s ! Suc n \<le> ?s ! m" using n(3) m srt [of "Suc n" m] by (cases "Suc n = m"; auto)+
      then show ?thesis using m by simp
    next
      case 2
      then show ?thesis using srt [of m n] n(1,2) m by simp
    qed
  qed
  let ?e = "if n + 1 < length ?s then ?s ! (n + 1) else hi"
  have block: "blocks ! n = (u, ?e)" using n(1) m \<open>n = m\<close> by (simp add: blocks_def dispatchBlocks_nth)
  have gap: "t \<le> u \<or> ?e \<le> t" if "t \<in> set ?s" for t
  proof -
    obtain j where j: "j < length ?s" "t = ?s ! j" using \<open>t \<in> set ?s\<close> by (metis in_set_conv_nth)
    show ?thesis
    proof (cases "j \<le> n")
      case True
      then show ?thesis using srt [of j n] n(1) j m \<open>n = m\<close> by (cases "j = n") auto
    next
      case False
      then have "n + 1 < length ?s" "?s ! (n + 1) \<le> ?s ! j" using srt [of "n + 1" j] j by (cases "j = n + 1"; simp)+
      then show ?thesis using j by simp
    qed
  qed
  have "u < ?e" using n m starts by auto
  moreover have "?e \<in> set ?s \<or> ?e = hi" by auto
  moreover have "?e \<le> hi" using starts by (auto dest: nth_mem less_imp_le)
  ultimately show thesis using that [of ?e] block gap unfolding n_def by blast
qed

lemma dispatcher_follows:
  assumes acc: "accepted f ups" and follow: "jumps_follow f" and b: "boundary (q_code f) lo"
    and e: "boundary_or_end (q_code f) hi" and range: "lo < hi"
  shows "dispatcher_reaches f cs indent ctx lo hi t \<longleftrightarrow>
    control_in f lo hi t \<and> (t \<in> set (dispatchStarts f lo hi) \<or> \<not> (lo \<le> t \<and> t < hi))"
proof -
  let ?s = "dispatchStarts f lo hi" and ?D = "dispatcher_reaches f cs indent ctx lo hi"
  have endn: "hi \<le> int (length (q_code f))" using boundary_range [OF e] by simp
  have inside: "lo \<le> t \<and> t < hi" if "t \<in> set ?s" for t using that range by (auto simp: starts_props isLeader_def)
  have starts_boundary: "boundary (q_code f) t" if "t \<in> set ?s" for t
    using that b endn boundaryD(4) [OF b]
    by (auto simp: starts_props isLeader_def boundary_def unbound_def instrAt_def)
  have leader: "t \<in> set ?s" if "boundary_or_end (q_code f) t" "t \<in> set (leaderTargets f (instrAt f k))"
      "lo \<le> k" "k < hi" "lo \<le> t" "t < hi" for t k
  proof -
    have "boundary (q_code f) t" using that(1,6) endn by (auto simp: boundary_or_end_def)
    then have "isLeader f lo hi t" using boundaryD(6,7) that(5,6) by (auto simp: isLeader_def)
    then show ?thesis using that(2-4) by (auto simp: starts_props)
  qed
  have block: "\<exists>e. u < e \<and> e \<le> hi \<and> (\<forall>t\<in>set ?s. t \<le> u \<or> e \<le> t) \<and> boundary_or_end (q_code f) e \<and>
      set (armPcs f cs indent ctx lo hi u) = set (controlSuccessors f (instrAt f (blockLast f e u))) \<and>
      (\<forall>t\<in>set (armPcs f cs indent ctx lo hi u). t \<in> set ?s \<or> \<not> (lo \<le> t \<and> t < hi))" if u: "u \<in> set ?s" for u
  proof -
    obtain e' where e': "dispatchBlocks ?s hi ! selectArm u (dispatchTree (dispatchBlocks ?s hi) 0 (length (dispatchBlocks ?s hi))) = (u, e')"
      "u < e'" "e' \<in> set ?s \<or> e' = hi" "e' \<le> hi" "\<forall>t\<in>set ?s. t \<le> u \<or> e' \<le> t"
      using block_at_start [OF u range] inside by blast
    have be: "boundary_or_end (q_code f) e'" using e'(3) starts_boundary e by (auto simp: boundary_or_end_def)
    note tg = block_targets [OF acc follow starts_boundary [OF u] e'(2) be]
    have k: "u \<le> blockLast f e' u" "blockLast f e' u < e'"
      using on_line_boundary [OF last_on_line acc starts_boundary [OF u] e'(2) be] by simp_all
    have pcs: "set (armPcs f cs indent ctx lo hi u) = set (controlSuccessors f (instrAt f (blockLast f e' u)))"
      using tg(1) by (simp add: armPcs_def emitPcBlock_def e'(1) Let_def)
    have "t \<in> set ?s \<or> \<not> (lo \<le> t \<and> t < hi)" if "t \<in> set (armPcs f cs indent ctx lo hi u)" for t
    proof -
      have t: "boundary_or_end (q_code f) t" "t = e' \<or> t \<in> set (leaderTargets f (instrAt f (blockLast f e' u)))"
        using tg(2) that pcs by blast+
      have "lo \<le> blockLast f e' u" "blockLast f e' u < hi" using k e'(4) inside [OF u] by linarith+
      then show ?thesis using t e'(3) leader by blast
    qed
    then show ?thesis using e' be pcs by blast
  qed
  have line_in: "control_in f lo hi v" if "control_in f lo hi u" "on_line f e' u v" "u \<in> set ?s" "u < e'" "e' \<le> hi"
      "boundary_or_end (q_code f) e'" for u v e'
    using that(2)
  proof induction
    case (2 v)
    have v: "boundary (q_code f) v" "u \<le> v" "v < e'"
      using on_line_boundary [OF 2(1) acc starts_boundary [OF that(3)] that(4,6)] by simp_all
    have "lo \<le> v" "v < hi" using v that(5) inside [OF that(3)] by linarith+
    then show ?case using control_in.intros(2) [OF 2(4)] straight_successor(1) [OF acc v(1) 2(2)] by simp
  qed (rule that(1))
  have forward: "control_in f lo hi t \<and> (t \<in> set ?s \<or> \<not> (lo \<le> t \<and> t < hi))" if "?D t" for t
    using that
  proof induction
    case 1
    then show ?case using control_in.intros(1) starts_props(2) by blast
  next
    case (2 u t)
    then have u: "u \<in> set ?s" "control_in f lo hi u" by auto
    obtain e' where e': "u < e'" "e' \<le> hi" "boundary_or_end (q_code f) e'"
      "set (armPcs f cs indent ctx lo hi u) = set (controlSuccessors f (instrAt f (blockLast f e' u)))"
      "\<forall>t\<in>set (armPcs f cs indent ctx lo hi u). t \<in> set ?s \<or> \<not> (lo \<le> t \<and> t < hi)"
      using block [OF u(1)] by blast
    let ?k = "blockLast f e' u"
    have "control_in f lo hi ?k" by (rule line_in [OF u(2) last_on_line u(1) e'(1-3)])
    moreover have "lo \<le> ?k" "?k < hi"
      using on_line_boundary [OF last_on_line acc starts_boundary [OF u(1)] e'(1,3)] e'(2) inside [OF u(1)] by linarith+
    ultimately have "control_in f lo hi t" using control_in.intros(2) 2(4) e'(4) by blast
    then show ?case using e'(5) 2(4) by blast
  qed
  let ?cover = "\<lambda>t. \<exists>u e'. u \<in> set ?s \<and> ?D u \<and> u < e' \<and> e' \<le> hi \<and> on_line f e' u t \<and> (\<forall>t\<in>set ?s. t \<le> u \<or> e' \<le> t) \<and>
    boundary_or_end (q_code f) e' \<and>
    set (armPcs f cs indent ctx lo hi u) = set (controlSuccessors f (instrAt f (blockLast f e' u))) \<and>
    (\<forall>t\<in>set (armPcs f cs indent ctx lo hi u). t \<in> set ?s \<or> \<not> (lo \<le> t \<and> t < hi))"
  have at_start: "?cover t" if t: "t \<in> set ?s" "?D t" for t
  proof -
    obtain e' where "t < e'" "e' \<le> hi" "\<forall>v\<in>set ?s. v \<le> t \<or> e' \<le> v" "boundary_or_end (q_code f) e'"
      "set (armPcs f cs indent ctx lo hi t) = set (controlSuccessors f (instrAt f (blockLast f e' t)))"
      "\<forall>v\<in>set (armPcs f cs indent ctx lo hi t). v \<in> set ?s \<or> \<not> (lo \<le> v \<and> v < hi)"
      using block [OF t(1)] by blast
    then show ?thesis using t on_line.intros(1) [of f e' t] by (intro exI [of _ t] exI [of _ e'] conjI)
  qed
  have backward: "if lo \<le> t \<and> t < hi then ?cover t else ?D t" if "control_in f lo hi t" for t
    using that
  proof induction
    case 1
    then show ?case using range at_start [OF starts_props(2) dispatcher_reaches.intros(1)] by simp
  next
    case (2 v t)
    obtain u e' where u: "u \<in> set ?s" "?D u" "u < e'" "e' \<le> hi" "on_line f e' u v" "\<forall>t\<in>set ?s. t \<le> u \<or> e' \<le> t"
      "boundary_or_end (q_code f) e'"
      "set (armPcs f cs indent ctx lo hi u) = set (controlSuccessors f (instrAt f (blockLast f e' u)))"
      "\<forall>t\<in>set (armPcs f cs indent ctx lo hi u). t \<in> set ?s \<or> \<not> (lo \<le> t \<and> t < hi)"
      using 2(2,3,5) by auto
    show ?case
    proof (cases "v = blockLast f e' u")
      case True
      have Dt: "?D t" using dispatcher_reaches.intros(2) [OF u(2)] inside [OF u(1)] 2(4) u(8) True by blast
      show ?thesis
      proof (cases "lo \<le> t \<and> t < hi")
        case True2: True
        then have t: "t \<in> set ?s" using u(8,9) 2(4) True by blast
        show ?thesis using at_start [OF t Dt] True2 by simp
      next
        case outside: False
        then show ?thesis using Dt by (simp only: if_False)
      qed
    next
      case False
      note step = on_line_step [OF u(5) False]
      have v: "boundary (q_code f) v" "u \<le> v"
        using on_line_boundary [OF u(5) acc starts_boundary [OF u(1)] u(3,7)] by simp_all
      have t: "t = nextPc f v" using straight_successor(1) [OF acc v(1) step(1)] 2(4) by simp
      have "lo \<le> t" "t < hi" using t step(2) u(4) v(2) nextPc_behind [of v f] inside [OF u(1)] by linarith+
      moreover have "?cover t"
        using u(1-4) step(3) u(6-9) unfolding t by (intro exI [of _ u] exI [of _ e'] conjI)
      ultimately show ?thesis by (simp only: simp_thms if_True)
    qed
  qed
  show ?thesis
  proof (intro iffI)
    assume "control_in f lo hi t \<and> (t \<in> set ?s \<or> \<not> (lo \<le> t \<and> t < hi))"
    then have c: "control_in f lo hi t" "t \<in> set ?s \<or> \<not> (lo \<le> t \<and> t < hi)" by simp_all
    show "?D t"
    proof (cases "lo \<le> t \<and> t < hi")
      case True
      then obtain u e' where u: "u \<in> set ?s" "?D u" "u < e'" "on_line f e' u t" "\<forall>t\<in>set ?s. t \<le> u \<or> e' \<le> t"
        "boundary_or_end (q_code f) e'" using backward [OF c(1)] by auto
      have "u \<le> t" "t < e'" using on_line_boundary [OF u(4) acc starts_boundary [OF u(1)] u(3,6)] by simp_all
      then have "t = u" using u(5) c(2) True by fastforce
      then show ?thesis using u(2) by simp
    next
      case False
      then show ?thesis using backward [OF c(1)] by (simp only: if_False)
    qed
  qed (rule forward)
qed

lemma dispatcher_text:
  assumes "boundary (q_code f) lo" "boundary_or_end (q_code f) hi" "lo < hi"
  shows "\<exists>before behind. emitPcDispatcherRange f cs indent ctx lo hi = before @
      (let blocks = dispatchBlocks (dispatchStarts f lo hi) hi; name = dispatcherPcName f ctx in
       printTree (\<lambda>n level. fst (emitPcBlock f cs (blocks ! n) level ctx name)) name (indent + 4)
         (dispatchTree blocks 0 (length blocks))) @ behind"
proof -
  have "\<not> (q_code f = [] \<or> lo < 0 \<or> hi > codeSize f \<or> hi \<le> lo)"
    using assms boundaryD(1,4) [OF assms(1)] boundary_range [OF assms(2)] by (auto simp: codeSize_def)
  then show ?thesis
    unfolding emitPcDispatcherRange_def Let_def emitDispatch_tree by (simp only: if_False) (metis append_assoc)
qed

end
