(* ===== verification/Lua51_Dump.thy ===== *)
theory Lua51_Dump
  imports Lua51_Proto
begin

unbundle bit_operations_syntax

text \<open>
  An encoder of Lua 5.1 chunks for every byte order and width of \<^verbatim>\<open>size_t\<close>, and what the reader is
  meant to make of a chunk, as a function of the tree of prototypes that is encoded: nothing in it is
  about bytes, positions or formats. The reader refines this function: on the encoding of a tree it gives
  exactly the same prototypes, or fails with the same message.
\<close>

section \<open>Trees of prototypes as the compiler has them\<close>

text \<open>A string of the format is absent, with length 0, or there, with a trailing zero byte.\<close>

type_synonym chunk_string = "u8 list option"

datatype chunk_constant = CNil | CBool bool | CNumber u64 | CString chunk_string

record chunk_fields =
  k_source :: chunk_string
  k_linedefined :: u32
  k_lastline :: u32
  k_nups :: u8
  k_params :: u8
  k_vararg :: u8
  k_maxstack :: u8
  k_code :: "u32 list"
  k_constants :: "chunk_constant list"
  k_lines :: "u32 list"
  k_locals :: "(chunk_string \<times> u32 \<times> u32) list"
  k_upvalues :: "chunk_string list"

datatype chunk_tree = Chunk (ck_fields: chunk_fields) (ck_children: "chunk_tree list")

section \<open>The encoder\<close>

text \<open>The lowest \<open>k\<close> bytes of a number, least significant first.\<close>

primrec lowBytes :: "nat \<Rightarrow> 'a::len word \<Rightarrow> u8 list" where
  "lowBytes 0 w = []"
| "lowBytes (Suc k) w = ucast w # lowBytes k (drop_bit 8 w)"

definition putBytes :: "chunk_format \<Rightarrow> nat \<Rightarrow> 'a::len word \<Rightarrow> u8 list" where
  "putBytes fmt k w = (if little fmt then lowBytes k w else rev (lowBytes k w))"

definition putInt :: "chunk_format \<Rightarrow> u32 \<Rightarrow> u8 list" where
  "putInt fmt w = putBytes fmt 4 w"

definition putCount :: "chunk_format \<Rightarrow> nat \<Rightarrow> u8 list" where
  "putCount fmt n = putInt fmt (of_nat n)"

definition putSize :: "chunk_format \<Rightarrow> nat \<Rightarrow> u8 list" where
  "putSize fmt n = (if sizeT fmt = 4 then putCount fmt n else putBytes fmt 8 (of_nat n :: u64))"

definition putString :: "chunk_format \<Rightarrow> chunk_string \<Rightarrow> u8 list" where
  "putString fmt s = (case s of None \<Rightarrow> putSize fmt 0 | Some bs \<Rightarrow> putSize fmt (length bs + 1) @ bs @ [0])"

definition putConstant :: "chunk_format \<Rightarrow> chunk_constant \<Rightarrow> u8 list" where
  "putConstant fmt c =
    (case c of CNil \<Rightarrow> [0] | CBool b \<Rightarrow> [1, if b then 1 else 0] | CNumber bits \<Rightarrow> 3 # putBytes fmt 8 bits
     | CString s \<Rightarrow> 4 # putString fmt s)"

definition putLocal :: "chunk_format \<Rightarrow> chunk_string \<times> u32 \<times> u32 \<Rightarrow> u8 list" where
  "putLocal fmt l = putString fmt (fst l) @ putInt fmt (fst (snd l)) @ putInt fmt (snd (snd l))"

definition putList :: "chunk_format \<Rightarrow> ('a \<Rightarrow> u8 list) \<Rightarrow> 'a list \<Rightarrow> u8 list" where
  "putList fmt put xs = putCount fmt (length xs) @ concat (map put xs)"

definition putHead :: "chunk_format \<Rightarrow> chunk_fields \<Rightarrow> u8 list" where
  "putHead fmt h = putString fmt (k_source h) @ putInt fmt (k_linedefined h) @ putInt fmt (k_lastline h) @
    [k_nups h, k_params h, k_vararg h, k_maxstack h]"

definition putDebug :: "chunk_format \<Rightarrow> chunk_fields \<Rightarrow> u8 list" where
  "putDebug fmt h = putList fmt (putInt fmt) (k_lines h) @ putList fmt (putLocal fmt) (k_locals h) @
    putList fmt (putString fmt) (k_upvalues h)"

primrec putTree :: "chunk_format \<Rightarrow> chunk_tree \<Rightarrow> u8 list" where
  "putTree fmt (Chunk h cs) =
    putHead fmt h @ putList fmt (putInt fmt) (k_code h) @ putList fmt (putConstant fmt) (k_constants h) @
    putCount fmt (length cs) @ concat (map (putTree fmt) cs) @ putDebug fmt h"

definition putHeader :: "chunk_format \<Rightarrow> u8 list" where
  "putHeader fmt = [0x1B, 0x4C, 0x75, 0x61, 0x51, 0, if little fmt then 1 else 0, 4, of_nat (sizeT fmt), 4, 8, 0]"

definition writeChunk :: "chunk_format \<Rightarrow> chunk_tree \<Rightarrow> u8 list" where
  "writeChunk fmt d = putHeader fmt @ putTree fmt d"

section \<open>What a tree means\<close>

definition stringOf :: "chunk_string \<Rightarrow> string" where
  "stringOf s = (case s of None \<Rightarrow> [] | Some bs \<Rightarrow> text_bytes bs)"

definition constantOf :: "chunk_constant \<Rightarrow> lua_constant" where
  "constantOf c =
    (case c of
       CNil \<Rightarrow> \<lparr>lc_type = ''nil'', lc_lua = ''nil'', lc_value = ''nil'', lc_stringBytesHex = []\<rparr>
     | CBool b \<Rightarrow> (let v = if b then ''true'' else ''false'' in
         \<lparr>lc_type = ''boolean'', lc_lua = v, lc_value = v, lc_stringBytesHex = []\<rparr>)
     | CNumber bits \<Rightarrow> (let v = stream_text 17 (double_of bits) in
         \<lparr>lc_type = ''number'', lc_lua = v, lc_value = v, lc_stringBytesHex = []\<rparr>)
     | CString s \<Rightarrow> \<lparr>lc_type = ''string'', lc_lua = luaQuote (stringOf s), lc_value = stringOf s,
         lc_stringBytesHex = lua_bytesHex (stringOf s)\<rparr>)"

definition localOf :: "chunk_string \<times> u32 \<times> u32 \<Rightarrow> lua_local" where
  "localOf l = \<lparr>ll_name = stringOf (fst l), ll_start = sint (fst (snd l)), ll_end = sint (snd (snd l))\<rparr>"

definition headOf :: "nat \<Rightarrow> int \<Rightarrow> chunk_fields \<Rightarrow> lua_fields" where
  "headOf k parent h =
    \<lparr>q_id = k, q_parent = parent, q_linedefined = sint (k_linedefined h), q_lastline = sint (k_lastline h),
     q_nups = unat (k_nups h), q_params = unat (k_params h), q_vararg = unat (k_vararg h),
     q_maxstack = unat (k_maxstack h), q_source = stringOf (k_source h), q_lines = [], q_locals = [], q_upvalues = [],
     q_code = [], q_constants = [], q_constantTable = [], q_capturedRegisters = [], q_managedCapturedRegisters = []\<rparr>"

text \<open>A total that grows by \<open>n\<close> within its limit, or the message.\<close>

definition charge :: "nat \<Rightarrow> nat \<Rightarrow> nat \<Rightarrow> string \<Rightarrow> nat res" where
  "charge limit used n message = (if n > limit - used then Inl message else Inr (used + n))"

text \<open>The debug tables share one total.\<close>

definition chargeDebug :: "chunk_fields \<Rightarrow> nat \<Rightarrow> nat res" where
  "chargeDebug h used =
    andthen (charge 1000000 used (length (k_lines h)) ''Lua lineinfo limit exceeded'') (\<lambda>used.
    andthen (charge 1000000 used (length (k_locals h)) ''Lua local debug limit exceeded'') (\<lambda>used.
    charge 1000000 used (length (k_upvalues h)) ''Lua upvalue debug limit exceeded''))"

fun assembleTree :: "int \<Rightarrow> nat \<Rightarrow> lua_totals \<Rightarrow> chunk_tree \<Rightarrow> (lua_totals \<times> lua_proto) res"
and assembleAll :: "int \<Rightarrow> nat \<Rightarrow> lua_totals \<Rightarrow> chunk_tree list \<Rightarrow> (lua_totals \<times> lua_proto list) res" where
  "assembleTree parent depth t (Chunk h cs) =
    (if depth > 128 then Inl ''Lua prototype nesting exceeds 128''
     else if t5_prototypes t + 1 > 100000 then Inl ''Lua prototype limit exceeded''
     else if k_maxstack h = 0 then Inl ''Lua prototype has zero maxstack''
     else
       andthen (charge 1000000 (t5_instructions t) (length (k_code h)) ''Lua instruction limit exceeded'') (\<lambda>ni.
       andthen (decodeWords [] False (k_code h)) (\<lambda>ins.
       andthen (charge 1000000 (t5_constants t) (length (k_constants h)) ''Lua constant limit exceeded'') (\<lambda>nc.
       andthen (charge 100000 0 (length cs) ''Lua child prototype limit exceeded'') (\<lambda>_.
       andthen (assembleAll (int (t5_next t)) (depth + 1)
         (t\<lparr>t5_prototypes := t5_prototypes t + 1, t5_next := t5_next t + 1, t5_instructions := ni, t5_constants := nc\<rparr>) cs) (\<lambda>(t', ps).
       andthen (chargeDebug h (t5_debugEntries t')) (\<lambda>nd.
       andthen (luaFinish ps ((headOf (t5_next t) parent h)
         \<lparr>q_code := ins, q_constants := map lc_lua (map constantOf (k_constants h)),
          q_constantTable := map constantOf (k_constants h), q_lines := map sint (k_lines h),
          q_locals := map localOf (k_locals h), q_upvalues := map stringOf (k_upvalues h)\<rparr>)) (\<lambda>f.
       Inr (t'\<lparr>t5_debugEntries := nd\<rparr>, LuaProto f ps)))))))))"
| "assembleAll parent depth t [] = Inr (t, [])"
| "assembleAll parent depth t (c # cs) =
    andthen (assembleTree parent depth t c) (\<lambda>(t', p).
    andthen (assembleAll parent depth t' cs) (\<lambda>(t'', ps). Inr (t'', p # ps)))"

definition assemble :: "chunk_tree \<Rightarrow> lua_proto res" where
  "assemble d = andthen (assembleTree (-1) 0 zeroTotals d) (\<lambda>(t, p). Inr p)"

section \<open>Trees that can be written\<close>

definition writable_string :: "chunk_string \<Rightarrow> bool" where
  "writable_string s = (case s of None \<Rightarrow> True | Some bs \<Rightarrow> length bs < maxString)"

definition writable_constant :: "chunk_constant \<Rightarrow> bool" where
  "writable_constant c = (case c of CString s \<Rightarrow> writable_string s | _ \<Rightarrow> True)"

definition writable_fields :: "chunk_fields \<Rightarrow> bool" where
  "writable_fields h \<longleftrightarrow> writable_string (k_source h) \<and> length (k_code h) < 2 ^ 32 \<and>
    length (k_constants h) < 2 ^ 32 \<and> list_all writable_constant (k_constants h) \<and> length (k_lines h) < 2 ^ 32 \<and>
    length (k_locals h) < 2 ^ 32 \<and> list_all (\<lambda>l. writable_string (fst l)) (k_locals h) \<and>
    length (k_upvalues h) < 2 ^ 32 \<and> list_all writable_string (k_upvalues h)"

primrec writable :: "chunk_tree \<Rightarrow> bool" where
  "writable (Chunk h cs) \<longleftrightarrow> writable_fields h \<and> length cs < 2 ^ 32 \<and> list_all id (map writable cs)"
section \<open>Readers on encodings\<close>

text \<open>
  \<open>delivers p xs r\<close>: where \<open>xs\<close> stands in an input the reader gives the result \<open>r\<close>, and when it succeeds
  it stops behind \<open>xs\<close>.
\<close>

definition delivers :: "'a reader \<Rightarrow> u8 list \<Rightarrow> 'a res \<Rightarrow> bool" where
  "delivers p xs r \<longleftrightarrow> (\<forall>pre post. p (pre @ xs @ post) (length pre) =
     andthen r (\<lambda>x. Inr (x, length pre + length xs)))"

lemma deliversD: "delivers p xs r \<Longrightarrow> p (pre @ xs @ post) (length pre) = andthen r (\<lambda>x. Inr (x, length pre + length xs))"
  by (simp add: delivers_def)

lemma delivers_bind:
  assumes p: "delivers p xs r" and f: "\<And>x. r = Inr x \<Longrightarrow> delivers (f x) ys (g x)"
  shows "delivers (rbind p f) (xs @ ys) (andthen r g)"
  unfolding delivers_def
proof (intro allI)
  fix pre post
  show "rbind p f (pre @ (xs @ ys) @ post) (length pre) = andthen (andthen r g) (\<lambda>x. Inr (x, length pre + length (xs @ ys)))"
  proof (cases r)
    case (Inl e)
    then show ?thesis using deliversD [OF p, of pre "ys @ post"] by (simp add: rbind_def)
  next
    case (Inr x)
    then show ?thesis
      using deliversD [OF p, of pre "ys @ post"] deliversD [OF f [OF Inr], of "pre @ xs" post]
      by (simp add: rbind_def add.assoc)
  qed
qed

lemma delivers_return: "delivers (rreturn x) [] (Inr x)"
  by (simp add: delivers_def)

lemma delivers_check: "delivers (rcheck c m) [] (require c m)"
  by (simp add: delivers_def require_def)

lemma delivers_lift: "delivers (rlift r) [] r"
  by (cases r) (simp_all add: delivers_def rlift_def)

lemma delivers_then_return:
  "delivers p xs r \<Longrightarrow> delivers (rbind p (\<lambda>x. rreturn (f x))) xs (andthen r (\<lambda>x. Inr (f x)))"
  using delivers_bind [of p xs r "\<lambda>x. rreturn (f x)" "[]" "\<lambda>x. Inr (f x)"] by (simp add: delivers_return)

lemma delivers_step:
  assumes "delivers p xs (Inr x)" "delivers (f x) ys r"
  shows "delivers (rbind p f) (xs @ ys) r"
  using delivers_bind [OF assms(1), of f ys "\<lambda>_. r"] assms(2) by simp

lemma delivers_mapped: "delivers p xs (Inr x) \<Longrightarrow> delivers (rbind p (\<lambda>x. rreturn (f x))) xs (Inr (f x))"
  using delivers_then_return [of p xs "Inr x" f] by simp

lemma delivers_mapped_to:
  assumes "delivers p xs (Inr x)" "f x = y"
  shows "delivers (rbind p (\<lambda>x. rreturn (f x))) xs (Inr y)"
  using delivers_mapped [OF assms(1), of f] unfolding assms(2) .

lemma delivers_choose:
  assumes "delivers p xs (Inr x)" "f x = q" "delivers q ys r"
  shows "delivers (rbind p f) (xs @ ys) r"
  by (rule delivers_step [OF assms(1)]) (unfold assms(2), rule assms(3))

lemma delivers_fail: "delivers p xs (Inl e) \<Longrightarrow> delivers (rbind p f) (xs @ ys) (Inl e)"
  using delivers_bind [of p xs "Inl e" f ys] by simp

lemma delivers_u8: "delivers lua_u8 [b] (Inr b)"
  by (simp add: delivers_def lua_u8_def lua_need_def rbind_def nth_append)

lemma delivers_raw: "n = length xs \<Longrightarrow> delivers (lua_raw n) xs (Inr xs)"
  by (simp add: delivers_def lua_raw_def lua_need_def rbind_def)

lemma delivers_bytes: "n = length xs \<Longrightarrow> delivers (lua_bytes n) xs (Inr (text_bytes xs))"
  unfolding lua_bytes_def by (rule delivers_mapped) (rule delivers_raw)

section \<open>Numbers\<close>

lemma lowBytes_length [simp]: "length (lowBytes k w) = k"
  by (induction k arbitrary: w) simp_all

lemma fromLittle_lowBytes: "fromLittle (lowBytes k (w :: 'a::len word)) = take_bit (8 * k) w"
proof (induction k arbitrary: w)
  case 0
  then show ?case by simp
next
  case (Suc k)
  show ?case
    by (rule bit_word_eqI) (auto simp: Suc.IH bit_simps)
qed

lemma fromBig_rev: "fromBig (rev bs) = (fromLittle bs :: 'a::len word)"
  by (simp add: fromBig_def foldl_conv_foldr) (induction bs; simp add: or.commute)

lemma fromBytes_putBytes:
  "LENGTH('a) \<le> 8 * k \<Longrightarrow>
    (if little fmt then fromLittle (putBytes fmt k w) else fromBig (putBytes fmt k w)) = (w :: 'a::len word)"
  by (simp add: putBytes_def fromBig_rev fromLittle_lowBytes take_bit_word_eq_self)

lemma delivers_u32: "delivers (lua_u32 fmt) (putInt fmt w) (Inr w)"
proof -
  have "delivers (lua_raw 4) (putInt fmt w) (Inr (putInt fmt w))"
    by (rule delivers_raw) (simp add: putInt_def putBytes_def)
  moreover have "(if little fmt then fromLittle (putInt fmt w) else fromBig (putInt fmt w)) = w"
    unfolding putInt_def by (rule fromBytes_putBytes) simp
  ultimately show ?thesis unfolding lua_u32_def by (rule delivers_mapped_to)
qed

lemma delivers_u64: "delivers (lua_u64 fmt) (putBytes fmt 8 w) (Inr w)"
proof -
  have "delivers (lua_raw 8) (putBytes fmt 8 w) (Inr (putBytes fmt 8 w))"
    by (rule delivers_raw) (simp add: putBytes_def)
  moreover have "(if little fmt then fromLittle (putBytes fmt 8 w) else fromBig (putBytes fmt 8 w)) = w"
    by (rule fromBytes_putBytes) simp
  ultimately show ?thesis unfolding lua_u64_def by (rule delivers_mapped_to)
qed

lemma delivers_i32: "delivers (lua_i32 fmt) (putInt fmt w) (Inr (sint w))"
  unfolding lua_i32_def by (rule delivers_mapped) (rule delivers_u32)

lemma delivers_count:
  assumes "n < 2 ^ 32"
  shows "delivers (lua_count fmt left m) (putCount fmt n) (if n > left then Inl m else Inr n)"
proof -
  have n: "unat (of_nat n :: u32) = n" using assms by (simp add: unsigned_of_nat take_bit_nat_eq_self_iff)
  have "delivers (rbind (rcheck (\<not> n > left) m) (\<lambda>_. rreturn n)) [] (if n > left then Inl m else Inr n)"
    by (simp add: delivers_def rbind_def)
  then have "delivers (lua_count fmt left m) (putInt fmt (of_nat n) @ []) (if n > left then Inl m else Inr n)"
    unfolding lua_count_def by (intro delivers_step [OF delivers_u32]) (simp only: n)
  then show ?thesis by (simp add: putCount_def)
qed

section \<open>Strings, constants and lists\<close>

lemma delivers_string:
  assumes "writable_string s" "sizeT fmt = 4 \<or> sizeT fmt = 8"
  shows "delivers (luaString fmt) (putString fmt s) (Inr (stringOf s))"
proof -
  define tail where "tail = (\<lambda>n. if n = 0 then rreturn [] else
    rbind (rcheck (\<not> n > maxString) ''invalid Lua 5.1 string length'') (\<lambda>_.
      rbind (lua_bytes (n - 1)) (\<lambda>s. rbind lua_u8 (\<lambda>_. rreturn s))))"
  have size: "delivers (if sizeT fmt = 4 then rbind (lua_u32 fmt) (\<lambda>n. rreturn (unat n))
      else rbind (lua_u64 fmt) (\<lambda>n. rreturn (unat n))) (putSize fmt n) (Inr n)" if "n \<le> maxString" for n
  proof -
    have "unat (of_nat n :: u32) = n" "unat (of_nat n :: u64) = n"
      using that by (simp_all add: maxString_def unsigned_of_nat take_bit_nat_eq_self_iff)
    then show ?thesis
      using delivers_mapped [OF delivers_u32 [of fmt "of_nat n"], of unat] delivers_mapped [OF delivers_u64 [of fmt "of_nat n"], of unat] assms(2)
      by (auto simp: putSize_def putCount_def)
  qed
  show ?thesis
  proof (cases s)
    case None
    have "delivers (tail 0) [] (Inr (stringOf s))" by (simp add: tail_def None stringOf_def delivers_return)
    from delivers_step [where f = tail, OF size this] show ?thesis by (simp add: luaString_def putString_def None flip: tail_def)
  next
    case (Some bs)
    then have n: "length bs + 1 \<le> maxString" using assms(1) by (simp add: writable_string_def)
    have "delivers (rbind lua_u8 (\<lambda>_. rreturn (text_bytes bs))) ([0] @ []) (Inr (text_bytes bs))"
      by (rule delivers_step [OF delivers_u8]) (rule delivers_return)
    from delivers_step [where p = "lua_bytes (length bs + 1 - 1)" and f = "\<lambda>s. rbind lua_u8 (\<lambda>_. rreturn s)", OF delivers_bytes this]
    have "delivers (rbind (lua_bytes (length bs + 1 - 1)) (\<lambda>s. rbind lua_u8 (\<lambda>_. rreturn s))) (bs @ [0]) (Inr (text_bytes bs))"
      by simp
    then have "delivers (tail (length bs + 1)) (bs @ [0]) (Inr (stringOf s))"
      using n by (simp add: tail_def Some stringOf_def rbind_return_left rcheck_def)
    from delivers_step [where f = tail, OF size [OF n] this] show ?thesis by (simp add: luaString_def putString_def Some flip: tail_def)
  qed
qed

lemma delivers_constant:
  assumes "writable_constant c" "sizeT fmt = 4 \<or> sizeT fmt = 8"
  shows "delivers (luaConstant fmt) (putConstant fmt c) (Inr (constantOf c))"
proof (cases c)
  case CNil
  have "delivers (luaConstant fmt) ([0] @ []) (Inr (constantOf c))"
    unfolding luaConstant_def by (rule delivers_choose [OF delivers_u8 _ delivers_return]) (simp add: CNil constantOf_def)
  then show ?thesis by (simp add: CNil putConstant_def)
next
  case (CBool b)
  have "delivers (luaConstant fmt) ([1] @ [if b then 1 else 0]) (Inr (constantOf c))"
    unfolding luaConstant_def Let_def
    by (rule delivers_choose [OF delivers_u8 _ delivers_mapped_to [OF delivers_u8]]) (simp, simp add: CBool constantOf_def Let_def)
  then show ?thesis by (simp add: CBool putConstant_def)
next
  case (CNumber bits)
  have "delivers (luaConstant fmt) ([3] @ putBytes fmt 8 bits) (Inr (constantOf c))"
    unfolding luaConstant_def Let_def
    by (rule delivers_choose [OF delivers_u8 _ delivers_mapped_to [OF delivers_u64]]) (simp, simp add: CNumber constantOf_def Let_def)
  then show ?thesis by (simp add: CNumber putConstant_def)
next
  case (CString s)
  then have s: "writable_string s" using assms(1) by (simp add: writable_constant_def)
  have "delivers (luaConstant fmt) ([4] @ putString fmt s) (Inr (constantOf c))"
    unfolding luaConstant_def Let_def
    by (rule delivers_choose [OF delivers_u8 _ delivers_mapped_to [OF delivers_string [OF s assms(2)]]])
      (simp, simp add: CString constantOf_def)
  then show ?thesis by (simp add: CString putConstant_def)
qed

lemma delivers_local:
  assumes "writable_string (fst l)" "sizeT fmt = 4 \<or> sizeT fmt = 8"
  shows "delivers (luaLocal fmt) (putLocal fmt l) (Inr (localOf l))"
  unfolding luaLocal_def putLocal_def localOf_def
  by (rule delivers_step [OF delivers_string [OF assms]], rule delivers_step [OF delivers_u32], rule delivers_mapped [OF delivers_u32])

lemma delivers_many:
  assumes "\<And>x. x \<in> set xs \<Longrightarrow> delivers p (put x) (Inr (f x))"
  shows "delivers (rmany (length xs) p) (concat (map put xs)) (Inr (map f xs))"
proof -
  have "delivers (rloop (length xs) (\<lambda>ys. rbind p (\<lambda>x. rreturn (ys @ [x]))) ys) (concat (map put xs)) (Inr (ys @ map f xs))" for ys
    using assms
  proof (induction xs arbitrary: ys)
    case Nil
    then show ?case by (simp add: delivers_def)
  next
    case (Cons x xs)
    have "delivers (rbind p (\<lambda>x. rreturn (ys @ [x]))) (put x) (Inr (ys @ [f x]))"
      by (rule delivers_mapped) (use Cons.prems in simp)
    moreover have "delivers (rloop (length xs) (\<lambda>ys. rbind p (\<lambda>x. rreturn (ys @ [x]))) (ys @ [f x])) (concat (map put xs))
        (Inr ((ys @ [f x]) @ map f xs))"
      by (rule Cons.IH) (use Cons.prems in simp)
    ultimately show ?case
      unfolding list.size(4) add_Suc_right add_0_right rloop.simps list.map(2) concat.simps(2)
      by (simp only: append_assoc append_Cons append_Nil delivers_step)
  qed
  from this [of "[]"] show ?thesis by (simp add: rmany_def)
qed

section \<open>The parts of a prototype\<close>

lemma delivers_head:
  assumes "writable_string (k_source h)" "sizeT fmt = 4 \<or> sizeT fmt = 8"
  shows "delivers (luaHead fmt k parent) (putHead fmt h)
    (if k_maxstack h = 0 then Inl ''Lua prototype has zero maxstack'' else Inr (headOf k parent h))"
proof -
  have last: "delivers (rbind (rcheck (\<not> k_maxstack h = 0) m) (\<lambda>_. rreturn x)) [] (if k_maxstack h = 0 then Inl m else Inr x)" for m and x :: 'c
    by (simp add: delivers_def rbind_def)
  have bytes: "[a, b, c, d] = [a] @ [b] @ [c] @ [d] @ []" for a b c d :: u8 by simp
  show ?thesis
    unfolding luaHead_def putHead_def bytes headOf_def
    by (rule delivers_step [OF delivers_string [OF assms]], rule delivers_step [OF delivers_i32],
        rule delivers_step [OF delivers_i32], rule delivers_step [OF delivers_u8], rule delivers_step [OF delivers_u8],
        rule delivers_step [OF delivers_u8], rule delivers_step [OF delivers_u8], rule last)
qed

text \<open>A counted list behind a limit.\<close>

lemma delivers_list:
  assumes "length xs < 2 ^ 32" "\<And>x. x \<in> set xs \<Longrightarrow> delivers p (put x) (Inr (f x))"
    and "delivers (g (length xs) (map f xs)) [] (r (used + length xs))"
  shows "delivers (rbind (lua_count fmt (limit - used) m) (\<lambda>n. rbind (rmany n p) (g n))) (putList fmt put xs)
    (andthen (charge limit used (length xs) m) r)"
proof (cases "length xs > limit - used")
  case True
  then have "delivers (lua_count fmt (limit - used) m) (putCount fmt (length xs)) (Inl m)"
    using delivers_count [OF assms(1), of fmt "limit - used" m] by simp
  then have "delivers (rbind (lua_count fmt (limit - used) m) (\<lambda>n. rbind (rmany n p) (g n))) (putList fmt put xs) (Inl m)"
    unfolding putList_def by (rule delivers_fail)
  then show ?thesis using True by (simp add: charge_def)
next
  case False
  have "delivers (rbind (rmany (length xs) p) (g (length xs))) (concat (map put xs) @ []) (r (used + length xs))"
    by (rule delivers_step [OF delivers_many [OF assms(2)]]) (use assms(3) in simp_all)
  moreover have "delivers (lua_count fmt (limit - used) m) (putCount fmt (length xs)) (Inr (length xs))"
    using delivers_count [OF assms(1), of fmt "limit - used" m] False by simp
  ultimately have "delivers (rbind (lua_count fmt (limit - used) m) (\<lambda>n. rbind (rmany n p) (g n)))
      (putCount fmt (length xs) @ (concat (map put xs) @ [])) (r (used + length xs))"
    by (elim delivers_step)
  then show ?thesis using False by (simp add: charge_def putList_def)
qed

lemma andthen_assoc: "andthen (andthen m f) g = andthen m (\<lambda>x. andthen (f x) g)"
  by (cases m) simp_all

lemma delivers_code:
  assumes "length (k_code h) < 2 ^ 32"
  shows "delivers (luaCode fmt s) (putList fmt (putInt fmt) (k_code h))
    (andthen (charge 1000000 (t5_instructions (fst s)) (length (k_code h)) ''Lua instruction limit exceeded'') (\<lambda>n.
     andthen (decodeWords [] False (k_code h)) (\<lambda>ins. Inr ((fst s)\<lparr>t5_instructions := n\<rparr>, (snd s)\<lparr>q_code := ins\<rparr>))))"
proof -
  have each: "delivers (rbind (rlift (decodeWords [] False raw)) (\<lambda>ins.
      rreturn ((fst s)\<lparr>t5_instructions := t5_instructions (fst s) + n\<rparr>, (snd s)\<lparr>q_code := ins\<rparr>))) []
    (andthen (decodeWords [] False raw) (\<lambda>ins.
      Inr ((fst s)\<lparr>t5_instructions := t5_instructions (fst s) + n\<rparr>, (snd s)\<lparr>q_code := ins\<rparr>)))" for raw n
    by (rule delivers_then_return) (rule delivers_lift)
  show ?thesis
    unfolding luaCode_def
    by (rule delivers_list [where f = id, OF assms])
      (simp_all add: delivers_u32 each)
qed

lemma delivers_constants:
  assumes "length (k_constants h) < 2 ^ 32" "list_all writable_constant (k_constants h)" "sizeT fmt = 4 \<or> sizeT fmt = 8"
  shows "delivers (luaConstants fmt s) (putList fmt (putConstant fmt) (k_constants h))
    (andthen (charge 1000000 (t5_constants (fst s)) (length (k_constants h)) ''Lua constant limit exceeded'') (\<lambda>n.
     Inr ((fst s)\<lparr>t5_constants := n\<rparr>, (snd s)\<lparr>q_constants := map lc_lua (map constantOf (k_constants h)),
       q_constantTable := map constantOf (k_constants h)\<rparr>)))"
  unfolding luaConstants_def
  by (rule delivers_list [OF assms(1) delivers_constant]) (use assms(2,3) in \<open>auto simp: list_all_iff intro: delivers_return\<close>)

lemma delivers_table:
  assumes "length xs < 2 ^ 32" "\<And>x. x \<in> set xs \<Longrightarrow> delivers p (put x) (Inr (f x))"
  shows "delivers (luaDebugTable fmt m p t) (putList fmt put xs)
    (andthen (charge 1000000 (t5_debugEntries t) (length xs) m) (\<lambda>n. Inr (t\<lparr>t5_debugEntries := n\<rparr>, map f xs)))"
  unfolding luaDebugTable_def by (rule delivers_list [OF assms]) (simp_all add: delivers_return)

lemma delivers_bind_pair:
  assumes "delivers p xs r" "\<And>a b. r = Inr (a, b) \<Longrightarrow> delivers (f a b) ys (g a b)"
  shows "delivers (rbind p (\<lambda>(a, b). f a b)) (xs @ ys) (andthen r (\<lambda>(a, b). g a b))"
proof (rule delivers_bind [OF assms(1)])
  fix x
  assume "r = Inr x"
  then show "delivers (case x of (a, b) \<Rightarrow> f a b) ys (case x of (a, b) \<Rightarrow> g a b)" using assms(2) by (cases x) simp
qed

lemma delivers_debug:
  assumes "writable_fields h" "sizeT fmt = 4 \<or> sizeT fmt = 8"
  shows "delivers (luaDebug fmt s) (putDebug fmt h)
    (andthen (chargeDebug h (t5_debugEntries (fst s))) (\<lambda>n. Inr ((fst s)\<lparr>t5_debugEntries := n\<rparr>,
       (snd s)\<lparr>q_lines := map sint (k_lines h), q_locals := map localOf (k_locals h), q_upvalues := map stringOf (k_upvalues h)\<rparr>)))"
proof -
  have lines: "delivers (luaDebugTable fmt m (lua_i32 fmt) t) (putList fmt (putInt fmt) (k_lines h))
      (andthen (charge 1000000 (t5_debugEntries t) (length (k_lines h)) m) (\<lambda>n. Inr (t\<lparr>t5_debugEntries := n\<rparr>, map sint (k_lines h))))"
    for m t by (rule delivers_table) (use assms in \<open>simp_all add: writable_fields_def delivers_i32\<close>)
  have locals: "delivers (luaDebugTable fmt m (luaLocal fmt) t) (putList fmt (putLocal fmt) (k_locals h))
      (andthen (charge 1000000 (t5_debugEntries t) (length (k_locals h)) m) (\<lambda>n. Inr (t\<lparr>t5_debugEntries := n\<rparr>, map localOf (k_locals h))))"
    for m t by (rule delivers_table) (use assms in \<open>simp_all add: writable_fields_def list_all_iff delivers_local\<close>)
  have ups: "delivers (luaDebugTable fmt m (luaString fmt) t) (putList fmt (putString fmt) (k_upvalues h))
      (andthen (charge 1000000 (t5_debugEntries t) (length (k_upvalues h)) m) (\<lambda>n. Inr (t\<lparr>t5_debugEntries := n\<rparr>, map stringOf (k_upvalues h))))"
    for m t by (rule delivers_table) (use assms in \<open>simp_all add: writable_fields_def list_all_iff delivers_string\<close>)
  have "delivers (luaDebug fmt s) (putList fmt (putInt fmt) (k_lines h) @ putList fmt (putLocal fmt) (k_locals h) @
      putList fmt (putString fmt) (k_upvalues h) @ [])
    (andthen (andthen (charge 1000000 (t5_debugEntries (fst s)) (length (k_lines h)) ''Lua lineinfo limit exceeded'')
       (\<lambda>n. Inr ((fst s)\<lparr>t5_debugEntries := n\<rparr>, map sint (k_lines h)))) (\<lambda>(t1, lns).
     andthen (andthen (charge 1000000 (t5_debugEntries t1) (length (k_locals h)) ''Lua local debug limit exceeded'')
       (\<lambda>n. Inr (t1\<lparr>t5_debugEntries := n\<rparr>, map localOf (k_locals h)))) (\<lambda>(t2, locs).
     andthen (andthen (charge 1000000 (t5_debugEntries t2) (length (k_upvalues h)) ''Lua upvalue debug limit exceeded'')
       (\<lambda>n. Inr (t2\<lparr>t5_debugEntries := n\<rparr>, map stringOf (k_upvalues h)))) (\<lambda>(t3, us).
     Inr (t3, (snd s)\<lparr>q_lines := lns, q_locals := locs, q_upvalues := us\<rparr>)))))"
    unfolding luaDebug_def by (intro delivers_bind_pair lines locals ups delivers_return)
  then show ?thesis by (simp add: putDebug_def chargeDebug_def andthen_assoc)
qed

section \<open>The tree\<close>

lemma delivers_finish:
  "delivers (rbind (rlift (luaFinish ps f)) (\<lambda>f. rreturn (t, LuaProto f ps))) [] (andthen (luaFinish ps f) (\<lambda>f. Inr (t, LuaProto f ps)))"
  by (rule delivers_then_return) (rule delivers_lift)

lemma refined:
  "sizeT fmt = 4 \<or> sizeT fmt = 8 \<Longrightarrow> writable d \<Longrightarrow>
    delivers (luaProto fmt parent depth t) (putTree fmt d) (assembleTree parent depth t d)"
  "sizeT fmt = 4 \<or> sizeT fmt = 8 \<Longrightarrow> list_all writable cs \<Longrightarrow>
    delivers (rloop (length cs) (luaChild (luaProto fmt parent depth)) (t, ps0)) (concat (map (putTree fmt) cs))
      (andthen (assembleAll parent depth t cs) (\<lambda>(t', ps). Inr (t', ps0 @ ps)))"
proof (induction parent depth t d and parent depth t cs arbitrary: and ps0 rule: assembleTree_assembleAll.induct)
  case (1 parent depth t h cs)
  let ?F = "luaProto fmt (int (t5_next t)) (depth + 1)"
  let ?t1 = "t\<lparr>t5_prototypes := t5_prototypes t + 1, t5_next := t5_next t + 1\<rparr>"
  let ?head = "if k_maxstack h = 0 then Inl ''Lua prototype has zero maxstack'' else Inr (headOf (t5_next t) parent h)"
  let ?code = "\<lambda>s. andthen (charge 1000000 (t5_instructions (fst s)) (length (k_code h)) ''Lua instruction limit exceeded'') (\<lambda>n.
     andthen (decodeWords [] False (k_code h)) (\<lambda>ins. Inr ((fst s)\<lparr>t5_instructions := n\<rparr>, (snd s)\<lparr>q_code := ins\<rparr>)))"
  let ?pool = "\<lambda>s. andthen (charge 1000000 (t5_constants (fst s)) (length (k_constants h)) ''Lua constant limit exceeded'') (\<lambda>n.
     Inr ((fst s)\<lparr>t5_constants := n\<rparr>, (snd s)\<lparr>q_constants := map lc_lua (map constantOf (k_constants h)),
       q_constantTable := map constantOf (k_constants h)\<rparr>))"
  let ?count = "if length cs > 100000 then Inl ''Lua child prototype limit exceeded'' else Inr (length cs)"
  let ?kids = "\<lambda>u. andthen (assembleAll (int (t5_next t)) (depth + 1) u cs) (\<lambda>(t', ps). Inr (t', [] @ ps))"
  let ?debug = "\<lambda>s. andthen (chargeDebug h (t5_debugEntries (fst s))) (\<lambda>n. Inr ((fst s)\<lparr>t5_debugEntries := n\<rparr>,
       (snd s)\<lparr>q_lines := map sint (k_lines h), q_locals := map localOf (k_locals h), q_upvalues := map stringOf (k_upvalues h)\<rparr>))"
  have h: "writable_fields h" "length cs < 2 ^ 32" "list_all writable cs" using 1(3) by (auto simp: list_all_iff)
  have fields: "writable_string (k_source h)" "length (k_code h) < 2 ^ 32" "length (k_constants h) < 2 ^ 32"
    "list_all writable_constant (k_constants h)" using h(1) by (simp_all add: writable_fields_def)
  show ?case
  proof (cases "depth > 128 \<or> t5_prototypes t + 1 > 100000")
    case True
    then show ?thesis by (subst luaProto.simps) (auto simp: delivers_def)
  next
    case False
    then have small: "\<not> depth > 128" "\<not> t5_prototypes t + 1 > 100000" by simp_all
    have "delivers (luaProto fmt parent depth t)
        (putHead fmt h @ putList fmt (putInt fmt) (k_code h) @ putList fmt (putConstant fmt) (k_constants h) @
         putCount fmt (length cs) @ concat (map (putTree fmt) cs) @ putDebug fmt h @ [])
      (andthen ?head (\<lambda>f0. andthen (?code (?t1, f0)) (\<lambda>s1. andthen (?pool s1) (\<lambda>s2. andthen ?count (\<lambda>np.
         andthen (?kids (fst s2)) (\<lambda>s3. andthen (?debug (fst s3, snd s2)) (\<lambda>s4.
         andthen (luaFinish (snd s3) (snd s4)) (\<lambda>f. Inr (fst s4, LuaProto f (snd s3))))))))))"
    proof (subst luaProto.simps, simp only: small if_False, rule delivers_bind [OF delivers_head [OF fields(1) 1(2)]],
        rule delivers_bind [OF delivers_code [OF fields(2)]], rule delivers_bind [OF delivers_constants [OF fields(3,4) 1(2)]],
        rule delivers_bind [OF delivers_count [OF h(2)]], rule delivers_bind)
      fix f0 s1 s2 np
      assume head: "?head = Inr f0" and code: "?code (?t1, f0) = Inr s1" and pool: "?pool s1 = Inr s2" and count: "?count = Inr np"
      obtain ni ins where ni: "charge 1000000 (t5_instructions t) (length (k_code h)) ''Lua instruction limit exceeded'' = Inr ni"
        "decodeWords [] False (k_code h) = Inr ins" "s1 = (?t1\<lparr>t5_instructions := ni\<rparr>, f0\<lparr>q_code := ins\<rparr>)"
        using code by (auto simp: res_simps)
      obtain nc where nc: "charge 1000000 (t5_constants t) (length (k_constants h)) ''Lua constant limit exceeded'' = Inr nc"
        "fst s2 = ?t1\<lparr>t5_instructions := ni, t5_constants := nc\<rparr>"
        using pool ni(3) by (auto simp: res_simps)
      have np: "np = length cs" "charge 100000 0 (length cs) ''Lua child prototype limit exceeded'' = Inr (length cs)"
        using count by (auto simp: charge_def split: if_splits)
      have "k_maxstack h \<noteq> 0" using head by (auto split: if_splits)
      from 1(1) [OF small this ni(1,2) nc(1) np(2) 1(2) h(3), of "[]"]
      show "delivers (rloop np (luaChild ?F) (fst s2, [])) (concat (map (putTree fmt) cs)) (?kids (fst s2))"
        by (simp add: nc(2) np(1))
    next
      fix f0 s1 s2 np s3
      show "delivers (rbind (luaDebug fmt (fst s3, snd s2)) (\<lambda>s4. rbind (rlift (luaFinish (snd s3) (snd s4)))
          (\<lambda>f. rreturn (fst s4, LuaProto f (snd s3))))) (putDebug fmt h @ [])
        (andthen (?debug (fst s3, snd s2)) (\<lambda>s4. andthen (luaFinish (snd s3) (snd s4)) (\<lambda>f. Inr (fst s4, LuaProto f (snd s3)))))"
        by (rule delivers_bind [OF delivers_debug [OF h(1) 1(2)]]) (rule delivers_finish)
    qed
    moreover have "andthen ?head (\<lambda>f0. andthen (?code (?t1, f0)) (\<lambda>s1. andthen (?pool s1) (\<lambda>s2. andthen ?count (\<lambda>np.
         andthen (?kids (fst s2)) (\<lambda>s3. andthen (?debug (fst s3, snd s2)) (\<lambda>s4.
         andthen (luaFinish (snd s3) (snd s4)) (\<lambda>f. Inr (fst s4, LuaProto f (snd s3))))))))) = assembleTree parent depth t (Chunk h cs)"
      using small by (simp add: andthen_assoc charge_def case_prod_beta')
    ultimately show ?thesis by simp
  qed
next
  case (2 parent depth t)
  then show ?case by (simp add: delivers_def)
next
  case (3 parent depth t c cs)
  have "delivers (luaChild (luaProto fmt parent depth) (t, ps0)) (putTree fmt c @ [])
      (andthen (assembleTree parent depth t c) (\<lambda>(t', p). Inr (t', ps0 @ [p])))"
    unfolding luaChild_def fst_conv snd_conv using 3(1,3,4) by (intro delivers_bind_pair delivers_return) simp_all
  then have child: "delivers (luaChild (luaProto fmt parent depth) (t, ps0)) (putTree fmt c)
      (andthen (assembleTree parent depth t c) (\<lambda>(t', p). Inr (t', ps0 @ [p])))" by simp
  have "delivers (rbind (luaChild (luaProto fmt parent depth) (t, ps0)) (rloop (length cs) (luaChild (luaProto fmt parent depth))))
      (putTree fmt c @ concat (map (putTree fmt) cs))
      (andthen (andthen (assembleTree parent depth t c) (\<lambda>(t', p). Inr (t', ps0 @ [p])))
        (\<lambda>s. andthen (assembleAll parent depth (fst s) cs) (\<lambda>(t', ps). Inr (t', snd s @ ps))))"
  proof (rule delivers_bind [OF child])
    fix s
    assume "andthen (assembleTree parent depth t c) (\<lambda>(t', p). Inr (t', ps0 @ [p])) = Inr s"
    then obtain p where p: "assembleTree parent depth t c = Inr (fst s, p)" by (auto simp: res_simps)
    show "delivers (rloop (length cs) (luaChild (luaProto fmt parent depth)) s) (concat (map (putTree fmt) cs))
        (andthen (assembleAll parent depth (fst s) cs) (\<lambda>(t', ps). Inr (t', snd s @ ps)))"
      using 3(2) [OF p refl 3(3), of "snd s"] 3(4) by simp
  qed
  moreover have "andthen (andthen (assembleTree parent depth t c) (\<lambda>(t', p). Inr (t', ps0 @ [p])))
        (\<lambda>s. andthen (assembleAll parent depth (fst s) cs) (\<lambda>(t', ps). Inr (t', snd s @ ps))) =
      andthen (assembleAll parent depth t (c # cs)) (\<lambda>(t', ps). Inr (t', ps0 @ ps))"
    by (auto simp: andthen_def split: sum.splits)
  ultimately show ?case by simp
qed

lemma delivers_header:
  assumes "sizeT fmt = 4 \<or> sizeT fmt = 8"
  shows "delivers lua_header (putHeader fmt) (Inr fmt)"
proof -
  have magic: "text_bytes [0x1B, 0x4C, 0x75, 0x61] = CHR 0x1B # ''Lua''" unfolding text_bytes_def by code_simp
  obtain b n where fmt: "fmt = \<lparr>little = b, sizeT = n\<rparr>" "n = 4 \<or> n = 8" using assms by (cases fmt) auto
  show ?thesis
    unfolding delivers_def using fmt(2)
    by (cases b) (auto simp: fmt(1) lua_header_def rbind_def lua_bytes_def lua_raw_def lua_need_def lua_u8_def putHeader_def nth_append magic)
qed

text \<open>The reader on a whole chunk.\<close>

lemma parsed_writeChunk:
  assumes "sizeT fmt = 4 \<or> sizeT fmt = 8" "writable d"
  shows "lua_parse (writeChunk fmt d) = assemble d"
proof -
  have "delivers (rbind lua_header (\<lambda>fmt. luaProto fmt (-1) 0 zeroTotals)) (writeChunk fmt d) (assembleTree (-1) 0 zeroTotals d)"
    unfolding writeChunk_def by (rule delivers_step [OF delivers_header [OF assms(1)]]) (rule refined(1) [OF assms])
  from deliversD [OF this, of "[]" "[]"]
  show ?thesis by (simp add: lua_parse_def assemble_def andthen_assoc case_prod_beta')
qed

end
