(* ===== verification/Lua51_Properties.thy ===== *)
theory Lua51_Properties
  imports Lua51_Report Lua51_Machine Lua51_Dump
begin

text \<open>
  The properties of the reader of Lua 5.1 chunks, of its control-flow analysis and of its printers,
  with a small chunk on which they are applied.
\<close>

section \<open>A sample chunk\<close>

text \<open>A comparison with its jump and two returns; the words are \<^verbatim>\<open>EQ\<close>, \<^verbatim>\<open>JMP\<close>, \<^verbatim>\<open>RETURN\<close>, \<^verbatim>\<open>RETURN\<close>.\<close>

definition sampleChunk :: "u8 list" where
  "sampleChunk =
    [0x1b, 0x4c, 0x75, 0x61, 0x51, 0, 1, 4, 4, 4, 8, 0,
     0, 0, 0, 0, 0, 0, 0, 0, 0, 0, 0, 0, 0, 0, 2, 2,
     4, 0, 0, 0, 0x17, 0, 0, 0, 0x16, 0, 0, 0x80, 0x1e, 0, 0x80, 0, 0x1e, 0, 0x80, 0,
     0, 0, 0, 0, 0, 0, 0, 0,
     0, 0, 0, 0, 0, 0, 0, 0, 0, 0, 0, 0]"

lemmas read_defs = rbind_def lua_u8_def lua_need_def lua_raw_def lua_bytes_def lua_u32_def lua_i32_def luaString_def
  lua_count_def rmany_def

lemma rloop_numeral: "rloop (numeral k) f s = rbind (f s) (rloop (pred_numeral k) f)"
  by (simp add: numeral_eq_Suc)

definition sampleHead :: lua_fields where
  "sampleHead = \<lparr>q_id = 0, q_parent = -1, q_linedefined = 0, q_lastline = 0, q_nups = 0, q_params = 0, q_vararg = 2,
    q_maxstack = 2, q_source = [], q_lines = [], q_locals = [], q_upvalues = [], q_code = [], q_constants = [],
    q_constantTable = [], q_capturedRegisters = [], q_managedCapturedRegisters = []\<rparr>"

definition sampleWords :: "u32 list" where "sampleWords = [0x17, 0x80000016, 0x80001e, 0x80001e]"

definition sampleFields :: lua_fields where
  "sampleFields = sampleHead\<lparr>q_code :=
     [(wordFields 0x17 0)\<lparr>l_target := 2\<rparr>, (wordFields 0x80000016 1)\<lparr>l_target := 3\<rparr>,
      wordFields 0x80001e 2, wordFields 0x80001e 3],
     q_capturedRegisters := [False, False], q_managedCapturedRegisters := [False, False]\<rparr>"

lemma sample_header: "lua_header sampleChunk 0 = Inr (\<lparr>little = True, sizeT = 4\<rparr>, 12)"
  by (simp add: lua_header_def sampleChunk_def read_defs text_bytes_def) code_simp

lemma sample_head: "luaHead \<lparr>little = True, sizeT = 4\<rparr> 0 (-1) sampleChunk 12 = Inr (sampleHead, 28)"
  by (simp add: luaHead_def sampleChunk_def read_defs sampleHead_def)

lemma sample_words: "decodeWords [] False sampleWords = Inr (q_code sampleFields)"
  by (simp add: sampleWords_def sampleFields_def decodeWord_def wordFields_def blankInstr_def jumpOf_def)

lemma sample_code: "luaCode \<lparr>little = True, sizeT = 4\<rparr> (t, sampleHead) sampleChunk 28 =
   Inr ((t\<lparr>t5_instructions := t5_instructions t + 4\<rparr>, sampleHead\<lparr>q_code := q_code sampleFields\<rparr>), 48)" if "t5_instructions t = 0"
  using sample_words [unfolded sampleWords_def] that
  by (simp add: luaCode_def read_defs sampleChunk_def rlift_def rloop_numeral)

lemma sample_finish: "luaFinish [] (sampleHead\<lparr>q_code := q_code sampleFields\<rparr>) = Inr sampleFields"
proof -
  have two: "replicate 2 False = [False, False]" by (simp add: numeral_2_eq_2)
  show ?thesis by (simp add: luaFinish_def associateClosureCaptures_def associateFrom.simps sampleHead_def sampleFields_def
    manageFrom_def validateProtoData_def checkLuaInstr_def luaOperands_def checkLuaDebug_def require_def
    whenever_def checkLuaReg_def checkRK_def checkTarget_def checkRange_def wordFields_def blankInstr_def two)
qed

lemma sample_tail:
  "luaConstants \<lparr>little = True, sizeT = 4\<rparr> (t, f) sampleChunk 48 =
     Inr ((t, f\<lparr>q_constants := [], q_constantTable := []\<rparr>), 52)"
  "lua_count \<lparr>little = True, sizeT = 4\<rparr> 100000 m sampleChunk 52 = Inr (0, 56)"
  "luaDebug \<lparr>little = True, sizeT = 4\<rparr> (t, f) sampleChunk 56 =
     Inr ((t, f\<lparr>q_lines := [], q_locals := [], q_upvalues := []\<rparr>), 68)"
  by (simp_all add: luaConstants_def luaDebug_def luaDebugTable_def read_defs sampleChunk_def)

lemma sample_parse: "lua_parse sampleChunk = Inr (LuaProto sampleFields [])"
proof -
  have "luaProto \<lparr>little = True, sizeT = 4\<rparr> (-1) 0 zeroTotals sampleChunk 12 =
      Inr ((zeroTotals\<lparr>t5_prototypes := 1, t5_next := 1, t5_instructions := 4\<rparr>, LuaProto sampleFields []), 68)"
    using sample_finish
    by (subst luaProto.simps) (simp add: rbind_def sample_head sample_code sample_tail zeroTotals_def rlift_def, simp add: sampleHead_def)
  then show ?thesis
    unfolding lua_parse_def rbind_def by (simp add: sample_header) (simp add: sampleChunk_def)
qed

definition sampleMarks :: string where
  "sampleMarks = branchMarker @ ''0'' @ branchTail @ ''3'' @ [CHR 0x0A]"
lemma sample_code_fields: "q_code sampleFields =
  [(blankInstr 0x17 0)\<lparr>l_op := 23, l_a := 0, l_c := 0, l_b := 0, l_bx := 0, l_sbx := -131071, l_target := 2\<rparr>,
   (blankInstr 0x80000016 1)\<lparr>l_op := 22, l_a := 0, l_c := 0, l_b := 256, l_bx := 131072, l_sbx := 1, l_target := 3\<rparr>,
   (blankInstr 0x80001e 2)\<lparr>l_op := 30, l_a := 0, l_c := 0, l_b := 1, l_bx := 512, l_sbx := -130559\<rparr>,
   (blankInstr 0x80001e 3)\<lparr>l_op := 30, l_a := 0, l_c := 0, l_b := 1, l_bx := 512, l_sbx := -130559\<rparr>]"
  by (simp add: sampleFields_def wordFields_def blankInstr_def)

lemma sample_marks: "markedBranches sampleMarks = Some [(0, 3)]"
  unfolding sampleMarks_def branchMarker_def branchTail_def by code_simp

lemma sample_other: "\<not> list_ex (\<lambda>m. contains m sampleMarks) otherMarkers"
  unfolding sampleMarks_def branchMarker_def branchTail_def by code_simp

lemma sample_graph: "buildControlFlowGraph sampleFields =
  \<lparr>g_successors = [[3, 2], [3], [], []], g_predecessors = [[], [], [0], [0, 1]]\<rparr>"
  by (simp add: buildControlFlowGraph_def sample_code_fields blankInstr_def addInstruction_def controlSuccessors_def rawSuccessors_def addPredecessor_def Let_def)
lemma sample_region: "findSingleExitDispatcherRegion sampleFields sampleMarks = Some (0, 3)"
proof -
  have cand: "candidateRegions (Suc (Suc (Suc (Suc 0)))) 3 0 = [(0, 3), (0, 4)]" by code_simp
  have "[0..2] = [0 :: int, 1, 2]" by code_simp
  then have "isSingleEntryExitRegion \<lparr>g_successors = [[3, 2], [3], [], []], g_predecessors = [[], [], [0], [0, 1]]\<rparr> 0 3"
    by (auto simp: isSingleEntryExitRegion_def regionEntries_def regionExits_def)
  then show ?thesis
    unfolding findSingleExitDispatcherRegion_def sample_marks sample_graph
    using cand by (simp add: sample_other sample_code_fields)
qed

text \<open>The same prototype as a tree to be encoded.\<close>

definition sampleTree :: chunk_tree where
  "sampleTree = Chunk \<lparr>k_source = None, k_linedefined = 0, k_lastline = 0, k_nups = 0, k_params = 0, k_vararg = 2,
    k_maxstack = 2, k_code = sampleWords, k_constants = [], k_lines = [], k_locals = [], k_upvalues = []\<rparr> []"

lemma sample_assembled: "assemble sampleTree = Inr (LuaProto sampleFields [])"
proof -
  have "headOf 0 (-1) (ck_fields sampleTree) = sampleHead"
    by (simp add: sampleTree_def headOf_def sampleHead_def stringOf_def)
  then have "luaFinish [] ((headOf 0 (-1) (ck_fields sampleTree))\<lparr>q_code := q_code sampleFields, q_constants := [],
      q_constantTable := [], q_lines := [], q_locals := [], q_upvalues := []\<rparr>) = Inr sampleFields"
    using sample_finish by (simp add: sampleHead_def)
  moreover have "length sampleWords = 4" by (simp add: sampleWords_def)
  ultimately show ?thesis
    by (simp add: assemble_def sampleTree_def zeroTotals_def charge_def chargeDebug_def sample_words)
qed

section \<open>Control and registers\<close>

text \<open>
  C5: Control stays on instructions, provided every \<^verbatim>\<open>TFORLOOP\<close> is followed by a \<^verbatim>\<open>JMP\<close>. In such a
  prototype of a chunk that \<^verbatim>\<open>parse\<close> accepts, following \<^verbatim>\<open>controlSuccessors\<close> from the first instruction
  reaches only executed instructions and the end of the code, never the extra word of a \<^verbatim>\<open>SETLIST\<close> or a
  capture binding behind a \<^verbatim>\<open>CLOSURE\<close>. The reader does not check that a \<^verbatim>\<open>JMP\<close> follows, and the claim
  does not speak of chunks where it is missing.
\<close>

theorem lua_control_on_boundaries:
  assumes "lua_parse bs = Inr p" "(f, ups) \<in> set (protosOf p)"
    and "\<forall>k<length (q_code f). l_op (q_code f ! k) = 33 \<longrightarrow> l_op (q_code f ! (k + 1)) = 22"
    and "control_reaches f t"
  shows "t = int (length (q_code f)) \<or>
    0 \<le> t \<and> t < int (length (q_code f)) \<and> \<not> l_extraWord (q_code f ! nat t) \<and>
    l_closureBindingFor (q_code f ! nat t) < 0 \<and> 0 \<le> l_op (q_code f ! nat t) \<and> l_op (q_code f ! nat t) < 38"
proof -
  have acc: "accepted f ups" using parsed_tree(1) [OF assms(1)] assms(2) by (auto simp: list_all_iff)
  then consider "t = int (length (q_code f))" | "boundary (q_code f) t"
    using reaches_boundary [OF assms(4) acc] assms(3) by (auto simp: boundary_or_end_def)
  then show ?thesis
  proof cases
    case 2
    then have "nat t < length (q_code f)" "boundary (q_code f) (int (nat t))" by (auto simp: boundary_def)
    then show ?thesis using executed_checks(1,2) [OF acc] 2 by (simp add: boundary_def unbound_def)
  qed simp
qed

theorem lua_control_on_boundaries_witness:
  "\<not> l_extraWord (q_code sampleFields ! 3) \<and> l_op (q_code sampleFields ! 3) < 38"
proof -
  have edge: "3 \<in> set (controlSuccessors sampleFields (q_code sampleFields ! 0))"
    by (simp add: sample_code_fields blankInstr_def controlSuccessors_def rawSuccessors_def Let_def)
  have "control_reaches sampleFields 0" by (rule control_reaches.intros(1))
  then have "control_reaches sampleFields 3"
    using control_reaches.intros(2) [of sampleFields 0 3] edge by (simp add: sample_code_fields)
  moreover have "\<forall>k<length (q_code sampleFields). l_op (q_code sampleFields ! k) \<noteq> 33"
    by (auto simp: sample_code_fields blankInstr_def less_Suc_eq numeral_eq_Suc)
  moreover have "length (q_code sampleFields) = 4" by (simp add: sample_code_fields)
  ultimately show ?thesis
    using lua_control_on_boundaries [OF sample_parse, of sampleFields "[]" 3] by simp
qed

lemma open_reads_frame:
  assumes acc: "accepted f ups" and k: "k < length (q_code f)" and w: "readsRegister (q_code f ! k) r (int (q_maxstack f))"
    and open_list: "l_op (q_code f ! k) \<in> {28, 29, 30, 34}" "l_b (q_code f ! k) = 0"
  shows "0 \<le> l_a (q_code f ! k) \<and> l_a (q_code f ! k) < int (q_maxstack f) \<and> l_a (q_code f ! k) \<le> r"
proof -
  let ?i = "q_code f ! k"
  have plain: "\<not> l_extraWord ?i" "\<not> 0 \<le> l_closureBindingFor ?i"
    using w open_list by (auto simp: readsRegister_def split: if_splits)
  then have ok: "\<forall>c\<in>set (luaOperands f ups ?i). c = Inr ()"
    using executed_checks(3) [OF acc k] k by (simp add: boundary_def unbound_def)
  have "l_a ?i \<le> r" using w plain open_list by (auto simp: readsRegister_def Let_def)
  moreover have "checkLuaReg f ?i (l_a ?i) ''A'' \<in> set (luaOperands f ups ?i)"
    using open_list(1) unfolding insert_iff empty_iff by (elim disjE) (simp_all add: luaOperands_def Let_def)
  ultimately show ?thesis using ok by (auto simp: checkLuaReg_def res_simps)
qed

text \<open>
  C15: Registers stay in the frame. Every register that \<^verbatim>\<open>writesRegister\<close> attributes to an instruction of
  a parsed chunk is below \<^verbatim>\<open>maxstack\<close>, where the function itself ends an open list of results at
  \<^verbatim>\<open>maxstack\<close>. Every register that \<^verbatim>\<open>readsRegister\<close> attributes to it is below \<^verbatim>\<open>maxstack\<close> too, with two
  exceptions: \<^verbatim>\<open>JMP\<close>, for which the function answers yes for all registers, and an open \<^verbatim>\<open>CALL\<close>,
  \<^verbatim>\<open>TAILCALL\<close>, \<^verbatim>\<open>RETURN\<close> or \<^verbatim>\<open>SETLIST\<close> (B is 0), for which it names all registers from A on, without a
  bound; there A lies in the frame.
\<close>

theorem lua_registers_in_frame:
  assumes "lua_parse bs = Inr p" "(f, ups) \<in> set (protosOf p)" "i \<in> set (q_code f)"
  shows "(writesRegister i r (int (q_maxstack f)) \<longrightarrow> 0 \<le> r \<and> r < int (q_maxstack f)) \<and>
    (readsRegister i r (int (q_maxstack f)) \<longrightarrow> l_op i \<noteq> 22 \<longrightarrow>
       (if l_op i \<in> {28, 29, 30, 34} \<and> l_b i = 0 then 0 \<le> l_a i \<and> l_a i < int (q_maxstack f) \<and> l_a i \<le> r
        else 0 \<le> r \<and> r < int (q_maxstack f)))"
proof -
  have acc: "accepted f ups" using parsed_tree(1) [OF assms(1)] assms(2) by (auto simp: list_all_iff)
  obtain k where k: "k < length (q_code f)" "i = q_code f ! k" using assms(3) by (metis in_set_conv_nth)
  show ?thesis unfolding k(2)
    using writes_frame [OF acc k(1), of r] reads_frame [OF acc k(1), of r] open_reads_frame [OF acc k(1), of r]
    by simp
qed

theorem lua_registers_in_frame_witness:
  "readsRegister (q_code sampleFields ! 0) 0 2 \<and> \<not> readsRegister (q_code sampleFields ! 0) 7 2"
proof -
  have i: "q_code sampleFields ! 0 \<in> set (q_code sampleFields)" "q_maxstack sampleFields = 2" "l_op (q_code sampleFields ! 0) = 23"
    by (simp_all add: sample_code_fields, simp_all add: sampleFields_def sampleHead_def blankInstr_def)
  have "readsRegister (q_code sampleFields ! 0) 0 2"
    by (simp add: sample_code_fields blankInstr_def readsRegister_def Let_def)
  then show ?thesis using lua_registers_in_frame [OF sample_parse _ i(1), of "[]" 7] i(2,3) by auto
qed

text \<open>
  C20: The limits of the reader hold for what it returns. The prototypes are numbered in preorder from
  0, each knows its parent, the nesting is at most 129 deep, and the totals of prototypes,
  instructions, constants and debug entries respect the limits however the input is built.
\<close>

theorem lua_tree_bounded:
  assumes "lua_parse bs = Inr p"
  shows "map (\<lambda>x. q_id (fst x)) (protosOf p) = [0..<length (protosOf p)] \<and> parents_ok p \<and>
    q_parent (lp_fields p) = -1 \<and> proto_depth p \<le> 129 \<and> length (protosOf p) \<le> 100000 \<and>
    weigh (\<lambda>f. length (q_code f)) (protosOf p) \<le> 1000000 \<and>
    weigh (\<lambda>f. length (q_constants f)) (protosOf p) \<le> 1000000 \<and>
    weigh (\<lambda>f. length (q_lines f) + length (q_locals f) + length (q_upvalues f)) (protosOf p) \<le> 1000000"
  using parsed_tree(2-9) [OF assms] unfolding debugSize_def [abs_def] by blast

theorem lua_tree_bounded_witness: "map (\<lambda>x. q_id (fst x)) (protosOf (LuaProto sampleFields [])) = [0]"
  using lua_tree_bounded [OF sample_parse] by simp

section \<open>Reading what was written\<close>

text \<open>
  C40: The reader refines the meaning of a tree of prototypes. Every tree that can be written is read
  back, in either byte order and with either width of \<^verbatim>\<open>size_t\<close>, to exactly what \<open>assemble\<close> makes of the
  tree, which knows nothing of bytes and positions: the same prototypes with their captures and constants,
  or the same message when a limit or a check of the reader fails.
\<close>

theorem lua_reader_refines_tree:
  assumes "sizeT fmt = 4 \<or> sizeT fmt = 8" "writable d"
  shows "lua_parse (writeChunk fmt d) = assemble d"
  using assms by (rule parsed_writeChunk)

theorem lua_reader_refines_tree_witness:
  "lua_parse (writeChunk \<lparr>little = False, sizeT = 8\<rparr> sampleTree) = Inr (LuaProto sampleFields [])"
  using lua_reader_refines_tree [of "\<lparr>little = False, sizeT = 8\<rparr>" sampleTree] sample_assembled
  by (simp add: sampleTree_def writable_fields_def writable_string_def sampleWords_def)

section \<open>Regions\<close>

text \<open>
  C25: Whatever region \<^verbatim>\<open>findSingleExitDispatcherRegion\<close> returns for a prototype of a parsed chunk, the
  generated text marks at least one branch, all marked branches lie in the region and have one target,
  which is not behind its end, and the region is closed: no edge of the control flow enters it except at
  its first instruction or leaves it except to the instruction behind it, and one edge does leave it.
\<close>

theorem dispatcher_region_closed:
  assumes "lua_parse bs = Inr p" "(f, ups) \<in> set (protosOf p)"
    and "findSingleExitDispatcherRegion f source = Some (begin, end)"
  shows "\<exists>branches exit. markedBranches source = Some branches \<and> branches \<noteq> [] \<and>
    (\<forall>b\<in>set branches. begin \<le> fst b \<and> fst b < end \<and> snd b = exit) \<and> exit \<le> end \<and> end - begin \<le> 512 \<and>
    closed_region f begin end"
proof -
  have "accepted f ups" using parsed_tree(1) [OF assms(1)] assms(2) by (auto simp: list_all_iff)
  then have "\<forall>k<length (q_code f). l_pc (q_code f ! k) = int k" using layoutD(1) accepted_code(1) by blast
  then show ?thesis by (rule found_region) (rule assms(3))
qed

theorem dispatcher_region_closed_witness: "closed_region sampleFields 0 3"
  using dispatcher_region_closed [OF sample_parse _ sample_region, of "[]"] by auto

section \<open>The dispatcher\<close>

text \<open>
  C16: The emitted dispatcher follows the control flow, provided every conditional of the prototype (\<^verbatim>\<open>EQ\<close>,
  \<^verbatim>\<open>LT\<close>, \<^verbatim>\<open>LE\<close>, \<^verbatim>\<open>TEST\<close>, \<^verbatim>\<open>TESTSET\<close>, \<^verbatim>\<open>TFORLOOP\<close>) is followed by its \<^verbatim>\<open>JMP\<close> and the range begins at an
  instruction and ends at one or at the end of the code. Its text is the binary search over the blocks, and
  in a run of the emitted loop over the range the control variable takes exactly the values that are
  reached along \<^verbatim>\<open>controlSuccessors\<close> inside the range and either start a block or leave the range. The reader
  does not check that the jumps follow, and the claim does not speak of chunks where one is missing.
\<close>

theorem lua_dispatcher_follows_control:
  assumes "lua_parse bs = Inr p" "(f, ups) \<in> set (protosOf p)" "jumps_follow f"
    and "boundary (q_code f) lo" "boundary_or_end (q_code f) hi" "lo < hi"
  shows "(dispatcher_reaches f cs indent ctx lo hi t \<longleftrightarrow>
      control_in f lo hi t \<and> (t \<in> set (dispatchStarts f lo hi) \<or> \<not> (lo \<le> t \<and> t < hi))) \<and>
    (\<exists>before behind. emitPcDispatcherRange f cs indent ctx lo hi = before @
      (let blocks = dispatchBlocks (dispatchStarts f lo hi) hi; name = dispatcherPcName f ctx in
       printTree (\<lambda>n level. fst (emitPcBlock f cs (blocks ! n) level ctx name)) name (indent + 4)
         (dispatchTree blocks 0 (length blocks))) @ behind)"
proof -
  have acc: "accepted f ups" using parsed_tree(1) [OF assms(1)] assms(2) by (auto simp: list_all_iff)
  show ?thesis
    using dispatcher_follows [OF acc assms(3-6)] dispatcher_text [OF assms(4-6)] by blast
qed

theorem lua_dispatcher_follows_control_witness:
  "dispatcher_reaches sampleFields [] 0 \<lparr>rc_capturedUpvalues = [], rc_capturedUpvalueCells = [], rc_stateMachine = True\<rparr> 0 4 3"
proof -
  have len: "length (q_code sampleFields) = 4" by (simp add: sample_code_fields)
  have ops: "l_op (q_code sampleFields ! 0) = 23" "l_op (q_code sampleFields ! 1) = 22" "l_op (q_code sampleFields ! 2) = 30"
    "l_op (q_code sampleFields ! 3) = 30" by (simp_all add: sample_code_fields blankInstr_def)
  have follow: "jumps_follow sampleFields"
    using ops by (auto simp: jumps_follow_def len less_Suc_eq numeral_eq_Suc)
  have b: "boundary (q_code sampleFields) 0" "boundary_or_end (q_code sampleFields) 4"
    by (simp_all add: boundary_or_end_def boundary_def unbound_def sample_code_fields blankInstr_def)
  have edge: "3 \<in> set (controlSuccessors sampleFields (instrAt sampleFields 0))"
    by (simp add: instrAt_def sample_code_fields blankInstr_def controlSuccessors_def rawSuccessors_def Let_def)
  have c: "control_in sampleFields 0 4 3" using control_in.intros(2) [OF control_in.intros(1) _ _ edge] by simp
  have "isLeader sampleFields 0 4 3" by (simp add: isLeader_def instrAt_def sample_code_fields blankInstr_def)
  moreover have "3 \<in> set (leaderTargets sampleFields (instrAt sampleFields 1))"
    by (simp add: instrAt_def sample_code_fields blankInstr_def leaderTargets_def)
  ultimately have "3 \<in> set (dispatchStarts sampleFields 0 4)"
    unfolding starts_props(3) by (intro disjI2 conjI exI [of _ 1]) simp_all
  then show ?thesis
    using lua_dispatcher_follows_control [OF sample_parse _ follow b] c by simp
qed

section \<open>Text\<close>

text \<open>
  C27: \<^verbatim>\<open>luaQuote\<close> of any byte strings, written one behind the other with commas, is read back by the
  literal lexer \<^verbatim>\<open>stringsInSource\<close> as exactly these strings.
\<close>

theorem lua_quotes_read_back:
  "map lit_value (stringsInSource (join '', '' (map luaQuote ss))) = ss"
  by (simp add: stringsInSource_def stringsFrom_quotes)

text \<open>
  The JSON report of every chunk that is parsed is one JSON value and a line break, whatever bytes
  its names, strings and constants have.
\<close>

theorem lua_json_is_json:
  assumes "lua_parse bs = Inr p"
  shows "\<exists>t. lua_json p = t @ newline \<and> json t"
  using assms by (rule parsed_json)

theorem lua_json_is_json_witness: "\<exists>t. lua_json (LuaProto sampleFields []) = t @ newline \<and> json t"
  using lua_json_is_json [OF sample_parse] .

end
