(* ===== verification/Lua51_Walk.thy ===== *)
theory Lua51_Walk
  imports Lua51_Range Lua51_Accept
begin

text \<open>
  The structured writer of \<open>Lua51_Range\<close> ends: every range that a shape writes is smaller than the range
  it is found in, in an order on the start, the end and the continue target of ranges, and a range is
  walked over in as many steps as it has positions. So the bound on the steps in \<open>emitRange\<close> is never
  reached.
\<close>

section \<open>Ranges in a shape are smaller\<close>

definition targets_in_code :: "lua_fields \<Rightarrow> bool" where
  "targets_in_code f \<longleftrightarrow> (\<forall>pc. 0 \<le> pc \<and> pc < codeSize f \<longrightarrow> targetAt f pc \<le> codeSize f)"

definition smaller :: "lua_fields \<Rightarrow> range \<Rightarrow> range \<Rightarrow> bool" where
  "smaller f r s \<longleftrightarrow> rg_end s \<le> codeSize f \<and>
    (rg_begin s > rg_begin r \<or>
     rg_begin s = rg_begin r \<and> rg_end s < rg_end r \<or>
     rg_begin s = rg_begin r \<and> rg_end s \<le> rg_end r \<and> rg_continue r \<noteq> rg_begin r \<and> rg_continue s = rg_begin s)"

primrec inside :: "lua_fields \<Rightarrow> range \<Rightarrow> piece \<Rightarrow> bool" where
  "inside f r (Line l) \<longleftrightarrow> True"
| "inside f r (Sub s) \<longleftrightarrow> smaller f r s"

text \<open>A position that the walk over a range has reached.\<close>

definition walked :: "lua_fields \<Rightarrow> range \<Rightarrow> int \<Rightarrow> bool" where
  "walked f r pc \<longleftrightarrow> 0 \<le> rg_begin r \<and> rg_begin r \<le> pc \<and> pc < rg_end r \<and> rg_end r \<le> codeSize f"

lemmas walkedD = walked_def [THEN iffD1]

lemma inside_part [simp]:
  "inside f r (part r first end d allow) \<longleftrightarrow>
     end \<le> codeSize f \<and> (rg_begin r < first \<or> first = rg_begin r \<and> end < rg_end r)"
  by (auto simp: part_def smaller_def)

lemma inside_lines [simp]: "inside f r (say_line d s)" "inside f r (assign_line d s t)" "inside f r (guardTest f' c d p)"
  by (simp_all add: say_line_def assign_line_def guardTest_def)

lemma inside_testset [simp]: "inside f r (testsetAssign f' i c d)" by (simp add: testsetAssign_def)

lemma inside_loop_body [simp]:
  "inside f r (loop_body first end d allow b c g) \<longleftrightarrow>
     end \<le> codeSize f \<and> (rg_begin r < first \<or> first = rg_begin r \<and> end < rg_end r \<or>
       first = rg_begin r \<and> end \<le> rg_end r \<and> rg_continue r \<noteq> rg_begin r \<and> c = first)"
  by (auto simp: loop_body_def smaller_def)

lemma inside_setFlag [simp]: "list_all (inside f r) (setFlag r' d)" by (simp add: setFlag_def)

lemma inside_subpart: "rg_begin r < first \<Longrightarrow> end \<le> codeSize f \<Longrightarrow> list_all (inside f r) (subpart r first end d)"
  by (simp add: subpart_def)

lemma targetAt_le: "targets_in_code f \<Longrightarrow> 0 \<le> pc \<Longrightarrow> pc < codeSize f \<Longrightarrow> targetAt f pc \<le> codeSize f"
  by (simp add: targets_in_code_def)

section \<open>Loops\<close>

lemma repeatScan_range:
  assumes "fold (repeatScan f first) ks (-1, -1, True) = (start, latch, unique)" "start \<ge> 0"
  shows "first \<le> start \<and> start < latch \<and> latch \<in> set ks"
proof -
  let ?P = "\<lambda>s :: int \<times> int \<times> bool. fst s \<ge> 0 \<longrightarrow> first \<le> fst s \<and> fst s < fst (snd s) \<and> fst (snd s) \<in> set ks"
  have "?P (fold (repeatScan f first) ks (-1, -1, True))"
  proof (rule fold_invariant [where Q = "\<lambda>x. x \<in> set ks"])
    fix x s assume "x \<in> set ks" "?P s"
    then show "?P (repeatScan f first x s)"
      by (cases s) (auto simp: repeatScan_def Let_def)
  qed simp_all
  then show ?thesis using assms by simp
qed

lemma planRepeatEntry_inside:
  assumes "planRepeatEntry f context r pc = Some (ps, q)" "walked f r pc"
  shows "list_all (inside f r) ps"
proof -
  obtain start latch unique where scan: "repeatLatch f (rg_begin r) (rg_end r) = (start, latch, unique)" by (metis prod_cases3)
  have pc: "pc = rg_begin r" and start: "start \<ge> 0" using assms(1) scan by (auto simp: planRepeatEntry_def split: if_splits)
  obtain u where "fold (repeatScan f (rg_begin r)) [rg_begin r..rg_end r - 2] (-1, -1, True) = (start, latch, u)"
    using scan by (auto simp: repeatLatch_def split: prod.splits)
  from repeatScan_range [OF this start] have "rg_begin r \<le> start" "start < latch" "latch < rg_end r" by auto
  then show ?thesis using assms scan by (auto simp: planRepeatEntry_def smaller_def walked_def split: if_splits)
qed

lemma loopEndOf_le: "loopEndOf f pc end behind \<le> end"
proof -
  have "fold (\<lambda>scan loopEnd. let t = loopBranchTarget f (instrAt f scan) in if t > behind then min loopEnd t else loopEnd) ks e \<le> e"
    for ks e
    by (induction ks arbitrary: e) (simp_all add: Let_def, meson min.cobounded1 order_trans)
  then show ?thesis by (simp add: loopEndOf_def)
qed

lemma planInfiniteLoop_inside:
  assumes "planInfiniteLoop f r pc = Some (ps, q)" "walked f r pc"
  shows "list_all (inside f r) ps"
  using assms order_trans [OF loopEndOf_le]
  by (auto simp: planInfiniteLoop_def walked_def Let_def loopEndOf_le split: if_splits)

lemma planGlobalCall_inside: "planGlobalCall f context r pc = Some (ps, q) \<Longrightarrow> list_all (inside f r) ps"
  by (auto simp: planGlobalCall_def Let_def split: if_splits)

lemma planForBody_inside: "walked f r pc \<Longrightarrow> bodyEnd \<le> codeSize f \<Longrightarrow> list_all (inside f r) (planForBody f context r pc bodyEnd b)"
  by (auto simp: planForBody_def Let_def smaller_def walked_def)

lemma loopCell_inside [simp]: "list_all (inside f r) (loopCell f' context d x at)"
  by (simp add: loopCell_def)

lemma list_all_concat_map: "list_all P (concat (map g xs)) \<longleftrightarrow> (\<forall>x\<in>set xs. list_all P (g x))"
  by (auto simp: list_all_iff)

lemma planNumericFor_inside:
  assumes "planNumericFor f context r pc = Some (ps, q)" "walked f r pc"
  shows "list_all (inside f r) ps"
  using assms planForBody_inside [OF assms(2)] by (auto simp: planNumericFor_def Let_def split: if_splits)

lemma planGenericFor_inside:
  assumes "planGenericFor f context r pc = Some (ps, q)" "walked f r pc"
  shows "list_all (inside f r) ps"
  using assms planForBody_inside [OF assms(2)]
  by (auto simp: planGenericFor_def Let_def list_all_concat_map split: if_splits)

lemma planLoopExit_inside: "planLoopExit f context r pc = Some (ps, q) \<Longrightarrow> list_all (inside f r) ps"
  by (auto simp: planLoopExit_def Let_def split: if_splits)

lemma planLoopContinue_inside:
  "planLoopContinue f context r pc = Some (ps, q) \<Longrightarrow> walked f r pc \<Longrightarrow> list_all (inside f r) ps"
  by (auto simp: planLoopContinue_def Let_def walked_def split: if_splits)

lemma planJump_inside: "planJump f r pc = Some (ps, q) \<Longrightarrow> list_all (inside f r) ps"
  by (auto simp: planJump_def Let_def split: if_splits)

lemma planRepeat_inside:
  "planRepeat f context r pc = Some (ps, q) \<Longrightarrow> walked f r pc \<Longrightarrow> list_all (inside f r) ps"
  by (auto simp: planRepeat_def Let_def walked_def smaller_def split: if_splits)

lemma planWhile_inside:
  "planWhile f context r pc = Some (ps, q) \<Longrightarrow> walked f r pc \<Longrightarrow> list_all (inside f r) ps"
  by (auto simp: planWhile_def Let_def walked_def smaller_def split: if_splits)

section \<open>Guards and conditions\<close>

lemma gapEnd_ge: "first \<le> gapEnd ok f limit end first"
  by (simp add: gapEnd_def)

lemma conditionJump_end: "conditionJump f end pc \<Longrightarrow> pc + 1 < end"
  by (simp add: conditionJump_def)

lemma testsetJump_end: "testsetJump f end pc \<Longrightarrow> pc + 1 < end"
  by (simp add: testsetJump_def)

lemma collectGuards_range:
  assumes "g \<in> set (collectGuards same f end count cursor)"
  shows "cursor \<le> sg_pc g \<and> sg_pc g + 1 < end \<and> sg_gapBegin g = sg_pc g + 2 \<and> sg_gapEnd g \<le> end"
  using assms
proof (induction same f "end" count cursor rule: collectGuards.induct)
  case (2 same f "end" count cursor)
  let ?next = "gapEnd guardedGapSafe f 16 end (cursor + 2)"
  have "cursor + 2 \<le> ?next" by (rule gapEnd_ge)
  then show ?case using 2 conditionJump_end [of f "end" cursor] conditionJump_end [of f "end" ?next]
    by (fastforce simp: Let_def split: if_splits)
qed simp

lemma guardGap_inside:
  assumes "walked f r pc" "g \<in> set (collectGuards same f' (rg_end r) count pc)"
  shows "list_all (inside f r) (guardGap r d g)"
  using collectGuards_range [OF assms(2)] assms(1) by (auto simp: guardGap_def walked_def)

lemma nth_in_guards: "k < length gs - 1 \<or> k < length gs \<Longrightarrow> gs ! k \<in> set gs" by auto

lemma planSharedReturn_inside:
  assumes "planSharedReturn f context r pc = Some (ps, q)" and w: "walked f r pc"
  shows "list_all (inside f r) ps"
proof -
  define gs where "gs = collectGuards (\<lambda>_. True) f (rg_end r) 8 pc"
  have valid: "sharedReturnValid f r pc gs"
    using assms(1) by (auto simp: planSharedReturn_def gs_def Let_def split: if_splits)
  then have "gs \<noteq> []" by (auto simp: sharedReturnValid_def Let_def)
  then have final: "last gs \<in> set gs" by simp
  then have at: "pc \<le> sg_pc (last gs)" using collectGuards_range unfolding gs_def by blast
  have gap: "list_all (inside f r) (guardGap r d g)" if "g \<in> set gs" for d g
    using guardGap_inside [OF w] that unfolding gs_def by blast
  show ?thesis
    using assms(1) valid w at gap [OF final] gap [OF nth_in_guards]
    by (auto simp: planSharedReturn_def Let_def gs_def [symmetric] list_all_concat_map sharedReturnValid_def walked_def
      split: if_splits)
qed

lemma planSharedBody_inside:
  assumes "planSharedBody f context r pc = Some (ps, q)" and w: "walked f r pc"
  shows "list_all (inside f r) ps"
proof -
  define gs where "gs = collectGuards (\<lambda>t. t = targetAt f (pc + 1)) f (rg_end r) 8 pc"
  have valid: "sharedBodyValid f r pc gs"
    using assms(1) by (auto simp: planSharedBody_def gs_def Let_def split: if_splits)
  then have "gs \<noteq> []" by (auto simp: sharedBodyValid_def Let_def)
  then have final: "last gs \<in> set gs" by simp
  then have at: "pc \<le> sg_pc (last gs)" using collectGuards_range unfolding gs_def by blast
  have gap: "list_all (inside f r) (guardGap r d g)" if "g \<in> set gs" for d g
    using guardGap_inside [OF w] that unfolding gs_def by blast
  show ?thesis
    using assms(1) valid w at gap [OF nth_in_guards]
    by (auto simp: planSharedBody_def Let_def gs_def [symmetric] list_all_concat_map sharedBodyValid_def walked_def list.pred_map
      list.pred_True comp_def split: if_splits)
qed

lemma planBooleanFold_inside: "planBooleanFold f context r pc = Some (ps, q) \<Longrightarrow> list_all (inside f r) ps"
  by (auto simp: planBooleanFold_def Let_def split: if_splits)

lemma planBooleanReturn_inside:
  "planBooleanReturn f context r pc = Some (ps, q) \<Longrightarrow> walked f r pc \<Longrightarrow> list_all (inside f r) ps"
  by (auto simp: planBooleanReturn_def booleanReturnTail_def walked_def Let_def split: if_splits)

lemma conditionChain_range: "t \<in> set (conditionChain f end cursor) \<Longrightarrow> cursor \<le> t \<and> t + 1 < end"
proof (induction f "end" cursor rule: conditionChain.induct)
  case (1 f "end" cursor)
  then show ?case using conditionJump_end [of f "end" cursor]
    by (subst (asm) (2) conditionChain.simps) (fastforce split: if_splits)
qed

lemma planAndChain_inside:
  assumes "planAndChain f context r pc = Some (ps, q)" "walked f r pc"
  shows "list_all (inside f r) ps"
proof -
  let ?chain = "conditionChain f (rg_end r) pc"
  have "?chain \<noteq> []" using assms(1) by (auto simp: planAndChain_def Let_def split: if_splits)
  then have "pc \<le> last ?chain" using conditionChain_range [OF last_in_set] by blast
  then show ?thesis using assms by (auto simp: planAndChain_def Let_def walked_def split: if_splits)
qed

lemma planOrChain_inside:
  assumes "planOrChain f context r pc = Some (ps, q)" "walked f r pc"
  shows "list_all (inside f r) ps"
proof -
  let ?chain = "conditionChain f (rg_end r) pc"
  obtain k where k: "find (orChainAt f r ?chain) [1..<length ?chain] = Some k"
    using assms(1) by (auto simp: planOrChain_def Let_def split: option.splits)
  then have "k < length ?chain" "orChainAt f r ?chain k" by (auto simp: find_Some_iff)
  moreover then have "pc \<le> ?chain ! k" using conditionChain_range [OF nth_mem] by blast
  ultimately show ?thesis using assms k by (auto simp: planOrChain_def orChainAt_def Let_def walked_def)
qed

lemma seekCondition_range: "seekCondition f end first = Some s \<Longrightarrow> first \<le> s \<and> s + 1 < end"
  using gapEnd_ge conditionJump_end by (fastforce simp: seekCondition_def Let_def split: if_splits)

lemma guardedCandidates_range:
  assumes "guardedCandidates f end count cp prefix j = Some (cs, joinPc, fb)"
  shows "cp < fb \<and> joinPc \<le> end \<and> (\<forall>k<length cs. cp \<le> gc_primaryPc (cs ! k) \<and> gc_primaryPc (cs ! k) + 1 < end \<and>
    gc_secondaryPc (cs ! k) + 1 < end \<and> (k > 0 \<longrightarrow> cp < gc_prefixBegin (cs ! k)))"
  using assms
proof (induction f "end" count cp prefix j arbitrary: cs rule: guardedCandidates.induct)
  case (2 f "end" count cp prefix j)
  have jump: "conditionJump f end cp" using 2(2) by (auto split: if_splits)
  obtain s where s: "seekCondition f end (cp + 2) = Some s" using 2(2) jump by (auto split: option.splits if_splits)
  note s_range = seekCondition_range [OF s] conditionJump_end [OF jump]
  show ?case
  proof (cases "seekCondition f end (s + 2)")
    case None
    then show ?thesis using 2(2) jump s s_range by (auto simp: Let_def split: if_splits)
  next
    case (Some n)
    note n_range = seekCondition_range [OF Some]
    obtain cs' where rest: "guardedCandidates f end count n (s + 2) (chainTarget f s) = Some (cs', joinPc, fb)"
      and cs: "cs = \<lparr>gc_primaryPc = cp, gc_prefixBegin = prefix, gc_secondaryPc = s, gc_nextBegin = s + 2\<rparr> # cs'"
      and ok: "\<not> (chainTarget f cp \<noteq> s + 2 \<or> chainTarget f s \<le> s + 2 \<or> chainTarget f s > end \<or> j \<ge> 0 \<and> j \<noteq> chainTarget f s)"
      using 2(2) jump s Some by (auto simp: Let_def split: if_splits option.splits)
    have head: "gc_prefixBegin (cs' ! 0) = s + 2" if "cs' \<noteq> []"
      using rest that by (cases count) (auto simp: Let_def split: if_splits option.splits)
    note ih = 2(1) [OF _ s refl refl refl refl ok Some rest]
    show ?thesis
    proof (intro conjI allI impI)
      fix k assume "k < length cs"
      then show "cp \<le> gc_primaryPc (cs ! k)" "gc_primaryPc (cs ! k) + 1 < end" "gc_secondaryPc (cs ! k) + 1 < end"
        "0 < k \<Longrightarrow> cp < gc_prefixBegin (cs ! k)"
        using ih jump s_range n_range head unfolding cs by (cases k; force simp: neq_Nil_conv)+
    qed (use ih jump s_range n_range in auto)
  qed
qed simp

lemma candidateText_inside:
  assumes "walked f r pc" "pc \<le> gc_primaryPc c" "gc_primaryPc c + 1 < rg_end r" "gc_secondaryPc c + 1 < rg_end r"
    "later \<Longrightarrow> pc < gc_prefixBegin c"
  shows "list_all (inside f r) (candidateText f' context r flag later c)"
  using assms by (auto simp: candidateText_def subpart_def walked_def Let_def)

lemma planGuardedCandidates_inside:
  assumes "planGuardedCandidates f context r pc = Some (ps, q)" and w: "walked f r pc"
  shows "list_all (inside f r) ps"
proof -
  obtain cs joinPc fb where found: "guardedCandidates f (rg_end r) 128 pc pc (-1) = Some (cs, joinPc, fb)"
    and jump: "conditionJump f (rg_end r) pc"
    using assms(1) by (auto simp: planGuardedCandidates_def simp del: guardedCandidates.simps split: option.splits if_splits)
  note range = guardedCandidates_range [OF found]
  have "list_all (inside f r) (candidateText f context r flag (k > 0) (cs ! k))" if "k < length cs" for k flag
    by (rule candidateText_inside [OF w]) (use range that in auto)
  then show ?thesis using assms found jump range
    by (auto simp: planGuardedCandidates_def subpart_def walked_def list_all_concat_map Let_def
      simp del: guardedCandidates.simps split: if_splits)
qed

lemma separatedTests_range:
  assumes "(g, t) \<in> set (separatedTests f end count cursor saw)"
  shows "cursor \<le> g \<and> g \<le> t \<and> t + 1 < end"
  using assms
proof (induction f "end" count cursor saw rule: separatedTests.induct)
  case (2 f "end" count cursor saw)
  let ?t = "gapEnd straightLineConditionGap f 16 end cursor"
  have "cursor \<le> ?t" by (rule gapEnd_ge)
  then show ?case using 2 conditionJump_end [of f "end" ?t] by (fastforce simp: Let_def split: if_splits)
qed simp

lemma orAndText_inside:
  assumes "\<And>k. k < length gaps \<Longrightarrow> rg_begin r < fst (gaps ! k) \<and> snd (gaps ! k) \<le> codeSize f"
    "length tests = Suc (length gaps)" "gaps \<noteq> []"
  shows "list_all (inside f r) (orAndText f' context r flag tests gaps)"
  using assms by (auto simp: orAndText_def Let_def list_all_concat_map list.pred_map comp_def list.pred_True)

lemma orPrefixText_inside:
  assumes "\<And>k. k < length gaps \<Longrightarrow> rg_begin r < fst (gaps ! k) \<and> snd (gaps ! k) \<le> codeSize f"
    "length tests = Suc (length gaps)"
  shows "list_all (inside f r) (orPrefixText f' context r flag tests gaps)"
  using assms by (auto simp: orPrefixText_def Let_def list_all_concat_map list.pred_map comp_def list.pred_True)

lemma separatedArms_resume: "separatedArms f r tests = (resume, True, returns) \<Longrightarrow> resume \<le> rg_end r"
  by (auto simp: separatedArms_def Let_def split: if_splits)

lemma planSeparated_inside:
  assumes "planSeparated f context r pc = Some (ps, q)" and w: "walked f r pc"
  shows "list_all (inside f r) ps"
proof -
  define gaps where "gaps = separatedTests f (rg_end r) 8 (pc + 2) False"
  define tests where "tests = pc # map snd gaps"
  obtain resume hasElse returns where arms: "separatedArms f r tests = (resume, hasElse, returns)" by (metis prod_cases3)
  have range: "pc + 2 \<le> fst x \<and> fst x \<le> snd x \<and> snd x + 1 < rg_end r" if "x \<in> set gaps" for x
    using separatedTests_range [of "fst x" "snd x"] that unfolding gaps_def by simp
  have "gaps \<noteq> []" and kind: "separatedOrPrefix f r tests \<or> separatedOrAnd f r tests"
    using assms(1) arms by (auto simp: planSeparated_def gaps_def tests_def Let_def split: if_splits)
  then have "last gaps \<in> set gaps" "last tests = snd (last gaps)" by (simp_all add: tests_def last_map)
  then have final: "pc < last tests" using range by fastforce
  have joinPc: "last tests + 2 < chainTarget f (last tests)" "chainTarget f (last tests) \<le> rg_end r"
    using kind by (auto simp: separatedOrPrefix_def separatedOrAnd_def Let_def)
  have gap: "k < length gaps \<Longrightarrow> rg_begin r < fst (gaps ! k) \<and> snd (gaps ! k) \<le> codeSize f" for k
    using range [OF nth_mem, of k] w by (auto simp: walked_def)
  note texts = orAndText_inside [OF gap] orPrefixText_inside [OF gap]
  have len: "length tests = Suc (length gaps)" by (simp add: tests_def)
  show ?thesis
    using assms(1) w final joinPc arms separatedArms_resume [of f r tests resume] len \<open>gaps \<noteq> []\<close>
    by (auto simp: planSeparated_def gaps_def [symmetric] tests_def [symmetric] walked_def subpart_def texts Let_def
      split: if_splits)
qed

section \<open>Tests with one exit\<close>

lemma exitGapEnd_ge: "cursor \<le> exitGapEnd f end j g cursor"
proof (induction f "end" j g cursor rule: exitGapEnd.induct)
  case (1 f "end" j g cursor)
  then show ?case by (subst exitGapEnd.simps) (auto simp del: not_le split: if_splits)
qed

lemma exitTests_range:
  assumes "(t, gap) \<in> set (exitTests f end j count cursor)"
  shows "cursor \<le> t \<and> t + 1 < end \<and> (case gap of None \<Rightarrow> True | Some (g, u) \<Rightarrow> cursor < g \<and> u < end)"
  using assms
proof (induction f "end" j count cursor rule: exitTests.induct)
  case (2 f "end" j count cursor)
  let ?u = "exitGapEnd f end j (cursor + 2) (cursor + 2)"
  have "cursor + 2 \<le> ?u" by (rule exitGapEnd_ge)
  then show ?case using 2 conditionJump_end [of f "end" ?u] conditionJump_end [of f "end" cursor]
    by (fastforce simp: Let_def split: if_splits option.splits)
qed simp

lemma directReturnTarget_range:
  "directReturnTarget f end j pc \<ge> 0 \<Longrightarrow> j < directReturnTarget f end j pc \<and> directReturnTarget f end j pc < end"
  by (auto simp: directReturnTarget_def split: if_splits)

lemma guardGapText_inside:
  assumes "rg_begin r < cursor" "rg_begin r < scan" "rg_begin r \<le> j" "end \<le> codeSize f" "rg_end r \<le> codeSize f"
  shows "list_all (inside f r) (guardGapText f context r j d end scan cursor)"
  using assms
proof (induction f "context" r j d "end" scan cursor rule: guardGapText.induct)
  case (1 f "context" r j d "end" scan cursor)
  let ?t = "directReturnTarget f (rg_end r) j scan"
  have t: "\<not> ?t < 0 \<Longrightarrow> j < ?t \<and> ?t < rg_end r" using directReturnTarget_range by force
  show ?case using 1 t by (subst guardGapText.simps) (auto simp: Let_def subpart_def)
qed

lemma planCommonExit_inside:
  assumes "planCommonExit f context r pc = Some (ps, q)" and w: "walked f r pc"
  shows "list_all (inside f r) ps"
proof -
  define x where "x = exitShape f (rg_end r) pc"
  have ok: "commonGuardExit f (rg_end r) x pc"
    using assms(1) by (auto simp: planCommonExit_def x_def Let_def split: if_splits)
  define found where "found = exitTests f (rg_end r) (chainTarget f pc) 128 pc"
  have tests: "ex_tests x = map fst found" and joinPc: "ex_join x = chainTarget f pc"
    and gaps: "ex_gaps x = concat (map (\<lambda>(t, gap). case gap of None \<Rightarrow> [] | Some g \<Rightarrow> [g]) found)"
    by (simp_all add: x_def exitShape_def found_def Let_def)
  have "ex_tests x \<noteq> []" using ok by (auto simp: commonGuardExit_def)
  then have "last (ex_tests x) \<in> fst ` set found" using tests by (metis last_in_set set_map)
  then have final: "pc \<le> last (ex_tests x)" using exitTests_range unfolding found_def by fastforce
  have ends: "ex_bodyBegin x \<le> ex_bodyEnd x" "ex_handledEnd x \<le> rg_end r" using ok by (auto simp: commonGuardExit_def)
  have resume: "ex_elseResume x > ex_join x" if "ex_elseTail x"
    using that by (auto simp: ex_elseTail_def x_def exitShape_def Let_def split: if_splits)
  have body: "ex_bodyEnd x \<le> ex_join x" "ex_join x \<le> ex_handledEnd x"
    using resume by (auto simp: ex_bodyEnd_def ex_handledEnd_def)
  have gap: "rg_begin r < fst g \<and> snd g < rg_end r" if "g \<in> set (ex_gaps x)" for g
  proof -
    obtain t where "(t, Some g) \<in> set found" using \<open>g \<in> set (ex_gaps x)\<close> gaps by (auto split: option.splits)
    then show ?thesis using exitTests_range [of t "Some g" f "rg_end r" "chainTarget f pc" 128 pc] w
      unfolding found_def by (cases g) (auto simp: walked_def simp del: exitTests.simps)
  qed
  have gap_text: "list_all (inside f r) (guardGapText f context r (ex_join x) d (snd (ex_gaps x ! k)) (fst (ex_gaps x ! k)) (fst (ex_gaps x ! k)))"
    if "k < length (ex_gaps x)" for d k
    using gap [OF nth_mem [OF that]] w ends body final
    by (intro guardGapText_inside) (auto simp: walked_def ex_bodyBegin_def)
  have resume_end: "ex_elseTail x \<Longrightarrow> ex_elseResume x \<le> rg_end r" using ends(2) by (auto simp: ex_handledEnd_def ex_elseTail_def)
  show ?thesis
    using assms(1) w final ends body gap_text resume_end
    by (auto simp: planCommonExit_def x_def [symmetric] walked_def list_all_concat_map list.pred_map comp_def list.pred_True
      ex_bodyBegin_def Let_def split: if_splits)
qed

section \<open>If and the branches out of the range\<close>

lemma planEscape_inside:
  "planEscape f context r pc = Some (ps, q) \<Longrightarrow> walked f r pc \<Longrightarrow> list_all (inside f r) ps"
  by (auto simp: planEscape_def exitsRangeText_def walked_def Let_def split: if_splits)

lemma planTestset_inside:
  assumes "planTestset f context r pc = Some (ps, q)" "walked f r pc" "targets_in_code f"
  shows "list_all (inside f r) ps"
  using assms targetAt_le [of f "pc + 1"] testsetJump_end [of f "rg_end r" pc]
  by (auto simp: planTestset_def walked_def Let_def split: if_splits)

lemma onlyTarget_mem: "onlyTarget ts = Some t \<Longrightarrow> t \<in> set ts"
  by (auto simp: onlyTarget_def split: list.splits if_splits)

lemma sharedElse_end: "sharedElse f end pc = Some s \<Longrightarrow> s < end"
  by (auto simp: sharedElse_def Let_def split: option.splits if_splits)

lemma sharedContinuation_end: "sharedContinuation f end pc joinPc = Some s \<Longrightarrow> s < end"
  by (auto simp: sharedContinuation_def Let_def split: option.splits if_splits)

lemma ifArms_le:
  assumes "ifArms f pc = (trueEnd, joinPc)" "targets_in_code f" "0 \<le> pc" "targetAt f (pc + 1) \<le> codeSize f"
  shows "trueEnd \<le> codeSize f \<and> joinPc \<le> codeSize f"
  using assms targetAt_le [of f "targetAt f (pc + 1) - 1"]
  by (auto simp: ifArms_def Let_def split: if_splits)

lemma ifRanges_le:
  assumes "ifRanges f end pc = (trueEnd, joinPc)" "targets_in_code f" "0 \<le> pc" "targetAt f (pc + 1) \<le> codeSize f" "end \<le> codeSize f"
  shows "trueEnd \<le> codeSize f \<and> joinPc \<le> codeSize f"
proof -
  obtain t j where "ifArms f pc = (t, j)" by fastforce
  from ifArms_le [OF this assms(2-4)] this assms(1,5) show ?thesis
    using sharedElse_end [of f "end" pc] sharedContinuation_end [of f "end" pc]
    by (fastforce simp: ifRanges_def Let_def split: if_splits option.splits)
qed

lemma planIf_inside:
  assumes "planIf f context r pc = Some (ps, q)" and w: "walked f r pc" and t: "targets_in_code f"
  shows "list_all (inside f r) ps"
proof -
  obtain trueEnd joinPc where ranges: "ifRanges f (rg_end r) pc = (trueEnd, joinPc)" by fastforce
  have jump: "conditionJump f (rg_end r) pc" using assms(1) by (auto simp: planIf_def split: if_splits)
  have "targetAt f (pc + 1) \<le> codeSize f"
    using targetAt_le [OF t, of "pc + 1"] conditionJump_end [OF jump] w by (auto simp: walked_def)
  from ifRanges_le [OF ranges t _ this] have "trueEnd \<le> codeSize f \<and> joinPc \<le> codeSize f" using w by (auto simp: walked_def)
  then show ?thesis using assms ranges by (auto simp: planIf_def walked_def Let_def split: if_splits)
qed

section \<open>The walk ends\<close>

lemmas plans_inside = planRepeatEntry_inside planInfiniteLoop_inside planGlobalCall_inside planNumericFor_inside
  planGenericFor_inside planLoopExit_inside planLoopContinue_inside planSharedReturn_inside planSharedBody_inside
  planBooleanFold_inside planBooleanReturn_inside planGuardedCandidates_inside planSeparated_inside
  planCommonExit_inside planAndChain_inside planOrChain_inside planEscape_inside planTestset_inside planRepeat_inside
  planWhile_inside planIf_inside planJump_inside

lemma planAt_inside:
  assumes "planAt f kids context r pc = (ps, q)" "walked f r pc" "targets_in_code f"
  shows "list_all (inside f r) ps"
proof (cases "firstPlan (shapes f context r pc)")
  case None
  then show ?thesis using assms(1) by (auto simp: planAt_def planSimple_def Let_def split: if_splits)
next
  case (Some p)
  have "list_all (inside f r) ps" if "p = (ps, q)"
  proof -
    have "\<exists>plan\<in>set (shapes f context r pc). plan = Some (ps, q)" using firstPlan_mem [OF Some] that by simp
    then show ?thesis
      by (simp only: shapes_def conditionShapes_def append.simps list.set bex_simps)
        (elim disjE FalseE; (rule plans_inside, assumption, ((rule assms(2,3))+)?; fail))
  qed
  then show ?thesis using assms(1) Some by (auto simp: planAt_def Let_def split: if_splits)
qed

text \<open>The order on ranges as a number, and the positions of a range that are not walked over yet.\<close>

definition weight :: "lua_fields \<Rightarrow> range \<Rightarrow> nat" where
  "weight f r = (let n = length (q_code f) in
    2 * ((n - nat (rg_begin r)) * (n + 1) + (nat (rg_end r) - nat (rg_begin r))) +
    (if rg_continue r = rg_begin r then 0 else 1))"

definition unseen :: "range \<Rightarrow> int list \<Rightarrow> nat" where
  "unseen r seen = card ({rg_begin r..<rg_end r} - set seen)"

lemma weight_bounds:
  defines "n \<equiv> length \<circ> q_code"
  shows "2 * ((n f - nat (rg_begin r)) * (n f + 1) + (nat (rg_end r) - nat (rg_begin r))) \<le> weight f r"
    "weight f r \<le> 2 * ((n f - nat (rg_begin r)) * (n f + 1) + (nat (rg_end r) - nat (rg_begin r))) + 1"
  unfolding weight_def Let_def n_def comp_def by (simp_all only: split: if_split) simp_all

lemma weight_smaller:
  assumes s: "smaller f r s" and w: "walked f r pc"
  shows "weight f s < weight f r"
proof -
  define n where "n = length (q_code f)"
  define b where "b = nat (rg_begin r)"
  have r: "b < n" "rg_begin r = int b" "nat (rg_end r) \<le> n" "rg_begin r < rg_end r"
    using w by (auto simp: walked_def codeSize_def n_def b_def)
  have e: "nat (rg_end s) \<le> n" using s by (auto simp: smaller_def codeSize_def n_def)
  consider (later) "rg_begin s > rg_begin r" | (same) "rg_begin s = rg_begin r" "rg_end s < rg_end r"
    | (continued) "rg_begin s = rg_begin r" "rg_end s \<le> rg_end r" "rg_continue r \<noteq> rg_begin r" "rg_continue s = rg_begin s"
    using s by (auto simp: smaller_def)
  then show ?thesis
  proof cases
    case later
    then have "n - nat (rg_begin s) \<le> n - b - 1" using r by linarith
    then have "(n - nat (rg_begin s)) * (n + 1) \<le> (n - b - 1) * (n + 1)" by (rule mult_le_mono1)
    moreover have "n - b = Suc (n - b - 1)" using r(1) by simp
    then have "(n - b) * (n + 1) = (n + 1) + (n - b - 1) * (n + 1)" by (metis mult_Suc)
    ultimately have "(n - nat (rg_begin s)) * (n + 1) + n < (n - b) * (n + 1)" by linarith
    moreover have "V < W" if "X + n < Y" "e \<le> n" "2 * (Y + v) \<le> W" "V \<le> 2 * (X + (e - c)) + 1" for X Y e v c V W :: nat
      using that by presburger
    ultimately show ?thesis using e weight_bounds(1) [of f r] weight_bounds(2) [of f s]
      unfolding comp_def n_def [symmetric] b_def [symmetric] by blast
  next
    case same
    then have "nat (rg_end s) - b < nat (rg_end r) - b" "nat (rg_begin s) = b" using r(2,4) by linarith+
    moreover have "V < W" if "2 * (X + v) \<le> W" "V \<le> 2 * (X + u) + 1" "u < v" for X u v V W :: nat
      using that by presburger
    ultimately show ?thesis using weight_bounds(1) [of f r] weight_bounds(2) [of f s]
      unfolding comp_def n_def [symmetric] b_def [symmetric] by (simp only:)
  next
    case continued
    then have "nat (rg_end s) - b \<le> nat (rg_end r) - b" "nat (rg_begin s) = b" using r(2) by linarith+
    then show ?thesis using continued unfolding weight_def Let_def n_def [symmetric] b_def [symmetric]
      by (simp only: refl if_True if_False) simp
  qed
qed

lemma unseen_le: "0 \<le> rg_begin r \<Longrightarrow> rg_end r \<le> codeSize f \<Longrightarrow> unseen r seen \<le> length (q_code f)"
proof -
  assume "0 \<le> rg_begin r" "rg_end r \<le> codeSize f"
  then have "card {rg_begin r..<rg_end r} \<le> length (q_code f)" by (simp add: codeSize_def)
  moreover have "unseen r seen \<le> card {rg_begin r..<rg_end r}" unfolding unseen_def by (rule card_mono) auto
  ultimately show ?thesis by simp
qed

lemma unseen_step: "rg_begin r \<le> pc \<Longrightarrow> pc < rg_end r \<Longrightarrow> pc \<notin> set seen \<Longrightarrow> unseen r (pc # seen) < unseen r seen"
proof -
  assume "rg_begin r \<le> pc" "pc < rg_end r" "pc \<notin> set seen"
  then have "pc \<in> {rg_begin r..<rg_end r} - set seen" by simp
  moreover have "{rg_begin r..<rg_end r} - set (pc # seen) = {rg_begin r..<rg_end r} - set seen - {pc}" by auto
  ultimately show ?thesis unfolding unseen_def by (metis card_Diff1_less finite_Diff finite_atLeastLessThan_int)
qed

lemma those_all: "(\<And>x. x \<in> set xs \<Longrightarrow> g x \<noteq> None) \<Longrightarrow> those (map g xs) \<noteq> None"
  by (induction xs) (auto split: option.splits)

lemma writeRange_enough:
  assumes "targets_in_code f" "0 \<le> rg_begin r" "rg_end r \<le> codeSize f"
    and "fuel > weight f r * (length (q_code f) + 2) + unseen r seen"
  shows "writeRange fuel f kids context r pc seen \<noteq> None"
  using assms(2-4)
proof (induction fuel arbitrary: r pc seen)
  case (Suc fuel)
  let ?n = "length (q_code f)"
  show ?case
  proof (cases "pc \<ge> rg_end r \<or> pc < rg_begin r \<or> pc \<in> set seen")
    case False
    then have w: "walked f r pc" and step: "unseen r (pc # seen) < unseen r seen"
      using Suc.prems unseen_step [of r pc seen] by (auto simp: walked_def)
    obtain ps q where plan: "planAt f kids context r pc = (ps, q)" by fastforce
    have "(case p of Line l \<Rightarrow> Some [l] | Sub s \<Rightarrow> writeRange fuel f kids context s (rg_begin s) []) \<noteq> None" if "p \<in> set ps" for p
    proof (cases p)
      case (Sub s)
      then have s: "smaller f r s" using planAt_inside [OF plan w assms(1)] that by (auto simp: list_all_iff)
      then have "Suc (weight f s) * (?n + 2) \<le> weight f r * (?n + 2)" using weight_smaller [OF s w] by (intro mult_le_mono1) simp
      moreover have bounds: "0 \<le> rg_begin s" "rg_end s \<le> codeSize f" using s w by (auto simp: smaller_def walked_def)
      ultimately have "fuel > weight f s * (?n + 2) + unseen s []"
        using unseen_le [OF bounds, of "[]"] Suc.prems(3) step by simp
      then show ?thesis using Suc.IH [OF bounds] Sub by simp
    qed simp
    from those_all [OF this] obtain parts where
      "those (map (\<lambda>p. case p of Line l \<Rightarrow> Some [l] | Sub s \<Rightarrow> writeRange fuel f kids context s (rg_begin s) []) ps) = Some parts"
      by fastforce
    moreover have "writeRange fuel f kids context r p (pc # seen) \<noteq> None" for p
      by (rule Suc.IH) (use Suc.prems step in auto)
    ultimately show ?thesis using False plan by (auto split: next_pc.splits)
  qed auto
qed simp

lemma rangeFuel_enough:
  assumes "0 \<le> first" "end \<le> codeSize f"
  shows "rangeFuel f > weight f (plainRange first end d) * (length (q_code f) + 2) + unseen (plainRange first end d) []"
proof -
  define n where "n = length (q_code f)"
  let ?r = "plainRange first end d"
  have "(n - nat first) * (n + 1) \<le> n * (n + 1)" by (intro mult_le_mono1) simp
  moreover have "nat end - nat first \<le> n" using assms by (simp add: codeSize_def n_def)
  ultimately have "weight f ?r \<le> 2 * (n * (n + 1) + n) + 1"
    using weight_bounds(2) [of f ?r] unfolding comp_def n_def [symmetric] by (simp add: plainRange_def)
  also have "\<dots> < 2 * (n + 1) * (n + 2) + 1" by (simp add: algebra_simps)
  finally have "Suc (weight f ?r) * (n + 2) \<le> (2 * (n + 1) * (n + 2) + 2) * (n + 2)" by (intro mult_le_mono1) simp
  moreover have "unseen ?r [] \<le> n" using unseen_le [of ?r f "[]"] assms by (simp add: n_def plainRange_def)
  ultimately show ?thesis by (simp add: rangeFuel_def Let_def n_def)
qed

lemma those_mono:
  assumes "those (map g xs) = Some ys" "\<And>x y. x \<in> set xs \<Longrightarrow> g x = Some y \<Longrightarrow> h x = Some y"
  shows "those (map h xs) = Some ys"
  using assms by (induction xs arbitrary: ys) (auto split: option.splits)

text \<open>A larger bound does not change the result.\<close>

lemma writeRange_mono:
  "writeRange fuel f kids context r pc seen = Some ls \<Longrightarrow> fuel \<le> larger \<Longrightarrow>
   writeRange larger f kids context r pc seen = Some ls"
proof (induction fuel arbitrary: r pc seen ls larger)
  case (Suc fuel)
  then obtain m where larger: "larger = Suc m" "fuel \<le> m" by (cases larger) auto
  show ?case
  proof (cases "pc \<ge> rg_end r \<or> pc < rg_begin r \<or> pc \<in> set seen")
    case False
    obtain ps q where plan: "planAt f kids context r pc = (ps, q)" by fastforce
    let ?g = "\<lambda>fuel p. case p of Line l \<Rightarrow> Some [l] | Sub s \<Rightarrow> writeRange fuel f kids context s (rg_begin s) []"
    obtain parts where parts: "those (map (?g fuel) ps) = Some parts"
      using Suc.prems(1) False plan by (auto split: option.splits)
    have "those (map (?g m) ps) = Some parts"
      by (rule those_mono [OF parts]) (auto split: piece.splits intro: Suc.IH [OF _ larger(2)])
    then show ?thesis
      using Suc.prems(1) False plan parts larger(1) Suc.IH [OF _ larger(2)] by (auto split: next_pc.splits)
  qed (use Suc.prems(1) larger(1) in auto)
qed simp

lemma emitRange_ends:
  assumes "targets_in_code f" "0 \<le> first" "end \<le> codeSize f"
  shows "\<exists>ls. (\<forall>fuel\<ge>rangeFuel f. writeRange fuel f kids context (plainRange first end d) first [] = Some ls) \<and>
    emitRange f kids first end d context = concat (map line_text ls)"
proof -
  have "writeRange (rangeFuel f) f kids context (plainRange first end d) first [] \<noteq> None"
    using rangeFuel_enough [OF assms(2,3), of d] assms by (intro writeRange_enough) (auto simp: plainRange_def)
  then obtain ls where ls: "writeRange (rangeFuel f) f kids context (plainRange first end d) first [] = Some ls" by blast
  then have "emitRange f kids first end d context = concat (map line_text ls)" by (simp add: emitRange_def)
  then show ?thesis using writeRange_mono [OF ls] by blast
qed

text \<open>The jumps of a prototype that the reader accepts stay in its code.\<close>

lemma accepted_targets:
  assumes acc: "accepted f ups"
  shows "targets_in_code f"
  unfolding targets_in_code_def
proof (intro allI impI)
  fix pc assume pc: "0 \<le> pc \<and> pc < codeSize f"
  define k where "k = nat pc"
  have k: "k < length (q_code f)" "instrAt f pc = q_code f ! k" using pc by (auto simp: k_def codeSize_def instrAt_def)
  note lay = layoutD [OF accepted_code(1) [OF acc] k(1)]
  show "targetAt f pc \<le> codeSize f"
  proof (cases "branches_away (q_code f ! k)")
    case True
    then have "\<not> l_extraWord (q_code f ! k)" "\<not> bindable (q_code f ! k)"
      using lay(3) by (auto simp: branches_away_def bindable_def)
    then have "boundary (q_code f) (int k)"
      using lay(5) k(1) by (auto simp: boundary_def owner_ok_def binds_at_def)
    from target_boundary [OF acc k(1) this True] show ?thesis using k(2) by (auto simp: boundary_def codeSize_def)
  next
    case False
    then have "\<not> (23 \<le> l_op (q_code f ! k) \<and> l_op (q_code f ! k) \<le> 27)" by (auto simp: branches_away_def)
    then show ?thesis using False k(2) target_of(1) [OF acc k(1)] by (auto simp: branches_away_def jumpOf_def codeSize_def)
  qed
qed

end
