(* ===== verification/Lua51_Nesting.thy ===== *)
theory Lua51_Nesting
  imports Lua51_Range
begin

text \<open>
  The lines that the structured writer of \<open>Lua51_Range\<close> writes are well nested: every block that is
  opened is closed by its own keyword, an \<^verbatim>\<open>else\<close> belongs to an \<^verbatim>\<open>if\<close> that has none yet, an \<^verbatim>\<open>until\<close> to a
  \<^verbatim>\<open>repeat\<close>, and a \<^verbatim>\<open>break\<close> stands inside a loop.
\<close>

section \<open>Open blocks\<close>

datatype block = In_then | In_else | In_loop | In_repeat | In_do

definition in_loop :: "block list \<Rightarrow> bool" where
  "in_loop st \<longleftrightarrow> In_loop \<in> set st \<or> In_repeat \<in> set st"

text \<open>A line with the blocks that are open before it, innermost first, and the blocks open after it.\<close>

fun nestLine :: "line \<Rightarrow> block list \<Rightarrow> block list option" where
  "nestLine (Plain s) st = Some st"
| "nestLine (If_then n c) st = Some (In_then # st)"
| "nestLine (Else_line n) (In_then # st) = Some (In_else # st)"
| "nestLine (Else_line n) st = None"
| "nestLine (End_line n) (b # st) = (if b = In_repeat then None else Some st)"
| "nestLine (End_line n) [] = None"
| "nestLine (Loop_do n h) st = Some (In_loop # st)"
| "nestLine (Repeat n) st = Some (In_repeat # st)"
| "nestLine (Until n c) (In_repeat # st) = Some st"
| "nestLine (Until n c) st = None"
| "nestLine (Do_line n) st = Some (In_do # st)"
| "nestLine (Break n) st = (if in_loop st then Some st else None)"
| "nestLine (Break_if n c) st = (if in_loop st then Some st else None)"

primrec nest :: "('a \<Rightarrow> block list \<Rightarrow> block list option) \<Rightarrow> 'a list \<Rightarrow> block list \<Rightarrow> block list option" where
  "nest step [] st = Some st"
| "nest step (x # xs) st = (case step x st of None \<Rightarrow> None | Some u \<Rightarrow> nest step xs u)"

definition well_nested :: "line list \<Rightarrow> bool" where
  "well_nested ls \<longleftrightarrow> nest nestLine ls [] = Some []"

text \<open>A range in which a \<^verbatim>\<open>break\<close> may be written has to stand in a loop.\<close>

definition loop_ready :: "range \<Rightarrow> block list \<Rightarrow> bool" where
  "loop_ready r st \<longleftrightarrow> (rg_break r \<ge> 0 \<or> rg_flag r \<noteq> [] \<longrightarrow> in_loop st)"

fun nestPiece :: "piece \<Rightarrow> block list \<Rightarrow> block list option" where
  "nestPiece (Line l) st = nestLine l st"
| "nestPiece (Sub r) st = (if loop_ready r st then Some st else None)"

lemma nest_append [simp]: "nest step (xs @ ys) st = (case nest step xs st of None \<Rightarrow> None | Some u \<Rightarrow> nest step ys u)"
  by (induction xs arbitrary: st) (auto split: option.splits)

lemma in_loop_Cons [simp]: "in_loop (b # st) \<longleftrightarrow> b = In_loop \<or> b = In_repeat \<or> in_loop st"
  by (auto simp: in_loop_def)

lemma in_loop_replicate [simp]: "in_loop st \<Longrightarrow> in_loop (replicate n b @ st)"
  by (auto simp: in_loop_def)

lemma loop_ready_Cons [simp]: "loop_ready r st \<Longrightarrow> loop_ready r (b # st)"
  by (simp add: loop_ready_def)

lemma loop_ready_replicate [simp]: "loop_ready r st \<Longrightarrow> loop_ready r (replicate n b @ st)"
  by (simp add: loop_ready_def)

lemma nest_part [simp]: "loop_ready r st \<Longrightarrow> nestPiece (part r first end d allow) st = Some st"
  by (simp add: part_def loop_ready_def)

lemma nest_loop_body [simp]:
  "nestPiece (loop_body first end d allow b c g) st = (if (b \<ge> 0 \<or> g \<noteq> []) \<and> \<not> in_loop st then None else Some st)"
  by (auto simp: loop_body_def loop_ready_def)

lemma nest_lines [simp]:
  "nestPiece (say_line d s) st = Some st" "nestPiece (assign_line d s t) st = Some st"
  "nestPiece (guardTest f context d pc) st = Some (In_then # st)" "nestPiece (testsetAssign f i context d) st = Some st"
  by (simp_all add: say_line_def assign_line_def guardTest_def testsetAssign_def)

lemma nest_setFlag [simp]: "nest nestPiece (setFlag r d) st = Some st"
  by (simp add: setFlag_def)

lemma nest_subpart [simp]: "loop_ready r st \<Longrightarrow> nest nestPiece (subpart r first end d) st = Some st"
  by (simp add: subpart_def)

lemma nest_guardGap [simp]: "loop_ready r st \<Longrightarrow> nest nestPiece (guardGap r d g) st = Some st"
  by (simp add: guardGap_def)

text \<open>Pieces that keep the open blocks, that open one conditional each, and that close them again.\<close>

lemma nest_keep:
  assumes "\<And>x. x \<in> set xs \<Longrightarrow> nest nestPiece (g x) st = Some st"
  shows "nest nestPiece (concat (map g xs)) st = Some st"
  using assms by (induction xs) auto

lemma nest_open:
  assumes "\<And>k u. k \<in> set ks \<Longrightarrow> loop_ready r u \<Longrightarrow> nest nestPiece (g k) u = Some (b # u)" "loop_ready r st"
  shows "nest nestPiece (concat (map g ks)) st = Some (replicate (length ks) b @ st)"
  using assms
proof (induction ks arbitrary: st)
  case (Cons k ks)
  then show ?case using Cons.IH [of "b # st"] by (simp add: replicate_app_Cons_same)
qed simp

lemma nest_close:
  assumes "\<And>k u. k \<in> set ks \<Longrightarrow> loop_ready r u \<Longrightarrow> nest nestPiece (g k) (b # u) = Some u" "loop_ready r st"
  shows "nest nestPiece (concat (map g ks)) (replicate (length ks) b @ st) = Some st"
  using assms by (induction ks) auto

lemma nest_ends:
  "b \<noteq> In_repeat \<Longrightarrow> nest nestPiece (map (\<lambda>k. Line (End_line (d k))) ks) (replicate (length ks) b @ st) = Some st"
  by (induction ks) auto

section \<open>Every shape is well nested\<close>

lemma planRepeatEntry_nest: "planRepeatEntry f context r pc = Some (ps, q) \<Longrightarrow> loop_ready r st \<Longrightarrow> nest nestPiece ps st = Some st"
  by (auto simp: planRepeatEntry_def split: if_splits prod.splits)

lemma planInfiniteLoop_nest: "planInfiniteLoop f r pc = Some (ps, q) \<Longrightarrow> nest nestPiece ps st = Some st"
  by (auto simp: planInfiniteLoop_def Let_def split: if_splits)

lemma planGlobalCall_nest: "planGlobalCall f context r pc = Some (ps, q) \<Longrightarrow> nest nestPiece ps st = Some st"
  by (auto simp: planGlobalCall_def Let_def split: if_splits)

lemma planForBody_nest: "nest nestPiece (planForBody f context r pc bodyEnd b) (In_loop # st) = Some st"
  by (simp add: planForBody_def Let_def)

lemma loopCell_nest [simp]: "nest nestPiece (loopCell f context d x at) st = Some st"
  by (simp add: loopCell_def)

lemma planNumericFor_nest: "planNumericFor f context r pc = Some (ps, q) \<Longrightarrow> nest nestPiece ps st = Some st"
  by (auto simp: planNumericFor_def Let_def planForBody_nest split: if_splits)

lemma planGenericFor_nest: "planGenericFor f context r pc = Some (ps, q) \<Longrightarrow> nest nestPiece ps st = Some st"
  by (auto simp: planGenericFor_def Let_def planForBody_nest nest_keep split: if_splits)

lemma planLoopExit_nest: "planLoopExit f context r pc = Some (ps, q) \<Longrightarrow> loop_ready r st \<Longrightarrow> nest nestPiece ps st = Some st"
  by (auto simp: planLoopExit_def Let_def loop_ready_def split: if_splits)

lemma planLoopContinue_nest: "planLoopContinue f context r pc = Some (ps, q) \<Longrightarrow> loop_ready r st \<Longrightarrow> nest nestPiece ps st = Some st"
  by (auto simp: planLoopContinue_def Let_def split: if_splits) (auto simp: loop_ready_def)

lemma planJump_nest: "planJump f r pc = Some (ps, q) \<Longrightarrow> loop_ready r st \<Longrightarrow> nest nestPiece ps st = Some st"
  by (auto simp: planJump_def Let_def loop_ready_def split: if_splits)

lemma planRepeat_nest: "planRepeat f context r pc = Some (ps, q) \<Longrightarrow> nest nestPiece ps st = Some st"
  by (auto simp: planRepeat_def Let_def split: if_splits)

lemma planWhile_nest: "planWhile f context r pc = Some (ps, q) \<Longrightarrow> nest nestPiece ps st = Some st"
  by (auto simp: planWhile_def Let_def split: if_splits)

lemma planBooleanFold_nest: "planBooleanFold f context r pc = Some (ps, q) \<Longrightarrow> nest nestPiece ps st = Some st"
  by (auto simp: planBooleanFold_def Let_def split: if_splits)

lemma planBooleanReturn_nest: "planBooleanReturn f context r pc = Some (ps, q) \<Longrightarrow> loop_ready r st \<Longrightarrow> nest nestPiece ps st = Some st"
  by (auto simp: planBooleanReturn_def Let_def split: if_splits)

lemma planAndChain_nest: "planAndChain f context r pc = Some (ps, q) \<Longrightarrow> loop_ready r st \<Longrightarrow> nest nestPiece ps st = Some st"
  by (auto simp: planAndChain_def Let_def split: if_splits)

lemma planOrChain_nest: "planOrChain f context r pc = Some (ps, q) \<Longrightarrow> loop_ready r st \<Longrightarrow> nest nestPiece ps st = Some st"
  by (auto simp: planOrChain_def Let_def split: option.splits)

lemma planEscape_nest: "planEscape f context r pc = Some (ps, q) \<Longrightarrow> loop_ready r st \<Longrightarrow> nest nestPiece ps st = Some st"
  by (auto simp: planEscape_def exitsRangeText_def Let_def split: if_splits)

lemma planTestset_nest: "planTestset f context r pc = Some (ps, q) \<Longrightarrow> loop_ready r st \<Longrightarrow> nest nestPiece ps st = Some st"
  by (auto simp: planTestset_def Let_def split: if_splits)

lemma planIf_nest: "planIf f context r pc = Some (ps, q) \<Longrightarrow> loop_ready r st \<Longrightarrow> nest nestPiece ps st = Some st"
  by (auto simp: planIf_def Let_def split: if_splits prod.splits)

lemma planSharedReturn_nest:
  assumes "planSharedReturn f context r pc = Some (ps, q)" "loop_ready r st"
  shows "nest nestPiece ps st = Some st"
proof -
  have "nest nestPiece (concat (map (\<lambda>k. guardTest f context (d k) (p k) # guardGap r (e k) (g k)) [0..<n])) st =
      Some (replicate n In_then @ st)" for d p e g n
    by (subst nest_open [where b = In_then, OF _ assms(2)]) simp_all
  moreover have "nest nestPiece (concat (map (\<lambda>k. [Line (Else_line (d k)), part r x y (e k) False, Line (End_line (d k))]) (rev [0..<n])))
      (replicate n In_then @ st) = Some st" for d x y e n
    using nest_close [where ks = "rev [0..<n]" and b = In_then, OF _ assms(2)] by simp
  ultimately show ?thesis using assms by (auto simp: planSharedReturn_def Let_def split: if_splits)
qed

lemma planSharedBody_nest:
  assumes "planSharedBody f context r pc = Some (ps, q)" "loop_ready r st"
  shows "nest nestPiece ps st = Some st"
proof -
  have "nest nestPiece (concat (map (\<lambda>k. guardTest f context (d k) (p k) # guardGap r (e k) (g k)) [0..<n])) st =
      Some (replicate n In_then @ st)" for d p e g n
    by (subst nest_open [where b = In_then, OF _ assms(2)]) simp_all
  moreover have "nest nestPiece (map (\<lambda>k. Line (End_line (d k))) (rev [0..<n])) (replicate n In_then @ st) = Some st" for d n
    using nest_ends [where ks = "rev [0..<n]" and b = In_then] by simp
  ultimately show ?thesis using assms by (auto simp: planSharedBody_def Let_def split: if_splits)
qed

lemma candidateText_nest: "loop_ready r st \<Longrightarrow> nest nestPiece (candidateText f context r flag later c) st = Some st"
  by (simp add: candidateText_def Let_def)

lemma planGuardedCandidates_nest:
  "planGuardedCandidates f context r pc = Some (ps, q) \<Longrightarrow> loop_ready r st \<Longrightarrow> nest nestPiece ps st = Some st"
  by (auto simp: planGuardedCandidates_def Let_def nest_keep candidateText_nest simp del: guardedCandidates.simps
    split: if_splits option.splits)

lemma orAndText_nest:
  assumes "loop_ready r st"
  shows "nest nestPiece (orAndText f context r flag tests gaps) st = Some st"
proof -
  have "nest nestPiece (concat (map (\<lambda>k. [guardTest f context (d k) (p k), if c k then assign_line (e k) flag x else part r (g k) (h k) (e k) True])
      [1..<n])) (In_else # st) = Some (replicate (n - 1) In_then @ In_else # st)" for d p c e x g h n
    by (subst nest_open [where b = In_then and r = r]) (use assms in auto)
  moreover have "nest nestPiece (map (\<lambda>k. Line (End_line (d k))) [1..<n]) (replicate (n - 1) In_then @ In_else # st) = Some (In_else # st)" for d n
    using nest_ends [where ks = "[1..<n]" and b = In_then] by simp
  ultimately show ?thesis using assms by (simp add: orAndText_def Let_def)
qed

lemma orPrefixText_nest:
  assumes "loop_ready r st"
  shows "nest nestPiece (orPrefixText f context r flag tests gaps) st = Some st"
proof -
  have "nest nestPiece (concat (map (\<lambda>k. [Line (If_then (d k) (c k)), assign_line (e k) flag x, Line (Else_line (d k)), part r (g k) (h k) (e k) True])
      [0..<n])) st = Some (replicate n In_else @ st)" for d c e x g h n
    by (subst nest_open [where b = In_else and r = r]) (use assms in auto)
  moreover have "nest nestPiece (map (\<lambda>k. Line (End_line (d k))) (rev [0..<n])) (replicate n In_else @ st) = Some st" for d n
    using nest_ends [where ks = "rev [0..<n]" and b = In_else] by simp
  ultimately show ?thesis by (simp add: orPrefixText_def Let_def)
qed

lemma planSeparated_nest: "planSeparated f context r pc = Some (ps, q) \<Longrightarrow> loop_ready r st \<Longrightarrow> nest nestPiece ps st = Some st"
  by (auto simp: planSeparated_def Let_def orAndText_nest orPrefixText_nest split: if_splits prod.splits)

lemma guardGapText_nest: "loop_ready r st \<Longrightarrow> nest nestPiece (guardGapText f context r j d end scan cursor) st = Some st"
proof (induction f "context" r j d "end" scan cursor rule: guardGapText.induct)
  case (1 f "context" r j d "end" scan cursor)
  then show ?case by (subst guardGapText.simps) (auto simp: Let_def)
qed

lemma planCommonExit_nest:
  assumes "planCommonExit f context r pc = Some (ps, q)" "loop_ready r st"
  shows "nest nestPiece ps st = Some st"
proof -
  have "nest nestPiece (concat (map (\<lambda>k. guardTest f context (d k) (p k) # (if c k then guardGapText f context r j (e k) (h k) (g k) (g k) else []))
      [0..<n])) u = Some (replicate n In_then @ u)" if "loop_ready r u" for d p c e h g j n u
    by (subst nest_open [where b = In_then, OF _ that]) (simp_all add: guardGapText_nest)
  moreover have "nest nestPiece (map (\<lambda>k. Line (End_line (d k))) (rev [0..<n])) (replicate n In_then @ u) = Some u" for d n u
    using nest_ends [where ks = "rev [0..<n]" and b = In_then] by simp
  ultimately show ?thesis using assms by (auto simp: planCommonExit_def ex_elseTail_def Let_def split: if_splits)
qed

section \<open>The output is well nested\<close>

lemmas plans_nest = planRepeatEntry_nest planInfiniteLoop_nest planGlobalCall_nest planNumericFor_nest planGenericFor_nest
  planLoopExit_nest planLoopContinue_nest planSharedReturn_nest planSharedBody_nest planBooleanFold_nest
  planBooleanReturn_nest planGuardedCandidates_nest planSeparated_nest planCommonExit_nest planAndChain_nest
  planOrChain_nest planEscape_nest planTestset_nest planRepeat_nest planWhile_nest planIf_nest planJump_nest

lemma planAt_nest:
  assumes "planAt f kids context r pc = (ps, q)" "loop_ready r st"
  shows "nest nestPiece ps st = Some st"
proof (cases "firstPlan (shapes f context r pc)")
  case None
  then show ?thesis using assms(1) by (auto simp: planAt_def planSimple_def Let_def split: if_splits)
next
  case (Some p)
  have "nest nestPiece ps st = Some st" if "p = (ps, q)"
  proof -
    have "\<exists>plan\<in>set (shapes f context r pc). plan = Some (ps, q)" using firstPlan_mem [OF Some] that by simp
    then show ?thesis
      by (simp only: shapes_def conditionShapes_def append.simps list.set bex_simps)
        (elim disjE FalseE; (rule plans_nest, assumption, (rule assms(2))?; fail))
  qed
  then show ?thesis using assms(1) Some by (auto simp: planAt_def Let_def split: if_splits)
qed

lemma those_nest:
  assumes "nest nestPiece ps st = Some u" "those (map g ps) = Some parts"
    and "\<And>p part v w. p \<in> set ps \<Longrightarrow> g p = Some part \<Longrightarrow> nestPiece p v = Some w \<Longrightarrow> nest nestLine part v = Some w"
  shows "nest nestLine (concat parts) st = Some u"
  using assms
proof (induction ps arbitrary: st parts)
  case (Cons p ps)
  obtain v where v: "nestPiece p st = Some v" "nest nestPiece ps v = Some u" using Cons.prems(1) by (auto split: option.splits)
  obtain x xs where x: "g p = Some x" "those (map g ps) = Some xs" "parts = x # xs" using Cons.prems(2) by (auto split: option.splits)
  have "nest nestLine x st = Some v" using Cons.prems(3) [OF _ x(1) v(1)] by simp
  moreover have "nest nestLine (concat xs) v = Some u"
    by (rule Cons.IH [OF v(2) x(2)]) (rule Cons.prems(3); simp)
  ultimately show ?case by (simp add: x(3))
qed simp

lemma writeRange_nest:
  "writeRange fuel f kids context r pc seen = Some ls \<Longrightarrow> loop_ready r st \<Longrightarrow> nest nestLine ls st = Some st"
proof (induction fuel arbitrary: r pc seen ls st)
  case (Suc fuel)
  show ?case
  proof (cases "pc \<ge> rg_end r \<or> pc < rg_begin r \<or> pc \<in> set seen")
    case False
    obtain ps q where plan: "planAt f kids context r pc = (ps, q)" by fastforce
    let ?g = "\<lambda>p. case p of Line l \<Rightarrow> Some [l] | Sub s \<Rightarrow> writeRange fuel f kids context s (rg_begin s) []"
    obtain parts where parts: "those (map ?g ps) = Some parts"
      using Suc.prems(1) False plan by (auto split: option.splits)
    have "nest nestLine (concat parts) st = Some st"
      by (rule those_nest [OF planAt_nest [OF plan Suc.prems(2)] parts])
        (auto split: piece.splits option.splits if_splits intro: Suc.IH)
    then show ?thesis
      using Suc.prems False plan parts Suc.IH by (auto split: next_pc.splits)
  qed (use Suc.prems(1) in \<open>auto split: if_splits\<close>)
qed simp

end
