(* ===== verification/Lua51_Inspect.thy ===== *)
theory Lua51_Inspect
  imports Lua51_Dispatch Command_Line
begin

text \<open>
  \<^verbatim>\<open>inspect\<close> of \<^verbatim>\<open>byteveil_decompiler/Lua51.cpp\<close>, which reads a chunk and writes the report the mode
  names, and the command line of \<open>Command_Line\<close> with \<^verbatim>\<open>inspect\<close> as its Lua 5.1 component.
\<close>

definition lua_show :: "string \<Rightarrow> lua_proto \<Rightarrow> string" where
  "lua_show mode p =
    (if mode = ''json'' \<or> mode = ''ir'' then lua_json p
     else if mode = ''disassemble'' then disProto p
     else if mode = ''cfg'' then cfgProto (lp_fields p)
     else if mode = ''structured'' then structuredProto p
     else if mode = ''constants'' then constantsProto p
     else if mode = ''prototypes'' then prototypesProto p
     else readableProto p)"

definition lua_inspect :: "u8 list \<Rightarrow> string \<Rightarrow> string res" where
  "lua_inspect data mode = andthen (lua_parse data) (\<lambda>p. Inr (lua_show mode p))"

definition withLua51 :: "surroundings \<Rightarrow> surroundings" where
  "withLua51 env = env\<lparr>e_lua51 := \<lambda>input mode. lua_inspect (bytes_of input) mode\<rparr>"

lemma withLua51_simps [simp]:
  "e_read (withLua51 env) = e_read env" "e_write (withLua51 env) = e_write env"
  "e_lua51 (withLua51 env) input mode = lua_inspect (bytes_of input) mode"
  by (simp_all add: withLua51_def)

end
