(* ===== verification/Lua51_Structured_Properties.thy ===== *)
theory Lua51_Structured_Properties
  imports Lua51_Walk Lua51_Nesting Lua51_Inspect Lua51_Properties Module_Properties
begin

text \<open>
  The properties of the structured writer of Lua 5.1 chunks and of the command line on such chunks, and
  two small functions for which the text that is written does not do what the code does.
\<close>

section \<open>The structured writer\<close>

definition sampleContext :: render_context where
  "sampleContext = \<lparr>rc_capturedUpvalues = [], rc_capturedUpvalueCells = [], rc_stateMachine = False\<rparr>"

definition sampleLines :: "line list" where
  "sampleLines = [If_then 0 ''(r0 == r0)'', Plain (''    return'' @ newline), End_line 0, Plain (''return'' @ newline)]"

lemma sample_lines:
  "writeRange (Suc (Suc (Suc (Suc (Suc 0))))) sampleFields [] sampleContext (plainRange 0 4 0) 0 [] = Some sampleLines"
  by code_simp

lemma sample_size: "codeSize sampleFields = 4"
  by (simp add: codeSize_def sample_code_fields)

text \<open>
  C9: \<^verbatim>\<open>emitRange\<close> ends on every range of every prototype of a parsed chunk: some number of steps and nested
  calls is enough, the number \<open>rangeFuel\<close> is, and the lines are the same for every larger number. So the
  text of the readable mode is never cut short.
\<close>

theorem lua_structured_writer_ends:
  assumes "lua_parse bs = Inr p" "(f, ups) \<in> set (protosOf p)" "0 \<le> first" "end \<le> codeSize f"
  shows "\<exists>ls. (\<forall>fuel\<ge>rangeFuel f. writeRange fuel f kids ctx (plainRange first end d) first [] = Some ls) \<and>
    emitRange f kids first end d ctx = concat (map line_text ls)"
proof -
  have "accepted f ups" using parsed_tree(1) [OF assms(1)] assms(2) by (auto simp: list_all_iff)
  then show ?thesis using emitRange_ends [OF accepted_targets assms(3,4)] by blast
qed

theorem lua_structured_writer_ends_witness:
  "emitRange sampleFields [] 0 4 0 sampleContext = concat (map line_text sampleLines)"
proof -
  obtain ls where ls: "\<forall>fuel\<ge>rangeFuel sampleFields. writeRange fuel sampleFields [] sampleContext (plainRange 0 4 0) 0 [] = Some ls"
    and "emitRange sampleFields [] 0 4 0 sampleContext = concat (map line_text ls)"
    using lua_structured_writer_ends [OF sample_parse, of sampleFields "[]" 0 4 "[]" sampleContext 0] by (auto simp: sample_size)
  moreover have "Suc (Suc (Suc (Suc (Suc 0)))) \<le> rangeFuel sampleFields" by (simp add: rangeFuel_def sample_code_fields Let_def)
  then have "writeRange (rangeFuel sampleFields) sampleFields [] sampleContext (plainRange 0 4 0) 0 [] = Some sampleLines"
    by (rule writeRange_mono [OF sample_lines])
  ultimately show ?thesis by auto
qed

text \<open>
  C39: The lines that \<^verbatim>\<open>emitRange\<close> writes for a range are well nested: every block is closed by its own
  keyword, every \<^verbatim>\<open>else\<close> belongs to an \<^verbatim>\<open>if\<close> without one, every \<^verbatim>\<open>until\<close> to a \<^verbatim>\<open>repeat\<close>, and every \<^verbatim>\<open>break\<close>
  stands in a loop, whatever the code and whichever of the shapes are found in it.
\<close>

theorem lua_structured_text_nests:
  assumes "lua_parse bs = Inr p" "(f, ups) \<in> set (protosOf p)" "0 \<le> first" "end \<le> codeSize f"
  shows "\<exists>ls. writeRange (rangeFuel f) f kids ctx (plainRange first end d) first [] = Some ls \<and> well_nested ls \<and>
    emitRange f kids first end d ctx = concat (map line_text ls)"
proof -
  have "accepted f ups" using parsed_tree(1) [OF assms(1)] assms(2) by (auto simp: list_all_iff)
  then obtain ls where ls: "writeRange (rangeFuel f) f kids ctx (plainRange first end d) first [] = Some ls"
    "emitRange f kids first end d ctx = concat (map line_text ls)"
    using emitRange_ends [OF accepted_targets assms(3,4)] by blast
  then show ?thesis using writeRange_nest [OF ls(1), of "[]"] by (auto simp: well_nested_def loop_ready_def plainRange_def)
qed

theorem lua_structured_text_nests_witness: "well_nested sampleLines"
proof -
  have "Suc (Suc (Suc (Suc (Suc 0)))) \<le> rangeFuel sampleFields" by (simp add: rangeFuel_def sample_code_fields Let_def)
  then have "writeRange (rangeFuel sampleFields) sampleFields [] sampleContext (plainRange 0 4 0) 0 [] = Some sampleLines"
    by (rule writeRange_mono [OF sample_lines])
  then show ?thesis
    using lua_structured_text_nests [OF sample_parse, of sampleFields "[]" 0 4 "[]" sampleContext 0] by (auto simp: sample_size)
qed

section \<open>The command line on a chunk\<close>

lemma readable_not_empty: "readableProto p \<noteq> []"
  by (simp add: readableProto_def Let_def)

text \<open>
  The tool on a Lua 5.1 chunk in the Lua format, without an output file and \<^verbatim>\<open>--analyze\<close>: a chunk that \<^verbatim>\<open>parse\<close> rejects ends the
  run with exit code 1 and the message of the reader, and any other chunk with exit code 0 and the text of
  \<^verbatim>\<open>readableProto\<close> on standard output. Neither the compiler nor the loader nor the Luau lifter is used.
\<close>

theorem main_decompiles_chunk:
  assumes "parseArgs args defaultOptions = Accepted opts" "args \<noteq> []" "\<not> o_analyze opts"
    and "o_format opts = ''lua'' \<or> o_format opts = ''luau''" "o_output opts = []"
    and "e_read env (o_input opts) = Some input" "isChunk input"
  shows "runMain (withLua51 env) name args = Some (case lua_parse (bytes_of input) of
      Inl e \<Rightarrow> (1, [errorLine e]) | Inr p \<Rightarrow> (0, [Out (withNewline (readableProto p))]))"
proof -
  have "o_format opts \<noteq> ''cfg''" and static: "o_format opts \<notin> {''protectors'', ''unpack'', ''moonsec'', ''moonsec-ir'', ''moonsec-bytecode''}"
    using assms(4) by auto
  then have "dispatch (withLua51 env) opts input = Some (lua51Run (withLua51 env) opts input)"
    using assms(3,7) by (auto simp: dispatch_def Let_def)
  moreover have "lua51Run (withLua51 env) opts input = (case lua_parse (bytes_of input) of
      Inl e \<Rightarrow> (1, [errorLine e]) | Inr p \<Rightarrow> (0, [Out (withNewline (readableProto p))]))"
    using assms(4,5) readable_not_empty
    by (auto simp: lua51Run_def lua_inspect_def lua_show_def andthen_def finish_def cfgRequested_def Let_def split: sum.splits)
  ultimately show ?thesis using assms(1,2,6) by (simp add: runMain_def)
qed

definition sampleInput :: string where
  "sampleInput = map (\<lambda>b. char_of (unat b)) sampleChunk"

lemma sample_input: "bytes_of sampleInput = sampleChunk" "isChunk sampleInput"
  by (simp_all add: sampleInput_def sampleChunk_def bytes_of_def isChunk_def) code_simp+

theorem main_decompiles_chunk_witness:
  "runMain (withLua51 (noSurroundings\<lparr>e_read := \<lambda>path. Some sampleInput\<rparr>)) ''byteveil'' [''a.luac''] =
    Some (0, [Out (withNewline (readableProto (LuaProto sampleFields [])))])"
proof -
  have "parseArgs [''a.luac''] defaultOptions = Accepted (defaultOptions\<lparr>o_input := ''a.luac''\<rparr>)"
    by (simp add: defaultOptions_def) code_simp
  from main_decompiles_chunk [OF this, of "noSurroundings\<lparr>e_read := \<lambda>path. Some sampleInput\<rparr>" sampleInput "''byteveil''"]
  show ?thesis using sample_parse sample_input by (simp add: defaultOptions_def noSurroundings_def)
qed

section \<open>Two texts that do not do what the code does\<close>

text \<open>
  \<^verbatim>\<open>if a and f() then return b else t = {} end\<close>: the tests share an exit and the first arm ends with a jump
  over the second. The text sets its flag behind the \<^verbatim>\<open>return\<close> of the first arm, where Lua 5.1 allows no
  statement.
\<close>

definition guardFields :: lua_fields where
  "guardFields = sampleHead\<lparr>q_maxstack := 4, q_code :=
     [(wordFields 0x1a 0)\<lparr>l_target := 2\<rparr>, (wordFields 0x80014016 1)\<lparr>l_target := 8\<rparr>,
      wordFields 0x800080 2, wordFields 0x80809c 3, (wordFields 0x9a 4)\<lparr>l_target := 6\<rparr>,
      (wordFields 0x80004016 5)\<lparr>l_target := 8\<rparr>, wordFields 0x100005e 6,
      (wordFields 0x80000016 7)\<lparr>l_target := 9\<rparr>, wordFields 0x4a 8, wordFields 0x8a 9,
      wordFields 0x80001e 10],
     q_capturedRegisters := [False, False, False, False], q_managedCapturedRegisters := [False, False, False, False]\<rparr>"

text \<open>
  \<^verbatim>\<open>if a then repeat repeat t = {} until b; u = {} until u end\<close>: both loops start at the same instruction,
  so no latch is the only one, and the region is taken for a loop without an exit. The text never leaves
  the loop.
\<close>

definition nestedFields :: lua_fields where
  "nestedFields = sampleHead\<lparr>q_maxstack := 4, q_code :=
     [(wordFields 0x1a 0)\<lparr>l_target := 2\<rparr>, (wordFields 0x80014016 1)\<lparr>l_target := 8\<rparr>,
      wordFields 0x4a 2, (wordFields 0x9a 3)\<lparr>l_target := 5\<rparr>,
      (wordFields 0x7fff0016 4)\<lparr>l_target := 2\<rparr>, wordFields 0xca 5,
      (wordFields 0xda 6)\<lparr>l_target := 8\<rparr>, (wordFields 0x7ffe4016 7)\<lparr>l_target := 2\<rparr>,
      wordFields 0x4a 8, wordFields 0x80001e 9],
     q_capturedRegisters := [False, False, False, False], q_managedCapturedRegisters := [False, False, False, False]\<rparr>"

text \<open>Both prototypes pass the checks of the reader.\<close>

lemma accepted_both: "accepted guardFields []" "accepted nestedFields []"
proof -
  have four: "replicate 4 False = [False, False, False, False]" by (simp add: numeral_eq_Suc)
  note simps = luaFinish_def associateClosureCaptures_def associateFrom.simps sampleHead_def manageFrom_def
    validateProtoData_def checkLuaInstr_def luaOperands_def checkLuaDebug_def require_def whenever_def checkLuaReg_def
    checkRK_def checkTarget_def checkRange_def wordFields_def blankInstr_def decodeWord_def jumpOf_def four
  let ?raw = "[0x1a, 0x80014016, 0x800080, 0x80809c, 0x9a, 0x80004016, 0x100005e, 0x80000016, 0x4a, 0x8a, 0x80001e] :: u32 list"
  have "decodeWords [] False ?raw = Inr (q_code guardFields)"
    by (simp add: guardFields_def decodeWord_def wordFields_def blankInstr_def jumpOf_def)
  moreover have "associateClosureCaptures [] (guardFields\<lparr>q_capturedRegisters := [], q_managedCapturedRegisters := []\<rparr>) = Inr guardFields"
    by (simp add: guardFields_def simps)
  moreover have "validateProtoData guardFields [] = Inr ()"
    by (simp add: guardFields_def simps)
  ultimately show "accepted guardFields []"
    unfolding accepted_def
    by (intro exI [of _ "guardFields\<lparr>q_capturedRegisters := [], q_managedCapturedRegisters := []\<rparr>"] exI [of _ ?raw])
      (simp add: guardFields_def sampleHead_def)
  let ?raw = "[0x1a, 0x80014016, 0x4a, 0x9a, 0x7fff0016, 0xca, 0xda, 0x7ffe4016, 0x4a, 0x80001e] :: u32 list"
  have "decodeWords [] False ?raw = Inr (q_code nestedFields)"
    by (simp add: nestedFields_def decodeWord_def wordFields_def blankInstr_def jumpOf_def)
  moreover have "associateClosureCaptures [] (nestedFields\<lparr>q_capturedRegisters := [], q_managedCapturedRegisters := []\<rparr>) = Inr nestedFields"
    by (simp add: nestedFields_def simps)
  moreover have "validateProtoData nestedFields [] = Inr ()"
    by (simp add: nestedFields_def simps)
  ultimately show "accepted nestedFields []"
    unfolding accepted_def
    by (intro exI [of _ "nestedFields\<lparr>q_capturedRegisters := [], q_managedCapturedRegisters := []\<rparr>"] exI [of _ ?raw])
      (simp add: nestedFields_def sampleHead_def)
qed

definition guardLines :: "line list" where
  "guardLines =
    [Do_line 0, Plain (''    local __byteveil_condition_f0_pc0 = false'' @ newline), If_then 4 ''r0'',
     Plain (''        r2 = r1'' @ newline), Plain (''        r2 = r2()'' @ newline), If_then 8 ''r2'',
     Plain (''            return r1'' @ newline), Plain (''            __byteveil_condition_f0_pc0 = true'' @ newline),
     End_line 8, End_line 4, If_then 4 ''not __byteveil_condition_f0_pc0'', Plain (''        r1 = {}'' @ newline),
     End_line 4, End_line 0, Plain (''r2 = {}'' @ newline), Plain (''return'' @ newline)]"

definition nestedLines :: "line list" where
  "nestedLines =
    [If_then 0 ''r0'', Loop_do 4 ''while true'', Plain (''        r1 = {}'' @ newline), If_then 8 ''r2'',
     Plain (''            r3 = {}'' @ newline), If_then 12 ''r3'', End_line 12, End_line 8, End_line 4, End_line 0,
     Plain (''r1 = {}'' @ newline), Plain (''return'' @ newline)]"

lemma both_lines:
  "writeRange (Suc (Suc (Suc (Suc (Suc (Suc (Suc (Suc (Suc (Suc 0)))))))))) guardFields [] sampleContext (plainRange 0 11 0) 0 [] =
    Some guardLines"
  "writeRange (Suc (Suc (Suc (Suc (Suc (Suc (Suc (Suc (Suc (Suc 0)))))))))) nestedFields [] sampleContext (plainRange 0 10 0) 0 [] =
    Some nestedLines"
  by code_simp+

lemma both_fuel: "10 \<le> rangeFuel guardFields" "10 \<le> rangeFuel nestedFields"
  by (simp_all add: rangeFuel_def guardFields_def nestedFields_def Let_def)

theorem return_before_assignment:
  "accepted guardFields [] \<and> (\<exists>before behind.
    writeRange (rangeFuel guardFields) guardFields [] sampleContext (plainRange 0 11 0) 0 [] =
      Some (before @ [Plain (padding 12 @ ''return r1'' @ newline),
        Plain (padding 12 @ ''__byteveil_condition_f0_pc0 = true'' @ newline), End_line 8] @ behind))"
proof -
  have "writeRange (rangeFuel guardFields) guardFields [] sampleContext (plainRange 0 11 0) 0 [] = Some guardLines"
    by (rule writeRange_mono [OF both_lines(1)]) (use both_fuel in simp)
  moreover have "guardLines = take 6 guardLines @ [Plain (padding 12 @ ''return r1'' @ newline),
      Plain (padding 12 @ ''__byteveil_condition_f0_pc0 = true'' @ newline), End_line 8] @ drop 9 guardLines"
    by (simp add: guardLines_def padding_def numeral_eq_Suc)
  ultimately show ?thesis using accepted_both by metis
qed

theorem nested_repeat_never_left:
  "accepted nestedFields [] \<and> 8 \<in> set (controlSuccessors nestedFields (instrAt nestedFields 6)) \<and>
   (\<exists>ls. writeRange (rangeFuel nestedFields) nestedFields [] sampleContext (plainRange 0 10 0) 0 [] = Some ls \<and>
     Loop_do 4 ''while true'' \<in> set ls \<and> (\<forall>d. Break d \<notin> set ls))"
proof -
  have "writeRange (rangeFuel nestedFields) nestedFields [] sampleContext (plainRange 0 10 0) 0 [] = Some nestedLines"
    by (rule writeRange_mono [OF both_lines(2)]) (use both_fuel in simp)
  moreover have "8 \<in> set (controlSuccessors nestedFields (instrAt nestedFields 6))"
    by (simp add: controlSuccessors_def rawSuccessors_def nestedFields_def instrAt_def Let_def wordFields_def blankInstr_def)
  ultimately show ?thesis using accepted_both by (auto simp: nestedLines_def)
qed

end
