(* ===== verification/Register_Text.thy ===== *)
theory Register_Text
  imports IR_Text
begin

unbundle bit_operations_syntax

text \<open>
  The register-state renderer of \<^verbatim>\<open>byteveil_decompiler/RegisterDecompile.cpp\<close>: every prototype of a
  tree becomes a function whose registers are a table and whose control flow is a variable \<^verbatim>\<open>pc\<close> in
  a loop over the basic blocks. The switch over the opcodes is cut into groups of cases that stand
  together in the source; a group answers the lines it writes and whether it set \<^verbatim>\<open>terminated\<close>, or
  nothing for an opcode of another group.
\<close>

section \<open>The functions of a tree\<close>

record function_info =
  fi_proto :: "lproto option"
  fi_id :: nat
  fi_childIds :: "nat list"

text \<open>\<^verbatim>\<open>collect\<close> with the vector \<^verbatim>\<open>functions\<close> passed along; the ids are answered first.\<close>

function (sequential) collect :: "lproto option \<Rightarrow> function_info list \<Rightarrow> nat \<times> function_info list"
  and collectAll :: "lproto option list \<Rightarrow> function_info list \<Rightarrow> nat list \<times> function_info list" where
  "collect None fs = (length fs, fs @ [\<lparr>fi_proto = None, fi_id = length fs, fi_childIds = []\<rparr>])"
| "collect (Some p) fs =
    (let me = length fs;
         (kids, gs) = collectAll (cells (subprotos p))
           (fs @ [\<lparr>fi_proto = Some p, fi_id = me, fi_childIds = []\<rparr>])
     in (me, gs[me := (gs ! me)\<lparr>fi_childIds := kids\<rparr>]))"
| "collectAll [] fs = ([], fs)"
| "collectAll (q # qs) fs =
    (let (me, gs) = collect q fs; (ids, hs) = collectAll qs gs in (me # ids, hs))"
  by pat_completeness auto
termination
  by (relation "measure (\<lambda>x. case x of Inl (q, fs) \<Rightarrow> size_option size q
      | Inr (qs, fs) \<Rightarrow> size_list (size_option size) qs)") (auto simp: size_children)

definition functionsOfTree :: "lproto option \<Rightarrow> function_info list" where
  "functionsOfTree root = snd (collect root [])"

text \<open>The map \<^verbatim>\<open>protoIds\<close>: a prototype that occurs twice keeps the last id.\<close>

definition protoIds :: "function_info list \<Rightarrow> nat \<Rightarrow> nat option" where
  "protoIds fs = map_of (rev (concat (map (\<lambda>f. case fi_proto f of None \<Rightarrow> [] | Some p \<Rightarrow> [(p_addr p, fi_id f)]) fs)))"

section \<open>Constants\<close>

definition codeLine :: "nat \<Rightarrow> string \<Rightarrow> string" where
  "codeLine depth text = replicate (depth * 4) CHR '' '' @ text @ newline"

definition escapedByte :: "char \<Rightarrow> string" where
  "escapedByte c =
    (if c = CHR 0x5C then [CHR 0x5C, CHR 0x5C]
     else if c = CHR 0x22 then [CHR 0x5C, CHR 0x22]
     else if c = CHR 0x07 then [CHR 0x5C, CHR ''a'']
     else if c = CHR 0x08 then [CHR 0x5C, CHR ''b'']
     else if c = CHR 0x0C then [CHR 0x5C, CHR ''f'']
     else if c = CHR 0x0A then [CHR 0x5C, CHR ''n'']
     else if c = CHR 0x0D then [CHR 0x5C, CHR ''r'']
     else if c = CHR 0x09 then [CHR 0x5C, CHR ''t'']
     else if c = CHR 0x0B then [CHR 0x5C, CHR ''v'']
     else if 32 \<le> byte c \<and> byte c \<le> 126 then [c]
     else CHR 0x5C # replicate (3 - length (nat_text (byte c))) CHR ''0'' @ nat_text (byte c))"

definition stringText :: "string \<Rightarrow> string" where
  "stringText s = [CHR 0x22] @ concat (map escapedByte s) @ [CHR 0x22]"

definition doubleText :: "u64 \<Rightarrow> string" where
  "doubleText w =
    (case double_of w of NotANumber _ \<Rightarrow> ''(0 / 0)''
     | Infinite negative \<Rightarrow> (if negative then ''(-1 / 0)'' else ''(1 / 0)'')
     | Finite negative n d \<Rightarrow> stream_text 17 (Finite negative n d))"

text \<open>\<^verbatim>\<open>tableConstant\<close>, over the function that renders a value at the depth it was given.\<close>

definition tableConstant :: "(tvalue \<Rightarrow> string) \<Rightarrow> (tvalue list \<times> (tvalue \<times> tvalue) list) option \<Rightarrow> string" where
  "tableConstant render table =
    (case table of None \<Rightarrow> ''{}''
     | Some (array, nodes) \<Rightarrow>
       (let fields =
            map (\<lambda>n. ''['' @ nat_text (n + 1) @ ''] = '' @ render (array ! n))
              (filter (\<lambda>n. array ! n \<noteq> TNil) [0..<length array]) @
            map (\<lambda>(key, v). ''['' @ render key @ ''] = '' @ render v) (filter (\<lambda>(key, v). v \<noteq> TNil) nodes)
        in ''{'' @ (if fields = [] then [] else '' '' @ join '', '' fields @ '' '') @ ''}''))"

function (sequential) constantValue :: "nat \<Rightarrow> tvalue \<Rightarrow> string" where
  "constantValue depth TNil = ''nil''"
| "constantValue depth (TBoolean b) = (if b then ''true'' else ''false'')"
| "constantValue depth (TNumber w) = doubleText w"
| "constantValue depth (TInteger w) = int_text (sint w)"
| "constantValue depth (TString s) =
    (case s of Some t \<Rightarrow> stringText t | None \<Rightarrow> ''nil --[[ null string ]]'')"
| "constantValue depth (TFunction a) = ''nil --[[ closure constant ]]''"
| "constantValue depth (TTable t) =
    (if depth \<ge> 16 then ''{} --[[ nested table depth limit ]]''
     else tableConstant (\<lambda>v. constantValue (depth + 1) v) t)"
| "constantValue depth _ = ''nil --[[ unsupported constant type ]]''"
  by pat_completeness auto
termination by (relation "measure (\<lambda>(depth, v). 16 - depth)") auto

definition constantAt :: "lproto \<Rightarrow> int \<Rightarrow> string" where
  "constantAt p index =
    (if index < 0 \<or> index \<ge> sizek p then ''nil --[[ invalid constant index ]]''
     else constantValue 0 (cells (kconst p) ! nat index))"

definition importExpression :: "lproto \<Rightarrow> u32 \<Rightarrow> string" where
  "importExpression p aux =
    (let count = unat (drop_bit 30 aux);
         ids = [drop_bit 20 aux AND 1023, drop_bit 10 aux AND 1023, aux AND 1023]
     in if count < 1 \<or> count > 3 then ''nil --[[ invalid import path ]]''
        else ''getfenv()['' @ constantAt p (int (unat (ids ! 0))) @ '']'' @
          concat (map (\<lambda>n. ''['' @ constantAt p (int (unat (ids ! n))) @ '']'') [1..<count]))"

definition getText :: "int \<Rightarrow> string" where
  "getText r = ''get('' @ int_text r @ '')''"

definition setText :: "int \<Rightarrow> string \<Rightarrow> string" where
  "setText r v = ''set('' @ int_text r @ '', '' @ v @ '')''"

definition closureId :: "function_info list \<Rightarrow> lproto \<Rightarrow> int \<Rightarrow> int" where
  "closureId fs p index =
    (if index < 0 \<or> index \<ge> sizek p then -1
     else case cells (kconst p) ! nat index of
       TFunction (Some addr) \<Rightarrow> (case protoIds fs addr of None \<Rightarrow> -1 | Some n \<Rightarrow> int n)
     | _ \<Rightarrow> -1)"

section \<open>Blocks\<close>

text \<open>What the scan of \<^verbatim>\<open>blocks\<close> pushes for the instruction at \<open>pc\<close>, and the scan.\<close>

definition pushedStarts :: "u32 \<Rightarrow> lproto \<Rightarrow> nat \<Rightarrow> nat list" where
  "pushedStarts oob p pc =
    (let raw = codeAt oob p pc; op = LUAU_INSN_OP raw; length = getOpLength op;
         target = getJumpTarget raw (of_nat pc)
     in (if target \<ge> 0 \<and> target < sizecode p then [nat target] else []) @
        (if (target \<ge> 0 \<or> op = LOP_RETURN) \<and> int (pc + length) < sizecode p then [pc + length] else []))"

function scanStarts :: "u32 \<Rightarrow> lproto \<Rightarrow> nat \<Rightarrow> nat list" where
  "scanStarts oob p pc =
    (if int pc < sizecode p
     then pushedStarts oob p pc @ scanStarts oob p (pc + getOpLength (LUAU_INSN_OP (codeAt oob p pc)))
     else [])"
  by pat_completeness auto
termination by (relation "measure (\<lambda>(oob, p, pc). nat (sizecode p - int pc))") auto

declare scanStarts.simps [simp del]

definition registerStarts :: "u32 \<Rightarrow> lproto \<Rightarrow> nat list" where
  "registerStarts oob p = remdups_adj (sort (0 # scanStarts oob p 0))"

definition registerBlocks :: "u32 \<Rightarrow> lproto option \<Rightarrow> (nat \<times> nat) list" where
  "registerBlocks oob q =
    (case q of None \<Rightarrow> []
     | Some p \<Rightarrow> if sizecode p \<le> 0 then []
         else let starts = registerStarts oob p in zip starts (tl starts @ [nat (sizecode p)]))"

section \<open>Instructions\<close>

text \<open>
  What the loop over a block reads of an instruction; \<open>ro_next\<close> is the text of the block that
  follows in the order of the code, or of -1.
\<close>

record register_op =
  ro_pc :: nat
  ro_op :: nat
  ro_a :: nat
  ro_b :: nat
  ro_c :: nat
  ro_d :: int
  ro_aux :: u32
  ro_target :: int
  ro_next :: string

definition readRegisterOp :: "u32 \<Rightarrow> lproto \<Rightarrow> int \<Rightarrow> nat \<Rightarrow> register_op" where
  "readRegisterOp oob p fallthrough pc =
    (let raw = codeAt oob p pc; op = LUAU_INSN_OP raw in
     \<lparr>ro_pc = pc, ro_op = op, ro_a = LUAU_INSN_A raw, ro_b = LUAU_INSN_B raw, ro_c = LUAU_INSN_C raw,
      ro_d = LUAU_INSN_D raw, ro_aux = (if getOpLength op = 2 then codeAt oob p (pc + 1) else 0),
      ro_target = getJumpTarget raw (of_nat pc),
      ro_next = (if fallthrough \<ge> 0 then int_text fallthrough else ''-1'')\<rparr>)"

type_synonym case_lines = "(string list \<times> bool) option"

text \<open>A case that writes the given lines at depth 3 and lets the block go on, or ends it.\<close>

definition goesOn :: "string list \<Rightarrow> case_lines" where
  "goesOn ls = Some (map (codeLine 3) ls, False)"

definition closesBlock :: "string list \<Rightarrow> case_lines" where
  "closesBlock ls = Some (map (codeLine 3) ls, True)"

definition binaryText :: "luau_opcode \<Rightarrow> string" where
  "binaryText op =
    (if op = LOP_ADD \<or> op = LOP_ADDK then ''+'' else if op = LOP_SUB \<or> op = LOP_SUBK then ''-''
     else if op = LOP_MUL \<or> op = LOP_MULK then ''*'' else if op = LOP_DIV \<or> op = LOP_DIVK then ''/''
     else if op = LOP_MOD \<or> op = LOP_MODK then ''%'' else if op = LOP_POW \<or> op = LOP_POWK then ''^''
     else if op = LOP_AND \<or> op = LOP_ANDK then ''and'' else if op = LOP_OR \<or> op = LOP_ORK then ''or''
     else ''?'')"

definition jumpLine :: "int \<Rightarrow> string" where
  "jumpLine target = ''pc = '' @ int_text target"

definition branchLine :: "string \<Rightarrow> string \<Rightarrow> string \<Rightarrow> string" where
  "branchLine condition yes no = ''if '' @ condition @ '' then pc = '' @ yes @ '' else pc = '' @ no @ '' end''"

text \<open>From \<^verbatim>\<open>LOP_NOP\<close> to \<^verbatim>\<open>LOP_SETTABLEN\<close>.\<close>

definition accessCase :: "lproto \<Rightarrow> register_op \<Rightarrow> case_lines" where
  "accessCase p w =
    (let op = ro_op w; a = int (ro_a w); b = int (ro_b w); c = int (ro_c w);
         wide = constantAt p (sint (ro_aux w)); low = constantAt p (int (unat (ro_aux w AND 0xffff))) in
     if op \<in> {LOP_NOP, LOP_COVERAGE, LOP_PREPVARARGS} then goesOn []
     else if op = LOP_BREAK then goesOn [''-- BREAK/debug instruction retained as a no-op'']
     else if op = LOP_LOADNIL then goesOn [setText a ''nil'']
     else if op = LOP_LOADB then
       (let l = setText a (if ro_b w \<noteq> 0 then ''true'' else ''false'') in
        if ro_c w \<noteq> 0 then closesBlock [l, jumpLine (ro_target w)] else goesOn [l])
     else if op = LOP_LOADN then goesOn [setText a (int_text (ro_d w))]
     else if op = LOP_LOADK then goesOn [setText a (constantAt p (ro_d w))]
     else if op = LOP_LOADKX then goesOn [setText a wide]
     else if op = LOP_MOVE then goesOn [setText a (getText b)]
     else if op = LOP_GETGLOBAL then goesOn [setText a (''getfenv()['' @ wide @ '']'')]
     else if op = LOP_SETGLOBAL then goesOn [''getfenv()['' @ wide @ ''] = '' @ getText a]
     else if op = LOP_GETUPVAL then goesOn [setText a (''upvalue('' @ int_text b @ '').value'')]
     else if op = LOP_SETUPVAL then goesOn [''upvalue('' @ int_text b @ '').value = '' @ getText a]
     else if op = LOP_CLOSEUPVALS then
       goesOn [''-- upvalue cells already have heap lifetime for registers >= '' @ int_text a]
     else if op = LOP_GETIMPORT then goesOn [setText a (importExpression p (ro_aux w))]
     else if op = LOP_GETTABLE then goesOn [setText a (getText b @ ''['' @ getText c @ '']'')]
     else if op = LOP_SETTABLE then goesOn [getText b @ ''['' @ getText c @ ''] = '' @ getText a]
     else if op = LOP_GETTABLEKS \<or> op = LOP_GETUDATAKS then goesOn [setText a (getText b @ ''['' @ low @ '']'')]
     else if op = LOP_SETTABLEKS \<or> op = LOP_SETUDATAKS then goesOn [getText b @ ''['' @ low @ ''] = '' @ getText a]
     else if op = LOP_GETTABLEN then goesOn [setText a (getText b @ ''['' @ int_text (c + 1) @ '']'')]
     else if op = LOP_SETTABLEN then goesOn [getText b @ ''['' @ int_text (c + 1) @ ''] = '' @ getText a]
     else None)"

text \<open>
  Closures. \<^verbatim>\<open>captureName\<close> and \<^verbatim>\<open>captureIndex\<close> live as long as the block; the name is empty before the
  first closure of it.
\<close>

definition capturesName :: "nat \<Rightarrow> string" where
  "capturesName pc = ''captures['' @ nat_text pc @ '']''"

definition closureLines :: "register_op \<Rightarrow> int \<Rightarrow> string \<Rightarrow> string list" where
  "closureLines w child unresolved =
    (let name = capturesName (ro_pc w) in
     [name @ '' = {}'',
      setText (int (ro_a w))
        (if child \<ge> 0 then ''function(...) return byteveil_functions['' @ int_text child @ ''](''
           @ name @ '', ...) end''
         else unresolved)])"

definition captureLines :: "register_op \<Rightarrow> string \<times> nat \<Rightarrow> string list \<times> nat" where
  "captureLines w cap =
    (let (name, index) = cap; b = int_text (int (ro_b w));
         slot = name @ ''['' @ nat_text index @ ''] = '' in
     if name = [] then ([''-- orphan CAPTURE '' @ int_text (int (ro_a w)) @ '', '' @ b], index)
     else if ro_a w = LCT_VAL then ([slot @ ''{ value = '' @ getText (int (ro_b w)) @ '' }''], index + 1)
     else if ro_a w = LCT_REF then
       ([''if not cells['' @ b @ ''] then cells['' @ b @ ''] = { value = registers['' @ b @ ''] }; registers['' @
           b @ ''] = nil end'',
         slot @ ''cells['' @ b @ '']''], index + 1)
     else if ro_a w = LCT_UPVAL then ([slot @ ''upvalue('' @ b @ '')''], index + 1)
     else ([''-- unknown capture type '' @ int_text (int (ro_a w))], index))"

definition closureCase ::
  "function_info list \<Rightarrow> function_info \<Rightarrow> lproto \<Rightarrow> register_op \<Rightarrow> string \<times> nat \<Rightarrow> (string list \<times> string \<times> nat) option" where
  "closureCase fs f p w cap =
    (if ro_op w = LOP_NEWCLOSURE then
       (let child = (if ro_d w \<ge> 0 \<and> ro_d w < int (length (fi_childIds f))
                     then int (fi_childIds f ! nat (ro_d w)) else -1)
        in Some (closureLines w child ''nil --[[ unresolved child prototype ]]'', capturesName (ro_pc w), 0))
     else if ro_op w = LOP_DUPCLOSURE then
       Some (closureLines w (closureId fs p (ro_d w)) ''nil --[[ unresolved duplicated closure ]]'',
         capturesName (ro_pc w), 0)
     else if ro_op w = LOP_CAPTURE then
       (let (ls, index) = captureLines w cap in Some (ls, fst cap, index))
     else None)"

text \<open>Method look-ups, calls (\<^verbatim>\<open>emitCall\<close>) and returns.\<close>

definition emitCallLines :: "int \<Rightarrow> int \<Rightarrow> int \<Rightarrow> string list" where
  "emitCallLines a b c =
    [codeLine 3 (''call_args = range('' @ int_text (a + 1) @ '', '' @
       (if b = 0 then ''top'' else int_text (a + b - 1)) @ '')''),
     codeLine 3 (''call_results = table.pack('' @ getText a @ ''(table.unpack(call_args, 1, call_args.n)))'')] @
    (if c = 0 then
       [codeLine 3 ''for result_index = 1, call_results.n do'',
        codeLine 4 (''set('' @ int_text a @ '' + result_index - 1, call_results[result_index])''),
        codeLine 3 ''end'',
        codeLine 3 (''top = '' @ int_text a @ '' + call_results.n - 1'')]
     else map (\<lambda>r. codeLine 3 (setText (a + r) (''call_results['' @ int_text (r + 1) @ '']''))) [0..c - 2])"

definition callCase :: "lproto \<Rightarrow> register_op \<Rightarrow> case_lines" where
  "callCase p w =
    (let op = ro_op w; a = int (ro_a w); b = int (ro_b w); c = int (ro_c w) in
     if op = LOP_NAMECALL \<or> op = LOP_NAMECALLUDATA then
       goesOn [setText a (getText b @ ''['' @ constantAt p (int (unat (ro_aux w AND 0xffff))) @ '']''),
               setText (a + 1) (getText b)]
     else if op = LOP_CALL \<or> op = LOP_CALLFB then Some (emitCallLines a b c, False)
     else if op = LOP_RETURN then
       closesBlock (if b = 1 then [''return'']
         else [''return_values = range('' @ int_text a @ '', '' @ (if b = 0 then ''top'' else int_text (a + b - 2)) @ '')'',
               ''return table.unpack(return_values, 1, return_values.n)''])
     else None)"

text \<open>From \<^verbatim>\<open>LOP_JUMP\<close> to \<^verbatim>\<open>LOP_JUMPXEQKS\<close>.\<close>

definition comparisonText :: "luau_opcode \<Rightarrow> string \<Rightarrow> string \<Rightarrow> string" where
  "comparisonText op x y =
    (if op = LOP_JUMPIFEQ then x @ '' == '' @ y
     else if op = LOP_JUMPIFLE then x @ '' <= '' @ y
     else if op = LOP_JUMPIFLT then x @ '' < '' @ y
     else if op = LOP_JUMPIFNOTEQ then x @ '' ~= '' @ y
     else if op = LOP_JUMPIFNOTLE then ''not ('' @ x @ '' <= '' @ y @ '')''
     else ''not ('' @ x @ '' < '' @ y @ '')'')"

definition jumpCase :: "lproto \<Rightarrow> register_op \<Rightarrow> case_lines" where
  "jumpCase p w =
    (let op = ro_op w; a = getText (int (ro_a w)); aux = ro_aux w; target = int_text (ro_target w) in
     if op \<in> {LOP_JUMP, LOP_JUMPBACK, LOP_JUMPX, LOP_FORGPREP, LOP_FORGPREP_INEXT, LOP_FORGPREP_NEXT} then
       closesBlock ((if op = LOP_FORGPREP
          then [''-- generic iterator metamethod preparation is represented by the loop call below''] else []) @
         [jumpLine (ro_target w)])
     else if op = LOP_JUMPIF \<or> op = LOP_JUMPIFNOT then
       closesBlock [branchLine ((if op = LOP_JUMPIFNOT then ''not '' else []) @ a) target (ro_next w)]
     else if op \<in> {LOP_JUMPIFEQ, LOP_JUMPIFLE, LOP_JUMPIFLT, LOP_JUMPIFNOTEQ, LOP_JUMPIFNOTLE, LOP_JUMPIFNOTLT} then
       closesBlock [branchLine (comparisonText op a (getText (sint aux))) target (ro_next w)]
     else if op \<in> {LOP_JUMPXEQKNIL, LOP_JUMPXEQKB, LOP_JUMPXEQKN, LOP_JUMPXEQKS} then
       (let v = (if op = LOP_JUMPXEQKNIL then ''nil''
                 else if op = LOP_JUMPXEQKB then (if aux AND 1 \<noteq> 0 then ''true'' else ''false'')
                 else constantAt p (int (unat (aux AND 0x00ffffff))));
            negate = (aux AND 0x80000000 \<noteq> 0)
        in closesBlock [branchLine (a @ (if negate then '' ~= '' else '' == '') @ v) target (ro_next w)])
     else None)"

text \<open>From \<^verbatim>\<open>LOP_ADD\<close> to \<^verbatim>\<open>LOP_SETLIST\<close>.\<close>

definition arithmeticCase :: "lproto \<Rightarrow> register_op \<Rightarrow> case_lines" where
  "arithmeticCase p w =
    (let op = ro_op w; a = int (ro_a w); b = getText (int (ro_b w)); c = getText (int (ro_c w));
         kb = constantAt p (int (ro_b w)); kc = constantAt p (int (ro_c w)) in
     if op \<in> {LOP_ADD, LOP_SUB, LOP_MUL, LOP_DIV, LOP_MOD, LOP_POW, LOP_AND, LOP_OR} then
       goesOn [setText a (''('' @ b @ '' '' @ binaryText op @ '' '' @ c @ '')'')]
     else if op \<in> {LOP_ADDK, LOP_SUBK, LOP_MULK, LOP_DIVK, LOP_MODK, LOP_POWK, LOP_ANDK, LOP_ORK} then
       goesOn [setText a (''('' @ b @ '' '' @ binaryText op @ '' '' @ kc @ '')'')]
     else if op = LOP_SUBRK \<or> op = LOP_DIVRK then
       goesOn [setText a (''('' @ kb @ (if op = LOP_SUBRK then '' - '' else '' / '') @ c @ '')'')]
     else if op = LOP_IDIV then goesOn [setText a (''('' @ b @ '' // '' @ c @ '')'')]
     else if op = LOP_IDIVK then goesOn [setText a (''('' @ b @ '' // '' @ kc @ '')'')]
     else if op = LOP_CONCAT then
       goesOn [setText a (''('' @ join '' .. '' (map getText [int (ro_b w)..int (ro_c w)]) @ '')'')]
     else if op = LOP_NOT then goesOn [setText a (''not '' @ b)]
     else if op = LOP_MINUS then goesOn [setText a (''-'' @ b)]
     else if op = LOP_LENGTH then goesOn [setText a (''#'' @ b)]
     else if op = LOP_NEWTABLE then goesOn [setText a ''{}'']
     else if op = LOP_DUPTABLE then goesOn [setText a (constantAt p (ro_d w))]
     else if op = LOP_SETLIST then
       (let first = int_text (int (ro_b w));
            final = (if ro_c w = 0 then ''top'' else int_text (int (ro_b w) + int (ro_c w) - 2))
        in goesOn [''for source = '' @ first @ '', '' @ final @ '' do '' @ getText a @ ''['' @
             nat_text (unat (ro_aux w)) @ '' + source - '' @ first @ ''] = get(source) end''])
     else None)"

text \<open>Numeric and generic loops.\<close>

definition loopCondition :: "int \<Rightarrow> string" where
  "loopCondition a =
    (let limit = getText a; step = getText (a + 1); index = getText (a + 2) in
     ''(('' @ step @ '' > 0 and '' @ index @ '' <= '' @ limit @ '') or (not ('' @ step @ '' > 0) and '' @
     limit @ '' <= '' @ index @ ''))'')"

definition loopCase :: "register_op \<Rightarrow> case_lines" where
  "loopCase w =
    (let op = ro_op w; a = int (ro_a w); target = int_text (ro_target w) in
     if op = LOP_FORNPREP then closesBlock [branchLine (loopCondition a) (ro_next w) target]
     else if op = LOP_FORNLOOP then
       closesBlock [setText (a + 2) (getText (a + 2) @ '' + '' @ getText (a + 1)),
         branchLine (loopCondition a) target (ro_next w)]
     else if op \<in> {LOP_FORGLOOP, LOP_FORGLOOP_INEXT, LOP_FORGLOOP_NEXT} then
       (let variables = (if op = LOP_FORGLOOP then int (unat (ro_aux w AND 0xff)) else 2) in
        closesBlock ([''iterator_results = table.pack('' @ getText a @ ''('' @ getText (a + 1) @ '', '' @ getText (a + 2) @ ''))''] @
          map (\<lambda>v. setText (a + 3 + v) (''iterator_results['' @ int_text (v + 1) @ '']'')) [0..variables - 1] @
          [setText (a + 2) ''iterator_results[1]'',
           branchLine ''iterator_results[1] ~= nil'' target (ro_next w)]))
     else None)"

text \<open>Variable arguments, fast calls and the \<^verbatim>\<open>default\<close> case.\<close>

definition otherCase :: "lproto \<Rightarrow> register_op \<Rightarrow> string list \<times> bool" where
  "otherCase p w =
    (let op = ro_op w; a = int (ro_a w); params = int (numparams p) in
     if op = LOP_GETVARARGS then
       (map (codeLine 3)
         (if ro_b w = 0 then
            [''vararg_count = math.max(0, select('' @ quoted ''#'' @ '', ...) - '' @ int_text params @ '')'',
             ''for vararg_index = 1, vararg_count do set('' @ int_text a @ '' + vararg_index - 1, select('' @
               int_text params @ '' + vararg_index, ...)) end'',
             ''top = '' @ int_text a @ '' + vararg_count - 1'']
          else map (\<lambda>v. setText (a + v) (''select('' @ int_text (params + v + 1) @ '', ...)'')) [0..int (ro_b w) - 2]),
        False)
     else if isFastCall op then
       (map (codeLine 3)
         (''-- FASTCALL optimization omitted; execute its ordinary fallback sequence'' #
          (if ro_target w \<ge> 0 then [''pc = '' @ ro_next w] else [])), ro_target w \<ge> 0)
     else ([codeLine 3 (''-- unsupported opcode @'' @ nat_text (ro_pc w) @ '': '' @ opcodeName op)], False))"

text \<open>The switch.\<close>

definition orElse :: "'a option \<Rightarrow> 'a option \<Rightarrow> 'a option" where
  "orElse x y = (case x of None \<Rightarrow> y | Some v \<Rightarrow> Some v)"

definition plainCase :: "lproto \<Rightarrow> register_op \<Rightarrow> string list \<times> bool" where
  "plainCase p w =
    (case orElse (accessCase p w) (orElse (callCase p w) (orElse (jumpCase p w)
       (orElse (arithmeticCase p w) (loopCase w)))) of
       Some r \<Rightarrow> r
     | None \<Rightarrow> otherCase p w)"

definition instructionLines ::
  "function_info list \<Rightarrow> function_info \<Rightarrow> lproto \<Rightarrow> register_op \<Rightarrow> string \<times> nat \<Rightarrow> string list \<times> bool \<times> string \<times> nat" where
  "instructionLines fs f p w cap =
    (case closureCase fs f p w cap of
       Some (ls, cap') \<Rightarrow> (map (codeLine 3) ls, False, cap')
     | None \<Rightarrow> (let (ls, t) = plainCase p w in (ls, t, cap)))"

section \<open>Blocks, functions and the module\<close>

function blockLines ::
  "u32 \<Rightarrow> function_info list \<Rightarrow> function_info \<Rightarrow> lproto \<Rightarrow> int \<Rightarrow> nat \<Rightarrow> nat \<Rightarrow> string \<times> nat \<Rightarrow> string list \<times> bool" where
  "blockLines oob fs f p fallthrough stop pc cap =
    (if pc < stop then
       (let w = readRegisterOp oob p fallthrough pc;
            (ls, t, cap') = instructionLines fs f p w cap;
            (ms, u) = blockLines oob fs f p fallthrough stop (pc + getOpLength (ro_op w)) cap'
        in (ls @ ms, t \<or> u))
     else ([], False))"
  by pat_completeness auto
termination by (relation "measure (\<lambda>(oob, fs, f, p, fallthrough, stop, pc, cap). stop - pc)")
    (auto intro!: diff_less_mono2)

declare blockLines.simps [simp del]

text \<open>The branch of the block number \<open>n\<close>, without the line that tests \<^verbatim>\<open>pc\<close>.\<close>

definition fallthroughOf :: "(nat \<times> nat) list \<Rightarrow> nat \<Rightarrow> int" where
  "fallthroughOf bs n = (if n + 1 < length bs then int (fst (bs ! (n + 1))) else -1)"

definition branchBody ::
  "u32 \<Rightarrow> function_info list \<Rightarrow> function_info \<Rightarrow> lproto \<Rightarrow> (nat \<times> nat) list \<Rightarrow> nat \<Rightarrow> string list" where
  "branchBody oob fs f p bs n =
    (let fallthrough = fallthroughOf bs n;
         (ls, terminated) = blockLines oob fs f p fallthrough (snd (bs ! n)) (fst (bs ! n)) ([], 0)
     in ls @ (if terminated then []
              else [codeLine 3 (if fallthrough \<ge> 0 then jumpLine fallthrough else ''return'')]))"

definition branchTest :: "(nat \<times> nat) list \<Rightarrow> nat \<Rightarrow> string" where
  "branchTest bs n =
    codeLine 2 ((if n = 0 then ''if'' else ''elseif'') @ '' pc == '' @ nat_text (fst (bs ! n)) @ '' then'')"

definition functionPrologue :: "string list" where
  "functionPrologue =
    [codeLine 1 ''local registers, cells = {}, {}'',
     codeLine 1 ''local captures, call_args, call_results, iterator_results, return_values, vararg_count = {}, nil, nil, nil, nil, nil'',
     codeLine 1 ''local top = -1'',
     codeLine 1 ''local function get(index)'',
     codeLine 2 ''local cell = cells[index]'',
     codeLine 2 ''if cell then return cell.value end'',
     codeLine 2 ''return registers[index]'',
     codeLine 1 ''end'',
     codeLine 1 ''local function set(index, value)'',
     codeLine 2 ''local cell = cells[index]'',
     codeLine 2 ''if cell then cell.value = value else registers[index] = value end'',
     codeLine 2 ''if index > top then top = index end'',
     codeLine 1 ''end'',
     codeLine 1 ''local function upvalue(index)'',
     codeLine 2 ''local cell = upvalues[index]'',
     codeLine 2 ''if not cell then cell = { value = nil }; upvalues[index] = cell end'',
     codeLine 2 ''return cell'',
     codeLine 1 ''end'',
     codeLine 1 ''local function range(first, last)'',
     codeLine 2 ''local values = { n = 0 }'',
     codeLine 2 ''for index = first, last do values.n = values.n + 1; values[values.n] = get(index) end'',
     codeLine 2 ''return values'',
     codeLine 1 ''end'']"

definition dispatchLines :: "u32 \<Rightarrow> function_info list \<Rightarrow> function_info \<Rightarrow> string list" where
  "dispatchLines oob fs f =
    (let bs = registerBlocks oob (fi_proto f) in
     case fi_proto f of
       Some p \<Rightarrow>
         if bs = [] then [codeLine 2 ''return'']
         else concat (map (\<lambda>n. branchTest bs n # branchBody oob fs f p bs n) [0..<length bs]) @
           [codeLine 2 ''else'',
            codeLine 3 (''error('' @ quoted ''ByteVeil reconstruction reached invalid pc '' @ '' .. tostring(pc))''),
            codeLine 2 ''end'']
     | None \<Rightarrow> [codeLine 2 ''return''])"

definition functionLines :: "u32 \<Rightarrow> function_info list \<Rightarrow> function_info \<Rightarrow> string list" where
  "functionLines oob fs f =
    (let bs = registerBlocks oob (fi_proto f) in
     [''byteveil_functions['' @ nat_text (fi_id f) @ ''] = function(upvalues, ...)'' @ newline] @
     functionPrologue @
     (case fi_proto f of None \<Rightarrow> []
      | Some p \<Rightarrow> map (\<lambda>n. codeLine 1 (setText (int n) (''select('' @ nat_text (n + 1) @ '', ...)''))) [0..<numparams p]) @
     [codeLine 1 (''local pc = '' @ nat_text (if bs = [] then 0 else fst (hd bs))),
      codeLine 1 ''while true do''] @
     dispatchLines oob fs f @
     [codeLine 1 ''end'', ''end'' @ newline @ newline])"

text \<open>\<^verbatim>\<open>Renderer::render\<close>: the source and the error message.\<close>

definition renderRegisters :: "u32 \<Rightarrow> lproto option \<Rightarrow> string \<times> string" where
  "renderRegisters oob root =
    (let fs = functionsOfTree root in
     if fs = [] \<or> fi_proto (hd fs) = None then ([], ''register-state renderer received no root prototype'')
     else
       (''-- ByteVeil Luau register-state reconstruction'' @ newline @
        ''-- Explicit control flow is retained when it cannot be reduced safely.'' @ newline @
        ''-- Unsupported runtime-specific behavior remains visible in comments.'' @ newline @
        ''local byteveil_functions = {}'' @ newline @ newline @
        concat (map (\<lambda>f. concat (functionLines oob fs f)) fs) @
        ''return byteveil_functions[0]({}, ...)'' @ newline, []))"

section \<open>When the renderer is preferred\<close>

definition needsRegisters :: "luau_opcode \<Rightarrow> bool" where
  "needsRegisters op \<longleftrightarrow> isJumpD op \<or> isFastCall op \<or> isSkipC op \<or> op = LOP_JUMPX \<or>
    op \<in> {LOP_SETUPVAL, LOP_GETTABLE, LOP_SETTABLEKS, LOP_SETTABLEN, LOP_NEWCLOSURE, LOP_DUPCLOSURE, LOP_CAPTURE,
      LOP_CALLFB, LOP_SUBRK, LOP_DIVRK, LOP_IDIV, LOP_IDIVK, LOP_GETUDATAKS, LOP_SETUDATAKS, LOP_NAMECALLUDATA}"

function scanNeeds :: "u32 \<Rightarrow> lproto \<Rightarrow> nat \<Rightarrow> bool" where
  "scanNeeds oob p pc =
    (if int pc < sizecode p then
       (let op = LUAU_INSN_OP (codeAt oob p pc) in needsRegisters op \<or> scanNeeds oob p (pc + getOpLength op))
     else False)"
  by pat_completeness auto
termination by (relation "measure (\<lambda>(oob, p, pc). nat (sizecode p - int pc))") auto

declare scanNeeds.simps [simp del]

text \<open>The recursion into children is never reached with a child left: a prototype with children is \<open>True\<close> at once.\<close>

function (sequential) treeNeeds :: "u32 \<Rightarrow> lproto option \<Rightarrow> bool"
  and anyNeeds :: "u32 \<Rightarrow> lproto option list \<Rightarrow> bool" where
  "treeNeeds oob None = False"
| "treeNeeds oob (Some p) =
    (if sizep p > 0 then True
     else scanNeeds oob p 0 \<or> anyNeeds oob (cells (subprotos p)))"
| "anyNeeds oob [] = False"
| "anyNeeds oob (q # qs) = (treeNeeds oob q \<or> anyNeeds oob qs)"
  by pat_completeness auto
termination
  by (relation "measure (\<lambda>x. case x of Inl (oob, q) \<Rightarrow> size_option size q
      | Inr (oob, qs) \<Rightarrow> size_list (size_option size) qs)") (auto simp: size_children)

end
