(* ===== verification/Register_Flow.thy ===== *)
theory Register_Flow
  imports Register_Text
begin

text \<open>
  Control flow of the register-state renderer: its blocks are the basic blocks of the IR, and the
  last line of a branch names the starts of the successors. A line is classified by what it does to
  \<^verbatim>\<open>pc\<close> (\<open>transfer_line\<close>); the cases of the switch are shown group by group to write such a line only as
  the last one, and only when they set \<^verbatim>\<open>terminated\<close>. The last part numbers the functions of a tree.
\<close>

section \<open>Lines that end a branch\<close>

definition transfer_text :: "int list \<Rightarrow> string \<Rightarrow> bool" where
  "transfer_text ns s \<longleftrightarrow>
    (case ns of
       [] \<Rightarrow> s = ''return'' \<or> s = ''return table.unpack(return_values, 1, return_values.n)''
     | [t] \<Rightarrow> s = jumpLine t
     | [t, u] \<Rightarrow> \<exists>condition. s = branchLine condition (int_text t) (int_text u)
     | _ \<Rightarrow> False)"

definition transfer_line :: "int list \<Rightarrow> string \<Rightarrow> bool" where
  "transfer_line ns l \<longleftrightarrow> (\<exists>s. l = codeLine 3 s \<and> transfer_text ns s)"

definition quiet :: "string \<Rightarrow> bool" where
  "quiet s \<longleftrightarrow> (\<forall>ns. \<not> transfer_text ns s)"

definition quiet_line :: "string \<Rightarrow> bool" where
  "quiet_line l \<longleftrightarrow> (\<forall>ns. \<not> transfer_line ns l)"

lemma codeLine_inject [simp]: "codeLine d s = codeLine d t \<longleftrightarrow> s = t"
  by (simp add: codeLine_def)

lemma transfer_codeLine [simp]: "transfer_line ns (codeLine 3 s) \<longleftrightarrow> transfer_text ns s"
  by (auto simp: transfer_line_def)

lemma quiet_codeLine [simp]: "quiet_line (codeLine 3 s) \<longleftrightarrow> quiet s"
  by (simp add: quiet_line_def quiet_def)

lemma transfer_text_head:
  assumes "transfer_text ns s"
  shows "(\<exists>t. s = jumpLine t) \<or> s = ''return'' \<or> s = ''return table.unpack(return_values, 1, return_values.n)'' \<or>
    (\<exists>condition t u. s = branchLine condition (int_text t) (int_text u))"
  using assms unfolding transfer_text_def by (auto split: list.splits)

text \<open>A line is quiet when its first character is none of those that a transfer starts with.\<close>

lemma quietI: "s = c # r \<Longrightarrow> c \<notin> {CHR ''p'', CHR ''r'', CHR ''i''} \<Longrightarrow> quiet s"
  by (auto simp: quiet_def jumpLine_def branchLine_def dest!: transfer_text_head)

lemma quiet_deeper [simp]: "quiet_line (codeLine 4 s)"
proof -
  have "codeLine 4 s = codeLine 3 (CHR '' '' # ''   '' @ s)" by (simp add: codeLine_def eval_nat_numeral)
  then show ?thesis by (simp only: quiet_codeLine) (rule quietI, rule refl, simp)
qed

lemma nat_text_last: "last (nat_text n) = digit_char (n mod 10)"
  by (subst nat_text.simps) simp

lemma int_text_last: "\<exists>d<10. int_text i \<noteq> [] \<and> last (int_text i) = digit_char d"
proof -
  have "int_text i \<noteq> [] \<and> last (int_text i) = digit_char (nat \<bar>i\<bar> mod 10)"
    by (simp add: int_text_def nat_text_last)
  then show ?thesis by (intro exI [of _ "nat \<bar>i\<bar> mod 10"]) simp
qed

lemma digit_not_l: "d < 10 \<Longrightarrow> digit_char d \<noteq> CHR ''l''"
proof
  assume d: "d < 10" and eq: "digit_char d = CHR ''l''"
  have "(of_char (digit_char d) :: nat) = of_char CHR ''l''" by (simp only: eq)
  then show False using d by (simp add: digit_char_def)
qed

lemma int_text_end: "int_text i \<noteq> []" "last (int_text i) \<noteq> CHR ''l''"
  using int_text_last [of i] digit_not_l by metis+

lemma quiet_texts [simp]:
  "c \<notin> {CHR ''p'', CHR ''r'', CHR ''i''} \<Longrightarrow> quiet (c # s)"
  "quiet (setText r v)" "quiet (getText r @ v)" "quiet (capturesName pc @ v)"
  by (auto simp: setText_def getText_def capturesName_def intro!: quietI)

lemma quiet_iterators [simp]: "quiet (CHR ''i'' # CHR ''t'' # s)"
  by (auto simp: quiet_def jumpLine_def branchLine_def dest!: transfer_text_head)

lemma quiet_range [simp]: "quiet (CHR ''r'' # CHR ''e'' # CHR ''t'' # CHR ''u'' # CHR ''r'' # CHR ''n'' # CHR ''_'' # s)"
  by (auto simp: quiet_def jumpLine_def branchLine_def dest!: transfer_text_head)

text \<open>The line that makes a cell is the one other line that starts with \<^verbatim>\<open>if\<close>.\<close>

lemma quiet_cell: "quiet (CHR ''i'' # CHR ''f'' # s @ '' = nil end'')"
proof -
  have "CHR ''i'' # CHR ''f'' # s @ '' = nil end'' \<noteq> branchLine c (int_text t) (int_text u)" for c t u
  proof
    assume eq: "CHR ''i'' # CHR ''f'' # s @ '' = nil end'' = branchLine c (int_text t) (int_text u)"
    have "(''if'' @ s @ '' = nil'') @ '' end'' = (''if '' @ c @ '' then pc = '' @ int_text t @ '' else pc = '' @ int_text u) @ '' end''"
      using eq by (simp add: branchLine_def)
    then have "''if'' @ s @ '' = nil'' = ''if '' @ c @ '' then pc = '' @ int_text t @ '' else pc = '' @ int_text u"
      by (simp only: append_same_eq)
    then have "last (''if'' @ s @ '' = nil'') = last (''if '' @ c @ '' then pc = '' @ int_text t @ '' else pc = '' @ int_text u)"
      by (rule arg_cong)
    then show False using int_text_end [of u] by (simp add: last_append)
  qed
  then show ?thesis by (auto simp: quiet_def jumpLine_def dest!: transfer_text_head)
qed

section \<open>What the cases write\<close>

text \<open>The names the last line of an ending instruction gives to \<^verbatim>\<open>pc\<close>; \<open>ft\<close> is the block that follows, or -1.\<close>

definition instruction_exits :: "register_op \<Rightarrow> int \<Rightarrow> int list" where
  "instruction_exits w ft =
    (let op = ro_op w in
     if op = LOP_RETURN then []
     else if op \<in> {LOP_LOADB, LOP_JUMP, LOP_JUMPBACK, LOP_JUMPX, LOP_FORGPREP, LOP_FORGPREP_INEXT, LOP_FORGPREP_NEXT}
     then [ro_target w]
     else if isFastCall op then [ft]
     else if op = LOP_FORNPREP then [ft, ro_target w]
     else [ro_target w, ft])"

definition ends_block :: "register_op \<Rightarrow> bool" where
  "ends_block w \<longleftrightarrow>
    (let op = ro_op w in
     op = LOP_RETURN \<or> op = LOP_LOADB \<and> ro_c w \<noteq> 0 \<or> isJumpD op \<and> op \<noteq> LOP_CMPPROTO \<or> op = LOP_JUMPX \<or>
     op \<in> {LOP_FORGLOOP_INEXT, LOP_FORGLOOP_NEXT} \<or> isFastCall op \<and> ro_target w \<ge> 0)"

definition case_shape :: "register_op \<Rightarrow> int \<Rightarrow> string list \<times> bool \<Rightarrow> bool" where
  "case_shape w ft r \<longleftrightarrow>
    (snd r \<longleftrightarrow> ends_block w) \<and>
    (if snd r then fst r \<noteq> [] \<and> transfer_line (instruction_exits w ft) (last (fst r)) \<and>
       list_all quiet_line (butlast (fst r))
     else list_all quiet_line (fst r))"

lemma goesOn_shape:
  "goesOn ss = Some r \<Longrightarrow> list_all quiet ss \<Longrightarrow> \<not> ends_block w \<Longrightarrow> case_shape w ft r"
  by (auto simp: goesOn_def case_shape_def list_all_iff)

lemma closesBlock_shape:
  "closesBlock ss = Some r \<Longrightarrow> ss \<noteq> [] \<Longrightarrow> list_all quiet (butlast ss) \<Longrightarrow>
    transfer_text (instruction_exits w ft) (last ss) \<Longrightarrow> ends_block w \<Longrightarrow> case_shape w ft r"
  by (auto simp: closesBlock_def case_shape_def list_all_iff last_map simp flip: map_butlast)

lemma accessCase_shape:
  assumes "accessCase p w = Some r"
  shows "case_shape w ft r"
  using assms unfolding accessCase_def Let_def
  by (auto split: if_splits elim!: goesOn_shape closesBlock_shape
      simp: ends_block_def isJumpD_def isFastCall_def instruction_exits_def transfer_text_def)

lemma callCase_shape:
  assumes "callCase p w = Some r"
  shows "case_shape w ft r"
proof (cases "ro_op w = LOP_CALL \<or> ro_op w = LOP_CALLFB")
  case True
  then have r: "r = (emitCallLines (int (ro_a w)) (int (ro_b w)) (int (ro_c w)), False)"
    using assms by (auto simp: callCase_def Let_def)
  have "list_all quiet_line (emitCallLines a b c)" for a b c
    by (simp add: emitCallLines_def list_all_iff)
  then show ?thesis using True r by (auto simp: case_shape_def ends_block_def isJumpD_def isFastCall_def)
next
  case False
  then show ?thesis
    using assms unfolding callCase_def Let_def
    by (auto split: if_splits elim!: goesOn_shape closesBlock_shape
        simp: ends_block_def isJumpD_def isFastCall_def instruction_exits_def transfer_text_def)
qed

lemma branch_transfer:
  "transfer_text [t, u] (branchLine c (int_text t) (int_text u))" "transfer_text [t] (jumpLine t)"
  by (auto simp: transfer_text_def)

lemma jumpCase_shape:
  assumes "jumpCase p w = Some r" "ro_next w = int_text ft"
  shows "case_shape w ft r"
  using assms unfolding jumpCase_def Let_def
  by (auto split: if_splits elim!: closesBlock_shape
      simp: ends_block_def isJumpD_def isFastCall_def instruction_exits_def branch_transfer)

lemma arithmeticCase_shape:
  assumes "arithmeticCase p w = Some r"
  shows "case_shape w ft r"
  using assms unfolding arithmeticCase_def Let_def
  by (auto split: if_splits elim!: goesOn_shape simp: ends_block_def isJumpD_def isFastCall_def)

lemma loopCase_shape:
  assumes "loopCase w = Some r" "ro_next w = int_text ft"
  shows "case_shape w ft r"
  using assms unfolding loopCase_def Let_def
  by (auto split: if_splits elim!: closesBlock_shape
      simp: ends_block_def isJumpD_def isFastCall_def instruction_exits_def branch_transfer list_all_iff butlast_append)

text \<open>The opcodes whose case no group has.\<close>

lemma no_case:
  "jumpCase p w = None \<Longrightarrow> loopCase w = None \<Longrightarrow> isJumpD (ro_op w) \<Longrightarrow> ro_op w = LOP_CMPPROTO"
  "jumpCase p w = None \<Longrightarrow> ro_op w \<noteq> LOP_JUMPX"
  "loopCase w = None \<Longrightarrow> ro_op w \<notin> {LOP_FORGLOOP_INEXT, LOP_FORGLOOP_NEXT}"
  "accessCase p w = None \<Longrightarrow> ro_op w \<noteq> LOP_LOADB" "callCase p w = None \<Longrightarrow> ro_op w \<noteq> LOP_RETURN"
  by (auto simp: jumpCase_def loopCase_def accessCase_def callCase_def isJumpD_def closesBlock_def goesOn_def Let_def
      split: if_splits)

lemma otherCase_shape:
  assumes none: "accessCase p w = None" "callCase p w = None" "jumpCase p w = None" "loopCase w = None"
    and ft: "ro_next w = int_text ft"
  shows "case_shape w ft (otherCase p w)"
proof -
  have ends: "ends_block w \<longleftrightarrow> isFastCall (ro_op w) \<and> ro_target w \<ge> 0"
    using no_case(1) [OF none(3,4)] no_case(2) [OF none(3)] no_case(3) [OF none(4)] no_case(4) [OF none(1)]
      no_case(5) [OF none(2)]
    by (auto simp: ends_block_def Let_def)
  have "transfer_text (instruction_exits w ft) (''pc = '' @ ro_next w)" if "isFastCall (ro_op w)"
    using that ft by (auto simp: instruction_exits_def isFastCall_def transfer_text_def jumpLine_def)
  then show ?thesis
    unfolding otherCase_def Let_def case_shape_def ends
    by (auto simp: list_all_iff isFastCall_def)
qed

lemma plainCase_shape:
  assumes "ro_next w = int_text ft"
  shows "case_shape w ft (plainCase p w)"
  using assms unfolding plainCase_def orElse_def
  by (auto split: option.splits
      intro: accessCase_shape callCase_shape jumpCase_shape arithmeticCase_shape loopCase_shape otherCase_shape)

text \<open>The name under which captures are written is always that of a closure of the block.\<close>

definition capture_ok :: "string \<times> nat \<Rightarrow> bool" where
  "capture_ok cap \<longleftrightarrow> fst cap = [] \<or> (\<exists>pc. fst cap = capturesName pc)"

lemma capturesName_nonempty [simp]: "capturesName pc \<noteq> []"
  by (simp add: capturesName_def)

lemma captureLines_quiet:
  assumes "capture_ok cap" "captureLines w cap = (ls, index)"
  shows "list_all quiet ls"
proof -
  have cell: "quiet (''if not cells['' @ b @ ''] then cells['' @ b @ ''] = { value = registers['' @ b @ ''] }; registers['' @
      b @ ''] = nil end'')" for b
    using quiet_cell [of "'' not cells['' @ b @ ''] then cells['' @ b @ ''] = { value = registers['' @ b @
      ''] }; registers['' @ b @ '']''"] by simp
  show ?thesis
    using assms cell unfolding captureLines_def Let_def capture_ok_def
    by (auto split: prod.splits if_splits)
qed

lemma closureCase_shape:
  assumes "closureCase fs f p w cap = Some (ls, cap')" "capture_ok cap"
  shows "case_shape w ft (map (codeLine 3) ls, False) \<and> capture_ok cap'"
proof -
  have "list_all quiet ls" "capture_ok cap'"
    using assms captureLines_quiet [OF assms(2), of w]
    by (auto simp: closureCase_def closureLines_def Let_def capture_ok_def split: if_splits prod.splits)
  moreover have "\<not> ends_block w"
    using assms(1) by (auto simp: closureCase_def ends_block_def isJumpD_def isFastCall_def split: if_splits)
  ultimately show ?thesis by (simp add: case_shape_def list_all_iff)
qed

lemma instructionLines_shape:
  assumes "instructionLines fs f p w cap = (ls, t, cap')" "ro_next w = int_text ft" "capture_ok cap"
  shows "case_shape w ft (ls, t) \<and> capture_ok cap'"
  using assms plainCase_shape [OF assms(2), of p] closureCase_shape [OF _ assms(3), of fs f p w]
  by (auto simp: instructionLines_def split: option.splits prod.splits)

section \<open>The instructions of a block\<close>

lemma code_layout_final:
  "code_layout pc n ins \<Longrightarrow> Suc k = length ins \<Longrightarrow> i_offset (ins ! k) + i_length (ins ! k) = n"
proof (induction ins arbitrary: pc k)
  case (Cons i ins)
  then show ?case by (cases k; cases ins) auto
qed simp

lemma code_layout_mono:
  assumes lay: "code_layout pc n ins" and k: "k < length ins"
  shows "j < k \<Longrightarrow> i_offset (ins ! j) + i_length (ins ! j) \<le> i_offset (ins ! k)"
  using k
proof (induction k)
  case (Suc k)
  have nxt: "i_offset (ins ! Suc k) = i_offset (ins ! k) + i_length (ins ! k)"
    using code_layout_next [OF lay Suc.prems(2)] .
  show ?case
  proof (cases "j = k")
    case False
    then have "i_offset (ins ! j) + i_length (ins ! j) \<le> i_offset (ins ! k)" using Suc by simp
    then show ?thesis using nxt by simp
  qed (simp add: nxt)
qed simp

lemma leader_offset:
  assumes lay: "code_layout 0 n ins" and n: "0 < n"
    and targets: "\<And>i. i \<in> set ins \<Longrightarrow> i_jumpTarget i = -1 \<or> i_jumpTarget i \<in> (\<lambda>j. int (i_offset j)) ` set ins"
    and x: "x \<in> set (block_starts n ins)"
  shows "\<exists>k<length ins. i_offset (ins ! k) = x"
proof -
  consider "x = 0" | i where "i \<in> set ins" "i_jumpTarget i \<ge> 0" "x = nat (i_jumpTarget i)"
    | i where "i \<in> set ins" "x = i_offset i + i_length i" "x < n"
    using x by (auto simp: set_block_starts)
  then show ?thesis
  proof cases
    case 1
    then show ?thesis using lay n by (cases ins) auto
  next
    case (2 i)
    then obtain j where "j \<in> set ins" "i_jumpTarget i = int (i_offset j)" using targets [OF 2(1)] by auto
    then show ?thesis using 2 by (auto simp: in_set_conv_nth)
  next
    case (3 i)
    then obtain k where k: "k < length ins" "ins ! k = i" by (auto simp: in_set_conv_nth)
    then have "Suc k < length ins" using 3 code_layout_final [OF lay, of k] by (cases "Suc k = length ins") auto
    then show ?thesis using code_layout_next [OF lay, of k] k 3 by auto
  qed
qed

text \<open>The last instruction of a block ends where the next block starts.\<close>

lemma block_final:
  assumes lay: "code_layout 0 n ins" and b: "b < length (build_blocks n ins)"
    and leaders: "\<And>x. x \<in> set (block_starts n ins) \<Longrightarrow> \<exists>k<length ins. i_offset (ins ! k) = x"
    and m: "m \<in> set (b_instructions (build_blocks n ins ! b))"
    and top: "\<And>j. j \<in> set (b_instructions (build_blocks n ins ! b)) \<Longrightarrow> j \<le> m"
  shows "int (i_offset (ins ! m) + i_length (ins ! m)) = block_end n (block_starts n ins) b + 1"
proof -
  let ?ls = "block_starts n ins"
  let ?is = "b_instructions (build_blocks n ins ! b)"
  let ?e = "block_end n ?ls b"
  note mem = build_blocks_mem [OF b]
  have ml: "m < length ins" and me: "int (i_offset (ins ! m)) \<le> ?e" using m mem by auto
  show ?thesis
  proof (cases "Suc m < length ins")
    case False
    then have fin: "i_offset (ins ! m) + i_length (ins ! m) = n" using code_layout_final [OF lay] ml by simp
    have "\<not> b + 1 < length ?ls"
    proof
      assume b1: "b + 1 < length ?ls"
      obtain j where j: "j < length ins" "i_offset (ins ! j) = ?ls ! (b + 1)" using leaders [OF nth_mem [OF b1]] by blast
      have "j \<le> m" using j False by simp
      then have "i_offset (ins ! j) \<le> i_offset (ins ! m)" using code_layout_mono [OF lay ml, of j] by (cases "j = m") auto
      then show False using me b1 j by (simp add: block_end_def)
    qed
    then show ?thesis using fin by (simp add: block_end_def)
  next
    case True
    have nxt: "i_offset (ins ! Suc m) = i_offset (ins ! m) + i_length (ins ! m)" using code_layout_next [OF lay True] .
    have "Suc m \<notin> set ?is" using top by fastforce
    moreover have "?ls ! b \<le> i_offset (ins ! Suc m)" using m mem nxt by simp
    ultimately have above: "?e < int (i_offset (ins ! Suc m))" using mem True by auto
    have b1: "b + 1 < length ?ls"
    proof (rule ccontr)
      assume "\<not> ?thesis"
      then show False using above code_layout_offset [OF lay True] by (simp add: block_end_def)
    qed
    obtain j where j: "j < length ins" "i_offset (ins ! j) = ?ls ! (b + 1)" using leaders [OF nth_mem [OF b1]] by blast
    have "\<not> j \<le> m"
      using j me b1 code_layout_mono [OF lay ml, of j] by (cases "j = m") (auto simp: block_end_def)
    then have "i_offset (ins ! Suc m) \<le> i_offset (ins ! j)"
      using code_layout_mono [OF lay j(1), of "Suc m"] by (cases "j = Suc m") auto
    then show ?thesis using above nxt j b1 by (simp add: block_end_def)
  qed
qed

text \<open>A block is a run of instructions from the one at its start to its last one.\<close>

lemma block_run:
  assumes lay: "code_layout 0 n ins" and b: "b < length (build_blocks n ins)"
    and leaders: "\<And>x. x \<in> set (block_starts n ins) \<Longrightarrow> \<exists>k<length ins. i_offset (ins ! k) = x"
  obtains k m where "k \<le> m" "m < length ins" "b_instructions (build_blocks n ins ! b) \<noteq> []"
    "last (b_instructions (build_blocks n ins ! b)) = m" "i_offset (ins ! k) = block_starts n ins ! b"
    "int (i_offset (ins ! m) + i_length (ins ! m)) = block_end n (block_starts n ins) b + 1"
    "\<And>j. k \<le> j \<Longrightarrow> j \<le> m \<Longrightarrow> j \<in> set (b_instructions (build_blocks n ins ! b))"
proof -
  let ?ls = "block_starts n ins"
  let ?is = "b_instructions (build_blocks n ins ! b)"
  let ?e = "block_end n ?ls b"
  note mem = build_blocks_mem [OF b]
  have bl: "b < length ?ls" using b by (simp add: length_build_blocks)
  obtain k where k: "k < length ins" "i_offset (ins ! k) = ?ls ! b" using leaders [OF nth_mem [OF bl]] by blast
  have next_leader: "int (?ls ! b) \<le> ?e"
  proof (cases "b + 1 < length ?ls")
    case True
    then have "?ls ! b < ?ls ! (b + 1)"
      using block_starts_props(1,2) [of n ins] by (simp add: sorted_wrt_nth_less strict_sorted_iff)
    then show ?thesis using True by (simp add: block_end_def)
  next
    case False
    then show ?thesis using code_layout_offset [OF lay k(1)] k(2) by (simp add: block_end_def)
  qed
  have kin: "k \<in> set ?is" using k next_leader mem by simp
  then have ne: "?is \<noteq> []" by auto
  define m where "m = last ?is"
  have m: "m \<in> set ?is" using ne by (simp add: m_def)
  have sorted: "sorted ?is" by (simp add: build_blocks_nth(4) [OF b] block_instructions_def sorted_wrt_filter)
  have top: "j \<le> m" if "j \<in> set ?is" for j
    using that ne sorted_nth_mono [OF sorted] by (auto simp: m_def last_conv_nth in_set_conv_nth)
  have ml: "m < length ins" and me: "int (i_offset (ins ! m)) \<le> ?e" using m mem by auto
  have run: "j \<in> set ?is" if "k \<le> j" "j \<le> m" for j
  proof -
    have "i_offset (ins ! k) \<le> i_offset (ins ! j)" "i_offset (ins ! j) \<le> i_offset (ins ! m)"
      using that ml code_layout_mono [OF lay, of j k] code_layout_mono [OF lay ml, of j]
      by (cases "k = j"; cases "j = m"; force)+
    then show ?thesis using that ml me k mem by simp
  qed
  have "int (i_offset (ins ! m) + i_length (ins ! m)) = ?e + 1"
    using block_final [OF lay b leaders m top] .
  moreover have "k \<le> m" using top kin by simp
  ultimately show ?thesis using ne k ml m_def run by (intro that [of k m]) auto
qed

section \<open>The blocks of the renderer\<close>

definition leads_to :: "int \<Rightarrow> instruction \<Rightarrow> nat set" where
  "leads_to n i =
    (if 0 \<le> i_jumpTarget i \<and> i_jumpTarget i < n then {nat (i_jumpTarget i)} else {}) \<union>
    (if (0 \<le> i_jumpTarget i \<or> isReturn (i_opcode i)) \<and> int (i_offset i + i_length i) < n
     then {i_offset i + i_length i} else {})"

lemma set_scanStarts: "set (scanStarts oob p pc) = (\<Union>i\<in>set (decodeFrom oob p pc). leads_to (sizecode p) i)"
proof (induction oob p pc rule: scanStarts.induct)
  case (1 oob p pc)
  show ?case
  proof (cases "int pc < sizecode p")
    case True
    let ?i = "decodeInstruction (int (maxstacksize p)) (luaG_getline p pc) (codeAt oob p pc) (codeAt oob p (pc + 1)) pc"
    have "set (pushedStarts oob p pc) = leads_to (sizecode p) ?i"
      by (auto simp: pushedStarts_def leads_to_def Let_def jumpTarget_def isReturn_def opLength_def)
    then show ?thesis
      using 1 [OF True] True
      by (simp add: scanStarts.simps [of oob p pc] decodeFrom.simps [of oob p pc] Let_def opLength_def)
  qed (simp add: scanStarts.simps decodeFrom.simps)
qed

lemma sorted_remdups_adj_distinct: "sorted (xs :: nat list) \<Longrightarrow> distinct (remdups_adj xs)"
  by (induction xs rule: remdups_adj.induct) force+

lemma registerStarts_eq:
  assumes lay: "code_layout 0 n (decodeCode oob p)" and n: "sizecode p = int n" "0 < n"
    and targets: "\<And>i. i \<in> set (decodeCode oob p) \<Longrightarrow>
      i_jumpTarget i = -1 \<or> i_jumpTarget i \<in> (\<lambda>j. int (i_offset j)) ` set (decodeCode oob p)"
  shows "registerStarts oob p = block_starts n (decodeCode oob p)"
proof (rule sorted_distinct_set_unique)
  show "sorted (registerStarts oob p)"
    unfolding registerStarts_def by (intro sorted_remdups_adj sorted_sort)
  show "distinct (registerStarts oob p)"
    unfolding registerStarts_def by (intro sorted_remdups_adj_distinct sorted_sort)
  show "sorted (block_starts n (decodeCode oob p))" "distinct (block_starts n (decodeCode oob p))"
    by (rule block_starts_props)+
  have "i_jumpTarget i < sizecode p" if "i \<in> set (decodeCode oob p)" for i
  proof -
    have "int (i_offset j) < sizecode p" if "j \<in> set (decodeCode oob p)" for j
      using decodeFrom_mem [of j oob p 0] that by (simp add: decodeCode_def)
    then show ?thesis using targets [OF that] n by auto
  qed
  then show "set (registerStarts oob p) = set (block_starts n (decodeCode oob p))"
    using n(1) unfolding registerStarts_def remdups_adj_set set_sort list.set set_scanStarts set_block_starts
    by (auto simp: leads_to_def decodeCode_def split: if_splits)
qed

text \<open>What an accepted prototype gives to the renderer.\<close>

lemma accepted_layout:
  assumes ok: "proto_ok oob p"
  defines "n \<equiv> nat (sizecode p)" and "ins \<equiv> decodeCode oob p"
  shows "code_layout 0 n ins" "sizecode p = int n"
    "\<And>i. i \<in> set ins \<Longrightarrow> i_jumpTarget i = -1 \<or> i_jumpTarget i \<in> (\<lambda>j. int (i_offset j)) ` set ins"
    "\<And>i. i \<in> set ins \<Longrightarrow> i_opcode i < LOP_COUNT"
    "\<And>i. i \<in> set ins \<Longrightarrow> isJump (i_opcode i) \<Longrightarrow> \<not> (i_opcode i = LOP_LOADB \<and> i_c i = 0) \<Longrightarrow> 0 \<le> i_jumpTarget i"
  using ok by (auto simp: proto_ok_def Let_def n_def ins_def)

lemma int_text_none: "int_text (-1) = ''-1''"
  by code_simp

lemma decoded_op:
  fixes ft
  assumes "k < length (decodeCode oob p)"
  defines "i \<equiv> decodeCode oob p ! k"
  defines "w \<equiv> readRegisterOp oob p ft (i_offset i)"
  shows "ro_op w = i_opcode i" "ro_target w = i_jumpTarget i" "ro_c w = i_c i" "i_length i = getOpLength (ro_op w)"
    "0 \<le> ft \<or> ft = -1 \<Longrightarrow> ro_next w = int_text ft"
proof -
  have i: "i = decodeInstruction (int (maxstacksize p)) (luaG_getline p (i_offset i))
      (codeAt oob p (i_offset i)) (codeAt oob p (i_offset i + 1)) (i_offset i)"
    using decodeFrom_mem [of i oob p 0] assms nth_mem by (metis decodeCode_def)
  show "ro_op w = i_opcode i" "ro_target w = i_jumpTarget i" "ro_c w = i_c i" "i_length i = getOpLength (ro_op w)"
    by (subst i, simp add: w_def readRegisterOp_def Let_def jumpTarget_def opLength_def)+
  show "ro_next w = int_text ft" if "0 \<le> ft \<or> ft = -1"
    using that by (auto simp: w_def readRegisterOp_def Let_def int_text_none)
qed

lemma no_early_end:
  assumes ok: "proto_ok oob p" and k: "k < length (decodeCode oob p)"
    and quiet: "i_jumpTarget (decodeCode oob p ! k) < 0" "\<not> isReturn (i_opcode (decodeCode oob p ! k))"
  shows "\<not> ends_block (readRegisterOp oob p ft (i_offset (decodeCode oob p ! k)))"
proof -
  let ?i = "decodeCode oob p ! k"
  have i: "?i \<in> set (decodeCode oob p)" using k by simp
  have "\<not> isJump (i_opcode ?i) \<or> i_opcode ?i = LOP_LOADB \<and> i_c ?i = 0"
    using accepted_layout(5) [OF ok i] quiet(1) by fastforce
  then show ?thesis
    using accepted_layout(4) [OF ok i] quiet(2)
    by (auto simp: ends_block_def decoded_op [OF k] isJump_def isJumpD_def isFastCall_def isSkipC_def isReturn_def Let_def)
qed

text \<open>The lines of a run of instructions that do not end the block before its last one.\<close>

lemma blockLines_run:
  assumes lay: "code_layout 0 n (decodeCode oob p)" and m: "k \<le> m" "m < length (decodeCode oob p)"
    and early: "\<And>j. k \<le> j \<Longrightarrow> j < m \<Longrightarrow> \<not> ends_block (readRegisterOp oob p ft (i_offset (decodeCode oob p ! j)))"
    and stop: "stop = i_offset (decodeCode oob p ! m) + i_length (decodeCode oob p ! m)"
    and ft: "0 \<le> ft \<or> ft = -1" and cap: "capture_ok cap"
  defines "w \<equiv> readRegisterOp oob p ft (i_offset (decodeCode oob p ! m))"
  shows "\<exists>ls ms. blockLines oob fs f p ft stop (i_offset (decodeCode oob p ! k)) cap = (ls @ ms, ends_block w) \<and>
    list_all quiet_line ls \<and> case_shape w ft (ms, ends_block w)"
  using m early cap
proof (induction "m - k" arbitrary: k cap)
  case 0
  then have km: "k = m" by simp
  have len: "i_length (decodeCode oob p ! m) = getOpLength (ro_op w)"
    unfolding w_def by (rule decoded_op(4) [OF m(2)])
  obtain ls t cap' where il: "instructionLines fs f p w cap = (ls, t, cap')" by (cases "instructionLines fs f p w cap")
  have shape: "case_shape w ft (ls, t)"
    using instructionLines_shape [OF il _ 0(5)] decoded_op(5) [OF m(2) ft] by (simp add: w_def)
  have "blockLines oob fs f p ft stop (i_offset (decodeCode oob p ! m)) cap = (ls, t)"
    unfolding blockLines.simps [of oob fs f p ft stop "i_offset (decodeCode oob p ! m)"] w_def [symmetric] Let_def il
    by (simp add: stop len blockLines.simps)
  moreover have "t = ends_block w" using shape by (simp add: case_shape_def)
  ultimately show ?case using shape km by (intro exI [of _ "[]"] exI [of _ ls]) auto
next
  case (Suc d)
  let ?ins = "decodeCode oob p"
  let ?w = "readRegisterOp oob p ft (i_offset (?ins ! k))"
  have k: "k < m" "k < length ?ins" using Suc(2,4) m by auto
  have len: "i_length (?ins ! k) = getOpLength (ro_op ?w)" by (rule decoded_op(4) [OF k(2)])
  obtain ls t cap' where il: "instructionLines fs f p ?w cap = (ls, t, cap')" by (cases "instructionLines fs f p ?w cap")
  have shape: "case_shape ?w ft (ls, t) \<and> capture_ok cap'"
    using instructionLines_shape [OF il _ Suc(6)] decoded_op(5) [OF k(2) ft] by simp
  then have t: "\<not> t" "list_all quiet_line ls" using Suc(5) [of k] k by (auto simp: case_shape_def)
  have nxt: "i_offset (?ins ! Suc k) = i_offset (?ins ! k) + getOpLength (ro_op ?w)"
    using code_layout_next [OF lay, of k] k m len by simp
  obtain ls2 ms where IH: "blockLines oob fs f p ft stop (i_offset (?ins ! Suc k)) cap' = (ls2 @ ms, ends_block w)"
    "list_all quiet_line ls2" "case_shape w ft (ms, ends_block w)"
  proof -
    have "d = m - Suc k" using Suc(2) by arith
    from Suc(1) [OF this, of cap'] show ?thesis using that Suc(5) k m shape by auto
  qed
  have "i_offset (?ins ! k) < stop"
    using code_layout_mono [OF lay m(2) k(1)] stop code_layout_offset [OF lay k(2)] by simp
  then have "blockLines oob fs f p ft stop (i_offset (?ins ! k)) cap = (ls @ ls2 @ ms, ends_block w)"
    unfolding blockLines.simps [of oob fs f p ft stop "i_offset (?ins ! k)"] Let_def il
    using IH(1) t(1) by (simp add: nxt)
  then show ?case using IH(2,3) t(2) by (intro exI [of _ "ls @ ls2"] exI [of _ ms]) simp
qed

section \<open>Branches and successors\<close>

definition irBlocks :: "u32 \<Rightarrow> lproto \<Rightarrow> basic_block list" where
  "irBlocks oob p = build_blocks (nat (sizecode p)) (decodeCode oob p)"

lemma registerBlocks_eq:
  assumes ok: "proto_ok oob p" and code: "0 < sizecode p"
  shows "registerBlocks oob (Some p) = map (\<lambda>b. (b_start b, nat (b_end b + 1))) (irBlocks oob p)"
proof -
  let ?n = "nat (sizecode p)"
  let ?ls = "block_starts ?n (decodeCode oob p)"
  note acc = accepted_layout [OF ok]
  have starts: "registerStarts oob p = ?ls"
    by (rule registerStarts_eq [OF acc(1,2) _ acc(3)]) (use code in simp)
  have len: "length (irBlocks oob p) = length ?ls" by (simp add: irBlocks_def length_build_blocks)
  have "zip ?ls (tl ?ls @ [?n]) ! b = (b_start (irBlocks oob p ! b), nat (b_end (irBlocks oob p ! b) + 1))"
    if b: "b < length ?ls" for b
    using b by (auto simp: irBlocks_def build_blocks_nth length_build_blocks block_end_def nth_append nth_tl)
  then show ?thesis
    using code len
    by (intro nth_equalityI) (simp_all add: registerBlocks_def starts Let_def block_starts_props(4))
qed

text \<open>The names a branch gives to \<^verbatim>\<open>pc\<close>, from its last instruction and the block that follows.\<close>

definition branch_names :: "register_op \<Rightarrow> int \<Rightarrow> int list" where
  "branch_names w ft = (if ends_block w then instruction_exits w ft else if 0 \<le> ft then [ft] else [])"

lemma branchBody_shape:
  assumes ok: "proto_ok oob p" and code: "0 < sizecode p" and b: "b < length (irBlocks oob p)"
  defines "bs \<equiv> registerBlocks oob (Some p)"
    and "w \<equiv> readRegisterOp oob p (fallthroughOf (registerBlocks oob (Some p)) b)
      (i_offset (decodeCode oob p ! last (b_instructions (irBlocks oob p ! b))))"
  shows "branchBody oob fs f p bs b \<noteq> []"
    "transfer_line (branch_names w (fallthroughOf bs b)) (last (branchBody oob fs f p bs b))"
    "list_all quiet_line (butlast (branchBody oob fs f p bs b))"
proof -
  let ?n = "nat (sizecode p)"
  let ?ins = "decodeCode oob p"
  note acc = accepted_layout [OF ok]
  have b': "b < length (build_blocks ?n ?ins)" using b by (simp add: irBlocks_def)
  have leaders: "\<exists>k<length ?ins. i_offset (?ins ! k) = x" if "x \<in> set (block_starts ?n ?ins)" for x
    by (rule leader_offset [OF acc(1) _ acc(3) that]) (use code in simp_all)
  obtain k m where km: "k \<le> m" "m < length ?ins" "last (b_instructions (irBlocks oob p ! b)) = m"
    "i_offset (?ins ! k) = b_start (irBlocks oob p ! b)"
    "int (i_offset (?ins ! m) + i_length (?ins ! m)) = b_end (irBlocks oob p ! b) + 1"
    "\<And>j. k \<le> j \<Longrightarrow> j \<le> m \<Longrightarrow> j \<in> set (b_instructions (irBlocks oob p ! b))"
    using block_run [OF acc(1) b' leaders] build_blocks_nth(2,3) [OF b'] by (metis irBlocks_def)
  have early: "\<not> ends_block (readRegisterOp oob p ft (i_offset (?ins ! j)))" if "k \<le> j" "j < m" for j ft
    using built_single_exit [OF acc(1) b', of j] km(2) km(6) [of j] km(6) [of "Suc j"] that no_early_end [OF ok, of j]
    by (simp add: irBlocks_def)
  have block: "bs ! b = (i_offset (?ins ! k), i_offset (?ins ! m) + i_length (?ins ! m))"
    using km(4,5) b by (simp add: bs_def registerBlocks_eq [OF ok code] flip: km(5))
  define ft where "ft = fallthroughOf bs b"
  have ft: "0 \<le> ft \<or> ft = -1" by (simp add: ft_def fallthroughOf_def)
  obtain ls ms where run: "blockLines oob fs f p ft (i_offset (?ins ! m) + i_length (?ins ! m)) (i_offset (?ins ! k)) ([], 0) =
      (ls @ ms, ends_block w)" "list_all quiet_line ls" "case_shape w ft (ms, ends_block w)"
    using blockLines_run [OF acc(1) km(1,2) early refl ft, of "([], 0)" fs f]
    by (auto simp: capture_ok_def w_def km(3) ft_def bs_def)
  have body: "branchBody oob fs f p bs b = ls @ ms @ (if ends_block w then []
      else [codeLine 3 (if ft \<ge> 0 then jumpLine ft else ''return'')])"
    using run(1) by (simp add: branchBody_def block flip: ft_def)
  show "branchBody oob fs f p bs b \<noteq> []"
    "transfer_line (branch_names w (fallthroughOf bs b)) (last (branchBody oob fs f p bs b))"
    "list_all quiet_line (butlast (branchBody oob fs f p bs b))"
    unfolding body ft_def [symmetric] using run(2,3)
    by (auto simp: case_shape_def branch_names_def butlast_append transfer_text_def)
qed

text \<open>The starts of the successors of a block of the IR.\<close>

definition successor_starts :: "basic_block list \<Rightarrow> nat \<Rightarrow> int set" where
  "successor_starts bs b = (\<lambda>s. int (b_start (bs ! s))) ` set (b_successors (bs ! b))"

lemma successor_starts_eq:
  assumes ok: "proto_ok oob p" and code: "0 < sizecode p" and b: "b < length (irBlocks oob p)"
  defines "i \<equiv> decodeCode oob p ! last (b_instructions (irBlocks oob p ! b))"
    and "ft \<equiv> fallthroughOf (registerBlocks oob (Some p)) b"
  shows "successor_starts (irBlocks oob p) b =
    (if 0 \<le> i_jumpTarget i then {i_jumpTarget i} else {}) \<union>
    (if 0 \<le> ft \<and> (isConditional (i_opcode i) \<or> i_jumpTarget i < 0 \<and> \<not> isReturn (i_opcode i)) then {ft} else {})"
proof -
  let ?n = "nat (sizecode p)"
  let ?ins = "decodeCode oob p"
  let ?ls = "block_starts ?n ?ins"
  note acc = accepted_layout [OF ok]
  have b': "b < length (build_blocks ?n ?ins)" using b by (simp add: irBlocks_def)
  have leaders: "\<exists>k<length ?ins. i_offset (?ins ! k) = x" if "x \<in> set ?ls" for x
    by (rule leader_offset [OF acc(1) _ acc(3) that]) (use code in simp_all)
  obtain m where m: "m < length ?ins" "last (b_instructions (irBlocks oob p ! b)) = m"
    "b_instructions (irBlocks oob p ! b) \<noteq> []"
    using block_run [OF acc(1) b' leaders] by (metis irBlocks_def)
  have i: "i = ?ins ! m" "i \<in> set ?ins" using m by (simp_all add: i_def)
  have len: "length (irBlocks oob p) = length ?ls" by (simp add: irBlocks_def length_build_blocks)
  have start: "b_start (irBlocks oob p ! s) = ?ls ! s" if "s < length ?ls" for s
    using that by (simp add: irBlocks_def build_blocks_nth length_build_blocks)
  have succ: "b_successors (irBlocks oob p ! b) = block_successors ?ls b i"
    using m b' build_blocks_nth(4) [OF b'] i(1)
    by (simp add: irBlocks_def build_blocks_nth(5) make_block_def Let_def)
  have ft: "ft = (if b + 1 < length ?ls then int (?ls ! (b + 1)) else -1)"
    using len start by (simp add: ft_def fallthroughOf_def registerBlocks_eq [OF ok code])
  have target: "nat (i_jumpTarget i) \<in> set ?ls" if "0 \<le> i_jumpTarget i" using that i(2) by (auto simp: set_block_starts)
  have jumps: "(\<lambda>s. int (?ls ! s)) ` {j. j < length ?ls \<and> int (?ls ! j) = i_jumpTarget i} = {i_jumpTarget i}"
    if "0 \<le> i_jumpTarget i"
    using target [OF that] that by (auto simp: in_set_conv_nth image_iff)
  have "successor_starts (irBlocks oob p) b = (\<lambda>s. int (?ls ! s)) ` set (block_successors ?ls b i)"
    unfolding successor_starts_def succ
    using block_successors_props(1) [of b ?ls] b' start by (intro image_cong) (auto simp: length_build_blocks)
  also have "set (block_successors ?ls b i) =
      (if 0 \<le> i_jumpTarget i then {j. j < length ?ls \<and> int (?ls ! j) = i_jumpTarget i} else {}) \<union>
      (if b + 1 < length ?ls \<and> (isConditional (i_opcode i) \<or> i_jumpTarget i < 0 \<and> \<not> isReturn (i_opcode i))
       then {b + 1} else {})"
    by (auto simp: block_successors_def Let_def)
  finally have eq: "successor_starts (irBlocks oob p) b = (\<lambda>s. int (?ls ! s)) ` \<dots>" .
  have "(\<lambda>s. int (?ls ! s)) ` (if 0 \<le> i_jumpTarget i then {j. j < length ?ls \<and> int (?ls ! j) = i_jumpTarget i} else {}) =
      (if 0 \<le> i_jumpTarget i then {i_jumpTarget i} else {})"
    using jumps by (simp only: if_distrib [of "image _"] image_empty cong: if_cong)
  moreover have "(\<lambda>s. int (?ls ! s)) ` (if b + 1 < length ?ls \<and> C then {b + 1} else {}) = (if 0 \<le> ft \<and> C then {ft} else {})"
    for C by (simp add: ft)
  ultimately show ?thesis by (simp only: eq image_Un)
qed

text \<open>
  The starts the renderer names for a block that ends with the instruction \<open>i\<close>: those of its successors,
  but for a \<^verbatim>\<open>LOADB\<close> that skips only the target, and for a fast call and \<^verbatim>\<open>CMPPROTO\<close> only the block behind it.
\<close>

definition followed_starts :: "basic_block list \<Rightarrow> nat \<Rightarrow> instruction \<Rightarrow> int set" where
  "followed_starts bs b i =
    (let op = i_opcode i in
     if op = LOP_LOADB \<and> i_c i \<noteq> 0 then {i_jumpTarget i}
     else if isFastCall op \<or> op = LOP_CMPPROTO then (if b + 1 < length bs then {int (b_start (bs ! (b + 1)))} else {})
     else successor_starts bs b)"

lemma names_successors:
  assumes w: "ro_op w = i_opcode i" "ro_target w = i_jumpTarget i" "ro_c w = i_c i"
    and op: "i_opcode i < LOP_COUNT" and ft: "0 \<le> ft \<or> ft = -1" and target: "i_jumpTarget i = -1 \<or> 0 \<le> i_jumpTarget i"
    and jump: "isJump (i_opcode i) \<Longrightarrow> \<not> (i_opcode i = LOP_LOADB \<and> i_c i = 0) \<Longrightarrow> 0 \<le> i_jumpTarget i"
    and no_jump: "\<not> isJump (i_opcode i) \<or> i_opcode i = LOP_LOADB \<and> i_c i = 0 \<Longrightarrow> i_jumpTarget i = -1"
  defines "succ \<equiv> (if 0 \<le> i_jumpTarget i then {i_jumpTarget i} else {}) \<union>
    (if 0 \<le> ft \<and> (isConditional (i_opcode i) \<or> i_jumpTarget i < 0 \<and> \<not> isReturn (i_opcode i)) then {ft} else {})"
  shows "set (branch_names w ft) - {-1} \<subseteq> succ"
    "set (branch_names w ft) - {-1} =
      (if i_opcode i = LOP_LOADB \<and> i_c i \<noteq> 0 then {i_jumpTarget i}
       else if isFastCall (i_opcode i) \<or> i_opcode i = LOP_CMPPROTO then (if 0 \<le> ft then {ft} else {}) else succ)"
    "-1 \<in> set (branch_names w ft) \<Longrightarrow> ft = -1"
proof -
  have cond: "isConditional op \<longleftrightarrow> (isJumpD op \<and>
      op \<notin> {LOP_JUMP, LOP_JUMPBACK, LOP_FORGPREP, LOP_FORGPREP_INEXT, LOP_FORGPREP_NEXT}) \<or> isFastCall op \<or> op = LOP_LOADB" for op
    by (auto simp: isConditional_def isJumpD_def isFastCall_def)
  have disjoint: "\<not> (isJumpD op \<and> (isFastCall op \<or> op \<in> {LOP_LOADB, LOP_RETURN, LOP_JUMPX}))"
    "\<not> (isFastCall op \<and> op \<in> {LOP_LOADB, LOP_RETURN, LOP_JUMPX})" for op
    by (auto simp: isJumpD_def isFastCall_def)
  have jumps: "isJumpD LOP_JUMP" "isJumpD LOP_JUMPBACK" "isJumpD LOP_FORGPREP" "isJumpD LOP_FORGPREP_INEXT"
    "isJumpD LOP_FORGPREP_NEXT" "isJumpD LOP_CMPPROTO" "isJumpD LOP_FORNPREP"
    by (simp_all add: isJumpD_def)
  show "set (branch_names w ft) - {-1} \<subseteq> succ"
    using jump no_jump target ft op disjoint [of "i_opcode i"] jumps
    by (auto simp: branch_names_def ends_block_def instruction_exits_def w succ_def cond Let_def isJump_def isSkipC_def isReturn_def)
  note unfold = branch_names_def ends_block_def instruction_exits_def w succ_def cond Let_def isJump_def isSkipC_def isReturn_def
  note facts = jump no_jump target ft op disjoint [of "i_opcode i"] jumps
  consider (skip) "i_opcode i = LOP_LOADB" "i_c i \<noteq> 0" | (fast) "isFastCall (i_opcode i)"
    | (proto) "i_opcode i = LOP_CMPPROTO"
    | (other) "\<not> (i_opcode i = LOP_LOADB \<and> i_c i \<noteq> 0)" "\<not> isFastCall (i_opcode i)" "i_opcode i \<noteq> LOP_CMPPROTO"
    by blast
  then show "set (branch_names w ft) - {-1} =
      (if i_opcode i = LOP_LOADB \<and> i_c i \<noteq> 0 then {i_jumpTarget i}
       else if isFastCall (i_opcode i) \<or> i_opcode i = LOP_CMPPROTO then (if 0 \<le> ft then {ft} else {}) else succ)"
  proof cases
    case skip
    then show ?thesis using facts by (auto simp: unfold)
  next
    case fast
    then have "i_opcode i \<noteq> LOP_LOADB" using disjoint(2) by blast
    then show ?thesis using fast facts by (auto simp: unfold)
  next
    case proto
    then have "\<not> isFastCall (i_opcode i)" using disjoint(1) jumps(6) by metis
    then show ?thesis using proto facts by (auto simp: unfold)
  next
    case other
    then have "set (branch_names w ft) - {-1} = succ" using facts by (auto simp: unfold)
    then show ?thesis using other by auto
  qed
  show "ft = -1" if "-1 \<in> set (branch_names w ft)"
    using that jump no_jump target ft op disjoint [of "i_opcode i"] jumps
    by (auto simp: branch_names_def ends_block_def instruction_exits_def w Let_def isJump_def isSkipC_def isReturn_def split: if_splits)
qed

lemma decoded_target:
  assumes "i \<in> set (decodeCode oob p)" "\<not> isJump (i_opcode i) \<or> i_opcode i = LOP_LOADB \<and> i_c i = 0"
  shows "i_jumpTarget i = -1"
proof -
  let ?pc = "i_offset i"
  have i: "i = decodeInstruction (int (maxstacksize p)) (luaG_getline p ?pc) (codeAt oob p ?pc) (codeAt oob p (?pc + 1)) ?pc"
    using decodeFrom_mem [of i oob p 0] assms(1) by (simp add: decodeCode_def)
  have "i_opcode i = LUAU_INSN_OP (codeAt oob p ?pc)" "i_c i = LUAU_INSN_C (codeAt oob p ?pc)"
    "i_jumpTarget i = jumpTarget (codeAt oob p ?pc) ?pc"
    by (subst i, simp)+
  then show ?thesis using assms(2) jumpTarget_none [of "codeAt oob p ?pc" ?pc] by simp
qed

lemma branch_names_correct:
  assumes ok: "proto_ok oob p" and code: "0 < sizecode p" and b: "b < length (irBlocks oob p)"
  defines "ft \<equiv> fallthroughOf (registerBlocks oob (Some p)) b"
    and "i \<equiv> decodeCode oob p ! last (b_instructions (irBlocks oob p ! b))"
  defines "w \<equiv> readRegisterOp oob p ft (i_offset i)"
  shows "set (branch_names w ft) - {-1} \<subseteq> successor_starts (irBlocks oob p) b"
    "set (branch_names w ft) - {-1} = followed_starts (irBlocks oob p) b i"
    "-1 \<in> set (branch_names w ft) \<Longrightarrow> b + 1 = length (irBlocks oob p)"
proof -
  let ?n = "nat (sizecode p)"
  note acc = accepted_layout [OF ok]
  have b': "b < length (build_blocks ?n (decodeCode oob p))" using b by (simp add: irBlocks_def)
  have leaders: "\<exists>k<length (decodeCode oob p). i_offset (decodeCode oob p ! k) = x"
    if "x \<in> set (block_starts ?n (decodeCode oob p))" for x
    by (rule leader_offset [OF acc(1) _ acc(3) that]) (use code in simp_all)
  have m: "last (b_instructions (irBlocks oob p ! b)) < length (decodeCode oob p)"
    using block_run [OF acc(1) b' leaders] by (metis irBlocks_def)
  then have i: "i \<in> set (decodeCode oob p)" by (simp add: i_def)
  have w: "ro_op w = i_opcode i" "ro_target w = i_jumpTarget i" "ro_c w = i_c i"
    using decoded_op [OF m, of ft] by (simp_all add: w_def i_def)
  have ft: "0 \<le> ft \<or> ft = -1" by (simp add: ft_def fallthroughOf_def)
  have target: "i_jumpTarget i = -1 \<or> 0 \<le> i_jumpTarget i" using acc(3) [OF i] by auto
  note names = names_successors [OF w acc(4) [OF i] ft target acc(5) [OF i] decoded_target [OF i]]
  note succ = successor_starts_eq [OF ok code b, folded i_def ft_def]
  show "set (branch_names w ft) - {-1} \<subseteq> successor_starts (irBlocks oob p) b"
    using names(1) unfolding succ by simp
  have behind: "(if 0 \<le> ft then {ft} else {}) =
      (if b + 1 < length (irBlocks oob p) then {int (b_start (irBlocks oob p ! (b + 1)))} else {})"
    by (simp add: ft_def fallthroughOf_def registerBlocks_eq [OF ok code])
  show "set (branch_names w ft) - {-1} = followed_starts (irBlocks oob p) b i"
    unfolding followed_starts_def Let_def succ behind [symmetric] by (rule names(2)) assumption+
  show "b + 1 = length (irBlocks oob p)" if "-1 \<in> set (branch_names w ft)"
  proof -
    have "ft = -1" using names(3) that by simp
    then show ?thesis using b by (auto simp: ft_def fallthroughOf_def registerBlocks_eq [OF ok code] split: if_splits)
  qed
qed

end
