(* ===== verification/Register_Tree.thy ===== *)
theory Register_Tree
  imports Register_Text IR_Decode
begin

text \<open>
  The numbering of functions by the register-state renderer: \<^verbatim>\<open>collect\<close> lists the prototypes of a tree
  in preorder, under their positions, and the ids of children point at the children.
\<close>

definition info_ok :: "function_info list \<Rightarrow> nat \<Rightarrow> bool" where
  "info_ok fs k \<longleftrightarrow>
    (let f = fs ! k; children = (case fi_proto f of None \<Rightarrow> [] | Some p \<Rightarrow> cells (subprotos p)) in
     fi_id f = k \<and> length (fi_childIds f) = length children \<and>
     (\<forall>j<length children. k < fi_childIds f ! j \<and> fi_childIds f ! j < length fs \<and>
        fi_proto (fs ! (fi_childIds f ! j)) = children ! j))"

lemma info_ok_append: "k < length fs \<Longrightarrow> info_ok fs k \<Longrightarrow> info_ok (fs @ gs) k"
  by (auto simp: info_ok_def Let_def nth_append)

lemma update_children [simp]:
  "fi_proto (fs[m := (fs ! m)\<lparr>fi_childIds := ids\<rparr>] ! k) = fi_proto (fs ! k)"
  "fi_id (fs[m := (fs ! m)\<lparr>fi_childIds := ids\<rparr>] ! k) = fi_id (fs ! k)"
  by (cases "m < length fs"; simp add: nth_list_update list_update_beyond)+

lemma info_ok_update:
  "info_ok fs k \<Longrightarrow> k \<noteq> m \<Longrightarrow> info_ok (fs[m := (fs ! m)\<lparr>fi_childIds := ids\<rparr>]) k"
  by (simp add: info_ok_def Let_def)

text \<open>The prototypes listed, null pointers left out.\<close>

definition listed :: "function_info list \<Rightarrow> lproto list" where
  "listed fs = concat (map (\<lambda>f. case fi_proto f of None \<Rightarrow> [] | Some p \<Rightarrow> [p]) fs)"

lemma listed_append [simp]: "listed (fs @ gs) = listed fs @ listed gs"
  by (simp add: listed_def)

lemma listed_update [simp]: "listed (fs[m := (fs ! m)\<lparr>fi_childIds := ids\<rparr>]) = listed fs"
proof -
  let ?g = "\<lambda>f. case fi_proto f of None \<Rightarrow> [] | Some p \<Rightarrow> [p]"
  have "map ?g (fs[m := (fs ! m)\<lparr>fi_childIds := ids\<rparr>]) = map ?g fs"
    by (intro nth_equalityI) simp_all
  then show ?thesis by (simp only: listed_def)
qed

text \<open>What a call adds: functions behind those that were there, all of them numbered and linked.\<close>

definition listed_behind :: "function_info list \<Rightarrow> function_info list \<Rightarrow> bool" where
  "listed_behind fs hs \<longleftrightarrow> (\<exists>gs. hs = fs @ gs) \<and> (\<forall>k. length fs \<le> k \<and> k < length hs \<longrightarrow> info_ok hs k)"

lemma listed_behind_length: "listed_behind fs hs \<Longrightarrow> length fs \<le> length hs"
  by (auto simp: listed_behind_def)

lemma listed_behind_nth: "listed_behind fs hs \<Longrightarrow> k < length fs \<Longrightarrow> hs ! k = fs ! k"
  by (auto simp: listed_behind_def nth_append)

lemma listed_behind_trans:
  assumes "listed_behind fs gs" "listed_behind gs hs"
  shows "listed_behind fs hs"
proof -
  obtain a b where gs: "gs = fs @ a" and hs: "hs = gs @ b" using assms by (auto simp: listed_behind_def)
  have "info_ok hs k" if "length fs \<le> k" "k < length hs" for k
    using that assms info_ok_append [of k gs b] by (cases "k < length gs") (auto simp: listed_behind_def hs)
  then show ?thesis by (auto simp: listed_behind_def gs hs)
qed

text \<open>The function of a prototype with children, once its children are listed behind it.\<close>

lemma listed_behind_linked:
  assumes ext: "listed_behind (fs @ [\<lparr>fi_proto = Some p, fi_id = length fs, fi_childIds = []\<rparr>]) gs"
    and kids: "length ids = length (cells (subprotos p))"
      "\<And>j. j < length ids \<Longrightarrow> length fs < ids ! j \<and> ids ! j < length gs \<and> fi_proto (gs ! (ids ! j)) = cells (subprotos p) ! j"
  shows "listed_behind fs (gs[length fs := (gs ! length fs)\<lparr>fi_childIds := ids\<rparr>])"
proof -
  let ?m = "length fs"
  let ?f = "\<lparr>fi_proto = Some p, fi_id = ?m, fi_childIds = []\<rparr>"
  let ?hs = "gs[?m := (gs ! ?m)\<lparr>fi_childIds := ids\<rparr>]"
  obtain a where gs: "gs = fs @ ?f # a" using ext by (auto simp: listed_behind_def)
  have "info_ok ?hs k" if k: "?m \<le> k" "k < length ?hs" for k
  proof (cases "k = ?m")
    case True
    have "fi_childIds (?hs ! ?m) = ids" "fi_id (gs ! ?m) = ?m" "fi_proto (gs ! ?m) = Some p" by (simp_all add: gs)
    then show ?thesis using kids unfolding True info_ok_def Let_def by simp
  next
    case False
    have "info_ok gs k" using ext False k by (simp add: listed_behind_def)
    then show ?thesis using False by (rule info_ok_update)
  qed
  moreover have "\<exists>b. ?hs = fs @ b" by (simp add: gs)
  ultimately show ?thesis by (simp add: listed_behind_def)
qed

lemma collect_listed_behind:
  "collect q fs = (n, hs) \<Longrightarrow> n = length fs \<and> n < length hs \<and> fi_proto (hs ! n) = q \<and> listed_behind fs hs \<and>
    listed hs = listed fs @ map snd (prototypesOf d q)"
  "collectAll qs fs = (ids, hs) \<Longrightarrow> listed_behind fs hs \<and> length ids = length qs \<and>
    (\<forall>j<length qs. length fs \<le> ids ! j \<and> ids ! j < length hs \<and> fi_proto (hs ! (ids ! j)) = qs ! j) \<and>
    listed hs = listed fs @ map snd (prototypesOfAll d qs)"
proof (induction q fs and qs fs arbitrary: n hs d and ids hs d rule: collect_collectAll.induct)
  case (1 fs)
  then show ?case by (auto simp: listed_behind_def info_ok_def Let_def listed_def less_Suc_eq_le)
next
  case (2 p fs)
  let ?f = "\<lparr>fi_proto = Some p, fi_id = length fs, fi_childIds = []\<rparr>"
  obtain kids gs where all: "collectAll (cells (subprotos p)) (fs @ [?f]) = (kids, gs)" by fastforce
  note IH = 2(1) [OF refl all, of "Suc d"]
  have n: "n = length fs" and hs: "hs = gs[length fs := (gs ! length fs)\<lparr>fi_childIds := kids\<rparr>]"
    using 2(2) all by (auto simp: Let_def)
  have ext: "listed_behind (fs @ [?f]) gs" using IH by blast
  have "listed_behind fs hs" unfolding hs by (rule listed_behind_linked [OF ext]) (use IH in auto)
  moreover have "length fs < length gs" "fi_proto (gs ! length fs) = Some p"
    using listed_behind_length [OF ext] listed_behind_nth [OF ext, of "length fs"] by simp_all
  moreover have "listed hs = listed fs @ map snd (prototypesOf d (Some p))"
  proof -
    have "listed [?f] = [p]" by (simp add: listed_def)
    then show ?thesis using IH unfolding hs listed_update by simp
  qed
  ultimately show ?case by (simp add: n hs)
next
  case (4 q qs fs)
  obtain m gs where one: "collect q fs = (m, gs)" by fastforce
  obtain js ks where rest: "collectAll qs gs = (js, ks)" by fastforce
  have eqs: "ids = m # js" "hs = ks" using 4(3) one rest by auto
  note a = 4(1) [OF one, of d] and b = 4(2) [OF one [symmetric] refl rest, of d]
  have hd: "fi_proto (ks ! m) = q" "m < length ks"
    using a b listed_behind_nth [of gs ks m] listed_behind_length [of gs ks] by auto
  have "length fs \<le> ids ! j \<and> ids ! j < length hs \<and> fi_proto (hs ! (ids ! j)) = (q # qs) ! j"
    if "j < length (q # qs)" for j
    using that a b hd listed_behind_length [of fs gs] by (cases j) (auto simp: eqs)
  then show ?case using a b listed_behind_trans [of fs gs ks] by (simp add: eqs)
qed (auto simp: listed_behind_def)

lemma functionsOfTree_ok:
  "fi_proto (hd (functionsOfTree root)) = root" "functionsOfTree root \<noteq> []"
  "k < length (functionsOfTree root) \<Longrightarrow> info_ok (functionsOfTree root) k"
  "listed (functionsOfTree root) = map snd (prototypesOf 0 root)"
proof -
  obtain n hs where c: "collect root [] = (n, hs)" by fastforce
  note all = collect_listed_behind(1) [OF c, of 0]
  show "fi_proto (hd (functionsOfTree root)) = root" "functionsOfTree root \<noteq> []"
    "k < length (functionsOfTree root) \<Longrightarrow> info_ok (functionsOfTree root) k"
    "listed (functionsOfTree root) = map snd (prototypesOf 0 root)"
    using all by (auto simp: functionsOfTree_def c listed_behind_def listed_def hd_conv_nth)
qed

text \<open>The line that makes a closure names the function of the child.\<close>

lemma closure_names_child:
  assumes k: "k < length fs" "info_ok fs k" and q: "fi_proto (fs ! k) = Some q"
    and w: "ro_op w = LOP_NEWCLOSURE" "0 \<le> ro_d w" "ro_d w < int (length (cells (subprotos q)))"
  shows "\<exists>c. k < c \<and> c < length fs \<and> fi_proto (fs ! c) = cells (subprotos q) ! nat (ro_d w) \<and>
    closureCase fs (fs ! k) q w cap =
      Some (closureLines w (int c) ''nil --[[ unresolved child prototype ]]'', capturesName (ro_pc w), 0)"
proof -
  let ?c = "fi_childIds (fs ! k) ! nat (ro_d w)"
  have d: "nat (ro_d w) < length (cells (subprotos q))" using w by linarith
  then have "k < ?c \<and> ?c < length fs \<and> fi_proto (fs ! ?c) = cells (subprotos q) ! nat (ro_d w)"
    "ro_d w < int (length (fi_childIds (fs ! k)))"
    using k(2) q w by (simp_all add: info_ok_def Let_def)
  then show ?thesis using w by (auto simp: closureCase_def)
qed

end
