(* ===== verification/Luau_Decompile.thy ===== *)
theory Luau_Decompile
  imports Register_Tree Command_Line
begin

text \<open>
  \<^verbatim>\<open>decompile\<close> (\<^verbatim>\<open>byteveil_decompiler/Decompile.cpp\<close>): which reconstruction is tried, and what it has to pass
  before it is returned. The Luau library stays outside: its loader, parser and compiler, and the
  lifter to its syntax trees with their printer, are the fields of a record. Putting the Lua stack
  back is not part of the model. \<open>None\<close> is a run that does not return, as for \<^verbatim>\<open>loadBytecode\<close>; there is none.
\<close>

record luau_tools =
  t_load :: "u8 list \<Rightarrow> load_outcome"
  t_parse :: "string \<Rightarrow> (nat \<times> nat \<times> string) option"  \<comment> \<open>line, column and message of the first error\<close>
  t_compile :: "string \<Rightarrow> string"
  t_lift :: "lproto \<Rightarrow> string option"

text \<open>The lambda \<^verbatim>\<open>validSource\<close>, with \<^verbatim>\<open>validationError\<close> as the error.\<close>

definition validSource :: "luau_tools \<Rightarrow> string \<Rightarrow> unit res" where
  "validSource tools source =
    (case t_parse tools source of
       Some (line, column, message) \<Rightarrow>
         Inl (''invalid Luau at '' @ nat_text line @ '':'' @ nat_text column @ '': '' @ message)
     | None \<Rightarrow>
       if t_compile tools source = [] then Inl ''Luau compiler rejected reconstructed source''
       else (case t_load tools (bytes_of (t_compile tools source)) of
               LoadFailed message \<Rightarrow>
                 Inl (case message of Some m \<Rightarrow> m | None \<Rightarrow> ''reconstructed bytecode failed to load'')
             | _ \<Rightarrow> Inr ()))"

definition registerFallback :: "luau_tools \<Rightarrow> u32 \<Rightarrow> lproto \<Rightarrow> string" where
  "registerFallback tools oob p =
    (let (source, problem) = renderRegisters oob (Some p) in
     if source = [] then
       ''error: register-state reconstruction failed: '' @ (if problem = [] then ''no output'' else problem)
     else case validSource tools source of
       Inl e \<Rightarrow> ''error: register-state reconstruction failed validation: '' @ e
     | Inr _ \<Rightarrow> source)"

definition decompile :: "luau_tools \<Rightarrow> u8 \<Rightarrow> u32 \<Rightarrow> u8 list \<Rightarrow> string option" where
  "decompile tools oob8 oob bytecode =
    (case loadBytecode oob8 oob (t_load tools) bytecode of
       None \<Rightarrow> None
     | Some (Inl e) \<Rightarrow> Some (''error: '' @ e)
     | Some (Inr p) \<Rightarrow>
         Some (if treeNeeds oob (Some p) then registerFallback tools oob p
           else case t_lift tools p of
             None \<Rightarrow> registerFallback tools oob p
           | Some output \<Rightarrow>
               if contains '' do end'' output \<or> contains ''loc0=false'' output then registerFallback tools oob p
               else (case validSource tools output of
                       Inl _ \<Rightarrow> registerFallback tools oob p
                     | Inr _ \<Rightarrow> output)))"

text \<open>\<^verbatim>\<open>main\<close> with this decompiler, which the watchdog may stop.\<close>

definition withDecompiler :: "luau_tools \<Rightarrow> (string \<Rightarrow> nat \<Rightarrow> bool) \<Rightarrow> surroundings \<Rightarrow> surroundings" where
  "withDecompiler tools stopped env =
    env\<lparr>e_decompile := (\<lambda>bc limit. if stopped bc limit then TimedOut
       else case decompile tools (e_oob8 env) (e_oob env) (bytes_of bc) of None \<Rightarrow> TimedOut | Some r \<Rightarrow> Returned r)\<rparr>"

section \<open>What is returned\<close>

lemma validSource_accepts:
  "validSource tools r = Inr () \<longleftrightarrow>
    t_parse tools r = None \<and> t_compile tools r \<noteq> [] \<and> (\<forall>e. t_load tools (bytes_of (t_compile tools r)) \<noteq> LoadFailed e)"
  by (auto simp: validSource_def split: option.splits load_outcome.splits)

lemma registerFallback_cases:
  "starts_with ''error: '' (registerFallback tools oob p) \<or>
   validSource tools (registerFallback tools oob p) = Inr () \<and> registerFallback tools oob p = fst (renderRegisters oob (Some p))"
  by (cases "validSource tools (fst (renderRegisters oob (Some p)))")
    (auto simp: registerFallback_def starts_with_def split: prod.splits)

text \<open>The two ways a source comes about.\<close>

definition reconstruction :: "luau_tools \<Rightarrow> u32 \<Rightarrow> lproto \<Rightarrow> string \<Rightarrow> bool" where
  "reconstruction tools oob p r \<longleftrightarrow>
    r = fst (renderRegisters oob (Some p)) \<or>
    \<not> treeNeeds oob (Some p) \<and> t_lift tools p = Some r \<and> \<not> contains '' do end'' r \<and> \<not> contains ''loc0=false'' r"

lemma decompile_cases:
  "\<exists>r. decompile tools oob8 oob bytecode = Some r \<and>
    (starts_with ''error: '' r \<or>
     (\<exists>p v vs t. opcodeVariants oob8 [] bytecode = Inr vs \<and> v \<in> set vs \<and> t_load tools v = LoadedProto p \<and>
        validateProto oob (Some p) 128 1000000 = Inr t \<and> validSource tools r = Inr () \<and> reconstruction tools oob p r))"
proof (cases "\<exists>e. loadBytecode oob8 oob (t_load tools) bytecode = Some (Inl e)")
  case True
  then show ?thesis by (auto simp: decompile_def starts_with_def)
next
  case False
  then obtain p v vs m where load: "loadBytecode oob8 oob (t_load tools) bytecode = Some (Inr p)"
    and v: "opcodeVariants oob8 [] bytecode = Inr vs" "v \<in> set vs" "t_load tools v = LoadedProto p"
    and built: "buildModule oob (Some p) = Some (Inr m)"
    using loadBytecode_cases [of oob8 oob "t_load tools" bytecode] by blast
  obtain t where t: "validateProto oob (Some p) 128 1000000 = Inr t" using buildModule_sound [OF built] by blast
  obtain r where r: "decompile tools oob8 oob bytecode = Some r"
    "starts_with ''error: '' r \<or> validSource tools r = Inr () \<and> reconstruction tools oob p r"
    using registerFallback_cases [of tools oob p]
    by (auto simp: decompile_def load reconstruction_def split: option.splits sum.splits)
  show ?thesis using r v t by blast
qed

end
