(* ===== verification/Past_The_End.thy ===== *)
theory Past_The_End
  imports Register_Flow Luau_Decompile Roblox_Properties
begin

text \<open>
  \<^verbatim>\<open>validateOne\<close> reads the word behind an instruction before it knows that there is one, and the scan of an
  input reads a byte that may not be there; the models have these values as the arguments \<open>oob\<close> and
  \<open>oob8\<close>. The lemmas show that they make no difference to anything that is built, reported or
  reconstructed: an accepted prototype has the auxiliary words its instructions read.
\<close>

section \<open>Decoding\<close>

lemma codeAt_inside:
  "sizecode p = int (length (cells (code p))) \<Longrightarrow> int pc < sizecode p \<Longrightarrow> codeAt oob p pc = codeAt oob' p pc"
  by (simp add: codeAt_def)

text \<open>From \<open>pc\<close> on the decoded instructions tile the code; so it is at every decoded offset.\<close>

definition tiled :: "u32 \<Rightarrow> lproto \<Rightarrow> nat \<Rightarrow> bool" where
  "tiled oob p pc \<longleftrightarrow> sizecode p = int (length (cells (code p))) \<and>
    code_layout pc (length (cells (code p))) (decodeFrom oob p pc)"

lemma tiled_step:
  assumes "tiled oob p pc" "int pc < sizecode p"
  defines "op \<equiv> LUAU_INSN_OP (codeAt oob p pc)"
  shows "tiled oob p (pc + getOpLength op)" "int (pc + getOpLength op) \<le> sizecode p"
    "codeAt oob p pc = codeAt oob' p pc" "getOpLength op = 2 \<Longrightarrow> codeAt oob p (pc + 1) = codeAt oob' p (pc + 1)"
proof -
  have n: "sizecode p = int (length (cells (code p)))" using assms(1) by (simp add: tiled_def)
  have lay: "code_layout (pc + getOpLength op) (length (cells (code p))) (decodeFrom oob p (pc + getOpLength op))"
    using assms(1,2) by (simp add: tiled_def decodeFrom.simps [of oob p pc] Let_def opLength_def op_def)
  then show "tiled oob p (pc + getOpLength op)" using n by (simp add: tiled_def)
  show le: "int (pc + getOpLength op) \<le> sizecode p" using code_layout_le [OF lay] n by simp
  show "codeAt oob p pc = codeAt oob' p pc" by (rule codeAt_inside [OF n assms(2)])
  show "codeAt oob p (pc + 1) = codeAt oob' p (pc + 1)" if "getOpLength op = 2"
    using le that by (intro codeAt_inside [OF n]) simp
qed

lemma tiled_start: "proto_ok oob p \<Longrightarrow> tiled oob p 0"
  by (simp add: tiled_def proto_ok_def Let_def decodeCode_def)

lemma tiled_offset: "tiled oob p pc \<Longrightarrow> i \<in> set (decodeFrom oob p pc) \<Longrightarrow> tiled oob p (i_offset i)"
proof (induction oob p pc rule: decodeFrom.induct)
  case (1 oob p pc)
  show ?case
  proof (cases "int pc < sizecode p")
    case False
    then show ?thesis using 1(3) by (simp add: decodeFrom.simps)
  next
    case True
    let ?i = "decodeInstruction (int (maxstacksize p)) (luaG_getline p pc) (codeAt oob p pc) (codeAt oob p (pc + 1)) pc"
    have "i = ?i \<or> i \<in> set (decodeFrom oob p (pc + i_length ?i))"
      using 1(3) True by (simp add: decodeFrom.simps [of oob p pc] Let_def)
    then show ?thesis
      using 1(1) [OF True refl] tiled_step(1) [OF 1(2) True] 1(2) by (auto simp: opLength_def)
  qed
qed

lemma decodeInstruction_next:
  "(getOpLength (LUAU_INSN_OP raw) = 2 \<Longrightarrow> nxt = nxt') \<Longrightarrow>
    decodeInstruction rc l raw nxt pc = decodeInstruction rc l raw nxt' pc"
  by (cases "getOpLength (LUAU_INSN_OP raw) = 2") (simp_all add: decodeInstruction_def Let_def hasAux_def opLength_def)

lemma decodeFrom_oob: "tiled oob p pc \<Longrightarrow> decodeFrom oob p pc = decodeFrom oob' p pc"
proof (induction oob p pc rule: decodeFrom.induct)
  case (1 oob p pc)
  show ?case
  proof (cases "int pc < sizecode p")
    case False
    then show ?thesis by (simp add: decodeFrom.simps)
  next
    case True
    let ?i = "decodeInstruction (int (maxstacksize p)) (luaG_getline p pc) (codeAt oob p pc) (codeAt oob p (pc + 1)) pc"
    note step = tiled_step [OF 1(2) True]
    have "decodeInstruction (int (maxstacksize p)) (luaG_getline p pc) (codeAt oob' p pc) (codeAt oob' p (pc + 1)) pc = ?i"
      unfolding step(3) [of oob', symmetric] by (rule decodeInstruction_next) (rule step(4) [symmetric])
    then show ?thesis
      using 1(1) [OF True refl] step(1) True by (simp add: decodeFrom.simps [of _ p pc] Let_def opLength_def)
  qed
qed

lemma decodeCode_oob: "proto_ok oob p \<Longrightarrow> decodeCode oob p = decodeCode oob' p"
  unfolding decodeCode_def by (intro decodeFrom_oob tiled_start)

section \<open>The module\<close>

lemma validateProto_oob: "validateProto oob root md mi = validateProto oob' root md mi"
  unfolding validateProto_def by (rule validateOne_oob)

lemma describeFunction_oob: "proto_ok oob p \<Longrightarrow> describeFunction oob p k parent c = describeFunction oob' p k parent c"
  using decodeCode_oob [of oob p oob'] by (simp add: describeFunction_def)

text \<open>All prototypes of a tree are accepted.\<close>

definition tree_ok :: "u32 \<Rightarrow> lproto option list \<Rightarrow> bool" where
  "tree_ok oob qs \<longleftrightarrow> (\<forall>q\<in>set (map snd (prototypesOfAll 0 qs)). proto_ok oob q)"

lemma prototypes_depth:
  "map snd (prototypesOf d q) = map snd (prototypesOf e q)"
  "map snd (prototypesOfAll d qs) = map snd (prototypesOfAll e qs)"
  by (induction d q and d qs arbitrary: e and e rule: prototypesOf_prototypesOfAll.induct) (auto, metis)

lemma tree_ok_simps [simp]:
  "tree_ok oob []"
  "tree_ok oob (None # qs) \<longleftrightarrow> tree_ok oob qs"
  "tree_ok oob (Some p # qs) \<longleftrightarrow> proto_ok oob p \<and> tree_ok oob (cells (subprotos p)) \<and> tree_ok oob qs"
  using prototypes_depth(2) [of 1 "cells (subprotos p)" 0] by (auto simp: tree_ok_def ball_Un simp del: set_map)

lemma accepted_tree_ok: "validateProto oob q md mi = Inr t \<Longrightarrow> tree_ok oob [q]"
  using validateOne_tree(1) [of oob md mi q 0 0 0 t] by (auto simp: validateProto_def tree_ok_def)

lemma addFunction_oob:
  "tree_ok oob [Some p] \<Longrightarrow> addFunction oob p k parent c = addFunction oob' p k parent c"
  "tree_ok oob ps \<Longrightarrow> addChildren oob ps k pid c = addChildren oob' ps k pid c"
proof (induction oob p k parent c and oob ps k pid c rule: addFunction_addChildren.induct)
  case (1 oob p k parent c)
  then show ?case using describeFunction_oob [of oob p k parent c oob']
    by (auto simp: addFunction.simps intro!: Option.bind_cong)
next
  case (4 oob p ps k pid c)
  then show ?case by (auto intro!: Option.bind_cong)
qed simp_all

lemma buildModule_oob: "buildModule oob root = buildModule oob' root"
proof (cases "validateProto oob root 128 1000000")
  case (Inl e)
  then have "validateProto oob' root 128 1000000 = Inl e" by (metis validateProto_oob)
  then show ?thesis using Inl by (simp add: buildModule_def)
next
  case (Inr t)
  then have "validateProto oob' root 128 1000000 = Inr t" by (metis validateProto_oob)
  then show ?thesis
    using Inr accepted_tree_ok [OF Inr] addFunction_oob(1) [of oob _ 0 "-1" 0 oob']
    by (cases root) (simp_all add: buildModule_def)
qed

lemma tryVariants_oob: "tryVariants oob load vs e = tryVariants oob' load vs e"
  by (induction vs arbitrary: e)
    (simp_all add: buildModule_oob [of oob _ oob'] split: load_outcome.splits option.splits sum.splits)

lemma loadBytecode_oob: "loadBytecode oob8 oob load input = loadBytecode oob8' oob' load input"
  unfolding loadBytecode_def opcode_variants_in_bounds [of oob8 _ _ oob8'] tryVariants_oob [of oob _ _ _ oob'] by (rule refl)

lemma inspectBytecode_oob: "inspectBytecode oob8 oob load input mode = inspectBytecode oob8' oob' load input mode"
  unfolding inspectBytecode_def loadBytecode_oob [of oob8 oob _ _ oob8' oob'] buildModule_oob [of oob _ oob'] by (rule refl)

section \<open>The register-state reconstruction\<close>

lemma readRegisterOp_oob: "tiled oob p pc \<Longrightarrow> int pc < sizecode p \<Longrightarrow> readRegisterOp oob p ft pc = readRegisterOp oob' p ft pc"
  using tiled_step(3,4) [of oob p pc oob'] by (simp add: readRegisterOp_def Let_def)

lemma blockLines_oob:
  "tiled oob p pc \<Longrightarrow> int stop \<le> sizecode p \<Longrightarrow>
    blockLines oob fs f p ft stop pc st = blockLines oob' fs f p ft stop pc st"
proof (induction oob fs f p ft stop pc st rule: blockLines.induct)
  case (1 oob fs f p ft stop pc st)
  show ?case
  proof (cases "pc < stop")
    case False
    then show ?thesis by (simp add: blockLines.simps)
  next
    case True
    then have pc: "int pc < sizecode p" using 1(3) by simp
    obtain ls t st' where il: "instructionLines fs f p (readRegisterOp oob p ft pc) st = (ls, t, st')"
      by (metis prod_cases3)
    have "ro_op (readRegisterOp oob p ft pc) = LUAU_INSN_OP (codeAt oob p pc)" by (simp add: readRegisterOp_def Let_def)
    then have "blockLines oob fs f p ft stop (pc + getOpLength (ro_op (readRegisterOp oob p ft pc))) st' =
        blockLines oob' fs f p ft stop (pc + getOpLength (ro_op (readRegisterOp oob p ft pc))) st'"
      using 1(1) [OF True refl il [symmetric] refl refl] tiled_step(1) [OF 1(2) pc] 1(3) by simp
    then show ?thesis
      using True il readRegisterOp_oob [OF 1(2) pc, of ft oob']
      by (simp add: blockLines.simps [of _ fs f p ft stop pc st] Let_def)
  qed
qed

lemma registerBlocks_oob: "proto_ok oob p \<Longrightarrow> registerBlocks oob (Some p) = registerBlocks oob' (Some p)"
proof (cases "0 < sizecode p")
  case True
  assume ok: "proto_ok oob p"
  have dec: "decodeCode oob p = decodeCode oob' p" by (rule decodeCode_oob [OF ok])
  then have "proto_ok oob' p" using ok by (simp add: proto_ok_def)
  then show ?thesis using registerBlocks_eq [OF ok True] registerBlocks_eq [of oob' p] True dec by (simp add: irBlocks_def)
qed (simp add: registerBlocks_def)

text \<open>Every block starts at a decoded instruction and ends within the code.\<close>

lemma registerBlocks_tiled:
  assumes ok: "proto_ok oob p" and b: "(first, stop) \<in> set (registerBlocks oob (Some p))"
  shows "tiled oob p first" "int stop \<le> sizecode p"
proof -
  note acc = accepted_layout [OF ok]
  have code: "0 < sizecode p" using b by (auto simp: registerBlocks_def split: if_splits)
  have starts: "registerStarts oob p = block_starts (nat (sizecode p)) (decodeCode oob p)"
    by (rule registerStarts_eq [OF acc(1,2) _ acc(3)]) (use code in simp)
  have offset: "\<exists>i\<in>set (decodeCode oob p). i_offset i = x" if "x \<in> set (registerStarts oob p)" for x
    using leader_offset [OF acc(1) _ acc(3), of x] that code starts by force
  have "first \<in> set (registerStarts oob p)" "stop \<in> set (registerStarts oob p) \<or> stop = nat (sizecode p)"
    using b code set_zip_leftD [of first stop] set_zip_rightD [of first stop]
    by (force simp: registerBlocks_def Let_def dest: list.set_sel(2) [rotated])+
  then show "tiled oob p first" "int stop \<le> sizecode p"
    using offset tiled_offset [OF tiled_start [OF ok]] decodeFrom_mem [of _ oob p 0] code
    by (force simp: decodeCode_def)+
qed

lemma branchBody_oob:
  assumes ok: "proto_ok oob p" and n: "n < length (registerBlocks oob (Some p))"
  shows "branchBody oob fs f p (registerBlocks oob (Some p)) n = branchBody oob' fs f p (registerBlocks oob (Some p)) n"
proof -
  let ?b = "registerBlocks oob (Some p) ! n"
  have "(fst ?b, snd ?b) \<in> set (registerBlocks oob (Some p))" using n by simp
  from blockLines_oob [OF registerBlocks_tiled [OF ok this]] show ?thesis unfolding branchBody_def by metis
qed

lemma functionLines_oob:
  assumes "\<And>p. fi_proto f = Some p \<Longrightarrow> proto_ok oob p"
  shows "functionLines oob fs f = functionLines oob' fs f"
proof (cases "fi_proto f")
  case None
  then show ?thesis by (simp add: functionLines_def dispatchLines_def registerBlocks_def)
next
  case (Some p)
  then have ok: "proto_ok oob p" using assms by blast
  have bodies: "map (\<lambda>n. branchTest (registerBlocks oob (Some p)) n # branchBody oob fs f p (registerBlocks oob (Some p)) n)
      [0..<length (registerBlocks oob (Some p))] =
    map (\<lambda>n. branchTest (registerBlocks oob (Some p)) n # branchBody oob' fs f p (registerBlocks oob (Some p)) n)
      [0..<length (registerBlocks oob (Some p))]"
  proof (intro map_cong refl arg_cong [where f = "\<lambda>x. branchTest (registerBlocks oob (Some p)) _ # x"])
    fix n assume "n \<in> set [0..<length (registerBlocks oob (Some p))]"
    then show "branchBody oob fs f p (registerBlocks oob (Some p)) n = branchBody oob' fs f p (registerBlocks oob (Some p)) n"
      by (intro branchBody_oob [OF ok]) simp
  qed
  show ?thesis
    unfolding functionLines_def dispatchLines_def Some Let_def option.case bodies
    unfolding registerBlocks_oob [OF ok, of oob'] by (rule refl)
qed

lemma renderRegisters_oob:
  assumes "tree_ok oob [root]"
  shows "renderRegisters oob root = renderRegisters oob' root"
proof -
  have "functionLines oob fs f = functionLines oob' fs f" if "f \<in> set (functionsOfTree root)" for fs f
  proof (rule functionLines_oob)
    fix p assume "fi_proto f = Some p"
    then have "p \<in> set (listed (functionsOfTree root))" using that by (force simp: listed_def)
    then show "proto_ok oob p" using assms by (auto simp: functionsOfTree_ok tree_ok_def)
  qed
  then have "map (\<lambda>f. concat (functionLines oob (functionsOfTree root) f)) (functionsOfTree root) =
      map (\<lambda>f. concat (functionLines oob' (functionsOfTree root) f)) (functionsOfTree root)" by simp
  then show ?thesis unfolding renderRegisters_def Let_def by (rule arg_cong)
qed

lemma scanNeeds_oob: "tiled oob p pc \<Longrightarrow> scanNeeds oob p pc = scanNeeds oob' p pc"
proof (induction oob p pc rule: scanNeeds.induct)
  case (1 oob p pc)
  then show ?case
    using tiled_step(1) [OF 1(2)] tiled_step(3) [OF 1(2), of oob'] by (simp add: scanNeeds.simps [of _ p pc] Let_def)
qed

lemma treeNeeds_oob: "tree_ok oob [q] \<Longrightarrow> treeNeeds oob q = treeNeeds oob' q"
  "tree_ok oob qs \<Longrightarrow> anyNeeds oob qs = anyNeeds oob' qs"
proof (induction oob q and oob qs rule: treeNeeds_anyNeeds.induct)
  case (2 oob p)
  then show ?case using scanNeeds_oob [OF tiled_start, of oob p oob'] by simp
next
  case (4 oob q qs)
  then show ?case by (cases q) auto
qed simp_all

lemma decompile_oob: "decompile tools oob8 oob bytecode = decompile tools oob8' oob' bytecode"
proof (cases "\<exists>p. loadBytecode oob8 oob (t_load tools) bytecode = Some (Inr p)")
  case False
  then show ?thesis
    using loadBytecode_oob [of oob8 oob "t_load tools" bytecode oob8' oob']
    by (auto simp: decompile_def split: option.splits sum.splits)
next
  case True
  then obtain p where load: "loadBytecode oob8 oob (t_load tools) bytecode = Some (Inr p)" by blast
  then obtain m where "buildModule oob (Some p) = Some (Inr m)"
    using loadBytecode_cases [of oob8 oob "t_load tools" bytecode] by auto
  then obtain t where "validateProto oob (Some p) 128 1000000 = Inr t" using buildModule_sound by blast
  then have ok: "tree_ok oob [Some p]" by (rule accepted_tree_ok)
  have fallback: "registerFallback tools oob p = registerFallback tools oob' p"
    unfolding registerFallback_def renderRegisters_oob [OF ok, of oob'] by (rule refl)
  have load': "loadBytecode oob8' oob' (t_load tools) bytecode = Some (Inr p)"
    using load loadBytecode_oob [of oob8 oob "t_load tools" bytecode oob8' oob'] by simp
  show ?thesis
    unfolding decompile_def load load' option.case sum.case fallback treeNeeds_oob(1) [OF ok, of oob'] by (rule refl)
qed

section \<open>The command line\<close>

text \<open>The surroundings with other values past the ends.\<close>

definition otherwise_past :: "u8 \<Rightarrow> u32 \<Rightarrow> surroundings \<Rightarrow> surroundings" where
  "otherwise_past x y env = env\<lparr>e_oob8 := x, e_oob := y\<rparr>"

lemma otherwise_past_fields [simp]:
  "e_read (otherwise_past x y env) = e_read env" "e_write (otherwise_past x y env) = e_write env"
  "e_compile (otherwise_past x y env) = e_compile env" "e_newState (otherwise_past x y env) = e_newState env"
  "e_load (otherwise_past x y env) = e_load env" "e_decompile (otherwise_past x y env) = e_decompile env"
  "e_lua51 (otherwise_past x y env) = e_lua51 env"
  by (simp_all add: otherwise_past_def)

lemma runMain_oob: "runMain (otherwise_past x y env) name args = runMain env name args"
proof -
  have finish: "finish (otherwise_past x y env) = finish env"
    unfolding fun_eq_iff finish_def otherwise_past_fields by simp
  have deliver: "deliver (otherwise_past x y env) = deliver env"
    unfolding fun_eq_iff deliver_def otherwise_past_fields by simp
  have moonsec: "extractRun (otherwise_past x y env) = extractRun env"
    unfolding fun_eq_iff extractRun_def otherwise_past_fields by simp
  have lua51: "lua51Run (otherwise_past x y env) = lua51Run env"
    unfolding fun_eq_iff lua51Run_def finish otherwise_past_fields by simp
  have luau: "luauRun (otherwise_past x y env) = luauRun env"
    unfolding luauRun_def fun_eq_iff finish otherwise_past_fields
      inspectBytecode_oob [of "e_oob8 (otherwise_past x y env)" "e_oob (otherwise_past x y env)" _ _ _ "e_oob8 env" "e_oob env"]
    by simp
  have dispatch: "dispatch (otherwise_past x y env) = dispatch env"
    unfolding dispatch_def deliver moonsec lua51 luau otherwise_past_fields by (rule refl)
  show ?thesis unfolding runMain_def otherwise_past_fields dispatch by (rule refl)
qed

lemma withDecompiler_oob:
  "withDecompiler tools stopped (otherwise_past x y env) = otherwise_past x y (withDecompiler tools stopped env)"
proof -
  have "decompile tools x y = decompile tools (e_oob8 env) (e_oob env)" using decompile_oob by blast
  then show ?thesis by (cases env) (simp add: withDecompiler_def otherwise_past_def cong: if_cong)
qed

end
