(* ===== verification/Register_Properties.thy ===== *)
theory Register_Properties
  imports Past_The_End Module_Properties Lua51_Report
begin

text \<open>
  The properties of the register-state renderer and of \<^verbatim>\<open>decompile\<close> (\<^verbatim>\<open>RegisterDecompile.cpp\<close> and
  \<^verbatim>\<open>Decompile.cpp\<close>), with concrete prototypes at which they are applied.
\<close>

section \<open>The functions of the text\<close>





section \<open>Branches\<close>

text \<open>
  C11: In an accepted tree the blocks of the renderer are the basic blocks of the IR. The branch of a
  block ends with a line that returns or gives \<^verbatim>\<open>pc\<close> a value, and no other line of it does. The values, apart
  from the -1 of control that falls off the last block, are exactly the starts of the successors of the
  block, with three exceptions: a \<^verbatim>\<open>LOADB\<close> that skips names its target alone, a fast call names the block
  behind it alone (its fallback), and so does \<^verbatim>\<open>CMPPROTO\<close>, whose target is lost.
\<close>

theorem register_branches_follow_blocks:
  assumes valid: "validateProto oob root maxDepth maxInstructions = Inr t"
    and p: "(d, p) \<in> set (prototypesOf 0 root)" and code: "0 < sizecode p"
  defines "bs \<equiv> registerBlocks oob (Some p)" and "ir \<equiv> irBlocks oob p"
  shows "bs = map (\<lambda>b. (b_start b, nat (b_end b + 1))) ir \<and>
    (\<forall>b<length ir. \<exists>names. branchBody oob fs f p bs b \<noteq> [] \<and>
       transfer_line names (last (branchBody oob fs f p bs b)) \<and>
       list_all quiet_line (butlast (branchBody oob fs f p bs b)) \<and>
       set names - {-1} = followed_starts ir b (decodeCode oob p ! last (b_instructions (ir ! b))) \<and>
       set names - {-1} \<subseteq> successor_starts ir b \<and> (-1 \<in> set names \<longrightarrow> b + 1 = length ir))"
proof -
  have ok: "proto_ok oob p"
    using validateOne_tree(1) [OF valid [unfolded validateProto_def]] p by auto
  have eq: "bs = map (\<lambda>b. (b_start b, nat (b_end b + 1))) ir"
    unfolding bs_def ir_def by (rule registerBlocks_eq [OF ok code])
  have "\<exists>names. branchBody oob fs f p bs b \<noteq> [] \<and>
       transfer_line names (last (branchBody oob fs f p bs b)) \<and>
       list_all quiet_line (butlast (branchBody oob fs f p bs b)) \<and>
       set names - {-1} = followed_starts ir b (decodeCode oob p ! last (b_instructions (ir ! b))) \<and>
       set names - {-1} \<subseteq> successor_starts ir b \<and> (-1 \<in> set names \<longrightarrow> b + 1 = length ir)" if "b < length ir" for b
    using that branch_names_correct [OF ok code, of b] branchBody_shape [OF ok code, of b fs f]
    unfolding bs_def ir_def by (intro exI conjI impI) assumption+
  then show ?thesis using eq by blast
qed

lemma loop_ir: "irBlocks 0 (proto_of loopWords) = loopBlocks"
proof -
  have "nat (sizecode (proto_of loopWords)) = 5" by code_simp
  then show ?thesis by (simp only: irBlocks_def loopCode_def)
qed

theorem register_branches_follow_blocks_witness:
  "registerBlocks 0 (Some (proto_of loopWords)) = [(0, 1), (1, 2), (2, 4), (4, 5)] \<and>
   (\<exists>names. set names - {-1} = {2, 4} \<and>
      transfer_line names (last (branchBody 0 [] (hd (functionsOfTree (Some (proto_of loopWords)))) (proto_of loopWords)
        (registerBlocks 0 (Some (proto_of loopWords))) 1)))"
proof -
  let ?p = "proto_of loopWords"
  let ?f = "hd (functionsOfTree (Some ?p))"
  have p: "(0, ?p) \<in> set (prototypesOf 0 (Some ?p))" by simp
  have code: "0 < sizecode ?p" by code_simp
  have "i_opcode (decodeCode 0 (proto_of loopWords) ! last (b_instructions (loopBlocks ! 1))) = LOP_JUMPIFNOT"
    unfolding loopBlocks_eq by code_simp
  then have plain: "followed_starts loopBlocks 1 (decodeCode 0 (proto_of loopWords) ! last (b_instructions (loopBlocks ! 1))) =
      successor_starts loopBlocks 1"
    by (simp add: followed_starts_def isFastCall_def)
  have starts: "successor_starts loopBlocks 1 = {2, 4}" "1 < length loopBlocks"
    "map (\<lambda>b. (b_start b, nat (b_end b + 1))) loopBlocks = [(0, 1), (1, 2), (2, 4), (4, 5)]"
    by (simp_all add: loopBlocks_eq successor_starts_def)
  note all = register_branches_follow_blocks [OF loop_validates p code, of "[]" ?f, unfolded loop_ir]
  show ?thesis using all starts plain by metis
qed

section \<open>What is decompiled\<close>

lemma luauRun_decompiled:
  assumes "luauRun (withDecompiler tools stopped env) opts bc = Some (0, es)" "o_format opts = ''lua'' \<or> o_format opts = ''luau''"
  obtains r where "decompile tools (e_oob8 env) (e_oob env) (bytes_of bc) = Some r" "\<not> starts_with ''error: '' r"
    "finish env opts False r (withNewline r) (withNewline r) = (0, es)"
proof -
  have prefix: "starts_with ''error:'' s" if "starts_with ''error: '' s" for s
  proof -
    have seven: "take 7 s = ''error: ''" using that unfolding starts_with_def by (simp add: eval_nat_numeral)
    have "take 6 s = take 6 (take 7 s)" by simp
    then have "take 6 s = ''error:''" unfolding seven by simp
    then show ?thesis unfolding starts_with_def by (simp add: eval_nat_numeral)
  qed
  have fin: "finish (withDecompiler tools stopped env) o' toCfg graph s s' = finish env o' toCfg graph s s'"
    for o' toCfg graph s s' by (simp add: withDecompiler_def finish_def Let_def cong: if_cong)
  show ?thesis
    using assms that prefix
    by (auto simp: luauRun_def fin split: if_splits option.splits decompile_outcome.splits)
      (auto simp: withDecompiler_def split: if_splits option.splits)
qed

lemma luauRun_valid:
  assumes "luauRun (withDecompiler tools stopped env) opts bc = Some (0, es)"
    and "o_format opts = ''lua'' \<or> o_format opts = ''luau''"
  shows "\<exists>r p v vs t. opcodeVariants (e_oob8 env) [] (bytes_of bc) = Inr vs \<and> v \<in> set vs \<and> t_load tools v = LoadedProto p \<and>
       validateProto (e_oob env) (Some p) 128 1000000 = Inr t \<and> reconstruction tools (e_oob env) p r \<and>
       t_parse tools r = None \<and> t_compile tools r \<noteq> [] \<and> (\<forall>e. t_load tools (bytes_of (t_compile tools r)) \<noteq> LoadFailed e) \<and>
       (if o_output opts = [] then es = [Out (withNewline r)]
        else \<exists>rest. es = Written (o_output opts) (withNewline r) # rest)"
proof -
  obtain r where r: "decompile tools (e_oob8 env) (e_oob env) (bytes_of bc) = Some r" "\<not> starts_with ''error: '' r"
    "finish env opts False r (withNewline r) (withNewline r) = (0, es)"
    using luauRun_decompiled [OF assms] .
  have "if o_output opts = [] then es = [Out (withNewline r)] else \<exists>rest. es = Written (o_output opts) (withNewline r) # rest"
    using r(3) by (auto simp: finish_def split: if_splits)
  then show ?thesis
    using decompile_cases [of tools "e_oob8 env" "e_oob env" "bytes_of bc"] r(1,2) validSource_accepts
    by (metis option.inject)
qed

text \<open>The bytecode that \<^verbatim>\<open>main\<close> hands to \<^verbatim>\<open>decompile\<close>: the input itself, or what the compiler makes of it.\<close>

definition bytecodeOf :: "surroundings \<Rightarrow> cli_options \<Rightarrow> string \<Rightarrow> string" where
  "bytecodeOf env opts input =
    (if \<not> o_compileSource opts \<or> isBytecode (bytes_of input) then input else e_compile env input)"

lemma dispatch_luau:
  assumes "dispatch env opts input = Some (0, es)" "\<not> isChunk input" "\<not> o_analyze opts"
    and "o_format opts = ''lua'' \<or> o_format opts = ''luau''"
  shows "luauRun env opts (bytecodeOf env opts input) = Some (0, es)"
  using assms by (auto simp: dispatch_def bytecodeOf_def Let_def split: if_splits)

text \<open>
  C13: \<^verbatim>\<open>decompile\<close> returns for every input. And when \<^verbatim>\<open>main\<close> decompiles in the Lua format (the default),
  without \<^verbatim>\<open>--analyze\<close>, an input that is no Lua 5.1 chunk and ends with code 0, what it prints or
  writes is, up to a line end, a source that Luau's parser takes without an error, that its compiler turns
  into bytecode, and whose bytecode its loader does not refuse. The source is that of the register-state
  renderer or of the lifter, for a prototype that was validated and that the loader made from one of the
  opcode decodings of the input (of the compiled input, for a text); the lifter's only where the
  renderer is not preferred and none of the texts known to be corrupt occurs.
\<close>

theorem printed_source_is_valid:
  "decompile tools oob8 oob bytecode \<noteq> None \<and>
   (args \<noteq> [] \<longrightarrow> parseArgs args defaultOptions = Accepted opts \<longrightarrow> e_read env (o_input opts) = Some input \<longrightarrow>
    \<not> isChunk input \<longrightarrow> \<not> o_analyze opts \<longrightarrow> o_format opts = ''lua'' \<or> o_format opts = ''luau'' \<longrightarrow>
    runMain (withDecompiler tools stopped env) name args = Some (0, es) \<longrightarrow>
    (\<exists>r p v vs t. opcodeVariants (e_oob8 env) [] (bytes_of (bytecodeOf env opts input)) = Inr vs \<and> v \<in> set vs \<and>
       t_load tools v = LoadedProto p \<and> validateProto (e_oob env) (Some p) 128 1000000 = Inr t \<and>
       reconstruction tools (e_oob env) p r \<and>
       t_parse tools r = None \<and> t_compile tools r \<noteq> [] \<and> (\<forall>e. t_load tools (bytes_of (t_compile tools r)) \<noteq> LoadFailed e) \<and>
       (if o_output opts = [] then es = [Out (withNewline r)]
        else \<exists>rest. es = Written (o_output opts) (withNewline r) # rest)))"
proof (intro conjI impI)
  show "decompile tools oob8 oob bytecode \<noteq> None"
    using decompile_cases [of tools oob8 oob bytecode] by auto
  have same: "e_read (withDecompiler tools stopped env) = e_read env"
    "bytecodeOf (withDecompiler tools stopped env) = bytecodeOf env"
    by (simp_all add: withDecompiler_def bytecodeOf_def fun_eq_iff)
  assume "args \<noteq> []" "parseArgs args defaultOptions = Accepted opts" "e_read env (o_input opts) = Some input"
    and lua: "\<not> isChunk input" "\<not> o_analyze opts" "o_format opts = ''lua'' \<or> o_format opts = ''luau''"
    and "runMain (withDecompiler tools stopped env) name args = Some (0, es)"
  then have "dispatch (withDecompiler tools stopped env) opts input = Some (0, es)"
    by (simp add: runMain_def same)
  from luauRun_valid [OF dispatch_luau [OF this lua] lua(3), unfolded same] show
    "\<exists>r p v vs t. opcodeVariants (e_oob8 env) [] (bytes_of (bytecodeOf env opts input)) = Inr vs \<and> v \<in> set vs \<and>
       t_load tools v = LoadedProto p \<and> validateProto (e_oob env) (Some p) 128 1000000 = Inr t \<and>
       reconstruction tools (e_oob env) p r \<and>
       t_parse tools r = None \<and> t_compile tools r \<noteq> [] \<and> (\<forall>e. t_load tools (bytes_of (t_compile tools r)) \<noteq> LoadFailed e) \<and>
       (if o_output opts = [] then es = [Out (withNewline r)]
        else \<exists>rest. es = Written (o_output opts) (withNewline r) # rest)" .
qed

text \<open>Tools that accept everything, and the smallest file.\<close>

definition sampleTools :: luau_tools where
  "sampleTools = \<lparr>t_load = \<lambda>v. LoadedProto (proto_of loopWords), t_parse = \<lambda>s. None, t_compile = \<lambda>s. ''x'', t_lift = \<lambda>p. None\<rparr>"

definition tinyText :: string where
  "tinyText = map (\<lambda>b. char_of (unat b)) tinyFile"

definition sampleSurroundings :: surroundings where
  "sampleSurroundings = \<lparr>e_read = \<lambda>s. Some tinyText, e_write = \<lambda>path s. True, e_compile = \<lambda>s. [], e_newState = True,
     e_load = \<lambda>v. NoPrototype, e_decompile = \<lambda>s n. TimedOut, e_lua51 = \<lambda>s mode. Inl [], e_oob8 = 0, e_oob = 0\<rparr>"

lemma tinyText_bytes: "bytes_of tinyText = tinyFile"
  by code_simp

lemma sample_decompiled:
  defines "r \<equiv> fst (renderRegisters 0 (Some (proto_of loopWords)))"
  shows "decompile sampleTools 0 0 tinyFile = Some r" "\<not> starts_with ''error:'' r" "r \<noteq> []"
proof -
  let ?p = "proto_of loopWords"
  have tree: "allLocalsOk (prototypesOf 0 (Some ?p))" by (simp add: proto_of_def allLocalsOk_def localsOk_def)
  obtain m where built: "buildModule 0 (Some ?p) = Some (Inr m)"
    using buildModule_accepted [OF loop_accepted] tree by auto
  have load: "loadBytecode 0 0 (t_load sampleTools) tinyFile = Some (Inr ?p)"
    by (simp add: loadBytecode_def tiny_variants sampleTools_def built)
  have needs: "treeNeeds 0 (Some ?p)" by code_simp
  have valid: "validSource sampleTools s = Inr ()" for s by (simp add: validSource_def sampleTools_def)
  have fs: "functionsOfTree (Some ?p) \<noteq> []" "fi_proto (hd (functionsOfTree (Some ?p))) = Some ?p"
    by (simp_all add: functionsOfTree_ok)
  have start: "\<exists>s. r = CHR ''-'' # s" "\<exists>e. renderRegisters 0 (Some ?p) = (r, e)"
    using fs by (simp_all add: r_def renderRegisters_def Let_def)
  then show "\<not> starts_with ''error:'' r" "r \<noteq> []" by (auto simp: starts_with_def)
  then show "decompile sampleTools 0 0 tinyFile = Some r"
    using start(2) by (auto simp: decompile_def load needs registerFallback_def valid simp del: treeNeeds.simps)
qed

lemma tiny_not_chunk: "\<not> isChunk tinyText"
  by code_simp

lemma tiny_bytecode: "isBytecode (bytes_of tinyText)"
  by (simp add: isBytecode_def tinyText_bytes tiny_parse)

theorem printed_source_is_valid_witness:
  "\<exists>r. t_parse sampleTools r = None \<and> reconstruction sampleTools 0 (proto_of loopWords) r \<and>
    runMain (withDecompiler sampleTools (\<lambda>bc n. False) sampleSurroundings) ''byteveil'' [''a.luac''] =
      Some (0, [Out (withNewline r)])"
proof -
  let ?env = "withDecompiler sampleTools (\<lambda>bc n. False) sampleSurroundings"
  let ?opts = "defaultOptions\<lparr>o_input := ''a.luac''\<rparr>"
  let ?r = "fst (renderRegisters 0 (Some (proto_of loopWords)))"
  have parsed: "parseArgs [''a.luac''] defaultOptions = Accepted ?opts"
    by (simp add: defaultOptions_def) code_simp
  have fields: "o_format ?opts = ''lua''" "o_output ?opts = []" "\<not> o_analyze ?opts" "o_input ?opts = ''a.luac''"
    "o_compileSource ?opts"
    by (simp_all add: defaultOptions_def)
  have luau: "luauRun ?env ?opts tinyText = Some (0, [Out (withNewline ?r)])"
    using sample_decompiled fields
    by (simp add: luauRun_def withDecompiler_def sampleSurroundings_def finish_def tinyText_bytes)
  have read: "e_read sampleSurroundings (o_input ?opts) = Some tinyText" "e_read ?env (o_input ?opts) = Some tinyText"
    by (simp_all add: withDecompiler_def sampleSurroundings_def)
  have "dispatch ?env ?opts tinyText = luauRun ?env ?opts tinyText"
    unfolding dispatch_def Let_def using tiny_not_chunk tiny_bytecode fields by simp
  then have run: "runMain ?env ''byteveil'' [''a.luac''] = Some (0, [Out (withNewline ?r)])"
    unfolding runMain_def parsed using luau read(2) by simp
  obtain r p v vs t where printed: "t_load sampleTools v = LoadedProto p" "reconstruction sampleTools 0 p r"
    "t_parse sampleTools r = None" "[Out (withNewline ?r)] = [Out (withNewline r)]"
    using printed_source_is_valid [of sampleTools 0 0 "[]" "[''a.luac'']" ?opts sampleSurroundings tinyText "\<lambda>bc n. False"
        "''byteveil''" "[Out (withNewline ?r)]"] run parsed read(1) tiny_not_chunk fields(1-3)
    by (auto simp: sampleSurroundings_def simp del: parseArgs.simps)
  then show ?thesis using run by (auto simp: sampleTools_def simp del: parseArgs.simps)
qed

section \<open>Reads behind the end\<close>

text \<open>
  C2: What \<^verbatim>\<open>main\<close> prints, writes and returns does not depend on memory behind the end of what it was
  given. \<^verbatim>\<open>validateOne\<close> reads the word behind every instruction before it knows that there is one, also at
  the end of the code, and the scan of the input may read the byte behind it; with any other word and
  any other byte there (each the same for all such reads) every command line has the same outputs and
  the same exit code, for every input, compiler, loader and lifter.
\<close>

theorem memory_past_the_end_irrelevant:
  "runMain (withDecompiler tools stopped (env\<lparr>e_oob8 := x, e_oob := y\<rparr>)) name args =
   runMain (withDecompiler tools stopped env) name args"
  using withDecompiler_oob [of tools stopped x y env] runMain_oob [of x y "withDecompiler tools stopped env" name args]
  by (simp add: otherwise_past_def)

section \<open>Strings\<close>

text \<open>String constants are written like those of the Lua 5.1 reader and are read back by the literal lexer.\<close>

lemma stringText_luaQuote: "stringText = luaQuote"
proof -
  have "escapedByte c = quoteChar c" for c
    unfolding escapedByte_def quoteChar_def threeDigits_def by (rule refl)
  then have "escapedByte = quoteChar" by (rule ext)
  then show ?thesis by (intro ext) (simp add: stringText_def luaQuote_def)
qed

theorem register_strings_read_back:
  "map lit_value (stringsFrom n (join '', '' (map stringText ss))) = ss"
  unfolding stringText_luaQuote by (rule stringsFrom_quotes)

end
