(* ===== verification/Spec2Isabelle.thy ===== *)
theory Spec2Isabelle
  imports IR_SSA_Properties MoonSec_Properties Module_Properties Lua51_Properties Lua51_Structured_Properties Register_Properties
begin

text \<open>
  ByteVeil is a static analyser and decompiler for Luau bytecode, Lua 5.1 chunks and protected Lua
  sources. This library models the program's own C++ code under \<^verbatim>\<open>src/byteveil_decompiler/\<close> and
  \<^verbatim>\<open>src/byteveil_cli.cpp\<close> as functions of HOL and proves what makes its parts correct. The Luau
  implementation under \<^verbatim>\<open>src/luau/\<close> is third-party code: only the headers the program reads
  instruction words with are modelled, and the loader \<^verbatim>\<open>luau_load\<close>, the compiler and the state are
  parameters.

  How the program works. The command line reads a file and dispatches on the format. The static
  formats describe the text of the input without running it (\<^verbatim>\<open>Protectors.cpp\<close>, \<^verbatim>\<open>Unpack.cpp\<close>,
  \<^verbatim>\<open>MoonSec.cpp\<close>). A Lua 5.1 chunk goes to \<^verbatim>\<open>Lua51.cpp\<close>, which parses, validates and prints it. All
  else is Luau: the bytecode is first normalised (\<^verbatim>\<open>RobloxBytecode.cpp\<close> proposes opcode decodings),
  loaded, validated, lifted into a neutral IR with control-flow, dominator, liveness and SSA facts
  (\<^verbatim>\<open>IR.cpp\<close>) and printed as JSON, disassembly, graph or a structured plan (\<^verbatim>\<open>Restructure.cpp\<close>).
  In the Lua format it is decompiled instead (\<^verbatim>\<open>Decompile.cpp\<close>): by a lifter to the library's syntax
  trees, or, where that is not safe, by a renderer that keeps registers and control flow explicit
  (\<^verbatim>\<open>RegisterDecompile.cpp\<close>); either result must pass the Luau parser, compiler and loader.

  The theories, bottom up.

  \<^item> \<^verbatim>\<open>BV_Prelude\<close>, \<^verbatim>\<open>Byte_Reader\<close>, \<^verbatim>\<open>Json_Text\<close>, \<^verbatim>\<open>Number_Text\<close>: results with error messages, C arrays,
    cursors over bytes, JSON text with its grammar, and the text of floating-point numbers.
  \<^item> \<^verbatim>\<open>Luau_Bytecode\<close>, \<^verbatim>\<open>Luau_Proto\<close>: instruction fields, lengths and jump targets of the headers, and
    the prototype \<^verbatim>\<open>luau_load\<close> hands over.
  \<^item> \<^verbatim>\<open>IR_Instruction\<close>, \<^verbatim>\<open>IR_Decode\<close>, \<^verbatim>\<open>IR_Validate\<close>: \<^verbatim>\<open>annotateInstruction\<close>, the decoding loop, and
    \<^verbatim>\<open>validateProto\<close> with every message.
  \<^item> \<^verbatim>\<open>IR_Blocks\<close>, \<^verbatim>\<open>IR_Reach\<close>, \<^verbatim>\<open>Sweep\<close>, \<^verbatim>\<open>IR_Dominators\<close>, \<^verbatim>\<open>IR_Loops\<close>, \<^verbatim>\<open>IR_PostDom\<close>, \<^verbatim>\<open>IR_Liveness\<close>,
    \<^verbatim>\<open>Tarjan\<close>, \<^verbatim>\<open>IR_SCC\<close>, \<^verbatim>\<open>Version_Flow\<close>, \<^verbatim>\<open>IR_SSA\<close>: the analyses of \<^verbatim>\<open>addFunction\<close>. The locale \<^verbatim>\<open>cfg\<close>
    is the interface the block builder provides (\<^verbatim>\<open>built\<close>); the locale \<^verbatim>\<open>descending_sweep\<close> is the
    shape of the fixed-point loops, \<^verbatim>\<open>version_flow\<close> that of the SSA loop, and \<^verbatim>\<open>search\<close> that of the
    component search, each interpreted on the code's own functions.
  \<^item> \<^verbatim>\<open>IR_Constants\<close>, \<^verbatim>\<open>IR_Function\<close>, \<^verbatim>\<open>IR_Build\<close>, \<^verbatim>\<open>IR_Analysis\<close>, \<^verbatim>\<open>IR_Accept\<close>, \<^verbatim>\<open>IR_Text\<close>,
    \<^verbatim>\<open>Restructure\<close>, \<^verbatim>\<open>Load_Inspect\<close>: the whole of \<^verbatim>\<open>addFunction\<close>, \<^verbatim>\<open>validateAnalysis\<close>, \<^verbatim>\<open>buildModule\<close>, the
    reports, and the choice among the decodings.
  \<^item> \<^verbatim>\<open>Roblox_Bytecode\<close>: the reader of Luau files and the opcode decodings.
  \<^item> \<^verbatim>\<open>MoonSec_Text\<close>, \<^verbatim>\<open>MoonSec_Tree\<close>, \<^verbatim>\<open>MoonSec_Extract\<close>, \<^verbatim>\<open>MoonSec_Serial\<close>, \<^verbatim>\<open>MoonSec_Search\<close>: the
    lexer of literals, the two readers of the serialized tree, the search for layout and tags, an
    encoder as the specification of the format, and the correctness of the search.
  \<^item> \<^verbatim>\<open>Lua51_Chunk\<close>, \<^verbatim>\<open>Lua51_Proto\<close>, \<^verbatim>\<open>Lua51_Names\<close>, \<^verbatim>\<open>Lua51_Flow\<close>, \<^verbatim>\<open>Lua51_Calls\<close>, \<^verbatim>\<open>Lua51_Text\<close>: the reader
    and validator of Lua 5.1 chunks, the naming and folding functions of its decompiler, control-flow
    regions, call recognition, and the reports.
  \<^item> \<^verbatim>\<open>Lua51_Accept\<close>, \<^verbatim>\<open>Lua51_Frame\<close>, \<^verbatim>\<open>Lua51_Region\<close>, \<^verbatim>\<open>Lua51_Report\<close>: what follows for a chunk the reader
    accepts: the layout of its code, where control can go, which registers are used, the numbering and
    the totals of the prototype tree, the closed regions, and the printed strings and JSON.
  \<^item> \<^verbatim>\<open>Lua51_Emit\<close>, \<^verbatim>\<open>Lua51_Dispatch\<close>, \<^verbatim>\<open>Lua51_Machine\<close>: the readable text of single instructions, the
    program-counter dispatcher with the choice of the readable mode, and the proof that the emitted
    dispatcher takes its control variable along the control flow.
  \<^item> \<^verbatim>\<open>Lua51_Structure\<close>, \<^verbatim>\<open>Lua51_Guards\<close>, \<^verbatim>\<open>Lua51_Conditions\<close>, \<^verbatim>\<open>Lua51_Branches\<close>, \<^verbatim>\<open>Lua51_Range\<close>: the
    structured writer \<^verbatim>\<open>emitRange\<close>. Each shape it recognises is a function to an optional plan, which lists
    the lines to write and the ranges to write between them, and where the walk goes on; \<^verbatim>\<open>planAt\<close> tries
    them in the order of the code, and \<^verbatim>\<open>writeRange\<close> carries the plans out. The bound \<^verbatim>\<open>rangeFuel\<close> on steps
    and nested ranges is cubic in the length of the code; \<^verbatim>\<open>Lua51_Walk\<close> proves that every plan names
    only smaller ranges, so that the bound is never reached, and \<^verbatim>\<open>Lua51_Nesting\<close> that every plan is well
    nested. \<^verbatim>\<open>Lua51_Inspect\<close> is \<^verbatim>\<open>inspect\<close>, and the command line with it.
  \<^item> \<^verbatim>\<open>Lua51_Dump\<close>: an encoder of chunks and the meaning of an encoded tree, which the reader refines.
  \<^item> \<^verbatim>\<open>Static_Reports\<close>, \<^verbatim>\<open>Command_Line\<close>: the static reports, and \<^verbatim>\<open>main\<close> with its options, messages and
    exit codes. Files, the compiler, the Luau state and the decompiler are fields of a record of
    surroundings; what is printed or written is a list of effects.
  \<^item> \<^verbatim>\<open>Register_Text\<close>, \<^verbatim>\<open>Register_Flow\<close>, \<^verbatim>\<open>Register_Tree\<close>: the register-state renderer, one function per
    group of cases of its switch; the proof that its branches are the basic blocks of the IR and lead to
    their successors, and the numbering of its functions. \<^verbatim>\<open>Luau_Decompile\<close>: \<^verbatim>\<open>decompile\<close>, with parser,
    compiler, loader and lifter as fields of a record, and the command line with it.

  The properties stand in the theories that end in \<^verbatim>\<open>_Properties\<close>.

  Conventions. A C++ function that throws or fills an error string returns a sum with the message on
  the left. Machine integers are words where the code computes with their bits, and integers where
  the code's values are bounded; the bounds are stated where they are used. A byte string is a list of characters.
  Loops over the control-flow graph that run to a fixed point are \<^verbatim>\<open>while_option\<close>, and they are proved to
  stop; recursive searches have fuel, and as much fuel as there are nodes is proved to be enough;
  the recursive readers stop at the nesting limits of the code.

  Not modelled: \<^verbatim>\<open>liftProto\<close> and \<^verbatim>\<open>liftFunctionBody\<close> of \<^verbatim>\<open>Lua51.cpp\<close>, which nothing calls; the lifter of
  the Luau decompiler (\<^verbatim>\<open>BlockGen\<close>, \<^verbatim>\<open>AstGen\<close>), which builds syntax trees of the third-party library
  for its printer; the watchdog thread and the address-space limit of the command line; and
  exhaustion of memory.
\<close>

end
